(* ===== verification/Py_Prelude.thy ===== *)
theory Py_Prelude
  imports Complex_Main "HOL-Library.AList" "HOL-Library.List_Lexorder" "HOL-Library.Char_ord"
    "HOL-Library.Product_Lexorder"
begin

text \<open>
  What every component of the model shares: the Python values the server computes with (clock
  readings, strings, insertion-ordered dictionaries), the library functions it applies to them,
  and the lemmas about them that the component proofs rest on.

  \<^item> A clock reading is a \<^typ>\<open>real\<close>; the rounding of the 64-bit floats is not modelled.
  \<^item> A string is a list of characters, each a code point below 256 (Latin-1), on which
    \<open>str.strip\<close>, \<open>str.isalnum\<close>, \<open>str.lower\<close> and the rest are as in CPython.
  \<^item> A \<open>dict\<close> is an association list in insertion order: assignment to a key that is there
    keeps its place, a new key goes to the end (\<^const>\<open>AList.update\<close>), which is what \<open>min\<close>,
    \<open>next\<close> and the \<open>for\<close> loops over a dictionary observe.
  \<^item> An operation that may raise returns the new state with \<open>error + result\<close>: a mutation
    made before the exception stays.
\<close>

named_theorems dict_simps \<open>lookup and membership after a dictionary operation\<close>
named_theorems dict_intros \<open>distinct keys and size after a dictionary operation\<close>

section \<open>Clock readings\<close>

type_synonym time = real

definition py_int :: "real \<Rightarrow> int" where
  "py_int x = (if 0 \<le> x then \<lfloor>x\<rfloor> else \<lceil>x\<rceil>)"

lemma py_int_of_int [simp]: "py_int (of_int n) = n"
  by (simp add: py_int_def)

lemma py_int_numeral [simp]: "py_int (numeral n) = numeral n" "py_int 0 = 0" "py_int 1 = 1"
  by (simp_all add: py_int_def)

lemma py_int_le: "0 \<le> x \<Longrightarrow> of_int (py_int x) \<le> x"
  by (simp add: py_int_def)

lemma py_int_less: "x < of_int (py_int x) + 1"
  by (auto simp: py_int_def) linarith

lemma py_int_mono: "x \<le> y \<Longrightarrow> py_int x \<le> py_int y"
  by (auto simp: py_int_def floor_mono ceiling_mono intro: order_trans [of _ 0])

section \<open>Strings\<close>

definition code :: "char \<Rightarrow> nat" where
  "code c = of_char c"

definition is_space :: "char \<Rightarrow> bool" where
  "is_space c \<longleftrightarrow> (let n = code c in 9 \<le> n \<and> n \<le> 13 \<or> 28 \<le> n \<and> n \<le> 32 \<or> n = 133 \<or> n = 160)"

definition is_digit :: "char \<Rightarrow> bool" where
  "is_digit c \<longleftrightarrow> (let n = code c in 48 \<le> n \<and> n \<le> 57)"

definition is_alnum :: "char \<Rightarrow> bool" where
  "is_alnum c \<longleftrightarrow> (let n = code c in
     48 \<le> n \<and> n \<le> 57 \<or> 65 \<le> n \<and> n \<le> 90 \<or> 97 \<le> n \<and> n \<le> 122 \<or>
     n \<in> set [170, 178, 179, 181, 185, 186, 188, 189, 190] \<or>
     192 \<le> n \<and> n \<noteq> 215 \<and> n \<noteq> 247)"

definition is_lower_hex :: "char \<Rightarrow> bool" where
  "is_lower_hex c \<longleftrightarrow> c \<in> set ''0123456789abcdef''"

definition is_hex :: "char \<Rightarrow> bool" where
  "is_hex c \<longleftrightarrow> c \<in> set ''0123456789abcdefABCDEF''"

definition lower_char :: "char \<Rightarrow> char" where
  "lower_char c = (let n = code c in
     if 65 \<le> n \<and> n \<le> 90 \<or> 192 \<le> n \<and> n \<le> 222 \<and> n \<noteq> 215 then char_of (n + 32) else c)"

definition upper_ascii_char :: "char \<Rightarrow> char" where
  "upper_ascii_char c = (let n = code c in if 97 \<le> n \<and> n \<le> 122 then char_of (n - 32) else c)"

definition str_lower :: "string \<Rightarrow> string" where
  "str_lower = map lower_char"

definition lstrip_of :: "char list \<Rightarrow> string \<Rightarrow> string" where
  "lstrip_of cs = dropWhile (\<lambda>c. c \<in> set cs)"

definition rstrip_of :: "char list \<Rightarrow> string \<Rightarrow> string" where
  "rstrip_of cs s = rev (dropWhile (\<lambda>c. c \<in> set cs) (rev s))"

definition strip_of :: "char list \<Rightarrow> string \<Rightarrow> string" where
  "strip_of cs s = rstrip_of cs (lstrip_of cs s)"

definition str_strip :: "string \<Rightarrow> string" where
  "str_strip s = rev (dropWhile is_space (rev (dropWhile is_space s)))"

definition starts_with :: "string \<Rightarrow> string \<Rightarrow> bool" where
  "starts_with s p \<longleftrightarrow> take (length p) s = p"

definition ends_with :: "string \<Rightarrow> string \<Rightarrow> bool" where
  "ends_with s p \<longleftrightarrow> starts_with (rev s) (rev p)"

definition replace_char :: "char \<Rightarrow> char \<Rightarrow> string \<Rightarrow> string" where
  "replace_char a b = map (\<lambda>c. if c = a then b else c)"

fun split_on :: "char \<Rightarrow> string \<Rightarrow> string list" where
  "split_on c [] = [[]]"
| "split_on c (x # xs) =
     (if x = c then [] # split_on c xs
      else (case split_on c xs of [] \<Rightarrow> [[x]] | y # ys \<Rightarrow> (x # y) # ys))"

fun join_with :: "string \<Rightarrow> string list \<Rightarrow> string" where
  "join_with sep [] = []"
| "join_with sep [x] = x"
| "join_with sep (x # y # ys) = x @ sep @ join_with sep (y # ys)"

lemma split_on_not_Nil [simp]: "split_on c s \<noteq> []"
  by (induction s) (auto split: list.split)

lemma split_on_no_sep: "x \<in> set (split_on c s) \<Longrightarrow> c \<notin> set x"
proof (induction s arbitrary: x)
  case Nil
  then show ?case by simp
next
  case (Cons a s)
  then show ?case by (cases "split_on c s") (auto split: if_splits)
qed

lemma split_on_single: "c \<notin> set s \<Longrightarrow> split_on c s = [s]"
  by (induction s) auto

lemma split_on_append: "c \<notin> set s \<Longrightarrow> split_on c (s @ c # t) = s # split_on c t"
  by (induction s) auto

lemma join_split: "join_with [c] (split_on c s) = s"
proof (induction s)
  case Nil
  then show ?case by simp
next
  case (Cons a s)
  then show ?case
  proof (cases "split_on c s")
    case Nil
    then show ?thesis by simp
  next
    case (Cons y ys)
    with Cons.IH show ?thesis by (cases ys) auto
  qed
qed

lemma split_join:
  assumes "xs \<noteq> []" and "\<forall>x \<in> set xs. c \<notin> set x"
  shows "split_on c (join_with [c] xs) = xs"
  using assms by (induction "[c]" xs rule: join_with.induct) (auto simp: split_on_single split_on_append)

lemma starts_with_append [simp]: "starts_with (p @ s) p"
  by (simp add: starts_with_def)

lemma starts_with_refl [simp]: "starts_with p p"
  by (simp add: starts_with_def)

lemma starts_with_Nil [simp]: "starts_with s []"
  by (simp add: starts_with_def)

lemma starts_with_iff: "starts_with s p \<longleftrightarrow> (\<exists>t. s = p @ t)"
  by (auto simp: starts_with_def) (metis append_take_drop_id)

lemma starts_with_trans: "starts_with a b \<Longrightarrow> starts_with b c \<Longrightarrow> starts_with a c"
  by (auto simp: starts_with_iff)

lemma str_strip_Nil [simp]: "str_strip [] = []"
  by (simp add: str_strip_def)

lemma dropWhile_hd: "dropWhile P xs \<noteq> [] \<Longrightarrow> \<not> P (hd (dropWhile P xs))"
  by (induction xs) auto

lemma length_str_strip: "length (str_strip s) \<le> length s"
  unfolding str_strip_def
  by (metis length_dropWhile_le length_rev le_trans)

section \<open>Dictionaries in insertion order\<close>

type_synonym ('k, 'v) dict = "('k \<times> 'v) list"

abbreviation dget :: "('k, 'v) dict \<Rightarrow> 'k \<Rightarrow> 'v option" where
  "dget d k \<equiv> map_of d k"

abbreviation dput :: "'k \<Rightarrow> 'v \<Rightarrow> ('k, 'v) dict \<Rightarrow> ('k, 'v) dict" where
  "dput \<equiv> AList.update"

abbreviation dpop :: "'k \<Rightarrow> ('k, 'v) dict \<Rightarrow> ('k, 'v) dict" where
  "dpop \<equiv> AList.delete"

abbreviation dkeys :: "('k, 'v) dict \<Rightarrow> 'k list" where
  "dkeys d \<equiv> map fst d"

abbreviation dvals :: "('k, 'v) dict \<Rightarrow> 'v list" where
  "dvals d \<equiv> map snd d"

definition dict_ok :: "('k, 'v) dict \<Rightarrow> bool" where
  "dict_ok d \<longleftrightarrow> distinct (dkeys d)"

definition dkeep :: "('v \<Rightarrow> bool) \<Rightarrow> ('k, 'v) dict \<Rightarrow> ('k, 'v) dict" where
  "dkeep P d = filter (\<lambda>kv. P (snd kv)) d"

definition dmap :: "('v \<Rightarrow> 'w) \<Rightarrow> ('k, 'v) dict \<Rightarrow> ('k, 'w) dict" where
  "dmap f d = map (\<lambda>(k, v). (k, f v)) d"

text \<open>\<open>min(d, key=lambda k: f(d[k]))\<close>: the first key whose value is least.\<close>

fun argmin_from :: "('v \<Rightarrow> 'o::linorder) \<Rightarrow> 'k \<Rightarrow> 'v \<Rightarrow> ('k, 'v) dict \<Rightarrow> 'k" where
  "argmin_from f k v [] = k"
| "argmin_from f k v ((k', v') # d) =
     (if f v' < f v then argmin_from f k' v' d else argmin_from f k v d)"

fun argmin :: "('v \<Rightarrow> 'o::linorder) \<Rightarrow> ('k, 'v) dict \<Rightarrow> 'k option" where
  "argmin f [] = None"
| "argmin f ((k, v) # d) = Some (argmin_from f k v d)"

text \<open>A \<open>for\<close> loop over the values that mutates the first match and returns.\<close>

fun update_first :: "('v \<Rightarrow> bool) \<Rightarrow> ('v \<Rightarrow> 'v) \<Rightarrow> ('k, 'v) dict \<Rightarrow> ('k, 'v) dict" where
  "update_first P f [] = []"
| "update_first P f ((k, v) # d) = (if P v then (k, f v) # d else (k, v) # update_first P f d)"

lemma dict_ok_Nil [simp, dict_intros]: "dict_ok []"
  by (simp add: dict_ok_def)

lemma dict_ok_put [simp, dict_intros]: "dict_ok d \<Longrightarrow> dict_ok (dput k v d)"
  by (simp add: dict_ok_def distinct_update)

lemma dict_ok_pop [simp, dict_intros]: "dict_ok d \<Longrightarrow> dict_ok (dpop k d)"
  by (simp add: dict_ok_def distinct_delete)

lemma dict_ok_keep [simp, dict_intros]: "dict_ok d \<Longrightarrow> dict_ok (dkeep P d)"
  by (induction d) (auto simp: dict_ok_def dkeep_def)

lemma dict_ok_map [simp, dict_intros]: "dict_ok (dmap f d) \<longleftrightarrow> dict_ok d"
  by (simp add: dict_ok_def dmap_def comp_def case_prod_beta)

lemma dkeys_update_first [simp]: "dkeys (update_first P f d) = dkeys d"
  by (induction P f d rule: update_first.induct) auto

lemma dict_ok_update_first [simp, dict_intros]: "dict_ok (update_first P f d) \<longleftrightarrow> dict_ok d"
  by (simp add: dict_ok_def)

lemma length_update_first [simp]: "length (update_first P f d) = length d"
  by (induction P f d rule: update_first.induct) auto

lemma length_keep: "length (dkeep P d) \<le> length d"
  by (simp add: dkeep_def)

lemma dkeep_keep [simp]: "dkeep P (dkeep P d) = dkeep P d"
  by (simp add: dkeep_def)

lemma set_dkeep: "kv \<in> set (dkeep P d) \<longleftrightarrow> kv \<in> set d \<and> P (snd kv)"
  by (auto simp: dkeep_def)

lemma keys_dkeep: "k \<in> set (dkeys (dkeep P d)) \<Longrightarrow> k \<in> set (dkeys d)"
  by (auto simp: dkeep_def)

lemma dget_put [dict_simps]: "dget (dput k v d) k' = (if k' = k then Some v else dget d k')"
  by (simp add: update_conv')

lemma dget_pop [dict_simps]: "dget (dpop k d) k' = (if k' = k then None else dget d k')"
  by (simp add: delete_conv')

lemma dget_None_iff: "dget d k = None \<longleftrightarrow> k \<notin> set (dkeys d)"
  by (simp add: map_of_eq_None_iff)

lemma dget_key: "dget d k = Some v \<Longrightarrow> k \<in> set (dkeys d)"
  by (metis dget_None_iff option.distinct(1))

lemma dget_keep [dict_simps]:
  assumes "dict_ok d"
  shows "dget (dkeep P d) k = (case dget d k of None \<Rightarrow> None | Some v \<Rightarrow> if P v then Some v else None)"
  using assms
proof (induction d)
  case Nil
  then show ?case by (simp add: dkeep_def)
next
  case (Cons a d)
  then have "dict_ok d" and "fst a \<notin> set (dkeys d)" by (auto simp: dict_ok_def)
  moreover from this have "dget (dkeep P d) (fst a) = None"
    unfolding dget_None_iff by (meson keys_dkeep)
  moreover have "dget (dkeep P d) k = (case dget d k of None \<Rightarrow> None | Some v \<Rightarrow> if P v then Some v else None)"
    using Cons.IH \<open>dict_ok d\<close> by blast
  moreover have "dget d (fst a) = None"
    using \<open>fst a \<notin> set (dkeys d)\<close> by (simp add: dget_None_iff)
  ultimately show ?case by (cases a) (auto simp: dkeep_def)
qed

lemma dget_map [dict_simps]: "dget (dmap f d) k = map_option f (dget d k)"
  by (induction d) (auto simp: dmap_def)

lemma dget_set: "dict_ok d \<Longrightarrow> dget d k = Some v \<longleftrightarrow> (k, v) \<in> set d"
  by (simp add: dict_ok_def)

lemma length_put: "length (dput k v d) = (if k \<in> set (dkeys d) then length d else Suc (length d))"
  by (induction d) auto

lemma dput_dput [simp]: "dput k v (dput k w d) = dput k v d"
  by (induction d) auto

lemma dput_new: "k \<notin> set (dkeys d) \<Longrightarrow> dput k v d = d @ [(k, v)]"
  by (induction d) auto

lemma length_pop_le: "length (dpop k d) \<le> length d"
  by (simp add: length_delete_le)

lemma length_pop:
  assumes "dict_ok d" and "k \<in> set (dkeys d)"
  shows "Suc (length (dpop k d)) = length d"
  using assms
proof (induction d)
  case Nil
  then show ?case by simp
next
  case (Cons a d)
  then show ?case
    by (cases a) (auto simp: dict_ok_def intro: delete_idem)
qed

lemma argmin_from_key: "argmin_from f k v d \<in> insert k (set (dkeys d))"
  by (induction f k v d rule: argmin_from.induct) auto

lemma argmin_key: "argmin f d = Some k \<Longrightarrow> k \<in> set (dkeys d)"
  using argmin_from_key by (cases "(f, d)" rule: argmin.cases) fastforce+

lemma argmin_Some: "d \<noteq> [] \<Longrightarrow> \<exists>k. argmin f d = Some k"
  by (cases "(f, d)" rule: argmin.cases) auto

lemma argmin_from_le:
  assumes "dict_ok ((k, v) # d)"
  shows "\<exists>w. dget ((k, v) # d) (argmin_from f k v d) = Some w \<and> (\<forall>x \<in> set (v # dvals d). f w \<le> f x)"
  using assms
proof (induction f k v d rule: argmin_from.induct)
  case (1 f k v)
  then show ?case by simp
next
  case (2 f k v k' v' d)
  then have ok: "dict_ok ((k, v) # d)" "dict_ok ((k', v') # d)" "k \<noteq> k'"
    "k \<notin> set (dkeys d)" "k' \<notin> set (dkeys d)"
    by (auto simp: dict_ok_def)
  show ?case
  proof (cases "f v' < f v")
    case True
    with 2 ok obtain w where w: "dget ((k', v') # d) (argmin_from f k' v' d) = Some w"
      "\<forall>x \<in> set (v' # dvals d). f w \<le> f x" by blast
    have "argmin_from f k' v' d \<noteq> k"
      using argmin_from_key [of f k' v' d] ok by auto
    with True w show ?thesis by auto
  next
    case False
    with 2 ok obtain w where w: "dget ((k, v) # d) (argmin_from f k v d) = Some w"
      "\<forall>x \<in> set (v # dvals d). f w \<le> f x" by blast
    have "argmin_from f k v d \<noteq> k'"
      using argmin_from_key [of f k v d] ok by auto
    with False w show ?thesis by (auto intro: order_trans)
  qed
qed

lemma argmin_least:
  assumes "dict_ok d" and "argmin f d = Some k"
  shows "\<exists>w. dget d k = Some w \<and> (\<forall>x \<in> set (dvals d). f w \<le> f x)"
proof (cases d)
  case Nil
  with assms show ?thesis by simp
next
  case (Cons a d')
  obtain k0 v0 where a: "a = (k0, v0)" by (cases a)
  with Cons assms have "k = argmin_from f k0 v0 d'" and "dict_ok ((k0, v0) # d')" by simp_all
  with argmin_from_le [of k0 v0 d' f] show ?thesis by (simp add: Cons a)
qed

lemma dvals_update_first: "x \<in> set (dvals (update_first P f d)) \<Longrightarrow> x \<in> set (dvals d) \<or> (\<exists>y \<in> set (dvals d). P y \<and> x = f y)"
  by (induction P f d rule: update_first.induct) (auto split: if_splits)

lemma dget_update_first:
  "dget d k = Some v \<Longrightarrow> \<not> P v \<Longrightarrow> dget (update_first P f d) k = Some v"
  by (induction P f d rule: update_first.induct) (auto split: if_splits)

lemma in_dvals_put: "x \<in> set (dvals (dput k v d)) \<Longrightarrow> x = v \<or> x \<in> set (dvals d)"
  by (induction d) (auto split: if_splits)

lemma in_dvals_pop: "x \<in> set (dvals (dpop k d)) \<Longrightarrow> x \<in> set (dvals d)"
  by (induction d) (auto split: if_splits)

lemma in_set_put: "kv \<in> set (dput k v d) \<Longrightarrow> kv = (k, v) \<or> kv \<in> set d"
  by (induction d) (auto split: if_splits)

lemma in_set_pop: "kv \<in> set (dpop k d) \<Longrightarrow> kv \<in> set d \<and> fst kv \<noteq> k"
  by (induction d) (auto split: if_splits)

text \<open>A property of every value of a dictionary, which each operation keeps.\<close>

definition all_vals :: "('v \<Rightarrow> bool) \<Rightarrow> ('k, 'v) dict \<Rightarrow> bool" where
  "all_vals P d \<longleftrightarrow> (\<forall>v \<in> set (dvals d). P v)"

lemma all_vals_Nil [simp, dict_intros]: "all_vals P []"
  by (simp add: all_vals_def)

lemma all_vals_Cons [simp]: "all_vals P ((k, v) # d) \<longleftrightarrow> P v \<and> all_vals P d"
  by (simp add: all_vals_def)

lemma all_vals_append [simp]: "all_vals P (d @ d') \<longleftrightarrow> all_vals P d \<and> all_vals P d'"
  by (auto simp: all_vals_def)

lemma all_vals_put [dict_intros, intro]: "all_vals P d \<Longrightarrow> P v \<Longrightarrow> all_vals P (dput k v d)"
  by (induction d) auto

lemma all_vals_pop [dict_intros, intro]: "all_vals P d \<Longrightarrow> all_vals P (dpop k d)"
  unfolding all_vals_def using in_dvals_pop by fastforce

lemma all_vals_keep [dict_intros, intro]: "all_vals P d \<Longrightarrow> all_vals P (dkeep Q d)"
  by (auto simp: all_vals_def dkeep_def)

lemma all_vals_kept [simp]: "all_vals P (dkeep P d)"
  by (auto simp: all_vals_def dkeep_def)

lemma all_vals_update_first [dict_intros]:
  "all_vals P d \<Longrightarrow> (\<And>v. P v \<Longrightarrow> Q v \<Longrightarrow> P (f v)) \<Longrightarrow> all_vals P (update_first Q f d)"
  by (induction d) auto

lemma all_vals_mono: "all_vals P d \<Longrightarrow> (\<And>v. P v \<Longrightarrow> Q v) \<Longrightarrow> all_vals Q d"
  by (auto simp: all_vals_def)

lemma all_vals_get: "all_vals P d \<Longrightarrow> dget d k = Some v \<Longrightarrow> P v"
  unfolding all_vals_def by (metis (full_types) in_set_conv_nth map_of_SomeD imageI list.set_map snd_conv)

lemma keep_id: "all_vals P d \<Longrightarrow> dkeep P d = d"
  by (auto simp: all_vals_def dkeep_def intro: filter_True)

text \<open>No two values share the key \<open>f\<close> reads off them.\<close>

definition distinct_vals :: "('v \<Rightarrow> 'i) \<Rightarrow> ('k, 'v) dict \<Rightarrow> bool" where
  "distinct_vals f d \<longleftrightarrow> distinct (map (\<lambda>kv. f (snd kv)) d)"

lemma distinct_vals_Nil [simp, dict_intros]: "distinct_vals f []"
  by (simp add: distinct_vals_def)

lemma distinct_vals_Cons [simp]:
  "distinct_vals f ((k, v) # d) \<longleftrightarrow> all_vals (\<lambda>w. f w \<noteq> f v) d \<and> distinct_vals f d"
  by (force simp: distinct_vals_def all_vals_def)

lemma distinct_vals_filter: "distinct_vals f d \<Longrightarrow> distinct_vals f (filter P d)"
  unfolding distinct_vals_def by (rule distinct_map_filter)

lemma distinct_vals_keep [dict_intros, intro]: "distinct_vals f d \<Longrightarrow> distinct_vals f (dkeep P d)"
  by (simp add: dkeep_def distinct_vals_filter)

lemma distinct_vals_pop [dict_intros, intro]: "distinct_vals f d \<Longrightarrow> distinct_vals f (dpop k d)"
  by (induction d) auto

lemma distinct_vals_put_fresh:
  "distinct_vals f d \<Longrightarrow> all_vals (\<lambda>w. f w \<noteq> f v) d \<Longrightarrow> distinct_vals f (dput k v d)"
  by (induction d) (auto intro!: all_vals_put)

lemma distinct_vals_put_same:
  assumes "distinct_vals f d" and "dget d k = Some v" and "f v' = f v"
  shows "distinct_vals f (dput k v' d)"
  using assms
proof (induction d)
  case Nil
  then show ?case by simp
next
  case (Cons a d)
  then show ?case
    using all_vals_get [of "\<lambda>w. f w \<noteq> f (snd a)" d k v]
    by (cases a) (auto split: if_splits intro!: all_vals_put)
qed

lemma all_vals_update_first_iff:
  "(\<And>v. P (g v) = P v) \<Longrightarrow> all_vals P (update_first Q g d) = all_vals P d"
  by (induction d) (auto split: if_splits)

lemma distinct_vals_update_first [dict_intros]:
  "distinct_vals f d \<Longrightarrow> (\<And>v. f (g v) = f v) \<Longrightarrow> distinct_vals f (update_first Q g d)"
  by (induction d) (auto simp: all_vals_update_first_iff)

lemma distinct_vals_eq:
  "distinct_vals f d \<Longrightarrow> dget d k = Some v \<Longrightarrow> dget d k' = Some v' \<Longrightarrow> f v = f v' \<Longrightarrow> k = k'"
  by (induction d) (auto split: if_splits dest: all_vals_get)

lemma dget_update_first_hit:
  assumes "distinct_vals f d" and "dget d k = Some v"
  shows "dget (update_first (\<lambda>w. f w = f v) g d) k = Some (g v)"
  using assms
proof (induction d)
  case Nil
  then show ?case by simp
next
  case (Cons a d)
  then show ?case
    using all_vals_get [of "\<lambda>w. f w \<noteq> f (snd a)" d k v] by (cases a) (auto split: if_splits)
qed

section \<open>Results\<close>

datatype py_error = Index_Error | Value_Error | Key_Error | Type_Error | Runtime_Error string

fun is_ok :: "'e + 'a \<Rightarrow> bool" where
  "is_ok (Inl e) = False"
| "is_ok (Inr a) = True"

definition clamp :: "'a::linorder \<Rightarrow> 'a \<Rightarrow> 'a \<Rightarrow> 'a" where
  "clamp lo hi x = max lo (min hi x)"

lemma clamp_bounds: "lo \<le> hi \<Longrightarrow> lo \<le> clamp lo hi x \<and> clamp lo hi x \<le> hi"
  by (auto simp: clamp_def)

lemma clamp_id: "lo \<le> x \<Longrightarrow> x \<le> hi \<Longrightarrow> clamp lo hi x = x"
  by (auto simp: clamp_def)

section \<open>Lists\<close>

lemma dropWhile_sorted_filter: "sorted xs \<Longrightarrow> dropWhile (\<lambda>t. t \<le> c) xs = filter (\<lambda>t. c < t) xs"
  for c :: "'a::linorder"
proof (induction xs)
  case Nil
  then show ?case by simp
next
  case (Cons x xs)
  then show ?case by (auto intro!: filter_True [symmetric])
qed

lemma sorted_dropWhile: "sorted xs \<Longrightarrow> sorted (dropWhile P xs)"
  by (induction xs) auto

lemma find_Some_in: "find P xs = Some x \<Longrightarrow> x \<in> set xs \<and> P x"
  by (induction xs) (auto split: if_splits)

lemma find_dvals_get:
  assumes "dict_ok d" and "find P (dvals d) = Some v"
  shows "\<exists>k. dget d k = Some v"
  using find_Some_in [OF assms(2)] assms(1) by (auto simp: dict_ok_def)

text \<open>\<open>next(v for v in d.values() if P(v))\<close>, mutated in place.\<close>

lemma find_update_first:
  assumes "dict_ok d" and "find P (dvals d) = Some v"
  shows "\<exists>k. dget d k = Some v \<and> (\<forall>k'. dget (update_first P f d) k' = (if k' = k then Some (f v) else dget d k'))"
  using assms
proof (induction d)
  case Nil
  then show ?case by simp
next
  case (Cons a d)
  obtain k0 v0 where a: "a = (k0, v0)" by (cases a)
  show ?case
  proof (cases "P v0")
    case True
    with Cons.prems show ?thesis by (auto simp: a)
  next
    case False
    with Cons.prems have "dict_ok d" "find P (dvals d) = Some v" by (auto simp: a dict_ok_def)
    from Cons.IH [OF this] obtain k where k: "dget d k = Some v"
      "\<forall>k'. dget (update_first P f d) k' = (if k' = k then Some (f v) else dget d k')" by blast
    moreover have "k \<noteq> k0" using Cons.prems(1) dget_key [OF k(1)] by (auto simp: a dict_ok_def)
    ultimately show ?thesis using False by (intro exI [of _ k]) (auto simp: a)
  qed
qed

lemma update_first_get:
  assumes "dget (update_first P f d) k = Some w"
  shows "\<exists>v. dget d k = Some v \<and> (w = v \<or> w = f v)"
  using assms by (induction d) (auto split: if_splits)

lemma find_None: "find P xs = None \<longleftrightarrow> (\<forall>x \<in> set xs. \<not> P x)"
  by (induction xs) auto

text \<open>\<open>dict.fromkeys(xs)\<close>: duplicates dropped, the first occurrence kept.\<close>

definition dedup :: "'a list \<Rightarrow> 'a list" where
  "dedup xs = rev (remdups (rev xs))"

lemma set_dedup [simp]: "set (dedup xs) = set xs" and distinct_dedup [simp]: "distinct (dedup xs)"
  by (simp_all add: dedup_def)

lemma length_dedup: "length (dedup xs) \<le> length xs"
  using length_remdups_leq [of "rev xs"] by (simp add: dedup_def)

text \<open>Evaluation of characters and their code points on concrete strings.\<close>

lemmas char_eval = code_def char_of_def bit_Suc_0_iff

lemma find_distinct_key: "distinct (map f xs) \<Longrightarrow> x \<in> set xs \<Longrightarrow> find (\<lambda>y. f y = f x) xs = Some x"
  by (induction xs) (auto simp: rev_image_eqI)

end
