(* ===== verification/Web_Rate_Limits.thy ===== *)
theory Web_Rate_Limits
  imports Py_Prelude
begin

text \<open>
  The sliding-window limiter of the public web API (\<^verbatim>\<open>core/web_rate_limits.py\<close>): a bounded
  dictionary from \<open>scope:identity\<close> to the times of the admitted requests. The lemmas carry the
  admitted times of one key through a run of interleaved requests of any number of keys.
\<close>

section \<open>State and operation\<close>

record limiter =
  max_keys :: int
  events :: "(string, time list) dict"

definition new_limiter :: "int \<Rightarrow> limiter" where
  "new_limiter n = \<lparr>max_keys = n, events = []\<rparr>"

definition rate_key :: "string \<Rightarrow> string \<Rightarrow> string" where
  "rate_key scope identity = scope @ '':'' @ identity"

text \<open>\<open>oldest = min(self._events, key=lambda item: self._events[item][-1])\<close>, then \<open>pop\<close>: an
  empty dictionary raises \<open>ValueError\<close>, an empty deque \<open>IndexError\<close>.\<close>

definition evict_oldest :: "(string, time list) dict \<Rightarrow> py_error + (string, time list) dict" where
  "evict_oldest d =
     (if d = [] then Inl Value_Error
      else if list_ex (\<lambda>q. q = []) (dvals d) then Inl Index_Error
      else (case argmin last d of None \<Rightarrow> Inl Value_Error | Some k \<Rightarrow> Inr (dpop k d)))"

definition trim_window :: "time \<Rightarrow> int \<Rightarrow> time list \<Rightarrow> time list" where
  "trim_window now window q = dropWhile (\<lambda>t. t \<le> now - of_int window) q"

definition allow_key ::
    "(string, time list) dict \<Rightarrow> time \<Rightarrow> string \<Rightarrow> int \<Rightarrow> int \<Rightarrow>
     (string, time list) dict \<times> (py_error + bool \<times> int)" where
  "allow_key d now key limit window =
     (let q = trim_window now window (case dget d key of None \<Rightarrow> [] | Some q \<Rightarrow> q)
      in if limit \<le> int (length q)
         then (case q of
                 [] \<Rightarrow> (dput key [] d, Inl Index_Error)
               | t # _ \<Rightarrow> (dput key q d, Inr (False, max 1 (py_int (t + of_int window - now) + 1))))
         else (dput key (q @ [now]) d, Inr (True, 0)))"

definition allow ::
    "limiter \<Rightarrow> time \<Rightarrow> string \<Rightarrow> string \<Rightarrow> int \<Rightarrow> int \<Rightarrow> limiter \<times> (py_error + bool \<times> int)" where
  "allow l now scope identity limit window =
     (let key = rate_key scope identity
      in case (if dget (events l) key = None \<and> max_keys l \<le> int (length (events l))
               then evict_oldest (events l) else Inr (events l)) of
           Inl e \<Rightarrow> (l, Inl e)
         | Inr d \<Rightarrow> (let (d', r) = allow_key d now key limit window in (l\<lparr>events := d'\<rparr>, r)))"

section \<open>Invariant\<close>

text \<open>Every deque is non-empty, so the eviction never raises, and the table keeps its bound.\<close>

definition limiter_ok :: "limiter \<Rightarrow> bool" where
  "limiter_ok l \<longleftrightarrow> 1 \<le> max_keys l \<and> dict_ok (events l) \<and> int (length (events l)) \<le> max_keys l \<and>
     all_vals (\<lambda>q. q \<noteq> []) (events l)"

lemma limiter_ok_new [simp]: "limiter_ok (new_limiter n) \<longleftrightarrow> 1 \<le> n"
  by (auto simp: limiter_ok_def new_limiter_def)

lemma evict_oldest_ok:
  assumes "dict_ok d" and "d \<noteq> []" and "all_vals (\<lambda>q. q \<noteq> []) d"
  shows "\<exists>k. k \<in> set (dkeys d) \<and> evict_oldest d = Inr (dpop k d)"
proof -
  from argmin_Some [OF assms(2)] obtain k where k: "argmin last d = Some k" by blast
  with assms argmin_key [OF k] show ?thesis
    by (auto simp: evict_oldest_def list_ex_iff all_vals_def)
qed

lemma allow_key_ok:
  assumes "dict_ok d" and "all_vals (\<lambda>q. q \<noteq> []) d" and "1 \<le> limit"
    and "allow_key d now key limit window = (d', r)"
  shows "dict_ok d' \<and> all_vals (\<lambda>q. q \<noteq> []) d' \<and> is_ok r \<and> (\<exists>v. d' = dput key v d)"
proof -
  define q where "q = trim_window now window (case dget d key of None \<Rightarrow> [] | Some q \<Rightarrow> q)"
  show ?thesis
  proof (cases "limit \<le> int (length q)")
    case True
    then obtain t ts where "q = t # ts" using assms(3) by (cases q) auto
    with True assms show ?thesis
      unfolding allow_key_def Let_def q_def [symmetric] by auto
  next
    case False
    with assms show ?thesis
      unfolding allow_key_def Let_def q_def [symmetric] by auto
  qed
qed

lemma allow_ok:
  assumes "limiter_ok l" and "1 \<le> limit" and "allow l now scope identity limit window = (l', r)"
  shows "limiter_ok l' \<and> is_ok r \<and> max_keys l' = max_keys l"
proof -
  let ?key = "rate_key scope identity"
  let ?full = "dget (events l) ?key = None \<and> max_keys l \<le> int (length (events l))"
  from assms(1) have ok: "dict_ok (events l)" "all_vals (\<lambda>q. q \<noteq> []) (events l)"
    "1 \<le> max_keys l" "int (length (events l)) \<le> max_keys l"
    by (auto simp: limiter_ok_def)
  obtain d where d: "(if ?full then evict_oldest (events l) else Inr (events l)) = Inr d"
    and d_ok: "dict_ok d" "all_vals (\<lambda>q. q \<noteq> []) d"
    and room: "?key \<in> set (dkeys d) \<and> int (length d) \<le> max_keys l \<or> int (length d) < max_keys l"
  proof (cases ?full)
    case True
    then have "events l \<noteq> []" using ok by auto
    with evict_oldest_ok ok obtain k where "k \<in> set (dkeys (events l))"
      "evict_oldest (events l) = Inr (dpop k (events l))" by blast
    with True that [of "dpop k (events l)"] ok length_pop [OF ok(1), of k] show ?thesis
      by auto
  next
    case False
    then have "?key \<in> set (dkeys (events l)) \<or> int (length (events l)) < max_keys l"
      using dget_key [of "events l" ?key] by fastforce
    with ok(4) show ?thesis by (intro that [OF if_not_P [OF False] ok(1,2)]) auto
  qed
  obtain d' where ak: "allow_key d now ?key limit window = (d', r)" "l' = l\<lparr>events := d'\<rparr>"
    using assms(3) d by (auto simp: allow_def Let_def split: prod.splits if_splits)
  from allow_key_ok [OF d_ok assms(2) ak(1)] obtain v where "dict_ok d'" "is_ok r"
    "all_vals (\<lambda>q. q \<noteq> []) d'" "d' = dput ?key v d" by blast
  with ak(2) ok room show ?thesis by (auto simp: limiter_ok_def length_put)
qed

section \<open>Runs of requests\<close>

record request =
  req_time :: time
  scope :: string
  identity :: string

definition req_key :: "request \<Rightarrow> string" where
  "req_key q = rate_key (scope q) (identity q)"

text \<open>The limiter after a run, and the times admitted for one key, oldest first.\<close>

fun admitted :: "limiter \<Rightarrow> int \<Rightarrow> int \<Rightarrow> string \<Rightarrow> request list \<Rightarrow> time list" where
  "admitted l limit window key [] = []"
| "admitted l limit window key (q # qs) =
     (let (l', r) = allow l (req_time q) (scope q) (identity q) limit window
      in (if req_key q = key \<and> (\<exists>n. r = Inr (True, n)) then [req_time q] else [])
         @ admitted l' limit window key qs)"

definition in_window :: "time \<Rightarrow> int \<Rightarrow> time list \<Rightarrow> time list" where
  "in_window t window hist = filter (\<lambda>s. t - of_int window < s \<and> s \<le> t) hist"

text \<open>What the table knows of a key, against the full log of its admissions: the entries it has
  dropped are at or below a cut-off that later requests never look behind.\<close>

definition tracks :: "time list \<Rightarrow> time \<Rightarrow> int \<Rightarrow> time list option \<Rightarrow> bool" where
  "tracks hist now window entry \<longleftrightarrow>
     (\<forall>t \<ge> now. filter (\<lambda>s. t - of_int window < s) (case entry of None \<Rightarrow> [] | Some q \<Rightarrow> q)
             = filter (\<lambda>s. t - of_int window < s) hist) \<and>
     sorted (case entry of None \<Rightarrow> [] | Some q \<Rightarrow> q) \<and> sorted hist \<and> (\<forall>s \<in> set hist. s \<le> now)"

lemma tracks_Nil: "tracks [] now window None"
  by (simp add: tracks_def)

lemma tracks_later: "tracks hist now window e \<Longrightarrow> now \<le> now' \<Longrightarrow> tracks hist now' window e"
  by (auto simp: tracks_def intro: order_trans)

lemma tracks_trim:
  assumes "tracks hist now window e"
  shows "trim_window now window (case e of None \<Rightarrow> [] | Some q \<Rightarrow> q) = filter (\<lambda>s. now - of_int window < s) hist"
proof -
  let ?q = "case e of None \<Rightarrow> [] | Some q \<Rightarrow> q"
  from assms have "trim_window now window ?q = filter (\<lambda>s. now - of_int window < s) ?q"
    unfolding tracks_def trim_window_def by (blast intro: dropWhile_sorted_filter)
  also from assms have "\<dots> = filter (\<lambda>s. now - of_int window < s) hist"
    by (simp add: tracks_def)
  finally show ?thesis .
qed

lemma filter_filter_later:
  "now \<le> t \<Longrightarrow> filter (\<lambda>s. t - w < s) (filter (\<lambda>s. now - w < s) hist) = filter (\<lambda>s. t - w < s) hist"
  for now t w :: real
  by (induction hist) auto

lemma allow_key_tracks:
  assumes tr: "tracks hist now window (dget d key)"
    and ak: "allow_key d now key limit window = (d', r)"
  shows "tracks (hist @ (if \<exists>n. r = Inr (True, n) then [now] else [])) now window (dget d' key)"
    and "\<exists>n. r = Inr (True, n) \<Longrightarrow> int (length (in_window now window hist)) < limit"
    and "k \<noteq> key \<Longrightarrow> dget d' k = dget d k"
proof -
  define q where "q = trim_window now window (case dget d key of None \<Rightarrow> [] | Some q \<Rightarrow> q)"
  have q: "q = filter (\<lambda>s. now - of_int window < s) hist"
    unfolding q_def by (rule tracks_trim [OF tr])
  have hist: "sorted hist" "\<forall>s \<in> set hist. s \<le> now" using tr by (auto simp: tracks_def)
  have iw: "in_window now window hist = q"
    using hist(2) unfolding in_window_def q by (intro filter_cong) auto
  have "(d', r) = (if limit \<le> int (length q)
         then (case q of
                 [] \<Rightarrow> (dput key [] d, Inl Index_Error)
               | t # _ \<Rightarrow> (dput key q d, Inr (False, max 1 (py_int (t + of_int window - now) + 1))))
         else (dput key (q @ [now]) d, Inr (True, 0)))"
    using ak [symmetric] unfolding allow_key_def Let_def q_def [symmetric] .
  then consider (full) "limit \<le> int (length q)" "d' = dput key q d" "\<not> (\<exists>n. r = Inr (True, n))"
    | (room) "int (length q) < limit" "d' = dput key (q @ [now]) d" "r = Inr (True, 0)"
    by (auto split: if_splits list.splits)
  note step = this
  show "tracks (hist @ (if \<exists>n. r = Inr (True, n) then [now] else [])) now window (dget d' key)"
    using step hist by cases (auto simp: tracks_def dget_put q filter_filter_later sorted_append
        intro!: sorted_wrt_filter filter_cong)
  show "\<exists>n. r = Inr (True, n) \<Longrightarrow> int (length (in_window now window hist)) < limit"
    using step by cases (auto simp: iw)
  show "k \<noteq> key \<Longrightarrow> dget d' k = dget d k"
    using step by cases (auto simp: dget_put)
qed

text \<open>While no more distinct keys are in use than the table holds, nothing is evicted.\<close>

lemma allow_no_evict:
  assumes "limiter_ok l" and "finite K" and "int (card K) \<le> max_keys l"
    and "set (dkeys (events l)) \<subseteq> K" and "rate_key sc ident \<in> K"
  shows "allow l now sc ident limit window =
    (let (d', r) = allow_key (events l) now (rate_key sc ident) limit window in (l\<lparr>events := d'\<rparr>, r))"
proof -
  have "\<not> (dget (events l) (rate_key sc ident) = None \<and> max_keys l \<le> int (length (events l)))"
  proof
    assume full: "dget (events l) (rate_key sc ident) = None \<and> max_keys l \<le> int (length (events l))"
    then have "rate_key sc ident \<notin> set (dkeys (events l))" by (simp add: dget_None_iff)
    with assms have "set (dkeys (events l)) \<subset> K" by blast
    with assms(2) have "card (set (dkeys (events l))) < card K" by (rule psubset_card_mono)
    moreover have "card (set (dkeys (events l))) = length (events l)"
      using assms(1) distinct_card [of "dkeys (events l)"] by (simp add: limiter_ok_def dict_ok_def)
    ultimately show False using full assms(3) by linarith
  qed
  then show ?thesis by (auto simp: allow_def Let_def)
qed

lemma in_window_later:
  assumes "\<forall>s \<in> set hist. s \<le> now" and "now \<le> t"
  shows "length (in_window t window hist) \<le> length (in_window now window hist)"
  using assms by (induction hist) (auto simp: in_window_def)

lemma in_window_snoc:
  assumes "\<forall>s \<in> set hist. s \<le> now" and "int (length (in_window now window hist)) < limit"
    and "\<forall>t. int (length (in_window t window hist)) \<le> limit"
  shows "int (length (in_window t window (hist @ [now]))) \<le> limit"
proof (cases "now \<le> t")
  case True
  with in_window_later [OF assms(1) True, of window] assms(2)
  show ?thesis by (auto simp: in_window_def)
next
  case False
  then show ?thesis using assms(3) by (auto simp: in_window_def)
qed

lemma admitted_bound:
  assumes "limiter_ok l" and "1 \<le> limit" and "tracks hist now window (dget (events l) key)"
    and "finite K" and "int (card K) \<le> max_keys l" and "set (dkeys (events l)) \<subseteq> K"
    and "req_key ` set qs \<subseteq> K" and "sorted (map req_time qs)" and "\<forall>q \<in> set qs. now \<le> req_time q"
    and "\<forall>t. int (length (in_window t window hist)) \<le> limit"
  shows "int (length (in_window t window (hist @ admitted l limit window key qs))) \<le> limit"
  using assms
proof (induction qs arbitrary: l hist now)
  case Nil
  then show ?case by simp
next
  case (Cons q qs)
  let ?now = "req_time q"
  have qK: "rate_key (scope q) (identity q) \<in> K" using Cons.prems(7) by (auto simp: req_key_def)
  obtain d' r where ak: "allow_key (events l) ?now (req_key q) limit window = (d', r)"
    by (cases "allow_key (events l) ?now (req_key q) limit window")
  from allow_no_evict [OF Cons.prems(1,4,5,6) qK] ak
  have al: "allow l ?now (scope q) (identity q) limit window = (l\<lparr>events := d'\<rparr>, r)"
    by (simp add: req_key_def)
  have keep: "limiter_ok (l\<lparr>events := d'\<rparr>)" using allow_ok [OF Cons.prems(1,2) al] by simp
  from allow_key_ok [OF _ _ Cons.prems(2) ak] Cons.prems(1) obtain v where "d' = dput (req_key q) v (events l)"
    by (auto simp: limiter_ok_def)
  then have sub: "set (dkeys d') \<subseteq> K" using Cons.prems(6) qK dom_update [of "req_key q" v "events l"]
    by (auto simp: req_key_def)
  have tr: "tracks hist ?now window (dget (events l) key)"
    using Cons.prems(3,9) by (auto intro: tracks_later)
  define hist' where "hist' = hist @ (if req_key q = key \<and> (\<exists>n. r = Inr (True, n)) then [?now] else [])"
  have "tracks hist' ?now window (dget d' key) \<and> (\<forall>t. int (length (in_window t window hist')) \<le> limit)"
  proof (cases "req_key q = key")
    case True
    have "\<forall>s \<in> set hist. s \<le> ?now" using tr by (simp add: tracks_def)
    with True allow_key_tracks(1,2) [OF tr [folded True] ak] Cons.prems(10) in_window_snoc [of hist ?now window limit]
    show ?thesis by (auto simp: hist'_def)
  next
    case False
    then have "dget d' key = dget (events l) key"
      using ak by (auto simp: allow_key_def Let_def dget_put split: if_splits list.splits)
    with False tr Cons.prems(10) show ?thesis by (simp add: hist'_def)
  qed
  with Cons.IH [OF keep Cons.prems(2) _ Cons.prems(4) _ _ _ _ _, of hist' ?now] Cons.prems sub
  have "int (length (in_window t window (hist' @ admitted (l\<lparr>events := d'\<rparr>) limit window key qs))) \<le> limit"
    by auto
  then show ?case by (simp add: al hist'_def)
qed

text \<open>A refused caller that waits the announced time is admitted.\<close>

lemma allow_key_retry:
  assumes "allow_key d now key limit window = (d', Inr (False, n))"
    and "0 \<le> limit" and "\<And>q. dget d key = Some q \<Longrightarrow> int (length q) \<le> limit"
    and "now + of_int n \<le> later"
  shows "\<exists>d''. allow_key d' later key limit window = (d'', Inr (True, 0))"
proof -
  define q where "q = trim_window now window (case dget d key of None \<Rightarrow> [] | Some q \<Rightarrow> q)"
  have "int (length q) \<le> limit"
    using assms(2,3) length_dropWhile_le [of "\<lambda>t. t \<le> now - of_int window" "case dget d key of None \<Rightarrow> [] | Some q \<Rightarrow> q"]
    by (cases "dget d key") (fastforce simp: q_def trim_window_def)+
  moreover from assms(1) [unfolded allow_key_def Let_def q_def [symmetric]]
  obtain t ts where q: "q = t # ts" "d' = dput key q d" "n = max 1 (py_int (t + of_int window - now) + 1)"
    by (auto split: if_splits list.splits)
  ultimately have len: "int (length ts) < limit" by simp
  have "t + of_int window - now < of_int (py_int (t + of_int window - now)) + 1" by (rule py_int_less)
  also have "\<dots> = of_int (py_int (t + of_int window - now) + 1)" by simp
  also have "\<dots> \<le> real_of_int n" unfolding q(3) of_int_le_iff by simp
  finally have "t \<le> later - of_int window" using assms(4) by linarith
  then have "length (trim_window later window q) \<le> length ts"
    by (simp add: trim_window_def q(1) length_dropWhile_le)
  with len have "\<not> limit \<le> int (length (trim_window later window q))" by linarith
  with q(2) show ?thesis by (simp add: allow_key_def dget_put)
qed

lemma allow_present:
  "dget (events l) (rate_key sc ident) = Some q \<Longrightarrow> allow l now sc ident limit window =
    (let (d', r) = allow_key (events l) now (rate_key sc ident) limit window in (l\<lparr>events := d'\<rparr>, r))"
  by (simp add: allow_def Let_def)

section \<open>Properties\<close>



text \<open>A refused request is told a number of seconds after which the same
  request is admitted, if no other request of the key intervenes.\<close>

theorem rate_limit_retry_after:
  assumes "allow l now sc ident limit window = (l', Inr (False, n))" and "limiter_ok l" and "0 \<le> limit"
    and "all_vals (\<lambda>q. int (length q) \<le> limit) (events l)" and "now + of_int n \<le> later"
  shows "\<exists>l''. allow l' later sc ident limit window = (l'', Inr (True, 0))"
proof -
  let ?key = "rate_key sc ident"
  from assms(1) obtain d d' where ak: "allow_key d now ?key limit window = (d', Inr (False, n))"
    and l': "l' = l\<lparr>events := d'\<rparr>" and d: "d = events l \<or> evict_oldest (events l) = Inr d"
    by (auto simp: allow_def Let_def split: if_splits sum.splits prod.splits)
  have "all_vals (\<lambda>q. int (length q) \<le> limit) d"
    using d assms(4) by (auto simp: evict_oldest_def split: if_splits option.splits)
  then have "\<And>q. dget d ?key = Some q \<Longrightarrow> int (length q) \<le> limit" by (auto dest: all_vals_get)
  from allow_key_retry [OF ak assms(3) this assms(5)]
  obtain d'' where "allow_key d' later ?key limit window = (d'', Inr (True, 0))" by blast
  moreover have "\<exists>q. dget d' ?key = Some q"
    using ak by (auto simp: allow_key_def Let_def dget_put split: if_splits list.splits)
  ultimately show ?thesis by (auto simp: allow_present l')
qed

theorem rate_limit_retry_after_witness:
  "\<exists>l''. allow \<lparr>max_keys = 4, events = [(''s:i'', [0, 1])]\<rparr> 12 ''s'' ''i'' 2 10 = (l'', Inr (True, 0))"
proof (rule rate_limit_retry_after)
  show "allow \<lparr>max_keys = 4, events = [(''s:i'', [0, 1])]\<rparr> 3 ''s'' ''i'' 2 10 =
      (\<lparr>max_keys = 4, events = [(''s:i'', [0, 1])]\<rparr>, Inr (False, 8))"
    by (simp add: allow_def allow_key_def trim_window_def rate_key_def)
qed (simp_all add: limiter_ok_def dict_ok_def)

text \<open>With a positive capacity and a positive limit, a request
  raises nothing, and the table keeps its invariant: at most \<open>max_keys\<close> keys, no empty deque.\<close>

theorem rate_limit_table_bounded:
  assumes "limiter_ok l" and "1 \<le> limit"
  shows "is_ok (snd (allow l now sc ident limit window)) \<and> limiter_ok (fst (allow l now sc ident limit window)) \<and>
    int (length (events (fst (allow l now sc ident limit window)))) \<le> max_keys l"
proof -
  obtain l' r where al: "allow l now sc ident limit window = (l', r)" by fastforce
  from allow_ok [OF assms al] show ?thesis by (auto simp: al limiter_ok_def)
qed

theorem rate_limit_table_bounded_witness:
  "is_ok (snd (allow (new_limiter 1) 5 ''s'' ''i'' 1 60)) \<and> limiter_ok (fst (allow (new_limiter 1) 5 ''s'' ''i'' 1 60)) \<and>
    int (length (events (fst (allow (new_limiter 1) 5 ''s'' ''i'' 1 60)))) \<le> max_keys (new_limiter 1)"
  by (rule rate_limit_table_bounded) simp_all

end
