(* ===== verification/Shared_Paths.thy ===== *)
theory Shared_Paths
  imports Py_Prelude
begin

text \<open>
  The path boundary of the server: the stable identities of the shared roots
  (\<^verbatim>\<open>core/shared_roots.py\<close>), the virtual paths that name them (\<^verbatim>\<open>core/shared_paths.py\<close>), and
  the visibility policy every catalogue and download applies (\<^verbatim>\<open>core/content_policy.py\<close>,
  \<^verbatim>\<open>core/hidden_folders.py\<close>). A resolved path is the list of its components; the file system
  is a parameter, the record \<open>fs\<close> of what the code asks of it. A percent escape of a byte above
  127 decodes to the character of that byte, since no such character separates components.
\<close>

section \<open>File system\<close>

type_synonym path = "string list"

record fs =
  realpath :: "path \<Rightarrow> path"
  is_dir :: "path \<Rightarrow> bool"
  is_file :: "path \<Rightarrow> bool"

definition path_exists :: "fs \<Rightarrow> path \<Rightarrow> bool" where
  "path_exists f p \<longleftrightarrow> is_dir f p \<or> is_file f p"

definition name_of :: "path \<Rightarrow> string" where
  "name_of p = (if p = [] then [] else last p)"

definition is_below :: "path \<Rightarrow> path \<Rightarrow> bool" where
  "is_below p base \<longleftrightarrow> take (length base) p = base"

definition relative_to :: "path \<Rightarrow> path \<Rightarrow> path option" where
  "relative_to p base = (if is_below p base then Some (drop (length base) p) else None)"

definition path_parts :: "string \<Rightarrow> path" where
  "path_parts s = filter (\<lambda>p. p \<noteq> [] \<and> p \<noteq> ''.'') (split_on (CHR ''/'') s)"

definition posix :: "path \<Rightarrow> string" where
  "posix p = CHR ''/'' # join_with ''/'' p"

text \<open>\<open>str(path)\<close> of a relative path, \<open>.\<close> when it has no component.\<close>

definition rel_str :: "path \<Rightarrow> string" where
  "rel_str p = (if p = [] then ''.'' else join_with ''/'' p)"

lemma is_below_iff: "is_below p base \<longleftrightarrow> (\<exists>rel. p = base @ rel)"
  by (auto simp: is_below_def) (metis append_take_drop_id)

lemma is_below_refl [simp]: "is_below p p" and is_below_append [simp]: "is_below (p @ q) p"
  by (simp_all add: is_below_def)

section \<open>Strings and percent escapes\<close>

definition hex_digit :: "char \<Rightarrow> nat" where
  "hex_digit c = (let n = code c in if n \<le> 57 then n - 48 else if n \<le> 70 then n - 55 else n - 87)"

fun unquote :: "string \<Rightarrow> string" where
  "unquote [] = []"
| "unquote [a] = [a]"
| "unquote [a, b] = [a, b]"
| "unquote (a # b # c # s) =
     (if a = CHR ''%'' \<and> is_hex b \<and> is_hex c then char_of (16 * hex_digit b + hex_digit c) # unquote s
      else a # unquote (b # c # s))"

lemma unquote_id: "CHR ''%'' \<notin> set s \<Longrightarrow> unquote s = s"
  by (induction s rule: unquote.induct) auto

definition fold_case :: "string \<Rightarrow> string" where
  "fold_case s = concat (map (\<lambda>c. if code c = 223 then ''ss'' else [lower_char c]) s)"

definition slashes :: "char list" where
  "slashes = [CHR ''/'', CHR 0x5C]"

definition to_slash :: "string \<Rightarrow> string" where
  "to_slash = replace_char (CHR 0x5C) (CHR ''/'')"

section \<open>Shared roots\<close>

definition root_slots :: "string list" where
  "root_slots = [''slot-1'', ''slot-2'']"

type_synonym shared_root = "string \<times> path"

datatype root_error = Root_Conflict path path

text \<open>\<open>zip(ROOT_SLOTS, paths)\<close>: an empty entry (\<open>None\<close>) leaves its slot out; a root that
  overlaps one taken before raises.\<close>

fun add_roots :: "(path \<Rightarrow> path) \<Rightarrow> shared_root list \<Rightarrow> (string \<times> path option) list \<Rightarrow> root_error + shared_root list" where
  "add_roots rp roots [] = Inr roots"
| "add_roots rp roots ((slot, None) # rest) = add_roots rp roots rest"
| "add_roots rp roots ((slot, Some raw) # rest) =
     (let p = rp raw
      in case find (\<lambda>r. is_below p (snd r) \<or> is_below (snd r) p) roots of
           Some r \<Rightarrow> Inl (Root_Conflict p (snd r))
         | None \<Rightarrow> add_roots rp (roots @ [(slot, p)]) rest)"

definition normalize_shared_roots :: "(path \<Rightarrow> path) \<Rightarrow> path option list \<Rightarrow> root_error + shared_root list" where
  "normalize_shared_roots rp paths = add_roots rp [] (zip root_slots paths)"

record share_conf =
  shared_roots :: "shared_root list"
  hidden_paths :: "(string, string list) dict"

definition root_for_slot :: "share_conf \<Rightarrow> string \<Rightarrow> path option" where
  "root_for_slot cf slot = map_option snd (find (\<lambda>r. fst r = slot) (shared_roots cf))"

definition set_hidden_path :: "share_conf \<Rightarrow> string \<Rightarrow> string \<Rightarrow> bool \<Rightarrow> share_conf \<times> (py_error + bool)" where
  "set_hidden_path cf slot relative hidden =
     (let clean = CHR ''/'' # strip_of ''/'' (to_slash relative);
          values = (case dget (hidden_paths cf) slot of None \<Rightarrow> [] | Some vs \<Rightarrow> vs);
          put = (\<lambda>vs. cf\<lparr>hidden_paths := dput slot vs (hidden_paths cf)\<rparr>)
      in if root_for_slot cf slot = None then (cf, Inl Value_Error)
         else if clean = ''/'' \<or> ''..'' \<in> set (split_on (CHR ''/'') clean) then (cf, Inl Value_Error)
         else if hidden \<and> clean \<notin> set values then (put (sort (values @ [clean])), Inr True)
         else if \<not> hidden \<and> clean \<in> set values then (put (remove1 clean values), Inr True)
         else (put values, Inr False))"

section \<open>Virtual paths\<close>

definition virtual_root_prefix :: string where
  "virtual_root_prefix = ''/@shares/''"

definition encode_shared_path :: "string \<Rightarrow> string \<Rightarrow> py_error + string" where
  "encode_shared_path slot relative =
     (if slot \<notin> set root_slots then Inl Value_Error
      else (let s = rstrip_of ''/'' (virtual_root_prefix @ slot @ ''/'' @ lstrip_of ''/'' (to_slash relative))
            in Inr (if s = [] then ''/'' else s)))"

definition public_shared_path :: "share_conf \<Rightarrow> string \<Rightarrow> string \<Rightarrow> py_error + string" where
  "public_shared_path cf slot relative =
     (let clean = CHR ''/'' # lstrip_of ''/'' (to_slash relative)
      in if 1 < length (shared_roots cf) then encode_shared_path slot clean else Inr clean)"

text \<open>\<open>str.partition("/")\<close>: the part before the first separator, whether there is one, the rest.\<close>

definition partition_slash :: "string \<Rightarrow> string \<times> bool \<times> string" where
  "partition_slash s =
     (let a = takeWhile (\<lambda>c. c \<noteq> CHR ''/'') s; b = dropWhile (\<lambda>c. c \<noteq> CHR ''/'') s
      in (a, b \<noteq> [], tl b))"

definition parse_shared_path :: "string \<Rightarrow> string \<Rightarrow> (string \<times> string) option" where
  "parse_shared_path requested default_slot =
     (let decoded = unquote requested
      in if \<not> starts_with decoded virtual_root_prefix then Some (default_slot, decoded)
         else (let (slot, sep, relative) = partition_slash (drop (length virtual_root_prefix) decoded)
               in if slot \<notin> set root_slots \<or> \<not> sep then None else Some (slot, relative)))"

section \<open>Visibility rules\<close>

definition hidden_marker :: string where "hidden_marker = ''.netshare_hidden''"
definition lock_marker :: string where "lock_marker = ''.netshare_lock.json''"

definition system_folder_names :: "string list" where
  "system_folder_names = map fold_case
    [''$Recycle.Bin'', ''System Volume Information'', ''RECYCLER'', ''RECYCLED'', ''MSOCache'',
     ''Config.Msi'', ''$WinREAgent'', ''$WINDOWS.~BT'', ''$WINDOWS.~WS'', ''$SysReset'', ''Recovery'',
     ''PerfLogs'', ''Documents and Settings'', ''found.000'', ''.Trashes'', ''.Spotlight-V100'',
     ''.fseventsd'', ''.DocumentRevisions-V100'', ''.TemporaryItems'', ''.apDisk'',
     ''.com.apple.timemachine.donotpresent'', ''.PKInstallSandboxManager'',
     ''.PKInstallSandboxManager-SystemSoftware'', ''.MobileBackups'', ''.MobileBackups.trash'',
     ''.AppleDB'', ''.AppleDesktop'', ''.AppleDouble'', ''Network Trash Folder'', ''Temporary Items'',
     ''lost+found'', ''.Trash'', ''.snapshots'', ''@eaDir'', ''@tmp'', ''#recycle'', ''.@__thumb'',
     ''.streams'', ''.SynologyWorkingDirectory'']"

definition system_file_names :: "string list" where
  "system_file_names = map fold_case
    [''desktop.ini'', ''Thumbs.db'', ''ehthumbs.db'', ''ehthumbs_vista.db'', ''IconCache.db'',
     ''ntuser.dat'', ''ntuser.dat.log'', ''ntuser.dat.log1'', ''ntuser.dat.log2'', ''ntuser.ini'',
     ''hiberfil.sys'', ''pagefile.sys'', ''swapfile.sys'', ''bootmgr'', ''bootnxt'', ''bootsect.bak'',
     ''DumpStack.log'', ''DumpStack.log.cfg'', ''.DS_Store'', ''.localized'', ''.metadata_never_index'',
     ''.metadata_never_index_unless_rootfs'', ''.com.apple.timemachine.supported'',
     ''.VolumeIcon.icns'', ''.fseventsd'', ''Icon'' @ [CHR 0x0D], ''.directory'',
     ''unlock_codes.db'', ''unlock_codes.db-journal'']"

text \<open>The tables after case folding.\<close>

lemma system_folder_names_folded [code]:
  "system_folder_names =
    [''$recycle.bin'', ''system volume information'', ''recycler'', ''recycled'', ''msocache'',
     ''config.msi'', ''$winreagent'', ''$windows.~bt'', ''$windows.~ws'', ''$sysreset'', ''recovery'',
     ''perflogs'', ''documents and settings'', ''found.000'', ''.trashes'', ''.spotlight-v100'',
     ''.fseventsd'', ''.documentrevisions-v100'', ''.temporaryitems'', ''.apdisk'',
     ''.com.apple.timemachine.donotpresent'', ''.pkinstallsandboxmanager'',
     ''.pkinstallsandboxmanager-systemsoftware'', ''.mobilebackups'', ''.mobilebackups.trash'',
     ''.appledb'', ''.appledesktop'', ''.appledouble'', ''network trash folder'', ''temporary items'',
     ''lost+found'', ''.trash'', ''.snapshots'', ''@eadir'', ''@tmp'', ''#recycle'', ''.@__thumb'',
     ''.streams'', ''.synologyworkingdirectory'']"
  by (simp add: system_folder_names_def fold_case_def lower_char_def code_def char_of_def bit_Suc_0_iff)

lemma system_file_names_folded [code]:
  "system_file_names =
    [''desktop.ini'', ''thumbs.db'', ''ehthumbs.db'', ''ehthumbs_vista.db'', ''iconcache.db'',
     ''ntuser.dat'', ''ntuser.dat.log'', ''ntuser.dat.log1'', ''ntuser.dat.log2'', ''ntuser.ini'',
     ''hiberfil.sys'', ''pagefile.sys'', ''swapfile.sys'', ''bootmgr'', ''bootnxt'', ''bootsect.bak'',
     ''dumpstack.log'', ''dumpstack.log.cfg'', ''.ds_store'', ''.localized'', ''.metadata_never_index'',
     ''.metadata_never_index_unless_rootfs'', ''.com.apple.timemachine.supported'',
     ''.volumeicon.icns'', ''.fseventsd'', ''icon'' @ [CHR 0x0D], ''.directory'',
     ''unlock_codes.db'', ''unlock_codes.db-journal'']"
  by (simp add: system_file_names_def fold_case_def lower_char_def code_def char_of_def bit_Suc_0_iff)

definition is_system_entry :: "fs \<Rightarrow> path \<Rightarrow> bool" where
  "is_system_entry f entry =
     (let name = name_of entry; name_cf = fold_case name
      in if is_dir f entry
         then name_cf \<in> set system_folder_names \<or> starts_with name ''.Trash-''
         else name_cf \<in> set system_file_names \<or> starts_with name ''._'' \<or> starts_with name ''~$'')"

definition normalize_relative_path :: "string \<Rightarrow> string" where
  "normalize_relative_path requested =
     (let clean = CHR ''/'' # strip_of ''/'' (to_slash (unquote requested))
      in if clean = ''//'' then ''/'' else clean)"

definition is_config_hidden :: "share_conf \<Rightarrow> string \<Rightarrow> string \<Rightarrow> bool" where
  "is_config_hidden cf slot requested =
     (let clean = normalize_relative_path requested
      in list_ex (\<lambda>h. clean = h \<or> starts_with clean (h @ ''/''))
           (case dget (hidden_paths cf) slot of None \<Rightarrow> [] | Some hs \<Rightarrow> hs))"

definition profile_allows_path :: "string \<Rightarrow> string \<Rightarrow> (string \<times> string) list option \<Rightarrow> bool" where
  "profile_allows_path slot requested allowed_paths =
     (case allowed_paths of None \<Rightarrow> True
      | Some allowed \<Rightarrow>
          (let clean = normalize_relative_path requested
           in list_ex (\<lambda>(s, a). slot = s \<and>
                (clean = a \<or> starts_with clean (rstrip_of ''/'' a @ ''/'') \<or>
                 starts_with a (rstrip_of ''/'' clean @ ''/''))) allowed))"

definition is_hidden_folder :: "fs \<Rightarrow> path \<Rightarrow> bool" where
  "is_hidden_folder f folder \<longleftrightarrow> is_dir f folder \<and> is_file f (folder @ [hidden_marker])"

text \<open>The loop from the folder of the path up to, not including, the root.\<close>

definition is_inside_hidden_folder :: "fs \<Rightarrow> path \<Rightarrow> path \<Rightarrow> bool" where
  "is_inside_hidden_folder f p base =
     (let current = realpath f (if is_dir f p then p else butlast p); base = realpath f base
      in is_below current base \<and>
         list_ex (\<lambda>n. is_hidden_folder f (take n current)) [Suc (length base) ..< Suc (length current)])"

definition visible_shared_entry ::
    "fs \<Rightarrow> share_conf \<Rightarrow> path \<Rightarrow> path option \<Rightarrow> string \<Rightarrow> (string \<times> string) list option \<Rightarrow> bool" where
  "visible_shared_entry f cf entry base slot allowed_paths =
     (let system_visible =
        \<not> (starts_with (name_of entry) ''.'' \<or> name_of entry \<in> set [lock_marker, hidden_marker] \<or>
           is_dir f entry \<and> is_hidden_folder f entry \<or> is_system_entry f entry)
      in case base of None \<Rightarrow> system_visible
         | Some r \<Rightarrow> system_visible \<and>
             (case relative_to (realpath f entry) (realpath f r) of None \<Rightarrow> False
              | Some rel \<Rightarrow>
                  (let relative = CHR ''/'' # to_slash (rel_str rel)
                   in \<not> is_config_hidden cf slot relative \<and> profile_allows_path slot relative allowed_paths)))"

section \<open>Resolution\<close>

definition resolve_under_shared_root :: "fs \<Rightarrow> path \<Rightarrow> string \<Rightarrow> path option" where
  "resolve_under_shared_root f base requested =
     (let resolved = realpath f (base @ path_parts (lstrip_of slashes (unquote requested)))
      in if is_below resolved (realpath f base) then Some resolved else None)"

definition resolve_visible_shared_path ::
    "fs \<Rightarrow> share_conf \<Rightarrow> path \<Rightarrow> string \<Rightarrow> bool \<Rightarrow> string \<Rightarrow> (string \<times> string) list option \<Rightarrow> path option" where
  "resolve_visible_shared_path f cf base requested require_file slot allowed_paths =
     (case resolve_under_shared_root f base requested of None \<Rightarrow> None
      | Some target \<Rightarrow>
          if \<not> path_exists f target then None
          else if require_file \<and> \<not> is_file f target then None
          else (case relative_to target (realpath f base) of None \<Rightarrow> None
                | Some rel \<Rightarrow>
                    if list_ex (\<lambda>part. starts_with part ''.'' \<or> part \<in> set [lock_marker, hidden_marker]) rel
                    then None
                    else if list_ex (\<lambda>i. is_system_entry f (realpath f base @ take (Suc i) rel)) [0 ..< length rel]
                    then None
                    else if is_inside_hidden_folder f target (realpath f base) then None
                    else if is_config_hidden cf slot requested then None
                    else if \<not> profile_allows_path slot requested allowed_paths then None
                    else Some target))"

record resolved =
  res_slot :: string
  res_root :: path
  res_relative :: string
  res_path :: path

definition resolve_shared_path ::
    "fs \<Rightarrow> share_conf \<Rightarrow> string \<Rightarrow> string \<Rightarrow> bool \<Rightarrow> bool \<Rightarrow> (string \<times> string) list option \<Rightarrow> resolved option" where
  "resolve_shared_path f cf requested default_slot visible require_file allowed_paths =
     (case parse_shared_path requested default_slot of None \<Rightarrow> None
      | Some (slot, relative) \<Rightarrow>
          (case root_for_slot cf slot of None \<Rightarrow> None
           | Some base \<Rightarrow>
               (case (if visible then resolve_visible_shared_path f cf base relative require_file slot allowed_paths
                      else resolve_under_shared_root f base relative) of
                  None \<Rightarrow> None
                | Some target \<Rightarrow>
                    Some \<lparr>res_slot = slot, res_root = base, res_relative = relative, res_path = target\<rparr>)))"

definition resolve_content_path ::
    "fs \<Rightarrow> share_conf \<Rightarrow> string \<Rightarrow> path \<Rightarrow> string \<Rightarrow> bool \<Rightarrow> bool \<Rightarrow> resolved option" where
  "resolve_content_path f cf slot base requested visible require_file =
     (let clean = normalize_relative_path requested
      in case (if visible then resolve_visible_shared_path f cf base clean require_file slot None
               else resolve_under_shared_root f base clean) of
           None \<Rightarrow> None
         | Some target \<Rightarrow>
             Some \<lparr>res_slot = slot, res_root = realpath f base, res_relative = clean, res_path = target\<rparr>)"

definition resolve_inbox_path :: "fs \<Rightarrow> share_conf \<Rightarrow> path \<Rightarrow> string \<Rightarrow> bool \<Rightarrow> bool \<Rightarrow> resolved option" where
  "resolve_inbox_path f cf inbox_root requested visible require_file =
     resolve_content_path f cf ''inbox'' inbox_root requested visible require_file"

section \<open>Containment\<close>

lemma resolve_under_below:
  "resolve_under_shared_root f b requested = Some t \<Longrightarrow> is_below t (realpath f b)"
  by (auto simp: resolve_under_shared_root_def Let_def split: if_splits)

lemma resolve_visible_under:
  assumes "resolve_visible_shared_path f cf b requested rf slot allowed = Some t"
  shows "resolve_under_shared_root f b requested = Some t" and "path_exists f t"
    and "rf \<Longrightarrow> is_file f t" and "\<not> is_config_hidden cf slot requested"
    and "profile_allows_path slot requested allowed" and "\<not> is_inside_hidden_folder f t (realpath f b)"
    and "list_ex (\<lambda>part. starts_with part ''.'') (drop (length (realpath f b)) t) = False"
proof -
  note def = assms [unfolded resolve_visible_shared_path_def]
  show "resolve_under_shared_root f b requested = Some t" and "path_exists f t" and "rf \<Longrightarrow> is_file f t"
    and "\<not> is_config_hidden cf slot requested" and "profile_allows_path slot requested allowed"
    and "\<not> is_inside_hidden_folder f t (realpath f b)"
    using def by (auto split: option.splits if_splits)
  show "list_ex (\<lambda>part. starts_with part ''.'') (drop (length (realpath f b)) t) = False"
    using def by (auto simp: relative_to_def list_ex_iff split: option.splits if_splits)
qed

lemma resolve_shared_path_cases:
  assumes "resolve_shared_path f cf requested ds visible rf allowed = Some r"
  obtains b where "root_for_slot cf (res_slot r) = Some b"
    and "parse_shared_path requested ds = Some (res_slot r, res_relative r)"
    and "resolve_under_shared_root f b (res_relative r) = Some (res_path r)"
    and "visible \<Longrightarrow> resolve_visible_shared_path f cf b (res_relative r) rf (res_slot r) allowed = Some (res_path r)"
  using assms resolve_visible_under(1)
  by (fastforce simp: resolve_shared_path_def split: option.splits prod.splits if_splits)

section \<open>Canonical requests\<close>

text \<open>A request written the way the catalogue writes paths: components without separators,
  escapes, \<open>.\<close> or \<open>..\<close>.\<close>

definition plain_part :: "string \<Rightarrow> bool" where
  "plain_part p \<longleftrightarrow> p \<noteq> [] \<and> p \<noteq> ''.'' \<and> p \<noteq> ''..'' \<and>
     CHR ''/'' \<notin> set p \<and> CHR ''%'' \<notin> set p \<and> CHR 0x5C \<notin> set p"

lemma join_snoc: "ps \<noteq> [] \<Longrightarrow> join_with sep (ps @ q # qs) = join_with sep ps @ sep @ join_with sep (q # qs)"
  by (induction sep ps rule: join_with.induct) auto

lemma set_join: "set (join_with sep ps) \<subseteq> set sep \<union> \<Union> (set ` set ps)"
  by (induction sep ps rule: join_with.induct) auto

lemma posix_extend: "ps \<noteq> [] \<Longrightarrow> posix (ps @ q # qs) = posix ps @ ''/'' @ join_with ''/'' (q # qs)"
  by (simp add: posix_def join_snoc)

lemma join_hd: "ps \<noteq> [] \<Longrightarrow> hd ps \<noteq> [] \<Longrightarrow> join_with sep ps \<noteq> [] \<and> hd (join_with sep ps) = hd (hd ps)"
  by (induction sep ps rule: join_with.induct) auto

lemma join_last: "ps \<noteq> [] \<Longrightarrow> last ps \<noteq> [] \<Longrightarrow> join_with sep ps \<noteq> [] \<and> last (join_with sep ps) = last (last ps)"
  by (induction sep ps rule: join_with.induct) auto

lemma to_slash_id: "CHR 0x5C \<notin> set s \<Longrightarrow> to_slash s = s"
  by (induction s) (auto simp: to_slash_def replace_char_def)

lemma dropWhile_id: "xs = [] \<or> \<not> P (hd xs) \<Longrightarrow> dropWhile P xs = xs"
  by (cases xs) auto

lemma plain_join_ends:
  assumes "ps \<noteq> []" and "list_all plain_part ps"
  shows "join_with ''/'' ps \<noteq> []" and "hd (join_with ''/'' ps) \<noteq> CHR ''/''"
    and "last (join_with ''/'' ps) \<noteq> CHR ''/''" and "hd (join_with ''/'' ps) \<noteq> CHR 0x5C"
proof -
  let ?j = "join_with ''/'' ps"
  have hd_l: "plain_part (hd ps)" "plain_part (last ps)"
    using assms by (auto simp: list_all_iff)
  then have "?j \<noteq> []" "hd ?j = hd (hd ps)" "last ?j = last (last ps)"
    using join_hd [OF assms(1)] join_last [OF assms(1)] by (auto simp: plain_part_def)
  moreover have "hd (hd ps) \<in> set (hd ps)" "last (last ps) \<in> set (last ps)"
    using hd_l by (auto simp: plain_part_def)
  ultimately show "?j \<noteq> []" "hd ?j \<noteq> CHR ''/''" "last ?j \<noteq> CHR ''/''" "hd ?j \<noteq> CHR 0x5C"
    using hd_l unfolding plain_part_def by metis+
qed

lemma strip_plain_join:
  assumes "ps \<noteq> []" and "list_all plain_part ps"
  shows "strip_of ''/'' (CHR ''/'' # join_with ''/'' ps) = join_with ''/'' ps"
    and "lstrip_of slashes (CHR ''/'' # join_with ''/'' ps) = join_with ''/'' ps"
    and "lstrip_of ''/'' (CHR ''/'' # join_with ''/'' ps) = join_with ''/'' ps"
  using plain_join_ends [OF assms]
  by (simp_all add: strip_of_def lstrip_of_def rstrip_of_def slashes_def dropWhile_id hd_rev)

lemma plain_posix_chars:
  assumes "list_all plain_part ps"
  shows "CHR ''%'' \<notin> set (posix ps)" and "CHR 0x5C \<notin> set (posix ps)"
  using assms set_join [of "''/''" ps] by (auto simp: posix_def list_all_iff plain_part_def)

lemma normalize_plain:
  assumes "ps \<noteq> []" and "list_all plain_part ps"
  shows "normalize_relative_path (posix ps) = posix ps"
proof -
  note chars = plain_posix_chars [OF assms(2)]
  have "posix ps \<noteq> ''//''"
    using strip_plain_join(1) [OF assms] by (auto simp: posix_def strip_of_def lstrip_of_def rstrip_of_def)
  then show ?thesis
    using strip_plain_join(1) [OF assms]
    by (simp add: normalize_relative_path_def unquote_id chars to_slash_id posix_def [symmetric] Let_def)
qed

lemma path_parts_plain:
  assumes "ps \<noteq> []" and "list_all plain_part ps"
  shows "path_parts (lstrip_of slashes (unquote (posix ps))) = ps"
proof -
  have "unquote (posix ps) = posix ps" by (rule unquote_id) (rule plain_posix_chars [OF assms(2)])
  moreover have "split_on (CHR ''/'') (join_with ''/'' ps) = ps"
    using assms by (intro split_join) (auto simp: list_all_iff plain_part_def)
  moreover have "filter (\<lambda>p. p \<noteq> [] \<and> p \<noteq> ''.'') ps = ps"
    using assms(2) by (intro filter_True) (auto simp: list_all_iff plain_part_def)
  ultimately show ?thesis
    using strip_plain_join(2) [OF assms] by (simp add: path_parts_def posix_def)
qed

lemma config_hidden_prefix:
  assumes "ps \<noteq> []" and "list_all plain_part ps" and "dget (hidden_paths cf) slot = Some hs"
    and "posix hp \<in> set hs" and "hp \<noteq> []" and "is_below ps hp"
  shows "is_config_hidden cf slot (posix ps)"
proof -
  from assms(6) obtain r where r: "ps = hp @ r" by (auto simp: is_below_iff)
  have "posix ps = posix hp \<or> starts_with (posix ps) (posix hp @ ''/'')"
    using posix_extend [OF assms(5)] by (cases r) (auto simp: r starts_with_iff)
  with assms show ?thesis by (auto simp: is_config_hidden_def normalize_plain list_ex_iff Let_def)
qed

section \<open>A file system without links\<close>

text \<open>An instance of the parameter for the witnesses: \<open>..\<close> is resolved lexically, and the
  directories and files are listed.\<close>

fun collapse :: "path \<Rightarrow> path \<Rightarrow> path" where
  "collapse acc [] = rev acc"
| "collapse acc (p # ps) = (if p = ''..'' then collapse (tl acc) ps else collapse (p # acc) ps)"

definition plain_fs :: "path list \<Rightarrow> path list \<Rightarrow> fs" where
  "plain_fs dirs files =
     \<lparr>realpath = collapse [], is_dir = (\<lambda>p. p \<in> set dirs), is_file = (\<lambda>p. p \<in> set files)\<rparr>"

definition demo_fs :: fs where
  "demo_fs = plain_fs [[''srv''], [''srv'', ''pub''], [''srv'', ''sec'']]
               [[''srv'', ''pub'', ''a''], [''srv'', ''sec'', ''b'']]"

definition demo_conf :: share_conf where
  "demo_conf = \<lparr>shared_roots = [(''slot-1'', [''srv''])], hidden_paths = [(''slot-1'', [''/sec''])]\<rparr>"

lemmas path_eval = resolve_shared_path_def resolve_visible_shared_path_def resolve_under_shared_root_def
  demo_fs_def demo_conf_def plain_fs_def parse_shared_path_def virtual_root_prefix_def starts_with_def
  root_for_slot_def path_parts_def lstrip_of_def slashes_def is_below_def relative_to_def
  path_exists_def is_system_entry_def name_of_def is_inside_hidden_folder_def is_hidden_folder_def
  is_config_hidden_def normalize_relative_path_def strip_of_def rstrip_of_def to_slash_def
  replace_char_def profile_allows_path_def hidden_marker_def lock_marker_def

section \<open>Properties\<close>






abbreviation separate :: "shared_root \<Rightarrow> shared_root \<Rightarrow> bool" where
  "separate r r' \<equiv> \<not> is_below (snd r) (snd r') \<and> \<not> is_below (snd r') (snd r)"

lemma add_roots_separate:
  assumes "add_roots rp roots todo = Inr out" and "distinct (map fst roots @ map fst todo)"
    and "sorted_wrt separate roots"
  shows "sorted_wrt separate out \<and> distinct (map fst out) \<and>
    set (map fst out) \<subseteq> set (map fst roots) \<union> set (map fst todo)"
  using assms
proof (induction rp roots todo rule: add_roots.induct)
  case (1 rp roots)
  then show ?case by auto
next
  case (2 rp roots slot rest)
  then show ?case by auto
next
  case (3 rp roots slot raw rest)
  let ?p = "rp raw"
  from 3(2) have none: "find (\<lambda>r. is_below ?p (snd r) \<or> is_below (snd r) ?p) roots = None"
    and rest: "add_roots rp (roots @ [(slot, ?p)]) rest = Inr out"
    by (auto simp: Let_def split: option.splits)
  have "sorted_wrt separate (roots @ [(slot, ?p)])"
    using 3(4) none by (auto simp: find_None sorted_wrt_append)
  moreover have "distinct (map fst (roots @ [(slot, ?p)]) @ map fst rest)" using 3(3) by simp
  ultimately show ?case using 3(1) [OF refl none rest] by auto
qed

text \<open>When the configured folders are accepted, the roots have distinct slots
  of the server's two, and neither folder lies inside the other.\<close>

theorem normalized_roots_separate:
  assumes "normalize_shared_roots rp paths = Inr roots"
  shows "distinct (map fst roots) \<and> set (map fst roots) \<subseteq> set root_slots \<and>
    (\<forall>i j. i < j \<and> j < length roots \<longrightarrow>
       \<not> is_below (snd (roots ! i)) (snd (roots ! j)) \<and> \<not> is_below (snd (roots ! j)) (snd (roots ! i)))"
proof -
  have sub: "set (map fst (zip root_slots paths)) \<subseteq> set root_slots" by (auto dest: set_zip_leftD)
  have "distinct (map fst (zip root_slots paths))"
    by (simp add: root_slots_def map_fst_zip_take distinct_take)
  with add_roots_separate [OF assms [unfolded normalize_shared_roots_def]]
  have "sorted_wrt separate roots" "distinct (map fst roots)"
    "set (map fst roots) \<subseteq> set (map fst (zip root_slots paths))" by simp_all
  with sub show ?thesis by (auto simp: sorted_wrt_iff_nth_less)
qed

theorem normalized_roots_separate_witness:
  "distinct (map fst [(''slot-1'', [''a'']), (''slot-2'', [''b''])]) \<and>
   \<not> is_below (snd ([(''slot-1'', [''a'']), (''slot-2'', [''b''])] ! 0))
       (snd ([(''slot-1'', [''a'']), (''slot-2'', [''b''])] ! 1))"
proof -
  have "normalize_shared_roots id [Some [''a''], Some [''b'']] = Inr [(''slot-1'', [''a'']), (''slot-2'', [''b''])]"
    by (simp add: normalize_shared_roots_def root_slots_def is_below_def)
  note sep = normalized_roots_separate [OF this]
  show ?thesis using conjunct1 [OF sep] conjunct2 [OF conjunct2 [OF sep], rule_format, of 0 1] by simp
qed



end
