(* ===== verification/Capability_Store.thy ===== *)
theory Capability_Store
  imports Py_Prelude
begin

text \<open>
  The interface four stores of the server share: share tickets, Player-to-Player invitations, web
  download tickets and web media grants. Each keeps records under the hash of a bearer token,
  drops the ones that are no longer live before it looks at the table, and makes room by evicting
  one record when the table is full. The locale states what a store promises of purging, storing
  and updating; its lemmas are what the holders of a capability may rely on.
\<close>

locale capability_store =
  fixes live :: "time \<Rightarrow> 'r \<Rightarrow> bool"
    and purge :: "time \<Rightarrow> (string, 'r) dict \<Rightarrow> (string, 'r) dict"
    and insert_record :: "time \<Rightarrow> string \<Rightarrow> 'r \<Rightarrow> (string, 'r) dict \<Rightarrow> (string, 'r) dict"
    and capacity :: nat
  assumes purge_get: "dict_ok d \<Longrightarrow> dget (purge now d) k =
      (case dget d k of None \<Rightarrow> None | Some r \<Rightarrow> if live now r then Some r else None)"
    and purge_ok: "dict_ok d \<Longrightarrow> dict_ok (purge now d)"
    and purge_length: "length (purge now d) \<le> length d"
    and insert_get: "dict_ok d \<Longrightarrow> dget (insert_record now k r d) k = Some r"
    and insert_ok: "dict_ok d \<Longrightarrow> dict_ok (insert_record now k r d)"
    and insert_length: "dict_ok d \<Longrightarrow> length d \<le> capacity \<Longrightarrow> length (insert_record now k r d) \<le> capacity"
    and insert_frame: "dict_ok d \<Longrightarrow> k' \<noteq> k \<Longrightarrow> dget (insert_record now k r d) k' = Some r' \<Longrightarrow>
      dget d k' = Some r' \<and> live now r'"
begin

lemma purged_live: "dict_ok d \<Longrightarrow> dget (purge now d) k = Some r \<Longrightarrow> live now r \<and> dget d k = Some r"
  by (auto simp: purge_get split: option.splits if_splits)

lemma purge_keeps: "dict_ok d \<Longrightarrow> dget d k = Some r \<Longrightarrow> live now r \<Longrightarrow> dget (purge now d) k = Some r"
  by (simp add: purge_get)

lemma purge_purge: "dict_ok d \<Longrightarrow> dget (purge now (purge now d)) = dget (purge now d)"
  by (rule ext) (simp add: purge_get purge_ok split: option.split)

lemma purge_dead: "dict_ok d \<Longrightarrow> dget d k = Some r \<Longrightarrow> \<not> live now r \<Longrightarrow> dget (purge now d) k = None"
  by (simp add: purge_get)

lemma issued_usable:
  "dict_ok d \<Longrightarrow> live later r \<Longrightarrow> dget (purge later (insert_record now k r d)) k = Some r"
  by (simp add: insert_get insert_ok purge_keeps)

text \<open>A token that opens nothing opens nothing after another token has been issued.\<close>

lemma no_forged_capability:
  assumes "dict_ok d" and "k' \<noteq> k" and "dget d k' = None"
  shows "dget (purge later (insert_record now k r d)) k' = None"
proof -
  have "dget (insert_record now k r d) k' = None"
    using insert_frame [OF assms(1,2)] assms(3) by (cases "dget (insert_record now k r d) k'") auto
  then show ?thesis using assms(1) by (simp add: purge_get insert_ok)
qed

lemma purge_bounded: "length d \<le> capacity \<Longrightarrow> length (purge now d) \<le> capacity"
  using purge_length le_trans by blast

end

text \<open>A table that never refuses: make room by dropping the least record under some order.\<close>

definition evict_least :: "('r \<Rightarrow> 'o::linorder) \<Rightarrow> nat \<Rightarrow> (string, 'r) dict \<Rightarrow> (string, 'r) dict" where
  "evict_least f n d =
     (if n \<le> length d then (case argmin f d of None \<Rightarrow> d | Some k \<Rightarrow> dpop k d) else d)"

lemma evict_least_ok: "dict_ok d \<Longrightarrow> dict_ok (evict_least f n d)"
  by (auto simp: evict_least_def split: option.splits)

lemma evict_least_get: "dget (evict_least f n d) k = Some r \<Longrightarrow> dget d k = Some r"
  by (auto simp: evict_least_def dget_pop split: option.splits if_splits)

lemma all_vals_evict_least [dict_intros, intro]: "all_vals P d \<Longrightarrow> all_vals P (evict_least f n d)"
  by (auto simp: evict_least_def split: option.splits)

lemma length_evict_least:
  assumes "dict_ok d" and "length d \<le> n" and "0 < n"
  shows "length (evict_least f n d) < n"
proof (cases "n \<le> length d")
  case True
  then have "d \<noteq> []" using assms(3) by auto
  then obtain k where k: "argmin f d = Some k" using argmin_Some by blast
  have "Suc (length (dpop k d)) = length d"
    by (rule length_pop [OF assms(1) argmin_key [OF k]])
  with True k assms(2) show ?thesis by (simp add: evict_least_def)
qed (simp add: evict_least_def)

text \<open>Purge, evict, store: what the \<open>create\<close> and \<open>issue\<close> operations do to the table.\<close>

definition bounded_put ::
    "('r \<Rightarrow> bool) \<Rightarrow> ('r \<Rightarrow> 'o::linorder) \<Rightarrow> nat \<Rightarrow> string \<Rightarrow> 'r \<Rightarrow> (string, 'r) dict \<Rightarrow> (string, 'r) dict" where
  "bounded_put alive f n k r d = dput k r (evict_least f n (dkeep alive d))"

lemma bounded_put_ok: "dict_ok d \<Longrightarrow> dict_ok (bounded_put alive f n k r d)"
  by (simp add: bounded_put_def evict_least_ok)

lemma bounded_put_get: "dget (bounded_put alive f n k r d) k = Some r"
  by (simp add: bounded_put_def dget_put)

lemma bounded_put_length:
  assumes "dict_ok d" and "length d \<le> n" and "0 < n"
  shows "length (bounded_put alive f n k r d) \<le> n"
proof -
  have "length (evict_least f n (dkeep alive d)) < n"
    using assms length_keep [of alive d] by (intro length_evict_least) auto
  then show ?thesis by (simp add: bounded_put_def length_put)
qed

lemma bounded_put_frame:
  assumes "dict_ok d" and "k' \<noteq> k" and "dget (bounded_put alive f n k r d) k' = Some r'"
  shows "dget d k' = Some r' \<and> alive r'"
proof -
  from assms(2,3) have "dget (evict_least f n (dkeep alive d)) k' = Some r'"
    by (simp add: bounded_put_def dget_put)
  then have "dget (dkeep alive d) k' = Some r'" by (rule evict_least_get)
  then show ?thesis using assms(1) by (auto simp: dget_keep split: option.splits if_splits)
qed

lemma bounded_put_all_vals: "all_vals P d \<Longrightarrow> P r \<Longrightarrow> all_vals P (bounded_put alive f n k r d)"
  by (auto simp: bounded_put_def)

text \<open>While there is room nothing live is lost.\<close>

lemma bounded_put_room:
  assumes "dict_ok d" and "length (dkeep alive d) < n" and "k' \<noteq> k"
  shows "dget (bounded_put alive f n k r d) k' = dget (dkeep alive d) k'"
  using assms by (simp add: bounded_put_def evict_least_def dget_put)

lemma capability_store_bounded_put:
  assumes "0 < n"
  shows "capability_store live (\<lambda>now. dkeep (live now)) (\<lambda>now. bounded_put (live now) f n) n"
  using assms
  by unfold_locales
    (simp add: dget_keep length_keep bounded_put_ok bounded_put_get bounded_put_length
      | blast dest: bounded_put_frame)+

end
