(* ===== verification/Share_Tickets.thy ===== *)
theory Share_Tickets
  imports Capability_Store Shared_Paths
begin

text \<open>
  Short-lived share tickets (\<^verbatim>\<open>core/share_tickets.py\<close>): creation with its validation, consumption,
  inspection, revocation by id and by hidden path, and the purge each of them starts with. The
  token hash \<open>h\<close>, the random token and the ticket id are arguments.
\<close>

section \<open>State\<close>

record ticket =
  tk_id :: string
  tk_paths :: "string list"
  tk_download :: bool
  tk_scope :: string
  tk_created :: time
  tk_expires :: time
  tk_remaining :: int
  tk_revoked :: bool

type_synonym tickets = "(string, ticket) dict"

record ticket_grant =
  tg_id :: string
  tg_paths :: "string list"
  tg_download :: bool
  tg_scope :: string
  tg_expires :: time
  tg_remaining :: int

record ticket_receipt =
  tr_id :: string
  tr_token :: string
  tr_scope :: string
  tr_expires :: time
  tr_remaining :: int

datatype share_error = Bad_Paths | Bad_Scope | Bad_Lifetime | Bad_Access_Limit | Bad_Path

definition max_tickets :: nat where "max_tickets = 128"
definition max_paths :: nat where "max_paths = 50"
definition max_ttl_seconds :: int where "max_ttl_seconds = 24 * 60 * 60"
definition max_accesses :: int where "max_accesses = 100"

section \<open>Operations\<close>

definition clean_path :: "string \<Rightarrow> string" where
  "clean_path value = to_slash (str_strip value)"

definition bad_path :: "string \<Rightarrow> bool" where
  "bad_path p \<longleftrightarrow> \<not> starts_with p ''/'' \<or> ''..'' \<in> set (split_on (CHR ''/'') p)"

definition validate_share :: "string list \<Rightarrow> int \<Rightarrow> int \<Rightarrow> string \<Rightarrow> share_error + string list" where
  "validate_share paths ttl accesses scope =
     (if paths = [] \<or> max_paths < length paths then Inl Bad_Paths
      else if scope \<notin> set [''lan'', ''tunnel''] then Inl Bad_Scope
      else if \<not> (60 \<le> ttl \<and> ttl \<le> max_ttl_seconds) then Inl Bad_Lifetime
      else if \<not> (1 \<le> accesses \<and> accesses \<le> max_accesses) then Inl Bad_Access_Limit
      else if list_ex bad_path (map clean_path paths) then Inl Bad_Path
      else Inr (dedup (map clean_path paths)))"

definition ticket_live :: "time \<Rightarrow> ticket \<Rightarrow> bool" where
  "ticket_live now r \<longleftrightarrow> \<not> (tk_expires r \<le> now \<or> tk_revoked r)"

definition cleanup :: "time \<Rightarrow> tickets \<Rightarrow> tickets" where
  "cleanup now = dkeep (ticket_live now)"

definition put_ticket :: "time \<Rightarrow> string \<Rightarrow> ticket \<Rightarrow> tickets \<Rightarrow> tickets" where
  "put_ticket now k r d = dput k r (evict_least tk_created max_tickets (cleanup now d))"

definition create_ticket ::
    "(string \<Rightarrow> string) \<Rightarrow> string \<Rightarrow> string \<Rightarrow> time \<Rightarrow> string list \<Rightarrow> int \<Rightarrow> int \<Rightarrow> bool \<Rightarrow> string \<Rightarrow>
     tickets \<Rightarrow> tickets \<times> (share_error + ticket_receipt)" where
  "create_ticket h token tid now paths ttl accesses allow_download scope d =
     (case validate_share paths ttl accesses scope of Inl e \<Rightarrow> (d, Inl e)
      | Inr normalized \<Rightarrow>
          (put_ticket now (h token)
             \<lparr>tk_id = tid, tk_paths = normalized, tk_download = allow_download, tk_scope = scope,
              tk_created = now, tk_expires = now + of_int ttl, tk_remaining = accesses, tk_revoked = False\<rparr> d,
           Inr \<lparr>tr_id = tid, tr_token = token, tr_scope = scope, tr_expires = now + of_int ttl,
                tr_remaining = accesses\<rparr>))"

definition grant_of :: "ticket \<Rightarrow> ticket_grant" where
  "grant_of r = \<lparr>tg_id = tk_id r, tg_paths = tk_paths r, tg_download = tk_download r, tg_scope = tk_scope r,
     tg_expires = tk_expires r, tg_remaining = tk_remaining r\<rparr>"

definition unusable :: "string \<Rightarrow> ticket \<Rightarrow> bool" where
  "unusable scope r \<longleftrightarrow> tk_revoked r \<or> tk_scope r \<noteq> scope \<or> tk_remaining r \<le> 0"

definition consume_ticket ::
    "(string \<Rightarrow> string) \<Rightarrow> time \<Rightarrow> string \<Rightarrow> string \<Rightarrow> tickets \<Rightarrow> tickets \<times> ticket_grant option" where
  "consume_ticket h now token scope d =
     (let d = cleanup now d
      in case dget d (h token) of None \<Rightarrow> (d, None)
         | Some r \<Rightarrow>
             if unusable scope r then (d, None)
             else (let r' = r\<lparr>tk_remaining := tk_remaining r - 1\<rparr>
                   in (dput (h token) r' d, Some (grant_of r'))))"

definition inspect_ticket ::
    "(string \<Rightarrow> string) \<Rightarrow> time \<Rightarrow> string \<Rightarrow> string \<Rightarrow> tickets \<Rightarrow> tickets \<times> ticket_grant option" where
  "inspect_ticket h now token scope d =
     (let d = cleanup now d
      in case dget d (h token) of None \<Rightarrow> (d, None)
         | Some r \<Rightarrow> if unusable scope r then (d, None) else (d, Some (grant_of r)))"

definition revoke_ticket :: "string \<Rightarrow> tickets \<Rightarrow> tickets \<times> bool" where
  "revoke_ticket tid d =
     (update_first (\<lambda>r. tk_id r = tid) (\<lambda>r. r\<lparr>tk_revoked := True\<rparr>) d,
      list_ex (\<lambda>r. tk_id r = tid) (dvals d))"

text \<open>The path of a ticket is under the hidden path, in the slot that was hidden.\<close>

definition path_covered :: "string \<Rightarrow> string \<Rightarrow> string \<Rightarrow> bool" where
  "path_covered slot prefix value =
     (case parse_shared_path value ''slot-1'' of None \<Rightarrow> False
      | Some (path_slot, relative) \<Rightarrow>
          (let normalized = CHR ''/'' # strip_of ''/'' relative
           in path_slot = slot \<and> (normalized = prefix \<or> starts_with normalized (prefix @ ''/''))))"

definition revoke_paths :: "string \<Rightarrow> string \<Rightarrow> tickets \<Rightarrow> tickets \<times> string list" where
  "revoke_paths slot hidden_path d =
     (let prefix = CHR ''/'' # strip_of ''/'' hidden_path;
          hit = (\<lambda>r. list_ex (path_covered slot prefix) (tk_paths r))
      in (dmap (\<lambda>r. if hit r then r\<lparr>tk_revoked := True\<rparr> else r) d, map tk_id (filter hit (dvals d))))"

section \<open>The store as a capability store\<close>

interpretation share: capability_store ticket_live cleanup put_ticket max_tickets
proof -
  have "capability_store ticket_live (\<lambda>now. dkeep (ticket_live now))
      (\<lambda>now. bounded_put (ticket_live now) tk_created max_tickets) max_tickets"
    by (rule capability_store_bounded_put) (simp add: max_tickets_def)
  moreover have "(\<lambda>now. dkeep (ticket_live now)) = cleanup"
    by (rule ext) (simp add: cleanup_def)
  moreover have "(\<lambda>now. bounded_put (ticket_live now) tk_created max_tickets) = put_ticket"
    by (intro ext) (simp add: put_ticket_def bounded_put_def cleanup_def)
  ultimately show "capability_store ticket_live cleanup put_ticket max_tickets" by simp
qed

section \<open>Runs of operations\<close>

datatype share_op =
    Create string string time "string list" int int bool string
  | Consume time string string
  | Inspect time string string
  | Revoke string
  | Revoke_Paths string string

fun share_step :: "(string \<Rightarrow> string) \<Rightarrow> tickets \<Rightarrow> share_op \<Rightarrow> tickets" where
  "share_step h d (Create token tid now paths ttl accesses dl scope) =
     fst (create_ticket h token tid now paths ttl accesses dl scope d)"
| "share_step h d (Consume now token scope) = fst (consume_ticket h now token scope d)"
| "share_step h d (Inspect now token scope) = fst (inspect_ticket h now token scope d)"
| "share_step h d (Revoke tid) = fst (revoke_ticket tid d)"
| "share_step h d (Revoke_Paths slot p) = fst (revoke_paths slot p d)"

fun share_run :: "(string \<Rightarrow> string) \<Rightarrow> tickets \<Rightarrow> share_op list \<Rightarrow> tickets" where
  "share_run h d [] = d"
| "share_run h d (op # ops) = share_run h (share_step h d op) ops"

text \<open>How often a run consumes the ticket stored under a key.\<close>

fun consumptions :: "(string \<Rightarrow> string) \<Rightarrow> string \<Rightarrow> tickets \<Rightarrow> share_op list \<Rightarrow> int" where
  "consumptions h k d [] = 0"
| "consumptions h k d (op # ops) =
     (case op of Consume now token scope \<Rightarrow>
        (if h token = k \<and> snd (consume_ticket h now token scope d) \<noteq> None then 1 else 0) | _ \<Rightarrow> 0)
     + consumptions h k (share_step h d op) ops"

fun creates :: "(string \<Rightarrow> string) \<Rightarrow> string \<Rightarrow> share_op \<Rightarrow> bool" where
  "creates h k (Create token tid now paths ttl accesses dl scope) = (h token = k)"
| "creates h k _ = False"

definition ticket_ok :: "ticket \<Rightarrow> bool" where
  "ticket_ok r \<longleftrightarrow> 0 \<le> tk_remaining r \<and> tk_remaining r \<le> max_accesses \<and>
     tk_scope r \<in> set [''lan'', ''tunnel''] \<and> tk_paths r \<noteq> [] \<and> length (tk_paths r) \<le> max_paths \<and>
     distinct (tk_paths r) \<and> list_all (\<lambda>p. \<not> bad_path p) (tk_paths r) \<and>
     tk_expires r \<le> tk_created r + of_int max_ttl_seconds"

definition store_ok :: "tickets \<Rightarrow> bool" where
  "store_ok d \<longleftrightarrow> dict_ok d \<and> length d \<le> max_tickets \<and> all_vals ticket_ok d"

lemma validate_shareD:
  assumes "validate_share paths ttl accesses scope = Inr ps"
  shows "scope \<in> set [''lan'', ''tunnel'']" and "60 \<le> ttl" and "ttl \<le> max_ttl_seconds"
    and "1 \<le> accesses" and "accesses \<le> max_accesses" and "ps \<noteq> []" and "length ps \<le> max_paths"
    and "distinct ps" and "list_all (\<lambda>p. \<not> bad_path p) ps"
proof -
  note v = assms [unfolded validate_share_def]
  show "scope \<in> set [''lan'', ''tunnel'']" and "60 \<le> ttl" and "ttl \<le> max_ttl_seconds"
    and "1 \<le> accesses" and "accesses \<le> max_accesses"
    using v by (auto split: if_splits)
  have ps: "ps = dedup (map clean_path paths)" "paths \<noteq> []" "length paths \<le> max_paths"
    "\<not> list_ex bad_path (map clean_path paths)"
    using v by (auto split: if_splits)
  have set_ps: "set ps = clean_path ` set paths" by (simp add: ps(1))
  with ps(2) show "ps \<noteq> []" by auto
  show "distinct ps" and "list_all (\<lambda>p. \<not> bad_path p) ps"
    using ps set_ps by (auto simp: list_all_iff list_ex_iff)
  show "length ps \<le> max_paths" using length_dedup [of "map clean_path paths"] ps by simp
qed

lemma cleanup_ok [simp]: "dict_ok d \<Longrightarrow> dict_ok (cleanup now d)"
  by (simp add: cleanup_def)

lemma share_step_dict_ok: "dict_ok d \<Longrightarrow> dict_ok (share_step h d op)"
  by (cases op) (auto simp: create_ticket_def consume_ticket_def inspect_ticket_def revoke_ticket_def
      revoke_paths_def Let_def share.insert_ok split: sum.splits option.splits)

lemma store_ok_cleanup: "store_ok d \<Longrightarrow> store_ok (cleanup now d)"
  using share.purge_bounded [of d now] by (auto simp: store_ok_def share.purge_ok) (auto simp: cleanup_def)

lemma store_ok_put:
  assumes "store_ok d" and "dget d k = Some r" and "0 \<le> n" and "n \<le> tk_remaining r"
  shows "store_ok (dput k (r\<lparr>tk_remaining := n\<rparr>) d)"
proof -
  have all: "all_vals ticket_ok d" using assms(1) by (simp add: store_ok_def)
  then have "ticket_ok r" using assms(2) by (rule all_vals_get)
  with assms(3,4) have "ticket_ok (r\<lparr>tk_remaining := n\<rparr>)" by (simp add: ticket_ok_def)
  with all have "all_vals ticket_ok (dput k (r\<lparr>tk_remaining := n\<rparr>) d)" by blast
  with assms(1) dget_key [OF assms(2)] show ?thesis by (simp add: store_ok_def length_put)
qed

lemma ticket_ok_revoked [simp]: "ticket_ok (r\<lparr>tk_revoked := b\<rparr>) = ticket_ok r"
  by (simp add: ticket_ok_def)

lemma store_ok_revoked:
  assumes "store_ok d"
  shows "store_ok (update_first P (\<lambda>r. r\<lparr>tk_revoked := True\<rparr>) d)"
    and "store_ok (dmap (\<lambda>r. if P r then r\<lparr>tk_revoked := True\<rparr> else r) d)"
  using assms unfolding store_ok_def
  by (auto intro!: all_vals_update_first) (auto simp: dmap_def all_vals_def)

lemma share_step_store_ok:
  assumes "store_ok d"
  shows "store_ok (share_step h d op)"
proof (cases op)
  case (Create token tid now paths ttl accesses dl scope)
  show ?thesis
  proof (cases "validate_share paths ttl accesses scope")
    case (Inl e)
    with assms Create show ?thesis by (simp add: create_ticket_def)
  next
    case (Inr ps)
    note v = validate_shareD [OF Inr]
    have "dict_ok d" "length d \<le> max_tickets" using assms by (simp_all add: store_ok_def)
    then have "dict_ok (share_step h d op)" "length (share_step h d op) \<le> max_tickets"
      using Create Inr by (simp_all add: create_ticket_def share.insert_ok share.insert_length)
    moreover have "all_vals ticket_ok (share_step h d op)"
      using assms Create Inr v
      by (auto simp: create_ticket_def store_ok_def put_ticket_def cleanup_def ticket_ok_def
          intro!: all_vals_put all_vals_evict_least all_vals_keep)
    ultimately show ?thesis by (simp add: store_ok_def)
  qed
next
  case (Consume now token scope)
  have c: "store_ok (cleanup now d)" by (rule store_ok_cleanup [OF assms])
  show ?thesis
  proof (cases "dget (cleanup now d) (h token)")
    case None
    with c Consume show ?thesis by (simp add: consume_ticket_def Let_def)
  next
    case (Some r)
    with c store_ok_put [OF c Some, of "tk_remaining r - 1"] Consume show ?thesis
      by (auto simp: consume_ticket_def Let_def unusable_def)
  qed
next
  case (Inspect now token scope)
  with store_ok_cleanup [OF assms] show ?thesis
    by (auto simp: inspect_ticket_def Let_def split: option.split)
qed (use store_ok_revoked [OF assms] in \<open>simp_all add: revoke_ticket_def revoke_paths_def Let_def\<close>)

lemma share_run_store_ok: "store_ok d \<Longrightarrow> store_ok (share_run h d ops)"
  by (induction ops arbitrary: d) (auto simp: share_step_store_ok)

section \<open>Accounting of accesses\<close>

definition budget :: "tickets \<Rightarrow> string \<Rightarrow> int" where
  "budget d k = (case dget d k of None \<Rightarrow> 0 | Some r \<Rightarrow> max 0 (tk_remaining r))"

lemma budget_nonneg: "0 \<le> budget d k"
  by (simp add: budget_def split: option.split)

lemma budget_cleanup: "dict_ok d \<Longrightarrow> budget (cleanup now d) k \<le> budget d k"
  by (auto simp: budget_def share.purge_get split: option.split)

lemma budget_update_first:
  "(\<And>r. tk_remaining (f r) = tk_remaining r) \<Longrightarrow> budget (update_first P f d) k = budget d k"
  unfolding budget_def by (induction P f d rule: update_first.induct) (auto split: option.splits)

lemma budget_dmap: "(\<And>r. tk_remaining (f r) = tk_remaining r) \<Longrightarrow> budget (dmap f d) k = budget d k"
  by (simp add: budget_def dget_map split: option.split)

lemma budget_put_ticket: "dict_ok d \<Longrightarrow> k' \<noteq> k \<Longrightarrow> budget (put_ticket now k r d) k' \<le> budget d k'"
  using share.insert_frame [of d k' k now r] budget_nonneg [of d k']
  by (auto simp: budget_def split: option.split)

lemma budget_consume:
  assumes "dict_ok d" and "consume_ticket h now token scope d = (d', g)"
  shows "(if h token = k \<and> g \<noteq> None then 1 else 0) + budget d' k \<le> budget d k"
proof (cases "g = None")
  case True
  with assms have "d' = cleanup now d"
    by (auto simp: consume_ticket_def Let_def split: option.splits if_splits)
  with True budget_cleanup [OF assms(1)] show ?thesis by simp
next
  case False
  with assms(2) obtain r where r: "dget (cleanup now d) (h token) = Some r" "0 < tk_remaining r"
    "d' = dput (h token) (r\<lparr>tk_remaining := tk_remaining r - 1\<rparr>) (cleanup now d)"
    by (auto simp: consume_ticket_def unusable_def Let_def split: option.splits if_splits)
  have "(if h token = k then 1 else 0) + budget d' k \<le> budget (cleanup now d) k"
    using r by (auto simp: budget_def dget_put)
  also have "\<dots> \<le> budget d k" by (rule budget_cleanup [OF assms(1)])
  finally show ?thesis using False by simp
qed

lemma budget_step:
  assumes "dict_ok d" and "\<not> creates h k op"
  shows "(case op of Consume now token scope \<Rightarrow>
        (if h token = k \<and> snd (consume_ticket h now token scope d) \<noteq> None then 1 else 0) | _ \<Rightarrow> 0)
     + budget (share_step h d op) k \<le> budget d k"
proof (cases op)
  case (Create token tid now paths ttl accesses dl scope)
  with assms show ?thesis
    by (auto simp: create_ticket_def budget_put_ticket split: sum.split)
next
  case (Consume now token scope)
  with budget_consume [OF assms(1)] show ?thesis
    by (cases "consume_ticket h now token scope d") auto
next
  case (Inspect now token scope)
  then have "share_step h d op = cleanup now d"
    by (auto simp: inspect_ticket_def Let_def split: option.split)
  with Inspect budget_cleanup [OF assms(1)] show ?thesis by simp
next
  case (Revoke tid)
  then show ?thesis by (simp add: revoke_ticket_def budget_update_first)
next
  case (Revoke_Paths slot p)
  then show ?thesis by (simp add: revoke_paths_def Let_def budget_dmap)
qed

lemma consumptions_le_budget:
  assumes "dict_ok d" and "\<forall>op \<in> set ops. \<not> creates h k op"
  shows "consumptions h k d ops + budget (share_run h d ops) k \<le> budget d k"
  using assms
proof (induction ops arbitrary: d)
  case Nil
  then show ?case by simp
next
  case (Cons op ops)
  then have "consumptions h k (share_step h d op) ops + budget (share_run h (share_step h d op) ops) k
      \<le> budget (share_step h d op) k"
    using share_step_dict_ok by simp
  moreover note budget_step [of d h k op]
  ultimately show ?case using Cons.prems by auto
qed

lemma grant_from:
  assumes "dict_ok d"
  shows "snd (inspect_ticket h now token scope d) = Some g \<Longrightarrow>
      \<exists>r. dget d (h token) = Some r \<and> ticket_live now r \<and> \<not> unusable scope r \<and> g = grant_of r"
    and "snd (consume_ticket h now token scope d) = Some g \<Longrightarrow>
      \<exists>r. dget d (h token) = Some r \<and> ticket_live now r \<and> \<not> unusable scope r \<and>
        g = grant_of (r\<lparr>tk_remaining := tk_remaining r - 1\<rparr>)"
  using share.purged_live [OF assms]
  by (fastforce simp: inspect_ticket_def consume_ticket_def Let_def split: option.splits if_splits)+

section \<open>Properties\<close>

text \<open>C6 (access limit). However creations, inspections, revocations and consumptions are ordered, a
  ticket is consumed at most as often as it has accesses left, and never if there is none under its
  hash, unless a new ticket is created under that very hash.\<close>

theorem share_ticket_access_limit:
  assumes "dict_ok d" and "\<forall>op \<in> set ops. \<not> creates h k op"
  shows "consumptions h k d ops \<le> (case dget d k of None \<Rightarrow> 0 | Some r \<Rightarrow> max 0 (tk_remaining r))"
  using consumptions_le_budget [OF assms] budget_nonneg [of "share_run h d ops" k]
  by (simp add: budget_def)

definition demo_ticket :: ticket where
  "demo_ticket = \<lparr>tk_id = ''t'', tk_paths = [''/a/b''], tk_download = True, tk_scope = ''lan'', tk_created = 0,
     tk_expires = 100, tk_remaining = 2, tk_revoked = False\<rparr>"

theorem share_ticket_access_limit_witness:
  "consumptions id ''k'' [(''k'', demo_ticket)] [Consume 1 ''k'' ''lan'', Consume 2 ''k'' ''lan'', Consume 3 ''k'' ''lan'']
     \<le> 2 \<and>
   consumptions id ''k'' [(''k'', demo_ticket)] [Consume 1 ''k'' ''lan'', Consume 2 ''k'' ''lan'', Consume 3 ''k'' ''lan''] = 2"
  using share_ticket_access_limit [of "[(''k'', demo_ticket)]"
      "[Consume 1 ''k'' ''lan'', Consume 2 ''k'' ''lan'', Consume 3 ''k'' ''lan'']" id "''k''"]
  by (simp add: demo_ticket_def consume_ticket_def cleanup_def dkeep_def ticket_live_def unusable_def
      dict_ok_def Let_def)

text \<open>Whatever the sequence of operations from the empty store, there are at
  most 128 tickets under distinct hashes, and every ticket has validated paths, a known scope, a
  lifetime of at most a day and between 0 and 100 accesses left.\<close>

theorem share_store_invariant:
  "store_ok (share_run h [] ops)"
  by (rule share_run_store_ok) (simp add: store_ok_def)

text \<open>A consumed ticket was in the store under the hash of the token, not
  expired, not revoked, of the scope asked for, with an access left; the grant reports one less and
  that is what the store holds afterwards. In every other case there is no grant.\<close>

theorem share_consume_exact:
  assumes "dict_ok d"
  shows "snd (consume_ticket h now token scope d) =
    (case dget d (h token) of None \<Rightarrow> None
     | Some r \<Rightarrow> if now < tk_expires r \<and> \<not> tk_revoked r \<and> tk_scope r = scope \<and> 0 < tk_remaining r
         then Some (grant_of (r\<lparr>tk_remaining := tk_remaining r - 1\<rparr>)) else None) \<and>
    (\<forall>g. snd (consume_ticket h now token scope d) = Some g \<longrightarrow>
       (\<exists>r'. dget (fst (consume_ticket h now token scope d)) (h token) = Some r' \<and> grant_of r' = g))"
  using assms
  by (auto simp: consume_ticket_def Let_def share.purge_get unusable_def ticket_live_def dget_put
      split: option.splits if_splits)

theorem share_consume_exact_witness:
  "snd (consume_ticket id 5 ''k'' ''lan'' [(''k'', demo_ticket)]) =
     Some (grant_of (demo_ticket\<lparr>tk_remaining := 1\<rparr>)) \<and>
   snd (consume_ticket id 5 ''k'' ''tunnel'' [(''k'', demo_ticket)]) = None"
  using share_consume_exact [of "[(''k'', demo_ticket)]" id 5 "''k''" "''lan''"]
    share_consume_exact [of "[(''k'', demo_ticket)]" id 5 "''k''" "''tunnel''"]
  by (simp add: dict_ok_def demo_ticket_def)

text \<open>Right after a folder of a slot is hidden, no token,
  whatever its scope and the time, yields a grant with a path in that folder.\<close>

theorem share_revoke_paths_effective:
  assumes "dict_ok d" and "d' = fst (revoke_paths slot hidden_path d)"
    and "snd (inspect_ticket h now token scope d') = Some g \<or> snd (consume_ticket h now token scope d') = Some g"
  shows "\<forall>p \<in> set (tg_paths g). \<not> path_covered slot (CHR ''/'' # strip_of ''/'' hidden_path) p"
proof -
  have "dict_ok d'" using assms(1,2) by (simp add: revoke_paths_def Let_def)
  with assms(3) obtain r where r: "dget d' (h token) = Some r" "ticket_live now r" "tg_paths g = tk_paths r"
    using grant_from [of d' h now token scope g] by (auto simp: grant_of_def)
  then have "\<not> tk_revoked r" by (simp add: ticket_live_def)
  let ?hit = "\<lambda>r. list_ex (path_covered slot (CHR ''/'' # strip_of ''/'' hidden_path)) (tk_paths r)"
  from r(1) obtain r0 where r0: "r = (if ?hit r0 then r0\<lparr>tk_revoked := True\<rparr> else r0)"
    by (auto simp: assms(2) revoke_paths_def Let_def dget_map)
  with \<open>\<not> tk_revoked r\<close> have "\<not> ?hit r0" by (cases "?hit r0") simp_all
  with r0 r(3) show ?thesis by (simp add: list_ex_iff)
qed

theorem share_revoke_paths_effective_witness:
  "\<not> path_covered ''slot-1'' (CHR ''/'' # strip_of ''/'' ''/c'') ''/a/b''"
proof -
  let ?d' = "fst (revoke_paths ''slot-1'' ''/c'' [(''k'', demo_ticket)])"
  have "snd (inspect_ticket id 5 ''k'' ''lan'' ?d') = Some (grant_of demo_ticket)"
    by (simp add: inspect_ticket_def cleanup_def dkeep_def ticket_live_def unusable_def Let_def
        revoke_paths_def dmap_def path_covered_def parse_shared_path_def starts_with_def
        virtual_root_prefix_def strip_of_def lstrip_of_def rstrip_of_def demo_ticket_def is_hex_def)
  from share_revoke_paths_effective [OF _ refl disjI1 [OF this]]
  show ?thesis by (simp add: dict_ok_def grant_of_def) (simp add: demo_ticket_def)
qed

end
