(* ===== verification/Py_Json.thy ===== *)
theory Py_Json
  imports Py_Prelude
begin

text \<open>
  The values \<open>json.loads\<close> returns, and the conversions the handlers apply to them: \<open>dict.get\<close>,
  \<open>str\<close>, \<open>int\<close>, \<open>bool\<close> and equality with a constant. The text of a float, a list or a dictionary
  is the argument \<open>repr\<close>; every other text is written out. Objects keep the order of their keys.
\<close>

datatype json =
    JNull
  | JBool bool
  | JInt int
  | JReal real
  | JStr string
  | JList "json list"
  | JObj "(string \<times> json) list"

type_synonym jobj = "(string \<times> json) list"

section \<open>Numbers as text\<close>

definition digit_char :: "nat \<Rightarrow> char" where
  "digit_char n = (''0123456789abcdef'' ! n)"

fun show_nat :: "nat \<Rightarrow> string" where
  "show_nat n = (if n < 10 then [digit_char n] else show_nat (n div 10) @ [digit_char (n mod 10)])"

declare show_nat.simps [simp del]

definition show_int :: "int \<Rightarrow> string" where
  "show_int n = (if n < 0 then CHR ''-'' # show_nat (nat (- n)) else show_nat (nat n))"

definition digit_val :: "char \<Rightarrow> nat" where
  "digit_val c = code c - 48"

text \<open>The digits of an integer literal, with single underscores between digits, as \<open>int(str)\<close>
  accepts them.\<close>

fun read_digits :: "nat \<Rightarrow> string \<Rightarrow> nat option" where
  "read_digits acc [] = Some acc"
| "read_digits acc [c] = (if is_digit c then Some (10 * acc + digit_val c) else None)"
| "read_digits acc (c # d # cs) =
     (if is_digit c then read_digits (10 * acc + digit_val c) (d # cs)
      else None)"

fun drop_underscores :: "string \<Rightarrow> string option" where
  "drop_underscores [] = Some []"
| "drop_underscores [c] = (if c = CHR ''_'' then None else Some [c])"
| "drop_underscores (c # d # cs) =
     (if c = CHR ''_'' then None
      else if d = CHR ''_'' then map_option (Cons c) (if cs = [] then None else drop_underscores cs)
      else map_option (Cons c) (drop_underscores (d # cs)))"

definition read_nat :: "string \<Rightarrow> nat option" where
  "read_nat s = (if s = [] then None else Option.bind (drop_underscores s) (read_digits 0))"

definition read_int :: "string \<Rightarrow> int option" where
  "read_int text =
     (case str_strip text of
        [] \<Rightarrow> None
      | c # cs \<Rightarrow>
          if c = CHR ''-'' then map_option (\<lambda>n. - int n) (read_nat cs)
          else if c = CHR ''+'' then map_option int (read_nat cs)
          else map_option int (read_nat (c # cs)))"

section \<open>Conversions\<close>

definition jget :: "jobj \<Rightarrow> string \<Rightarrow> json" where
  "jget ob k = (case map_of ob k of None \<Rightarrow> JNull | Some v \<Rightarrow> v)"

definition jget_or :: "jobj \<Rightarrow> string \<Rightarrow> json \<Rightarrow> json" where
  "jget_or ob k dflt = (case map_of ob k of None \<Rightarrow> dflt | Some v \<Rightarrow> v)"

fun to_str :: "(json \<Rightarrow> string) \<Rightarrow> json \<Rightarrow> string" where
  "to_str repr JNull = ''None''"
| "to_str repr (JBool b) = (if b then ''True'' else ''False'')"
| "to_str repr (JInt n) = show_int n"
| "to_str repr (JStr s) = s"
| "to_str repr v = repr v"

fun to_int :: "json \<Rightarrow> py_error + int" where
  "to_int (JInt n) = Inr n"
| "to_int (JBool b) = Inr (of_bool b)"
| "to_int (JReal x) = Inr (py_int x)"
| "to_int (JStr s) = (case read_int s of None \<Rightarrow> Inl Value_Error | Some n \<Rightarrow> Inr n)"
| "to_int _ = Inl Type_Error"

fun truthy :: "json \<Rightarrow> bool" where
  "truthy JNull = False"
| "truthy (JBool b) = b"
| "truthy (JInt n) = (n \<noteq> 0)"
| "truthy (JReal x) = (x \<noteq> 0)"
| "truthy (JStr s) = (s \<noteq> [])"
| "truthy (JList xs) = (xs \<noteq> [])"
| "truthy (JObj ob) = (ob \<noteq> [])"

text \<open>\<open>value == n\<close>: Python compares \<open>1\<close>, \<open>1.0\<close> and \<open>True\<close> as equal.\<close>

fun eq_int :: "json \<Rightarrow> int \<Rightarrow> bool" where
  "eq_int (JInt m) n = (m = n)"
| "eq_int (JReal x) n = (x = of_int n)"
| "eq_int (JBool b) n = (of_bool b = n)"
| "eq_int _ n = False"

text \<open>\<open>a == b\<close>: numbers and booleans compare by value, dictionaries without regard to order.\<close>

fun number :: "json \<Rightarrow> real option" where
  "number (JInt n) = Some (of_int n)"
| "number (JReal x) = Some x"
| "number (JBool b) = Some (of_bool b)"
| "number _ = None"

lemma size_dict_value [termination_simp]: "(k, v) \<in> set ob \<Longrightarrow> size v < Suc (size_list (size_prod (\<lambda>x. 0) size) ob)"
  by (induction ob) auto

lemma size_zip_left [termination_simp]: "(x, y) \<in> set (zip xs ys) \<Longrightarrow> size x < Suc (size_list size xs)"
  by (auto dest!: set_zip_leftD simp: size_list_estimation' less_Suc_eq_le)

fun py_eq :: "json \<Rightarrow> json \<Rightarrow> bool" where
  "py_eq (JStr s) (JStr t) = (s = t)"
| "py_eq JNull JNull = True"
| "py_eq (JList xs) (JList ys) = (length xs = length ys \<and> list_all (\<lambda>(x, y). py_eq x y) (zip xs ys))"
| "py_eq (JObj a) (JObj b) = (length a = length b \<and>
     list_all (\<lambda>(k, v). case map_of b k of None \<Rightarrow> False | Some w \<Rightarrow> py_eq v w) a)"
| "py_eq x y = (number x \<noteq> None \<and> number x = number y)"

text \<open>\<open>float(value)\<close>; \<open>rl\<close> reads a text.\<close>

definition to_float :: "(string \<Rightarrow> real option) \<Rightarrow> json \<Rightarrow> py_error + real" where
  "to_float rl v = (case v of JStr s \<Rightarrow> (case rl s of None \<Rightarrow> Inl Value_Error | Some x \<Rightarrow> Inr x)
     | _ \<Rightarrow> (case number v of None \<Rightarrow> Inl Type_Error | Some x \<Rightarrow> Inr x))"

definition float_or :: "(string \<Rightarrow> real option) \<Rightarrow> json \<Rightarrow> real \<Rightarrow> py_error + real" where
  "float_or rl v dflt = (if truthy v then to_float rl v else Inr dflt)"

text \<open>\<open>dict(value)\<close> of a parsed value, with the keys as \<open>str\<close>: an object, or an iterable of pairs.\<close>

fun as_pair :: "json \<Rightarrow> py_error + json \<times> json" where
  "as_pair (JList [k, v]) = Inr (k, v)"
| "as_pair (JList _) = Inl Value_Error"
| "as_pair (JStr [a, b]) = Inr (JStr [a], JStr [b])"
| "as_pair (JStr _) = Inl Value_Error"
| "as_pair (JObj [(a, _), (b, _)]) = Inr (JStr a, JStr b)"
| "as_pair (JObj _) = Inl Value_Error"
| "as_pair _ = Inl Type_Error"

fun hashable :: "json \<Rightarrow> bool" where
  "hashable (JList _) = False"
| "hashable (JObj _) = False"
| "hashable _ = True"

fun pairs_dict :: "(json \<Rightarrow> string) \<Rightarrow> jobj \<Rightarrow> json list \<Rightarrow> py_error + jobj" where
  "pairs_dict repr acc [] = Inr acc"
| "pairs_dict repr acc (x # xs) =
     (case as_pair x of Inl e \<Rightarrow> Inl e
      | Inr (k, v) \<Rightarrow> if hashable k then pairs_dict repr (dput (to_str repr k) v acc) xs else Inl Type_Error)"

fun to_dict :: "(json \<Rightarrow> string) \<Rightarrow> json \<Rightarrow> py_error + jobj" where
  "to_dict repr (JObj ob) = Inr ob"
| "to_dict repr (JList xs) = pairs_dict repr [] xs"
| "to_dict repr (JStr s) = pairs_dict repr [] (map (\<lambda>c. JStr [c]) s)"
| "to_dict repr _ = Inl Type_Error"

text \<open>\<open>{k: f(v) for k, v in d.items()}\<close> where \<open>f\<close> may raise.\<close>

fun map_items :: "(json \<Rightarrow> 'e + 'a) \<Rightarrow> jobj \<Rightarrow> 'e + (string, 'a) dict" where
  "map_items f [] = Inr []"
| "map_items f ((k, v) # ob) =
     (case f v of Inl e \<Rightarrow> Inl e
      | Inr a \<Rightarrow> (case map_items f ob of Inl e \<Rightarrow> Inl e | Inr d \<Rightarrow> Inr ((k, a) # d)))"

lemma map_items_dmap: "(\<And>k v. (k, v) \<in> set d \<Longrightarrow> f (g v) = Inr (h v)) \<Longrightarrow> map_items f (dmap g d) = Inr (dmap h d)"
proof (induction d)
  case Nil
  then show ?case by (simp add: dmap_def)
next
  case (Cons a d)
  obtain k v where a: "a = (k, v)" by (cases a)
  with Cons have "map_items f (dmap g d) = Inr (dmap h d)" "f (g v) = Inr (h v)" by auto
  with a show ?case by (simp add: dmap_def)
qed

section \<open>Printing and reading integers\<close>

lemma digit_char_digit: "n < 10 \<Longrightarrow> is_digit (digit_char n) \<and> digit_val (digit_char n) = n"
proof -
  assume "n < 10"
  then have "n \<in> set [0 ..< 10]" by simp
  then show ?thesis
    by (auto simp: upt_rec digit_char_def is_digit_def digit_val_def code_def numeral_2_eq_2 nth_Cons'
        split: if_splits)
qed

lemma read_digits_snoc:
  "read_digits acc (cs @ [c]) =
    Option.bind (read_digits acc cs) (\<lambda>n. if is_digit c then Some (10 * n + digit_val c) else None)"
  by (induction acc cs rule: read_digits.induct) auto

lemma read_show_digits: "read_digits 0 (show_nat n) = Some n"
proof (induction n rule: show_nat.induct)
  case (1 n)
  show ?case
  proof (cases "n < 10")
    case True
    then show ?thesis using digit_char_digit [of n] by (simp add: show_nat.simps [of n])
  next
    case False
    then show ?thesis using 1 digit_char_digit [of "n mod 10"]
      by (simp add: show_nat.simps [of n] read_digits_snoc)
  qed
qed

lemma show_nat_digits: "list_all is_digit (show_nat n)"
proof (induction n rule: show_nat.induct)
  case (1 n)
  show ?case
    using 1 digit_char_digit [of n] digit_char_digit [of "n mod 10"] by (subst show_nat.simps) auto
qed

lemma show_nat_not_Nil [simp]: "show_nat n \<noteq> []"
  by (subst show_nat.simps) simp

lemma digit_not: "is_digit c \<Longrightarrow> c \<noteq> CHR ''_'' \<and> c \<noteq> CHR ''-'' \<and> c \<noteq> CHR ''+'' \<and> \<not> is_space c"
  by (auto simp: is_digit_def is_space_def code_def Let_def)

lemma drop_underscores_digits: "list_all is_digit s \<Longrightarrow> drop_underscores s = Some s"
  by (induction s rule: drop_underscores.induct) (auto dest: digit_not)

lemma read_nat_show: "read_nat (show_nat n) = Some n"
  using show_nat_digits [of n] by (simp add: read_nat_def drop_underscores_digits read_show_digits)

lemma strip_no_space: "list_all (\<lambda>c. \<not> is_space c) s \<Longrightarrow> str_strip s = s"
proof -
  assume s: "list_all (\<lambda>c. \<not> is_space c) s"
  then have "dropWhile is_space s = s" by (cases s) auto
  moreover from s have "dropWhile is_space (rev s) = rev s" by (cases "rev s") (auto simp: list_all_iff)
  ultimately show ?thesis by (simp add: str_strip_def)
qed

lemma show_nat_no_space: "list_all (\<lambda>c. \<not> is_space c) (show_nat n)"
  using show_nat_digits [of n] by (auto simp: list_all_iff dest: digit_not)

lemma read_show_int: "read_int (show_int n) = Some n"
proof -
  obtain c cs where c: "show_nat (nat n) = c # cs" by (cases "show_nat (nat n)") auto
  then have "is_digit c" using show_nat_digits [of "nat n"] by simp
  note nd = digit_not [OF this]
  have sp: "\<not> is_space (CHR ''-'')" by (simp add: is_space_def code_def)
  show ?thesis
  proof (cases "n < 0")
    case True
    have "str_strip (CHR ''-'' # show_nat (nat (- n))) = CHR ''-'' # show_nat (nat (- n))"
      by (rule strip_no_space) (simp add: show_nat_no_space sp)
    with True show ?thesis by (simp add: read_int_def show_int_def read_nat_show)
  next
    case False
    have "str_strip (show_nat (nat n)) = show_nat (nat n)"
      by (rule strip_no_space) (rule show_nat_no_space)
    with False nd read_nat_show [of "nat n"] show ?thesis by (simp add: read_int_def show_int_def c)
  qed
qed

end
