(* ===== verification/P2P_Invitations.thy ===== *)
theory P2P_Invitations
  imports Capability_Store Py_Json
begin

text \<open>
  The ephemeral Player-to-Player invitation registry (\<^verbatim>\<open>core/p2p_invitations.py\<close>): creation with
  replacement of an older record of the same invitation, inspection, resolution, consumption,
  revocation and the sender's view. An envelope is a JSON object.
\<close>

record invitation =
  iv_id :: string
  iv_envelope :: jobj
  iv_created :: time
  iv_expires :: time
  iv_remaining :: int
  iv_resolved_at :: "time option"
  iv_resolve_count :: int
  iv_revoked :: bool

type_synonym invitations = "(string, invitation) dict"

record invitation_grant =
  ig_id :: string
  ig_envelope :: jobj
  ig_expires :: time
  ig_remaining :: int
  ig_resolved_at :: "time option"
  ig_resolve_count :: int

record invitation_receipt =
  ir_id :: string
  ir_token :: string
  ir_expires :: time
  ir_remaining :: int

record sender_view =
  sv_id :: string
  sv_resolved :: bool
  sv_resolved_at :: "time option"
  sv_resolve_count :: int
  sv_expires :: time
  sv_remaining :: int

datatype invitation_error =
  Bad_Envelope | Bad_Invite_Lifetime | Bad_Invite_Access_Limit | Bad_Invite_Id | Bad_Invite_Protocol

definition max_invitations :: nat where "max_invitations = 128"

definition invite_live :: "time \<Rightarrow> invitation \<Rightarrow> bool" where
  "invite_live now r \<longleftrightarrow> \<not> (iv_expires r \<le> now \<or> iv_revoked r)"

definition invite_cleanup :: "time \<Rightarrow> invitations \<Rightarrow> invitations" where
  "invite_cleanup now = dkeep (invite_live now)"

text \<open>\<open>create\<close> on the table: purge, drop the records of the same id, evict the oldest when full.\<close>

definition put_invitation :: "time \<Rightarrow> string \<Rightarrow> invitation \<Rightarrow> invitations \<Rightarrow> invitations" where
  "put_invitation now k r d =
     dput k r (evict_least iv_created max_invitations
       (dkeep (\<lambda>v. iv_id v \<noteq> iv_id r) (invite_cleanup now d)))"

definition create_invitation ::
    "(string \<Rightarrow> string) \<Rightarrow> (json \<Rightarrow> string) \<Rightarrow> string \<Rightarrow> time \<Rightarrow> json \<Rightarrow> int \<Rightarrow> int \<Rightarrow>
     invitations \<Rightarrow> invitations \<times> (invitation_error + invitation_receipt)" where
  "create_invitation h repr token now envelope ttl accesses d =
     (case envelope of
        JObj env \<Rightarrow>
          (let invite_id = str_strip (to_str repr (jget_or env ''invite_id'' (JStr [])))
           in if \<not> (30 \<le> ttl \<and> ttl \<le> 15 * 60) then (d, Inl Bad_Invite_Lifetime)
              else if \<not> (1 \<le> accesses \<and> accesses \<le> 3) then (d, Inl Bad_Invite_Access_Limit)
              else if length invite_id \<noteq> 32 \<or> \<not> list_all is_lower_hex invite_id then (d, Inl Bad_Invite_Id)
              else if jget env ''protocol'' \<noteq> JStr ''NSP2P-INVITE'' \<or> \<not> eq_int (jget env ''version'') 1
              then (d, Inl Bad_Invite_Protocol)
              else (put_invitation now (h token)
                      \<lparr>iv_id = invite_id, iv_envelope = env, iv_created = now, iv_expires = now + of_int ttl,
                       iv_remaining = accesses, iv_resolved_at = None, iv_resolve_count = 0, iv_revoked = False\<rparr> d,
                    Inr \<lparr>ir_id = invite_id, ir_token = token, ir_expires = now + of_int ttl, ir_remaining = accesses\<rparr>))
      | _ \<Rightarrow> (d, Inl Bad_Envelope))"

definition invite_grant :: "invitation \<Rightarrow> invitation_grant" where
  "invite_grant r = \<lparr>ig_id = iv_id r, ig_envelope = iv_envelope r, ig_expires = iv_expires r,
     ig_remaining = iv_remaining r, ig_resolved_at = iv_resolved_at r, ig_resolve_count = iv_resolve_count r\<rparr>"

definition inspect_invitation ::
    "(string \<Rightarrow> string) \<Rightarrow> time \<Rightarrow> string \<Rightarrow> invitations \<Rightarrow> invitations \<times> invitation_grant option" where
  "inspect_invitation h now token d =
     (let d = invite_cleanup now d
      in case dget d (h token) of None \<Rightarrow> (d, None)
         | Some r \<Rightarrow> if iv_revoked r \<or> iv_remaining r \<le> 0 then (d, None) else (d, Some (invite_grant r)))"

definition resolve_invitation ::
    "(string \<Rightarrow> string) \<Rightarrow> time \<Rightarrow> string \<Rightarrow> invitations \<Rightarrow> invitations \<times> invitation_grant option" where
  "resolve_invitation h now token d =
     (let d = invite_cleanup now d
      in case dget d (h token) of None \<Rightarrow> (d, None)
         | Some r \<Rightarrow>
             if iv_revoked r \<or> iv_remaining r \<le> 0 then (d, None)
             else (let r' = r\<lparr>iv_resolved_at := (case iv_resolved_at r of None \<Rightarrow> Some now | Some t \<Rightarrow> Some t),
                              iv_resolve_count := iv_resolve_count r + 1\<rparr>
                   in (dput (h token) r' d, Some (invite_grant r'))))"

definition sender_status :: "time \<Rightarrow> string \<Rightarrow> invitations \<Rightarrow> invitations \<times> sender_view option" where
  "sender_status now invitation_id d =
     (let d = invite_cleanup now d
      in (d, map_option (\<lambda>r. \<lparr>sv_id = iv_id r, sv_resolved = iv_resolved_at r \<noteq> None,
                sv_resolved_at = iv_resolved_at r, sv_resolve_count = iv_resolve_count r,
                sv_expires = iv_expires r, sv_remaining = iv_remaining r\<rparr>)
             (find (\<lambda>r. \<not> (iv_id r \<noteq> invitation_id \<or> iv_revoked r)) (dvals d))))"

definition consume_invitation ::
    "(string \<Rightarrow> string) \<Rightarrow> time \<Rightarrow> string \<Rightarrow> string \<Rightarrow> invitations \<Rightarrow> invitations \<times> invitation_grant option" where
  "consume_invitation h now token expected_id d =
     (let d = invite_cleanup now d
      in case dget d (h token) of None \<Rightarrow> (d, None)
         | Some r \<Rightarrow>
             if iv_revoked r \<or> iv_remaining r \<le> 0 \<or> iv_id r \<noteq> expected_id then (d, None)
             else (let r' = r\<lparr>iv_remaining := iv_remaining r - 1\<rparr>
                   in (dput (h token) r' d, Some (invite_grant r'))))"

definition revoke_invitation :: "string \<Rightarrow> invitations \<Rightarrow> invitations \<times> bool" where
  "revoke_invitation invitation_id d =
     (update_first (\<lambda>r. iv_id r = invitation_id) (\<lambda>r. r\<lparr>iv_revoked := True\<rparr>) d,
      list_ex (\<lambda>r. iv_id r = invitation_id) (dvals d))"

section \<open>The registry as a capability store\<close>

lemma put_invitation_frame:
  assumes "dict_ok d" and "k' \<noteq> k" and "dget (put_invitation now k r d) k' = Some r'"
  shows "dget d k' = Some r' \<and> invite_live now r' \<and> iv_id r' \<noteq> iv_id r"
proof -
  let ?c = "dkeep (\<lambda>v. iv_id v \<noteq> iv_id r) (invite_cleanup now d)"
  have "dget (evict_least iv_created max_invitations ?c) k' = Some r'"
    using assms(2,3) by (simp add: put_invitation_def dget_put)
  then have "dget ?c k' = Some r'" by (rule evict_least_get)
  then show ?thesis using assms(1)
    by (auto simp: invite_cleanup_def dget_keep split: option.splits if_splits)
qed

interpretation invite: capability_store invite_live invite_cleanup put_invitation max_invitations
proof
  fix d :: invitations and now k r
  assume ok: "dict_ok d"
  show "dget (invite_cleanup now d) k = (case dget d k of None \<Rightarrow> None | Some r \<Rightarrow> if invite_live now r then Some r else None)"
    by (simp add: invite_cleanup_def dget_keep ok)
  show "dict_ok (invite_cleanup now d)" by (simp add: invite_cleanup_def ok)
  show "dget (put_invitation now k r d) k = Some r" by (simp add: put_invitation_def dget_put)
  show "dict_ok (put_invitation now k r d)" by (simp add: put_invitation_def invite_cleanup_def evict_least_ok ok)
  assume "length d \<le> max_invitations"
  then have "length (dkeep (\<lambda>v. iv_id v \<noteq> iv_id r) (invite_cleanup now d)) \<le> max_invitations"
    using length_keep [of "invite_live now" d] length_keep [of "\<lambda>v. iv_id v \<noteq> iv_id r" "invite_cleanup now d"]
    by (simp add: invite_cleanup_def)
  with ok length_evict_least [of "dkeep (\<lambda>v. iv_id v \<noteq> iv_id r) (invite_cleanup now d)" max_invitations iv_created]
  show "length (put_invitation now k r d) \<le> max_invitations"
    by (simp add: put_invitation_def length_put invite_cleanup_def max_invitations_def)
next
  fix d :: invitations and now
  show "length (invite_cleanup now d) \<le> length d" by (simp add: invite_cleanup_def length_keep)
next
  fix d :: invitations and now k k' r r'
  assume "dict_ok d" "k' \<noteq> k" "dget (put_invitation now k r d) k' = Some r'"
  from put_invitation_frame [OF this] show "dget d k' = Some r' \<and> invite_live now r'" by simp
qed

section \<open>Invariant\<close>

text \<open>One record per invitation: the sender's view and the revocation act on the record a receiver
  holds, since no other record has that id.\<close>

definition registry_ok :: "invitations \<Rightarrow> bool" where
  "registry_ok d \<longleftrightarrow> dict_ok d \<and> distinct_vals iv_id d \<and> length d \<le> max_invitations"

lemma distinct_ids_evict: "distinct_vals iv_id d \<Longrightarrow> distinct_vals iv_id (evict_least f n d)"
  by (auto simp: evict_least_def split: option.splits)

lemma registry_ok_cleanup: "registry_ok d \<Longrightarrow> registry_ok (invite_cleanup now d)"
  using invite.purge_bounded [of d now]
  by (auto simp: registry_ok_def invite.purge_ok) (auto simp: invite_cleanup_def)

lemma registry_ok_put_invitation:
  assumes "registry_ok d"
  shows "registry_ok (put_invitation now k r d)"
proof -
  let ?e = "evict_least iv_created max_invitations (dkeep (\<lambda>v. iv_id v \<noteq> iv_id r) (invite_cleanup now d))"
  have d: "distinct_vals iv_id d" using assms by (simp add: registry_ok_def)
  have "all_vals (\<lambda>v. iv_id v \<noteq> iv_id r) ?e" by (rule all_vals_evict_least) simp
  moreover have "distinct_vals iv_id ?e"
    using d by (auto intro!: distinct_ids_evict simp: invite_cleanup_def)
  ultimately have "distinct_vals iv_id (put_invitation now k r d)"
    unfolding put_invitation_def by (intro distinct_vals_put_fresh)
  with assms show ?thesis by (simp add: registry_ok_def invite.insert_ok invite.insert_length)
qed

lemma registry_ok_put_same:
  assumes "registry_ok d" and "dget d k = Some r" and "iv_id r' = iv_id r"
  shows "registry_ok (dput k r' d)"
  using assms dget_key [OF assms(2)]
  by (auto simp: registry_ok_def length_put distinct_vals_put_same)

lemma create_registry_ok:
  "registry_ok d \<Longrightarrow> registry_ok (fst (create_invitation h repr token now envelope ttl accesses d))"
  by (auto simp: create_invitation_def Let_def registry_ok_put_invitation split: json.split)

lemma touch_registry_ok:
  assumes "registry_ok d"
  shows "registry_ok (fst (inspect_invitation h now token d))"
    and "registry_ok (fst (resolve_invitation h now token d))"
    and "registry_ok (fst (consume_invitation h now token eid d))"
    and "registry_ok (fst (sender_status now iid d))"
    and "registry_ok (fst (revoke_invitation iid d))"
proof -
  note c = registry_ok_cleanup [OF assms, of now]
  show "registry_ok (fst (inspect_invitation h now token d))"
    using c by (auto simp: inspect_invitation_def Let_def split: option.split)
  show "registry_ok (fst (resolve_invitation h now token d))"
    using c by (auto simp: resolve_invitation_def Let_def intro: registry_ok_put_same split: option.split)
  show "registry_ok (fst (consume_invitation h now token eid d))"
    using c by (auto simp: consume_invitation_def Let_def intro: registry_ok_put_same split: option.split)
  show "registry_ok (fst (sender_status now iid d))"
    using c by (simp add: sender_status_def Let_def)
  show "registry_ok (fst (revoke_invitation iid d))"
    using assms by (simp add: revoke_invitation_def registry_ok_def distinct_vals_update_first)
qed

lemma create_invitation_Inr:
  assumes "create_invitation h repr token now envelope ttl accesses d = (d', Inr rc)"
  shows "\<exists>r. d' = put_invitation now (h token) r d \<and> ir_id rc = iv_id r \<and>
    ir_expires rc = now + of_int ttl \<and> iv_expires r = now + of_int ttl \<and>
    iv_remaining r = accesses \<and> 1 \<le> accesses \<and> \<not> iv_revoked r"
  using assms
  by (cases envelope) (auto simp: create_invitation_def Let_def split: if_splits intro!: exI)

section \<open>Properties\<close>

text \<open>With one record per invitation id, which every
  operation keeps, revoking an invitation makes its token open nothing at any later time: not for
  inspection, resolution or consumption, and the sender no longer sees it.\<close>

theorem invitation_revocation_effective:
  assumes "registry_ok d" and "dget d (h token) = Some r"
    and "d' = fst (revoke_invitation (iv_id r) d)"
  shows "registry_ok d' \<and> snd (inspect_invitation h now token d') = None \<and>
    snd (resolve_invitation h now token d') = None \<and> snd (consume_invitation h now token eid d') = None \<and>
    snd (sender_status now (iv_id r) d') = None"
proof -
  let ?r = "r\<lparr>iv_revoked := True\<rparr>"
  have ok': "registry_ok d'" using touch_registry_ok(5) [OF assms(1)] by (simp add: assms(3))
  have got: "dget d' (h token) = Some ?r"
    using dget_update_first_hit [OF _ assms(2), of iv_id] assms(1,3)
    by (simp add: revoke_invitation_def registry_ok_def)
  have dead: "dget (invite_cleanup now d') (h token) = None"
    using invite.purge_dead [OF _ got] ok' by (simp add: invite_live_def registry_ok_def)
  have "find (\<lambda>v. \<not> (iv_id v \<noteq> iv_id r \<or> iv_revoked v)) (dvals (invite_cleanup now d')) = None"
  proof (rule ccontr)
    assume "\<not> ?thesis"
    then obtain v where f: "find (\<lambda>v. \<not> (iv_id v \<noteq> iv_id r \<or> iv_revoked v)) (dvals (invite_cleanup now d')) = Some v"
      by blast
    have ok: "dict_ok d'" "distinct_vals iv_id d'" using ok' by (simp_all add: registry_ok_def)
    obtain k where "dget (invite_cleanup now d') k = Some v"
      using find_dvals_get [OF invite.purge_ok f] ok by blast
    then have v: "dget d' k = Some v" using invite.purged_live ok by blast
    from find_Some_in [OF f] have "iv_id v = iv_id ?r" "\<not> iv_revoked v" by auto
    with distinct_vals_eq [OF ok(2) v got] v got show False by auto
  qed
  with dead ok' show ?thesis
    by (simp add: inspect_invitation_def resolve_invitation_def consume_invitation_def sender_status_def Let_def)
qed

definition demo_invitation :: invitation where
  "demo_invitation = \<lparr>iv_id = ''a'', iv_envelope = [], iv_created = 0, iv_expires = 60, iv_remaining = 1,
     iv_resolved_at = None, iv_resolve_count = 0, iv_revoked = False\<rparr>"

theorem invitation_revocation_effective_witness:
  "snd (consume_invitation id 1 ''k'' ''a'' [(''k'', demo_invitation)]) \<noteq> None \<and>
   snd (consume_invitation id 1 ''k'' ''a'' (fst (revoke_invitation ''a'' [(''k'', demo_invitation)]))) = None"
proof
  show "snd (consume_invitation id 1 ''k'' ''a'' [(''k'', demo_invitation)]) \<noteq> None"
    by (simp add: consume_invitation_def invite_cleanup_def dkeep_def invite_live_def demo_invitation_def Let_def)
  have "registry_ok [(''k'', demo_invitation)]"
    by (simp add: registry_ok_def dict_ok_def max_invitations_def)
  from invitation_revocation_effective [OF this, of id "''k''" demo_invitation, OF _ refl, of 1 "''a''"]
  show "snd (consume_invitation id 1 ''k'' ''a'' (fst (revoke_invitation ''a'' [(''k'', demo_invitation)]))) = None"
    by (simp add: demo_invitation_def)
qed

text \<open>After a successful creation the token opens the new
  record until it expires, and no other token opens a record of the same invitation id.\<close>

theorem invitation_create_replaces:
  assumes "registry_ok d" and "create_invitation h repr token now envelope ttl accesses d = (d', Inr rc)"
  shows "registry_ok d' \<and> ir_expires rc = now + of_int ttl \<and>
    (now \<le> later \<and> later < ir_expires rc \<longrightarrow>
       (\<exists>g. snd (inspect_invitation h later token d') = Some g \<and> ig_id g = ir_id rc \<and> ig_remaining g = accesses)) \<and>
    (\<forall>other g. h other \<noteq> h token \<longrightarrow> snd (inspect_invitation h later other d') = Some g \<longrightarrow> ig_id g \<noteq> ir_id rc)"
proof -
  from create_invitation_Inr [OF assms(2)]
  obtain r where d': "d' = put_invitation now (h token) r d" "ir_id rc = iv_id r"
    "ir_expires rc = now + of_int ttl" "iv_expires r = now + of_int ttl" "iv_remaining r = accesses"
    "1 \<le> accesses" "\<not> iv_revoked r"
    by blast
  have ok: "dict_ok d" "dict_ok d'" and ok': "registry_ok d'"
    using assms(1) registry_ok_put_invitation [OF assms(1)] by (auto simp: d' registry_ok_def)
  have "\<exists>g. snd (inspect_invitation h later token d') = Some g \<and> ig_id g = ir_id rc \<and> ig_remaining g = accesses"
    if "later < ir_expires rc"
  proof -
    have "invite_live later r" using that d' by (simp add: invite_live_def)
    with invite.issued_usable [OF ok(1)] have "dget (invite_cleanup later d') (h token) = Some r"
      by (simp add: d'(1))
    with d' show ?thesis by (simp add: inspect_invitation_def Let_def invite_grant_def)
  qed
  moreover have "ig_id g \<noteq> ir_id rc"
    if "h other \<noteq> h token" "snd (inspect_invitation h later other d') = Some g" for other g
  proof -
    from that(2) obtain r' where "dget (invite_cleanup later d') (h other) = Some r'" "g = invite_grant r'"
      by (auto simp: inspect_invitation_def Let_def split: option.splits if_splits)
    moreover from this invite.purged_live [OF ok(2)] have "dget d' (h other) = Some r'" by blast
    ultimately show ?thesis
      using put_invitation_frame [OF ok(1) that(1)] by (auto simp: d'(1,2) invite_grant_def)
  qed
  ultimately show ?thesis using ok' d'(3) by blast
qed

definition demo_envelope :: json where
  "demo_envelope = JObj [(''invite_id'', JStr (replicate 32 (CHR ''a''))), (''protocol'', JStr ''NSP2P-INVITE''), (''version'', JInt 1)]"

theorem invitation_create_replaces_witness:
  "\<exists>d' rc. create_invitation id (\<lambda>_. []) ''k'' 0 demo_envelope 60 2 [] = (d', Inr rc) \<and>
     (\<exists>g. snd (inspect_invitation id 30 ''k'' d') = Some g \<and> ig_id g = ir_id rc \<and> ig_remaining g = 2)"
proof -
  let ?c = "create_invitation id (\<lambda>_. []) ''k'' 0 demo_envelope 60 2 []"
  have "is_ok (snd ?c)" by code_simp
  then have "\<exists>rc. snd ?c = Inr rc" by (cases "snd ?c") auto
  then obtain d' rc where c: "?c = (d', Inr rc)" by (cases ?c) auto
  from invitation_create_replaces [OF _ c, of 30] show ?thesis
    using c by (auto simp: registry_ok_def)
qed

end
