(* ===== verification/Web_Grants.thy ===== *)
theory Web_Grants
  imports Capability_Store
begin

text \<open>
  The bearer capabilities of the browser: one-time download tickets that turn into short Range
  grants (\<^verbatim>\<open>core/web_download_tickets.py\<close>) and session-bound media URLs
  (\<^verbatim>\<open>core/web_media_grants.py\<close>). The hash of a token is the parameter \<open>h\<close>; whether a session
  is active is the callback \<open>active\<close>. Both tables implement the interface of \<open>Capability_Store\<close>.
\<close>

section \<open>Download tickets\<close>

definition ticket_ttl :: time where "ticket_ttl = 30"
definition grant_ttl :: time where "grant_ttl = 300"
definition grant_max_requests :: int where "grant_max_requests = 8"
definition max_tickets :: nat where "max_tickets = 1000"
definition max_active_streams :: int where "max_active_streams = 3"

record download_grant =
  dg_token_hash :: string
  dg_session :: string
  dg_generation :: int
  dg_path :: string
  dg_etag :: string
  dg_size :: int
  dg_ticket_expires :: time
  dg_grant_expires :: "time option"
  dg_requests :: int

datatype download_authorization = Dl_Valid download_grant | Dl_Invalid | Dl_Expired | Dl_Exhausted

record download_store =
  dl_tickets :: "(string, download_grant) dict"
  dl_active :: "(string, int) dict"

definition dl_empty :: download_store where
  "dl_empty = \<lparr>dl_tickets = [], dl_active = []\<rparr>"

text \<open>\<open>grant_expires_at or ticket_expires_at\<close>: a reading of \<open>0.0\<close> is falsy, like \<open>None\<close>.\<close>

definition dg_expiry :: "download_grant \<Rightarrow> time" where
  "dg_expiry g = (case dg_grant_expires g of
     None \<Rightarrow> dg_ticket_expires g | Some t \<Rightarrow> if t = 0 then dg_ticket_expires g else t)"

definition dl_live :: "time \<Rightarrow> download_grant \<Rightarrow> bool" where
  "dl_live now g \<longleftrightarrow> \<not> dg_expiry g < now"

definition dl_cleanup :: "time \<Rightarrow> (string, download_grant) dict \<Rightarrow> (string, download_grant) dict" where
  "dl_cleanup now = dkeep (dl_live now)"

definition dl_put :: "time \<Rightarrow> string \<Rightarrow> download_grant \<Rightarrow> (string, download_grant) dict \<Rightarrow> (string, download_grant) dict" where
  "dl_put now k g d = dput k g (evict_least dg_expiry max_tickets (dl_cleanup now d))"

definition dl_issue ::
    "(string \<Rightarrow> string) \<Rightarrow> time \<Rightarrow> string \<Rightarrow> string \<Rightarrow> int \<Rightarrow> string \<Rightarrow> string \<Rightarrow> int \<Rightarrow>
     download_store \<Rightarrow> download_store \<times> string \<times> download_grant" where
  "dl_issue h now token session generation path etag sz st =
     (let g = \<lparr>dg_token_hash = h token, dg_session = session, dg_generation = generation, dg_path = path,
                dg_etag = etag, dg_size = sz, dg_ticket_expires = now + ticket_ttl,
                dg_grant_expires = None, dg_requests = 0\<rparr>
      in (st\<lparr>dl_tickets := dl_put now (dg_token_hash g) g (dl_tickets st)\<rparr>, token, g))"

definition dl_authorize ::
    "(string \<Rightarrow> string) \<Rightarrow> time \<Rightarrow> string \<Rightarrow> int \<Rightarrow> (string \<Rightarrow> bool) \<Rightarrow>
     download_store \<Rightarrow> download_store \<times> download_authorization" where
  "dl_authorize h now token generation active st =
     (let d = dl_tickets st
      in case dget d (h token) of None \<Rightarrow> (st, Dl_Invalid)
         | Some g \<Rightarrow>
             if dg_expiry g < now then (st\<lparr>dl_tickets := dpop (dg_token_hash g) d\<rparr>, Dl_Expired)
             else if dg_generation g \<noteq> generation \<or> \<not> active (dg_session g)
             then (st\<lparr>dl_tickets := dpop (dg_token_hash g) d\<rparr>, Dl_Invalid)
             else (let g' = (if dg_grant_expires g = None then g\<lparr>dg_grant_expires := Some (now + grant_ttl)\<rparr> else g)
                   in if grant_max_requests \<le> dg_requests g'
                      then (st\<lparr>dl_tickets := dput (h token) g' d\<rparr>, Dl_Exhausted)
                      else (let g'' = g'\<lparr>dg_requests := dg_requests g' + 1\<rparr>
                            in (st\<lparr>dl_tickets := dput (h token) g'' d\<rparr>, Dl_Valid g''))))"

definition active_of :: "string \<Rightarrow> download_store \<Rightarrow> int" where
  "active_of s st = (case dget (dl_active st) s of None \<Rightarrow> 0 | Some n \<Rightarrow> n)"

definition dl_acquire_stream :: "string \<Rightarrow> download_store \<Rightarrow> download_store \<times> bool" where
  "dl_acquire_stream session st =
     (let active = active_of session st
      in if max_active_streams \<le> active then (st, False)
         else (st\<lparr>dl_active := dput session (active + 1) (dl_active st)\<rparr>, True))"

definition dl_release_stream :: "string \<Rightarrow> download_store \<Rightarrow> download_store" where
  "dl_release_stream session st =
     (let active = active_of session st
      in if active \<le> 1 then st\<lparr>dl_active := dpop session (dl_active st)\<rparr>
         else st\<lparr>dl_active := dput session (active - 1) (dl_active st)\<rparr>)"

definition dl_revoke_session :: "string \<Rightarrow> download_store \<Rightarrow> download_store \<times> nat" where
  "dl_revoke_session session st =
     (st\<lparr>dl_tickets := dkeep (\<lambda>g. dg_session g \<noteq> session) (dl_tickets st)\<rparr>,
      length (filter (\<lambda>kv. dg_session (snd kv) = session) (dl_tickets st)))"

definition dl_active_stream_count :: "download_store \<Rightarrow> int" where
  "dl_active_stream_count st = sum_list (dvals (dl_active st))"

definition dl_clear :: "download_store \<Rightarrow> download_store \<times> (py_error + nat \<times> int)" where
  "dl_clear st =
     (let tickets = length (dl_tickets st); active = dl_active_stream_count st
      in if active \<noteq> 0 then (st, Inl (Runtime_Error ''web download stream is active''))
         else (dl_empty, Inr (tickets, active)))"

section \<open>Media grants\<close>

definition media_grant_ttl :: time where "media_grant_ttl = 900"
definition media_grant_max_requests :: int where "media_grant_max_requests = 128"
definition max_media_grants :: nat where "max_media_grants = 1000"

record media_grant =
  mg_token_hash :: string
  mg_session :: string
  mg_generation :: int
  mg_path :: string
  mg_origin :: string
  mg_etag :: string
  mg_size :: int
  mg_expires :: time
  mg_requests :: int

type_synonym media_grants = "(string, media_grant) dict"

definition mg_live :: "time \<Rightarrow> media_grant \<Rightarrow> bool" where
  "mg_live now g \<longleftrightarrow> \<not> mg_expires g < now"

definition mg_cleanup :: "time \<Rightarrow> media_grants \<Rightarrow> media_grants" where
  "mg_cleanup now = dkeep (mg_live now)"

definition mg_put :: "time \<Rightarrow> string \<Rightarrow> media_grant \<Rightarrow> media_grants \<Rightarrow> media_grants" where
  "mg_put now k g d = dput k g (evict_least mg_expires max_media_grants (mg_cleanup now d))"

definition mg_issue ::
    "(string \<Rightarrow> string) \<Rightarrow> time \<Rightarrow> string \<Rightarrow> string \<Rightarrow> int \<Rightarrow> string \<Rightarrow> string \<Rightarrow> string \<Rightarrow> int \<Rightarrow>
     media_grants \<Rightarrow> media_grants \<times> string \<times> media_grant" where
  "mg_issue h now token session generation path origin etag sz d =
     (let g = \<lparr>mg_token_hash = h token, mg_session = session, mg_generation = generation, mg_path = path,
                mg_origin = origin, mg_etag = etag, mg_size = sz,
                mg_expires = now + media_grant_ttl, mg_requests = 0\<rparr>
      in (mg_put now (mg_token_hash g) g d, token, g))"

definition mg_authorize ::
    "(string \<Rightarrow> string) \<Rightarrow> time \<Rightarrow> string \<Rightarrow> int \<Rightarrow> string \<Rightarrow> (string \<Rightarrow> bool) \<Rightarrow>
     media_grants \<Rightarrow> media_grants \<times> media_grant option" where
  "mg_authorize h now token generation origin active d =
     (case dget d (h token) of None \<Rightarrow> (d, None)
      | Some g \<Rightarrow>
          if mg_expires g < now \<or> mg_generation g \<noteq> generation \<or> mg_origin g \<noteq> origin
             \<or> \<not> active (mg_session g) \<or> media_grant_max_requests \<le> mg_requests g
          then (dpop (mg_token_hash g) d, None)
          else (let g' = g\<lparr>mg_requests := mg_requests g + 1\<rparr> in (dput (h token) g' d, Some g')))"

definition mg_clear :: "media_grants \<Rightarrow> media_grants \<times> nat" where
  "mg_clear d = ([], length d)"

section \<open>Both tables are capability stores\<close>

lemma dl_put_bounded: "dl_put = (\<lambda>now. bounded_put (dl_live now) dg_expiry max_tickets)"
  by (intro ext) (simp add: dl_put_def bounded_put_def dl_cleanup_def)

lemma mg_put_bounded: "mg_put = (\<lambda>now. bounded_put (mg_live now) mg_expires max_media_grants)"
  by (intro ext) (simp add: mg_put_def bounded_put_def mg_cleanup_def)

lemma dl_cleanup_keep: "dl_cleanup = (\<lambda>now. dkeep (dl_live now))"
  by (rule ext) (simp add: dl_cleanup_def)

lemma mg_cleanup_keep: "mg_cleanup = (\<lambda>now. dkeep (mg_live now))"
  by (rule ext) (simp add: mg_cleanup_def)

interpretation download: capability_store dl_live dl_cleanup dl_put max_tickets
  unfolding dl_put_bounded dl_cleanup_keep
  by (rule capability_store_bounded_put) (simp add: max_tickets_def)

interpretation media: capability_store mg_live mg_cleanup mg_put max_media_grants
  unfolding mg_put_bounded mg_cleanup_keep
  by (rule capability_store_bounded_put) (simp add: max_media_grants_def)

section \<open>Runs of the download store\<close>

datatype dl_op =
    Dl_Issue time string string int string string int
  | Dl_Authorize time string int "string \<Rightarrow> bool"
  | Dl_Acquire string
  | Dl_Release string
  | Dl_Revoke string
  | Dl_Clear

fun dl_apply :: "(string \<Rightarrow> string) \<Rightarrow> dl_op \<Rightarrow> download_store \<Rightarrow> download_store" where
  "dl_apply h (Dl_Issue now token s gen path etag sz) st = fst (dl_issue h now token s gen path etag sz st)"
| "dl_apply h (Dl_Authorize now token gen active) st = fst (dl_authorize h now token gen active st)"
| "dl_apply h (Dl_Acquire s) st = fst (dl_acquire_stream s st)"
| "dl_apply h (Dl_Release s) st = dl_release_stream s st"
| "dl_apply h (Dl_Revoke s) st = fst (dl_revoke_session s st)"
| "dl_apply h Dl_Clear st = fst (dl_clear st)"

text \<open>The requests a run grants to the tickets with hash \<open>k\<close>, with their times.\<close>

fun dl_granted :: "(string \<Rightarrow> string) \<Rightarrow> string \<Rightarrow> dl_op \<Rightarrow> download_store \<Rightarrow> (time \<times> download_grant) list" where
  "dl_granted h k (Dl_Authorize now token gen active) st =
     (if h token = k
      then (case snd (dl_authorize h now token gen active st) of Dl_Valid g \<Rightarrow> [(now, g)] | _ \<Rightarrow> [])
      else [])"
| "dl_granted h k _ st = []"

fun dl_served :: "(string \<Rightarrow> string) \<Rightarrow> string \<Rightarrow> dl_op list \<Rightarrow> download_store \<Rightarrow> (time \<times> download_grant) list" where
  "dl_served h k [] st = []"
| "dl_served h k (op # ops) st = dl_granted h k op st @ dl_served h k ops (dl_apply h op st)"

fun reissues :: "(string \<Rightarrow> string) \<Rightarrow> string \<Rightarrow> dl_op \<Rightarrow> bool" where
  "reissues h k (Dl_Issue now token s gen path etag sz) \<longleftrightarrow> h token = k"
| "reissues h k _ \<longleftrightarrow> False"

text \<open>What the record under a hash may still do: nothing when there is none, otherwise it stays the
  record that was issued, its window inside \<open>b\<close> and its requests counted.\<close>

definition ticket_within :: "time \<Rightarrow> string \<Rightarrow> string \<Rightarrow> download_grant \<Rightarrow> bool" where
  "ticket_within b s p g \<longleftrightarrow> dg_session g = s \<and> dg_path g = p \<and> dg_expiry g \<le> b \<and>
     dg_ticket_expires g + grant_ttl \<le> b \<and> 0 \<le> dg_requests g \<and> dg_requests g \<le> grant_max_requests"

definition left_of :: "string \<Rightarrow> download_store \<Rightarrow> nat" where
  "left_of k st = (case dget (dl_tickets st) k of
     None \<Rightarrow> 0 | Some g \<Rightarrow> nat (grant_max_requests - dg_requests g))"

definition in_budget :: "string \<Rightarrow> time \<Rightarrow> string \<Rightarrow> string \<Rightarrow> download_store \<Rightarrow> bool" where
  "in_budget k b s p st \<longleftrightarrow> dict_ok (dl_tickets st) \<and>
     (case dget (dl_tickets st) k of None \<Rightarrow> True | Some g \<Rightarrow> ticket_within b s p g)"

lemma dict_ok_apply: "dict_ok (dl_tickets st) \<Longrightarrow> dict_ok (dl_tickets (dl_apply h op st))"
  by (cases op)
    (auto simp: dl_issue_def dl_authorize_def dl_acquire_stream_def dl_release_stream_def dl_revoke_session_def
      dl_clear_def dl_empty_def download.insert_ok Let_def split: option.split)

lemma touch_within:
  assumes "ticket_within b s p g" and "\<not> dg_expiry g < now"
  shows "ticket_within b s p (if dg_grant_expires g = None then g\<lparr>dg_grant_expires := Some (now + grant_ttl)\<rparr> else g)"
  using assms by (auto simp: ticket_within_def dg_expiry_def grant_ttl_def)

text \<open>One step grants at most one request, and pays for it out of the budget.\<close>

lemma dl_step_budget:
  assumes w: "in_budget k b s p st" and "\<not> reissues h k op"
  shows "in_budget k b s p (dl_apply h op st) \<and>
    length (dl_granted h k op st) + left_of k (dl_apply h op st) \<le> left_of k st \<and>
    (\<forall>(t, g) \<in> set (dl_granted h k op st). t \<le> b \<and> dg_session g = s \<and> dg_path g = p)"
proof -
  have ok: "dict_ok (dl_tickets st)" using w by (simp add: in_budget_def)
  note ok' = dict_ok_apply [OF ok, of h op]
  show ?thesis
  proof (cases op)
    case (Dl_Authorize now token gen active)
    show ?thesis
    proof (cases "h token = k")
      case False
      then have "dget (dl_tickets (dl_apply h op st)) k \<in> {dget (dl_tickets st) k, None}"
        by (auto simp: Dl_Authorize dl_authorize_def Let_def dget_put dget_pop split: option.splits)
      with False ok' w show ?thesis
        by (auto simp: Dl_Authorize in_budget_def left_of_def split: option.splits)
    next
      case True
      show ?thesis
      proof (cases "dget (dl_tickets st) k")
        case None
        with True w show ?thesis by (simp add: Dl_Authorize dl_authorize_def)
      next
        case (Some g)
        then have g: "ticket_within b s p g" using w by (simp add: in_budget_def)
        have "ticket_within b s p g \<Longrightarrow> now \<le> dg_expiry g \<Longrightarrow> now \<le> b"
          by (simp add: ticket_within_def)
        with True Some g ok ok' touch_within [OF g, of now] show ?thesis
          by (auto simp: Dl_Authorize dl_authorize_def Let_def in_budget_def left_of_def dget_put dget_pop
              ticket_within_def dg_expiry_def split: option.splits if_splits)
      qed
    qed
  next
    case (Dl_Issue now token s' gen path etag sz)
    with assms(2) have "k \<noteq> h token" by auto
    then have "dget (dl_tickets (dl_apply h op st)) k \<in> {dget (dl_tickets st) k, None}"
      using download.insert_frame [OF ok] by (cases "dget (dl_tickets (dl_apply h op st)) k") (auto simp: Dl_Issue dl_issue_def Let_def)
    with ok' w show ?thesis by (auto simp: Dl_Issue in_budget_def left_of_def split: option.splits)
  next
    case (Dl_Revoke s')
    with ok ok' w show ?thesis
      by (auto simp: dl_revoke_session_def in_budget_def left_of_def dget_keep split: option.splits)
  next
    case Dl_Clear
    with ok' w show ?thesis
      by (auto simp: dl_clear_def dl_empty_def in_budget_def left_of_def Let_def split: option.splits)
  qed (use ok' w in \<open>simp_all add: dl_acquire_stream_def dl_release_stream_def in_budget_def left_of_def Let_def\<close>)
qed

lemma dl_run_budget:
  assumes "in_budget k b s p st" and "list_all (\<lambda>op. \<not> reissues h k op) ops"
  shows "length (dl_served h k ops st) \<le> left_of k st \<and>
    (\<forall>(t, g) \<in> set (dl_served h k ops st). t \<le> b \<and> dg_session g = s \<and> dg_path g = p)"
  using assms
proof (induction ops arbitrary: st)
  case Nil
  then show ?case by simp
next
  case (Cons op ops)
  then have n: "\<not> reissues h k op" by simp
  note step = dl_step_budget [OF Cons.prems(1) n]
  with Cons.IH [of "dl_apply h op st"] Cons.prems(2) show ?case by auto
qed

section \<open>Streams\<close>

text \<open>Active stream counts stay between one and the limit, whatever the run.\<close>

definition streams_ok :: "download_store \<Rightarrow> bool" where
  "streams_ok st \<longleftrightarrow> dict_ok (dl_active st) \<and> all_vals (\<lambda>n. 1 \<le> n \<and> n \<le> max_active_streams) (dl_active st)"

definition tickets_ok :: "download_store \<Rightarrow> bool" where
  "tickets_ok st \<longleftrightarrow> dict_ok (dl_tickets st) \<and> length (dl_tickets st) \<le> max_tickets"

lemma active_of_bounds: "streams_ok st \<Longrightarrow> 0 \<le> active_of s st \<and> active_of s st \<le> max_active_streams"
  by (auto simp: streams_ok_def active_of_def max_active_streams_def dest: all_vals_get split: option.split)

lemma streams_ok_acquire: "streams_ok st \<Longrightarrow> streams_ok (fst (dl_acquire_stream s st))"
  using active_of_bounds [of st s]
  by (auto simp: dl_acquire_stream_def Let_def) (auto simp: streams_ok_def intro!: all_vals_put)

lemma streams_ok_release: "streams_ok st \<Longrightarrow> streams_ok (dl_release_stream s st)"
  using active_of_bounds [of st s]
  by (auto simp: dl_release_stream_def Let_def) (auto simp: streams_ok_def intro!: all_vals_put)

lemma streams_ok_apply: "streams_ok st \<Longrightarrow> streams_ok (dl_apply h op st)"
  by (cases op)
    (auto simp: streams_ok_acquire streams_ok_release, auto simp: streams_ok_def dl_issue_def dl_authorize_def
      dl_revoke_session_def dl_clear_def dl_empty_def Let_def split: option.split)

lemma tickets_ok_apply:
  assumes "tickets_ok st"
  shows "tickets_ok (dl_apply h op st)"
proof (cases op)
  case (Dl_Authorize now token gen active)
  have "length (dpop k (dl_tickets st)) \<le> max_tickets" for k
    using assms length_pop_le [of k "dl_tickets st"] by (simp add: tickets_ok_def)
  with assms show ?thesis
    by (auto simp: Dl_Authorize tickets_ok_def dl_authorize_def Let_def length_put dest!: dget_key split: option.split)
next
  case (Dl_Revoke s)
  with assms length_keep [of "\<lambda>g. dg_session g \<noteq> s" "dl_tickets st"] show ?thesis
    by (simp add: tickets_ok_def dl_revoke_session_def)
qed (use assms in \<open>auto simp: tickets_ok_def dl_issue_def dl_acquire_stream_def dl_release_stream_def dl_clear_def
      dl_empty_def Let_def download.insert_ok download.insert_length\<close>)

section \<open>Properties\<close>

text \<open>C7 (what a download ticket buys). Between the issue of a ticket and a reissue of the same hash, no
  run of the store (other tickets, streams, revocations, generation changes, in any order) serves the ticket
  more than eight times or after 330 seconds, and every answer is for the session and the file of the issue.\<close>

theorem download_ticket_budget:
  assumes "dict_ok (dl_tickets st)"
    and "st' = fst (dl_issue h now token session generation path etag sz st)"
    and "list_all (\<lambda>op. \<not> reissues h (h token) op) ops"
  shows "length (dl_served h (h token) ops st') \<le> 8 \<and>
    (\<forall>(t, g) \<in> set (dl_served h (h token) ops st'). t \<le> now + 330 \<and> dg_session g = session \<and> dg_path g = path)"
proof -
  have "in_budget (h token) (now + 330) session path st'"
    by (simp add: assms(1,2) dl_issue_def Let_def in_budget_def ticket_within_def download.insert_ok
        download.insert_get dg_expiry_def ticket_ttl_def grant_ttl_def grant_max_requests_def)
  from dl_run_budget [OF this assms(3)]
  have "length (dl_served h (h token) ops st') \<le> left_of (h token) st'"
    "\<forall>(t, g) \<in> set (dl_served h (h token) ops st'). t \<le> now + 330 \<and> dg_session g = session \<and> dg_path g = path"
    by blast+
  moreover have "left_of (h token) st' = 8"
    by (simp add: assms(1,2) dl_issue_def Let_def left_of_def download.insert_get grant_max_requests_def)
  ultimately show ?thesis by simp
qed

theorem download_ticket_budget_witness:
  "length (dl_served id ''t'' (replicate 9 (Dl_Authorize 10 ''t'' 1 (\<lambda>_. True)))
     (fst (dl_issue id 5 ''t'' ''s'' 1 ''/pub/a'' ''e'' 7 dl_empty))) = 8"
proof -
  let ?ops = "replicate 9 (Dl_Authorize 10 ''t'' 1 (\<lambda>_. True))"
  let ?st = "fst (dl_issue id 5 ''t'' ''s'' 1 ''/pub/a'' ''e'' 7 dl_empty)"
  have "dict_ok (dl_tickets dl_empty)" and "list_all (\<lambda>op. \<not> reissues id (id ''t'') op) ?ops"
    by (simp_all add: dl_empty_def numeral_nat)
  from download_ticket_budget [OF this(1) refl this(2)]
  have "length (dl_served id ''t'' ?ops ?st) \<le> 8" by simp
  moreover have "8 \<le> length (dl_served id ''t'' ?ops ?st)"
    by (simp add: dl_issue_def Let_def dl_empty_def dl_put_def dl_cleanup_def dkeep_def evict_least_def max_tickets_def
        numeral_nat dl_authorize_def dg_expiry_def ticket_ttl_def grant_ttl_def grant_max_requests_def)
  ultimately show ?thesis by simp
qed

text \<open>In every state a run from the empty store reaches the ticket table holds
  at most 1000 records and every session between one and three active streams; acquiring succeeds exactly
  below three, and a stream acquired and released leaves the session's count as it was.\<close>

theorem download_store_invariant:
  assumes "st = fold (dl_apply h) ops dl_empty"
  shows "tickets_ok st \<and> streams_ok st \<and>
    (snd (dl_acquire_stream s st) \<longleftrightarrow> active_of s st < 3) \<and>
    (active_of s st < 3 \<longrightarrow> active_of s (dl_release_stream s (fst (dl_acquire_stream s st))) = active_of s st)"
proof -
  have "tickets_ok (fold (dl_apply h) ops st0) \<and> streams_ok (fold (dl_apply h) ops st0)"
    if "tickets_ok st0 \<and> streams_ok st0" for st0
    using that by (induction ops arbitrary: st0) (auto simp: tickets_ok_apply streams_ok_apply)
  then have ok: "tickets_ok st" "streams_ok st"
    by (simp_all add: assms tickets_ok_def streams_ok_def dl_empty_def)
  from active_of_bounds [OF ok(2), of s] have "active_of s st = 0 \<or> active_of s st = 1 \<or> active_of s st = 2 \<or> active_of s st = 3"
    by (auto simp: max_active_streams_def)
  then have "active_of s st < 3 \<longrightarrow> active_of s (dl_release_stream s (fst (dl_acquire_stream s st))) = active_of s st"
    by (auto simp: dl_acquire_stream_def dl_release_stream_def active_of_def max_active_streams_def Let_def
        dget_put dget_pop split: option.splits)
  with ok show ?thesis by (auto simp: dl_acquire_stream_def max_active_streams_def Let_def)
qed

theorem download_store_invariant_witness:
  "streams_ok (fold (dl_apply id) (replicate 4 (Dl_Acquire ''s'')) dl_empty) \<and>
   snd (dl_acquire_stream ''s'' (fold (dl_apply id) (replicate 4 (Dl_Acquire ''s'')) dl_empty)) = False"
  using download_store_invariant [OF refl, of id "replicate 4 (Dl_Acquire ''s'')" "''s''"]
  by (simp add: numeral_nat dl_acquire_stream_def Let_def active_of_def dl_empty_def max_active_streams_def)

text \<open>A media URL opens its record exactly when it is
  unexpired, of the current generation, asked for by the origin it was issued to, its session active, with one
  of its 128 requests left; a refused URL is dropped for good, and other URLs are not touched.\<close>

theorem media_authorize_exact:
  assumes "dict_ok d" and "dget d (h token) = Some g" and "mg_token_hash g = h token"
    and "mg_authorize h now token generation origin active d = (d', res)"
  shows "(res \<noteq> None \<longleftrightarrow> now \<le> mg_expires g \<and> mg_generation g = generation \<and> mg_origin g = origin \<and>
             active (mg_session g) \<and> mg_requests g < 128) \<and>
    dget d' (h token) = res \<and>
    (\<forall>g'. res = Some g' \<longrightarrow> g' = g\<lparr>mg_requests := mg_requests g + 1\<rparr>) \<and>
    (res = None \<longrightarrow> snd (mg_authorize h later token generation' origin' active' d') = None) \<and>
    (\<forall>k. k \<noteq> h token \<longrightarrow> dget d' k = dget d k)"
  using assms
  by (auto simp: mg_authorize_def Let_def media_grant_max_requests_def dget_put dget_pop split: if_splits)

theorem media_authorize_exact_witness:
  "snd (mg_authorize id 10 ''t'' 1 ''https://b'' (\<lambda>_. True)
     (fst (mg_issue id 5 ''t'' ''s'' 1 ''/a'' ''https://a'' ''e'' 7 []))) = None \<and>
   snd (mg_authorize id 10 ''t'' 1 ''https://a'' (\<lambda>_. True)
     (fst (mg_issue id 5 ''t'' ''s'' 1 ''/a'' ''https://a'' ''e'' 7 []))) \<noteq> None"
proof -
  let ?g = "\<lparr>mg_token_hash = ''t'', mg_session = ''s'', mg_generation = 1, mg_path = ''/a'', mg_origin = ''https://a'',
    mg_etag = ''e'', mg_size = 7, mg_expires = 905, mg_requests = 0\<rparr>"
  have d: "fst (mg_issue id 5 ''t'' ''s'' 1 ''/a'' ''https://a'' ''e'' 7 []) = [(''t'', ?g)]"
    by (simp add: mg_issue_def Let_def mg_put_def mg_cleanup_def dkeep_def evict_least_def max_media_grants_def
        media_grant_ttl_def)
  have "dict_ok [(''t'', ?g)]" by (simp add: dict_ok_def)
  note exact = media_authorize_exact [OF this, of id "''t''" ?g, OF _ _ surjective_pairing]
  show ?thesis
    using exact [of 10 1 "''https://b''" "\<lambda>_. True"] exact [of 10 1 "''https://a''" "\<lambda>_. True"] unfolding d by simp
qed

end
