(* ===== verification/Room_Members.thy ===== *)
theory Room_Members
  imports Py_Json
begin

text \<open>
  What the collaborative queues and the synchronized playback rooms share: a table of rooms under
  their ids, each with a join code and a dictionary of members, into which a device enters by the
  code and is handed a room ticket whose hash its member record keeps. The locale states how an
  implementation writes a member into a room; its lemmas say what a room ticket opens.
\<close>

text \<open>\<open>verify_member_ticket\<close> of both modules; \<open>expected\<close> is the stored hash, \<open>""\<close> when there is none.\<close>

definition verify_room_ticket ::
    "('room \<Rightarrow> (string, 'm) dict) \<Rightarrow> ('m \<Rightarrow> string) \<Rightarrow> (string \<Rightarrow> string) \<Rightarrow> (string, 'room) dict \<Rightarrow>
     string \<Rightarrow> string \<Rightarrow> string \<Rightarrow> bool" where
  "verify_room_ticket members expected h rooms room_id device ticket \<longleftrightarrow>
     ticket \<noteq> [] \<and>
     (case dget rooms room_id of None \<Rightarrow> False
      | Some r \<Rightarrow> (case dget (members r) device of None \<Rightarrow> False
          | Some m \<Rightarrow> expected m \<noteq> [] \<and> expected m = h ticket))"

locale ticketed_rooms =
  fixes rid :: "'room \<Rightarrow> string"
    and join_code :: "'room \<Rightarrow> string"
    and members :: "'room \<Rightarrow> (string, 'm) dict"
    and expected :: "'m \<Rightarrow> string"
    and admit :: "time \<Rightarrow> string \<Rightarrow> 'm \<Rightarrow> 'room \<Rightarrow> 'room"
  assumes admit_members: "members (admit now dev m r) = dput dev m (members r)"
    and admit_rid: "rid (admit now dev m r) = rid r"
    and admit_code: "join_code (admit now dev m r) = join_code r"
begin

text \<open>Every room stands under its own id.\<close>

definition keyed :: "(string, 'room) dict \<Rightarrow> bool" where
  "keyed rooms \<longleftrightarrow> dict_ok rooms \<and> (\<forall>k r. dget rooms k = Some r \<longrightarrow> rid r = k)"

lemma keyed_put: "keyed rooms \<Longrightarrow> keyed (dput (rid r) r rooms)"
  by (auto simp: keyed_def dget_put split: if_splits)

lemma keyed_put_at: "keyed rooms \<Longrightarrow> rid r = k \<Longrightarrow> keyed (dput k r rooms)"
  using keyed_put [of rooms r] by simp

lemma keyed_keep: "keyed rooms \<Longrightarrow> keyed (dkeep P rooms)"
  by (auto simp: keyed_def dget_keep split: option.splits if_splits)

lemma keyed_pop: "keyed rooms \<Longrightarrow> keyed (dpop k rooms)"
  by (auto simp: keyed_def dget_pop split: if_splits)

lemma keyed_admit: "keyed rooms \<Longrightarrow> keyed (update_first P (admit now dev m) rooms)"
  unfolding keyed_def using update_first_get [of P "admit now dev m" rooms]
  by (metis admit_rid dict_ok_update_first)

text \<open>The room found by its code is the room under its id, and admission changes that room only.\<close>

lemma found_room:
  assumes "keyed rooms" and "find (\<lambda>r. join_code r = c) (dvals rooms) = Some r"
  shows "dget rooms (rid r) = Some r"
    and "dget (update_first (\<lambda>r. join_code r = c) (admit now dev m) rooms) k =
      (if k = rid r then Some (admit now dev m r) else dget rooms k)"
proof -
  have ok: "dict_ok rooms" using assms(1) by (simp add: keyed_def)
  from find_update_first [OF ok assms(2), of "admit now dev m"] obtain k0 where
    k0: "dget rooms k0 = Some r"
      "\<forall>k'. dget (update_first (\<lambda>r. join_code r = c) (admit now dev m) rooms) k' =
        (if k' = k0 then Some (admit now dev m r) else dget rooms k')" by blast
  moreover have "rid r = k0" using assms(1) k0(1) by (simp add: keyed_def)
  ultimately show "dget rooms (rid r) = Some r"
    and "dget (update_first (\<lambda>r. join_code r = c) (admit now dev m) rooms) k =
      (if k = rid r then Some (admit now dev m r) else dget rooms k)" by auto
qed

text \<open>The ticket handed out opens the room for the device it was handed to and for nothing else:
  every other pair of room and device keeps the tickets it had.\<close>

lemma admitted_ticket:
  assumes "keyed rooms" and "find (\<lambda>r. join_code r = c) (dvals rooms) = Some r"
    and "expected m = h ticket" and "h ticket \<noteq> []"
  shows "verify_room_ticket members expected h (update_first (\<lambda>r. join_code r = c) (admit now dev m) rooms)
      room_id device t \<longleftrightarrow>
    (if room_id = rid r \<and> device = dev then t \<noteq> [] \<and> h t = h ticket
     else verify_room_ticket members expected h rooms room_id device t)"
  using assms(3,4)
  by (auto simp: verify_room_ticket_def found_room [OF assms(1,2)] admit_members dget_put)

lemma admitted_member_count:
  assumes "length (members r) < n \<or> dget (members r) dev \<noteq> None" and "length (members r) \<le> n"
  shows "length (members (admit now dev m r)) \<le> n"
  using assms by (auto simp: admit_members length_put dest: dget_key)

end

end
