(* ===== verification/Sync_Room.thy ===== *)
theory Sync_Room
  imports Room_Members
begin

text \<open>
  Synchronized playback rooms (\<^verbatim>\<open>core/sync_room.py\<close>). An operation takes the clock reading and the
  random values it draws as arguments and returns the table, the notification it sends (recipients,
  event, room) and its result; a mutation made before an exception stays. JSON arguments are
  values of \<open>Py_Json\<close>, and \<open>repr\<close> is the text of the values \<open>Py_Json\<close> leaves open.
\<close>

record sync_member =
  sm_ready :: bool
  sm_buffering :: bool
  sm_drift :: int
  sm_ticket :: "string option"

record playback =
  pb_playing :: bool
  pb_position :: int
  pb_sequence :: nat
  pb_execute_at :: "time option"

record sync_room =
  sr_id :: string
  sr_code :: string
  sr_host :: string
  sr_media :: string
  sr_type :: string
  sr_members :: "(string, sync_member) dict"
  sr_state :: playback
  sr_updated :: time

type_synonym sync_rooms = "(string, sync_room) dict"

record sync_view =
  syv_room :: string
  syv_code :: "string option"
  syv_host :: string
  syv_is_host :: bool
  syv_media :: string
  syv_type :: string
  syv_members :: "(string \<times> bool \<times> bool \<times> int) list"
  syv_state :: playback
  syv_time :: time

datatype sync_error =
  Sync_Bad_Media | Sync_Room_Limit | Sync_Identity | Sync_Not_Found | Sync_Mismatch | Sync_Full
| Sync_Host_Only | Sync_Bad_Command | Sync_Not_Member | Sync_Py py_error

datatype room_event = Room_Event "string list" string string

definition max_sync_members :: nat where "max_sync_members = 6"
definition max_sync_rooms :: nat where "max_sync_rooms = 16"
definition sync_ttl :: time where "sync_ttl = 4 * 60 * 60"

definition sync_cleanup :: "time \<Rightarrow> sync_rooms \<Rightarrow> sync_rooms" where
  "sync_cleanup now = dkeep (\<lambda>r. \<not> sr_updated r < now - sync_ttl)"

definition sync_notify :: "sync_room \<Rightarrow> string \<Rightarrow> room_event list" where
  "sync_notify r event = [Room_Event (dkeys (sr_members r)) event (sr_id r)]"

definition member_room :: "string \<Rightarrow> string \<Rightarrow> sync_rooms \<Rightarrow> sync_error + sync_room" where
  "member_room room_id device rooms =
     (case dget rooms room_id of None \<Rightarrow> Inl Sync_Not_Found
      | Some r \<Rightarrow> if dget (sr_members r) device = None then Inl Sync_Not_Member else Inr r)"

definition sync_snapshot :: "time \<Rightarrow> string \<Rightarrow> string \<Rightarrow> sync_rooms \<Rightarrow> sync_error + sync_view" where
  "sync_snapshot now room_id device rooms =
     (case member_room room_id device rooms of Inl e \<Rightarrow> Inl e
      | Inr r \<Rightarrow> Inr \<lparr>syv_room = sr_id r, syv_code = (if device = sr_host r then Some (sr_code r) else None),
          syv_host = sr_host r, syv_is_host = (device = sr_host r), syv_media = sr_media r, syv_type = sr_type r,
          syv_members = map (\<lambda>(k, m). (k, sm_ready m, sm_buffering m, sm_drift m)) (sr_members r),
          syv_state = sr_state r, syv_time = now\<rparr>)"

definition sync_create ::
    "time \<Rightarrow> string \<Rightarrow> string \<Rightarrow> string \<Rightarrow> json \<Rightarrow> json \<Rightarrow> sync_rooms \<Rightarrow> sync_rooms \<times> (sync_error + sync_view)" where
  "sync_create now room_id pin host media kind rooms =
     (case (media, kind) of
        (JStr media_id, JStr media_type) \<Rightarrow>
          if media_type \<notin> set [''audio'', ''video''] \<or> \<not> starts_with media_id ''/'' then (rooms, Inl Sync_Bad_Media)
          else (let rooms = sync_cleanup now rooms
                in if max_sync_rooms \<le> length rooms then (rooms, Inl Sync_Room_Limit)
                   else (let r = \<lparr>sr_id = room_id, sr_code = pin, sr_host = host, sr_media = media_id,
                                  sr_type = media_type,
                                  sr_members = [(host, \<lparr>sm_ready = True, sm_buffering = False, sm_drift = 0, sm_ticket = None\<rparr>)],
                                  sr_state = \<lparr>pb_playing = False, pb_position = 0, pb_sequence = 0, pb_execute_at = None\<rparr>,
                                  sr_updated = now\<rparr>;
                             rooms = dput room_id r rooms
                         in (rooms, sync_snapshot now room_id host rooms)))
      | _ \<Rightarrow> (rooms, Inl Sync_Bad_Media))"

definition sync_admit :: "time \<Rightarrow> string \<Rightarrow> sync_member \<Rightarrow> sync_room \<Rightarrow> sync_room" where
  "sync_admit now device m r = r\<lparr>sr_members := dput device m (sr_members r), sr_updated := now\<rparr>"

definition sync_join ::
    "(json \<Rightarrow> string) \<Rightarrow> (string \<Rightarrow> string) \<Rightarrow> string \<Rightarrow> time \<Rightarrow> string \<Rightarrow> json \<Rightarrow> json \<Rightarrow> sync_rooms \<Rightarrow>
     sync_rooms \<times> room_event list \<times> (sync_error + sync_view \<times> string)" where
  "sync_join repr h ticket now device pin media rooms =
     (if device = [] then (rooms, [], Inl Sync_Identity)
      else (case find (\<lambda>r. sr_code r = to_str repr pin) (dvals rooms) of
              None \<Rightarrow> (rooms, [], Inl Sync_Not_Found)
            | Some r \<Rightarrow>
                if media \<noteq> JStr (sr_media r) then (rooms, [], Inl Sync_Mismatch)
                else if max_sync_members \<le> length (sr_members r) \<and> dget (sr_members r) device = None
                then (rooms, [], Inl Sync_Full)
                else (let m = \<lparr>sm_ready = False, sm_buffering = True, sm_drift = 0, sm_ticket = Some (h ticket)\<rparr>;
                          rooms = update_first (\<lambda>r. sr_code r = to_str repr pin) (sync_admit now device m) rooms
                      in (rooms, sync_notify (sync_admit now device m r) ''member_joined'',
                          (case sync_snapshot now (sr_id r) device rooms of
                             Inl e \<Rightarrow> Inl e | Inr v \<Rightarrow> Inr (v, ticket))))))"

definition sync_expected :: "sync_member \<Rightarrow> string" where
  "sync_expected m = (case sm_ticket m of None \<Rightarrow> [] | Some t \<Rightarrow> t)"

abbreviation sync_verify :: "(string \<Rightarrow> string) \<Rightarrow> sync_rooms \<Rightarrow> string \<Rightarrow> string \<Rightarrow> string \<Rightarrow> bool" where
  "sync_verify \<equiv> verify_room_ticket sr_members sync_expected"

definition sync_report ::
    "time \<Rightarrow> string \<Rightarrow> string \<Rightarrow> json \<Rightarrow> json \<Rightarrow> json \<Rightarrow> sync_rooms \<Rightarrow>
     sync_rooms \<times> room_event list \<times> (sync_error + sync_view)" where
  "sync_report now room_id device ready buffering drift rooms =
     (case member_room room_id device rooms of Inl e \<Rightarrow> (rooms, [], Inl e)
      | Inr r \<Rightarrow>
          (case to_int drift of Inl e \<Rightarrow> (rooms, [], Inl (Sync_Py e))
           | Inr ms \<Rightarrow>
               (let m = \<lparr>sm_ready = truthy ready, sm_buffering = truthy buffering,
                         sm_drift = clamp (- 10000) 10000 ms, sm_ticket = None\<rparr>;
                    r = sync_admit now device m r;
                    rooms = dput room_id r rooms
                in (rooms, sync_notify r ''member_status'', sync_snapshot now room_id device rooms))))"

text \<open>The counter is raised and the playing flag set before the position is read, so a position that is
  no number leaves both.\<close>

definition sync_command ::
    "time \<Rightarrow> string \<Rightarrow> string \<Rightarrow> json \<Rightarrow> json \<Rightarrow> sync_rooms \<Rightarrow>
     sync_rooms \<times> room_event list \<times> (sync_error + sync_view)" where
  "sync_command now room_id host action position rooms =
     (case member_room room_id host rooms of Inl e \<Rightarrow> (rooms, [], Inl e)
      | Inr r \<Rightarrow>
          if sr_host r \<noteq> host then (rooms, [], Inl Sync_Host_Only)
          else if action \<notin> {JStr ''play'', JStr ''pause'', JStr ''seek''} then (rooms, [], Inl Sync_Bad_Command)
          else (let st = sr_state r;
                    playing = (action = JStr ''play'' \<or> action = JStr ''seek'' \<and> pb_playing st);
                    playing = (if action = JStr ''pause'' then False else playing);
                    st = st\<lparr>pb_sequence := pb_sequence st + 1, pb_playing := playing\<rparr>
                in (case to_int position of
                      Inl e \<Rightarrow> (dput room_id (r\<lparr>sr_state := st\<rparr>) rooms, [], Inl (Sync_Py e))
                    | Inr ms \<Rightarrow>
                        (let st = st\<lparr>pb_position := max 0 ms, pb_execute_at := Some (now + 35 / 100)\<rparr>;
                             r = r\<lparr>sr_state := st, sr_updated := now\<rparr>;
                             rooms = dput room_id r rooms
                         in (rooms, sync_notify r ''playback_command'', sync_snapshot now room_id host rooms)))))"

definition sync_close :: "string \<Rightarrow> string \<Rightarrow> sync_rooms \<Rightarrow> sync_rooms \<times> room_event list \<times> (sync_error + unit)" where
  "sync_close room_id host rooms =
     (case member_room room_id host rooms of Inl e \<Rightarrow> (rooms, [], Inl e)
      | Inr r \<Rightarrow>
          if sr_host r \<noteq> host then (rooms, [], Inl Sync_Host_Only)
          else (dpop room_id rooms, sync_notify r ''closed'', Inr ()))"

interpretation sync: ticketed_rooms sr_id sr_code sr_members sync_expected sync_admit
  by unfold_locales (simp_all add: sync_admit_def)


section \<open>Runs\<close>

datatype sync_op =
    Sy_Create time string string string json json
  | Sy_Join time string string json json
  | Sy_Report time string string json json json
  | Sy_Command time string string json json
  | Sy_Close string string

fun sync_apply :: "(json \<Rightarrow> string) \<Rightarrow> (string \<Rightarrow> string) \<Rightarrow> sync_op \<Rightarrow> sync_rooms \<Rightarrow> sync_rooms" where
  "sync_apply repr h (Sy_Create now k pin host media kind) rooms = fst (sync_create now k pin host media kind rooms)"
| "sync_apply repr h (Sy_Join now ticket dev pin media) rooms = fst (sync_join repr h ticket now dev pin media rooms)"
| "sync_apply repr h (Sy_Report now k dev ready buf drift) rooms = fst (sync_report now k dev ready buf drift rooms)"
| "sync_apply repr h (Sy_Command now k host action pos) rooms = fst (sync_command now k host action pos rooms)"
| "sync_apply repr h (Sy_Close k host) rooms = fst (sync_close k host rooms)"

fun sync_creates :: "string \<Rightarrow> sync_op \<Rightarrow> bool" where
  "sync_creates k (Sy_Create now k' pin host media kind) \<longleftrightarrow> k' = k"
| "sync_creates k _ \<longleftrightarrow> False"

definition member_ok :: "sync_member \<Rightarrow> bool" where
  "member_ok m \<longleftrightarrow> \<bar>sm_drift m\<bar> \<le> 10000"

definition sync_room_ok :: "sync_room \<Rightarrow> bool" where
  "sync_room_ok r \<longleftrightarrow> dict_ok (sr_members r) \<and> length (sr_members r) \<le> max_sync_members \<and>
     dget (sr_members r) (sr_host r) \<noteq> None \<and> all_vals member_ok (sr_members r) \<and>
     0 \<le> pb_position (sr_state r) \<and> (pb_execute_at (sr_state r) = None \<longrightarrow> pb_position (sr_state r) = 0)"

definition sync_ok :: "sync_rooms \<Rightarrow> bool" where
  "sync_ok rooms \<longleftrightarrow> sync.keyed rooms \<and> all_vals sync_room_ok rooms \<and> length rooms \<le> max_sync_rooms"

lemma member_room_Inr: "member_room k dev rooms = Inr r \<longleftrightarrow> dget rooms k = Some r \<and> dget (sr_members r) dev \<noteq> None"
  by (auto simp: member_room_def split: option.split)

lemma sync_room_ok_admit:
  assumes "sync_room_ok r" and "member_ok m"
    and "length (sr_members r) < max_sync_members \<or> dget (sr_members r) dev \<noteq> None"
  shows "sync_room_ok (sync_admit now dev m r)"
  using assms sync.admitted_member_count [of r max_sync_members dev now m]
  by (auto simp: sync_room_ok_def) (auto simp: sync_admit_def dget_put intro!: all_vals_put)

lemma sync_ok_put:
  "sync_ok rooms \<Longrightarrow> dget rooms k = Some r \<Longrightarrow> sync_room_ok r' \<Longrightarrow> sr_id r' = sr_id r \<Longrightarrow> sync_ok (dput k r' rooms)"
  by (auto simp: sync_ok_def length_put dest: dget_key intro!: sync.keyed_put_at all_vals_put)
    (auto simp: sync.keyed_def)

lemma sync_ok_cleanup: "sync_ok rooms \<Longrightarrow> sync_ok (sync_cleanup now rooms)"
  unfolding sync_ok_def sync_cleanup_def
  using length_keep [of _ rooms] by (auto intro: sync.keyed_keep order_trans)

lemma sync_ok_create:
  assumes "sync_ok rooms"
  shows "sync_ok (fst (sync_create now k pin host media kind rooms))"
proof -
  have c: "sync_ok (sync_cleanup now rooms)" by (rule sync_ok_cleanup [OF assms])
  have new: "sync_ok (dput k r (sync_cleanup now rooms))"
    if "length (sync_cleanup now rooms) < max_sync_rooms" "sync_room_ok r" "sr_id r = k" for r
    using c that by (auto simp: sync_ok_def length_put intro!: sync.keyed_put_at all_vals_put)
  show ?thesis
    using assms c new
    by (auto simp: sync_create_def Let_def sync_room_ok_def dict_ok_def member_ok_def max_sync_members_def
        split: json.split)
qed

lemma sync_ok_join:
  assumes "sync_ok rooms"
  shows "sync_ok (fst (sync_join repr h ticket now dev pin media rooms))"
proof (cases "find (\<lambda>r. sr_code r = to_str repr pin) (dvals rooms)")
  case None
  with assms show ?thesis by (simp add: sync_join_def)
next
  case (Some r)
  let ?m = "\<lparr>sm_ready = False, sm_buffering = True, sm_drift = 0, sm_ticket = Some (h ticket)\<rparr>"
  let ?rooms = "update_first (\<lambda>r. sr_code r = to_str repr pin) (sync_admit now dev ?m) rooms"
  have keyed: "sync.keyed rooms" and ok: "all_vals sync_room_ok rooms" using assms by (simp_all add: sync_ok_def)
  note found = sync.found_room [OF keyed Some]
  have "sync_ok ?rooms" if room: "length (sr_members r) < max_sync_members \<or> dget (sr_members r) dev \<noteq> None"
  proof -
    have "sync_room_ok (sync_admit now dev ?m r)"
      using all_vals_get [OF ok found(1)] room by (intro sync_room_ok_admit) (auto simp: member_ok_def)
    then have "\<forall>k w. dget ?rooms k = Some w \<longrightarrow> sync_room_ok w"
      using all_vals_get [OF ok] found(2) [of now dev ?m] by auto
    moreover have "dict_ok ?rooms" using keyed by (simp add: sync.keyed_def)
    ultimately have "all_vals sync_room_ok ?rooms"
      by (auto simp: all_vals_def dget_set)
    with assms keyed show ?thesis by (simp add: sync_ok_def sync.keyed_admit)
  qed
  with assms Some show ?thesis by (auto simp: sync_join_def Let_def not_le)
qed

lemma sync_ok_report:
  assumes "sync_ok rooms"
  shows "sync_ok (fst (sync_report now k dev ready buf drift rooms))"
proof (cases "member_room k dev rooms")
  case (Inr r)
  then have r: "dget rooms k = Some r" "dget (sr_members r) dev \<noteq> None" by (auto simp: member_room_Inr)
  then have "sync_room_ok r" using assms by (auto simp: sync_ok_def dest: all_vals_get)
  with r have "member_ok m \<Longrightarrow> sync_room_ok (sync_admit now dev m r)" for m
    by (intro sync_room_ok_admit) auto
  with assms r Inr show ?thesis
    by (auto simp: sync_report_def Let_def member_ok_def clamp_def sync.admit_rid
        intro!: sync_ok_put split: sum.split)
qed (use assms in \<open>simp add: sync_report_def\<close>)

lemma sync_ok_command:
  assumes "sync_ok rooms"
  shows "sync_ok (fst (sync_command now k host action pos rooms))"
proof (cases "member_room k host rooms")
  case (Inr r)
  then have r: "dget rooms k = Some r" by (auto simp: member_room_Inr)
  then have "sync_room_ok r" using assms by (auto simp: sync_ok_def dest: all_vals_get)
  with assms r Inr show ?thesis
    by (auto simp: sync_command_def Let_def sync_room_ok_def intro!: sync_ok_put split: sum.split)
qed (use assms in \<open>simp add: sync_command_def\<close>)

lemma sync_ok_close: "sync_ok rooms \<Longrightarrow> sync_ok (fst (sync_close k host rooms))"
  using length_pop_le [of k rooms]
  by (auto simp: sync_close_def sync_ok_def sync.keyed_pop split: sum.split)

lemma sync_ok_apply: "sync_ok rooms \<Longrightarrow> sync_ok (sync_apply repr h op rooms)"
  by (cases op) (simp_all add: sync_ok_create sync_ok_join sync_ok_report sync_ok_command sync_ok_close)

lemma sync_ok_run: "sync_ok rooms \<Longrightarrow> sync_ok (fold (sync_apply repr h) ops rooms)"
  by (induction ops arbitrary: rooms) (auto simp: sync_ok_apply)

text \<open>What a step may do to a room that is there before and after it: a playback change comes with a new
  sequence number.\<close>

definition playback_le :: "sync_room \<Rightarrow> sync_room \<Rightarrow> bool" where
  "playback_le r r' \<longleftrightarrow> sr_host r' = sr_host r \<and> sr_media r' = sr_media r \<and> sr_code r' = sr_code r \<and>
     (pb_sequence (sr_state r) < pb_sequence (sr_state r') \<or> sr_state r' = sr_state r)"

lemma playback_le_refl [simp]: "playback_le r r"
  by (simp add: playback_le_def)

lemma playback_le_trans: "playback_le r r' \<Longrightarrow> playback_le r' r'' \<Longrightarrow> playback_le r r''"
  by (auto simp: playback_le_def)

lemma sync_step_playback:
  assumes "sync_ok rooms" and "\<not> sync_creates k op" and "dget (sync_apply repr h op rooms) k = Some r'"
  shows "\<exists>r. dget rooms k = Some r \<and> playback_le r r'"
proof (cases op)
  case (Sy_Create now k' pin host media kind)
  have "dict_ok rooms" using assms(1) by (simp add: sync_ok_def sync.keyed_def)
  with assms(2,3) show ?thesis
    by (auto simp: Sy_Create sync_create_def Let_def dget_put sync_cleanup_def dget_keep
        split: json.splits if_splits option.splits)
next
  case (Sy_Join now ticket dev pin media)
  have keyed: "sync.keyed rooms" using assms(1) by (simp add: sync_ok_def)
  show ?thesis
  proof (cases "find (\<lambda>r. sr_code r = to_str repr pin) (dvals rooms)")
    case None
    with assms(3) show ?thesis by (auto simp: Sy_Join sync_join_def split: if_splits)
  next
    case (Some r)
    note found = sync.found_room [OF keyed Some]
    have "playback_le r (sync_admit now dev m r)" for m by (simp add: playback_le_def sync_admit_def)
    with Some assms(3) found show ?thesis
      by (auto simp: Sy_Join sync_join_def Let_def split: if_splits)
  qed
next
  case (Sy_Report now k' dev ready buf drift)
  with assms(3) show ?thesis
    by (auto simp: sync_report_def Let_def member_room_def dget_put playback_le_def sync_admit_def
        split: sum.splits if_splits option.splits)
next
  case (Sy_Command now k' host action pos)
  with assms(3) show ?thesis
    by (auto simp: sync_command_def Let_def member_room_def dget_put playback_le_def
        split: sum.splits if_splits option.splits)
next
  case (Sy_Close k' host)
  with assms(3) show ?thesis
    by (auto simp: sync_close_def dget_pop split: sum.splits if_splits)
qed

lemma sync_run_playback:
  assumes "sync_ok rooms" and "list_all (\<lambda>op. \<not> sync_creates k op) ops"
    and "dget (fold (sync_apply repr h) ops rooms) k = Some r'"
  shows "\<exists>r. dget rooms k = Some r \<and> playback_le r r'"
  using assms
proof (induction ops arbitrary: rooms)
  case Nil
  then show ?case by simp
next
  case (Cons op ops)
  then have "sync_ok (sync_apply repr h op rooms)" by (simp add: sync_ok_apply)
  with Cons obtain r where "dget (sync_apply repr h op rooms) k = Some r" "playback_le r r'" by auto
  with sync_step_playback [of rooms k op repr h r] Cons.prems show ?case
    by (auto intro: playback_le_trans)
qed

section \<open>Properties\<close>

lemma sync_ok_Nil [simp]: "sync_ok []"
  by (simp add: sync_ok_def sync.keyed_def)

text \<open>C8 (synchronized rooms stay well formed, and a sequence number identifies the playback state). Whatever
  operations a server has served, there are at most 16 rooms of at most six members, each with its host among
  them, drifts within ten seconds and positions not negative; and however it goes on, a room that is still there and
  was not created anew keeps its host and medium and shows a different playback state only under a
  larger sequence number.\<close>

theorem sync_sequence_identifies_state:
  assumes "rooms = fold (sync_apply repr h) ops0 []" and "rooms' = fold (sync_apply repr h) ops rooms"
    and "list_all (\<lambda>op. \<not> sync_creates k op) ops" and "dget rooms' k = Some r'"
  shows "sync_ok rooms' \<and> (\<exists>r. dget rooms k = Some r \<and> sr_host r' = sr_host r \<and> sr_media r' = sr_media r \<and>
    pb_sequence (sr_state r) \<le> pb_sequence (sr_state r') \<and>
    (pb_sequence (sr_state r) = pb_sequence (sr_state r') \<longrightarrow> sr_state r' = sr_state r))"
proof -
  have ok: "sync_ok rooms" by (simp add: assms(1) sync_ok_run)
  from sync_run_playback [OF ok assms(3), of repr h r'] assms(2,4)
  obtain r where "dget rooms k = Some r" "playback_le r r'" by auto
  moreover have "sync_ok rooms'" by (simp add: assms(2) sync_ok_run ok)
  ultimately show ?thesis by (auto simp: playback_le_def)
qed

definition demo_sync :: "sync_op list" where
  "demo_sync = [Sy_Create 1 ''r'' ''123456'' ''h'' (JStr ''/a'') (JStr ''audio'')]"

theorem sync_sequence_identifies_state_witness:
  "\<exists>r'. dget (fold (sync_apply (\<lambda>_. []) id) [Sy_Command 2 ''r'' ''h'' (JStr ''play'') (JInt 7)]
        (fold (sync_apply (\<lambda>_. []) id) demo_sync [])) ''r'' = Some r' \<and> pb_sequence (sr_state r') = 1 \<and> sr_host r' = ''h''"
proof -
  let ?rooms = "fold (sync_apply (\<lambda>_. []) id) demo_sync []"
  let ?ops = "[Sy_Command 2 ''r'' ''h'' (JStr ''play'') (JInt 7)]"
  have r: "dget ?rooms ''r'' = Some \<lparr>sr_id = ''r'', sr_code = ''123456'', sr_host = ''h'', sr_media = ''/a'', sr_type = ''audio'',
      sr_members = [(''h'', \<lparr>sm_ready = True, sm_buffering = False, sm_drift = 0, sm_ticket = None\<rparr>)],
      sr_state = \<lparr>pb_playing = False, pb_position = 0, pb_sequence = 0, pb_execute_at = None\<rparr>, sr_updated = 1\<rparr>"
    by (simp add: demo_sync_def sync_create_def starts_with_def Let_def sync_cleanup_def dkeep_def max_sync_rooms_def)
  then obtain r' where r': "dget (fold (sync_apply (\<lambda>_. []) id) ?ops ?rooms) ''r'' = Some r'" "pb_sequence (sr_state r') = 1"
    by (simp add: sync_command_def member_room_def Let_def dget_put)
  from sync_sequence_identifies_state [OF refl refl _ r'(1)] r have "sr_host r' = ''h''" by auto
  with r' show ?thesis by blast
qed

text \<open>A successful join hands out the ticket that opens the room for the joining
  device; no ticket of another device or another room starts or stops working, and the code of the room is
  shown to its host only.\<close>

theorem sync_join_ticket:
  assumes "sync_ok rooms" and "ticket \<noteq> []" and "h ticket \<noteq> []"
    and "sync_join repr h ticket now dev pin media rooms = (rooms', ev, Inr (v, t))"
  shows "t = ticket \<and> sync_verify h rooms' (syv_room v) dev ticket \<and>
    (syv_code v \<noteq> None \<longrightarrow> dev = syv_host v) \<and>
    (\<forall>k d t'. (k, d) \<noteq> (syv_room v, dev) \<longrightarrow> sync_verify h rooms' k d t' = sync_verify h rooms k d t')"
proof -
  have keyed: "sync.keyed rooms" using assms(1) by (simp add: sync_ok_def)
  from assms(4) obtain r where f: "find (\<lambda>r. sr_code r = to_str repr pin) (dvals rooms) = Some r"
    by (auto simp: sync_join_def split: if_splits option.splits)
  let ?m = "\<lparr>sm_ready = False, sm_buffering = True, sm_drift = 0, sm_ticket = Some (h ticket)\<rparr>"
  note found = sync.found_room [OF keyed f]
  have rooms': "rooms' = update_first (\<lambda>r. sr_code r = to_str repr pin) (sync_admit now dev ?m) rooms"
    and v: "sync_snapshot now (sr_id r) dev rooms' = Inr v" "t = ticket"
    using assms(4) f by (auto simp: sync_join_def Let_def split: if_splits sum.splits)
  have room: "syv_room v = sr_id r" "syv_code v \<noteq> None \<longrightarrow> dev = syv_host v"
    using v(1) found(2) [of now dev ?m "sr_id r"]
    by (auto simp: rooms' sync_snapshot_def member_room_Inr sync_admit_def split: sum.splits if_splits)
  show ?thesis
    using sync.admitted_ticket [OF keyed f, of ?m h ticket] assms(2,3) v(2) room
    by (auto simp: rooms' sync_expected_def)
qed

theorem sync_join_ticket_witness:
  "\<exists>rooms' ev v t. sync_join (\<lambda>_. []) id ''t'' 2 ''d'' (JStr ''123456'') (JStr ''/a'')
       (fold (sync_apply (\<lambda>_. []) id) demo_sync []) = (rooms', ev, Inr (v, t)) \<and> sync_verify id rooms' (syv_room v) ''d'' ''t''"
proof -
  let ?j = "sync_join (\<lambda>_. []) id ''t'' 2 ''d'' (JStr ''123456'') (JStr ''/a'') (fold (sync_apply (\<lambda>_. []) id) demo_sync [])"
  have "\<exists>v t. snd (snd ?j) = Inr (v, t)"
    by (simp add: demo_sync_def sync_create_def starts_with_def Let_def sync_cleanup_def dkeep_def max_sync_rooms_def
        sync_join_def max_sync_members_def sync_snapshot_def member_room_def sync_admit_def)
  then obtain rooms' ev v t where j: "?j = (rooms', ev, Inr (v, t))" by (metis prod.collapse)
  from sync_join_ticket [OF _ _ _ j] have "sync_verify id rooms' (syv_room v) ''d'' ''t''"
    by (simp add: sync_ok_run)
  with j show ?thesis by blast
qed

text \<open>The member record a report writes has no ticket
  hash: after a guest's first successful report no ticket opens the room for the device that reported, and the
  guest has to join again.\<close>

theorem sync_report_drops_ticket:
  assumes "sync_report now k dev ready buf drift rooms = (rooms', ev, Inr v)"
  shows "\<not> sync_verify h rooms' k dev t"
  using assms
  by (auto simp: sync_report_def Let_def verify_room_ticket_def sync_admit_def dget_put sync_expected_def
      split: sum.splits)

theorem sync_report_drops_ticket_witness:
  "\<exists>rooms. sync_verify id rooms ''r'' ''d'' ''t'' \<and>
     \<not> sync_verify id (fst (sync_report 3 ''r'' ''d'' (JBool True) (JBool False) (JInt 0) rooms)) ''r'' ''d'' ''t''"
proof -
  let ?rooms = "fold (sync_apply (\<lambda>_. []) id) (demo_sync @ [Sy_Join 2 ''t'' ''d'' (JStr ''123456'') (JStr ''/a'')]) []"
  let ?p = "sync_report 3 ''r'' ''d'' (JBool True) (JBool False) (JInt 0) ?rooms"
  have "sync_verify id ?rooms ''r'' ''d'' ''t'' \<and> (\<exists>v. snd (snd ?p) = Inr v)"
    by (simp add: demo_sync_def sync_create_def starts_with_def Let_def sync_cleanup_def dkeep_def max_sync_rooms_def
        sync_join_def max_sync_members_def sync_snapshot_def member_room_def sync_admit_def verify_room_ticket_def
        sync_expected_def sync_report_def)
  then obtain rooms' ev v where "sync_verify id ?rooms ''r'' ''d'' ''t''" and p: "?p = (rooms', ev, Inr v)"
    by (metis prod.collapse)
  with sync_report_drops_ticket [OF p, of id "''t''"] show ?thesis by (intro exI [of _ ?rooms]) simp
qed

end
