(* ===== verification/Collab_Queue.thy ===== *)
theory Collab_Queue
  imports Room_Members
begin

text \<open>
  Collaborative audio queues (\<^verbatim>\<open>core/collaborative_queue.py\<close>): rooms with a host, members that may be
  blocked, and a queue of proposals ordered by votes. Operations return the table, the notification sent
  and the result. The set of votes of an item is a list without duplicates.
\<close>

record q_member =
  qm_label :: "string option"
  qm_blocked :: bool
  qm_ticket :: "string option"

record q_item =
  qi_id :: string
  qi_media :: string
  qi_title :: string
  qi_proposer :: string
  qi_votes :: "string list"
  qi_created :: time

record q_room =
  qr_id :: string
  qr_code :: string
  qr_host :: string
  qr_members :: "(string, q_member) dict"
  qr_queue :: "q_item list"
  qr_proposals :: bool
  qr_votes :: bool
  qr_max :: int
  qr_locked :: bool
  qr_updated :: time

type_synonym q_rooms = "(string, q_room) dict"

record q_view =
  qv_room :: string
  qv_code :: "string option"
  qv_host :: string
  qv_is_host :: bool
  qv_proposals :: bool
  qv_votes :: bool
  qv_max :: int
  qv_locked :: bool
  qv_members :: "(string \<times> string option \<times> bool) list"
  qv_queue :: "(q_item \<times> nat \<times> bool) list"

datatype q_error =
  Q_Identity | Q_Room_Limit | Q_Not_Found | Q_Full | Q_Blocked | Q_Proposals_Closed | Q_Bad_Media | Q_Queue_Limit
| Q_Proposal_Limit | Q_Votes_Disabled | Q_No_Item | Q_Not_Member | Q_Host_Only | Q_Host_Stays | Q_Bad_Action
| Q_Py py_error

datatype q_event = Q_Event "string list" string string

datatype q_reply = Q_View q_view | Q_Joined q_view string | Q_Closed

definition max_rooms :: nat where "max_rooms = 16"
definition max_members :: nat where "max_members = 12"
definition max_queue_items :: nat where "max_queue_items = 100"
definition room_ttl :: time where "room_ttl = 6 * 60 * 60"

definition q_emit :: "q_room \<Rightarrow> string \<Rightarrow> q_event list" where
  "q_emit r action = [Q_Event (dkeys (qr_members r)) (qr_id r) action]"

definition q_cleanup :: "time \<Rightarrow> q_rooms \<Rightarrow> q_rooms" where
  "q_cleanup now = dkeep (\<lambda>r. \<not> qr_updated r < now - room_ttl)"

definition room_for_member :: "string \<Rightarrow> string \<Rightarrow> q_rooms \<Rightarrow> q_error + q_room" where
  "room_for_member room_id device rooms =
     (case dget rooms room_id of None \<Rightarrow> Inl Q_Not_Found
      | Some r \<Rightarrow> (case dget (qr_members r) device of None \<Rightarrow> Inl Q_Not_Member
          | Some m \<Rightarrow> if qm_blocked m then Inl Q_Not_Member else Inr r))"

definition q_order :: "q_item \<Rightarrow> int \<times> time" where
  "q_order i = (- int (length (qi_votes i)), qi_created i)"

definition q_snapshot :: "string \<Rightarrow> string \<Rightarrow> q_rooms \<Rightarrow> q_error + q_view" where
  "q_snapshot room_id device rooms =
     (case room_for_member room_id device rooms of Inl e \<Rightarrow> Inl e
      | Inr r \<Rightarrow> Inr \<lparr>qv_room = qr_id r, qv_code = (if device = qr_host r then Some (qr_code r) else None),
          qv_host = qr_host r, qv_is_host = (device = qr_host r), qv_proposals = qr_proposals r, qv_votes = qr_votes r,
          qv_max = qr_max r, qv_locked = qr_locked r,
          qv_members = map (\<lambda>(k, m). (k, qm_label m, qm_blocked m)) (qr_members r),
          qv_queue = map (\<lambda>i. (i, length (qi_votes i), device \<in> set (qi_votes i))) (sort_key q_order (qr_queue r))\<rparr>)"

definition q_view_reply :: "string \<Rightarrow> string \<Rightarrow> q_rooms \<Rightarrow> q_error + q_reply" where
  "q_view_reply room_id device rooms =
     (case q_snapshot room_id device rooms of Inl e \<Rightarrow> Inl e | Inr v \<Rightarrow> Inr (Q_View v))"

definition create_room ::
    "(json \<Rightarrow> string) \<Rightarrow> string \<Rightarrow> string \<Rightarrow> time \<Rightarrow> string \<Rightarrow> json \<Rightarrow> q_rooms \<Rightarrow>
     q_rooms \<times> q_event list \<times> (q_error + q_reply)" where
  "create_room repr room_id pin now host options rooms =
     (if host = [] then (rooms, [], Inl Q_Identity)
      else (let opts = (case options of JObj ob \<Rightarrow> ob | _ \<Rightarrow> []);
                rooms = q_cleanup now rooms
            in if max_rooms \<le> length rooms then (rooms, [], Inl Q_Room_Limit)
               else (case to_int (jget_or opts ''max_per_member'' (JInt 5)) of
                       Inl e \<Rightarrow> (rooms, [], Inl (Q_Py e))
                     | Inr n \<Rightarrow>
                         (let r = \<lparr>qr_id = room_id, qr_code = pin, qr_host = host,
                                   qr_members = [(host, \<lparr>qm_label = Some (take 64 (to_str repr (jget_or opts ''host_label'' (JStr [])))),
                                                        qm_blocked = False, qm_ticket = None\<rparr>)],
                                   qr_queue = [], qr_proposals = truthy (jget_or opts ''allow_proposals'' (JBool True)),
                                   qr_votes = truthy (jget_or opts ''allow_votes'' (JBool True)),
                                   qr_max = max 1 (min n 20), qr_locked = False, qr_updated = now\<rparr>;
                              rooms = dput room_id r rooms
                          in (rooms, [], q_view_reply room_id host rooms)))))"

definition q_admit :: "time \<Rightarrow> string \<Rightarrow> q_member \<Rightarrow> q_room \<Rightarrow> q_room" where
  "q_admit now device m r = r\<lparr>qr_members := dput device m (qr_members r), qr_updated := now\<rparr>"

definition is_blocked :: "q_room \<Rightarrow> string \<Rightarrow> bool" where
  "is_blocked r device \<longleftrightarrow> (case dget (qr_members r) device of None \<Rightarrow> False | Some m \<Rightarrow> qm_blocked m)"

definition join_room ::
    "(json \<Rightarrow> string) \<Rightarrow> (string \<Rightarrow> string) \<Rightarrow> string \<Rightarrow> time \<Rightarrow> string \<Rightarrow> json \<Rightarrow> json \<Rightarrow> q_rooms \<Rightarrow>
     q_rooms \<times> q_event list \<times> (q_error + q_reply)" where
  "join_room repr h ticket now device pin label rooms =
     (if device = [] then (rooms, [], Inl Q_Identity)
      else (let rooms = q_cleanup now rooms
            in case find (\<lambda>r. qr_code r = to_str repr pin) (dvals rooms) of
                 None \<Rightarrow> (rooms, [], Inl Q_Not_Found)
               | Some r \<Rightarrow>
                   if max_members \<le> length (qr_members r) \<and> dget (qr_members r) device = None
                   then (rooms, [], Inl Q_Full)
                   else if is_blocked r device then (rooms, [], Inl Q_Blocked)
                   else (let m = \<lparr>qm_label = Some (take 64 (to_str repr label)), qm_blocked = False, qm_ticket = Some (h ticket)\<rparr>;
                             rooms = update_first (\<lambda>r. qr_code r = to_str repr pin) (q_admit now device m) rooms
                         in (rooms, q_emit (q_admit now device m r) ''member_joined'',
                             (case q_snapshot (qr_id r) device rooms of Inl e \<Rightarrow> Inl e | Inr v \<Rightarrow> Inr (Q_Joined v ticket))))))"

definition q_expected :: "q_member \<Rightarrow> string" where
  "q_expected m = (case qm_ticket m of None \<Rightarrow> [] | Some t \<Rightarrow> t)"

abbreviation q_verify :: "(string \<Rightarrow> string) \<Rightarrow> q_rooms \<Rightarrow> string \<Rightarrow> string \<Rightarrow> string \<Rightarrow> bool" where
  "q_verify \<equiv> verify_room_ticket qr_members q_expected"

definition media_path_ok :: "json \<Rightarrow> bool" where
  "media_path_ok media = (case media of
     JStr s \<Rightarrow> starts_with s ''/'' \<and> ''..'' \<notin> set (split_on (CHR ''/'') s) | _ \<Rightarrow> False)"

definition proposals_of :: "string \<Rightarrow> q_item list \<Rightarrow> nat" where
  "proposals_of device q = length (filter (\<lambda>i. qi_proposer i = device) q)"

definition propose ::
    "(json \<Rightarrow> string) \<Rightarrow> string \<Rightarrow> time \<Rightarrow> string \<Rightarrow> string \<Rightarrow> json \<Rightarrow> json \<Rightarrow> q_rooms \<Rightarrow>
     q_rooms \<times> q_event list \<times> (q_error + q_reply)" where
  "propose repr item_id now room_id device media title rooms =
     (case room_for_member room_id device rooms of Inl e \<Rightarrow> (rooms, [], Inl e)
      | Inr r \<Rightarrow>
          if qr_locked r \<or> (device \<noteq> qr_host r \<and> \<not> qr_proposals r) then (rooms, [], Inl Q_Proposals_Closed)
          else if \<not> media_path_ok media then (rooms, [], Inl Q_Bad_Media)
          else if max_queue_items \<le> length (qr_queue r) then (rooms, [], Inl Q_Queue_Limit)
          else if qr_max r \<le> int (proposals_of device (qr_queue r)) then (rooms, [], Inl Q_Proposal_Limit)
          else (let i = \<lparr>qi_id = item_id, qi_media = to_str repr media, qi_title = take 256 (to_str repr title),
                         qi_proposer = device, qi_votes = [device], qi_created = now\<rparr>;
                    r = r\<lparr>qr_queue := qr_queue r @ [i], qr_updated := now\<rparr>;
                    rooms = dput room_id r rooms
                in (rooms, q_emit r ''item_added'', q_view_reply room_id device rooms)))"

fun vote_first :: "string \<Rightarrow> (string list \<Rightarrow> string list) \<Rightarrow> q_item list \<Rightarrow> q_item list" where
  "vote_first item_id f [] = []"
| "vote_first item_id f (i # q) =
     (if qi_id i = item_id then i\<lparr>qi_votes := f (qi_votes i)\<rparr> # q else i # vote_first item_id f q)"

definition vote ::
    "time \<Rightarrow> string \<Rightarrow> string \<Rightarrow> string \<Rightarrow> bool \<Rightarrow> q_rooms \<Rightarrow> q_rooms \<times> q_event list \<times> (q_error + q_reply)" where
  "vote now room_id device item_id enabled rooms =
     (case room_for_member room_id device rooms of Inl e \<Rightarrow> (rooms, [], Inl e)
      | Inr r \<Rightarrow>
          if \<not> qr_votes r then (rooms, [], Inl Q_Votes_Disabled)
          else if \<not> list_ex (\<lambda>i. qi_id i = item_id) (qr_queue r) then (rooms, [], Inl Q_No_Item)
          else (let r = r\<lparr>qr_queue := vote_first item_id (if enabled then List.insert device else removeAll device) (qr_queue r),
                           qr_updated := now\<rparr>;
                    rooms = dput room_id r rooms
                in (rooms, q_emit r ''vote_changed'', q_view_reply room_id device rooms)))"

text \<open>\<open>members.setdefault(target, {})["blocked"] = True\<close>.\<close>

definition block_member :: "string \<Rightarrow> (string, q_member) dict \<Rightarrow> (string, q_member) dict" where
  "block_member target d =
     (case dget d target of
        None \<Rightarrow> dput target \<lparr>qm_label = None, qm_blocked = True, qm_ticket = None\<rparr> d
      | Some m \<Rightarrow> dput target (m\<lparr>qm_blocked := True\<rparr>) d)"

text \<open>The room after a host action that leaves it open.\<close>

definition host_edit :: "string \<Rightarrow> string \<Rightarrow> string \<Rightarrow> q_room \<Rightarrow> q_error + q_room" where
  "host_edit host action target r =
     (if action = ''lock'' then Inr (r\<lparr>qr_locked := True\<rparr>)
      else if action = ''unlock'' then Inr (r\<lparr>qr_locked := False\<rparr>)
      else if action = ''remove_item'' then Inr (r\<lparr>qr_queue := filter (\<lambda>i. qi_id i \<noteq> target) (qr_queue r)\<rparr>)
      else if action = ''remove_member'' \<or> action = ''block_member'' then
        (if target = host then Inl Q_Host_Stays
         else if action = ''block_member'' then Inr (r\<lparr>qr_members := block_member target (qr_members r)\<rparr>)
         else Inr (r\<lparr>qr_members := dpop target (qr_members r)\<rparr>))
      else Inl Q_Bad_Action)"

definition host_action ::
    "time \<Rightarrow> string \<Rightarrow> string \<Rightarrow> string \<Rightarrow> string \<Rightarrow> q_rooms \<Rightarrow> q_rooms \<times> q_event list \<times> (q_error + q_reply)" where
  "host_action now room_id host action target rooms =
     (case room_for_member room_id host rooms of Inl e \<Rightarrow> (rooms, [], Inl e)
      | Inr r \<Rightarrow>
          if qr_host r \<noteq> host then (rooms, [], Inl Q_Host_Only)
          else if action = ''close'' then (dpop room_id rooms, q_emit r ''closed'', Inr Q_Closed)
          else (case host_edit host action target r of
                  Inl e \<Rightarrow> (rooms, [], Inl e)
                | Inr r \<Rightarrow>
                    (let r = r\<lparr>qr_updated := now\<rparr>; rooms = dput room_id r rooms
                     in (rooms, q_emit r action, q_view_reply room_id host rooms))))"

interpretation queue: ticketed_rooms qr_id qr_code qr_members q_expected q_admit
  by unfold_locales (simp_all add: q_admit_def)

section \<open>Runs\<close>

datatype q_op =
    Q_Create string string time string json
  | Q_Join string time string json json
  | Q_Propose string time string string json json
  | Q_Vote time string string string bool
  | Q_Host time string string string string

fun q_apply :: "(json \<Rightarrow> string) \<Rightarrow> (string \<Rightarrow> string) \<Rightarrow> q_op \<Rightarrow> q_rooms \<Rightarrow> q_rooms" where
  "q_apply repr h (Q_Create k pin now host options) rooms = fst (create_room repr k pin now host options rooms)"
| "q_apply repr h (Q_Join ticket now dev pin label) rooms = fst (join_room repr h ticket now dev pin label rooms)"
| "q_apply repr h (Q_Propose item now k dev media title) rooms = fst (propose repr item now k dev media title rooms)"
| "q_apply repr h (Q_Vote now k dev item enabled) rooms = fst (vote now k dev item enabled rooms)"
| "q_apply repr h (Q_Host now k host action target) rooms = fst (host_action now k host action target rooms)"

text \<open>The operations that may let a blocked device of a room back in: the room made anew, and the host
  removing the device.\<close>

fun readmits :: "string \<Rightarrow> string \<Rightarrow> q_op \<Rightarrow> bool" where
  "readmits k dev (Q_Create k' pin now host options) \<longleftrightarrow> k' = k"
| "readmits k dev (Q_Host now k' host action target) \<longleftrightarrow> k' = k \<and> action = ''remove_member'' \<and> target = dev"
| "readmits k dev _ \<longleftrightarrow> False"

definition unblocked :: "q_room \<Rightarrow> nat" where
  "unblocked r = length (dkeep (\<lambda>m. \<not> qm_blocked m) (qr_members r))"

definition item_ok :: "q_item \<Rightarrow> bool" where
  "item_ok i \<longleftrightarrow> distinct (qi_votes i)"

definition q_room_ok :: "q_room \<Rightarrow> bool" where
  "q_room_ok r \<longleftrightarrow> dict_ok (qr_members r) \<and> dget (qr_members r) (qr_host r) \<noteq> None \<and> \<not> is_blocked r (qr_host r) \<and>
     unblocked r \<le> max_members \<and> length (qr_queue r) \<le> max_queue_items \<and> list_all item_ok (qr_queue r) \<and>
     1 \<le> qr_max r \<and> qr_max r \<le> 20 \<and> (\<forall>dev. int (proposals_of dev (qr_queue r)) \<le> qr_max r)"

definition q_ok :: "q_rooms \<Rightarrow> bool" where
  "q_ok rooms \<longleftrightarrow> queue.keyed rooms \<and> all_vals q_room_ok rooms \<and> length rooms \<le> max_rooms"

lemma room_for_member_Inr:
  "room_for_member k dev rooms = Inr r \<longleftrightarrow>
    dget rooms k = Some r \<and> dget (qr_members r) dev \<noteq> None \<and> \<not> is_blocked r dev"
  by (auto simp: room_for_member_def is_blocked_def split: option.splits)

lemma length_keep_put:
  "length (dkeep P (dput k v d)) \<le> Suc (length (dkeep P d))"
  "\<not> P v \<Longrightarrow> length (dkeep P (dput k v d)) \<le> length (dkeep P d)"
  "dget d k = Some w \<Longrightarrow> P w \<Longrightarrow> length (dkeep P (dput k v d)) \<le> length (dkeep P d)"
  by (induction d) (auto simp: dkeep_def split: if_splits)

lemma length_keep_pop: "length (dkeep P (dpop k d)) \<le> length (dkeep P d)"
  by (induction d) (auto simp: dkeep_def)

lemma q_room_ok_admit:
  assumes ok: "q_room_ok r" and "\<not> is_blocked r dev" and "\<not> qm_blocked m"
    and room: "length (qr_members r) < max_members \<or> dget (qr_members r) dev \<noteq> None"
  shows "q_room_ok (q_admit now dev m r)"
proof -
  have "unblocked (q_admit now dev m r) \<le> max_members"
  proof (cases "dget (qr_members r) dev")
    case None
    with room have "length (dkeep (\<lambda>m. \<not> qm_blocked m) (qr_members r)) < max_members"
      using length_keep [of "\<lambda>m. \<not> qm_blocked m" "qr_members r"] by simp
    with length_keep_put(1) [of "\<lambda>m. \<not> qm_blocked m" dev m "qr_members r"] show ?thesis
      by (simp add: unblocked_def q_admit_def)
  next
    case (Some m0)
    with assms(2) have "\<not> qm_blocked m0" by (simp add: is_blocked_def)
    with length_keep_put(3) [of "qr_members r" dev m0 "\<lambda>m. \<not> qm_blocked m" m] Some ok show ?thesis
      by (simp add: unblocked_def q_admit_def q_room_ok_def)
  qed
  with ok assms(3) show ?thesis by (auto simp: q_room_ok_def q_admit_def is_blocked_def dget_put)
qed

lemma vote_first_simps [simp]:
  "length (vote_first item f q) = length q" "proposals_of dev (vote_first item f q) = proposals_of dev q"
  by (induction q) (auto simp: proposals_of_def)

lemma vote_first_ok:
  "list_all item_ok q \<Longrightarrow> (\<And>xs. distinct xs \<Longrightarrow> distinct (f xs)) \<Longrightarrow> list_all item_ok (vote_first item f q)"
  by (induction q) (auto simp: item_ok_def)

lemma proposals_of_filter: "proposals_of dev (filter P q) \<le> proposals_of dev q"
  by (induction q) (auto simp: proposals_of_def)

lemma unblocked_block:
  "length (dkeep (\<lambda>m. \<not> qm_blocked m) (block_member t d)) \<le> length (dkeep (\<lambda>m. \<not> qm_blocked m) d)"
  unfolding block_member_def
  by (cases "dget d t") (auto intro!: length_keep_put(2))

lemma host_edit_ok:
  assumes ok: "q_room_ok r" and "host_edit host action target r = Inr r'" and "qr_host r = host"
  shows "q_room_ok (r'\<lparr>qr_updated := now\<rparr>) \<and> qr_id r' = qr_id r \<and> qr_code r' = qr_code r"
proof -
  have "list_all item_ok (filter P (qr_queue r))" for P
    using ok by (auto simp: q_room_ok_def list_all_iff)
  moreover have "length (filter P (qr_queue r)) \<le> max_queue_items" for P
    using ok length_filter_le [of P "qr_queue r"] unfolding q_room_ok_def by linarith
  moreover have "int (proposals_of dev (filter P (qr_queue r))) \<le> qr_max r" for P dev
    using ok proposals_of_filter [of dev P "qr_queue r"]
    by (meson of_nat_mono order_trans q_room_ok_def)
  moreover have "length (dkeep (\<lambda>m. \<not> qm_blocked m) (block_member target (qr_members r))) \<le> max_members"
    "length (dkeep (\<lambda>m. \<not> qm_blocked m) (dpop target (qr_members r))) \<le> max_members"
    using ok unblocked_block [of target "qr_members r"] length_keep_pop [of "\<lambda>m. \<not> qm_blocked m" target "qr_members r"]
    by (simp_all add: q_room_ok_def unblocked_def)
  moreover have "dict_ok (block_member target (qr_members r))"
    using ok by (auto simp: block_member_def q_room_ok_def split: option.split)
  moreover have "dget (block_member target (qr_members r)) k = dget (qr_members r) k" if "k \<noteq> target" for k
    using that by (auto simp: block_member_def dget_put split: option.split)
  ultimately show ?thesis
    using assms by (auto simp: host_edit_def q_room_ok_def unblocked_def is_blocked_def dget_pop split: if_splits)
qed

lemma q_ok_put:
  "q_ok rooms \<Longrightarrow> dget rooms k = Some r \<Longrightarrow> q_room_ok r' \<Longrightarrow> qr_id r' = qr_id r \<Longrightarrow> q_ok (dput k r' rooms)"
  by (auto simp: q_ok_def length_put dest: dget_key intro!: queue.keyed_put_at all_vals_put)
    (auto simp: queue.keyed_def)

lemma q_ok_cleanup: "q_ok rooms \<Longrightarrow> q_ok (q_cleanup now rooms)"
  unfolding q_ok_def q_cleanup_def
  using length_keep [of _ rooms] by (auto intro: queue.keyed_keep order_trans)

lemma q_ok_get: "q_ok rooms \<Longrightarrow> dget rooms k = Some r \<Longrightarrow> q_room_ok r \<and> qr_id r = k"
  by (auto simp: q_ok_def queue.keyed_def dest: all_vals_get)

lemma q_ok_create:
  assumes "q_ok rooms"
  shows "q_ok (fst (create_room repr k pin now host options rooms))"
proof -
  have c: "q_ok (q_cleanup now rooms)" by (rule q_ok_cleanup [OF assms])
  have new: "q_ok (dput k r (q_cleanup now rooms))"
    if "length (q_cleanup now rooms) < max_rooms" "q_room_ok r" "qr_id r = k" for r
    using c that by (auto simp: q_ok_def length_put intro!: queue.keyed_put_at all_vals_put)
  show ?thesis
    using assms c
    by (auto simp: create_room_def Let_def q_room_ok_def dict_ok_def is_blocked_def unblocked_def dkeep_def max_members_def
        max_queue_items_def proposals_of_def intro!: new split: sum.split)
qed

lemma q_ok_join:
  assumes "q_ok rooms"
  shows "q_ok (fst (join_room repr h ticket now dev pin label rooms))"
proof -
  let ?c = "q_cleanup now rooms"
  have c: "q_ok ?c" by (rule q_ok_cleanup [OF assms])
  show ?thesis
  proof (cases "find (\<lambda>r. qr_code r = to_str repr pin) (dvals ?c)")
    case None
    with assms c show ?thesis by (simp add: join_room_def Let_def)
  next
    case (Some r)
    let ?m = "\<lparr>qm_label = Some (take 64 (to_str repr label)), qm_blocked = False, qm_ticket = Some (h ticket)\<rparr>"
    let ?rooms = "update_first (\<lambda>r. qr_code r = to_str repr pin) (q_admit now dev ?m) ?c"
    have keyed: "queue.keyed ?c" using c by (simp add: q_ok_def)
    note found = queue.found_room [OF keyed Some]
    have "q_ok ?rooms"
      if g: "length (qr_members r) < max_members \<or> dget (qr_members r) dev \<noteq> None" "\<not> is_blocked r dev"
    proof -
      have "q_room_ok (q_admit now dev ?m r)"
        using q_ok_get [OF c found(1)] g by (intro q_room_ok_admit) auto
      then have "\<forall>k w. dget ?rooms k = Some w \<longrightarrow> q_room_ok w"
        using q_ok_get [OF c] found(2) [of now dev ?m] by auto
      moreover have "dict_ok ?rooms" using keyed by (simp add: queue.keyed_def)
      ultimately have "all_vals q_room_ok ?rooms" by (auto simp: all_vals_def dget_set)
      with c keyed show ?thesis by (simp add: q_ok_def queue.keyed_admit)
    qed
    with assms c Some show ?thesis by (auto simp: join_room_def Let_def not_le)
  qed
qed

lemma q_ok_propose:
  assumes "q_ok rooms"
  shows "q_ok (fst (propose repr item now k dev media title rooms))"
proof (cases "room_for_member k dev rooms")
  case (Inr r)
  then have r: "dget rooms k = Some r" by (simp add: room_for_member_Inr)
  with assms have "q_room_ok r" by (simp add: q_ok_get)
  with assms r Inr show ?thesis
    by (auto simp: propose_def Let_def q_room_ok_def unblocked_def is_blocked_def item_ok_def proposals_of_def
        intro!: q_ok_put)
qed (use assms in \<open>simp add: propose_def\<close>)

lemma q_ok_vote:
  assumes "q_ok rooms"
  shows "q_ok (fst (vote now k dev item enabled rooms))"
proof (cases "room_for_member k dev rooms")
  case (Inr r)
  then have r: "dget rooms k = Some r" by (simp add: room_for_member_Inr)
  with assms have ok: "q_room_ok r" by (simp add: q_ok_get)
  then have "list_all item_ok (vote_first item (if enabled then List.insert dev else removeAll dev) (qr_queue r))"
    by (intro vote_first_ok) (auto simp: q_room_ok_def distinct_removeAll)
  with assms r Inr ok show ?thesis
    by (auto simp: vote_def Let_def q_room_ok_def unblocked_def is_blocked_def intro!: q_ok_put)
qed (use assms in \<open>simp add: vote_def\<close>)

lemma q_ok_host:
  assumes "q_ok rooms"
  shows "q_ok (fst (host_action now k host action target rooms))"
proof (cases "room_for_member k host rooms")
  case (Inr r)
  then have r: "dget rooms k = Some r" by (simp add: room_for_member_Inr)
  have "q_ok (dpop k rooms)"
    using assms length_pop_le [of k rooms] by (auto simp: q_ok_def queue.keyed_pop)
  moreover have "q_ok (dput k (r'\<lparr>qr_updated := now\<rparr>) rooms)"
    if "host_edit host action target r = Inr r'" "qr_host r = host" for r'
    using host_edit_ok [OF _ that] q_ok_get [OF assms r] by (intro q_ok_put [OF assms r]) auto
  ultimately show ?thesis
    using assms Inr by (auto simp: host_action_def Let_def split: sum.split)
qed (use assms in \<open>simp add: host_action_def\<close>)

lemma q_ok_apply: "q_ok rooms \<Longrightarrow> q_ok (q_apply repr h op rooms)"
  by (cases op) (simp_all add: q_ok_create q_ok_join q_ok_propose q_ok_vote q_ok_host)

lemma q_ok_run: "q_ok rooms \<Longrightarrow> q_ok (fold (q_apply repr h) ops rooms)"
  by (induction ops arbitrary: rooms) (auto simp: q_ok_apply)

lemma q_ok_Nil [simp]: "q_ok []"
  by (simp add: q_ok_def queue.keyed_def)

section \<open>Blocked devices\<close>

definition blocked_in :: "string \<Rightarrow> string \<Rightarrow> q_rooms \<Rightarrow> bool" where
  "blocked_in k dev rooms \<longleftrightarrow> (case dget rooms k of None \<Rightarrow> True | Some r \<Rightarrow> is_blocked r dev)"

lemma host_edit_blocked:
  "host_edit host action target r = Inr r' \<Longrightarrow> is_blocked r dev \<Longrightarrow>
    \<not> (action = ''remove_member'' \<and> target = dev) \<Longrightarrow> is_blocked (r'\<lparr>qr_updated := now\<rparr>) dev"
  by (auto simp: host_edit_def is_blocked_def block_member_def dget_put dget_pop split: if_splits option.splits)

lemma blocked_cleanup: "queue.keyed rooms \<Longrightarrow> blocked_in k dev rooms \<Longrightarrow> blocked_in k dev (q_cleanup now rooms)"
  by (auto simp: blocked_in_def q_cleanup_def dget_keep queue.keyed_def split: option.splits)

lemma blocked_put:
  "blocked_in k dev rooms \<Longrightarrow> (k' = k \<Longrightarrow> is_blocked r dev) \<Longrightarrow> blocked_in k dev (dput k' r rooms)"
  by (auto simp: blocked_in_def dget_put)

lemma blocked_step:
  assumes ok: "q_ok rooms" and b: "blocked_in k dev rooms" and n: "\<not> readmits k dev op"
  shows "blocked_in k dev (q_apply repr h op rooms)"
proof -
  have keyed: "queue.keyed rooms" using ok by (simp add: q_ok_def)
  have old: "is_blocked r dev" if "room_for_member k who rooms = Inr r" for who r
    using b that by (auto simp: blocked_in_def room_for_member_Inr)
  show ?thesis
  proof (cases op)
    case (Q_Create k' pin now host options)
    with n blocked_cleanup [OF keyed b] b show ?thesis
      by (auto simp: create_room_def Let_def intro!: blocked_put split: sum.split)
  next
    case (Q_Join ticket now d pin label)
    let ?c = "q_cleanup now rooms"
    have c: "queue.keyed ?c" "blocked_in k dev ?c"
      using keyed b blocked_cleanup by (auto simp: q_cleanup_def queue.keyed_keep)
    show ?thesis
    proof (cases "find (\<lambda>r. qr_code r = to_str repr pin) (dvals ?c)")
      case None
      with b c show ?thesis by (auto simp: Q_Join join_room_def Let_def)
    next
      case (Some r)
      note found = queue.found_room [OF c(1) Some]
      have "\<not> is_blocked r d \<Longrightarrow> is_blocked r dev \<Longrightarrow> is_blocked (q_admit now d m r) dev" for m
        by (auto simp: is_blocked_def q_admit_def dget_put)
      with b c Some found show ?thesis
        by (auto simp: Q_Join join_room_def Let_def blocked_in_def)
    qed
  next
    case (Q_Propose item now k' d media title)
    with b old show ?thesis
      by (auto simp: propose_def Let_def is_blocked_def intro!: blocked_put split: sum.split)
  next
    case (Q_Vote now k' d item enabled)
    with b old show ?thesis
      by (auto simp: vote_def Let_def is_blocked_def intro!: blocked_put split: sum.split)
  next
    case (Q_Host now k' host action target)
    have "blocked_in k dev (dpop k' rooms)"
      using b by (auto simp: blocked_in_def dget_pop split: option.splits)
    with b n old host_edit_blocked show ?thesis
      by (auto simp: Q_Host host_action_def Let_def intro!: blocked_put split: sum.split)
  qed
qed

lemma blocked_run:
  assumes "q_ok rooms" and "blocked_in k dev rooms" and "list_all (\<lambda>op. \<not> readmits k dev op) ops"
  shows "blocked_in k dev (fold (q_apply repr h) ops rooms)"
  using assms by (induction ops arbitrary: rooms) (auto simp: blocked_step q_ok_apply)

lemma blocked_refused:
  assumes "blocked_in k dev rooms"
  shows "\<exists>e. room_for_member k dev rooms = Inl e"
  using assms by (auto simp: blocked_in_def is_blocked_def room_for_member_def split: option.splits)

section \<open>Properties\<close>

text \<open>Whatever operations a server has served: at most 16
  rooms, each under its id, at most twelve members that are not blocked, the host among them, at most 100
  queued items, no member with more items than the room allows, and no item with the same vote twice.\<close>

theorem queue_rooms_invariant:
  assumes "rooms = fold (q_apply repr h) ops []" and "dget rooms k = Some r"
  shows "length rooms \<le> 16 \<and> qr_id r = k \<and> unblocked r \<le> 12 \<and> length (qr_queue r) \<le> 100 \<and>
    dget (qr_members r) (qr_host r) \<noteq> None \<and> \<not> is_blocked r (qr_host r) \<and>
    1 \<le> qr_max r \<and> qr_max r \<le> 20 \<and> int (proposals_of dev (qr_queue r)) \<le> qr_max r \<and>
    list_all (\<lambda>i. distinct (qi_votes i)) (qr_queue r)"
proof -
  have ok: "q_ok rooms" by (simp add: assms(1) q_ok_run)
  then have "length rooms \<le> 16" by (simp add: q_ok_def max_rooms_def)
  with q_ok_get [OF ok assms(2)] show ?thesis
    by (auto simp: q_room_ok_def max_members_def max_queue_items_def list_all_iff item_ok_def)
qed

definition demo_queue :: "q_op list" where
  "demo_queue = [Q_Create ''r'' ''123456'' 1 ''h'' (JObj [(''max_per_member'', JInt 99)]),
     Q_Join ''t'' 2 ''d'' (JStr ''123456'') (JStr ''D''), Q_Host 3 ''r'' ''h'' ''block_member'' ''d'']"

definition demo_queue_rooms :: q_rooms where
  "demo_queue_rooms = [(''r'', \<lparr>qr_id = ''r'', qr_code = ''123456'', qr_host = ''h'',
     qr_members = [(''h'', \<lparr>qm_label = Some [], qm_blocked = False, qm_ticket = None\<rparr>),
                   (''d'', \<lparr>qm_label = Some ''D'', qm_blocked = True, qm_ticket = Some ''t''\<rparr>)],
     qr_queue = [], qr_proposals = True, qr_votes = True, qr_max = 20, qr_locked = False, qr_updated = 3\<rparr>)]"

lemma demo_queue_run: "fold (q_apply (\<lambda>_. []) id) demo_queue [] = demo_queue_rooms"
  by (simp add: demo_queue_def demo_queue_rooms_def create_room_def join_room_def host_action_def host_edit_def Let_def
      q_cleanup_def dkeep_def max_rooms_def jget_or_def max_members_def is_blocked_def q_admit_def
      room_for_member_def block_member_def room_ttl_def)

theorem queue_rooms_invariant_witness:
  "\<exists>r. dget (fold (q_apply (\<lambda>_. []) id) demo_queue []) ''r'' = Some r \<and> qr_max r \<le> 20 \<and> unblocked r \<le> 12"
proof -
  obtain r where r: "dget (fold (q_apply (\<lambda>_. []) id) demo_queue []) ''r'' = Some r"
    by (simp add: demo_queue_run demo_queue_rooms_def)
  from queue_rooms_invariant [OF refl this] r show ?thesis by blast
qed

text \<open>C9 (a block holds). Once a device is blocked in a room, no run in which the host does not remove
  it from the room lets it see the room, propose, vote or join again: as long as the room is there each of these
  fails, and the first three leave the table unchanged.\<close>

theorem blocked_device_stays_out:
  assumes "rooms = fold (q_apply repr h) ops0 []" and "dget rooms k = Some r" and "is_blocked r dev"
    and "list_all (\<lambda>op. \<not> readmits k dev op) ops" and "rooms' = fold (q_apply repr h) ops rooms"
  shows "(\<exists>e. q_snapshot k dev rooms' = Inl e) \<and>
    (\<exists>e. propose repr item now k dev media title rooms' = (rooms', [], Inl e)) \<and>
    (\<exists>e. vote now k dev item' enabled rooms' = (rooms', [], Inl e)) \<and>
    (\<forall>v t. snd (snd (join_room repr h ticket now dev pin label rooms')) = Inr (Q_Joined v t) \<longrightarrow> qv_room v \<noteq> k)"
proof -
  have ok: "q_ok rooms" by (simp add: assms(1) q_ok_run)
  have "blocked_in k dev rooms" by (simp add: blocked_in_def assms(2,3))
  from blocked_run [OF ok this assms(4)] have b: "blocked_in k dev rooms'" by (simp add: assms(5))
  obtain e where e: "room_for_member k dev rooms' = Inl e" using blocked_refused [OF b] by blast
  have ok': "q_ok rooms'" by (simp add: assms(5) q_ok_run ok)
  have "blocked_in k dev (fst (join_room repr h ticket now dev pin label rooms'))"
    using blocked_step [OF ok' b, of "Q_Join ticket now dev pin label"] by simp
  from blocked_refused [OF this] obtain e' where
    e': "room_for_member k dev (fst (join_room repr h ticket now dev pin label rooms')) = Inl e'" by blast
  have "qv_room v \<noteq> k" if j: "snd (snd (join_room repr h ticket now dev pin label rooms')) = Inr (Q_Joined v t)" for v t
  proof
    assume k: "qv_room v = k"
    let ?j = "fst (join_room repr h ticket now dev pin label rooms')"
    from j obtain k' where k': "q_snapshot k' dev ?j = Inr v"
      by (auto simp: join_room_def Let_def split: if_splits option.splits sum.splits)
    then obtain r' where "dget ?j k' = Some r'" "qv_room v = qr_id r'"
      by (auto simp: q_snapshot_def room_for_member_Inr split: sum.splits)
    moreover have "q_ok ?j" by (rule q_ok_join [OF ok'])
    ultimately have "k' = k" using k q_ok_get by auto
    with k' e' show False by (simp add: q_snapshot_def)
  qed
  with e show ?thesis by (simp add: q_snapshot_def propose_def vote_def)
qed

theorem blocked_device_stays_out_witness:
  "\<exists>e. q_snapshot ''r'' ''d'' (fold (q_apply (\<lambda>_. []) id)
     [Q_Join ''u'' 4 ''d'' (JStr ''123456'') (JStr ''D''), Q_Host 5 ''r'' ''h'' ''unlock'' []]
     (fold (q_apply (\<lambda>_. []) id) demo_queue [])) = Inl e"
proof -
  have "\<exists>r. dget (fold (q_apply (\<lambda>_. []) id) demo_queue []) ''r'' = Some r \<and> is_blocked r ''d''"
    by (simp add: demo_queue_run demo_queue_rooms_def is_blocked_def)
  then obtain r where r: "dget (fold (q_apply (\<lambda>_. []) id) demo_queue []) ''r'' = Some r" "is_blocked r ''d''" by blast
  from blocked_device_stays_out [OF refl r _ refl, of "[Q_Join ''u'' 4 ''d'' (JStr ''123456'') (JStr ''D''), Q_Host 5 ''r'' ''h'' ''unlock'' []]"]
  show ?thesis by auto
qed

end
