(* ===== verification/Cluster_Revocation.thy ===== *)
theory Cluster_Revocation
  imports Py_Json
begin

text \<open>
  The replay and revocation state of a cluster node (\<^verbatim>\<open>core/cluster/revocation.py\<close>): the ticket generation
  of each node, the tickets revoked and the tickets consumed, with the state file. The file is a value of
  \<open>rev_file\<close>: the write of an operation is whole (a temporary file renamed), and its text is the JSON
  value it was dumped from.
\<close>

datatype rev_file = No_File | Bad_File | Json_File json

datatype rev_error = Rev_Capacity | Rev_State | Rev_Attribute

record revocations =
  rv_generations :: "(string, int) dict"
  rv_revoked :: "(string, int) dict"
  rv_consumed :: "(string, int) dict"
  rv_path :: bool
  rv_disk :: rev_file

definition max_ticket_records :: nat where "max_ticket_records = 4096"
definition retention_grace :: int where "retention_grace = 5"

definition current_generation :: "string \<Rightarrow> revocations \<Rightarrow> int" where
  "current_generation node rv = (case dget (rv_generations rv) node of None \<Rightarrow> 0 | Some g \<Rightarrow> g)"

definition rev_dump :: "(string, int) dict \<Rightarrow> json" where
  "rev_dump d = JObj (dmap JInt (sort_key fst d))"

definition rev_save :: "revocations \<Rightarrow> revocations" where
  "rev_save rv =
     (if rv_path rv then rv\<lparr>rv_disk := Json_File (JObj
        [(''consumed'', rev_dump (rv_consumed rv)), (''generations'', rev_dump (rv_generations rv)),
         (''revoked'', rev_dump (rv_revoked rv))])\<rparr>
      else rv)"

definition rev_purge :: "time \<Rightarrow> revocations \<Rightarrow> revocations" where
  "rev_purge now rv = rv\<lparr>rv_revoked := dkeep (\<lambda>e. py_int now \<le> e) (rv_revoked rv),
     rv_consumed := dkeep (\<lambda>e. py_int now \<le> e) (rv_consumed rv)\<rparr>"

definition rev_full :: "revocations \<Rightarrow> bool" where
  "rev_full rv \<longleftrightarrow> max_ticket_records \<le> length (rv_revoked rv) + length (rv_consumed rv)"

text \<open>The stored objects as dictionaries of integers; \<open>ValueError\<close> and \<open>TypeError\<close> become \<open>Rev_State\<close>.\<close>

definition load_ints :: "(json \<Rightarrow> string) \<Rightarrow> (int \<Rightarrow> int) \<Rightarrow> jobj \<Rightarrow> string \<Rightarrow> rev_error + (string, int) dict" where
  "load_ints repr f ob key =
     (case to_dict repr (jget_or ob key (JObj [])) of Inl e \<Rightarrow> Inl Rev_State
      | Inr items \<Rightarrow> (case map_items to_int items of Inl e \<Rightarrow> Inl Rev_State | Inr d \<Rightarrow> Inr (dmap f d)))"

definition rev_load :: "(json \<Rightarrow> string) \<Rightarrow> time \<Rightarrow> bool \<Rightarrow> rev_file \<Rightarrow> rev_error + revocations" where
  "rev_load repr now path disk =
     (let rv = \<lparr>rv_generations = [], rv_revoked = [], rv_consumed = [], rv_path = path, rv_disk = disk\<rparr>
      in if \<not> path then Inr rv
         else (case disk of
                 No_File \<Rightarrow> Inr rv
               | Bad_File \<Rightarrow> Inl Rev_State
               | Json_File (JObj ob) \<Rightarrow>
                   (case load_ints repr (max 0) ob ''generations'' of Inl e \<Rightarrow> Inl e
                    | Inr gens \<Rightarrow> (case load_ints repr id ob ''revoked'' of Inl e \<Rightarrow> Inl e
                    | Inr rvk \<Rightarrow> (case load_ints repr id ob ''consumed'' of Inl e \<Rightarrow> Inl e
                    | Inr con \<Rightarrow>
                        (let rv = rev_purge now (rv\<lparr>rv_generations := gens, rv_revoked := rvk, rv_consumed := con\<rparr>)
                         in if max_ticket_records < length (rv_revoked rv) + length (rv_consumed rv)
                            then Inl Rev_State else Inr rv))))
               | Json_File _ \<Rightarrow> Inl Rev_Attribute))"

definition revoke_node :: "string \<Rightarrow> revocations \<Rightarrow> revocations \<times> int" where
  "revoke_node node rv =
     (let g = current_generation node rv + 1
      in (rev_save (rv\<lparr>rv_generations := dput node g (rv_generations rv)\<rparr>), g))"

definition synchronize_generation :: "string \<Rightarrow> int \<Rightarrow> revocations \<Rightarrow> revocations \<times> (rev_error + unit)" where
  "synchronize_generation node generation rv =
     (let v = max 0 generation
      in if v < current_generation node rv then (rv, Inl Rev_State)
         else (rev_save (rv\<lparr>rv_generations := dput node v (rv_generations rv)\<rparr>), Inr ()))"

text \<open>The loop of \<open>merge_generations\<close>: a generation that is no number stops it, with the entries before it
  already merged in memory (and nothing written).\<close>

fun merge_loop :: "(json \<Rightarrow> string) \<Rightarrow> jobj \<Rightarrow> revocations \<Rightarrow> bool \<Rightarrow> revocations \<times> (rev_error + bool)" where
  "merge_loop repr [] rv changed = (rv, Inr changed)"
| "merge_loop repr ((raw, g) # items) rv changed =
     (let node = take 128 raw
      in if node = [] then merge_loop repr items rv changed
         else (case to_int g of
                 Inl e \<Rightarrow> (rv, Inl Rev_State)
               | Inr n \<Rightarrow>
                   (if current_generation node rv < max 0 n
                    then merge_loop repr items (rv\<lparr>rv_generations := dput node (max 0 n) (rv_generations rv)\<rparr>) True
                    else merge_loop repr items rv changed)))"

definition merge_generations :: "(json \<Rightarrow> string) \<Rightarrow> json \<Rightarrow> revocations \<Rightarrow> revocations \<times> (rev_error + (string, int) dict)" where
  "merge_generations repr generations rv =
     (case generations of
        JObj items \<Rightarrow>
          (case merge_loop repr items rv False of
             (rv, Inl e) \<Rightarrow> (rv, Inl e)
           | (rv, Inr changed) \<Rightarrow>
               (let rv = (if changed then rev_save rv else rv) in (rv, Inr (rv_generations rv))))
      | _ \<Rightarrow> (rv, Inl Rev_State))"

definition generation_snapshot :: "string list option \<Rightarrow> revocations \<Rightarrow> (string, int) dict" where
  "generation_snapshot nodes rv =
     (case nodes of None \<Rightarrow> rv_generations rv
      | Some ns \<Rightarrow> fold (\<lambda>n d. if n \<noteq> [] then dput n (current_generation n rv) d else d) ns [])"

definition known_ticket :: "string \<Rightarrow> revocations \<Rightarrow> bool" where
  "known_ticket t rv \<longleftrightarrow> dget (rv_revoked rv) t \<noteq> None \<or> dget (rv_consumed rv) t \<noteq> None"

definition revoke_ticket :: "time \<Rightarrow> string \<Rightarrow> int \<Rightarrow> revocations \<Rightarrow> revocations \<times> (rev_error + unit)" where
  "revoke_ticket now t expires rv =
     (let rv = rev_purge now rv
      in if \<not> known_ticket t rv \<and> rev_full rv then (rv, Inl Rev_Capacity)
         else (rev_save (rv\<lparr>rv_consumed := dpop t (rv_consumed rv),
                  rv_revoked := dput t (expires + retention_grace) (rv_revoked rv)\<rparr>), Inr ()))"

definition consume_ticket :: "time \<Rightarrow> string \<Rightarrow> int \<Rightarrow> revocations \<Rightarrow> revocations \<times> (rev_error + bool)" where
  "consume_ticket now t expires rv =
     (let rv = rev_purge now rv
      in if known_ticket t rv then (rv, Inr False)
         else if rev_full rv then (rv, Inl Rev_Capacity)
         else (rev_save (rv\<lparr>rv_consumed := dput t (expires + retention_grace) (rv_consumed rv)\<rparr>), Inr True))"

definition is_ticket_blocked :: "time \<Rightarrow> string \<Rightarrow> revocations \<Rightarrow> revocations \<times> bool" where
  "is_ticket_blocked now t rv = (let rv = rev_purge now rv in (rv, known_ticket t rv))"

definition is_ticket_revoked :: "time \<Rightarrow> string \<Rightarrow> revocations \<Rightarrow> revocations \<times> bool" where
  "is_ticket_revoked now t rv = (let rv = rev_purge now rv in (rv, dget (rv_revoked rv) t \<noteq> None))"

section \<open>Writing and reading the state file\<close>

definition rev_ok :: "revocations \<Rightarrow> bool" where
  "rev_ok rv \<longleftrightarrow> dict_ok (rv_generations rv) \<and> dict_ok (rv_revoked rv) \<and> dict_ok (rv_consumed rv) \<and>
     all_vals (\<lambda>g. 0 \<le> g) (rv_generations rv)"

lemma dict_ok_sort [simp]: "dict_ok (sort_key fst d) \<longleftrightarrow> dict_ok d"
  unfolding dict_ok_def by (metis distinct_map distinct_sort set_sort)

lemma dget_sort: "dict_ok d \<Longrightarrow> dget (sort_key fst d) k = dget d k"
  using map_of_inject_set [of "sort_key fst d" d] dict_ok_sort [of d] by (simp add: dict_ok_def)

lemma load_ints_dump:
  assumes "map_of ob key = Some (rev_dump d)"
  shows "load_ints repr f ob key = Inr (dmap f (sort_key fst d))"
proof -
  have "map_items to_int (dmap JInt (sort_key fst d)) = Inr (dmap id (sort_key fst d))"
    by (rule map_items_dmap) simp
  then show ?thesis using assms by (simp add: load_ints_def jget_or_def rev_dump_def dmap_def comp_def case_prod_beta)
qed

text \<open>What a fact about the generations, the revoked and the consumed tickets means for a registry whose
  process may stop: it holds of the memory, and of the file when there is one.\<close>

definition image_ok :: "(string, int) dict \<Rightarrow> (string, int) dict \<Rightarrow> (string, int) dict \<Rightarrow> bool" where
  "image_ok g r c \<longleftrightarrow> dict_ok g \<and> dict_ok r \<and> dict_ok c \<and> all_vals (\<lambda>n. 0 \<le> n) g \<and>
     length r + length c \<le> max_ticket_records"

definition written :: "rev_file \<Rightarrow> (string, int) dict \<Rightarrow> (string, int) dict \<Rightarrow> (string, int) dict \<Rightarrow> bool" where
  "written disk g r c \<longleftrightarrow> image_ok g r c \<and> disk = Json_File (JObj
     [(''consumed'', rev_dump c), (''generations'', rev_dump g), (''revoked'', rev_dump r)])"

definition rev_inv :: "revocations \<Rightarrow> bool" where
  "rev_inv rv \<longleftrightarrow> image_ok (rv_generations rv) (rv_revoked rv) (rv_consumed rv) \<and>
     (rv_path rv \<longrightarrow> rv_disk rv = No_File \<or> (\<exists>g r c. written (rv_disk rv) g r c))"

definition durable ::
    "((string, int) dict \<Rightarrow> (string, int) dict \<Rightarrow> (string, int) dict \<Rightarrow> bool) \<Rightarrow> revocations \<Rightarrow> bool" where
  "durable P rv \<longleftrightarrow> P (rv_generations rv) (rv_revoked rv) (rv_consumed rv) \<and>
     (rv_path rv \<longrightarrow> (\<exists>g r c. written (rv_disk rv) g r c \<and> P g r c))"

lemma length_sort_key [simp]: "length (sort_key f d) = length d"
  by simp

lemma all_vals_set: "set d = set d' \<Longrightarrow> all_vals P d = all_vals P d'"
  by (simp add: all_vals_def)

lemma rev_inv_save:
  assumes "rev_inv rv0" and "rv_path rv = rv_path rv0" and "rv_disk rv = rv_disk rv0"
    and "image_ok (rv_generations rv) (rv_revoked rv) (rv_consumed rv)"
  shows "rev_inv (rev_save rv)"
  using assms by (auto simp: rev_inv_def rev_save_def written_def)

lemma durable_save:
  assumes "image_ok (rv_generations rv) (rv_revoked rv) (rv_consumed rv)"
    and "P (rv_generations rv) (rv_revoked rv) (rv_consumed rv)"
  shows "durable P (rev_save rv)"
  using assms by (auto simp: durable_def rev_save_def written_def)

lemma rev_purge_sel [simp]:
  "rv_generations (rev_purge now rv) = rv_generations rv" "rv_path (rev_purge now rv) = rv_path rv"
  "rv_disk (rev_purge now rv) = rv_disk rv"
  by (simp_all add: rev_purge_def)

lemma rev_save_sel [simp]:
  "rv_generations (rev_save rv) = rv_generations rv" "rv_revoked (rev_save rv) = rv_revoked rv"
  "rv_consumed (rev_save rv) = rv_consumed rv" "rv_path (rev_save rv) = rv_path rv"
  by (simp_all add: rev_save_def)

lemma image_ok_purge: "image_ok g (rv_revoked rv) (rv_consumed rv) \<Longrightarrow>
    image_ok g (rv_revoked (rev_purge now rv)) (rv_consumed (rev_purge now rv))"
  using length_keep [of "\<lambda>e. py_int now \<le> e" "rv_revoked rv"] length_keep [of "\<lambda>e. py_int now \<le> e" "rv_consumed rv"]
  by (simp add: image_ok_def rev_purge_def)

lemma rev_inv_purge: "rev_inv rv \<Longrightarrow> rev_inv (rev_purge now rv)"
  using image_ok_purge [of "rv_generations rv" rv now] by (simp add: rev_inv_def)

text \<open>The file an operation wrote can be read, and reading it gives the written dictionaries, purged.\<close>

lemma rev_load_written:
  assumes "written disk g r c"
  shows "rev_load repr now True disk = Inr (rev_purge now
    \<lparr>rv_generations = dmap (max 0) (sort_key fst g), rv_revoked = sort_key fst r, rv_consumed = sort_key fst c,
     rv_path = True, rv_disk = disk\<rparr>)" (is "_ = Inr (rev_purge now ?rv)")
proof -
  have d: "dmap id d = d" for d :: "(string, int) dict" by (simp add: dmap_def)
  have "image_ok g r c" using assms by (simp add: written_def)
  then have "length (rv_revoked (rev_purge now ?rv)) + length (rv_consumed (rev_purge now ?rv)) \<le> max_ticket_records"
    using length_keep [of "\<lambda>e. py_int now \<le> e" "sort_key fst r"] length_keep [of "\<lambda>e. py_int now \<le> e" "sort_key fst c"]
    by (simp add: rev_purge_def image_ok_def)
  then show ?thesis
    using assms by (simp add: rev_load_def written_def Let_def load_ints_dump d)
qed

lemma dmap_max_0: "all_vals (\<lambda>n. (0::int) \<le> n) d \<Longrightarrow> dmap (max 0) d = d"
  by (induction d) (auto simp: dmap_def)

lemma rev_load_image:
  assumes "written disk g r c" and "rev_load repr now True disk = Inr rv"
  shows "rv_generations rv = sort_key fst g" and "rv_disk rv = disk" and "rv_path rv"
    and "rv_revoked rv = dkeep (\<lambda>e. py_int now \<le> e) (sort_key fst r)"
    and "rv_consumed rv = dkeep (\<lambda>e. py_int now \<le> e) (sort_key fst c)"
    and "image_ok (rv_generations rv) (rv_revoked rv) (rv_consumed rv)"
proof -
  have i: "image_ok g r c" using assms(1) by (simp add: written_def)
  then have "all_vals (\<lambda>n. 0 \<le> n) (sort_key fst g)"
    using all_vals_set [of "sort_key fst g" g] by (simp add: image_ok_def)
  then have max: "dmap (max 0) (sort_key fst g) = sort_key fst g" by (rule dmap_max_0)
  note rv = rev_load_written [OF assms(1), of repr now, unfolded assms(2) max, THEN sum.inject(2) [THEN iffD1]]
  show "rv_generations rv = sort_key fst g" "rv_disk rv = disk" "rv_path rv"
    "rv_revoked rv = dkeep (\<lambda>e. py_int now \<le> e) (sort_key fst r)"
    "rv_consumed rv = dkeep (\<lambda>e. py_int now \<le> e) (sort_key fst c)"
    by (simp_all add: rv rev_purge_def)
  have "image_ok (sort_key fst g) (sort_key fst r) (sort_key fst c)"
    using i all_vals_set [of "sort_key fst g" g] by (simp add: image_ok_def)
  from image_ok_purge [of _ "\<lparr>rv_generations = sort_key fst g, rv_revoked = sort_key fst r, rv_consumed = sort_key fst c,
     rv_path = True, rv_disk = disk\<rparr>"] this
  show "image_ok (rv_generations rv) (rv_revoked rv) (rv_consumed rv)"
    by (simp add: rv)
qed

section \<open>Operations\<close>

datatype rev_op =
    R_Revoke_Node string
  | R_Sync string int
  | R_Merge json
  | R_Revoke_Ticket time string int
  | R_Consume time string int
  | R_Blocked time string
  | R_Revoked time string
  | R_Restart time

text \<open>A restart reads the file into a new registry; it fails only on a file no registry wrote.\<close>

definition rev_restart :: "(json \<Rightarrow> string) \<Rightarrow> time \<Rightarrow> revocations \<Rightarrow> revocations" where
  "rev_restart repr now rv = (case rev_load repr now (rv_path rv) (rv_disk rv) of Inl e \<Rightarrow> rv | Inr rv' \<Rightarrow> rv')"

fun rev_apply :: "(json \<Rightarrow> string) \<Rightarrow> rev_op \<Rightarrow> revocations \<Rightarrow> revocations" where
  "rev_apply repr (R_Revoke_Node node) rv = fst (revoke_node node rv)"
| "rev_apply repr (R_Sync node g) rv = fst (synchronize_generation node g rv)"
| "rev_apply repr (R_Merge gens) rv = fst (merge_generations repr gens rv)"
| "rev_apply repr (R_Revoke_Ticket now t e) rv = fst (revoke_ticket now t e rv)"
| "rev_apply repr (R_Consume now t e) rv = fst (consume_ticket now t e rv)"
| "rev_apply repr (R_Blocked now t) rv = fst (is_ticket_blocked now t rv)"
| "rev_apply repr (R_Revoked now t) rv = fst (is_ticket_revoked now t rv)"
| "rev_apply repr (R_Restart now) rv = rev_restart repr now rv"

lemma current_generation_nonneg: "image_ok (rv_generations rv) r c \<Longrightarrow> 0 \<le> current_generation node rv"
  by (auto simp: current_generation_def image_ok_def dest: all_vals_get split: option.split)

lemma image_ok_put_gen: "image_ok g r c \<Longrightarrow> 0 \<le> n \<Longrightarrow> image_ok (dput node n g) r c"
  by (auto simp: image_ok_def)

text \<open>What the merge loop does to the memory: it raises generations, whether it stops early or not.\<close>

definition gens_le :: "revocations \<Rightarrow> revocations \<Rightarrow> bool" where
  "gens_le rv rv' \<longleftrightarrow> (\<forall>n. current_generation n rv \<le> current_generation n rv') \<and>
     rv_revoked rv' = rv_revoked rv \<and> rv_consumed rv' = rv_consumed rv \<and>
     rv_path rv' = rv_path rv \<and> rv_disk rv' = rv_disk rv \<and>
     (image_ok (rv_generations rv) (rv_revoked rv) (rv_consumed rv) \<longrightarrow>
      image_ok (rv_generations rv') (rv_revoked rv') (rv_consumed rv'))"

lemma gens_le_refl [simp]: "gens_le rv rv"
  by (simp add: gens_le_def)

lemma gens_le_trans: "gens_le a b \<Longrightarrow> gens_le b c \<Longrightarrow> gens_le a c"
  unfolding gens_le_def by (auto intro: order_trans)

lemma gens_le_put:
  "current_generation n rv \<le> g \<Longrightarrow> 0 \<le> g \<Longrightarrow> gens_le rv (rv\<lparr>rv_generations := dput n g (rv_generations rv)\<rparr>)"
  by (auto simp: gens_le_def current_generation_def dget_put image_ok_put_gen split: option.splits)

lemma merge_loop_le: "gens_le rv (fst (merge_loop repr items rv changed))"
proof (induction repr items rv changed rule: merge_loop.induct)
  case (1 repr rv changed)
  then show ?case by simp
next
  case (2 repr raw g items rv changed)
  show ?case
  proof (cases "take 128 raw = []")
    case True
    with 2(1) [OF refl] show ?thesis by (simp add: Let_def)
  next
    case False
    show ?thesis
    proof (cases "to_int g")
      case (Inr n)
      then show ?thesis
      proof (cases "current_generation (take 128 raw) rv < max 0 n")
        case True
        then have "gens_le rv (rv\<lparr>rv_generations := dput (take 128 raw) (max 0 n) (rv_generations rv)\<rparr>)"
          by (intro gens_le_put) auto
        with 2(2) [OF refl False Inr True] True False Inr show ?thesis
          by (auto simp: Let_def intro: gens_le_trans)
      next
        case F: False
        with 2(3) [OF refl False Inr F] False Inr show ?thesis by (simp add: Let_def)
      qed
    qed (use False in simp)
  qed
qed

lemma rev_inv_gens: "rev_inv rv \<Longrightarrow> gens_le rv rv' \<Longrightarrow> rev_inv rv'"
  by (auto simp: rev_inv_def gens_le_def)

lemma rev_inv_gens_save: "rev_inv rv \<Longrightarrow> gens_le rv rv' \<Longrightarrow> rev_inv (rev_save rv')"
  by (rule rev_inv_save [of rv]) (auto simp: rev_inv_def gens_le_def)

text \<open>The dictionaries of a ticket operation stay within the bound.\<close>

lemma image_ok_revoke_ticket:
  assumes "image_ok g (rv_revoked rv) (rv_consumed rv)" and "known_ticket t rv \<or> \<not> rev_full rv"
  shows "image_ok g (dput t e (rv_revoked rv)) (dpop t (rv_consumed rv))"
proof -
  have "length (dput t e (rv_revoked rv)) + length (dpop t (rv_consumed rv)) \<le> max_ticket_records"
  proof (cases "dget (rv_revoked rv) t = None \<and> dget (rv_consumed rv) t \<noteq> None")
    case True
    with assms(1) length_pop [of "rv_consumed rv" t] show ?thesis
      by (auto simp: image_ok_def length_put dget_None_iff)
  next
    case False
    with assms length_pop_le [of t "rv_consumed rv"] show ?thesis
      by (auto simp: image_ok_def length_put known_ticket_def rev_full_def dest: dget_key)
  qed
  with assms(1) show ?thesis by (simp add: image_ok_def)
qed

lemma image_ok_consume:
  assumes "image_ok g (rv_revoked rv) (rv_consumed rv)" and "\<not> rev_full rv"
  shows "image_ok g (rv_revoked rv) (dput t e (rv_consumed rv))"
  using assms by (auto simp: image_ok_def length_put rev_full_def)

lemma rev_inv_restart:
  assumes "rev_inv rv"
  shows "rev_inv (rev_restart repr now rv)"
proof (cases "rv_path rv")
  case False
  then show ?thesis by (simp add: rev_restart_def rev_load_def rev_inv_def image_ok_def)
next
  case True
  with assms consider "rv_disk rv = No_File" | g r c where "written (rv_disk rv) g r c" by (auto simp: rev_inv_def)
  then show ?thesis
  proof cases
    case 1
    with True show ?thesis by (simp add: rev_restart_def rev_load_def rev_inv_def image_ok_def)
  next
    case 2
    obtain rv' where l: "rev_load repr now True (rv_disk rv) = Inr rv'" using rev_load_written [OF 2] by blast
    from rev_load_image [OF 2 l] 2 True l show ?thesis by (auto simp: rev_restart_def rev_inv_def)
  qed
qed

lemma rev_inv_apply:
  assumes "rev_inv rv"
  shows "rev_inv (rev_apply repr op rv)"
proof -
  have i: "image_ok (rv_generations rv) (rv_revoked rv) (rv_consumed rv)" using assms by (simp add: rev_inv_def)
  have p: "image_ok (rv_generations rv) (rv_revoked (rev_purge now rv)) (rv_consumed (rev_purge now rv))" for now
    by (rule image_ok_purge [OF i])
  note inv = rev_inv_purge [OF assms]
  show ?thesis
  proof (cases op)
    case (R_Revoke_Node n)
    with current_generation_nonneg [OF i] assms show ?thesis
      by (auto simp: revoke_node_def Let_def intro!: rev_inv_gens_save gens_le_put)
  next
    case (R_Sync n g)
    with assms show ?thesis
      by (auto simp: synchronize_generation_def Let_def intro!: rev_inv_gens_save gens_le_put)
  next
    case (R_Merge gens)
    show ?thesis
    proof (cases gens)
      case (JObj items)
      with merge_loop_le [of rv repr items False] assms show ?thesis
        by (auto simp: R_Merge merge_generations_def Let_def rev_inv_gens rev_inv_gens_save
            split: prod.split sum.split)
    qed (use assms R_Merge in \<open>simp_all add: merge_generations_def\<close>)
  next
    case (R_Revoke_Ticket now t e)
    have "rev_inv (rev_save ((rev_purge now rv)\<lparr>rv_consumed := dpop t (rv_consumed (rev_purge now rv)),
        rv_revoked := dput t e' (rv_revoked (rev_purge now rv))\<rparr>))"
      if "known_ticket t (rev_purge now rv) \<or> \<not> rev_full (rev_purge now rv)" for e'
      using image_ok_revoke_ticket [of "rv_generations rv" "rev_purge now rv" t e'] p that
      by (intro rev_inv_save [OF inv [of now]]) simp_all
    with R_Revoke_Ticket inv show ?thesis by (auto simp: revoke_ticket_def Let_def)
  next
    case (R_Consume now t e)
    have "rev_inv (rev_save ((rev_purge now rv)\<lparr>rv_consumed := dput t e' (rv_consumed (rev_purge now rv))\<rparr>))"
      if "\<not> rev_full (rev_purge now rv)" for e'
      using image_ok_consume [of "rv_generations rv" "rev_purge now rv" t e'] p that
      by (intro rev_inv_save [OF inv [of now]]) simp_all
    with R_Consume inv show ?thesis by (auto simp: consume_ticket_def Let_def)
  qed (use inv rev_inv_restart [OF assms] in \<open>simp_all add: is_ticket_blocked_def is_ticket_revoked_def Let_def\<close>)
qed

section \<open>What a registry never forgets\<close>

definition gen_at_least :: "string \<Rightarrow> int \<Rightarrow> (string, int) dict \<Rightarrow> (string, int) dict \<Rightarrow> (string, int) dict \<Rightarrow> bool" where
  "gen_at_least n k g r c \<longleftrightarrow> k \<le> (case dget g n of None \<Rightarrow> 0 | Some x \<Rightarrow> x)"

definition ticket_known :: "string \<Rightarrow> int \<Rightarrow> (string, int) dict \<Rightarrow> (string, int) dict \<Rightarrow> (string, int) dict \<Rightarrow> bool" where
  "ticket_known t u g r c \<longleftrightarrow>
     (\<exists>e. dget r t = Some e \<and> u \<le> e) \<or> (\<exists>e. dget c t = Some e \<and> u \<le> e)"

lemma durable_restart:
  assumes "durable P rv" and "rv_path rv"
    and "\<And>g r c. P g r c \<Longrightarrow> image_ok g r c \<Longrightarrow>
      P (sort_key fst g) (dkeep (\<lambda>e. py_int now \<le> e) (sort_key fst r)) (dkeep (\<lambda>e. py_int now \<le> e) (sort_key fst c))"
  shows "durable P (rev_restart repr now rv)"
proof -
  from assms(1,2) obtain g r c where w: "written (rv_disk rv) g r c" "P g r c" by (auto simp: durable_def)
  obtain rv' where l: "rev_load repr now True (rv_disk rv) = Inr rv'" using rev_load_written [OF w(1)] by blast
  note image = rev_load_image [OF w(1) l]
  have "image_ok g r c" using w(1) by (simp add: written_def)
  from assms(3) [OF w(2) this] have "P (rv_generations rv') (rv_revoked rv') (rv_consumed rv')"
    by (simp add: image)
  with w l assms(2) image show ?thesis by (auto simp: rev_restart_def durable_def)
qed

lemma gen_at_least_current: "gen_at_least n k (rv_generations rv) r c \<longleftrightarrow> k \<le> current_generation n rv"
  by (simp add: gen_at_least_def current_generation_def)

lemma durable_gens:
  assumes "durable (gen_at_least n k) rv" and "gens_le rv rv'"
  shows "durable (gen_at_least n k) rv'"
proof -
  have "k \<le> current_generation n rv'"
    using assms unfolding durable_def gens_le_def gen_at_least_current by (meson order_trans)
  with assms show ?thesis by (simp add: durable_def gens_le_def gen_at_least_current)
qed

lemma durable_gens_save:
  assumes "durable (gen_at_least n k) rv" and "gens_le rv rv'" and "rev_inv rv"
  shows "durable (gen_at_least n k) (rev_save rv')"
proof (rule durable_save)
  show "image_ok (rv_generations rv') (rv_revoked rv') (rv_consumed rv')"
    using assms(2,3) unfolding gens_le_def rev_inv_def by blast
  show "gen_at_least n k (rv_generations rv') (rv_revoked rv') (rv_consumed rv')"
    using durable_gens [OF assms(1,2)] by (simp add: durable_def)
qed

lemma gen_at_least_frame: "gen_at_least n k g r c \<Longrightarrow> gen_at_least n k g r' c'"
  by (simp add: gen_at_least_def)

lemma durable_mem_gens:
  "durable (gen_at_least n k) rv \<Longrightarrow> rv_generations rv' = rv_generations rv \<Longrightarrow> rv_path rv' = rv_path rv \<Longrightarrow>
    rv_disk rv' = rv_disk rv \<Longrightarrow> durable (gen_at_least n k) rv'"
  by (auto simp: durable_def gen_at_least_def)

lemma generation_kept:
  assumes inv: "rev_inv rv" and path: "rv_path rv" and d: "durable (gen_at_least n k) rv"
  shows "durable (gen_at_least n k) (rev_apply repr op rv)"
proof -
  have i: "image_ok (rv_generations rv) (rv_revoked rv) (rv_consumed rv)" using inv by (simp add: rev_inv_def)
  have g: "gen_at_least n k (rv_generations rv) r c" for r c using d by (simp add: durable_def gen_at_least_def)
  have p: "image_ok (rv_generations rv) (rv_revoked (rev_purge now rv)) (rv_consumed (rev_purge now rv))" for now
    by (rule image_ok_purge [OF i])
  have dp: "durable (gen_at_least n k) (rev_purge now rv)" for now
    by (rule durable_mem_gens [OF d]) simp_all
  show ?thesis
  proof (cases op)
    case (R_Revoke_Node m)
    have "0 \<le> current_generation m rv" by (rule current_generation_nonneg [OF i])
    then show ?thesis unfolding R_Revoke_Node rev_apply.simps revoke_node_def Let_def fst_conv
      by (intro durable_gens_save [OF d _ inv] gens_le_put) auto
  next
    case (R_Sync m x)
    with d show ?thesis
      by (auto simp: synchronize_generation_def Let_def intro!: durable_gens_save [OF d _ inv] gens_le_put)
  next
    case (R_Merge gens)
    show ?thesis
    proof (cases gens)
      case (JObj items)
      with merge_loop_le [of rv repr items False] show ?thesis
        by (auto simp: R_Merge merge_generations_def Let_def durable_gens [OF d] durable_gens_save [OF d _ inv]
            split: prod.split sum.split)
    qed (use d R_Merge in \<open>simp_all add: merge_generations_def\<close>)
  next
    case (R_Revoke_Ticket now t e)
    have "durable (gen_at_least n k) (rev_save ((rev_purge now rv)\<lparr>rv_consumed := dpop t (rv_consumed (rev_purge now rv)),
        rv_revoked := dput t e' (rv_revoked (rev_purge now rv))\<rparr>))"
      if "known_ticket t (rev_purge now rv) \<or> \<not> rev_full (rev_purge now rv)" for e'
      using image_ok_revoke_ticket [of "rv_generations rv" "rev_purge now rv" t e'] p that g
      by (intro durable_save) simp_all
    with dp show ?thesis by (auto simp: R_Revoke_Ticket revoke_ticket_def Let_def)
  next
    case (R_Consume now t e)
    have "durable (gen_at_least n k) (rev_save ((rev_purge now rv)\<lparr>rv_consumed := dput t e' (rv_consumed (rev_purge now rv))\<rparr>))"
      if "\<not> rev_full (rev_purge now rv)" for e'
      using image_ok_consume [of "rv_generations rv" "rev_purge now rv" t e'] p that g
      by (intro durable_save) simp_all
    with dp show ?thesis by (auto simp: R_Consume consume_ticket_def Let_def)
  next
    case (R_Restart now)
    have "durable (gen_at_least n k) (rev_restart repr now rv)"
      by (rule durable_restart [OF d path]) (simp add: gen_at_least_def dget_sort image_ok_def)
    then show ?thesis by (simp add: R_Restart)
  qed (use dp in \<open>simp_all add: is_ticket_blocked_def is_ticket_revoked_def Let_def\<close>)
qed

text \<open>A ticket known until \<open>u\<close> stays known while the clock has not passed \<open>u\<close>, through restarts, if
  nobody revokes it with an earlier expiry.\<close>

fun rev_clock :: "rev_op \<Rightarrow> time option" where
  "rev_clock (R_Revoke_Ticket now t e) = Some now"
| "rev_clock (R_Consume now t e) = Some now"
| "rev_clock (R_Blocked now t) = Some now"
| "rev_clock (R_Revoked now t) = Some now"
| "rev_clock (R_Restart now) = Some now"
| "rev_clock _ = None"

fun keeps_ticket :: "string \<Rightarrow> int \<Rightarrow> rev_op \<Rightarrow> bool" where
  "keeps_ticket t u (R_Revoke_Ticket now t' e) \<longleftrightarrow> t' = t \<longrightarrow> u \<le> e + retention_grace"
| "keeps_ticket t u _ \<longleftrightarrow> True"

lemma ticket_known_purge:
  assumes "ticket_known t u g (rv_revoked rv) (rv_consumed rv)" and "rev_inv rv" and "py_int now \<le> u"
  shows "ticket_known t u g' (rv_revoked (rev_purge now rv)) (rv_consumed (rev_purge now rv))"
  using assms by (auto simp: ticket_known_def rev_purge_def rev_inv_def image_ok_def dget_keep)

lemma durable_ticket_purge:
  "durable (ticket_known t u) rv \<Longrightarrow> rev_inv rv \<Longrightarrow> py_int now \<le> u \<Longrightarrow> durable (ticket_known t u) (rev_purge now rv)"
  using ticket_known_purge by (auto simp: durable_def)

lemma ticket_known_consume:
  "\<not> known_ticket t' rv \<Longrightarrow> ticket_known t u g (rv_revoked rv) (rv_consumed rv) \<Longrightarrow>
    ticket_known t u g' (rv_revoked rv) (dput t' e (rv_consumed rv))"
  by (auto simp: ticket_known_def known_ticket_def dget_put)

lemma ticket_kept:
  assumes inv: "rev_inv rv" and path: "rv_path rv" and d: "durable (ticket_known t u) rv"
    and keeps: "keeps_ticket t u op" and clock: "\<forall>now. rev_clock op = Some now \<longrightarrow> py_int now \<le> u"
  shows "durable (ticket_known t u) (rev_apply repr op rv)"
proof -
  have i: "image_ok (rv_generations rv) (rv_revoked rv) (rv_consumed rv)" using inv by (simp add: rev_inv_def)
  have known: "ticket_known t u g (rv_revoked rv) (rv_consumed rv)" for g
    using d by (simp add: durable_def ticket_known_def)
  have p: "image_ok (rv_generations rv) (rv_revoked (rev_purge now rv)) (rv_consumed (rev_purge now rv))" for now
    by (rule image_ok_purge [OF i])
  have dp: "durable (ticket_known t u) (rev_purge now rv)" if "py_int now \<le> u" for now
    by (rule durable_ticket_purge [OF d inv that])
  have gens: "durable (ticket_known t u) rv' \<and> durable (ticket_known t u) (rev_save rv')" if "gens_le rv rv'" for rv'
  proof
    show "durable (ticket_known t u) rv'" using that d known by (auto simp: gens_le_def durable_def)
    show "durable (ticket_known t u) (rev_save rv')"
      by (rule durable_save) (use that i known in \<open>auto simp: gens_le_def\<close>)
  qed
  show ?thesis
  proof (cases op)
    case (R_Revoke_Node m)
    have "0 \<le> current_generation m rv" by (rule current_generation_nonneg [OF i])
    then show ?thesis unfolding R_Revoke_Node rev_apply.simps revoke_node_def Let_def fst_conv
      by (intro gens [THEN conjunct2] gens_le_put) auto
  next
    case (R_Sync m x)
    with d show ?thesis
      by (auto simp: synchronize_generation_def Let_def intro!: gens [THEN conjunct2] gens_le_put)
  next
    case (R_Merge gs)
    show ?thesis
    proof (cases gs)
      case (JObj items)
      with merge_loop_le [of rv repr items False] gens d show ?thesis
        by (auto simp: R_Merge merge_generations_def Let_def split: prod.split sum.split)
    qed (use d R_Merge in \<open>simp_all add: merge_generations_def\<close>)
  next
    case (R_Revoke_Ticket now t' e)
    have now: "py_int now \<le> u" using clock R_Revoke_Ticket by simp
    from ticket_known_purge [OF known inv now] keeps R_Revoke_Ticket
    have "ticket_known t u g (dput t' (e + retention_grace) (rv_revoked (rev_purge now rv)))
      (dpop t' (rv_consumed (rev_purge now rv)))" for g
      by (auto simp: ticket_known_def dget_put dget_pop)
    then have "durable (ticket_known t u) (rev_save ((rev_purge now rv)\<lparr>rv_consumed := dpop t' (rv_consumed (rev_purge now rv)),
        rv_revoked := dput t' (e + retention_grace) (rv_revoked (rev_purge now rv))\<rparr>))"
      if "known_ticket t' (rev_purge now rv) \<or> \<not> rev_full (rev_purge now rv)"
      using image_ok_revoke_ticket [of "rv_generations rv" "rev_purge now rv" t' "e + retention_grace"] p that
      by (intro durable_save) simp_all
    with dp [OF now] show ?thesis by (auto simp: R_Revoke_Ticket revoke_ticket_def Let_def)
  next
    case (R_Consume now t' e)
    have now: "py_int now \<le> u" using clock R_Consume by simp
    have "durable (ticket_known t u) (rev_save ((rev_purge now rv)\<lparr>rv_consumed := dput t' e' (rv_consumed (rev_purge now rv))\<rparr>))"
      if "\<not> rev_full (rev_purge now rv)" "\<not> known_ticket t' (rev_purge now rv)" for e'
      using image_ok_consume [of "rv_generations rv" "rev_purge now rv" t' e'] p that
        ticket_known_consume [OF that(2) ticket_known_purge [OF known inv now]]
      by (intro durable_save) simp_all
    with dp [OF now] show ?thesis by (auto simp: R_Consume consume_ticket_def Let_def)
  next
    case (R_Restart now)
    with clock have now: "py_int now \<le> u" by simp
    have "durable (ticket_known t u) (rev_restart repr now rv)"
      by (rule durable_restart [OF d path]) (use now in \<open>auto simp: ticket_known_def dget_sort dget_keep image_ok_def\<close>)
    then show ?thesis by (simp add: R_Restart)
  qed (use dp clock in \<open>simp_all add: is_ticket_blocked_def is_ticket_revoked_def Let_def\<close>)
qed

lemma consumed_durable:
  assumes "rev_inv rv" and "consume_ticket now t e rv = (rv', Inr True)"
  shows "durable (ticket_known t (e + retention_grace)) rv'"
proof -
  let ?p = "rev_purge now rv"
  from assms(2) have "\<not> rev_full ?p" and
    rv': "rv' = rev_save (?p\<lparr>rv_consumed := dput t (e + retention_grace) (rv_consumed ?p)\<rparr>)"
    by (auto simp: consume_ticket_def Let_def split: if_splits)
  then show ?thesis
    using image_ok_consume [of "rv_generations rv" ?p t "e + retention_grace"] image_ok_purge [of "rv_generations rv" rv now] assms(1)
    by (auto simp: rev_inv_def ticket_known_def dget_put intro!: durable_save)
qed

lemma known_not_consumed:
  assumes "rev_inv rv" and "durable (ticket_known t u) rv" and "py_int now \<le> u"
  shows "snd (consume_ticket now t e rv) = Inr False"
proof -
  have "ticket_known t u g (rv_revoked rv) (rv_consumed rv)" for g
    using assms(2) by (simp add: durable_def ticket_known_def)
  from ticket_known_purge [OF this assms(1,3)] have "known_ticket t (rev_purge now rv)"
    by (auto simp: ticket_known_def known_ticket_def)
  then show ?thesis by (simp add: consume_ticket_def Let_def)
qed

lemma merge_loop_path: "merge_loop repr items rv changed = (rv', x) \<Longrightarrow> rv_path rv' = rv_path rv"
  using merge_loop_le [of rv repr items changed] by (simp add: gens_le_def)

lemma rev_path_apply [simp]: "rev_inv rv \<Longrightarrow> rv_path (rev_apply repr op rv) = rv_path rv"
proof (cases op)
  case (R_Merge gs)
  then show ?thesis
    by (cases gs) (auto simp: merge_generations_def Let_def dest: merge_loop_path split: prod.split sum.split)
next
  case (R_Restart now)
  assume inv: "rev_inv rv"
  show ?thesis
  proof (cases "rv_path rv")
    case True
    then show ?thesis
      by (auto simp: R_Restart rev_restart_def rev_load_def Let_def split: rev_file.split json.split sum.split)
  next
    case False
    then show ?thesis by (simp add: R_Restart rev_restart_def rev_load_def)
  qed
qed (auto simp: revoke_node_def synchronize_generation_def revoke_ticket_def consume_ticket_def is_ticket_blocked_def
    is_ticket_revoked_def Let_def)

definition rev_start :: revocations where
  "rev_start = \<lparr>rv_generations = [], rv_revoked = [], rv_consumed = [], rv_path = True, rv_disk = No_File\<rparr>"

lemma rev_inv_start [simp]: "rev_inv rev_start"
  by (simp add: rev_inv_def rev_start_def image_ok_def)

lemma rev_run:
  "rev_inv rv \<Longrightarrow> rev_inv (fold (rev_apply repr) ops rv) \<and> rv_path (fold (rev_apply repr) ops rv) = rv_path rv"
  by (induction ops arbitrary: rv) (auto simp: rev_inv_apply)

section \<open>Properties\<close>

text \<open>C10 (generations never roll back). After a node has been revoked no run of the registry, with merges of stale
  snapshots, failed synchronizations, ticket operations and restarts from the state file in any order, brings its
  ticket generation below the one the revocation returned.\<close>

theorem revoked_generation_kept:
  assumes "rv = fold (rev_apply repr) ops0 rev_start" and "revoke_node node rv = (rv', g)"
    and "rv'' = fold (rev_apply repr) ops rv'"
  shows "g = current_generation node rv + 1 \<and> g \<le> current_generation node rv''"
proof -
  have inv: "rev_inv rv" "rv_path rv" using rev_run [OF rev_inv_start, of repr ops0] by (simp_all add: assms(1) rev_start_def)
  have rv': "rv' = rev_apply repr (R_Revoke_Node node) rv" using assms(2) by simp
  then have inv': "rev_inv rv'" "rv_path rv'" using inv by (simp_all add: rev_inv_apply del: rev_apply.simps)
  have g: "g = current_generation node rv + 1" using assms(2) by (simp add: revoke_node_def Let_def)
  have "durable (gen_at_least node g) rv'"
  proof -
    have "0 \<le> g" using current_generation_nonneg [of rv "rv_revoked rv" "rv_consumed rv" node] inv g by (simp add: rev_inv_def)
    then have "image_ok (dput node g (rv_generations rv)) (rv_revoked rv) (rv_consumed rv)"
      using inv(1) by (intro image_ok_put_gen) (simp_all add: rev_inv_def)
    moreover have "rv' = rev_save (rv\<lparr>rv_generations := dput node g (rv_generations rv)\<rparr>)"
      using assms(2) by (auto simp: revoke_node_def Let_def)
    ultimately show ?thesis by (auto simp: gen_at_least_def dget_put intro!: durable_save)
  qed
  with inv' have "durable (gen_at_least node g) (fold (rev_apply repr) ops rv')"
    by (induction ops arbitrary: rv') (auto simp del: rev_apply.simps simp: rev_inv_apply generation_kept)
  then show ?thesis using g by (simp add: assms(3) durable_def gen_at_least_current)
qed

theorem revoked_generation_kept_witness:
  "1 \<le> current_generation ''n'' (fold (rev_apply (\<lambda>_. []))
     [R_Merge (JObj [(''n'', JInt 0)]), R_Sync ''n'' 0, R_Restart 5] (fst (revoke_node ''n'' rev_start)))"
proof -
  have "revoke_node ''n'' rev_start = (fst (revoke_node ''n'' rev_start), 1)"
    by (simp add: revoke_node_def Let_def current_generation_def rev_start_def)
  from revoked_generation_kept [of rev_start "\<lambda>_. []" "[]", OF _ this refl]
  have "1 \<le> current_generation ''n'' (fold (rev_apply (\<lambda>_. [])) ops (fst (revoke_node ''n'' rev_start)))" for ops
    by simp
  then show ?thesis .
qed

end
