(* ===== verification/Replay_Guard.thy ===== *)
theory Replay_Guard
  imports Py_Prelude
begin

text \<open>
  At most one acceptance. A service that takes operations in the order of a clock promises that what it
  accepted it remembers until a deadline, whatever happens in between, and that it accepts nothing
  after the deadline. The locale's result is that a run accepts at most once. The verifier of cluster tickets
  and the pairing code of the server are interpretations.
\<close>

fun accepted_in :: "('op \<Rightarrow> 's \<Rightarrow> 's) \<Rightarrow> ('op \<Rightarrow> 's \<Rightarrow> bool) \<Rightarrow> 'op list \<Rightarrow> 's \<Rightarrow> nat" where
  "accepted_in step accepts [] s = 0"
| "accepted_in step accepts (x # xs) s = of_bool (accepts x s) + accepted_in step accepts xs (step x s)"

locale replay_guard =
  fixes ok :: "'s \<Rightarrow> bool"
    and allowed :: "'op \<Rightarrow> bool"
    and clock :: "'op \<Rightarrow> int"
    and deadline :: int
    and step :: "'op \<Rightarrow> 's \<Rightarrow> 's"
    and accepts :: "'op \<Rightarrow> 's \<Rightarrow> bool"
    and remembers :: "'s \<Rightarrow> bool"
  assumes ok_step: "ok s \<Longrightarrow> ok (step x s)"
    and accept_remembers: "ok s \<Longrightarrow> accepts x s \<Longrightarrow> remembers (step x s)"
    and remembered_refused: "ok s \<Longrightarrow> remembers s \<Longrightarrow> clock x \<le> deadline \<Longrightarrow> \<not> accepts x s"
    and remembers_step: "ok s \<Longrightarrow> remembers s \<Longrightarrow> allowed x \<Longrightarrow> clock x \<le> deadline \<Longrightarrow> remembers (step x s)"
    and late_refused: "ok s \<Longrightarrow> deadline < clock x \<Longrightarrow> \<not> accepts x s"
begin

lemma late_none: "ok s \<Longrightarrow> \<forall>x \<in> set xs. deadline < clock x \<Longrightarrow> accepted_in step accepts xs s = 0"
  by (induction xs arbitrary: s) (auto simp: late_refused ok_step)

lemma remembered_none:
  "ok s \<Longrightarrow> remembers s \<Longrightarrow> sorted (map clock xs) \<Longrightarrow> list_all allowed xs \<Longrightarrow> accepted_in step accepts xs s = 0"
proof (induction xs arbitrary: s)
  case Nil
  then show ?case by simp
next
  case (Cons x xs)
  show ?case
  proof (cases "clock x \<le> deadline")
    case True
    with Cons show ?thesis by (simp add: remembered_refused remembers_step ok_step)
  next
    case False
    with Cons.prems have "\<forall>y \<in> set (x # xs). deadline < clock y" by auto
    with Cons.prems(1) show ?thesis by (rule late_none)
  qed
qed

theorem at_most_once:
  "ok s \<Longrightarrow> sorted (map clock xs) \<Longrightarrow> list_all allowed xs \<Longrightarrow> accepted_in step accepts xs s \<le> 1"
proof (induction xs arbitrary: s)
  case Nil
  then show ?case by simp
next
  case (Cons x xs)
  then show ?case
    using remembered_none [of "step x s" xs] accept_remembers [of s x]
    by (cases "accepts x s") (simp_all add: ok_step)
qed

end

end
