(* ===== verification/Py_Codec.thy ===== *)
theory Py_Codec
  imports Py_Json
begin

text \<open>
  Encodings of the Python standard library: \<open>base64\<close> over bytes (a byte is a character, as in
  \<open>latin-1\<close>), \<open>posixpath.normpath\<close> and \<open>str.upper\<close>. Capitals outside Latin-1 (of the micro sign and
  of y with diaeresis) are left alone.
\<close>

section \<open>Base64\<close>

definition b64_alphabet :: "char \<Rightarrow> char \<Rightarrow> string" where
  "b64_alphabet c62 c63 = ''ABCDEFGHIJKLMNOPQRSTUVWXYZabcdefghijklmnopqrstuvwxyz0123456789'' @ [c62, c63]"

definition b64_char :: "char \<Rightarrow> char \<Rightarrow> nat \<Rightarrow> char" where
  "b64_char c62 c63 n = b64_alphabet c62 c63 ! n"

text \<open>With other characters for 62 and 63 the standard ones are still accepted.\<close>

definition b64_val :: "char \<Rightarrow> char \<Rightarrow> char \<Rightarrow> nat option" where
  "b64_val c62 c63 c =
     (case map_of (zip (b64_alphabet c62 c63) [0 ..< 64]) c of
        Some n \<Rightarrow> Some n
      | None \<Rightarrow> if c = CHR ''+'' then Some 62 else if c = CHR ''/'' then Some 63 else None)"

text \<open>The digits of the text without its padding.\<close>

fun b64_digits :: "nat list \<Rightarrow> nat list" where
  "b64_digits [] = []"
| "b64_digits [a] = [a div 4, a mod 4 * 16]"
| "b64_digits [a, b] = [a div 4, a mod 4 * 16 + b div 16, b mod 16 * 4]"
| "b64_digits (a # b # c # bs) =
     a div 4 # (a mod 4 * 16 + b div 16) # (b mod 16 * 4 + c div 64) # c mod 64 # b64_digits bs"

fun b64_bytes :: "nat list \<Rightarrow> nat list option" where
  "b64_bytes [] = Some []"
| "b64_bytes [p] = None"
| "b64_bytes [p, q] = Some [p * 4 + q div 16]"
| "b64_bytes [p, q, r] = Some [p * 4 + q div 16, q mod 16 * 16 + r div 4]"
| "b64_bytes (p # q # r # s # ds) =
     map_option (\<lambda>bs. (p * 4 + q div 16) # (q mod 16 * 16 + r div 4) # (r mod 4 * 64 + s) # bs) (b64_bytes ds)"

definition b64_unpadded :: "char \<Rightarrow> char \<Rightarrow> string \<Rightarrow> string" where
  "b64_unpadded c62 c63 bs = map (b64_char c62 c63) (b64_digits (map code bs))"

definition b64_pad :: "string \<Rightarrow> string" where
  "b64_pad s = s @ replicate ((4 - length s mod 4) mod 4) (CHR ''='')"

definition b64encode :: "char \<Rightarrow> char \<Rightarrow> string \<Rightarrow> string" where
  "b64encode c62 c63 bs = b64_pad (b64_unpadded c62 c63 bs)"

text \<open>\<open>b64decode(s, altchars, validate=True)\<close>: the length is a multiple of four, at most two padding
  characters stand at the end and every other character is a digit.\<close>

definition b64decode :: "char \<Rightarrow> char \<Rightarrow> string \<Rightarrow> string option" where
  "b64decode c62 c63 s =
     (let body = rstrip_of ''='' s; pad = length s - length body
      in if length s mod 4 \<noteq> 0 \<or> 2 < pad then None
         else if \<not> list_all (\<lambda>c. b64_val c62 c63 c \<noteq> None) body then None
         else map_option (map char_of) (b64_bytes (map (\<lambda>c. the (b64_val c62 c63 c)) body)))"

lemma code_less [simp]: "code c < 256"
  by (simp add: code_def)

lemma char_of_code [simp]: "char_of (code c) = c"
  by (simp add: code_def)

lemma code_char_of: "n < 256 \<Longrightarrow> code (char_of n) = n"
  by (simp add: code_def)

lemma b64_alphabet_distinct:
  assumes "c62 \<in> set ''+-''" and "c63 \<in> set ''/_''"
  shows "distinct (b64_alphabet c62 c63)" and "length (b64_alphabet c62 c63) = 64"
    and "set (b64_alphabet c62 c63) \<inter> set ''. ='' = {}"
  using assms by (auto simp: b64_alphabet_def)

lemma b64_val_char:
  assumes "n < 64" and "c62 \<in> set ''+-''" and "c63 \<in> set ''/_''"
  shows "b64_val c62 c63 (b64_char c62 c63 n) = Some n" and "b64_char c62 c63 n \<notin> set ''. =''"
proof -
  note a = b64_alphabet_distinct [OF assms(2,3)]
  from a assms(1) map_of_zip_nth [of "b64_alphabet c62 c63" "[0 ..< 64]" n]
  show "b64_val c62 c63 (b64_char c62 c63 n) = Some n" by (simp add: b64_val_def b64_char_def)
  from a(2) assms(1) have "b64_char c62 c63 n \<in> set (b64_alphabet c62 c63)" by (simp add: b64_char_def)
  with a(3) show "b64_char c62 c63 n \<notin> set ''. =''" by blast
qed

lemma b64_digits_less: "list_all (\<lambda>n. n < 256) bs \<Longrightarrow> list_all (\<lambda>n. n < 64) (b64_digits bs)"
proof (induction bs rule: b64_digits.induct)
  case (4 a b c bs)
  then show ?case
    by (simp add: div_less_mono) (auto simp: mod_simps)
qed auto

lemma b64_bytes_digits: "list_all (\<lambda>n. n < 256) bs \<Longrightarrow> b64_bytes (b64_digits bs) = Some bs"
  by (induction bs rule: b64_digits.induct) (auto simp: mod_mult_self4)

lemma rstrip_pad: "CHR ''='' \<notin> set s \<Longrightarrow> rstrip_of ''='' (s @ replicate n (CHR ''='')) = s"
  by (cases s rule: rev_cases) (auto simp: rstrip_of_def dropWhile_append)

lemma length_b64_digits: "length (b64_digits bs) mod 4 \<in> {0, 2, 3}"
  by (induction bs rule: b64_digits.induct) auto

lemma b64_char_other:
  assumes "list_all (\<lambda>n. n < 64) ns" and "c62 \<in> set ''+-''" and "c63 \<in> set ''/_''"
    and "c \<in> set (map (b64_char c62 c63) ns)"
  shows "c \<notin> set ''. =''"
proof -
  from assms(1,4) obtain n where "n < 64" "c = b64_char c62 c63 n" by (auto simp: list_all_iff)
  with b64_val_char(2) [OF _ assms(2,3)] show ?thesis by blast
qed

lemma map_the_b64_val:
  assumes "list_all (\<lambda>n. n < 64) ns" and "c62 \<in> set ''+-''" and "c63 \<in> set ''/_''"
  shows "map (\<lambda>c. the (b64_val c62 c63 c)) (map (b64_char c62 c63) ns) = ns"
    and "list_all (\<lambda>c. b64_val c62 c63 c \<noteq> None) (map (b64_char c62 c63) ns)"
    and "CHR ''='' \<notin> set (map (b64_char c62 c63) ns)"
proof -
  show "map (\<lambda>c. the (b64_val c62 c63 c)) (map (b64_char c62 c63) ns) = ns"
    "list_all (\<lambda>c. b64_val c62 c63 c \<noteq> None) (map (b64_char c62 c63) ns)"
    using assms(1) by (induction ns) (simp_all add: b64_val_char(1) [OF _ assms(2,3)])
  show "CHR ''='' \<notin> set (map (b64_char c62 c63) ns)"
    using b64_char_other [OF assms, of "CHR ''=''"] by auto
qed

lemma map_char_of_code [simp]: "map (char_of \<circ> code) s = s"
  by (induction s) auto

lemma b64_decode_pad_unpadded:
  assumes "c62 \<in> set ''+-''" and "c63 \<in> set ''/_''"
  shows "b64decode c62 c63 (b64_pad (b64_unpadded c62 c63 bs)) = Some bs"
proof -
  let ?ds = "b64_digits (map code bs)" and ?t = "b64_unpadded c62 c63 bs"
  have less: "list_all (\<lambda>n. n < 256) (map code bs)" by (simp add: list_all_iff)
  note ds = b64_digits_less [OF less] b64_bytes_digits [OF less]
  note t = map_the_b64_val [OF ds(1) assms, folded b64_unpadded_def]
  let ?k = "(4 - length ?t mod 4) mod 4"
  have k: "?k \<le> 2" "(length ?t + ?k) mod 4 = 0"
    using length_b64_digits [of "map code bs"] by (auto simp: b64_unpadded_def mod_Suc)
  show ?thesis
    using k t ds(2) rstrip_pad [OF t(3), of ?k]
    by (simp add: b64decode_def b64_pad_def Let_def)
qed

lemma b64_roundtrip:
  "c62 \<in> set ''+-'' \<Longrightarrow> c63 \<in> set ''/_'' \<Longrightarrow> b64decode c62 c63 (b64encode c62 c63 bs) = Some bs"
  by (simp add: b64encode_def b64_decode_pad_unpadded)

lemma rstrip_b64encode:
  assumes "c62 \<in> set ''+-''" and "c63 \<in> set ''/_''"
  shows "rstrip_of ''='' (b64encode c62 c63 bs) = b64_unpadded c62 c63 bs"
proof -
  have "list_all (\<lambda>n. n < 64) (b64_digits (map code bs))"
    by (rule b64_digits_less) (simp add: list_all_iff)
  from rstrip_pad [OF map_the_b64_val(3) [OF this assms]] show ?thesis
    by (simp add: b64encode_def b64_pad_def b64_unpadded_def)
qed

text \<open>The text of an encoding contains none of the characters a token is split at.\<close>

lemma b64_unpadded_chars:
  assumes "c62 \<in> set ''+-''" and "c63 \<in> set ''/_''"
  shows "set (b64_unpadded c62 c63 bs) \<inter> set ''. ='' = {}"
proof -
  have "list_all (\<lambda>n. n < 64) (b64_digits (map code bs))"
    by (rule b64_digits_less) (simp add: list_all_iff)
  from b64_char_other [OF this assms] show ?thesis
    unfolding b64_unpadded_def by (intro equals0I) blast
qed

section \<open>Paths and capitals\<close>

text \<open>\<open>posixpath.normpath\<close>: exactly two leading slashes are kept, as POSIX allows.\<close>

fun norm_comps :: "bool \<Rightarrow> string list \<Rightarrow> string list \<Rightarrow> string list" where
  "norm_comps rooted acc [] = rev acc"
| "norm_comps rooted acc (c # cs) =
     (if c = [] \<or> c = ''.'' then norm_comps rooted acc cs
      else if c \<noteq> ''..'' \<or> (\<not> rooted \<and> acc = []) \<or> (acc \<noteq> [] \<and> hd acc = ''..'') then norm_comps rooted (c # acc) cs
      else if acc \<noteq> [] then norm_comps rooted (tl acc) cs
      else norm_comps rooted acc cs)"

definition initial_slashes :: "string \<Rightarrow> nat" where
  "initial_slashes p =
     (if \<not> starts_with p ''/'' then 0 else if starts_with p ''//'' \<and> \<not> starts_with p ''///'' then 2 else 1)"

definition normpath :: "string \<Rightarrow> string" where
  "normpath p =
     (if p = [] then ''.''
      else (let n = initial_slashes p;
                s = replicate n (CHR ''/'') @ join_with ''/'' (norm_comps (0 < n) [] (split_on (CHR ''/'') p))
            in if s = [] then ''.'' else s))"

definition upper_of :: "char \<Rightarrow> string" where
  "upper_of c = (let n = code c in
     if 97 \<le> n \<and> n \<le> 122 \<or> 224 \<le> n \<and> n \<le> 254 \<and> n \<noteq> 247 then [char_of (n - 32)]
     else if n = 223 then ''SS'' else [c])"

definition str_upper :: "string \<Rightarrow> string" where
  "str_upper s = concat (map upper_of s)"

lemma set_tl: "x \<in> set (tl xs) \<Longrightarrow> x \<in> set xs"
  by (cases xs) auto

definition proper_comp :: "string \<Rightarrow> bool" where
  "proper_comp c \<longleftrightarrow> c \<noteq> [] \<and> c \<noteq> ''.'' \<and> c \<noteq> ''..''"

lemma norm_comps_proper: "list_all proper_comp acc \<Longrightarrow> list_all proper_comp (norm_comps True acc cs)"
proof (induction cs arbitrary: acc)
  case Nil
  then show ?case by (simp add: list_all_iff)
next
  case (Cons c cs)
  consider "c = [] \<or> c = ''.''" | "proper_comp c" | "c = ''..''"
    by (auto simp: proper_comp_def)
  then show ?case
  proof cases
    case 1
    with Cons show ?thesis by simp
  next
    case 2
    then have "norm_comps True acc (c # cs) = norm_comps True (c # acc) cs" by (simp add: proper_comp_def)
    with 2 Cons show ?thesis by simp
  next
    case 3
    with Cons.prems have "norm_comps True acc (c # cs) = norm_comps True (tl acc) cs"
      by (cases acc) (simp_all add: proper_comp_def)
    moreover have "list_all proper_comp (tl acc)" using Cons.prems by (cases acc) simp_all
    ultimately show ?thesis using Cons.IH by simp
  qed
qed

lemma norm_comps_subset: "set (norm_comps b acc cs) \<subseteq> set acc \<union> set cs"
proof (induction cs arbitrary: acc)
  case (Cons c cs)
  have "set (tl acc) \<subseteq> set acc" by (auto dest: set_tl)
  then show ?case using Cons.IH [of acc] Cons.IH [of "tl acc"] Cons.IH [of "c # acc"] by auto
qed simp

end
