(* ===== verification/Cluster_Tickets.thy ===== *)
theory Cluster_Tickets
  imports Cluster_Revocation Replay_Guard Py_Codec
begin

text \<open>
  Cluster stream tickets (\<^verbatim>\<open>core/cluster/models.py\<close>, \<^verbatim>\<open>core/cluster/tickets.py\<close>): the claims and their JSON
  form, the binding of a ticket to one request, issue and verification. The signature scheme is
  a parameter (\<open>sign\<close>, \<open>check\<close>: the third-party Ed25519 keys), and so is the text of JSON
  (\<open>dumps\<close>, \<open>loads\<close>, with the UTF-8 coding of the payload); Base64 and the state of the verifier's registry are
  modelled.
\<close>

section \<open>Claims\<close>

record byte_range =
  br_start :: int
  br_end :: int

definition mk_range :: "int \<Rightarrow> int \<Rightarrow> py_error + byte_range" where
  "mk_range a b = (if a < 0 \<or> b < a then Inl Value_Error else Inr \<lparr>br_start = a, br_end = b\<rparr>)"

definition range_json :: "byte_range option \<Rightarrow> json" where
  "range_json r = (case r of None \<Rightarrow> JNull
     | Some r \<Rightarrow> JObj [(''end'', JInt (br_end r)), (''start'', JInt (br_start r))])"

definition jitem :: "jobj \<Rightarrow> string \<Rightarrow> py_error + json" where
  "jitem ob k = (case map_of ob k of None \<Rightarrow> Inl Key_Error | Some v \<Rightarrow> Inr v)"

definition int_item :: "jobj \<Rightarrow> string \<Rightarrow> py_error + int" where
  "int_item ob k = (case jitem ob k of Inl e \<Rightarrow> Inl e | Inr v \<Rightarrow> to_int v)"

definition range_of_json :: "json \<Rightarrow> py_error + byte_range option" where
  "range_of_json v = (case v of JNull \<Rightarrow> Inr None
     | JObj ob \<Rightarrow>
         (case int_item ob ''start'' of Inl e \<Rightarrow> Inl e
          | Inr a \<Rightarrow> (case int_item ob ''end'' of Inl e \<Rightarrow> Inl e
          | Inr b \<Rightarrow> (case mk_range a b of Inl e \<Rightarrow> Inl e | Inr r \<Rightarrow> Inr (Some r))))
     | _ \<Rightarrow> Inl Value_Error)"

record claims =
  cl_id :: string
  cl_cluster :: string
  cl_issuer :: string
  cl_audience :: string
  cl_device :: string
  cl_method :: string
  cl_path :: string
  cl_range :: "byte_range option"
  cl_protected :: bool
  cl_issued :: int
  cl_not_before :: int
  cl_expires :: int
  cl_generation :: int
  cl_cursor :: string
  cl_limit :: int
  cl_params :: jobj
  cl_version :: int

text \<open>\<open>to_dict\<close>, with the keys in the order \<open>json.dumps(sort_keys=True)\<close> writes them.\<close>

definition claims_json :: "claims \<Rightarrow> json" where
  "claims_json c = JObj
     [(''aud'', JStr (cl_audience c)), (''cluster'', JStr (cl_cluster c)), (''cursor'', JStr (cl_cursor c)),
      (''exp'', JInt (cl_expires c)), (''generation'', JInt (cl_generation c)), (''iat'', JInt (cl_issued c)),
      (''iss'', JStr (cl_issuer c)), (''jti'', JStr (cl_id c)), (''limit'', JInt (cl_limit c)),
      (''method'', JStr (cl_method c)), (''nbf'', JInt (cl_not_before c)), (''params'', JObj (cl_params c)),
      (''path'', JStr (cl_path c)), (''protected'', JBool (cl_protected c)), (''range'', range_json (cl_range c)),
      (''sub'', JStr (cl_device c)), (''v'', JInt (cl_version c))]"

definition or_default :: "json \<Rightarrow> json \<Rightarrow> json" where
  "or_default v dflt = (if truthy v then v else dflt)"

text \<open>The fields that must be there, as text; then the whole of \<open>from_dict\<close>, left to right.\<close>

fun str_items :: "(json \<Rightarrow> string) \<Rightarrow> jobj \<Rightarrow> string list \<Rightarrow> py_error + string list" where
  "str_items repr ob [] = Inr []"
| "str_items repr ob (k # ks) =
     (case jitem ob k of Inl e \<Rightarrow> Inl e
      | Inr v \<Rightarrow> (case str_items repr ob ks of Inl e \<Rightarrow> Inl e | Inr vs \<Rightarrow> Inr (to_str repr v # vs)))"

fun int_items :: "jobj \<Rightarrow> string list \<Rightarrow> py_error + int list" where
  "int_items ob [] = Inr []"
| "int_items ob (k # ks) =
     (case int_item ob k of Inl e \<Rightarrow> Inl e
      | Inr n \<Rightarrow> (case int_items ob ks of Inl e \<Rightarrow> Inl e | Inr ns \<Rightarrow> Inr (n # ns)))"

definition claims_of_json :: "(json \<Rightarrow> string) \<Rightarrow> json \<Rightarrow> py_error + claims" where
  "claims_of_json repr value =
     (case value of
        JObj ob \<Rightarrow>
          (case int_item ob ''v'' of Inl e \<Rightarrow> Inl e
           | Inr version \<Rightarrow>
          (case str_items repr ob [''jti'', ''cluster'', ''iss'', ''aud'', ''sub'', ''method'', ''path''] of Inl e \<Rightarrow> Inl e
           | Inr ss \<Rightarrow>
          (case range_of_json (jget ob ''range'') of Inl e \<Rightarrow> Inl e
           | Inr rg \<Rightarrow>
          (case int_items ob [''iat'', ''nbf'', ''exp'', ''generation''] of Inl e \<Rightarrow> Inl e
           | Inr ns \<Rightarrow>
          (case to_int (or_default (jget ob ''limit'') (JInt 0)) of Inl e \<Rightarrow> Inl e
           | Inr limit \<Rightarrow>
          (case to_dict repr (or_default (jget ob ''params'') (JObj [])) of Inl e \<Rightarrow> Inl e
           | Inr params \<Rightarrow>
             Inr \<lparr>cl_id = ss ! 0, cl_cluster = ss ! 1, cl_issuer = ss ! 2, cl_audience = ss ! 3, cl_device = ss ! 4,
                  cl_method = ss ! 5, cl_path = ss ! 6, cl_range = rg,
                  cl_protected = (jget ob ''protected'' = JBool True),
                  cl_issued = ns ! 0, cl_not_before = ns ! 1, cl_expires = ns ! 2, cl_generation = ns ! 3,
                  cl_cursor = to_str repr (or_default (jget ob ''cursor'') (JStr [])), cl_limit = limit,
                  cl_params = params, cl_version = version\<rparr>))))))
      | _ \<Rightarrow> Inl Value_Error)"

section \<open>Request binding\<close>

definition same_keys :: "jobj \<Rightarrow> string list \<Rightarrow> bool" where
  "same_keys ob ks \<longleftrightarrow> set (dkeys ob) = set ks"

definition int_between :: "int \<Rightarrow> int \<Rightarrow> jobj \<Rightarrow> string \<Rightarrow> py_error + int" where
  "int_between lo hi ob k =
     (case int_item ob k of Inl e \<Rightarrow> Inl e | Inr n \<Rightarrow> if lo \<le> n \<and> n \<le> hi then Inr n else Inl Value_Error)"

definition normalize_resource_params :: "string \<Rightarrow> jobj \<Rightarrow> py_error + jobj" where
  "normalize_resource_params method params =
     (if method = ''THUMBNAIL'' then
        (if \<not> same_keys params [''width'', ''height''] then Inl Value_Error
         else (case int_between 1 600 params ''width'' of Inl e \<Rightarrow> Inl e
               | Inr w \<Rightarrow> (case int_between 1 600 params ''height'' of Inl e \<Rightarrow> Inl e
               | Inr hgt \<Rightarrow> Inr [(''height'', JInt hgt), (''width'', JInt w)])))
      else if method = ''WAVEFORM'' then
        (if \<not> same_keys params [''samples''] then Inl Value_Error
         else (case int_between 32 4096 params ''samples'' of Inl e \<Rightarrow> Inl e
               | Inr n \<Rightarrow> Inr [(''samples'', JInt n)]))
      else if params \<noteq> [] then Inl Value_Error
      else Inr [])"

definition normalize_ticket_path :: "bool \<Rightarrow> string \<Rightarrow> py_error + string" where
  "normalize_ticket_path allow_root path =
     (if \<not> starts_with path ''/'' \<or> CHR 0x00 \<in> set path \<or> CHR 0x5C \<in> set path then Inl Value_Error
      else if normpath path \<noteq> path \<or> (normpath path = ''/'' \<and> \<not> allow_root) \<or> ''..'' \<in> set (split_on (CHR ''/'') path)
      then Inl Value_Error
      else Inr path)"

definition derived_methods :: "string list" where
  "derived_methods = [''ART'', ''MEDIA_ANALYSIS'', ''THUMBNAIL'', ''WAVEFORM'', ''LYRICS'']"

definition default_ttl :: int where "default_ttl = 60"
definition max_ttl :: int where "max_ttl = 120"
definition clock_skew :: int where "clock_skew = 5"
definition max_batch :: nat where "max_batch = 4"
definition max_token_bytes :: nat where "max_token_bytes = 8192"

definition b64url :: "string \<Rightarrow> string" where
  "b64url bs = rstrip_of ''='' (b64encode (CHR ''-'') (CHR ''_'') bs)"

definition b64url_decode :: "string \<Rightarrow> string option" where
  "b64url_decode text = b64decode (CHR ''-'') (CHR ''_'') (b64_pad text)"

section \<open>Issue\<close>

record ticket_request =
  tr_cluster :: string
  tr_issuer :: string
  tr_audience :: string
  tr_device :: string
  tr_method :: string
  tr_path :: string
  tr_range :: "byte_range option"
  tr_protected :: bool
  tr_generation :: int
  tr_ttl :: int
  tr_cursor :: string
  tr_limit :: int
  tr_params :: jobj

definition pagination_ok :: "string \<Rightarrow> byte_range option \<Rightarrow> string \<Rightarrow> int \<Rightarrow> bool" where
  "pagination_ok method rg cursor limit =
     (if method = ''LIST'' then rg = None \<and> 1 \<le> limit \<and> limit \<le> 100 \<and> length cursor \<le> 4096
      else if method \<in> set derived_methods \<and> rg \<noteq> None then False
      else cursor = [] \<and> limit = 0)"

definition issue_claims :: "string \<Rightarrow> time \<Rightarrow> ticket_request \<Rightarrow> py_error + claims" where
  "issue_claims ticket_id clock q =
     (let method = str_upper (tr_method q); now = py_int clock
      in if tr_ttl q < 1 \<or> max_ttl < tr_ttl q then Inl Value_Error
         else if method \<notin> set ([''GET'', ''HEAD'', ''LIST''] @ derived_methods) then Inl Value_Error
         else if \<not> pagination_ok method (tr_range q) (tr_cursor q) (tr_limit q) then Inl Value_Error
         else (case normalize_resource_params method (tr_params q) of Inl e \<Rightarrow> Inl e
               | Inr params \<Rightarrow>
                   if list_ex (\<lambda>v. str_strip v = [] \<or> 128 < length v)
                        [tr_cluster q, tr_issuer q, tr_audience q, tr_device q] then Inl Value_Error
                   else (case normalize_ticket_path (method = ''LIST'') (tr_path q) of Inl e \<Rightarrow> Inl e
                         | Inr path \<Rightarrow>
                             Inr \<lparr>cl_id = ticket_id, cl_cluster = tr_cluster q, cl_issuer = tr_issuer q,
                                  cl_audience = tr_audience q, cl_device = tr_device q, cl_method = method,
                                  cl_path = path, cl_range = tr_range q, cl_protected = tr_protected q,
                                  cl_issued = now, cl_not_before = now, cl_expires = now + tr_ttl q,
                                  cl_generation = max 0 (tr_generation q), cl_cursor = tr_cursor q,
                                  cl_limit = tr_limit q, cl_params = params, cl_version = 1\<rparr>)))"

definition token_text :: "(json \<Rightarrow> string) \<Rightarrow> (string \<Rightarrow> string) \<Rightarrow> claims \<Rightarrow> string" where
  "token_text dumps sign c =
     (let payload = dumps (claims_json c) in ''nst1.'' @ b64url payload @ ''.'' @ b64url (sign payload))"

definition issue_ticket ::
    "(json \<Rightarrow> string) \<Rightarrow> (string \<Rightarrow> string) \<Rightarrow> string \<Rightarrow> time \<Rightarrow> ticket_request \<Rightarrow> py_error + string" where
  "issue_ticket dumps sign ticket_id clock q =
     (case issue_claims ticket_id clock q of Inl e \<Rightarrow> Inl e | Inr c \<Rightarrow> Inr (token_text dumps sign c))"

text \<open>\<open>issue_batch\<close>: one random identifier and one clock reading per request; the first error ends it.\<close>

fun issue_all ::
    "(json \<Rightarrow> string) \<Rightarrow> (string \<Rightarrow> string) \<Rightarrow> (string \<times> time) list \<Rightarrow> ticket_request list \<Rightarrow> py_error + string list" where
  "issue_all dumps sign draws [] = Inr []"
| "issue_all dumps sign [] (q # qs) = Inr []"
| "issue_all dumps sign ((i, clock) # draws) (q # qs) =
     (case issue_ticket dumps sign i clock q of Inl e \<Rightarrow> Inl e
      | Inr t \<Rightarrow> (case issue_all dumps sign draws qs of Inl e \<Rightarrow> Inl e | Inr ts \<Rightarrow> Inr (t # ts)))"

definition issue_batch ::
    "(json \<Rightarrow> string) \<Rightarrow> (string \<Rightarrow> string) \<Rightarrow> (string \<times> time) list \<Rightarrow> ticket_request list \<Rightarrow> py_error + string list" where
  "issue_batch dumps sign draws qs =
     (if \<not> (1 \<le> length qs \<and> length qs \<le> max_batch) then Inl Value_Error else issue_all dumps sign draws qs)"

section \<open>Verification\<close>

datatype ticket_error =
  Malformed | Invalid_Signature | Expired | Not_Yet_Valid | Wrong_Audience | Wrong_Device | Wrong_Request | Revoked
| Replayed | Unsupported_Version | Cache_Full

record verifier =
  vf_cluster :: string
  vf_issuer :: string
  vf_revocations :: revocations

definition set_issuer_node_id :: "string \<Rightarrow> verifier \<Rightarrow> verifier \<times> (py_error + unit)" where
  "set_issuer_node_id node vf =
     (let v = str_strip node
      in if v = [] \<or> 128 < length v then (vf, Inl Value_Error) else (vf\<lparr>vf_issuer := v\<rparr>, Inr ()))"

definition utf8_length :: "string \<Rightarrow> nat" where
  "utf8_length s = sum_list (map (\<lambda>c. if code c < 128 then 1 else 2) s)"

definition verify_signature ::
    "(json \<Rightarrow> string) \<Rightarrow> (string \<Rightarrow> json option) \<Rightarrow> (string \<Rightarrow> string \<Rightarrow> bool) \<Rightarrow> string \<Rightarrow> ticket_error + claims" where
  "verify_signature repr loads check token =
     (if max_token_bytes < utf8_length token then Inl Malformed
      else (case split_on (CHR ''.'') token of
              [prefix, payload_text, signature_text] \<Rightarrow>
                if prefix \<noteq> ''nst1'' then Inl Malformed
                else (case (b64url_decode payload_text, b64url_decode signature_text) of
                        (Some payload, Some sig) \<Rightarrow>
                          if \<not> check sig payload then Inl Invalid_Signature
                          else (case loads payload of None \<Rightarrow> Inl Malformed
                                | Some v \<Rightarrow> (case claims_of_json repr v of Inl e \<Rightarrow> Inl Malformed | Inr c \<Rightarrow> Inr c))
                      | _ \<Rightarrow> Inl Malformed)
            | _ \<Rightarrow> Inl Malformed))"

text \<open>The request a ticket is presented for.\<close>

record presented =
  pr_audience :: string
  pr_device :: string
  pr_method :: string
  pr_path :: string
  pr_range :: "byte_range option"
  pr_protected :: bool
  pr_cursor :: string
  pr_limit :: int
  pr_params :: jobj

text \<open>Every check of \<open>verify_and_consume\<close> before it touches the registry, in the code's order.\<close>

definition check_claims :: "string \<Rightarrow> string \<Rightarrow> int \<Rightarrow> presented \<Rightarrow> claims \<Rightarrow> ticket_error option" where
  "check_claims cluster issuer now q c =
     (let method = str_upper (pr_method q)
      in if cl_version c \<noteq> 1 then Some Unsupported_Version
         else (case (normalize_resource_params (cl_method c) (cl_params c), normalize_resource_params method (pr_params q)) of
            (Inr claim_params, Inr request_params) \<Rightarrow>
              if cl_not_before c < cl_issued c \<or> cl_expires c \<le> cl_not_before c \<or> max_ttl < cl_expires c - cl_issued c
              then Some Malformed
              else if now + clock_skew < cl_not_before c then Some Not_Yet_Valid
              else if cl_expires c < now - clock_skew then Some Expired
              else if cl_audience c \<noteq> pr_audience q then Some Wrong_Audience
              else if cl_cluster c \<noteq> cluster \<or> cl_issuer c \<noteq> issuer then Some Invalid_Signature
              else if cl_device c \<noteq> pr_device q then Some Wrong_Device
              else (case normalize_ticket_path (method = ''LIST'') (pr_path q) of
                      Inl e \<Rightarrow> Some Wrong_Request
                    | Inr requested \<Rightarrow>
                        if cl_method c \<noteq> method \<or> cl_path c \<noteq> requested \<or> cl_range c \<noteq> pr_range q
                           \<or> cl_cursor c \<noteq> pr_cursor q \<or> cl_limit c \<noteq> pr_limit q \<or> claim_params \<noteq> request_params
                           \<or> (pr_protected q \<and> \<not> cl_protected c)
                        then Some Wrong_Request
                        else if cl_method c \<in> set derived_methods \<and> cl_expires c - cl_issued c \<noteq> default_ttl
                        then Some Malformed
                        else if cl_method c \<in> set derived_methods \<and> cl_range c \<noteq> None then Some Wrong_Request
                        else None)
          | _ \<Rightarrow> Some Wrong_Request))"

definition consume_claims :: "time \<Rightarrow> string \<Rightarrow> claims \<Rightarrow> revocations \<Rightarrow> revocations \<times> (ticket_error + claims)" where
  "consume_claims now audience c rv =
     (let rv = (if current_generation audience rv < cl_generation c
                then fst (synchronize_generation audience (cl_generation c) rv) else rv)
      in if cl_generation c < current_generation audience rv then (rv, Inl Revoked)
         else (case is_ticket_revoked now (cl_id c) rv of (rv, revoked) \<Rightarrow>
           if revoked then (rv, Inl Revoked)
           else (case consume_ticket now (cl_id c) (cl_expires c) rv of
                   (rv, Inl e) \<Rightarrow> (rv, Inl Cache_Full)
                 | (rv, Inr consumed) \<Rightarrow> if consumed then (rv, Inr c) else (rv, Inl Replayed))))"

definition verify_and_consume ::
    "(json \<Rightarrow> string) \<Rightarrow> (string \<Rightarrow> json option) \<Rightarrow> (string \<Rightarrow> string \<Rightarrow> bool) \<Rightarrow> time \<Rightarrow> string \<Rightarrow> presented \<Rightarrow>
     verifier \<Rightarrow> verifier \<times> (ticket_error + claims)" where
  "verify_and_consume repr loads check now token q vf =
     (case verify_signature repr loads check token of Inl e \<Rightarrow> (vf, Inl e)
      | Inr c \<Rightarrow>
          (case check_claims (vf_cluster vf) (vf_issuer vf) (py_int now) q c of Some e \<Rightarrow> (vf, Inl e)
           | None \<Rightarrow>
               (case consume_claims now (pr_audience q) c (vf_revocations vf) of (rv, res) \<Rightarrow>
                  (vf\<lparr>vf_revocations := rv\<rparr>, res))))"

section \<open>Runs of a verifier\<close>

datatype vf_op =
    V_Verify time string presented
  | V_Issuer time string
  | V_Registry time rev_op

text \<open>A node's steps in the order of its clock: the registry's own operations read that clock.\<close>

fun vf_time :: "vf_op \<Rightarrow> int" where
  "vf_time (V_Verify now token q) = py_int now"
| "vf_time (V_Issuer now node) = py_int now"
| "vf_time (V_Registry now op) = py_int now"

fun vf_wf :: "vf_op \<Rightarrow> bool" where
  "vf_wf (V_Registry now op) \<longleftrightarrow> rev_clock op \<in> {None, Some now}"
| "vf_wf _ \<longleftrightarrow> True"

fun vf_apply ::
    "(json \<Rightarrow> string) \<Rightarrow> (string \<Rightarrow> json option) \<Rightarrow> (string \<Rightarrow> string \<Rightarrow> bool) \<Rightarrow> vf_op \<Rightarrow> verifier \<Rightarrow> verifier" where
  "vf_apply repr loads check (V_Verify now token q) vf = fst (verify_and_consume repr loads check now token q vf)"
| "vf_apply repr loads check (V_Issuer now node) vf = fst (set_issuer_node_id node vf)"
| "vf_apply repr loads check (V_Registry now op) vf = vf\<lparr>vf_revocations := rev_apply repr op (vf_revocations vf)\<rparr>"

text \<open>The step accepts a ticket with identifier \<open>t\<close> that expires at \<open>e\<close>.\<close>

fun vf_accepts ::
    "(json \<Rightarrow> string) \<Rightarrow> (string \<Rightarrow> json option) \<Rightarrow> (string \<Rightarrow> string \<Rightarrow> bool) \<Rightarrow> string \<Rightarrow> int \<Rightarrow> vf_op \<Rightarrow> verifier \<Rightarrow> bool" where
  "vf_accepts repr loads check t e (V_Verify now token q) vf \<longleftrightarrow>
     (case snd (verify_and_consume repr loads check now token q vf) of Inl er \<Rightarrow> False
      | Inr c \<Rightarrow> cl_id c = t \<and> cl_expires c = e)"
| "vf_accepts repr loads check t e _ vf \<longleftrightarrow> False"

definition vf_ok :: "verifier \<Rightarrow> bool" where
  "vf_ok vf \<longleftrightarrow> rev_inv (vf_revocations vf) \<and> rv_path (vf_revocations vf)"

fun vf_keeps :: "string \<Rightarrow> int \<Rightarrow> vf_op \<Rightarrow> bool" where
  "vf_keeps t u (V_Registry now op) \<longleftrightarrow> keeps_ticket t u op \<and> rev_clock op \<in> {None, Some now}"
| "vf_keeps t u _ \<longleftrightarrow> True"

text \<open>Consuming claims is a sequence of registry operations, so what those keep it keeps.\<close>

lemma consume_claims_ops:
  "\<exists>ops. fst (consume_claims now aud c rv) = fold (rev_apply repr) ops rv \<and>
    (\<forall>op \<in> set ops. rev_clock op \<in> {None, Some now} \<and> keeps_ticket t u op)"
proof -
  let ?s = "R_Sync aud (cl_generation c)" and ?r = "R_Revoked now (cl_id c)" and ?c = "R_Consume now (cl_id c) (cl_expires c)"
  let ?L = "{[], [?s], [?r], [?s, ?r], [?r, ?c], [?s, ?r, ?c]}"
  have "fst (consume_claims now aud c rv) \<in> (\<lambda>ops. fold (rev_apply repr) ops rv) ` ?L"
    by (auto simp: consume_claims_def Let_def split: prod.splits sum.splits if_splits)
  then obtain ops where "ops \<in> ?L" "fst (consume_claims now aud c rv) = fold (rev_apply repr) ops rv" by blast
  moreover from this(1) have "\<forall>op \<in> set ops. rev_clock op \<in> {None, Some now} \<and> keeps_ticket t u op" by auto
  ultimately show ?thesis by blast
qed

lemma ticket_kept_run:
  assumes "rev_inv rv" and "rv_path rv" and "durable (ticket_known t u) rv"
    and "\<forall>op \<in> set ops. rev_clock op \<in> {None, Some now} \<and> keeps_ticket t u op" and "py_int now \<le> u"
  shows "durable (ticket_known t u) (fold (rev_apply repr) ops rv)"
  using assms
proof (induction ops arbitrary: rv)
  case Nil
  then show ?case by simp
next
  case (Cons op ops)
  have "durable (ticket_known t u) (rev_apply repr op rv)"
    using Cons.prems by (intro ticket_kept) auto
  with Cons show ?case by (simp add: rev_inv_apply)
qed

lemma consume_claims_inv:
  assumes "rev_inv rv" and "rv_path rv"
  shows "rev_inv (fst (consume_claims now aud c rv)) \<and> rv_path (fst (consume_claims now aud c rv))"
proof -
  obtain ops where "fst (consume_claims now aud c rv) = fold (rev_apply (\<lambda>_. [])) ops rv"
    using consume_claims_ops [of now aud c rv "\<lambda>_. []"] by blast
  with rev_run [OF assms(1)] assms(2) show ?thesis by simp
qed

lemma consume_claims_keeps:
  assumes "rev_inv rv" and "rv_path rv" and "durable (ticket_known t u) rv" and "py_int now \<le> u"
  shows "durable (ticket_known t u) (fst (consume_claims now aud c rv))"
proof -
  obtain ops where "fst (consume_claims now aud c rv) = fold (rev_apply (\<lambda>_. [])) ops rv"
    "\<forall>op \<in> set ops. rev_clock op \<in> {None, Some now} \<and> keeps_ticket t u op"
    using consume_claims_ops [of now aud c rv "\<lambda>_. []" t u] by blast
  with ticket_kept_run [OF assms(1-3) _ assms(4)] show ?thesis by simp
qed

lemma consume_claims_Inr:
  assumes "rev_inv rv" and "rv_path rv" and "consume_claims now aud c rv = (rv', Inr c')"
  shows "c' = c \<and> durable (ticket_known (cl_id c) (cl_expires c + retention_grace)) rv' \<and>
    current_generation aud rv \<le> cl_generation c \<and>
    (\<forall>u. durable (ticket_known (cl_id c) u) rv \<longrightarrow> u < py_int now)"
proof -
  let ?s = "if current_generation aud rv < cl_generation c then rev_apply (\<lambda>_. []) (R_Sync aud (cl_generation c)) rv else rv"
  let ?r = "rev_apply (\<lambda>_. []) (R_Revoked now (cl_id c)) ?s"
  have inv: "rev_inv ?s" "rv_path ?s" "rev_inv ?r" "rv_path ?r"
    using assms(1,2) by (simp_all add: rev_inv_apply del: rev_apply.simps)
  have c: "consume_ticket now (cl_id c) (cl_expires c) ?r = (rv', Inr True)" "c' = c"
    "\<not> cl_generation c < current_generation aud ?s"
    using assms(3) by (auto simp: consume_claims_def Let_def split: prod.splits sum.splits if_splits)
  have "current_generation aud rv \<le> cl_generation c"
    using c(3) by (auto split: if_splits)
  moreover have "u < py_int now" if d: "durable (ticket_known (cl_id c) u) rv" for u
  proof (rule ccontr)
    assume "\<not> u < py_int now"
    then have now: "py_int now \<le> u" by simp
    have "durable (ticket_known (cl_id c) u) ?s" using d assms(1,2) ticket_kept [of rv "cl_id c" u "R_Sync aud (cl_generation c)"] by simp
    from ticket_kept [OF inv(1,2) this, of "R_Revoked now (cl_id c)"] now
    have "durable (ticket_known (cl_id c) u) ?r" by simp
    from known_not_consumed [OF inv(3) this now, of "cl_expires c"] c(1) show False by (simp del: rev_apply.simps)
  qed
  ultimately show ?thesis using consumed_durable [OF inv(3) c(1)] c(2) by blast
qed

lemma verify_Inr:
  assumes "verify_and_consume repr loads check now token q vf = (vf', Inr c)"
  shows "verify_signature repr loads check token = Inr c \<and>
    check_claims (vf_cluster vf) (vf_issuer vf) (py_int now) q c = None \<and>
    consume_claims now (pr_audience q) c (vf_revocations vf) = (vf_revocations vf', Inr c)"
proof -
  from assms obtain c0 where c0: "verify_signature repr loads check token = Inr c0"
    by (auto simp: verify_and_consume_def split: sum.splits)
  with assms have n: "check_claims (vf_cluster vf) (vf_issuer vf) (py_int now) q c0 = None"
    by (auto simp: verify_and_consume_def split: option.splits)
  obtain rv res where r: "consume_claims now (pr_audience q) c0 (vf_revocations vf) = (rv, res)" by fastforce
  with assms c0 n have "vf' = vf\<lparr>vf_revocations := rv\<rparr>" "res = Inr c" by (auto simp: verify_and_consume_def)
  moreover from this r have "c = c0"
    by (auto simp: consume_claims_def Let_def split: prod.splits sum.splits if_splits)
  ultimately show ?thesis using c0 n r by simp
qed

lemma check_claims_time:
  "check_claims cluster issuer now q c = None \<Longrightarrow> now \<le> cl_expires c + clock_skew"
  by (auto simp: check_claims_def Let_def split: if_splits sum.splits)

lemma vf_ok_apply: "vf_ok vf \<Longrightarrow> vf_ok (vf_apply repr loads check op vf)"
proof (cases op)
  case (V_Verify now token q)
  assume "vf_ok vf"
  with consume_claims_inv [of "vf_revocations vf"] show ?thesis
    by (auto simp: V_Verify vf_ok_def verify_and_consume_def split: sum.split option.split prod.split)
      (metis fst_conv)+
qed (auto simp: vf_ok_def set_issuer_node_id_def Let_def rev_inv_apply)

lemma vf_keeps_ticket:
  assumes "vf_ok vf" and "durable (ticket_known t u) (vf_revocations vf)" and "vf_keeps t u op" and "vf_time op \<le> u"
  shows "durable (ticket_known t u) (vf_revocations (vf_apply repr loads check op vf))"
proof (cases op)
  case (V_Verify now token q)
  have "durable (ticket_known t u) (fst (consume_claims now (pr_audience q) c (vf_revocations vf)))" for c
    using assms by (intro consume_claims_keeps) (auto simp: vf_ok_def V_Verify)
  with assms(2) show ?thesis
    by (auto simp: V_Verify verify_and_consume_def split: sum.split option.split prod.split) (metis fst_conv)+
next
  case (V_Registry now op')
  have "durable (ticket_known t u) (rev_apply repr op' (vf_revocations vf))"
    using assms by (intro ticket_kept) (auto simp: vf_ok_def V_Registry)
  then show ?thesis by (simp add: V_Registry)
qed (use assms in \<open>simp add: set_issuer_node_id_def Let_def\<close>)

interpretation ticket_once: replay_guard vf_ok "vf_keeps t (e + retention_grace)" vf_time "e + retention_grace"
    "vf_apply repr loads check" "vf_accepts repr loads check t e"
    "\<lambda>vf. durable (ticket_known t (e + retention_grace)) (vf_revocations vf)"
  for t e repr loads check
proof
  fix vf op
  assume ok: "vf_ok vf"
  show "vf_ok (vf_apply repr loads check op vf)" by (rule vf_ok_apply [OF ok])
  have accepted: "\<exists>now token q c vf'. op = V_Verify now token q \<and> cl_id c = t \<and> cl_expires c = e \<and>
      verify_and_consume repr loads check now token q vf = (vf', Inr c)"
    if "vf_accepts repr loads check t e op vf"
  proof (cases op)
    case (V_Verify now token q)
    with that obtain c where "snd (verify_and_consume repr loads check now token q vf) = Inr c" "cl_id c = t" "cl_expires c = e"
      by (auto split: sum.splits)
    with V_Verify show ?thesis by (metis prod.collapse)
  qed (use that in simp_all)
  have inv: "rev_inv (vf_revocations vf)" "rv_path (vf_revocations vf)" using ok by (simp_all add: vf_ok_def)
  show "durable (ticket_known t (e + retention_grace)) (vf_revocations (vf_apply repr loads check op vf))"
    if a: "vf_accepts repr loads check t e op vf"
  proof -
    from accepted [OF a] obtain now token q c vf' where o: "op = V_Verify now token q" "cl_id c = t" "cl_expires c = e"
      "verify_and_consume repr loads check now token q vf = (vf', Inr c)" by blast
    from consume_claims_Inr [OF inv] verify_Inr [OF o(4)] o show ?thesis by auto
  qed
  show "\<not> vf_accepts repr loads check t e op vf"
    if "durable (ticket_known t (e + retention_grace)) (vf_revocations vf)" "vf_time op \<le> e + retention_grace"
  proof
    assume "vf_accepts repr loads check t e op vf"
    from accepted [OF this] obtain now token q c vf' where o: "op = V_Verify now token q" "cl_id c = t"
      "verify_and_consume repr loads check now token q vf = (vf', Inr c)" by blast
    from consume_claims_Inr [OF inv] verify_Inr [OF o(3)] that o show False by fastforce
  qed
  show "\<not> vf_accepts repr loads check t e op vf" if "e + retention_grace < vf_time op"
  proof
    assume "vf_accepts repr loads check t e op vf"
    from accepted [OF this] obtain now token q c vf' where o: "op = V_Verify now token q" "cl_expires c = e"
      "verify_and_consume repr loads check now token q vf = (vf', Inr c)" by blast
    from check_claims_time verify_Inr [OF o(3)] have "py_int now \<le> e + clock_skew" using o(2) by blast
    with that o(1) show False by (simp add: clock_skew_def retention_grace_def)
  qed
qed (rule vf_keeps_ticket)

section \<open>Issue and verification agree\<close>

lemma b64url_roundtrip: "b64url_decode (b64url bs) = Some bs"
  by (simp add: b64url_decode_def b64url_def rstrip_b64encode b64_decode_pad_unpadded)

lemma b64url_no_dot: "CHR ''.'' \<notin> set (b64url bs)"
proof -
  have "b64url bs = b64_unpadded (CHR ''-'') (CHR ''_'') bs" by (simp add: b64url_def rstrip_b64encode)
  with b64_unpadded_chars [of "CHR ''-''" "CHR ''_''" bs] show ?thesis by auto
qed

definition range_ok :: "byte_range option \<Rightarrow> bool" where
  "range_ok r \<longleftrightarrow> (case r of None \<Rightarrow> True | Some b \<Rightarrow> mk_range (br_start b) (br_end b) = Inr b)"

lemma claims_roundtrip: "range_ok (cl_range c) \<Longrightarrow> claims_of_json repr (claims_json c) = Inr c"
  by (cases "cl_range c")
    (simp_all add: claims_of_json_def claims_json_def int_item_def jitem_def jget_def or_default_def range_json_def
      range_of_json_def range_ok_def)

lemma verify_signature_token:
  assumes "check (sign (dumps (claims_json c))) (dumps (claims_json c))"
    and "loads (dumps (claims_json c)) = Some (claims_json c)" and "range_ok (cl_range c)"
    and "utf8_length (token_text dumps sign c) \<le> max_token_bytes"
  shows "verify_signature repr loads check (token_text dumps sign c) = Inr c"
proof -
  have "split_on (CHR ''.'') (token_text dumps sign c) =
      [''nst1'', b64url (dumps (claims_json c)), b64url (sign (dumps (claims_json c)))]"
    using split_on_append [of "CHR ''.''" "''nst1''"] split_on_append [OF b64url_no_dot]
      split_on_single [OF b64url_no_dot]
    by (simp add: token_text_def Let_def)
  with assms show ?thesis
    by (simp add: verify_signature_def b64url_roundtrip claims_roundtrip)
qed

lemma int_between_Inr: "int_between lo hi ob k = Inr n \<Longrightarrow> lo \<le> n \<and> n \<le> hi"
  by (auto simp: int_between_def split: sum.splits if_splits)

lemma normalize_params_idem:
  assumes "normalize_resource_params m p = Inr p'"
  shows "normalize_resource_params m p' = Inr p'"
proof -
  consider w hgt where "m = ''THUMBNAIL''" "p' = [(''height'', JInt hgt), (''width'', JInt w)]"
      "1 \<le> w" "w \<le> 600" "1 \<le> hgt" "hgt \<le> 600"
    | n where "m = ''WAVEFORM''" "p' = [(''samples'', JInt n)]" "32 \<le> n" "n \<le> 4096"
    | "m \<noteq> ''THUMBNAIL''" "m \<noteq> ''WAVEFORM''" "p' = []"
    using assms unfolding normalize_resource_params_def
    by (auto dest: int_between_Inr split: if_splits sum.splits)
  then show ?thesis
    by cases (auto simp: normalize_resource_params_def same_keys_def int_between_def int_item_def jitem_def)
qed

lemma normalize_path_Inr: "normalize_ticket_path r p = Inr p' \<Longrightarrow> p' = p"
  by (auto simp: normalize_ticket_path_def split: if_splits)

lemma issue_claims_Inr:
  assumes "issue_claims i clock q = Inr c"
  shows "normalize_resource_params (str_upper (tr_method q)) (tr_params q) = Inr (cl_params c) \<and>
    normalize_ticket_path (str_upper (tr_method q) = ''LIST'') (tr_path q) = Inr (tr_path q) \<and>
    c = \<lparr>cl_id = i, cl_cluster = tr_cluster q, cl_issuer = tr_issuer q, cl_audience = tr_audience q,
         cl_device = tr_device q, cl_method = str_upper (tr_method q), cl_path = tr_path q, cl_range = tr_range q,
         cl_protected = tr_protected q, cl_issued = py_int clock, cl_not_before = py_int clock,
         cl_expires = py_int clock + tr_ttl q, cl_generation = max 0 (tr_generation q), cl_cursor = tr_cursor q,
         cl_limit = tr_limit q, cl_params = cl_params c, cl_version = 1\<rparr> \<and>
    1 \<le> tr_ttl q \<and> tr_ttl q \<le> max_ttl \<and>
    (str_upper (tr_method q) \<in> set derived_methods \<longrightarrow> tr_range q = None)"
  using assms normalize_path_Inr [of "str_upper (tr_method q) = ''LIST''" "tr_path q"]
  by (auto simp: issue_claims_def Let_def pagination_ok_def derived_methods_def split: if_splits sum.splits)

text \<open>The request a ticket was issued for, as the audience sees it.\<close>

definition same_request :: "ticket_request \<Rightarrow> presented \<Rightarrow> bool" where
  "same_request q r \<longleftrightarrow> pr_audience r = tr_audience q \<and> pr_device r = tr_device q \<and>
     pr_method r = tr_method q \<and> pr_path r = tr_path q \<and> pr_range r = tr_range q \<and>
     (pr_protected r \<longrightarrow> tr_protected q) \<and> pr_cursor r = tr_cursor q \<and> pr_limit r = tr_limit q \<and>
     pr_params r = tr_params q"

lemma check_claims_issued:
  assumes "issue_claims i clock q = Inr c" and "same_request q r"
    and "py_int clock \<le> now + clock_skew" and "now \<le> py_int clock + tr_ttl q + clock_skew"
    and "str_upper (tr_method q) \<in> set derived_methods \<longrightarrow> tr_ttl q = default_ttl"
  shows "check_claims (tr_cluster q) (tr_issuer q) now r c = None"
proof -
  note i = issue_claims_Inr [OF assms(1)]
  have p: "normalize_resource_params (str_upper (tr_method q)) (cl_params c) = Inr (cl_params c)"
    using i by (blast intro: normalize_params_idem)
  obtain c' where c: "c = c'" "c' = \<lparr>cl_id = i, cl_cluster = tr_cluster q, cl_issuer = tr_issuer q, cl_audience = tr_audience q,
         cl_device = tr_device q, cl_method = str_upper (tr_method q), cl_path = tr_path q, cl_range = tr_range q,
         cl_protected = tr_protected q, cl_issued = py_int clock, cl_not_before = py_int clock,
         cl_expires = py_int clock + tr_ttl q, cl_generation = max 0 (tr_generation q), cl_cursor = tr_cursor q,
         cl_limit = tr_limit q, cl_params = cl_params c, cl_version = 1\<rparr>" using i by blast
  have sel: "cl_cluster c = tr_cluster q" "cl_issuer c = tr_issuer q" "cl_audience c = tr_audience q"
    "cl_device c = tr_device q" "cl_method c = str_upper (tr_method q)" "cl_path c = tr_path q" "cl_range c = tr_range q"
    "cl_protected c = tr_protected q" "cl_issued c = py_int clock" "cl_not_before c = py_int clock"
    "cl_expires c = py_int clock + tr_ttl q" "cl_cursor c = tr_cursor q" "cl_limit c = tr_limit q" "cl_version c = 1"
    using c by (metis claims.select_convs)+
  from assms(2-5) i p show ?thesis
    by (auto simp: check_claims_def Let_def sel same_request_def)
qed

lemma consume_claims_fresh:
  assumes "current_generation aud rv \<le> cl_generation c" and "0 \<le> cl_generation c"
    and "\<not> known_ticket (cl_id c) (rev_purge now rv)" and "\<not> rev_full (rev_purge now rv)"
  shows "\<exists>rv'. consume_claims now aud c rv = (rv', Inr c)"
proof -
  let ?s = "if current_generation aud rv < cl_generation c
    then fst (synchronize_generation aud (cl_generation c) rv) else rv"
  have "\<not> cl_generation c < current_generation aud ?s"
    using assms(1,2) by (auto simp: synchronize_generation_def current_generation_def dget_put)
  moreover have "rv_revoked ?s = rv_revoked rv" "rv_consumed ?s = rv_consumed rv"
    using assms(1,2) by (auto simp: synchronize_generation_def Let_def)
  then have "\<not> known_ticket (cl_id c) (rev_purge now ?s)" "\<not> rev_full (rev_purge now ?s)"
    using assms(3,4) by (simp_all add: known_ticket_def rev_purge_def rev_full_def)
  ultimately show ?thesis
    by (simp add: consume_claims_def Let_def is_ticket_revoked_def consume_ticket_def known_ticket_def rev_full_def
        rev_purge_def)
qed

lemma verify_issued:
  assumes "issue_claims i clock q = Inr c" and "issue_ticket dumps sign i clock q = Inr token"
    and "check (sign (dumps (claims_json c))) (dumps (claims_json c))"
    and "loads (dumps (claims_json c)) = Some (claims_json c)"
    and "range_ok (tr_range q)" and "utf8_length token \<le> max_token_bytes" and "same_request q r"
    and "vf_cluster vf = tr_cluster q" and "vf_issuer vf = tr_issuer q"
    and "py_int clock \<le> py_int now + 5" and "py_int now \<le> py_int clock + tr_ttl q + 5"
    and "str_upper (tr_method q) \<in> set derived_methods \<longrightarrow> tr_ttl q = 60"
    and "current_generation (tr_audience q) (vf_revocations vf) \<le> max 0 (tr_generation q)"
    and "\<not> known_ticket i (rev_purge now (vf_revocations vf))" and "\<not> rev_full (rev_purge now (vf_revocations vf))"
  shows "snd (verify_and_consume repr loads check now token r vf) = Inr c"
proof -
  have token: "token = token_text dumps sign c" using assms(1,2) by (simp add: issue_ticket_def)
  have c: "cl_id c = i" "cl_generation c = max 0 (tr_generation q)" "cl_range c = tr_range q" "pr_audience r = tr_audience q"
    using issue_claims_Inr [OF assms(1)] assms(7) by (metis claims.select_convs, metis claims.select_convs, metis claims.select_convs, simp add: same_request_def)
  have "verify_signature repr loads check token = Inr c"
    using assms(3-6) by (simp add: token verify_signature_token c)
  moreover have "check_claims (vf_cluster vf) (vf_issuer vf) (py_int now) r c = None"
    using check_claims_issued [OF assms(1,7)] assms(8-12) by (simp add: clock_skew_def default_ttl_def)
  moreover obtain rv' where "consume_claims now (pr_audience r) c (vf_revocations vf) = (rv', Inr c)"
    using consume_claims_fresh [of "pr_audience r" "vf_revocations vf" c now] assms(13-15) c by auto
  ultimately show ?thesis by (simp add: verify_and_consume_def)
qed

section \<open>Properties\<close>


definition demo_request :: ticket_request where
  "demo_request = \<lparr>tr_cluster = ''c'', tr_issuer = ''m'', tr_audience = ''s'', tr_device = ''d'', tr_method = ''get'',
     tr_path = ''/pub/a'', tr_range = None, tr_protected = False, tr_generation = 0, tr_ttl = 60, tr_cursor = [],
     tr_limit = 0, tr_params = []\<rparr>"

definition demo_presented :: presented where
  "demo_presented = \<lparr>pr_audience = ''s'', pr_device = ''d'', pr_method = ''get'', pr_path = ''/pub/a'', pr_range = None,
     pr_protected = False, pr_cursor = [], pr_limit = 0, pr_params = []\<rparr>"

definition demo_claims :: claims where
  "demo_claims = \<lparr>cl_id = ''i'', cl_cluster = ''c'', cl_issuer = ''m'', cl_audience = ''s'', cl_device = ''d'',
     cl_method = ''GET'', cl_path = ''/pub/a'', cl_range = None, cl_protected = False, cl_issued = 100, cl_not_before = 100,
     cl_expires = 160, cl_generation = 0, cl_cursor = [], cl_limit = 0, cl_params = [], cl_version = 1\<rparr>"

definition demo_verifier :: verifier where
  "demo_verifier = \<lparr>vf_cluster = ''c'', vf_issuer = ''m'', vf_revocations = rev_start\<rparr>"

lemma demo_vf_ok: "vf_ok demo_verifier"
  by (simp add: vf_ok_def demo_verifier_def) (simp add: rev_start_def)

lemma str_upper_get: "str_upper ''get'' = ''GET''"
  by (simp add: str_upper_def upper_of_def char_eval)

lemma demo_path: "normalize_ticket_path b ''/pub/a'' = Inr ''/pub/a''"
  by (simp add: normalize_ticket_path_def normpath_def initial_slashes_def starts_with_def Let_def)

lemma demo_issue: "issue_claims ''i'' 100 demo_request = Inr demo_claims"
  by (simp add: issue_claims_def demo_request_def demo_claims_def str_upper_get Let_def max_ttl_def pagination_ok_def
      derived_methods_def normalize_resource_params_def str_strip_def is_space_def demo_path) (simp add: char_eval)


text \<open>When a presentation is accepted, its text carries a payload whose
  signature checks and whose claims name this node's cluster, its trusted issuer, this audience and device,
  the method, path, range, page and parameters presented; the clock is inside the ticket's window of at most two
  minutes with five seconds of skew; protected content needs a ticket that allows it; and the ticket's generation
  is not older than the audience's.\<close>

theorem ticket_binds_request:
  assumes "vf_ok vf" and "verify_and_consume repr loads check now token q vf = (vf', Inr c)"
  shows "(\<exists>p s payload sig. split_on (CHR ''.'') token = [''nst1'', p, s] \<and> b64url_decode p = Some payload \<and>
      b64url_decode s = Some sig \<and> check sig payload \<and> Option.bind (loads payload) (\<lambda>v. case claims_of_json repr v of Inl e \<Rightarrow> None | Inr c \<Rightarrow> Some c) = Some c) \<and>
    cl_cluster c = vf_cluster vf \<and> cl_issuer c = vf_issuer vf \<and> cl_audience c = pr_audience q \<and>
    cl_device c = pr_device q \<and> cl_method c = str_upper (pr_method q) \<and> cl_path c = pr_path q \<and>
    cl_range c = pr_range q \<and> cl_cursor c = pr_cursor q \<and> cl_limit c = pr_limit q \<and>
    (pr_protected q \<longrightarrow> cl_protected c) \<and>
    cl_not_before c - 5 \<le> py_int now \<and> py_int now \<le> cl_expires c + 5 \<and> cl_expires c - cl_issued c \<le> 120 \<and>
    current_generation (pr_audience q) (vf_revocations vf) \<le> cl_generation c \<and>
    ''..'' \<notin> set (split_on (CHR ''/'') (pr_path q))"
proof -
  note v = verify_Inr [OF assms(2)]
  have s: "\<exists>p s payload sig. split_on (CHR ''.'') token = [''nst1'', p, s] \<and> b64url_decode p = Some payload \<and>
      b64url_decode s = Some sig \<and> check sig payload \<and> Option.bind (loads payload) (\<lambda>v. case claims_of_json repr v of Inl e \<Rightarrow> None | Inr c \<Rightarrow> Some c) = Some c"
    using v by (auto simp: verify_signature_def split: if_splits list.splits option.splits sum.splits)
  have "current_generation (pr_audience q) (vf_revocations vf) \<le> cl_generation c"
    using consume_claims_Inr [of "vf_revocations vf" now "pr_audience q" c] v assms(1) by (auto simp: vf_ok_def)
  with v s show ?thesis
    by (auto simp: check_claims_def Let_def clock_skew_def max_ttl_def normalize_ticket_path_def
        split: if_splits sum.splits)
qed

theorem ticket_binds_request_witness:
  "\<exists>vf' c. verify_and_consume (\<lambda>_. []) (\<lambda>_. Some (claims_json demo_claims)) (\<lambda>s m. s = ''sig'' \<and> m = ''payload'') 110
       (token_text (\<lambda>_. ''payload'') (\<lambda>_. ''sig'') demo_claims) demo_presented demo_verifier = (vf', Inr c) \<and> cl_path c = ''/pub/a''"
proof -
  let ?v = "verify_and_consume (\<lambda>_. []) (\<lambda>_. Some (claims_json demo_claims)) (\<lambda>s m. s = ''sig'' \<and> m = ''payload'') 110
       (token_text (\<lambda>_. ''payload'') (\<lambda>_. ''sig'') demo_claims) demo_presented demo_verifier"
  have t: "issue_ticket (\<lambda>_. ''payload'') (\<lambda>_. ''sig'') ''i'' 100 demo_request =
      Inr (token_text (\<lambda>_. ''payload'') (\<lambda>_. ''sig'') demo_claims)"
    by (simp add: issue_ticket_def demo_issue)
  have "utf8_length (token_text (\<lambda>_. ''payload'') (\<lambda>_. ''sig'') demo_claims) \<le> max_token_bytes"
    by code_simp
  from verify_issued [OF demo_issue t _ _ _ this, where vf = demo_verifier and r = demo_presented and now = 110]
  have "snd ?v = Inr demo_claims"
    by (simp add: demo_verifier_def demo_request_def demo_presented_def same_request_def range_ok_def rev_start_def
        current_generation_def known_ticket_def rev_purge_def rev_full_def dkeep_def max_ticket_records_def str_upper_get
        derived_methods_def)
  then have "?v = (fst ?v, Inr demo_claims)" by (metis prod.collapse)
  moreover from ticket_binds_request [OF demo_vf_ok this] have "cl_path demo_claims = ''/pub/a''"
    by (simp add: demo_presented_def)
  ultimately show ?thesis by blast
qed

text \<open>A ticket issued for a request opens that request at its audience, from five
  seconds before its issue to five seconds after its expiry, if the audience trusts the issuer, has not moved to a
  later generation, does not know the ticket and has room: with a signature that checks and a payload that
  parses to what was dumped, verification returns the claims that were issued.\<close>

theorem issued_ticket_accepted:
  assumes "issue_claims i clock q = Inr c" and "issue_ticket dumps sign i clock q = Inr token"
    and "check (sign (dumps (claims_json c))) (dumps (claims_json c))"
    and "loads (dumps (claims_json c)) = Some (claims_json c)"
    and "range_ok (tr_range q)" and "utf8_length token \<le> max_token_bytes" and "same_request q r"
    and "vf_cluster vf = tr_cluster q" and "vf_issuer vf = tr_issuer q"
    and "py_int clock \<le> py_int now + 5" and "py_int now \<le> py_int clock + tr_ttl q + 5"
    and "str_upper (tr_method q) \<in> set derived_methods \<longrightarrow> tr_ttl q = 60"
    and "current_generation (tr_audience q) (vf_revocations vf) \<le> max 0 (tr_generation q)"
    and "\<not> known_ticket i (rev_purge now (vf_revocations vf))" and "\<not> rev_full (rev_purge now (vf_revocations vf))"
  shows "snd (verify_and_consume repr loads check now token r vf) = Inr c"
  using assms by (rule verify_issued)

theorem issued_ticket_accepted_witness:
  "\<exists>token. issue_ticket (\<lambda>_. ''payload'') (\<lambda>_. ''sig'') ''i'' 100 demo_request = Inr token \<and>
     snd (verify_and_consume (\<lambda>_. []) (\<lambda>_. Some (claims_json demo_claims)) (\<lambda>s m. s = ''sig'' \<and> m = ''payload'') 110 token
       demo_presented demo_verifier) = Inr demo_claims"
proof -
  have t: "issue_ticket (\<lambda>_. ''payload'') (\<lambda>_. ''sig'') ''i'' 100 demo_request =
      Inr (token_text (\<lambda>_. ''payload'') (\<lambda>_. ''sig'') demo_claims)"
    by (simp add: issue_ticket_def demo_issue)
  have "utf8_length (token_text (\<lambda>_. ''payload'') (\<lambda>_. ''sig'') demo_claims) \<le> max_token_bytes"
    by code_simp
  from issued_ticket_accepted [OF demo_issue t _ _ _ this, where vf = demo_verifier and r = demo_presented and now = 110]
  show ?thesis using t
    by (simp add: demo_verifier_def demo_request_def demo_presented_def same_request_def range_ok_def rev_start_def
        current_generation_def known_ticket_def rev_purge_def rev_full_def dkeep_def max_ticket_records_def str_upper_get
        derived_methods_def)
qed

end
