(* ===== verification/Auth_Limits.thy ===== *)
theory Auth_Limits
  imports Py_Json
begin

text \<open>
  The failure limiter of the server (\<^verbatim>\<open>state.py\<close>) and the password check in front of every route
  (\<open>_check_password\<close> of \<^verbatim>\<open>routes/auth.py\<close>). Four dictionaries from a key to a list of times share the same sliding
  window, which keeps the entries at its edge. \<open>hmac.compare_digest\<close> of two texts raises \<open>TypeError\<close> when
  one has a character outside ASCII. The verification of a hashed password and the header are arguments.
\<close>

section \<open>Comparison in constant time\<close>

definition is_ascii :: "string \<Rightarrow> bool" where
  "is_ascii s \<longleftrightarrow> list_all (\<lambda>c. code c < 128) s"

definition compare_digest :: "string \<Rightarrow> string \<Rightarrow> py_error + bool" where
  "compare_digest a b = (if is_ascii a \<and> is_ascii b then Inr (a = b) else Inl Type_Error)"

text \<open>\<open>a or b\<close> and \<open>a and b\<close> on results that may raise.\<close>

definition py_or :: "py_error + bool \<Rightarrow> py_error + bool \<Rightarrow> py_error + bool" where
  "py_or a b = (case a of Inl e \<Rightarrow> Inl e | Inr x \<Rightarrow> if x then Inr True else b)"

definition py_and :: "py_error + bool \<Rightarrow> py_error + bool \<Rightarrow> py_error + bool" where
  "py_and a b = (case a of Inl e \<Rightarrow> Inl e | Inr x \<Rightarrow> if x then b else Inr False)"

lemma py_or_True: "py_or a b = Inr True \<longleftrightarrow> a = Inr True \<or> a = Inr False \<and> b = Inr True"
  by (auto simp: py_or_def split: sum.splits)

lemma py_and_True: "py_and a b = Inr True \<longleftrightarrow> a = Inr True \<and> b = Inr True"
  by (auto simp: py_and_def split: sum.splits)

lemma compare_digest_True [simp]: "compare_digest a b = Inr True \<longleftrightarrow> is_ascii a \<and> a = b"
  by (auto simp: compare_digest_def)

section \<open>Sliding windows\<close>

type_synonym attempt_log = "(string, time list) dict"

definition recent :: "time \<Rightarrow> real \<Rightarrow> time list \<Rightarrow> time list" where
  "recent now window xs = filter (\<lambda>ts. now - window \<le> ts) xs"

definition attempts_of :: "attempt_log \<Rightarrow> string \<Rightarrow> time list" where
  "attempts_of d key = (case dget d key of None \<Rightarrow> [] | Some xs \<Rightarrow> xs)"

abbreviation auth_window :: real where "auth_window \<equiv> 300"
abbreviation auth_max_attempts :: nat where "auth_max_attempts \<equiv> 8"

definition auth_attempt_allowed :: "time \<Rightarrow> string \<Rightarrow> attempt_log \<Rightarrow> attempt_log \<times> bool" where
  "auth_attempt_allowed now key d =
     (let attempts = recent now auth_window (attempts_of d key)
      in (dput key attempts d, length attempts < auth_max_attempts))"

definition record_auth_failure_at :: "time \<Rightarrow> string \<Rightarrow> attempt_log \<Rightarrow> attempt_log" where
  "record_auth_failure_at now key d = dput key (recent now auth_window (attempts_of d key) @ [now]) d"

definition clear_auth_failures :: "string \<Rightarrow> attempt_log \<Rightarrow> attempt_log" where
  "clear_auth_failures key d = dpop key d"

definition clear_auth_failures_by_prefix :: "string \<Rightarrow> attempt_log \<Rightarrow> attempt_log \<times> nat" where
  "clear_auth_failures_by_prefix prefix d =
     (if prefix = [] then (d, 0)
      else (let keys = filter (\<lambda>key. starts_with key prefix) (dkeys d) in (fold dpop keys d, length keys)))"

text \<open>The throttle of the tunnel counts every request, the refused ones too.\<close>

definition general_request_allowed :: "time \<Rightarrow> string \<Rightarrow> attempt_log \<Rightarrow> attempt_log \<times> bool" where
  "general_request_allowed now key d =
     (let attempts = recent now 60 (attempts_of d key) @ [now] in (dput key attempts d, length attempts \<le> 120))"

definition upload_allowed_for_ip :: "nat \<Rightarrow> time \<Rightarrow> string \<Rightarrow> attempt_log \<Rightarrow> string set \<Rightarrow> attempt_log \<times> string set \<times> bool" where
  "upload_allowed_for_ip max_per_hour now ip d limited =
     (let timestamps = recent now 3600 (attempts_of d ip); allowed = length timestamps < max_per_hour
      in (dput ip timestamps d, if allowed then limited else insert ip limited, allowed))"

definition record_upload_for_ip :: "time \<Rightarrow> string \<Rightarrow> attempt_log \<Rightarrow> attempt_log" where
  "record_upload_for_ip now ip d = dput ip (recent now 3600 (attempts_of d ip) @ [now]) d"

lemma attempts_put: "attempts_of (dput k xs d) k' = (if k' = k then xs else attempts_of d k')"
  by (simp add: attempts_of_def dget_put)

lemma attempts_pop: "attempts_of (dpop k d) k' = (if k' = k then [] else attempts_of d k')"
  by (simp add: attempts_of_def dget_pop)

lemma recent_later: "now \<le> t \<Longrightarrow> recent t w (recent now w xs) = recent t w xs"
  unfolding recent_def filter_filter by (rule filter_cong) auto

lemma recent_append [simp]: "recent t w (xs @ ys) = recent t w xs @ recent t w ys"
  by (simp add: recent_def)

section \<open>Passwords\<close>

text \<open>The secrets of \<^verbatim>\<open>state.py\<close>: the ones of the running server in clear, the saved ones as credentials.\<close>

record access_keys =
  ak_local :: string
  ak_tunnel :: string
  ak_community :: string
  ak_community_credential :: string
  ak_admin :: string
  ak_admin_credential :: string

definition has_admin_password :: "access_keys \<Rightarrow> bool" where
  "has_admin_password ak \<longleftrightarrow> ak_admin_credential ak \<noteq> [] \<or> ak_admin ak \<noteq> [] \<or> ak_tunnel ak \<noteq> []"

definition has_community_password :: "access_keys \<Rightarrow> bool" where
  "has_community_password ak \<longleftrightarrow> ak_community_credential ak \<noteq> [] \<or> ak_community ak \<noteq> []"

definition verify_admin_password :: "(string \<Rightarrow> string \<Rightarrow> bool) \<Rightarrow> access_keys \<Rightarrow> string \<Rightarrow> py_error + bool" where
  "verify_admin_password verify ak password =
     py_or (Inr (ak_admin_credential ak \<noteq> [] \<and> verify password (ak_admin_credential ak)))
       (py_and (Inr (ak_admin ak \<noteq> [])) (compare_digest password (ak_admin ak)))"

definition verify_community_password :: "(string \<Rightarrow> string \<Rightarrow> bool) \<Rightarrow> access_keys \<Rightarrow> string \<Rightarrow> py_error + bool" where
  "verify_community_password verify ak password =
     py_or (Inr (ak_community_credential ak \<noteq> [] \<and> verify password (ak_community_credential ak)))
       (py_and (Inr (ak_community ak \<noteq> [])) (compare_digest password (ak_community ak)))"

definition save_local_password :: "string \<Rightarrow> access_keys \<Rightarrow> access_keys" where
  "save_local_password password ak = ak\<lparr>ak_local := str_strip password\<rparr>"

definition rate_key_of :: "string \<Rightarrow> string \<Rightarrow> string" where
  "rate_key_of scope ip = scope @ '':'' @ ip"

definition public_key_ok :: "(string \<Rightarrow> string \<Rightarrow> bool) \<Rightarrow> access_keys \<Rightarrow> string \<Rightarrow> py_error + bool" where
  "public_key_ok verify ak received =
     py_or (py_or (verify_community_password verify ak received) (verify_admin_password verify ak received))
       (py_and (Inr (ak_tunnel ak \<noteq> [])) (compare_digest received (ak_tunnel ak)))"

text \<open>What the check tells the security monitor, and its answer: the request is let through, refused, or
  refused because of earlier failures.\<close>

datatype monitor_note = Auth_Failure string | Auth_Success
datatype verdict = Passed | Refused | Limited

definition judge :: "time \<Rightarrow> string \<Rightarrow> string \<Rightarrow> py_error + bool \<Rightarrow> attempt_log \<Rightarrow> attempt_log \<times> monitor_note list \<times> (py_error + verdict)" where
  "judge now key kind result d =
     (case result of
        Inl e \<Rightarrow> (d, [], Inl e)
      | Inr True \<Rightarrow> (clear_auth_failures key d, [Auth_Success], Inr Passed)
      | Inr False \<Rightarrow> (record_auth_failure_at now key d, [Auth_Failure kind], Inr Refused))"

definition check_password ::
    "(string \<Rightarrow> string \<Rightarrow> bool) \<Rightarrow> access_keys \<Rightarrow> bool \<Rightarrow> string \<Rightarrow> string \<Rightarrow> time \<Rightarrow> attempt_log \<Rightarrow>
     attempt_log \<times> monitor_note list \<times> (py_error + verdict)" where
  "check_password verify ak public_access ip header now d =
     (let kind = (if public_access then ''public_access_key'' else ''local_password'');
          key = rate_key_of (if public_access then ''password:public'' else ''password:local'') ip;
          (d, allowed) = auth_attempt_allowed now key d;
          received = str_strip header
      in if \<not> allowed then (d, [Auth_Failure kind], Inr Limited)
         else if public_access then
           (if \<not> has_community_password ak \<and> \<not> has_admin_password ak
            then (record_auth_failure_at now key d, [Auth_Failure kind], Inr Refused)
            else judge now key kind (public_key_ok verify ak received) d)
         else if ak_local ak = [] then (d, [Auth_Success], Inr Passed)
         else judge now key kind (compare_digest received (ak_local ak)) d)"

definition public_role :: "(string \<Rightarrow> string \<Rightarrow> bool) \<Rightarrow> access_keys \<Rightarrow> bool \<Rightarrow> string \<Rightarrow> py_error + string" where
  "public_role verify ak public_access header =
     (let received = str_strip header
      in if \<not> public_access then Inr []
         else (case py_or (verify_admin_password verify ak received)
                      (py_and (Inr (ak_tunnel ak \<noteq> [])) (compare_digest received (ak_tunnel ak))) of
                 Inl e \<Rightarrow> Inl e
               | Inr True \<Rightarrow> Inr ''admin''
               | Inr False \<Rightarrow> (case verify_community_password verify ak received of
                     Inl e \<Rightarrow> Inl e
                   | Inr b \<Rightarrow> Inr (if b then ''community'' else []))))"

text \<open>A saved password is compared as text, so one with a letter outside ASCII is compared by raising: nobody is
  let in on the local network, with the right password either, and no failure is recorded.\<close>

theorem local_password_outside_ascii_locks:
  "\<not> is_ascii (str_strip password) \<Longrightarrow>
   (case check_password verify (save_local_password password ak) False ip header now d of
      (d', notes, r) \<Rightarrow> r = Inl Type_Error \<and> notes = [] \<or> r = Inr Limited)"
  by (auto simp: check_password_def save_local_password_def compare_digest_def judge_def auth_attempt_allowed_def
      is_ascii_def Let_def)

end
