(* ===== verification/Device_Trust.thy ===== *)
theory Device_Trust
  imports Auth_Limits Replay_Guard
begin

text \<open>
  Trusted devices (\<^verbatim>\<open>state.py\<close>): the pairing code shown on the server, the authenticator code, the credential a device
  is handed once, write tokens, the challenge a device answers to move to another identifier, and the route
  that pairs a device (\<^verbatim>\<open>routes/routes/ping.py\<close>). Random values, the hash, the authenticator library and the text of
  other JSON values are arguments; the module's fallback authenticator is modelled on an arbitrary MAC. The locks are \<open>RLock\<close>s
  held for a whole operation, so that operations of several threads are a sequence.
\<close>

section \<open>State\<close>

record challenge =
  ch_previous :: string
  ch_current :: string
  ch_expires :: time

record trust_state =
  tr_otp :: string
  tr_otp_expires :: time
  tr_tokens :: "(string, time) dict"
  tr_devices :: jobj
  tr_challenges :: "(string, challenge) dict"
  tr_failures :: attempt_log

definition empty_trust :: trust_state where
  "empty_trust = \<lparr>tr_otp = [], tr_otp_expires = 0, tr_tokens = [], tr_devices = [], tr_challenges = [], tr_failures = []\<rparr>"

section \<open>Pairing codes and write tokens\<close>

abbreviation otp_ttl :: real where "otp_ttl \<equiv> 600"
abbreviation write_token_ttl :: real where "write_token_ttl \<equiv> 3600"

definition zfill :: "nat \<Rightarrow> string \<Rightarrow> string" where
  "zfill n s = replicate (n - length s) CHR ''0'' @ s"

definition reset_write_auth :: "time \<Rightarrow> nat \<Rightarrow> trust_state \<Rightarrow> trust_state \<times> string" where
  "reset_write_auth now below s =
     (let otp = zfill 6 (show_nat (below mod 1000000))
      in (s\<lparr>tr_otp := otp, tr_otp_expires := now + otp_ttl, tr_tokens := []\<rparr>, otp))"

definition forget_otp :: "trust_state \<Rightarrow> trust_state" where
  "forget_otp s = s\<lparr>tr_otp := [], tr_otp_expires := 0\<rparr>"

definition consume_write_otp :: "time \<Rightarrow> string \<Rightarrow> trust_state \<Rightarrow> trust_state \<times> (py_error + bool)" where
  "consume_write_otp now otp s =
     (let clean = str_strip otp
      in if tr_otp s = [] \<or> tr_otp_expires s < now then (s, Inr False)
         else (case compare_digest clean (tr_otp s) of
                 Inl e \<Rightarrow> (s, Inl e)
               | Inr False \<Rightarrow> (s, Inr False)
               | Inr True \<Rightarrow> (forget_otp s, Inr True)))"

definition expire_write_otp :: "trust_state \<Rightarrow> trust_state" where
  "expire_write_otp s = forget_otp s"

definition issue_write_token :: "time \<Rightarrow> string \<Rightarrow> string \<Rightarrow> trust_state \<Rightarrow> trust_state \<times> string option" where
  "issue_write_token now otp token s =
     (if tr_otp s = [] \<or> tr_otp_expires s < now \<or> otp \<noteq> tr_otp s then (s, None)
      else (forget_otp (s\<lparr>tr_tokens := dput token (now + write_token_ttl) (tr_tokens s)\<rparr>), Some token))"

definition validate_write_token :: "time \<Rightarrow> string \<Rightarrow> trust_state \<Rightarrow> trust_state \<times> bool" where
  "validate_write_token now token s =
     (if token = [] then (s, False)
      else (let tokens = dkeep (\<lambda>expires. now < expires) (tr_tokens s)
            in (s\<lparr>tr_tokens := tokens\<rparr>, now < (case dget tokens token of None \<Rightarrow> 0 | Some expires \<Rightarrow> expires))))"

definition clear_write_auth :: "trust_state \<Rightarrow> trust_state" where
  "clear_write_auth s = forget_otp (s\<lparr>tr_tokens := []\<rparr>)"

section \<open>Authenticator codes\<close>

text \<open>\<open>str.isdigit\<close> also holds of the superscripts of Latin-1.\<close>

definition str_isdigit :: "char \<Rightarrow> bool" where
  "str_isdigit c \<longleftrightarrow> is_digit c \<or> code c \<in> set [178, 179, 185]"

definition verify_totp :: "(time \<Rightarrow> string \<Rightarrow> py_error + bool) \<Rightarrow> time \<Rightarrow> string \<Rightarrow> py_error + bool" where
  "verify_totp totp now otp =
     (let clean = filter str_isdigit (str_strip otp) in if length clean \<noteq> 6 then Inr False else totp now clean)"

text \<open>\<open>_FallbackTOTP\<close>: \<open>mac\<close> is HMAC-SHA-1 under the decoded secret.\<close>

definition pack_be64 :: "nat \<Rightarrow> string" where
  "pack_be64 n = map (\<lambda>k. char_of (n div 256 ^ k)) (rev [0 ..< 8])"

definition be_value :: "string \<Rightarrow> nat" where
  "be_value s = foldl (\<lambda>v c. 256 * v + code c) 0 s"

definition totp_at :: "(string \<Rightarrow> string) \<Rightarrow> time \<Rightarrow> py_error + string" where
  "totp_at mac for_time =
     (let counter = \<lfloor>for_time / 30\<rfloor>
      in if counter < 0 \<or> 2 ^ 64 \<le> counter then Inl (Runtime_Error ''struct.error'')
         else (let digest = mac (pack_be64 (nat counter))
               in if digest = [] then Inl Index_Error
                  else (let offset = code (last digest) mod 16; part = take 4 (drop offset digest)
                        in if length part \<noteq> 4 then Inl (Runtime_Error ''struct.error'')
                           else Inr (zfill 6 (show_nat (be_value part mod 2 ^ 31 mod 10 ^ 6))))))"

fun totp_try :: "(string \<Rightarrow> string) \<Rightarrow> time \<Rightarrow> string \<Rightarrow> int list \<Rightarrow> py_error + bool" where
  "totp_try mac now otp [] = Inr False"
| "totp_try mac now otp (k # ks) =
     (case totp_at mac (now + of_int k * 30) of
        Inl e \<Rightarrow> Inl e
      | Inr shown \<Rightarrow> py_or (compare_digest otp shown) (totp_try mac now otp ks))"

definition fallback_totp :: "(string \<Rightarrow> string) \<Rightarrow> int \<Rightarrow> time \<Rightarrow> string \<Rightarrow> py_error + bool" where
  "fallback_totp mac valid_window now otp = totp_try mac now otp [- valid_window .. valid_window]"

section \<open>Trusted devices\<close>

definition paired_record :: "time \<Rightarrow> string \<Rightarrow> json" where
  "paired_record now h = JObj [(''paired_at'', JReal now), (''credential_hash'', JStr h)]"

definition trust_device :: "(string \<Rightarrow> string) \<Rightarrow> time \<Rightarrow> string \<Rightarrow> string \<Rightarrow> trust_state \<Rightarrow> trust_state" where
  "trust_device hash now clean_id credential s =
     s\<lparr>tr_devices := dput clean_id (paired_record now (hash credential)) (tr_devices s)\<rparr>"

definition register_device ::
    "(string \<Rightarrow> string) \<Rightarrow> (time \<Rightarrow> string \<Rightarrow> py_error + bool) \<Rightarrow> time \<Rightarrow> string \<Rightarrow> string \<Rightarrow> string \<Rightarrow> trust_state \<Rightarrow>
     trust_state \<times> (py_error + string option)" where
  "register_device hash totp now device_id otp credential s =
     (let clean_id = str_strip device_id
      in if clean_id = [] then (s, Inr None)
         else (let (s, r) = consume_write_otp now otp s
               in case py_or r (verify_totp totp now otp) of
                    Inl e \<Rightarrow> (s, Inl e)
                  | Inr False \<Rightarrow> (s, Inr None)
                  | Inr True \<Rightarrow> (trust_device hash now clean_id credential s, Inr (Some credential))))"

definition is_trusted_device :: "string \<Rightarrow> trust_state \<Rightarrow> bool" where
  "is_trusted_device device_id s \<longleftrightarrow> (let clean_id = str_strip device_id in clean_id \<noteq> [] \<and> clean_id \<in> set (dkeys (tr_devices s)))"

definition verify_device_credential :: "(string \<Rightarrow> string) \<Rightarrow> (json \<Rightarrow> string) \<Rightarrow> string \<Rightarrow> string \<Rightarrow> trust_state \<Rightarrow> py_error + bool" where
  "verify_device_credential hash repr device_id credential s =
     (let clean_id = str_strip device_id
      in case dget (tr_devices s) clean_id of
           Some (JObj r) \<Rightarrow>
             (if clean_id = [] \<or> credential = [] then Inr False
              else (let v = jget r ''credential_hash''; expected = (if truthy v then to_str repr v else [])
                    in py_and (Inr (expected \<noteq> [])) (compare_digest expected (hash credential))))
         | _ \<Rightarrow> Inr False)"

definition revoke_device :: "string \<Rightarrow> trust_state \<Rightarrow> trust_state" where
  "revoke_device device_id s =
     (let clean_id = str_strip device_id in if clean_id = [] then s else s\<lparr>tr_devices := dpop clean_id (tr_devices s)\<rparr>)"

section \<open>Moving to another identifier\<close>

definition create_migration_challenge ::
    "(string \<Rightarrow> string) \<Rightarrow> time \<Rightarrow> string \<Rightarrow> string \<Rightarrow> string \<Rightarrow> trust_state \<Rightarrow> trust_state" where
  "create_migration_challenge hash now previous_id current_id challenge s =
     s\<lparr>tr_challenges := dput (hash challenge) \<lparr>ch_previous = previous_id, ch_current = current_id, ch_expires = now + 60\<rparr> []\<rparr>"

definition consume_migration_challenge ::
    "(string \<Rightarrow> string) \<Rightarrow> time \<Rightarrow> string \<Rightarrow> string \<Rightarrow> string \<Rightarrow> trust_state \<Rightarrow> trust_state \<times> (py_error + bool)" where
  "consume_migration_challenge hash now challenge previous_id current_id s =
     (let key = hash challenge
      in (s\<lparr>tr_challenges := dpop key (tr_challenges s)\<rparr>,
          case dget (tr_challenges s) key of
            None \<Rightarrow> Inr False
          | Some r \<Rightarrow> py_and (Inr (now \<le> ch_expires r))
              (py_and (compare_digest (ch_previous r) previous_id) (compare_digest (ch_current r) current_id))))"

definition migrate_trusted_device :: "string \<Rightarrow> string \<Rightarrow> trust_state \<Rightarrow> trust_state \<times> bool" where
  "migrate_trusted_device previous_device_id device_id s =
     (let previous = str_strip previous_device_id; current = str_strip device_id
      in case dget (tr_devices s) previous of
           None \<Rightarrow> (s, False)
         | Some registered_at \<Rightarrow>
             (if previous = [] \<or> current = [] \<or> previous = current then (s, False)
              else (let devices = dpop previous (tr_devices s)
                    in (s\<lparr>tr_devices := (if current \<in> set (dkeys devices) then devices else dput current registered_at devices)\<rparr>, True))))"

section \<open>The pairing route\<close>

record register_request =
  rq_lan :: bool
  rq_public :: bool
  rq_ip :: string
  rq_header :: string
  rq_body :: "json option option"
  rq_credential :: string

text \<open>The body is missing when reading it has answered the request already, and undecodable when it is no JSON.\<close>

datatype pair_reply =
    Not_Local
  | Unauthorized
  | Password_Limited
  | Pairing_Limited
  | No_Body
  | Bad_Json
  | Wrong_Code
  | Paired string
  | Raised py_error

record trust_env =
  te_hash :: "string \<Rightarrow> string"
  te_totp :: "time \<Rightarrow> string \<Rightarrow> py_error + bool"
  te_repr :: "json \<Rightarrow> string"
  te_verify :: "string \<Rightarrow> string \<Rightarrow> bool"
  te_keys :: access_keys

definition payload_text :: "trust_env \<Rightarrow> jobj \<Rightarrow> string \<Rightarrow> string" where
  "payload_text env ob k = str_strip (to_str (te_repr env) (jget_or ob k (JStr [])))"

abbreviation pairing_key :: "string \<Rightarrow> string" where
  "pairing_key ip \<equiv> rate_key_of ''totp-register'' ip"

text \<open>A fresh credential is never the empty text, so that \<open>not credential\<close> holds of \<open>None\<close> only.\<close>

definition answer_pairing :: "trust_env \<Rightarrow> time \<Rightarrow> string \<Rightarrow> jobj \<Rightarrow> string \<Rightarrow> trust_state \<Rightarrow> trust_state \<times> pair_reply" where
  "answer_pairing env now key ob fresh s =
     (let (s, r) = register_device (te_hash env) (te_totp env) now (payload_text env ob ''device_id'')
            (payload_text env ob ''code'') fresh s
      in case r of
           Inl e \<Rightarrow> (s, Raised e)
         | Inr None \<Rightarrow> (s\<lparr>tr_failures := record_auth_failure_at now key (tr_failures s)\<rparr>, Wrong_Code)
         | Inr (Some credential) \<Rightarrow> (s\<lparr>tr_failures := clear_auth_failures key (tr_failures s)\<rparr>, Paired credential))"

definition route_register_device :: "trust_env \<Rightarrow> time \<Rightarrow> register_request \<Rightarrow> trust_state \<Rightarrow> trust_state \<times> pair_reply" where
  "route_register_device env now rq s =
     (if \<not> rq_lan rq then (s, Not_Local)
      else (let (d, notes, verdict) = check_password (te_verify env) (te_keys env) (rq_public rq) (rq_ip rq) (rq_header rq) now (tr_failures s);
                s = s\<lparr>tr_failures := d\<rparr>
            in case verdict of
                 Inl e \<Rightarrow> (s, Raised e)
               | Inr Limited \<Rightarrow> (s, Password_Limited)
               | Inr Refused \<Rightarrow> (s, Unauthorized)
               | Inr Passed \<Rightarrow>
                   (let key = pairing_key (rq_ip rq); (d, allowed) = auth_attempt_allowed now key (tr_failures s);
                        s = s\<lparr>tr_failures := d\<rparr>
                    in if \<not> allowed then (s, Pairing_Limited)
                       else (case rq_body rq of
                               None \<Rightarrow> (s, No_Body)
                             | Some None \<Rightarrow> (s, Bad_Json)
                             | Some (Some (JObj ob)) \<Rightarrow> answer_pairing env now key ob (rq_credential rq) s
                             | Some (Some v) \<Rightarrow> (s, Raised (Runtime_Error ''AttributeError''))))))"

section \<open>Operations in sequence\<close>

datatype trust_op =
    Op_Register register_request
  | Op_Check bool string string
  | Op_Consume string
  | Op_Show nat
  | Op_Hide
  | Op_Write_Token string string
  | Op_Use_Token string
  | Op_Clear
  | Op_Revoke string
  | Op_Challenge string string string
  | Op_Answer string string string
  | Op_Move string string
  | Op_Rotate string

datatype trust_out =
    Out_Reply pair_reply
  | Out_Verdict "py_error + verdict"
  | Out_Code string
  | Out_Token "string option"
  | Out_Bool "py_error + bool"
  | Out_None

fun trust_step :: "trust_env \<Rightarrow> time \<times> trust_op \<Rightarrow> trust_state \<Rightarrow> trust_state \<times> trust_out" where
  "trust_step env (now, Op_Register rq) s = map_prod id Out_Reply (route_register_device env now rq s)"
| "trust_step env (now, Op_Check public ip header) s =
     (let (d, notes, r) = check_password (te_verify env) (te_keys env) public ip header now (tr_failures s)
      in (s\<lparr>tr_failures := d\<rparr>, Out_Verdict r))"
| "trust_step env (now, Op_Consume otp) s = map_prod id Out_Bool (consume_write_otp now otp s)"
| "trust_step env (now, Op_Show n) s = map_prod id Out_Code (reset_write_auth now n s)"
| "trust_step env (now, Op_Hide) s = (expire_write_otp s, Out_None)"
| "trust_step env (now, Op_Write_Token otp token) s = map_prod id Out_Token (issue_write_token now otp token s)"
| "trust_step env (now, Op_Use_Token token) s = map_prod id (Out_Bool \<circ> Inr) (validate_write_token now token s)"
| "trust_step env (now, Op_Clear) s = (clear_write_auth s, Out_None)"
| "trust_step env (now, Op_Revoke d) s = (revoke_device d s, Out_None)"
| "trust_step env (now, Op_Challenge p c ch) s = (create_migration_challenge (te_hash env) now p c ch s, Out_None)"
| "trust_step env (now, Op_Answer ch p c) s = map_prod id Out_Bool (consume_migration_challenge (te_hash env) now ch p c s)"
| "trust_step env (now, Op_Move p c) s = map_prod id (Out_Bool \<circ> Inr) (migrate_trusted_device p c s)"
| "trust_step env (now, Op_Rotate prefix) s =
     (s\<lparr>tr_failures := fst (clear_auth_failures_by_prefix prefix (tr_failures s))\<rparr>, Out_None)"

definition trust_after :: "trust_env \<Rightarrow> (time \<times> trust_op) list \<Rightarrow> trust_state \<Rightarrow> trust_state" where
  "trust_after env ops s = fold (\<lambda>x s. fst (trust_step env x s)) ops s"

lemma trust_after_simps [simp]:
  "trust_after env [] s = s"
  "trust_after env (x # ops) s = trust_after env ops (fst (trust_step env x s))"
  "trust_after env (ops @ ops') s = trust_after env ops' (trust_after env ops s)"
  by (simp_all add: trust_after_def)

text \<open>Where the record of a device is after an operation: it goes when the device is revoked or pairs again, and
  moves with the device unless the other identifier has a record.\<close>

fun follow1 :: "trust_env \<Rightarrow> time \<times> trust_op \<Rightarrow> trust_state \<Rightarrow> string \<Rightarrow> string option" where
  "follow1 env (now, Op_Revoke x) s d = (if str_strip x = d \<and> d \<noteq> [] then None else Some d)"
| "follow1 env (now, Op_Move p c) s d =
     (if str_strip p = d \<and> snd (migrate_trusted_device p c s)
      then (if str_strip c \<in> set (dkeys (tr_devices s)) then None else Some (str_strip c)) else Some d)"
| "follow1 env (now, Op_Register rq) s d =
     (case (rq_body rq, snd (route_register_device env now rq s)) of
        (Some (Some (JObj ob)), Paired _) \<Rightarrow> if str_strip (payload_text env ob ''device_id'') = d then None else Some d
      | _ \<Rightarrow> Some d)"
| "follow1 env _ s d = Some d"

fun follow :: "trust_env \<Rightarrow> (time \<times> trust_op) list \<Rightarrow> trust_state \<Rightarrow> string \<Rightarrow> string option" where
  "follow env [] s d = Some d"
| "follow env (x # ops) s d =
     (case follow1 env x s d of None \<Rightarrow> None | Some d' \<Rightarrow> follow env ops (fst (trust_step env x s)) d')"

lemma follow_append:
  "follow env (ops @ ops') s d = Option.bind (follow env ops s d) (follow env ops' (trust_after env ops s))"
  by (induction ops arbitrary: s d) (auto split: option.splits)

text \<open>The code of a request opens the door: it is the one on the screen, in time, or the authenticator's.\<close>

definition otp_shown :: "time \<Rightarrow> string \<Rightarrow> trust_state \<Rightarrow> bool" where
  "otp_shown now otp s \<longleftrightarrow> tr_otp s \<noteq> [] \<and> now \<le> tr_otp_expires s \<and> str_strip otp = tr_otp s"

definition code_valid :: "trust_env \<Rightarrow> time \<Rightarrow> string \<Rightarrow> trust_state \<Rightarrow> bool" where
  "code_valid env now otp s \<longleftrightarrow> otp_shown now otp s \<or> verify_totp (te_totp env) now otp = Inr True"

lemma consume_True: "consume_write_otp now otp s = (s', Inr True) \<Longrightarrow> otp_shown now otp s \<and> s' = forget_otp s"
  by (auto simp: consume_write_otp_def otp_shown_def Let_def split: if_splits sum.splits bool.splits)

lemma consume_else: "consume_write_otp now otp s = (s', r) \<Longrightarrow> r \<noteq> Inr True \<Longrightarrow> s' = s"
  by (auto simp: consume_write_otp_def Let_def split: if_splits sum.splits bool.splits)

lemma consume_devices: "tr_devices (fst (consume_write_otp now otp s)) = tr_devices s"
  by (auto simp: consume_write_otp_def forget_otp_def Let_def split: sum.splits bool.splits)

lemma register_cases:
  assumes "register_device hash totp now d otp c s = (s', r)"
  obtains (paired) s1 where "r = Inr (Some c)" "str_strip d \<noteq> []" "otp_shown now otp s \<or> verify_totp totp now otp = Inr True"
      "tr_devices s1 = tr_devices s" "tr_failures s1 = tr_failures s" "s' = trust_device hash now (str_strip d) c s1"
    | (refused) "tr_devices s' = tr_devices s" "tr_failures s' = tr_failures s" "\<forall>c'. r \<noteq> Inr (Some c')"
proof -
  obtain s1 r1 where c: "consume_write_otp now otp s = (s1, r1)" by fastforce
  have same: "tr_devices s1 = tr_devices s" "tr_failures s1 = tr_failures s"
    using c by (auto simp: consume_write_otp_def forget_otp_def Let_def split: if_splits sum.splits bool.splits)
  show thesis
  proof (cases "str_strip d \<noteq> [] \<and> py_or r1 (verify_totp totp now otp) = Inr True")
    case True
    then have "otp_shown now otp s \<or> verify_totp totp now otp = Inr True"
      using consume_True [of now otp s s1] c by (auto simp: py_or_True)
    with True c same assms show thesis by (intro paired [of s1]) (auto simp: register_device_def Let_def)
  next
    case False
    with c same assms show thesis
      by (intro refused) (auto simp: register_device_def Let_def split: if_splits sum.splits bool.splits)
  qed
qed


lemma verify_totp_keys: "code_valid env now otp (s\<lparr>tr_failures := d\<rparr>) = code_valid env now otp s"
  by (simp add: code_valid_def otp_shown_def)

lemma answer_pairing_cases:
  assumes "answer_pairing env now key ob c s = (s', r)"
  obtains (paired) "r = Paired c" "payload_text env ob ''device_id'' \<noteq> []" "code_valid env now (payload_text env ob ''code'') s"
      "tr_devices s' = dput (str_strip (payload_text env ob ''device_id'')) (paired_record now (te_hash env c)) (tr_devices s)"
      "tr_failures s' = clear_auth_failures key (tr_failures s)"
    | (wrong) "r = Wrong_Code" "tr_devices s' = tr_devices s" "tr_failures s' = record_auth_failure_at now key (tr_failures s)"
    | (raised) e where "r = Raised e" "tr_devices s' = tr_devices s" "tr_failures s' = tr_failures s"
proof -
  obtain s1 r1 where reg: "register_device (te_hash env) (te_totp env) now (payload_text env ob ''device_id'')
      (payload_text env ob ''code'') c s = (s1, r1)" by fastforce
  then show thesis
  proof (cases rule: register_cases)
    case (paired s2)
    with reg assms show thesis by (intro that(1)) (auto simp: answer_pairing_def code_valid_def trust_device_def)
  next
    case refused
    with reg assms show thesis
      by (cases r1) (auto simp: answer_pairing_def split: option.splits intro: that(2,3))
  qed
qed

lemma check_frame:
  assumes "check_password verify ak public ip header now d = (d', notes, r)"
  shows "attempts_of d' (pairing_key k) = attempts_of d (pairing_key k)"
  using assms
  by (auto simp: check_password_def judge_def auth_attempt_allowed_def record_auth_failure_at_def clear_auth_failures_def
      attempts_put attempts_pop rate_key_of_def Let_def split: if_splits sum.splits bool.splits)

text \<open>The route, after its guards, answers the pairing or leaves the devices alone.\<close>

lemma route_cases:
  assumes "route_register_device env now rq s = (s', r)"
  obtains (answered) ob d1 d2 ns where "rq_body rq = Some (Some (JObj ob))"
      "check_password (te_verify env) (te_keys env) (rq_public rq) (rq_ip rq) (rq_header rq) now (tr_failures s) = (d1, ns, Inr Passed)"
      "auth_attempt_allowed now (pairing_key (rq_ip rq)) d1 = (d2, True)"
      "answer_pairing env now (pairing_key (rq_ip rq)) ob (rq_credential rq) (s\<lparr>tr_failures := d2\<rparr>) = (s', r)"
    | (stopped) "tr_devices s' = tr_devices s" "\<forall>c. r \<noteq> Paired c" "r \<noteq> Wrong_Code"
      "\<And>k. attempts_of (tr_failures s') (pairing_key k) \<in>
        {attempts_of (tr_failures s) (pairing_key k), recent now auth_window (attempts_of (tr_failures s) (pairing_key k))}"
proof -
  let ?key = "pairing_key (rq_ip rq)"
  obtain d1 ns v where ck: "check_password (te_verify env) (te_keys env) (rq_public rq) (rq_ip rq) (rq_header rq) now (tr_failures s) = (d1, ns, v)"
    by (metis prod_cases3)
  obtain d2 ok where al: "auth_attempt_allowed now ?key d1 = (d2, ok)" by fastforce
  have d1: "attempts_of d1 (pairing_key k) = attempts_of (tr_failures s) (pairing_key k)" for k by (rule check_frame [OF ck])
  have d2: "attempts_of d2 (pairing_key k) = (if k = rq_ip rq then recent now auth_window (attempts_of d1 (pairing_key k)) else attempts_of d1 (pairing_key k))" for k
    using al by (auto simp: auth_attempt_allowed_def attempts_put rate_key_of_def Let_def)
  show thesis
  proof (cases "rq_lan rq \<and> v = Inr Passed \<and> ok \<and> (\<exists>ob. rq_body rq = Some (Some (JObj ob)))")
    case True
    then obtain ob where ob: "rq_lan rq" "v = Inr Passed" "ok" "rq_body rq = Some (Some (JObj ob))" by blast
    show thesis by (rule answered [of ob]) (use ck al assms ob in \<open>auto simp: route_register_device_def Let_def\<close>)
  next
    case False
    with ck al assms d1 d2 show thesis
      by (intro stopped) (auto simp: route_register_device_def Let_def split: sum.splits verdict.splits if_splits option.splits json.splits)
  qed
qed

lemma route_devices:
  assumes "route_register_device env now rq s = (s', r)"
  shows "tr_devices s' = tr_devices s \<and> (\<forall>c. r \<noteq> Paired c) \<or>
    (\<exists>ob. rq_body rq = Some (Some (JObj ob)) \<and> r = Paired (rq_credential rq) \<and> code_valid env now (payload_text env ob ''code'') s \<and>
      tr_devices s' = dput (str_strip (payload_text env ob ''device_id'')) (paired_record now (te_hash env (rq_credential rq))) (tr_devices s))"
  using assms
proof (cases rule: route_cases)
  case (answered ob d1 d2 ns)
  from answered(4) show ?thesis
    by (cases rule: answer_pairing_cases) (use answered(1) in \<open>auto simp: verify_totp_keys\<close>)
qed simp

lemma pairing_key_eq [simp]: "pairing_key k = pairing_key k' \<longleftrightarrow> k = k'"
  by (simp add: rate_key_of_def)

text \<open>What the limiter keeps of the pairing attempts of an address.\<close>

lemma route_attempts:
  assumes "route_register_device env now rq s = (s', r)"
  shows "(r = Paired c \<longrightarrow> attempts_of (tr_failures s') (pairing_key (rq_ip rq)) = []) \<and>
    (r = Wrong_Code \<longrightarrow> attempts_of (tr_failures s') (pairing_key (rq_ip rq)) =
        recent now auth_window (attempts_of (tr_failures s) (pairing_key (rq_ip rq))) @ [now] \<and>
      length (recent now auth_window (attempts_of (tr_failures s) (pairing_key (rq_ip rq)))) < auth_max_attempts) \<and>
    (k \<noteq> rq_ip rq \<or> r \<noteq> Wrong_Code \<and> (\<forall>c. r \<noteq> Paired c) \<longrightarrow> attempts_of (tr_failures s') (pairing_key k) \<in>
      {attempts_of (tr_failures s) (pairing_key k), recent now auth_window (attempts_of (tr_failures s) (pairing_key k))})"
  using assms
proof (cases rule: route_cases)
  case (answered ob d1 d2 ns)
  have d1: "attempts_of d1 (pairing_key k) = attempts_of (tr_failures s) (pairing_key k)" for k by (rule check_frame [OF answered(2)])
  have d2: "attempts_of d2 (pairing_key k) = (if k = rq_ip rq then recent now auth_window (attempts_of d1 (pairing_key k)) else attempts_of d1 (pairing_key k))"
    "length (recent now auth_window (attempts_of d1 (pairing_key (rq_ip rq)))) < auth_max_attempts" for k
    using answered(3) by (auto simp: auth_attempt_allowed_def attempts_put Let_def)
  from answered(4) show ?thesis
    by (cases rule: answer_pairing_cases)
      (use d1 d2 in \<open>auto simp: clear_auth_failures_def record_auth_failure_at_def attempts_put attempts_pop recent_later\<close>)
qed auto

section \<open>Guessing a pairing code\<close>

text \<open>The wrong codes of an address that were looked at, since its counter was last cleared: by a pairing from there,
  or by a rotation of the credentials whose prefix covers the key.\<close>

fun guess1 :: "trust_env \<Rightarrow> string \<Rightarrow> time \<times> trust_op \<Rightarrow> trust_state \<Rightarrow> time list \<Rightarrow> time list" where
  "guess1 env ip (now, Op_Register rq) s hist =
     (if rq_ip rq = ip
      then (case snd (route_register_device env now rq s) of Wrong_Code \<Rightarrow> hist @ [now] | Paired c \<Rightarrow> [] | _ \<Rightarrow> hist) else hist)"
| "guess1 env ip (now, Op_Rotate prefix) s hist = (if prefix \<noteq> [] \<and> starts_with (pairing_key ip) prefix then [] else hist)"
| "guess1 env ip _ s hist = hist"

fun guess_log :: "trust_env \<Rightarrow> string \<Rightarrow> (time \<times> trust_op) list \<Rightarrow> trust_state \<Rightarrow> time list \<Rightarrow> time list" where
  "guess_log env ip [] s hist = hist"
| "guess_log env ip (x # ops) s hist = guess_log env ip ops (fst (trust_step env x s)) (guess1 env ip x s hist)"

definition looked_at :: "time \<Rightarrow> time list \<Rightarrow> time list" where
  "looked_at t hist = filter (\<lambda>x. t - auth_window \<le> x \<and> x \<le> t) hist"

definition counts :: "time list \<Rightarrow> time \<Rightarrow> time list \<Rightarrow> bool" where
  "counts hist now xs \<longleftrightarrow> (\<forall>t \<ge> now. recent t auth_window xs = recent t auth_window hist) \<and> (\<forall>x \<in> set hist. x \<le> now) \<and>
     (\<forall>t. length (looked_at t hist) \<le> auth_max_attempts)"

lemma counts_Nil: "counts [] now []"
  by (simp add: counts_def looked_at_def)

lemma counts_later: "counts hist now xs \<Longrightarrow> now \<le> now' \<Longrightarrow> counts hist now' xs"
  by (auto simp: counts_def)

lemma counts_trim: "counts hist now xs \<Longrightarrow> ys \<in> {xs, recent now auth_window xs} \<Longrightarrow> counts hist now ys"
  by (auto simp: counts_def recent_later)

lemma looked_at_recent: "\<forall>x \<in> set hist. x \<le> t \<Longrightarrow> looked_at t hist = recent t auth_window hist"
  unfolding looked_at_def recent_def by (rule filter_cong) auto

lemma length_recent_mono: "now \<le> t \<Longrightarrow> length (recent t w xs) \<le> length (recent now w xs)"
  by (induction xs) (auto simp: recent_def)

lemma counts_snoc:
  assumes "counts hist now xs" and "length (recent now auth_window xs) < auth_max_attempts"
  shows "counts (hist @ [now]) now (recent now auth_window xs @ [now])"
proof -
  have hist: "\<forall>x \<in> set hist. x \<le> now" "recent now auth_window xs = recent now auth_window hist"
    "\<forall>t. length (looked_at t hist) \<le> auth_max_attempts" using assms(1) by (auto simp: counts_def)
  have "length (looked_at t (hist @ [now])) \<le> auth_max_attempts" for t
  proof (cases "now \<le> t")
    case True
    then have "length (looked_at t hist) \<le> length (recent now auth_window hist)"
      using hist(1) length_recent_mono [OF True] by (subst looked_at_recent) (auto intro: order_trans)
    with assms(2) hist(2) show ?thesis by (auto simp: looked_at_def)
  next
    case False
    with hist(3) [rule_format, of t] show ?thesis by (simp add: looked_at_def)
  qed
  with assms(1) show ?thesis by (auto simp: counts_def recent_later)
qed

lemma attempts_fold_pop: "attempts_of (fold dpop keys d) k = (if k \<in> set keys then [] else attempts_of d k)"
  by (induction keys arbitrary: d) (auto simp: attempts_pop)

lemma attempts_missing: "k \<notin> set (dkeys d) \<Longrightarrow> attempts_of d k = []"
  using dget_None_iff [of d k] by (simp add: attempts_of_def)

lemma rotate_attempts:
  "attempts_of (fst (clear_auth_failures_by_prefix prefix d)) k = (if prefix \<noteq> [] \<and> starts_with k prefix then [] else attempts_of d k)"
  by (auto simp: clear_auth_failures_by_prefix_def attempts_fold_pop attempts_missing Let_def)

lemma consume_failures: "tr_failures (fst (consume_write_otp now otp s)) = tr_failures s"
  by (auto simp: consume_write_otp_def forget_otp_def Let_def split: sum.splits bool.splits)

lemma counts_step:
  assumes "counts hist now (attempts_of (tr_failures s) (pairing_key ip))"
  shows "counts (guess1 env ip (now, op) s hist) now (attempts_of (tr_failures (fst (trust_step env (now, op) s))) (pairing_key ip))"
proof (cases op)
  case (Op_Register rq)
  obtain s' r where r: "route_register_device env now rq s = (s', r)" by fastforce
  note a = route_attempts [OF r, of _ ip]
  show ?thesis
  proof (cases "rq_ip rq = ip")
    case True
    with a assms Op_Register r show ?thesis
      by (cases r) (auto intro: counts_snoc counts_Nil counts_trim [OF assms])
  next
    case False
    with a assms Op_Register r show ?thesis by (auto intro: counts_trim [OF assms])
  qed
next
  case (Op_Check public ip' header)
  then show ?thesis using assms by (auto simp: check_frame split: prod.splits)
next
  case (Op_Consume otp)
  with assms show ?thesis by (simp add: consume_failures)
next
  case (Op_Rotate prefix)
  with assms show ?thesis by (simp add: rotate_attempts counts_Nil)
qed (use assms in \<open>auto simp: reset_write_auth_def expire_write_otp_def forget_otp_def issue_write_token_def validate_write_token_def
      clear_write_auth_def revoke_device_def create_migration_challenge_def consume_migration_challenge_def
      migrate_trusted_device_def Let_def split: option.splits\<close>)

lemma counts_run:
  assumes "counts hist now (attempts_of (tr_failures s) (pairing_key ip))" and "sorted (map fst ops)" and "\<forall>x \<in> set ops. now \<le> fst x"
  shows "length (looked_at t (guess_log env ip ops s hist)) \<le> auth_max_attempts"
  using assms
proof (induction ops arbitrary: s hist now)
  case Nil
  then show ?case by (simp add: counts_def)
next
  case (Cons x ops)
  obtain n op where x: "x = (n, op)" by (cases x)
  have "counts hist n (attempts_of (tr_failures s) (pairing_key ip))" using Cons.prems counts_later by (auto simp: x)
  note counts_step [OF this, of env op]
  then show ?case using Cons.IH Cons.prems by (auto simp: x)
qed


section \<open>A code opens once\<close>

fun code_used :: "trust_env \<Rightarrow> time \<times> trust_op \<Rightarrow> trust_state \<Rightarrow> bool" where
  "code_used env (now, Op_Consume otp) s \<longleftrightarrow> snd (consume_write_otp now otp s) = Inr True"
| "code_used env (now, Op_Write_Token otp token) s \<longleftrightarrow> snd (issue_write_token now otp token s) \<noteq> None"
| "code_used env (now, Op_Register rq) s \<longleftrightarrow>
     (case (rq_body rq, snd (route_register_device env now rq s)) of
        (Some (Some (JObj ob)), Paired c) \<Rightarrow> otp_shown now (payload_text env ob ''code'') s | _ \<Rightarrow> False)"
| "code_used env _ s \<longleftrightarrow> False"

fun shows_code :: "time \<times> trust_op \<Rightarrow> bool" where
  "shows_code (now, Op_Show n) \<longleftrightarrow> True"
| "shows_code _ \<longleftrightarrow> False"

lemma register_otp:
  assumes "register_device hash totp now d otp c s = (s', r)"
  shows "tr_otp s = [] \<Longrightarrow> tr_otp s' = []" and "r = Inr (Some c') \<Longrightarrow> otp_shown now otp s \<Longrightarrow> tr_otp s' = []"
  using assms by (auto simp: register_device_def consume_write_otp_def compare_digest_def py_or_def trust_device_def
      forget_otp_def otp_shown_def Let_def split: if_splits sum.splits bool.splits)

lemma answer_otp:
  assumes "answer_pairing env now key ob c s = (s', r)"
  shows "tr_otp s = [] \<Longrightarrow> tr_otp s' = []" and "r = Paired c' \<Longrightarrow> otp_shown now (payload_text env ob ''code'') s \<Longrightarrow> tr_otp s' = []"
  using assms register_otp
  by (auto simp: answer_pairing_def split: sum.splits option.splits prod.splits)

lemma route_otp:
  assumes "route_register_device env now rq s = (s', r)"
  shows "tr_otp s = [] \<Longrightarrow> tr_otp s' = []"
    and "r = Paired c \<Longrightarrow> rq_body rq = Some (Some (JObj ob)) \<Longrightarrow> otp_shown now (payload_text env ob ''code'') s \<Longrightarrow> tr_otp s' = []"
  using assms answer_otp
  by (auto simp: route_register_device_def otp_shown_def Let_def split: sum.splits option.splits prod.splits if_splits verdict.splits json.splits)

lemma used_forgets: "code_used env x s \<Longrightarrow> tr_otp (fst (trust_step env x s)) = []"
  by (cases "(env, x, s)" rule: code_used.cases)
    (auto simp: consume_write_otp_def issue_write_token_def forget_otp_def Let_def route_otp(2) [OF surjective_pairing]
      split: if_splits sum.splits bool.splits option.splits json.splits pair_reply.splits prod.splits)

lemma forgotten_unused: "tr_otp s = [] \<Longrightarrow> \<not> code_used env x s"
  by (cases "(env, x, s)" rule: code_used.cases)
    (auto simp: consume_write_otp_def issue_write_token_def otp_shown_def split: option.splits json.splits pair_reply.splits)

lemma forgotten_stays: "tr_otp s = [] \<Longrightarrow> \<not> shows_code x \<Longrightarrow> tr_otp (fst (trust_step env x s)) = []"
  by (cases "(env, x, s)" rule: trust_step.cases)
    (auto simp: consume_write_otp_def issue_write_token_def forget_otp_def expire_write_otp_def validate_write_token_def
      clear_write_auth_def revoke_device_def create_migration_challenge_def consume_migration_challenge_def
      migrate_trusted_device_def Let_def route_otp(1) [OF surjective_pairing] split: option.splits prod.splits)

interpretation pairing_once: replay_guard "\<lambda>s. True" "\<lambda>x. \<not> shows_code x" "\<lambda>x. 0" 0 "\<lambda>x s. fst (trust_step env x s)" "code_used env"
    "\<lambda>s. tr_otp s = []"
  for env
  by unfold_locales (auto simp: used_forgets forgotten_unused forgotten_stays)

text \<open>C38 (a code opens once). In any run in which no new code is shown, the code on the screen is used at most once, be it to
  pair a device, to get a write token or to enter a session group.\<close>

theorem pairing_code_opens_once:
  assumes "list_all (\<lambda>x. \<not> shows_code x) ops"
  shows "accepted_in (\<lambda>x s. fst (trust_step env x s)) (code_used env) ops s \<le> 1"
  using assms by (intro pairing_once.at_most_once) (auto simp: sorted_iff_nth_mono)

section \<open>Who is trusted\<close>

text \<open>The record of a device descends from a pairing with a valid code that handed out a credential of this hash.\<close>

definition trust_earned :: "trust_env \<Rightarrow> (time \<times> trust_op) list \<Rightarrow> trust_state \<Rightarrow> string \<Rightarrow> string \<Rightarrow> bool" where
  "trust_earned env ops s d h \<longleftrightarrow>
     (\<exists>pre now rq ob post. ops = pre @ (now, Op_Register rq) # post \<and> rq_body rq = Some (Some (JObj ob)) \<and>
        snd (route_register_device env now rq (trust_after env pre s)) = Paired (rq_credential rq) \<and>
        code_valid env now (payload_text env ob ''code'') (trust_after env pre s) \<and> te_hash env (rq_credential rq) = h \<and>
        follow env post (trust_after env (pre @ [(now, Op_Register rq)]) s) (str_strip (payload_text env ob ''device_id'')) = Some d)"

lemma trust_earned_later:
  assumes "trust_earned env ops s d h" and "follow1 env x (trust_after env ops s) d = Some d'"
  shows "trust_earned env (ops @ [x]) s d' h"
proof -
  obtain pre now rq ob post where e: "ops = pre @ (now, Op_Register rq) # post" "rq_body rq = Some (Some (JObj ob))"
    "snd (route_register_device env now rq (trust_after env pre s)) = Paired (rq_credential rq)"
    "code_valid env now (payload_text env ob ''code'') (trust_after env pre s)" "te_hash env (rq_credential rq) = h"
    "follow env post (trust_after env (pre @ [(now, Op_Register rq)]) s) (str_strip (payload_text env ob ''device_id'')) = Some d"
    using assms(1) unfolding trust_earned_def by blast
  have "follow env (post @ [x]) (trust_after env (pre @ [(now, Op_Register rq)]) s) (str_strip (payload_text env ob ''device_id'')) = Some d'"
    using e(1,6) assms(2) by (simp add: follow_append)
  moreover have "ops @ [x] = pre @ (now, Op_Register rq) # (post @ [x])" using e(1) by simp
  ultimately show ?thesis using e(2-5) unfolding trust_earned_def by blast
qed

definition all_earned :: "trust_env \<Rightarrow> (time \<times> trust_op) list \<Rightarrow> trust_state \<Rightarrow> bool" where
  "all_earned env ops s \<longleftrightarrow> (\<forall>d v. dget (tr_devices (trust_after env ops s)) d = Some v \<longrightarrow>
     (\<exists>now h. v = paired_record now h \<and> trust_earned env ops s d h))"

lemma carried:
  assumes "all_earned env ops s" and "dget (tr_devices (trust_after env ops s)) d = Some v"
    and "follow1 env x (trust_after env ops s) d = Some d'"
  shows "\<exists>n h. v = paired_record n h \<and> trust_earned env (ops @ [x]) s d' h"
proof -
  obtain n h where "v = paired_record n h" "trust_earned env ops s d h" using assms(1,2) unfolding all_earned_def by blast
  then show ?thesis using trust_earned_later [OF _ assms(3)] by blast
qed

lemma all_earned_frame:
  assumes "all_earned env ops s" and "tr_devices (fst (trust_step env x (trust_after env ops s))) = tr_devices (trust_after env ops s)"
    and "\<And>d. follow1 env x (trust_after env ops s) d = Some d"
  shows "all_earned env (ops @ [x]) s"
  unfolding all_earned_def trust_after_simps assms(2) using carried [OF assms(1) _ assms(3)] by blast

lemma image_keys_pop: "k' \<in> fst ` set (dpop k d) \<longleftrightarrow> k' \<noteq> k \<and> k' \<in> fst ` set d"
  by (induction d) auto

lemma all_earned_step:
  assumes e: "all_earned env ops s"
  shows "all_earned env (ops @ [(now, op)]) s"
proof (cases op)
  case (Op_Register rq)
  let ?s = "trust_after env ops s"
  obtain s' r where r: "route_register_device env now rq ?s = (s', r)" by fastforce
  from route_devices [OF r] consider (same) "tr_devices s' = tr_devices ?s" "\<forall>c. r \<noteq> Paired c"
    | (paired) ob where "rq_body rq = Some (Some (JObj ob))" "r = Paired (rq_credential rq)"
        "code_valid env now (payload_text env ob ''code'') ?s"
        "tr_devices s' = dput (str_strip (payload_text env ob ''device_id'')) (paired_record now (te_hash env (rq_credential rq))) (tr_devices ?s)"
    by blast
  then show ?thesis
  proof cases
    case same
    with r Op_Register show ?thesis by (intro all_earned_frame [OF e]) (auto split: option.splits json.splits pair_reply.splits)
  next
    case paired
    let ?d = "str_strip (payload_text env ob ''device_id'')"
    have new: "trust_earned env (ops @ [(now, op)]) s ?d (te_hash env (rq_credential rq))"
      unfolding trust_earned_def using paired r Op_Register
      by (intro exI [of _ ops] exI [of _ now] exI [of _ rq] exI [of _ ob] exI [of _ "[]"]) auto
    have old: "follow1 env (now, op) ?s d = Some d" if "d \<noteq> ?d" for d using that paired r Op_Register by auto
    show ?thesis
      unfolding all_earned_def
    proof (intro allI impI)
      fix d v
      assume "dget (tr_devices (trust_after env (ops @ [(now, op)]) s)) d = Some v"
      with paired(4) r Op_Register have v: "(if d = ?d then Some (paired_record now (te_hash env (rq_credential rq))) else dget (tr_devices ?s) d) = Some v"
        by (simp add: dget_put)
      show "\<exists>n h. v = paired_record n h \<and> trust_earned env (ops @ [(now, op)]) s d h"
        using v new carried [OF e, of d v "(now, op)" d] old [of d] by (cases "d = ?d") auto
    qed
  qed
next
  case (Op_Revoke x)
  show ?thesis
    unfolding all_earned_def
  proof (intro allI impI)
    fix d v
    assume "dget (tr_devices (trust_after env (ops @ [(now, op)]) s)) d = Some v"
    then have "dget (tr_devices (trust_after env ops s)) d = Some v \<and> follow1 env (now, op) (trust_after env ops s) d = Some d"
      using Op_Revoke by (auto simp: revoke_device_def dget_pop Let_def split: if_splits)
    then show "\<exists>n h. v = paired_record n h \<and> trust_earned env (ops @ [(now, op)]) s d h"
      using carried [OF e, of d v "(now, op)" d] by blast
  qed
next
  case (Op_Move p c)
  show ?thesis
  proof (cases "snd (migrate_trusted_device p c (trust_after env ops s))")
    case True
    then obtain v0 where v0: "dget (tr_devices (trust_after env ops s)) (str_strip p) = Some v0" "str_strip p \<noteq> str_strip c"
      by (auto simp: migrate_trusted_device_def Let_def split: option.splits if_splits)
    show ?thesis
      unfolding all_earned_def
    proof (intro allI impI)
      fix d v
      assume a: "dget (tr_devices (trust_after env (ops @ [(now, op)]) s)) d = Some v"
      then have "(d \<noteq> str_strip p \<and> dget (tr_devices (trust_after env ops s)) d = Some v \<and> follow1 env (now, op) (trust_after env ops s) d = Some d) \<or>
        (d = str_strip c \<and> v = v0 \<and> follow1 env (now, op) (trust_after env ops s) (str_strip p) = Some d)"
        using True v0 Op_Move
        by (auto simp: migrate_trusted_device_def dget_put dget_pop Let_def image_keys_pop split: if_splits)
      then show "\<exists>n h. v = paired_record n h \<and> trust_earned env (ops @ [(now, op)]) s d h"
        using v0(1) carried [OF e, of _ _ "(now, op)"] by blast
    qed
  next
    case False
    with Op_Move show ?thesis
      by (intro all_earned_frame [OF e]) (auto simp: migrate_trusted_device_def Let_def split: option.splits if_splits)
  qed
qed (intro all_earned_frame [OF e]; auto simp: consume_devices reset_write_auth_def expire_write_otp_def forget_otp_def issue_write_token_def
      validate_write_token_def clear_write_auth_def create_migration_challenge_def consume_migration_challenge_def Let_def split: prod.splits)+

lemma all_earned_run:
  assumes "tr_devices s = []"
  shows "all_earned env ops s"
proof (induction ops rule: rev_induct)
  case Nil
  then show ?case using assms by (simp add: all_earned_def)
next
  case (snoc x ops)
  then show ?case using all_earned_step by (cases x) blast
qed

text \<open>C36 (trust is trust_earned). A credential that the server takes for a device was handed out in this run by a pairing whose code
  was on the screen in time or came from the authenticator, and the record of that pairing has not been revoked
  or replaced since: it belongs to the device, or has been moved to its identifier.\<close>

theorem device_trust_earned:
  assumes "tr_devices s = []" and "verify_device_credential (te_hash env) repr d c (trust_after env ops s) = Inr True"
  shows "\<exists>pre now rq ob post. ops = pre @ (now, Op_Register rq) # post \<and> rq_body rq = Some (Some (JObj ob)) \<and>
      snd (route_register_device env now rq (trust_after env pre s)) = Paired (rq_credential rq) \<and>
      (otp_shown now (payload_text env ob ''code'') (trust_after env pre s) \<or> verify_totp (te_totp env) now (payload_text env ob ''code'') = Inr True) \<and>
      te_hash env (rq_credential rq) = te_hash env c \<and>
      follow env post (trust_after env (pre @ [(now, Op_Register rq)]) s) (str_strip (payload_text env ob ''device_id'')) = Some (str_strip d)"
proof -
  obtain r where r: "dget (tr_devices (trust_after env ops s)) (str_strip d) = Some (JObj r)"
    using assms(2) by (auto simp: verify_device_credential_def Let_def split: option.splits json.splits)
  with all_earned_run [OF assms(1), of env ops] obtain n h where h: "JObj r = paired_record n h" "trust_earned env ops s (str_strip d) h"
    unfolding all_earned_def by blast
  have "h = te_hash env c"
    using assms(2) r h(1) by (auto simp: verify_device_credential_def paired_record_def jget_def py_and_True Let_def split: if_splits)
  with h(2) show ?thesis by (auto simp: trust_earned_def code_valid_def)
qed

section \<open>A pairing\<close>

definition demo_trust_env :: trust_env where
  "demo_trust_env = \<lparr>te_hash = (\<lambda>s. s), te_totp = (\<lambda>now s. Inr False), te_repr = (\<lambda>v. []), te_verify = (\<lambda>p c. False),
     te_keys = \<lparr>ak_local = [], ak_tunnel = [], ak_community = [], ak_community_credential = [], ak_admin = [], ak_admin_credential = []\<rparr>\<rparr>"

definition demo_pair_request :: "string \<Rightarrow> register_request" where
  "demo_pair_request otp = \<lparr>rq_lan = True, rq_public = False, rq_ip = ''a'', rq_header = [],
     rq_body = Some (Some (JObj [(''device_id'', JStr ''tv''), (''code'', JStr otp)])), rq_credential = ''k''\<rparr>"

definition demo_pairing :: "(time \<times> trust_op) list" where
  "demo_pairing = [(0, Op_Show 123456), (10, Op_Register (demo_pair_request ''1'')), (20, Op_Register (demo_pair_request ''123456''))]"

lemma demo_otp_text: "zfill 6 (show_nat 123456) = ''123456''"
  by (simp add: zfill_def show_nat.simps digit_char_def)

lemma demo_texts: "str_strip ''tv'' = ''tv''" "str_strip ''1'' = ''1''" "str_strip ''123456'' = ''123456''" "str_strip ''k'' = ''k''"
  "is_ascii ''123456''" "is_ascii ''1''" "is_ascii ''k''"
  by (simp_all add: str_strip_def is_space_def is_ascii_def char_eval)

lemma demo_digits: "filter str_isdigit ''1'' = ''1''" "filter str_isdigit ''123456'' = ''123456''"
  by (simp_all add: str_isdigit_def is_digit_def char_eval)

lemmas demo_pair_eval = demo_trust_env_def demo_pair_request_def demo_pairing_def demo_otp_text demo_texts demo_digits reset_write_auth_def empty_trust_def
  route_register_device_def check_password_def auth_attempt_allowed_def answer_pairing_def payload_text_def jget_or_def register_device_def
  consume_write_otp_def compare_digest_def verify_totp_def py_or_def record_auth_failure_at_def clear_auth_failures_def trust_device_def
  forget_otp_def attempts_of_def recent_def rate_key_of_def Let_def

lemma demo_steps:
  "fst (reset_write_auth 0 123456 empty_trust) = empty_trust\<lparr>tr_otp := ''123456'', tr_otp_expires := 600\<rparr>"
  "route_register_device demo_trust_env 10 (demo_pair_request ''1'') (empty_trust\<lparr>tr_otp := ''123456'', tr_otp_expires := 600\<rparr>) =
     (empty_trust\<lparr>tr_otp := ''123456'', tr_otp_expires := 600, tr_failures := [(''password:local:a'', []), (''totp-register:a'', [10])]\<rparr>, Wrong_Code)"
  "route_register_device demo_trust_env 20 (demo_pair_request ''123456'')
     (empty_trust\<lparr>tr_otp := ''123456'', tr_otp_expires := 600, tr_failures := [(''password:local:a'', []), (''totp-register:a'', [10])]\<rparr>) =
     (empty_trust\<lparr>tr_devices := [(''tv'', paired_record 20 ''k'')], tr_failures := [(''password:local:a'', [])]\<rparr>, Paired ''k'')"
  by (simp_all add: demo_pair_eval)

lemma demo_trusted:
  "trust_after demo_trust_env demo_pairing empty_trust =
     empty_trust\<lparr>tr_devices := [(''tv'', paired_record 20 ''k'')], tr_failures := [(''password:local:a'', [])]\<rparr>"
  by (simp add: demo_pairing_def demo_steps)


theorem pairing_code_opens_once_witness:
  "otp_shown 20 ''123456'' (trust_after demo_trust_env (take 2 demo_pairing) empty_trust) \<and>
   accepted_in (\<lambda>x s. fst (trust_step demo_trust_env x s)) (code_used demo_trust_env) (tl demo_pairing)
     (trust_after demo_trust_env (take 1 demo_pairing) empty_trust) \<le> 1"
proof (rule conjI)
  show "otp_shown 20 ''123456'' (trust_after demo_trust_env (take 2 demo_pairing) empty_trust)"
    by (simp add: demo_pairing_def demo_steps otp_shown_def demo_texts)
  show "accepted_in (\<lambda>x s. fst (trust_step demo_trust_env x s)) (code_used demo_trust_env) (tl demo_pairing)
     (trust_after demo_trust_env (take 1 demo_pairing) empty_trust) \<le> 1"
    by (rule pairing_code_opens_once) (simp add: demo_pairing_def)
qed

theorem device_trust_earned_witness:
  "verify_device_credential (\<lambda>s. s) (\<lambda>v. []) ''tv'' ''k'' (trust_after demo_trust_env demo_pairing empty_trust) = Inr True \<and>
   (\<exists>pre now rq post. demo_pairing = pre @ (now, Op_Register rq) # post \<and>
      snd (route_register_device demo_trust_env now rq (trust_after demo_trust_env pre empty_trust)) = Paired (rq_credential rq))"
proof -
  have v: "verify_device_credential (te_hash demo_trust_env) (\<lambda>v. []) ''tv'' ''k'' (trust_after demo_trust_env demo_pairing empty_trust) = Inr True"
    unfolding demo_trusted by (simp add: verify_device_credential_def demo_texts demo_trust_env_def paired_record_def jget_def py_and_def compare_digest_def Let_def)
  have e: "tr_devices empty_trust = []" by (simp add: empty_trust_def)
  show ?thesis using device_trust_earned [OF e v] v by (auto simp: demo_trust_env_def)
qed

section \<open>The authenticator of the module\<close>

definition totp_digits :: "(string \<Rightarrow> string) \<Rightarrow> int \<Rightarrow> string" where
  "totp_digits mac counter =
     (let digest = mac (pack_be64 (nat counter))
      in zfill 6 (show_nat (be_value (take 4 (drop (code (last digest) mod 16) digest)) mod 2 ^ 31 mod 10 ^ 6)))"

lemma totp_at_digits:
  assumes "\<forall>m. length (mac m) = 20" and "0 \<le> \<lfloor>t / 30\<rfloor>" and "\<lfloor>t / 30\<rfloor> < 2 ^ 64"
  shows "totp_at mac t = Inr (totp_digits mac \<lfloor>t / 30\<rfloor>)"
proof -
  have l: "length (take 4 (drop (n mod 16) (mac m))) = 4" for n m
    using mod_less_divisor [of 16 n] by (simp add: assms(1) del: mod_less_divisor)
  have "mac m \<noteq> []" for m using assms(1) by (metis list.size(3) zero_neq_numeral)
  with l assms(2,3) show ?thesis by (simp add: totp_at_def totp_digits_def Let_def del: length_take length_drop)
qed

lemma digits_ascii: "list_all is_digit s \<Longrightarrow> is_ascii s"
  by (fastforce simp: is_ascii_def list_all_iff is_digit_def Let_def)

lemma totp_digits_ascii: "is_ascii (totp_digits mac n)"
proof -
  have "list_all is_digit (replicate k CHR ''0'')" for k by (simp add: list_all_iff is_digit_def char_eval)
  then show ?thesis unfolding totp_digits_def zfill_def Let_def by (intro digits_ascii) (simp add: show_nat_digits del: replicate_0)
qed

lemma tick_shift: "\<lfloor>(now + of_int k * 30) / 30\<rfloor> = \<lfloor>now / 30\<rfloor> + k" for now :: real
proof -
  have "(now + of_int k * 30) / 30 = now / 30 + of_int k" by (simp add: add_divide_distrib)
  then show ?thesis by (metis floor_add_int)
qed

text \<open>The code an authenticator shows is taken within half a minute of the showing, on either side.\<close>

theorem shown_code_accepted:
  assumes "\<forall>m. length (mac m) = 20" and "30 \<le> now" and "now < 2 ^ 67" and "\<bar>now - shown\<bar> \<le> 30" and "totp_at mac shown = Inr otp"
  shows "fallback_totp mac 1 now otp = Inr True"
proof -
  have tick: "1 \<le> \<lfloor>now / 30\<rfloor>" "\<lfloor>now / 30\<rfloor> + 1 < 2 ^ 64"
  proof -
    show "1 \<le> \<lfloor>now / 30\<rfloor>" using assms(2) by linarith
    have "now / 30 < 2 ^ 63" using assms(3) by simp
    then have "\<lfloor>now / 30\<rfloor> < 2 ^ 63" by (simp add: floor_less_iff)
    then show "\<lfloor>now / 30\<rfloor> + 1 < 2 ^ 64" by simp
  qed
  have at: "totp_at mac (now + of_int k * 30) = Inr (totp_digits mac (\<lfloor>now / 30\<rfloor> + k))" if "\<bar>k\<bar> \<le> 1" for k
  proof -
    have "0 \<le> \<lfloor>now / 30\<rfloor> + k" "\<lfloor>now / 30\<rfloor> + k < 2 ^ 64" using tick that by linarith+
    then show ?thesis using totp_at_digits [OF assms(1), of "now + of_int k * 30"] unfolding tick_shift by simp
  qed
  have "\<lfloor>now / 30\<rfloor> - 1 \<le> \<lfloor>shown / 30\<rfloor>" "\<lfloor>shown / 30\<rfloor> \<le> \<lfloor>now / 30\<rfloor> + 1" using assms(4) by linarith+
  then obtain k where k: "\<lfloor>shown / 30\<rfloor> = \<lfloor>now / 30\<rfloor> + k" "\<bar>k\<bar> \<le> 1" by (metis abs_le_iff add.commute diff_add_cancel diff_le_eq minus_diff_eq le_diff_eq add_le_imp_le_right neg_le_iff_le)
  have otp: "otp = totp_digits mac (\<lfloor>now / 30\<rfloor> + k)"
  proof -
    have "0 \<le> \<lfloor>shown / 30\<rfloor>" "\<lfloor>shown / 30\<rfloor> < 2 ^ 64" using k tick by linarith+
    then show ?thesis using assms(5) totp_at_digits [OF assms(1), of shown] k(1) by simp
  qed
  have "k = -1 \<or> k = 0 \<or> k = 1" using k(2) by auto
  moreover have "[- 1 .. 1] = [-1, 0, 1 :: int]" by (simp add: upto.simps)
  ultimately show ?thesis
    using at [of "-1"] at [of 0] at [of 1] otp
    by (auto simp: fallback_totp_def py_or_def compare_digest_def totp_digits_ascii)
qed

theorem shown_code_accepted_witness:
  "totp_at (\<lambda>m. replicate 20 (CHR 0x01)) 40 = Inr ''843009'' \<and> fallback_totp (\<lambda>m. replicate 20 (CHR 0x01)) 1 60 ''843009'' = Inr True"
proof -
  have r: "replicate 4 (CHR 0x01) = [CHR 0x01, CHR 0x01, CHR 0x01, CHR 0x01]" by (simp add: numeral_eq_Suc)
  have n: "show_nat 843009 = ''843009''" by (simp add: show_nat.simps digit_char_def)
  have t: "totp_at (\<lambda>m. replicate 20 (CHR 0x01)) 40 = Inr ''843009''"
    by (simp add: totp_at_def be_value_def zfill_def char_eval r n Let_def)
  show ?thesis using shown_code_accepted [OF _ _ _ _ t, of 60] t by simp
qed

end
