(* ===== verification/Public_Uploads.thy ===== *)
theory Public_Uploads
  imports Auth_Limits Shared_Paths
begin

text \<open>
  Uploads into the Inbox: the requests a host decides on and the grants that come of them (\<^verbatim>\<open>state.py\<close>), and the route that
  receives a file (\<^verbatim>\<open>routes/routes/uploads.py\<close>). The disk is the list of the directories and a dictionary from the files to their
  bytes; the resolution of symbolic links and the right to write are arguments. The history of the Inbox, the progress
  messages and the activity log are not modelled.
\<close>

section \<open>Requests and grants\<close>

datatype request_status = Pending | Accepted | Declined | Expired

record upload_request =
  ur_id :: string
  ur_filename :: string
  ur_size :: int
  ur_client :: string
  ur_folder :: string
  ur_status :: request_status
  ur_created :: time
  ur_expires :: time
  ur_token :: string

record upload_grant =
  ug_filename :: string
  ug_size :: int
  ug_client :: string
  ug_folder :: string
  ug_expires :: time

record uploads =
  up_requests :: "(string, upload_request) dict"
  up_grants :: "(string, upload_grant) dict"

abbreviation request_ttl :: real where "request_ttl \<equiv> 120"

definition no_uploads :: uploads where
  "no_uploads = \<lparr>up_requests = [], up_grants = []\<rparr>"

definition create_public_upload_request ::
    "time \<Rightarrow> string \<Rightarrow> string \<Rightarrow> int \<Rightarrow> string \<Rightarrow> string \<Rightarrow> uploads \<Rightarrow> uploads \<times> upload_request" where
  "create_public_upload_request now request_id filename bytes client folder u =
     (let request = \<lparr>ur_id = request_id, ur_filename = filename, ur_size = bytes, ur_client = client, ur_folder = folder,
            ur_status = Pending, ur_created = now, ur_expires = now + request_ttl, ur_token = []\<rparr>
      in (u\<lparr>up_requests := dput request_id request (up_requests u)\<rparr>, request))"

definition issue_public_upload_grant :: "time \<Rightarrow> string \<Rightarrow> string \<Rightarrow> int \<Rightarrow> string \<Rightarrow> string \<Rightarrow> uploads \<Rightarrow> uploads \<times> string" where
  "issue_public_upload_grant now token filename bytes client folder u =
     (u\<lparr>up_grants := dput token \<lparr>ug_filename = filename, ug_size = bytes, ug_client = client, ug_folder = folder,
         ug_expires = now + request_ttl\<rparr> (up_grants u)\<rparr>, token)"

text \<open>The decision of the host.\<close>

definition resolve_public_upload_request ::
    "time \<Rightarrow> string \<Rightarrow> bool \<Rightarrow> string \<Rightarrow> uploads \<Rightarrow> uploads \<times> upload_request option" where
  "resolve_public_upload_request now request_id accepted token u =
     (case dget (up_requests u) request_id of
        None \<Rightarrow> (u, None)
      | Some r \<Rightarrow>
          if ur_status r \<noteq> Pending then (u, Some r)
          else (let r = r\<lparr>ur_status := if accepted then Accepted else Declined\<rparr>;
                    (u, r) = (if accepted
                       then (let (u, t) = issue_public_upload_grant now token (ur_filename r) (ur_size r) (ur_client r) (ur_folder r) u
                             in (u, r\<lparr>ur_token := t\<rparr>))
                       else (u, r))
                in (u\<lparr>up_requests := dput request_id r (up_requests u)\<rparr>, Some r)))"

definition get_public_upload_request :: "time \<Rightarrow> string \<Rightarrow> uploads \<Rightarrow> uploads \<times> upload_request option" where
  "get_public_upload_request now request_id u =
     (case dget (up_requests u) request_id of
        None \<Rightarrow> (u, None)
      | Some r \<Rightarrow>
          (let r = (if ur_status r = Pending \<and> ur_expires r \<le> now then r\<lparr>ur_status := Expired\<rparr> else r)
           in (u\<lparr>up_requests := dput request_id r (up_requests u)\<rparr>, Some r)))"

definition consume_public_upload_grant :: "time \<Rightarrow> string \<Rightarrow> string \<Rightarrow> int \<Rightarrow> uploads \<Rightarrow> uploads \<times> bool" where
  "consume_public_upload_grant now token filename bytes u =
     (let u = u\<lparr>up_grants := dkeep (\<lambda>g. now < ug_expires g) (up_grants u)\<rparr>
      in case dget (up_grants u) token of
           None \<Rightarrow> (u, False)
         | Some g \<Rightarrow>
             if ug_filename g \<noteq> filename \<or> ug_size g \<noteq> bytes then (u, False)
             else (u\<lparr>up_grants := dpop token (up_grants u)\<rparr>, True))"

section \<open>Receiving a file\<close>

record disk =
  dk_real :: "path \<Rightarrow> path"
  dk_may_write :: "path \<Rightarrow> bool"
  dk_dirs :: "path list"
  dk_files :: "(path, string) dict"

definition disk_fs :: "disk \<Rightarrow> fs" where
  "disk_fs dk = \<lparr>realpath = dk_real dk, is_dir = (\<lambda>p. p \<in> set (dk_dirs dk)), is_file = (\<lambda>p. p \<in> set (dkeys (dk_files dk)))\<rparr>"

definition parent_of :: "path \<Rightarrow> path" where
  "parent_of p = butlast p"

text \<open>\<open>mkdir(parents=True, exist_ok=True)\<close>.\<close>

definition make_dirs :: "path \<Rightarrow> disk \<Rightarrow> disk option" where
  "make_dirs p dk =
     (let prefixes = map (\<lambda>n. take n p) [0 ..< Suc (length p)]
      in if list_ex (\<lambda>q. q \<in> set (dkeys (dk_files dk))) prefixes then None
         else Some (dk\<lparr>dk_dirs := dk_dirs dk @ filter (\<lambda>q. q \<notin> set (dk_dirs dk)) prefixes\<rparr>))"

definition path_suffix :: "string \<Rightarrow> string" where
  "path_suffix name =
     (let after = takeWhile (\<lambda>c. c \<noteq> CHR ''.'') (rev name); n = length after
      in if n = length name \<or> n = 0 \<or> Suc n = length name then [] else CHR ''.'' # rev after)"

definition path_stem :: "string \<Rightarrow> string" where
  "path_stem name = take (length name - length (path_suffix name)) name"

definition upload_candidate :: "string \<Rightarrow> string \<Rightarrow> string" where
  "upload_candidate name n = path_stem name @ '' ('' @ n @ '')'' @ path_suffix name"

definition unique_upload_path :: "disk \<Rightarrow> string \<Rightarrow> path \<Rightarrow> path" where
  "unique_upload_path dk pid target =
     (let candidates = map (\<lambda>i. parent_of target @ [upload_candidate (name_of target) (show_nat i)]) [1 ..< 10000]
      in case find (\<lambda>p. \<not> path_exists (disk_fs dk) p) candidates of
           Some p \<Rightarrow> p
         | None \<Rightarrow> parent_of target @ [upload_candidate (name_of target) pid])"

text \<open>The bytes of the body that arrive before the connection closes are written in chunks; the loop raises when it closes
  before the announced length, and what has been written stays.\<close>

abbreviation receive_chunk :: nat where "receive_chunk \<equiv> 8388608"

function receive_body :: "nat \<Rightarrow> string \<Rightarrow> string \<Rightarrow> string \<times> bool" where
  "receive_body remaining body written =
     (if remaining = 0 then (written, True)
      else (let chunk = take (min receive_chunk remaining) body
            in if chunk = [] then (written, False)
               else receive_body (remaining - length chunk) (drop (min receive_chunk remaining) body) (written @ chunk)))"
  by pat_completeness auto
termination
  by (relation "measure (\<lambda>(remaining, body, written). remaining)") (auto simp: Let_def)

declare receive_body.simps [simp del]

datatype upload_reply =
    Upload_Status nat
  | Upload_Answered
  | Upload_Stored path nat bool
  | Upload_Raised py_error

record upload_config =
  uc_enabled :: bool
  uc_by_request :: bool
  uc_inbox :: path
  uc_max_bytes :: nat
  uc_extensions :: "string set"
  uc_per_hour :: nat
  uc_pid :: string

record upload_call =
  ul_tunnel :: bool
  ul_role :: string
  ul_ip :: string
  ul_name :: string
  ul_length :: "nat option"
  ul_token :: string
  ul_overwrite :: bool
  ul_body :: string

record upload_server =
  us_uploads :: uploads
  us_limits :: attempt_log
  us_limited :: "string set"
  us_disk :: disk

definition bad_filename :: "string \<Rightarrow> bool" where
  "bad_filename filename \<longleftrightarrow> name_of (path_parts filename) \<noteq> filename \<or> filename = ''.'' \<or> filename = ''..''"

text \<open>From \<open>relative_to\<close> to the reply: the target outside the Inbox raises \<open>ValueError\<close> before the file is opened.\<close>

definition store_upload :: "time \<Rightarrow> upload_config \<Rightarrow> upload_call \<Rightarrow> nat \<Rightarrow> path \<Rightarrow> upload_server \<Rightarrow> upload_server \<times> upload_reply" where
  "store_upload now cf ul bytes target s =
     (let dk = us_disk s
      in if relative_to target (dk_real dk (uc_inbox cf)) = None then (s, Upload_Raised Value_Error)
         else if is_dir (disk_fs dk) target \<or> \<not> is_dir (disk_fs dk) (parent_of target) then (s, Upload_Status 500)
         else if \<not> dk_may_write dk target then (s, Upload_Status 403)
         else (let (content, complete) = receive_body bytes (ul_body ul) [];
                   s = s\<lparr>us_disk := dk\<lparr>dk_files := dput target content (dk_files dk)\<rparr>\<rparr>
               in if \<not> complete then (s, Upload_Status 500)
                  else (if ul_tunnel ul then s\<lparr>us_limits := record_upload_for_ip now (ul_ip ul) (us_limits s)\<rparr> else s,
                        Upload_Stored target (length content) (ul_overwrite ul))))"

definition receive_upload :: "time \<Rightarrow> upload_config \<Rightarrow> upload_call \<Rightarrow> path \<Rightarrow> upload_server \<Rightarrow> upload_server \<times> upload_reply" where
  "receive_upload now cf ul folder s =
     (case ul_length ul of
        None \<Rightarrow> (s, Upload_Answered)
      | Some bytes \<Rightarrow>
          if (if ul_tunnel ul then uc_max_bytes cf else 512 * 1024 * 1024) < bytes then (s, Upload_Status 413)
          else (let (u, granted) = (if uc_by_request cf
                       then consume_public_upload_grant now (ul_token ul) (ul_name ul) (int bytes) (us_uploads s) else (us_uploads s, True));
                    s = s\<lparr>us_uploads := u\<rparr>; f = disk_fs (us_disk s)
                in if \<not> granted then (s, Upload_Status 403)
                   else (case resolve_under_shared_root f folder (ul_name ul) of
                           None \<Rightarrow> (s, Upload_Status 403)
                         | Some target \<Rightarrow>
                             store_upload now cf ul bytes
                               (if path_exists f target \<and> \<not> ul_overwrite ul then unique_upload_path (us_disk s) (uc_pid cf) target else target) s)))"

definition route_upload :: "time \<Rightarrow> upload_config \<Rightarrow> upload_call \<Rightarrow> upload_server \<Rightarrow> upload_server \<times> upload_reply" where
  "route_upload now cf ul s =
     (if \<not> uc_enabled cf then (s, Upload_Status 403)
      else (let (s, allowed) = (if ul_tunnel ul \<and> ul_role ul = ''community''
                  then (let (d, limited, ok) = upload_allowed_for_ip (uc_per_hour cf) now (ul_ip ul) (us_limits s) (us_limited s)
                        in (s\<lparr>us_limits := d, us_limited := limited\<rparr>, ok)) else (s, True))
            in if \<not> allowed then (s, Upload_Status 429)
               else if ul_name ul = [] \<or> bad_filename (ul_name ul) then (s, Upload_Status 400)
               else if ul_tunnel ul \<and> uc_extensions cf \<noteq> {} \<and> str_lower (path_suffix (ul_name ul)) \<notin> uc_extensions cf
                 then (s, Upload_Status 415)
               else (case resolve_under_shared_root (disk_fs (us_disk s)) (uc_inbox cf) (normalize_relative_path ''/'') of
                       None \<Rightarrow> (s, Upload_Status 500)
                     | Some folder \<Rightarrow>
                         (case make_dirs folder (us_disk s) of
                            None \<Rightarrow> (s, Upload_Status 500)
                          | Some dk \<Rightarrow> receive_upload now cf ul folder (s\<lparr>us_disk := dk\<rparr>)))))"

section \<open>What is stored\<close>

lemma receive_all: "receive_body n body w = (w @ take n body, n \<le> length body)"
proof (induction n body w rule: receive_body.induct)
  case (1 n body w)
  define m where "m = min receive_chunk n"
  show ?case
  proof (cases "n = 0 \<or> take m body = []")
    case True
    then show ?thesis unfolding receive_body.simps [of n] m_def [symmetric] Let_def by (auto simp: m_def)
  next
    case False
    then have "n \<noteq> 0" "take (min receive_chunk n) body \<noteq> []" by (auto simp: m_def)
    from "1.IH" [OF this(1) refl this(2)]
    have IH: "receive_body (n - length (take m body)) (drop m body) (w @ take m body) =
        ((w @ take m body) @ take (n - length (take m body)) (drop m body), n - length (take m body) \<le> length (drop m body))"
      by (simp add: m_def)
    have "receive_body n body w = receive_body (n - length (take m body)) (drop m body) (w @ take m body)"
      unfolding receive_body.simps [of n] m_def [symmetric] Let_def using False by (auto simp del: take_eq_Nil)
    also have "\<dots> = (w @ take n body, n \<le> length body)"
    proof (cases "m \<le> length body")
      case True
      have "m \<le> n" by (simp add: m_def)
      with True show ?thesis unfolding IH by (auto simp: take_add [symmetric])
    next
      case False
      then show ?thesis unfolding IH by (auto simp: m_def)
    qed
    finally show ?thesis .
  qed
qed

lemma store_upload_cases:
  assumes "store_upload now cf ul bytes target s = (s', r)"
  obtains (stored) "r = Upload_Stored target bytes (ul_overwrite ul)" "bytes \<le> length (ul_body ul)" "is_below target (dk_real (us_disk s) (uc_inbox cf))"
      "us_disk s' = (us_disk s)\<lparr>dk_files := dput target (take bytes (ul_body ul)) (dk_files (us_disk s))\<rparr>"
    | (cut) "r = Upload_Status 500" "length (ul_body ul) < bytes" "is_below target (dk_real (us_disk s) (uc_inbox cf))"
      "us_disk s' = (us_disk s)\<lparr>dk_files := dput target (ul_body ul) (dk_files (us_disk s))\<rparr>"
    | (refused) "us_disk s' = us_disk s" "\<forall>p n b. r \<noteq> Upload_Stored p n b"
proof -
  note a = assms [unfolded store_upload_def receive_all Let_def prod.case append_Nil]
  show thesis
  proof (cases "relative_to target (dk_real (us_disk s) (uc_inbox cf)) = None \<or> is_dir (disk_fs (us_disk s)) target \<or>
      \<not> is_dir (disk_fs (us_disk s)) (parent_of target) \<or> \<not> dk_may_write (us_disk s) target")
    case True
    with a show thesis by (intro refused) (auto split: if_splits)
  next
    case False
    then have "is_below target (dk_real (us_disk s) (uc_inbox cf))" by (simp add: relative_to_def split: if_splits)
    with False a show thesis by (cases "bytes \<le> length (ul_body ul)") (auto intro: stored cut split: if_splits)
  qed
qed

lemma make_dirs_files: "make_dirs p dk = Some dk' \<Longrightarrow> dk_files dk' = dk_files dk \<and> dk_real dk' = dk_real dk"
  by (auto simp: make_dirs_def Let_def split: if_splits)

lemma inbox_folder: "resolve_under_shared_root f b (normalize_relative_path ''/'') = Some (realpath f b)"
  by (simp add: resolve_under_shared_root_def normalize_relative_path_def to_slash_def replace_char_def strip_of_def lstrip_of_def
      rstrip_of_def slashes_def path_parts_def Let_def)

lemma disk_fs_simps [simp]: "realpath (disk_fs dk) = dk_real dk"
  by (simp add: disk_fs_def)

text \<open>Which path a name is stored under.\<close>

definition upload_target :: "upload_config \<Rightarrow> upload_call \<Rightarrow> disk \<Rightarrow> path \<Rightarrow> path" where
  "upload_target cf ul dk target =
     (if path_exists (disk_fs dk) target \<and> \<not> ul_overwrite ul then unique_upload_path dk (uc_pid cf) target else target)"

lemma unique_free:
  assumes "unique_upload_path dk pid target \<noteq> parent_of target @ [upload_candidate (name_of target) pid]"
  shows "\<not> path_exists (disk_fs dk) (unique_upload_path dk pid target)"
  using assms by (auto simp: unique_upload_path_def Let_def dest: find_Some_in split: option.splits)

lemma route_upload_stores:
  assumes "route_upload now cf ul s = (s', r)"
  obtains (wrote) bytes dk target0 s1 where "make_dirs (dk_real (us_disk s) (uc_inbox cf)) (us_disk s) = Some dk" "us_disk s1 = dk"
      "ul_length ul = Some bytes" "\<not> bad_filename (ul_name ul)"
      "resolve_under_shared_root (disk_fs dk) (dk_real (us_disk s) (uc_inbox cf)) (ul_name ul) = Some target0"
      "store_upload now cf ul bytes (upload_target cf ul dk target0) s1 = (s', r)"
      "uc_by_request cf \<longrightarrow> snd (consume_public_upload_grant now (ul_token ul) (ul_name ul) (int bytes) (us_uploads s))"
    | (refused) "dk_files (us_disk s') = dk_files (us_disk s)" "\<forall>p n b. r \<noteq> Upload_Stored p n b"
proof -
  let ?inbox = "dk_real (us_disk s) (uc_inbox cf)"
  define s1 where "s1 = (if ul_tunnel ul \<and> ul_role ul = ''community''
      then (let (d, limited, ok) = upload_allowed_for_ip (uc_per_hour cf) now (ul_ip ul) (us_limits s) (us_limited s)
            in s\<lparr>us_limits := d, us_limited := limited\<rparr>) else s)"
  have s1: "us_disk s1 = us_disk s" "us_uploads s1 = us_uploads s" by (simp_all add: s1_def split: prod.split)
  show thesis
  proof (cases "\<exists>dk. make_dirs ?inbox (us_disk s) = Some dk \<and> receive_upload now cf ul ?inbox (s1\<lparr>us_disk := dk\<rparr>) = (s', r) \<and> \<not> bad_filename (ul_name ul)")
    case True
    then obtain dk where dk: "make_dirs ?inbox (us_disk s) = Some dk" "receive_upload now cf ul ?inbox (s1\<lparr>us_disk := dk\<rparr>) = (s', r)"
      "\<not> bad_filename (ul_name ul)" by blast
    note files = make_dirs_files [OF dk(1)]
    show thesis
    proof (cases "\<exists>bytes t s2. ul_length ul = Some bytes \<and> resolve_under_shared_root (disk_fs dk) ?inbox (ul_name ul) = Some t \<and> us_disk s2 = dk \<and>
        (uc_by_request cf \<longrightarrow> snd (consume_public_upload_grant now (ul_token ul) (ul_name ul) (int bytes) (us_uploads s))) \<and>
        store_upload now cf ul bytes (upload_target cf ul dk t) s2 = (s', r)")
      case True
      then show thesis using wrote dk(1,3) by blast
    next
      case False
      with dk(2) files s1 show thesis
        by (intro refused) (auto simp: receive_upload_def upload_target_def Let_def split: option.splits if_splits prod.splits)
    qed
  next
    case False
    with assms s1 show thesis
      by (intro refused) (auto simp: route_upload_def inbox_folder s1_def Let_def split: option.splits if_splits prod.splits)
  qed
qed

lemma target_new:
  assumes "\<not> ul_overwrite ul" and "path_exists (disk_fs dk) (upload_target cf ul dk t)" and "i \<in> {1 ..< 10000}"
  shows "path_exists (disk_fs dk) (parent_of t @ [upload_candidate (name_of t) (show_nat i)])"
proof -
  have "unique_upload_path dk (uc_pid cf) t = upload_target cf ul dk t"
    using assms(1,2) by (auto simp: upload_target_def split: if_splits)
  with assms(2,3) show ?thesis
    by (auto simp: unique_upload_path_def Let_def find_None dest: find_Some_in split: option.splits)
qed


section \<open>Decisions and uploads\<close>

datatype upload_op =
    Uo_Request string string int string string
  | Uo_Direct string string int string
  | Uo_Decide string bool string
  | Uo_Look string
  | Uo_Consume string string int

fun upload_step :: "time \<times> upload_op \<Rightarrow> uploads \<Rightarrow> uploads" where
  "upload_step (now, Uo_Request rid f n client folder) u = fst (create_public_upload_request now rid f n client folder u)"
| "upload_step (now, Uo_Direct token f n client) u = fst (issue_public_upload_grant now token f n client ''/incoming'' u)"
| "upload_step (now, Uo_Decide rid accepted token) u = fst (resolve_public_upload_request now rid accepted token u)"
| "upload_step (now, Uo_Look rid) u = fst (get_public_upload_request now rid u)"
| "upload_step (now, Uo_Consume token f n) u = fst (consume_public_upload_grant now token f n u)"

text \<open>The grants given for a file of a name and size, and the uploads of it let through.\<close>

fun gives :: "string \<Rightarrow> int \<Rightarrow> time \<times> upload_op \<Rightarrow> uploads \<Rightarrow> bool" where
  "gives f n (now, Uo_Direct token f' n' client) u \<longleftrightarrow> f' = f \<and> n' = n"
| "gives f n (now, Uo_Decide rid accepted token) u \<longleftrightarrow>
     accepted \<and> (\<exists>r. dget (up_requests u) rid = Some r \<and> ur_status r = Pending \<and> ur_filename r = f \<and> ur_size r = n)"
| "gives f n _ u \<longleftrightarrow> False"

fun lets_in :: "string \<Rightarrow> int \<Rightarrow> time \<times> upload_op \<Rightarrow> uploads \<Rightarrow> bool" where
  "lets_in f n (now, Uo_Consume token f' n') u \<longleftrightarrow> f' = f \<and> n' = n \<and> snd (consume_public_upload_grant now token f' n' u)"
| "lets_in f n _ u \<longleftrightarrow> False"

fun tally :: "(time \<times> upload_op \<Rightarrow> uploads \<Rightarrow> bool) \<Rightarrow> (time \<times> upload_op) list \<Rightarrow> uploads \<Rightarrow> nat" where
  "tally P [] u = 0"
| "tally P (x # ops) u = of_bool (P x u) + tally P ops (upload_step x u)"

definition open_grants :: "string \<Rightarrow> int \<Rightarrow> uploads \<Rightarrow> nat" where
  "open_grants f n u = length (filter (\<lambda>kv. ug_filename (snd kv) = f \<and> ug_size (snd kv) = n) (up_grants u))"

lemma count_put: "length (filter (\<lambda>kv. P (snd kv)) (dput k v d)) \<le> length (filter (\<lambda>kv. P (snd kv)) d) + of_bool (P v)"
  by (induction d) auto

lemma count_keep: "length (filter P (dkeep Q d)) \<le> length (filter P d)"
  by (induction d) (auto simp: dkeep_def)

lemma count_pop_le: "length (filter P (dpop k d)) \<le> length (filter P d)"
  by (induction d) auto

lemma count_pop:
  "dget d k = Some v \<Longrightarrow> P v \<Longrightarrow> length (filter (\<lambda>kv. P (snd kv)) (dpop k d)) < length (filter (\<lambda>kv. P (snd kv)) d)"
proof (induction d)
  case (Cons a d)
  then show ?case using count_pop_le [of "\<lambda>kv. P (snd kv)" k d] by (cases a) (auto split: if_splits)
qed simp

lemma tally_step:
  "of_bool (lets_in f n x u) + open_grants f n (upload_step x u) \<le> open_grants f n u + of_bool (gives f n x u)"
proof (cases "(x, u)" rule: upload_step.cases)
  case (2 now token f' n' client u')
  then show ?thesis
    using count_put [of "\<lambda>g. ug_filename g = f \<and> ug_size g = n" token
        "\<lparr>ug_filename = f', ug_size = n', ug_client = client, ug_folder = ''/incoming'', ug_expires = now + request_ttl\<rparr>" "up_grants u"]
    by (auto simp: open_grants_def issue_public_upload_grant_def)
next
  case (3 now rid accepted token u')
  show ?thesis
  proof (cases "\<exists>r. accepted \<and> dget (up_requests u) rid = Some r \<and> ur_status r = Pending")
    case True
    then obtain r where "accepted" "dget (up_requests u) rid = Some r" "ur_status r = Pending" by blast
    with 3 show ?thesis
      using count_put [of "\<lambda>g. ug_filename g = f \<and> ug_size g = n" token
          "\<lparr>ug_filename = ur_filename r, ug_size = ur_size r, ug_client = ur_client r, ug_folder = ur_folder r, ug_expires = now + request_ttl\<rparr>" "up_grants u"]
      by (auto simp: open_grants_def resolve_public_upload_request_def issue_public_upload_grant_def Let_def)
  next
    case False
    with 3 show ?thesis by (auto simp: open_grants_def resolve_public_upload_request_def Let_def split: option.splits)
  qed
next
  case (5 now token f' n' u')
  have k: "length (filter P (dkeep Q (up_grants u))) \<le> length (filter P (up_grants u))" for P Q by (rule count_keep)
  show ?thesis
  proof (cases "snd (consume_public_upload_grant now token f' n' u)")
    case True
    then obtain g where g: "dget (dkeep (\<lambda>g. now < ug_expires g) (up_grants u)) token = Some g" "ug_filename g = f'" "ug_size g = n'"
      by (auto simp: consume_public_upload_grant_def Let_def split: option.splits if_splits)
    with True 5 show ?thesis
      using count_pop [OF g(1), of "\<lambda>g. ug_filename g = f \<and> ug_size g = n"] k [of "\<lambda>kv. ug_filename (snd kv) = f \<and> ug_size (snd kv) = n"]
        count_pop_le [of "\<lambda>kv. ug_filename (snd kv) = f \<and> ug_size (snd kv) = n" token "dkeep (\<lambda>g. now < ug_expires g) (up_grants u)"]
      by (auto simp: open_grants_def consume_public_upload_grant_def Let_def intro: order_trans Suc_leI)
  next
    case False
    with 5 k show ?thesis by (auto simp: open_grants_def consume_public_upload_grant_def Let_def split: option.splits)
  qed
qed (auto simp: open_grants_def create_public_upload_request_def get_public_upload_request_def Let_def split: option.splits)

lemma tally_bound: "tally (lets_in f n) ops u \<le> open_grants f n u + tally (gives f n) ops u"
proof (induction ops arbitrary: u)
  case (Cons x ops)
  from Cons.IH [of "upload_step x u"] tally_step [of f n x u] show ?case by simp
qed simp


text \<open>The decision of the host does not look at the deadline of the request: one that has run out, and
  would be reported as expired, can still be accepted, and its file is then let in.\<close>

theorem stale_request_accepted:
  assumes "dget (up_requests u) rid = Some r" and "ur_status r = Pending" and "ur_expires r \<le> now" and "now \<le> later" and "later < now + 120"
    and "resolve_public_upload_request now rid True token u = (u', r')"
  shows "map_option ur_status (snd (get_public_upload_request now rid u)) = Some Expired \<and> map_option ur_status r' = Some Accepted \<and>
    snd (consume_public_upload_grant later token (ur_filename r) (ur_size r) u')"
proof -
  let ?g = "\<lparr>ug_filename = ur_filename r, ug_size = ur_size r, ug_client = ur_client r, ug_folder = ur_folder r, ug_expires = now + request_ttl\<rparr>"
  have u': "up_grants u' = dput token ?g (up_grants u)" "map_option ur_status r' = Some Accepted"
    using assms(1,2,6) by (auto simp: resolve_public_upload_request_def issue_public_upload_grant_def Let_def)
  have "dget (dkeep (\<lambda>g. later < ug_expires g) (dput token ?g d)) token = Some ?g" for d
    using assms(4,5) by (induction d) (auto simp: dkeep_def)
  with u' assms(1-3) show ?thesis
    by (simp add: get_public_upload_request_def consume_public_upload_grant_def Let_def)
qed

section \<open>An upload\<close>

definition demo_disk_in :: disk where
  "demo_disk_in = \<lparr>dk_real = (\<lambda>p. p), dk_may_write = (\<lambda>p. True), dk_dirs = [[], [''in''], [''in'', ''sub'']], dk_files = []\<rparr>"

definition demo_upload_config :: upload_config where
  "demo_upload_config = \<lparr>uc_enabled = True, uc_by_request = False, uc_inbox = [''in''], uc_max_bytes = 9, uc_extensions = {}, uc_per_hour = 5, uc_pid = ''7''\<rparr>"

definition demo_call :: "string \<Rightarrow> upload_call" where
  "demo_call name = \<lparr>ul_tunnel = False, ul_role = [], ul_ip = ''a'', ul_name = name, ul_length = Some 1, ul_token = [],
     ul_overwrite = False, ul_body = ''x''\<rparr>"

definition demo_server :: upload_server where
  "demo_server = \<lparr>us_uploads = no_uploads, us_limits = [], us_limited = {}, us_disk = demo_disk_in\<rparr>"

lemma demo_upload_names: "unquote ''sub%2Fa'' = ''sub/a''" "lstrip_of slashes ''sub/a'' = ''sub/a''" "path_parts ''sub/a'' = [''sub'', ''a'']"
  "path_parts ''sub%2Fa'' = [''sub%2Fa'']"
  by (simp_all add: lstrip_of_def slashes_def path_parts_def is_hex_def hex_digit_def char_eval)

lemma demo_stored:
  "route_upload 0 demo_upload_config (demo_call ''sub%2Fa'') demo_server =
     (demo_server\<lparr>us_disk := demo_disk_in\<lparr>dk_files := [([''in'', ''sub'', ''a''], ''x'')]\<rparr>\<rparr>, Upload_Stored [''in'', ''sub'', ''a''] 1 False)"
proof -
  have rb: "resolve_under_shared_root f [''in''] ''sub%2Fa'' = Some [''in'', ''sub'', ''a'']" if "realpath f = (\<lambda>p. p)" for f
    unfolding resolve_under_shared_root_def demo_upload_names using that by (simp add: demo_upload_names is_below_def)
  show ?thesis
    by (simp add: route_upload_def demo_upload_config_def demo_call_def demo_server_def bad_filename_def demo_upload_names inbox_folder demo_disk_in_def
        make_dirs_def receive_upload_def store_upload_def receive_all rb disk_fs_def path_exists_def relative_to_def is_below_def parent_of_def
        name_of_def upt_rec Let_def)
qed

text \<open>The route takes the name for a plain one, and the resolver decodes it once more: the file
  is stored in a folder of the Inbox.\<close>

theorem escaped_slash_enters_folder:
  "\<not> bad_filename ''sub%2Fa'' \<and> bad_filename ''sub/a'' \<and>
   snd (route_upload 0 demo_upload_config (demo_call ''sub%2Fa'') demo_server) = Upload_Stored [''in'', ''sub'', ''a''] 1 False"
  by (simp add: demo_stored) (simp add: bad_filename_def demo_upload_names name_of_def)


definition demo_requests :: uploads where
  "demo_requests = fst (create_public_upload_request 0 ''r'' ''f'' 1 ''c'' ''/incoming'' no_uploads)"

theorem stale_request_accepted_witness:
  "snd (consume_public_upload_grant 550 ''t'' ''f'' 1 (fst (resolve_public_upload_request 500 ''r'' True ''t'' demo_requests)))"
proof -
  let ?r = "\<lparr>ur_id = ''r'', ur_filename = ''f'', ur_size = 1, ur_client = ''c'', ur_folder = ''/incoming'', ur_status = Pending,
     ur_created = 0, ur_expires = 120, ur_token = []\<rparr>"
  have "dget (up_requests demo_requests) ''r'' = Some ?r"
    by (simp add: demo_requests_def create_public_upload_request_def no_uploads_def Let_def)
  from stale_request_accepted [OF this, of 500 550 "''t''"] show ?thesis
    by (cases "resolve_public_upload_request 500 ''r'' True ''t'' demo_requests") simp
qed

end
