(* ===== verification/Chunk_Ledger.thy ===== *)
theory Chunk_Ledger
  imports Py_Prelude
begin

text \<open>
  Resumable uploads in chunks. Two stores keep, for each item of a session, the sorted list of the chunk
  indices received and a file per chunk: the multi-file transfers and the Player-to-Player relay. The locale
  states how an item is cut into chunks; its lemmas say that a complete ledger holds exactly the announced
  number of bytes, so that assembling it never comes out short or long.
\<close>

type_synonym chunks = "(string \<times> int, string) dict"

text \<open>\<open>sorted(set(received) | {index})\<close>.\<close>

definition add_received :: "int \<Rightarrow> int list \<Rightarrow> int list" where
  "add_received i xs = sort (remdups (i # xs))"

text \<open>The concatenation of the first \<open>n\<close> chunk files; \<open>None\<close> when one is not there.\<close>

fun assemble :: "chunks \<Rightarrow> string \<Rightarrow> int list \<Rightarrow> string option" where
  "assemble cs item [] = Some []"
| "assemble cs item (i # is) =
     (case dget cs (item, i) of None \<Rightarrow> None
      | Some b \<Rightarrow> map_option (\<lambda>bs. b @ bs) (assemble cs item is))"

lemma sorted_add_received: "sorted (add_received i xs)" "distinct (add_received i xs)"
  "set (add_received i xs) = insert i (set xs)"
  by (auto simp: add_received_def)

lemma add_received_known: "sorted xs \<Longrightarrow> distinct xs \<Longrightarrow> i \<in> set xs \<Longrightarrow> add_received i xs = xs"
  by (simp add: add_received_def insert_absorb sorted_sort_id)

locale chunk_ledger =
  fixes sized :: "'i \<Rightarrow> bool"
    and chunk_count :: "'i \<Rightarrow> int"
    and chunk_size :: "'i \<Rightarrow> int \<Rightarrow> int"
    and total_size :: "'i \<Rightarrow> int"
  assumes count_pos: "sized x \<Longrightarrow> 1 \<le> chunk_count x"
    and sizes_sum: "sized x \<Longrightarrow> (\<Sum>k \<leftarrow> [0 .. chunk_count x - 1]. chunk_size x k) = total_size x"
begin

text \<open>The indices received for an item are the chunk files there are, each of its size.\<close>

definition ledger_ok :: "'i \<Rightarrow> string \<Rightarrow> int list \<Rightarrow> chunks \<Rightarrow> bool" where
  "ledger_ok x item received cs \<longleftrightarrow> sized x \<and> sorted received \<and> distinct received \<and>
     set received \<subseteq> {0 ..< chunk_count x} \<and>
     (\<forall>i \<in> set received. \<exists>b. dget cs (item, i) = Some b \<and> int (length b) = chunk_size x i)"

lemma ledger_empty: "sized x \<Longrightarrow> ledger_ok x item [] cs"
  by (simp add: ledger_ok_def)

lemma ledger_put:
  assumes "ledger_ok x item received cs" and "0 \<le> i" and "i < chunk_count x" and "int (length b) = chunk_size x i"
  shows "ledger_ok x item (add_received i received) (dput (item, i) b cs)"
  using assms by (auto simp: ledger_ok_def sorted_add_received dget_put)

lemma ledger_put_other:
  assumes "ledger_ok x item received cs" and "item' \<noteq> item"
  shows "ledger_ok x item received (dput (item', i) b cs)"
  using assms by (auto simp: ledger_ok_def dget_put)

lemma assemble_length:
  assumes "\<forall>i \<in> set is. \<exists>b. dget cs (item, i) = Some b \<and> int (length b) = f i"
  shows "\<exists>bs. assemble cs item is = Some bs \<and> int (length bs) = (\<Sum>k \<leftarrow> is. f k)"
  using assms by (induction "is") auto

theorem complete_size:
  assumes "ledger_ok x item received cs" and "received = [0 .. chunk_count x - 1]"
  shows "\<exists>bs. assemble cs item [0 .. chunk_count x - 1] = Some bs \<and> int (length bs) = total_size x"
proof -
  have "\<forall>i \<in> set [0 .. chunk_count x - 1]. \<exists>b. dget cs (item, i) = Some b \<and> int (length b) = chunk_size x i"
    using assms by (auto simp: ledger_ok_def)
  from assemble_length [OF this] show ?thesis
    using assms(1) sizes_sum [of x] by (auto simp: ledger_ok_def)
qed

text \<open>Completeness is a question about the set: every index has been received.\<close>

lemma complete_iff:
  assumes "ledger_ok x item received cs"
  shows "received = [0 .. chunk_count x - 1] \<longleftrightarrow> (\<forall>i. 0 \<le> i \<and> i < chunk_count x \<longrightarrow> i \<in> set received)"
proof
  assume "received = [0 .. chunk_count x - 1]"
  then show "\<forall>i. 0 \<le> i \<and> i < chunk_count x \<longrightarrow> i \<in> set received" by auto
next
  assume "\<forall>i. 0 \<le> i \<and> i < chunk_count x \<longrightarrow> i \<in> set received"
  then have "set received = set [0 .. chunk_count x - 1]" using assms by (auto simp: ledger_ok_def)
  moreover have "sorted received" "distinct received" using assms by (simp_all add: ledger_ok_def)
  ultimately show "received = [0 .. chunk_count x - 1]"
    by (intro sorted_distinct_set_unique) (auto simp: sorted_upto)
qed

end

text \<open>Cutting \<open>n\<close> bytes into chunks of \<open>c\<close>: at least one chunk, the last one short.\<close>

definition chunks_for :: "int \<Rightarrow> int \<Rightarrow> int" where
  "chunks_for c n = max 1 ((n + c - 1) div c)"

lemma chunks_for_bounds:
  assumes "0 < c" and "0 \<le> n"
  shows "1 \<le> chunks_for c n" and "(chunks_for c n - 1) * c \<le> n" and "n \<le> chunks_for c n * c"
proof -
  let ?q = "(n + c - 1) div c"
  obtain q r where q: "?q = q" and r: "(n + c - 1) mod c = r" by blast
  have "q * c + r = n + c - 1" using div_mult_mod_eq [of "n + c - 1" c] by (simp only: q r)
  moreover have "0 \<le> r" "r < c" using assms(1) r [symmetric] by simp_all
  ultimately have n: "n \<le> ?q * c" "(?q - 1) * c \<le> n" by (simp_all add: q left_diff_distrib)
  show "1 \<le> chunks_for c n" by (simp add: chunks_for_def)
  show "(chunks_for c n - 1) * c \<le> n" using n assms by (auto simp: chunks_for_def max_def)
  have "?q * c \<le> max 1 ?q * c" using assms(1) by (intro mult_right_mono) auto
  with n(1) show "n \<le> chunks_for c n * c" by (simp add: chunks_for_def)
qed

lemma sum_const_upto: "(\<Sum>k \<leftarrow> [0 .. int m - 1]. (c::int)) = int m * c"
proof -
  have "(\<Sum>k \<leftarrow> xs. c) = int (length xs) * c" for xs :: "int list"
    by (induction xs) (simp_all add: distrib_right)
  then show ?thesis by simp
qed

lemma sum_list_last:
  assumes "1 \<le> m"
  shows "(\<Sum>k \<leftarrow> [0 .. m - 1]. if k = m - 1 then (l::int) else c) = (m - 1) * c + l"
proof -
  have "[0 .. m - 1] = [0 .. m - 2] @ [m - 1]"
    using upto_rec2 [of 0 "m - 1"] assms by simp
  moreover have "map (\<lambda>k. if k = m - 1 then l else c) [0 .. m - 2] = map (\<lambda>k. c) [0 .. m - 2]"
    by (rule map_cong) auto
  moreover have "(\<Sum>k \<leftarrow> [0 .. m - 2]. c) = (m - 1) * c"
    using sum_const_upto [of c "nat (m - 1)"] assms by simp
  ultimately show ?thesis by (simp only: map_append sum_list.append) simp
qed

end
