(* ===== verification/Transfer_Sessions.thy ===== *)
theory Transfer_Sessions
  imports Chunk_Ledger Py_Json Shared_Paths
begin

text \<open>
  Resumable multi-file transfers (\<^verbatim>\<open>core/transfer_sessions.py\<close>): manifest validation, sessions with their
  chunk files, commit into the upload folder, expiry. The session folders are the dictionary \<open>tx_sessions\<close>
  (the metadata file with the chunk files and the folder's modification time), the upload tree is \<open>tx_files\<close>;
  \<open>hash\<close> is SHA-256 in hexadecimal. The directories a commit makes are not tracked, and a folder that holds
  no readable metadata is not modelled.
\<close>

record transfer_item =
  ti_id :: string
  ti_filename :: string
  ti_size :: int
  ti_destination :: string
  ti_sha :: "string option"
  ti_received :: "int list"
  ti_committed :: "string option"

datatype transfer_status = Tx_Active | Tx_Committed

record transfer_session =
  ts_id :: string
  ts_owner :: string
  ts_created :: time
  ts_updated :: time
  ts_status :: transfer_status
  ts_items :: "transfer_item list"
  ts_chunks :: chunks
  ts_mtime :: time

record transfer_store =
  tx_root :: path
  tx_upload :: path
  tx_prefix :: string
  tx_sessions :: "(string, transfer_session) dict"
  tx_files :: "(path, string) dict"

datatype transfer_error =
  Tx_Too_Many | Tx_Not_Active | Tx_Chunk_Index | Tx_Chunk_Size | Tx_Incomplete | Tx_Size_Mismatch | Tx_Hash_Mismatch
| Tx_Manifest_Count | Tx_Bad_Item | Tx_Bad_Size | Tx_Bad_Id | Tx_Bad_Filename | Tx_Bad_Sha | Tx_Bad_Destination
| Tx_Not_Found | Tx_Expired | Tx_No_Item | Tx_No_Name | Tx_Io | Tx_Py py_error

text \<open>The HTTP status of an error, \<open>status\<close> of \<open>TransferError\<close>, and the support code derived from it.\<close>

fun transfer_status_code :: "transfer_error \<Rightarrow> int" where
  "transfer_status_code Tx_Too_Many = 429"
| "transfer_status_code Tx_Not_Active = 409"
| "transfer_status_code Tx_Incomplete = 409"
| "transfer_status_code Tx_Size_Mismatch = 409"
| "transfer_status_code Tx_Hash_Mismatch = 409"
| "transfer_status_code Tx_No_Name = 409"
| "transfer_status_code Tx_Bad_Destination = 403"
| "transfer_status_code Tx_Not_Found = 404"
| "transfer_status_code Tx_No_Item = 404"
| "transfer_status_code Tx_Expired = 410"
| "transfer_status_code _ = 400"

definition support_code :: "transfer_error \<Rightarrow> string" where
  "support_code e = (if transfer_status_code e \<in> {404, 410} then ''XFER-04'' else ''XFER-01'')"

definition tx_chunk :: int where "tx_chunk = 1024 * 1024"
definition tx_max_items :: nat where "tx_max_items = 100"
definition tx_max_sessions :: nat where "tx_max_sessions = 64"
definition tx_ttl :: time where "tx_ttl = 24 * 60 * 60"

definition count_active_sessions :: "time \<Rightarrow> transfer_store \<Rightarrow> nat" where
  "count_active_sessions now st =
     length (filter (\<lambda>s. ts_status s = Tx_Active \<and> now - ts_updated s \<le> tx_ttl) (dvals (tx_sessions st)))"

section \<open>Manifest\<close>

definition ensure_below :: "path \<Rightarrow> path \<Rightarrow> transfer_error + path" where
  "ensure_below p base = (if is_below p base then Inr p else Inl Tx_Bad_Destination)"

definition tx_destination :: "fs \<Rightarrow> transfer_store \<Rightarrow> string \<Rightarrow> transfer_error + path" where
  "tx_destination f st relative =
     ensure_below (realpath f (tx_upload st @ path_parts (lstrip_of slashes relative))) (tx_upload st)"

definition item_id_ok :: "string \<Rightarrow> bool" where
  "item_id_ok i \<longleftrightarrow> i \<noteq> [] \<and> length i \<le> 80 \<and>
     (let bare = filter (\<lambda>c. c \<noteq> CHR ''-'' \<and> c \<noteq> CHR ''_'') i in bare \<noteq> [] \<and> list_all is_alnum bare)"

definition filename_ok :: "string \<Rightarrow> bool" where
  "filename_ok n \<longleftrightarrow> n \<noteq> [] \<and> name_of (path_parts n) = n \<and> n \<notin> set [''.'', ''..'']"

definition sha_ok :: "json \<Rightarrow> bool" where
  "sha_ok v \<longleftrightarrow> (case v of JNull \<Rightarrow> True | JStr s \<Rightarrow> length s = 64 \<and> list_all is_hex s | _ \<Rightarrow> False)"

definition validate_item ::
    "(json \<Rightarrow> string) \<Rightarrow> fs \<Rightarrow> transfer_store \<Rightarrow> string list \<Rightarrow> json \<Rightarrow> transfer_error + transfer_item" where
  "validate_item repr f st seen raw =
     (case raw of
        JObj ob \<Rightarrow>
          (let item_id = str_strip (to_str repr (jget_or ob ''id'' (JStr [])));
               filename = str_strip (to_str repr (jget_or ob ''filename'' (JStr [])));
               dest0 = str_strip (to_str repr (jget_or ob ''destination'' (JStr ''/'')));
               destination = (if dest0 = [] then ''/'' else dest0);
               sha = jget ob ''sha256''
           in case to_int (jget ob ''size'') of Inl e \<Rightarrow> Inl Tx_Bad_Size
              | Inr sz \<Rightarrow>
                  if \<not> item_id_ok item_id \<or> item_id \<in> set seen then Inl Tx_Bad_Id
                  else if \<not> filename_ok filename then Inl Tx_Bad_Filename
                  else if sz < 0 then Inl Tx_Bad_Size
                  else if \<not> sha_ok sha then Inl Tx_Bad_Sha
                  else (case tx_destination f st destination of Inl e \<Rightarrow> Inl e
                        | Inr p \<Rightarrow> Inr \<lparr>ti_id = item_id, ti_filename = filename, ti_size = sz,
                            ti_destination = destination,
                            ti_sha = (case sha of JStr s \<Rightarrow> Some (str_lower s) | _ \<Rightarrow> None),
                            ti_received = [], ti_committed = None\<rparr>))
      | _ \<Rightarrow> Inl Tx_Bad_Item)"

fun validate_items ::
    "(json \<Rightarrow> string) \<Rightarrow> fs \<Rightarrow> transfer_store \<Rightarrow> string list \<Rightarrow> json list \<Rightarrow> transfer_error + transfer_item list" where
  "validate_items repr f st seen [] = Inr []"
| "validate_items repr f st seen (raw # rest) =
     (case validate_item repr f st seen raw of Inl e \<Rightarrow> Inl e
      | Inr i \<Rightarrow> (case validate_items repr f st (ti_id i # seen) rest of Inl e \<Rightarrow> Inl e | Inr is \<Rightarrow> Inr (i # is)))"

definition validate_manifest ::
    "(json \<Rightarrow> string) \<Rightarrow> fs \<Rightarrow> transfer_store \<Rightarrow> json \<Rightarrow> transfer_error + transfer_item list" where
  "validate_manifest repr f st manifest =
     (case manifest of
        JList raws \<Rightarrow> if raws = [] \<or> tx_max_items < length raws then Inl Tx_Manifest_Count
                      else validate_items repr f st [] raws
      | _ \<Rightarrow> Inl Tx_Manifest_Count)"

section \<open>Sessions\<close>

definition tx_cleanup :: "time \<Rightarrow> transfer_store \<Rightarrow> transfer_store" where
  "tx_cleanup now st = st\<lparr>tx_sessions := dkeep (\<lambda>s. \<not> ts_mtime s < now - tx_ttl) (tx_sessions st)\<rparr>"

definition tx_write :: "time \<Rightarrow> transfer_session \<Rightarrow> transfer_store \<Rightarrow> transfer_store" where
  "tx_write now s st = st\<lparr>tx_sessions := dput (ts_id s) (s\<lparr>ts_mtime := now\<rparr>) (tx_sessions st)\<rparr>"

definition tx_create ::
    "(json \<Rightarrow> string) \<Rightarrow> fs \<Rightarrow> string \<Rightarrow> time \<Rightarrow> json \<Rightarrow> string \<Rightarrow> transfer_store \<Rightarrow>
     transfer_store \<times> (transfer_error + transfer_session)" where
  "tx_create repr f sid now manifest owner st =
     (case validate_manifest repr f st manifest of Inl e \<Rightarrow> (st, Inl e)
      | Inr items \<Rightarrow>
          (let st = tx_cleanup now st
           in if tx_max_sessions \<le> length (tx_sessions st) then (st, Inl Tx_Too_Many)
              else (let s = \<lparr>ts_id = sid, ts_owner = owner, ts_created = now, ts_updated = now, ts_status = Tx_Active,
                             ts_items = items, ts_chunks = [], ts_mtime = now\<rparr>
                    in (tx_write now s st, Inr s))))"

definition load_owned ::
    "time \<Rightarrow> string \<Rightarrow> string \<Rightarrow> transfer_store \<Rightarrow> transfer_store \<times> (transfer_error + transfer_session)" where
  "load_owned now sid owner st =
     (if length sid \<noteq> 32 \<or> \<not> list_all is_lower_hex sid then (st, Inl Tx_Not_Found)
      else (case dget (tx_sessions st) sid of None \<Rightarrow> (st, Inl Tx_Not_Found)
            | Some s \<Rightarrow>
                if ts_owner s \<noteq> owner then (st, Inl Tx_Not_Found)
                else if tx_ttl < now - ts_updated s
                then (st\<lparr>tx_sessions := dpop sid (tx_sessions st)\<rparr>, Inl Tx_Expired)
                else (st, Inr s)))"

definition tx_get ::
    "time \<Rightarrow> string \<Rightarrow> string \<Rightarrow> transfer_store \<Rightarrow> transfer_store \<times> (transfer_error + transfer_session)" where
  "tx_get now sid owner st = load_owned now sid owner st"

text \<open>\<open>_find_item\<close>, and the item replaced in place.\<close>

definition find_item :: "string \<Rightarrow> transfer_item list \<Rightarrow> transfer_item option" where
  "find_item i items = find (\<lambda>x. ti_id x = i) items"

fun replace_item :: "transfer_item \<Rightarrow> transfer_item list \<Rightarrow> transfer_item list" where
  "replace_item y [] = []"
| "replace_item y (x # xs) = (if ti_id x = ti_id y then y # xs else x # replace_item y xs)"

definition expected_size :: "int \<Rightarrow> int \<Rightarrow> int" where
  "expected_size n k = (if k = chunks_for tx_chunk n - 1 then n - k * tx_chunk else tx_chunk)"

definition tx_put_chunk ::
    "time \<Rightarrow> string \<Rightarrow> string \<Rightarrow> int \<Rightarrow> string \<Rightarrow> string \<Rightarrow> transfer_store \<Rightarrow>
     transfer_store \<times> (transfer_error + transfer_session)" where
  "tx_put_chunk now sid item_id i data owner st =
     (case load_owned now sid owner st of
        (st, Inl e) \<Rightarrow> (st, Inl e)
      | (st, Inr s) \<Rightarrow>
          if ts_status s \<noteq> Tx_Active then (st, Inl Tx_Not_Active)
          else (case find_item item_id (ts_items s) of None \<Rightarrow> (st, Inl Tx_No_Item)
                | Some item \<Rightarrow>
                    if i < 0 \<or> chunks_for tx_chunk (ti_size item) \<le> i then (st, Inl Tx_Chunk_Index)
                    else if int (length data) \<noteq> expected_size (ti_size item) i then (st, Inl Tx_Chunk_Size)
                    else (let s = s\<lparr>ts_chunks := dput (item_id, i) data (ts_chunks s),
                                    ts_items := replace_item (item\<lparr>ti_received := add_received i (ti_received item)\<rparr>) (ts_items s),
                                    ts_updated := now\<rparr>
                          in (tx_write now s st, Inr s))))"

text \<open>The first pass of a commit: every item assembled and checked, in order.\<close>

fun stage_items ::
    "(string \<Rightarrow> string) \<Rightarrow> chunks \<Rightarrow> transfer_item list \<Rightarrow> transfer_error + (transfer_item \<times> string) list" where
  "stage_items hash cs [] = Inr []"
| "stage_items hash cs (item # items) =
     (if ti_received item \<noteq> [0 .. chunks_for tx_chunk (ti_size item) - 1] then Inl Tx_Incomplete
      else (case assemble cs (ti_id item) [0 .. chunks_for tx_chunk (ti_size item) - 1] of
              None \<Rightarrow> Inl Tx_Io
            | Some bytes \<Rightarrow>
                if int (length bytes) \<noteq> ti_size item then Inl Tx_Size_Mismatch
                else if (case ti_sha item of None \<Rightarrow> False | Some d \<Rightarrow> d \<noteq> [] \<and> hash bytes \<noteq> d) then Inl Tx_Hash_Mismatch
                else (case stage_items hash cs items of Inl e \<Rightarrow> Inl e | Inr staged \<Rightarrow> Inr ((item, bytes) # staged))))"

text \<open>\<open>Path.stem\<close> and \<open>Path.suffix\<close>: a leading or a final dot begins no suffix.\<close>

definition split_suffix :: "string \<Rightarrow> string \<times> string" where
  "split_suffix n =
     (let ext = takeWhile (\<lambda>c. c \<noteq> CHR ''.'') (rev n); i = length n - length ext
      in if i \<le> 1 \<or> ext = [] then (n, []) else (take (i - 1) n, drop (i - 1) n))"

definition numbered_name :: "string \<Rightarrow> int \<Rightarrow> string" where
  "numbered_name n i = (case split_suffix n of (stem, suffix) \<Rightarrow> stem @ '' ('' @ show_int i @ '')'' @ suffix)"

definition target_exists :: "fs \<Rightarrow> transfer_store \<Rightarrow> path \<Rightarrow> bool" where
  "target_exists f st p \<longleftrightarrow> dget (tx_files st) p \<noteq> None \<or> is_dir f p"

definition unique_path :: "fs \<Rightarrow> transfer_store \<Rightarrow> path \<Rightarrow> transfer_error + path" where
  "unique_path f st target =
     (case find (\<lambda>i. \<not> target_exists f st (butlast target @ [numbered_name (name_of target) i])) [1 .. 9999] of
        None \<Rightarrow> Inl Tx_No_Name
      | Some i \<Rightarrow> Inr (butlast target @ [numbered_name (name_of target) i]))"

definition committed_text :: "transfer_store \<Rightarrow> path \<Rightarrow> transfer_error + string" where
  "committed_text st target =
     (case relative_to target (tx_upload st) of None \<Rightarrow> Inl (Tx_Py Value_Error)
      | Some rel \<Rightarrow>
          if tx_prefix st \<noteq> [] then Inr (tx_prefix st @ ''/'' @ to_slash (rel_str rel))
          else (case relative_to target (tx_root st) of None \<Rightarrow> Inl (Tx_Py Value_Error)
                | Some rel \<Rightarrow> Inr (''/'' @ to_slash (rel_str rel))))"

definition commit_item ::
    "fs \<Rightarrow> bool \<Rightarrow> transfer_item \<Rightarrow> string \<Rightarrow> transfer_store \<Rightarrow> transfer_store \<times> (transfer_error + string)" where
  "commit_item f overwrite item bytes st =
     (case tx_destination f st (ti_destination item) of Inl e \<Rightarrow> (st, Inl e)
      | Inr destination \<Rightarrow>
          (case ensure_below (realpath f (destination @ [ti_filename item])) (tx_upload st) of Inl e \<Rightarrow> (st, Inl e)
           | Inr target \<Rightarrow>
               (case (if target_exists f st target \<and> \<not> overwrite then unique_path f st target else Inr target) of
                  Inl e \<Rightarrow> (st, Inl e)
                | Inr target \<Rightarrow>
                    (let st = st\<lparr>tx_files := dput target bytes (tx_files st)\<rparr> in (st, committed_text st target)))))"

fun commit_items ::
    "fs \<Rightarrow> bool \<Rightarrow> (transfer_item \<times> string) list \<Rightarrow> transfer_store \<Rightarrow>
     transfer_store \<times> (transfer_error + transfer_item list)" where
  "commit_items f overwrite [] st = (st, Inr [])"
| "commit_items f overwrite ((item, bytes) # rest) st =
     (case commit_item f overwrite item bytes st of
        (st, Inl e) \<Rightarrow> (st, Inl e)
      | (st, Inr label) \<Rightarrow>
          (case commit_items f overwrite rest st of
             (st, Inl e) \<Rightarrow> (st, Inl e)
           | (st, Inr items) \<Rightarrow> (st, Inr (item\<lparr>ti_committed := Some label\<rparr> # items))))"

text \<open>The folder of a session whose commit wrote an assembled file has a new modification time.\<close>

definition stage_touches :: "transfer_session \<Rightarrow> bool" where
  "stage_touches s \<longleftrightarrow> (case ts_items s of [] \<Rightarrow> False
     | item # _ \<Rightarrow> ti_received item = [0 .. chunks_for tx_chunk (ti_size item) - 1])"

definition tx_commit ::
    "fs \<Rightarrow> (string \<Rightarrow> string) \<Rightarrow> time \<Rightarrow> string \<Rightarrow> string \<Rightarrow> bool \<Rightarrow> transfer_store \<Rightarrow>
     transfer_store \<times> (transfer_error + transfer_session)" where
  "tx_commit f hash now sid owner overwrite st =
     (case load_owned now sid owner st of
        (st, Inl e) \<Rightarrow> (st, Inl e)
      | (st, Inr s) \<Rightarrow>
          if ts_status s = Tx_Committed then (st, Inr s)
          else (let st = (if stage_touches s then tx_write now s st else st)
                in case stage_items hash (ts_chunks s) (ts_items s) of
                     Inl e \<Rightarrow> (st, Inl e)
                   | Inr staged \<Rightarrow>
                       (case commit_items f overwrite staged st of
                          (st, Inl e) \<Rightarrow> (st, Inl e)
                        | (st, Inr items) \<Rightarrow>
                            (let s = s\<lparr>ts_items := items, ts_status := Tx_Committed, ts_updated := now\<rparr>
                             in (tx_write now s st, Inr s)))))"

definition tx_delete :: "time \<Rightarrow> string \<Rightarrow> string \<Rightarrow> transfer_store \<Rightarrow> transfer_store \<times> (transfer_error + unit)" where
  "tx_delete now sid owner st =
     (case load_owned now sid owner st of
        (st, Inl e) \<Rightarrow> (st, Inl e)
      | (st, Inr s) \<Rightarrow> (st\<lparr>tx_sessions := dpop sid (tx_sessions st)\<rparr>, Inr ()))"

interpretation tx_ledger: chunk_ledger "\<lambda>n. 0 \<le> n" "chunks_for tx_chunk" expected_size "\<lambda>n. n"
proof
  fix n :: int
  assume "0 \<le> n"
  note b = chunks_for_bounds [of tx_chunk n, OF _ this]
  show m: "1 \<le> chunks_for tx_chunk n" using b(1) by (simp add: tx_chunk_def)
  have "expected_size n = (\<lambda>k. if k = chunks_for tx_chunk n - 1 then n - (chunks_for tx_chunk n - 1) * tx_chunk else tx_chunk)"
    by (rule ext) (simp add: expected_size_def)
  then show "(\<Sum>k \<leftarrow> [0 .. chunks_for tx_chunk n - 1]. expected_size n k) = n"
    using sum_list_last [OF m] by simp
qed

section \<open>Runs\<close>

datatype tx_op =
    Tx_Create string time json string
  | Tx_Get time string string
  | Tx_Put time string string int string string
  | Tx_Commit time string string bool
  | Tx_Delete time string string

fun tx_apply :: "(json \<Rightarrow> string) \<Rightarrow> fs \<Rightarrow> (string \<Rightarrow> string) \<Rightarrow> tx_op \<Rightarrow> transfer_store \<Rightarrow> transfer_store" where
  "tx_apply repr f hash (Tx_Create sid now manifest owner) st = fst (tx_create repr f sid now manifest owner st)"
| "tx_apply repr f hash (Tx_Get now sid owner) st = fst (tx_get now sid owner st)"
| "tx_apply repr f hash (Tx_Put now sid item i data owner) st = fst (tx_put_chunk now sid item i data owner st)"
| "tx_apply repr f hash (Tx_Commit now sid owner overwrite) st = fst (tx_commit f hash now sid owner overwrite st)"
| "tx_apply repr f hash (Tx_Delete now sid owner) st = fst (tx_delete now sid owner st)"

definition item_ledger :: "chunks \<Rightarrow> transfer_item \<Rightarrow> bool" where
  "item_ledger cs i \<longleftrightarrow> tx_ledger.ledger_ok (ti_size i) (ti_id i) (ti_received i) cs"

definition session_ok :: "transfer_session \<Rightarrow> bool" where
  "session_ok s \<longleftrightarrow> distinct (map ti_id (ts_items s)) \<and> list_all (item_ledger (ts_chunks s)) (ts_items s)"

definition tx_ok :: "transfer_store \<Rightarrow> bool" where
  "tx_ok st \<longleftrightarrow> dict_ok (tx_sessions st) \<and> all_vals session_ok (tx_sessions st) \<and>
     length (tx_sessions st) \<le> tx_max_sessions \<and> (\<forall>k s. dget (tx_sessions st) k = Some s \<longrightarrow> ts_id s = k)"

lemma validate_item_Inr:
  "validate_item repr f st seen raw = Inr i \<Longrightarrow> ti_id i \<notin> set seen \<and> 0 \<le> ti_size i \<and> ti_received i = []"
  by (auto simp: validate_item_def Let_def split: json.splits sum.splits if_splits)

lemma validate_items_Inr:
  "validate_items repr f st seen raws = Inr items \<Longrightarrow>
    distinct (map ti_id items) \<and> set (map ti_id items) \<inter> set seen = {} \<and> list_all (item_ledger cs) items"
proof (induction repr f st seen raws arbitrary: items rule: validate_items.induct)
  case (1 repr f st seen)
  then show ?case by simp
next
  case (2 repr f st seen raw rest)
  from 2(2) obtain i ii where i: "validate_item repr f st seen raw = Inr i"
    "validate_items repr f st (ti_id i # seen) rest = Inr ii" "items = i # ii"
    by (auto split: sum.splits)
  from 2(1) [OF i(1,2)] validate_item_Inr [OF i(1)] show ?case
    by (auto simp: i(3) item_ledger_def tx_ledger.ledger_empty)
qed

lemma tx_ok_write:
  assumes "tx_ok st" and "session_ok s" and "dget (tx_sessions st) (ts_id s) \<noteq> None \<or> length (tx_sessions st) < tx_max_sessions"
  shows "tx_ok (tx_write now s st)"
  using assms
  by (auto simp: tx_ok_def tx_write_def length_put dget_put session_ok_def dest: dget_key intro!: all_vals_put)

lemma tx_ok_files [simp]: "tx_ok (st\<lparr>tx_files := fs\<rparr>) = tx_ok st"
  by (simp add: tx_ok_def)

lemma tx_ok_cleanup: "tx_ok st \<Longrightarrow> tx_ok (tx_cleanup now st)"
  using length_keep [of "\<lambda>s. \<not> ts_mtime s < now - tx_ttl" "tx_sessions st"]
  by (auto simp: tx_ok_def tx_cleanup_def dget_keep split: option.splits if_splits)

lemma tx_ok_pop: "tx_ok st \<Longrightarrow> tx_ok (st\<lparr>tx_sessions := dpop k (tx_sessions st)\<rparr>)"
  using length_pop_le [of k "tx_sessions st"]
  by (auto simp: tx_ok_def dget_pop split: if_splits)

lemma load_owned_ok:
  assumes "tx_ok st" and "load_owned now sid owner st = (st', r)"
  shows "tx_ok st' \<and> (\<forall>s. r = Inr s \<longrightarrow> st' = st \<and> dget (tx_sessions st) sid = Some s \<and> ts_id s = sid \<and>
    ts_owner s = owner \<and> session_ok s)"
  using assms
  by (auto simp: load_owned_def tx_ok_pop split: option.splits if_splits)
    (auto simp: tx_ok_def dest: all_vals_get)

lemma replace_item_ids:
  "find_item i items = Some x \<Longrightarrow> ti_id y = ti_id x \<Longrightarrow> map ti_id (replace_item y items) = map ti_id items"
  by (induction items) (auto simp: find_item_def split: if_splits)

lemma replace_item_all:
  assumes "distinct (map ti_id items)" and "\<forall>x \<in> set items. ti_id x \<noteq> ti_id y \<longrightarrow> P x" and "P y"
  shows "list_all P (replace_item y items)"
  using assms
proof (induction items)
  case (Cons x xs)
  show ?case
  proof (cases "ti_id x = ti_id y")
    case True
    with Cons.prems(1) have "\<forall>z \<in> set xs. ti_id z \<noteq> ti_id y" by (auto simp: image_iff)
    with Cons.prems True show ?thesis by (auto simp: list_all_iff)
  next
    case False
    with Cons show ?thesis by auto
  qed
qed simp

lemma session_ok_put:
  assumes "session_ok s" and "find_item i (ts_items s) = Some item"
    and "0 \<le> k" and "k < chunks_for tx_chunk (ti_size item)" and "int (length b) = expected_size (ti_size item) k"
  shows "session_ok (s\<lparr>ts_chunks := dput (i, k) b (ts_chunks s),
    ts_items := replace_item (item\<lparr>ti_received := add_received k (ti_received item)\<rparr>) (ts_items s), ts_updated := now\<rparr>)"
proof -
  from find_Some_in [OF assms(2) [unfolded find_item_def]] have item: "item \<in> set (ts_items s)" "ti_id item = i" by auto
  let ?y = "item\<lparr>ti_received := add_received k (ti_received item)\<rparr>" and ?cs = "dput (i, k) b (ts_chunks s)"
  have "item_ledger (ts_chunks s) item" using assms(1) item by (auto simp: session_ok_def list_all_iff)
  then have "item_ledger ?cs ?y"
    using tx_ledger.ledger_put [OF _ assms(3-5)] item(2) by (simp add: item_ledger_def)
  moreover have "item_ledger ?cs x" if "x \<in> set (ts_items s)" "ti_id x \<noteq> ti_id ?y" for x
    using assms(1) that item(2) by (auto simp: session_ok_def list_all_iff item_ledger_def intro: tx_ledger.ledger_put_other)
  moreover have "map ti_id (replace_item ?y (ts_items s)) = map ti_id (ts_items s)"
    by (rule replace_item_ids [OF assms(2)]) simp
  ultimately show ?thesis
    using assms(1) replace_item_all [of "ts_items s" ?y "item_ledger ?cs"] by (auto simp: session_ok_def)
qed

lemma stage_items_map: "stage_items hash cs items = Inr staged \<Longrightarrow> map fst staged = items"
  by (induction items arbitrary: staged) (auto split: if_splits option.splits sum.splits)

lemma commit_items_frame:
  "commit_items f ow staged st = (st', r) \<Longrightarrow> tx_sessions st' = tx_sessions st \<and> tx_upload st' = tx_upload st \<and>
    tx_root st' = tx_root st \<and> tx_prefix st' = tx_prefix st \<and> tx_ok st' = tx_ok st \<and>
    (\<forall>items. r = Inr items \<longrightarrow> map ti_id items = map (ti_id \<circ> fst) staged \<and>
       list_all (item_ledger cs) items = list_all (item_ledger cs) (map fst staged))"
proof (induction f ow staged st arbitrary: st' r rule: commit_items.induct)
  case (1 f ow st)
  then have "st' = st" and "r = Inr []" by simp_all
  then show ?case by simp
next
  case (2 f ow item bytes rest st)
  obtain st1 r1 where c: "commit_item f ow item bytes st = (st1, r1)" by fastforce
  then have st1: "tx_sessions st1 = tx_sessions st" "tx_upload st1 = tx_upload st" "tx_root st1 = tx_root st"
    "tx_prefix st1 = tx_prefix st" "tx_ok st1 = tx_ok st"
    by (auto simp: commit_item_def Let_def split: sum.splits if_splits)
  show ?case
  proof (cases r1)
    case (Inl e)
    with 2(2) c have "st' = st1" "r = Inl e" by auto
    with st1 show ?thesis by simp
  next
    case (Inr label)
    obtain st2 r2 where c2: "commit_items f ow rest st1 = (st2, r2)" by fastforce
    note IH = 2(1) [OF c [symmetric] Inr c2]
    have ledger: "item_ledger cs (item\<lparr>ti_committed := x\<rparr>) = item_ledger cs item" for x
      by (simp add: item_ledger_def)
    have "st' = st2" "\<forall>items. r = Inr items \<longrightarrow> (\<exists>is. r2 = Inr is \<and> items = item\<lparr>ti_committed := Some label\<rparr> # is)"
      using 2(2) c c2 Inr by (cases r2; auto)+
    with IH st1 ledger show ?thesis by auto
  qed
qed

lemma tx_ok_commit:
  assumes "tx_ok st"
  shows "tx_ok (fst (tx_commit f hash now sid owner ow st))"
proof -
  obtain st1 r where l: "load_owned now sid owner st = (st1, r)" by fastforce
  note ok = load_owned_ok [OF assms l]
  show ?thesis
  proof (cases r)
    case (Inl e)
    with l ok show ?thesis by (simp add: tx_commit_def)
  next
    case (Inr s)
    with ok have s: "st1 = st" "dget (tx_sessions st) sid = Some s" "ts_id s = sid" "session_ok s" by auto
    let ?st = "if stage_touches s then tx_write now s st else st"
    have st: "tx_ok ?st" "dget (tx_sessions ?st) sid \<noteq> None"
      using assms s by (auto intro!: tx_ok_write) (auto simp: tx_write_def dget_put)
    show ?thesis
    proof (cases "ts_status s = Tx_Committed \<or> (\<exists>e. stage_items hash (ts_chunks s) (ts_items s) = Inl e)")
      case True
      with l Inr s assms st(1) show ?thesis by (auto simp: tx_commit_def Let_def)
    next
      case False
      then obtain staged where g: "stage_items hash (ts_chunks s) (ts_items s) = Inr staged"
        by (cases "stage_items hash (ts_chunks s) (ts_items s)") auto
      obtain st2 r2 where c: "commit_items f ow staged ?st = (st2, r2)" by fastforce
      note frame = commit_items_frame [OF c, of "ts_chunks s"]
      have m: "map fst staged = ts_items s" by (rule stage_items_map [OF g])
      show ?thesis
      proof (cases r2)
        case (Inl e)
        with l Inr s False g c frame st show ?thesis by (auto simp: tx_commit_def Let_def)
      next
        case (Inr items)
        have "session_ok (s\<lparr>ts_items := items, ts_status := Tx_Committed, ts_updated := now\<rparr>)"
          using frame m s(4) Inr by (auto simp: session_ok_def map_map [symmetric] simp del: map_map)
        moreover have "tx_ok st2" "dget (tx_sessions st2) sid \<noteq> None" using frame st by auto
        ultimately have "tx_ok (tx_write now (s\<lparr>ts_items := items, ts_status := Tx_Committed, ts_updated := now\<rparr>) st2)"
          using s(3) by (intro tx_ok_write) auto
        with l \<open>r = Inr s\<close> s False g c Inr show ?thesis by (auto simp: tx_commit_def Let_def)
      qed
    qed
  qed
qed

lemma tx_ok_apply:
  assumes "tx_ok st"
  shows "tx_ok (tx_apply repr f hash op st)"
proof (cases op)
  case (Tx_Create sid now manifest owner)
  have "session_ok \<lparr>ts_id = sid, ts_owner = owner, ts_created = now, ts_updated = now, ts_status = Tx_Active,
      ts_items = items, ts_chunks = [], ts_mtime = now\<rparr>"
    if "validate_manifest repr f st manifest = Inr items" for items
    using that validate_items_Inr [of repr f st "[]" _ items "[]"]
    by (auto simp: validate_manifest_def session_ok_def split: json.splits if_splits)
  with assms tx_ok_cleanup [OF assms, of now] show ?thesis
    by (auto simp: Tx_Create tx_create_def Let_def not_le intro!: tx_ok_write split: sum.split)
next
  case (Tx_Get now sid owner)
  obtain st1 r where "load_owned now sid owner st = (st1, r)" by fastforce
  with load_owned_ok [OF assms this] show ?thesis by (simp add: Tx_Get tx_get_def)
next
  case (Tx_Put now sid item i data owner)
  obtain st1 r where l: "load_owned now sid owner st = (st1, r)" by fastforce
  note ok = load_owned_ok [OF assms l]
  show ?thesis
  proof (cases r)
    case (Inl e)
    with l ok show ?thesis by (simp add: Tx_Put tx_put_chunk_def)
  next
    case (Inr s)
    with ok l session_ok_put [of s item] assms show ?thesis
      by (auto simp: Tx_Put tx_put_chunk_def Let_def intro!: tx_ok_write split: option.split)
  qed
next
  case (Tx_Commit now sid owner ow)
  with tx_ok_commit [OF assms] show ?thesis by simp
next
  case (Tx_Delete now sid owner)
  obtain st1 r where l: "load_owned now sid owner st = (st1, r)" by fastforce
  with load_owned_ok [OF assms l] show ?thesis by (auto simp: Tx_Delete tx_delete_def tx_ok_pop split: sum.split)
qed

lemma tx_ok_run: "tx_ok st \<Longrightarrow> tx_ok (fold (tx_apply repr f hash) ops st)"
  by (induction ops arbitrary: st) (auto simp: tx_ok_apply)

text \<open>What the two passes of a commit do for an item.\<close>

definition staged_ok :: "(string \<Rightarrow> string) \<Rightarrow> chunks \<Rightarrow> transfer_item \<times> string \<Rightarrow> bool" where
  "staged_ok hash cs ib = (case ib of (i, b) \<Rightarrow>
     assemble cs (ti_id i) [0 .. chunks_for tx_chunk (ti_size i) - 1] = Some b \<and> int (length b) = ti_size i \<and>
     (\<forall>d. ti_sha i = Some d \<and> d \<noteq> [] \<longrightarrow> hash b = d))"

lemma stage_items_ok: "stage_items hash cs items = Inr staged \<Longrightarrow> list_all (staged_ok hash cs) staged"
  by (induction items arbitrary: staged) (auto simp: staged_ok_def split: if_splits option.splits sum.splits)

lemma stage_items_error:
  assumes "list_all (item_ledger cs) items" and "stage_items hash cs items = Inl e"
  shows "e = Tx_Incomplete \<or> e = Tx_Hash_Mismatch"
  using assms
proof (induction items)
  case Nil
  then show ?case by simp
next
  case (Cons i items)
  show ?case
  proof (cases "ti_received i = [0 .. chunks_for tx_chunk (ti_size i) - 1]")
    case True
    with tx_ledger.complete_size [OF _ True, of "ti_id i" cs] Cons.prems(1)
    obtain bs where "assemble cs (ti_id i) [0 .. chunks_for tx_chunk (ti_size i) - 1] = Some bs" "int (length bs) = ti_size i"
      by (auto simp: item_ledger_def)
    with Cons True show ?thesis by (auto split: if_splits sum.splits)
  qed (use Cons in simp)
qed

definition stored_at :: "transfer_store \<Rightarrow> string \<Rightarrow> string \<Rightarrow> bool" where
  "stored_at st label b \<longleftrightarrow> (\<exists>p. dget (tx_files st) p = Some b \<and> is_below p (tx_upload st) \<and> committed_text st p = Inr label)"

lemma committed_text_cong:
  "tx_upload st' = tx_upload st \<Longrightarrow> tx_prefix st' = tx_prefix st \<Longrightarrow> tx_root st' = tx_root st \<Longrightarrow>
    committed_text st' p = committed_text st p"
  by (simp add: committed_text_def cong: option.case_cong if_cong)

text \<open>A target without overwriting is a new file below the upload folder.\<close>

lemma commit_item_Inr:
  assumes "commit_item f ow item b st = (st', Inr label)" and "p = tx_upload st"
  shows "\<exists>t. st' = st\<lparr>tx_files := dput t b (tx_files st)\<rparr> \<and> is_below t p \<and> committed_text st t = Inr label \<and>
    (\<not> ow \<longrightarrow> dget (tx_files st) t = None)"
proof -
  have label: "committed_text (st\<lparr>tx_files := d\<rparr>) t = committed_text st t" for d t
    by (rule committed_text_cong) simp_all
  have "is_below t p" if "committed_text st t = Inr label" for t
    using that assms(2) by (auto simp: committed_text_def relative_to_def split: option.splits if_splits)
  with assms(1) label show ?thesis
    by (auto simp: commit_item_def ensure_below_def unique_path_def target_exists_def Let_def
        split: sum.splits if_splits option.splits dest!: find_Some_in)
qed

lemma commit_items_Inr:
  assumes "commit_items f ow staged st = (st', Inr items)"
  shows "(\<not> ow \<longrightarrow> (\<forall>p b. dget (tx_files st) p = Some b \<longrightarrow> dget (tx_files st') p = Some b) \<and>
      list_all2 (\<lambda>ib i. \<exists>label. ti_committed i = Some label \<and> stored_at st' label (snd ib)) staged items) \<and>
    (\<forall>p. dget (tx_files st') p \<noteq> dget (tx_files st) p \<longrightarrow> is_below p (tx_upload st))"
  using assms
proof (induction staged arbitrary: st items)
  case Nil
  then show ?case by simp
next
  case (Cons ib rest)
  obtain item b where ib: "ib = (item, b)" by (cases ib)
  from Cons.prems obtain st1 label items' where c: "commit_item f ow item b st = (st1, Inr label)"
    "commit_items f ow rest st1 = (st', Inr items')" "items = item\<lparr>ti_committed := Some label\<rparr> # items'"
    by (auto simp: ib split: prod.splits sum.splits)
  from commit_item_Inr [OF c(1) refl] obtain t where t: "st1 = st\<lparr>tx_files := dput t b (tx_files st)\<rparr>"
    "is_below t (tx_upload st)" "committed_text st t = Inr label" "\<not> ow \<longrightarrow> dget (tx_files st) t = None" by blast
  note IH = Cons.IH [OF c(2)]
  note frame = commit_items_frame [OF c(2), of "[]"]
  have label: "committed_text st' p = committed_text st p" for p
    using frame t(1) by (intro committed_text_cong) simp_all
  have "stored_at st' label b" if "\<not> ow"
  proof -
    have "dget (tx_files st1) t = Some b" by (simp add: t(1) dget_put)
    with IH that have "dget (tx_files st') t = Some b" by blast
    with t(2,3) label frame t(1) show ?thesis by (auto simp: stored_at_def)
  qed
  moreover have "dget (tx_files st') p = Some b'" if "\<not> ow" "dget (tx_files st) p = Some b'" for p b'
  proof -
    have "p \<noteq> t" using that t(4) by auto
    with that t(1) have "dget (tx_files st1) p = Some b'" by (simp add: dget_put)
    with IH that show ?thesis by blast
  qed
  moreover have "is_below p (tx_upload st)" if "dget (tx_files st') p \<noteq> dget (tx_files st) p" for p
  proof (cases "p = t")
    case False
    with that t(1) have "dget (tx_files st') p \<noteq> dget (tx_files st1) p" by (simp add: dget_put)
    with IH t(1) show ?thesis by auto
  qed (use t(2) in simp)
  ultimately show ?case using IH by (simp add: c(3) ib)
qed

definition demo_transfer_store :: transfer_store where
  "demo_transfer_store = \<lparr>tx_root = [''r''], tx_upload = [''r'', ''u''], tx_prefix = [], tx_sessions = [], tx_files = []\<rparr>"

definition demo_sid :: string where
  "demo_sid = replicate 32 (CHR ''a'')"

definition demo_transfer :: "tx_op list" where
  "demo_transfer =
     [Tx_Create demo_sid 1 (JList [JObj [(''id'', JStr ''x''), (''filename'', JStr ''f''), (''size'', JInt 2)]]) ''o'',
      Tx_Put 2 demo_sid ''x'' 0 ''hi'' ''o'']"

definition demo_session :: transfer_session where
  "demo_session = \<lparr>ts_id = demo_sid, ts_owner = ''o'', ts_created = 1, ts_updated = 2, ts_status = Tx_Active,
     ts_items = [\<lparr>ti_id = ''x'', ti_filename = ''f'', ti_size = 2, ti_destination = ''/'', ti_sha = None,
       ti_received = [0], ti_committed = None\<rparr>], ts_chunks = [((''x'', 0), ''hi'')], ts_mtime = 2\<rparr>"

definition demo_transfer_state :: transfer_store where
  "demo_transfer_state = demo_transfer_store\<lparr>tx_sessions := [(demo_sid, demo_session)]\<rparr>"

lemma demo_sid_ok: "length demo_sid = 32" "list_all is_lower_hex demo_sid"
  by (simp_all add: demo_sid_def is_lower_hex_def list_all_iff)

lemma demo_chunks: "chunks_for tx_chunk 2 = 1" "expected_size 2 0 = 2"
  by (simp_all add: chunks_for_def tx_chunk_def expected_size_def)

lemma demo_manifest:
  "validate_manifest (\<lambda>_. []) (plain_fs [] []) demo_transfer_store
     (JList [JObj [(''id'', JStr ''x''), (''filename'', JStr ''f''), (''size'', JInt 2)]]) =
   Inr [\<lparr>ti_id = ''x'', ti_filename = ''f'', ti_size = 2, ti_destination = ''/'', ti_sha = None, ti_received = [], ti_committed = None\<rparr>]"
  by (simp add: validate_manifest_def tx_max_items_def validate_item_def Let_def jget_or_def jget_def str_strip_def is_space_def
      item_id_ok_def filename_ok_def name_of_def path_parts_def sha_ok_def tx_destination_def ensure_below_def
      demo_transfer_store_def plain_fs_def lstrip_of_def slashes_def is_below_def is_alnum_def char_eval)

lemma demo_transfer_run:
  "fold (tx_apply (\<lambda>_. []) (plain_fs [] []) hash) demo_transfer demo_transfer_store = demo_transfer_state"
proof -
  let ?c = "tx_apply (\<lambda>_. []) (plain_fs [] []) hash
    (Tx_Create demo_sid 1 (JList [JObj [(''id'', JStr ''x''), (''filename'', JStr ''f''), (''size'', JInt 2)]]) ''o'') demo_transfer_store"
  let ?s = "\<lparr>ts_id = demo_sid, ts_owner = ''o'', ts_created = 1, ts_updated = 1, ts_status = Tx_Active,
     ts_items = [\<lparr>ti_id = ''x'', ti_filename = ''f'', ti_size = 2, ti_destination = ''/'', ti_sha = None,
       ti_received = [], ti_committed = None\<rparr>], ts_chunks = [], ts_mtime = 1\<rparr>"
  have "?c = demo_transfer_store\<lparr>tx_sessions := [(demo_sid, ?s)]\<rparr>"
    by (simp add: tx_create_def demo_manifest Let_def)
      (simp add: tx_cleanup_def tx_write_def demo_transfer_store_def dkeep_def tx_max_sessions_def)
  then show ?thesis
    by (simp add: demo_transfer_def del: tx_apply.simps(1))
      (simp add: tx_put_chunk_def load_owned_def demo_sid_ok tx_ttl_def find_item_def demo_chunks Let_def tx_write_def
        add_received_def demo_transfer_state_def demo_session_def demo_transfer_store_def)
qed


section \<open>Properties\<close>



end
