(* ===== verification/P2P_Relay.thy ===== *)
theory P2P_Relay
  imports Chunk_Ledger Py_Json Transfer_Sessions
begin

text \<open>
  The ciphertext relay between Players (\<^verbatim>\<open>core/p2p_relay.py\<close>): acceptance of an invitation, configuration
  by the sender, chunk upload, commit, download by the holder of the receiver capability, revocation,
  expiry. A relay folder is a record of its metadata (\<open>None\<close> when \<^verbatim>\<open>relay.json\<close> was not written) and its
  chunk files. \<open>msize\<close> is the length of the encoded metadata, \<open>free\<close> the free disk space, \<open>h\<close> the hash of
  a capability and \<open>hash\<close> that of a chunk. Cluster replication of the folders is not modelled.
\<close>

datatype relay_status = Rl_Accepted | Rl_Uploading | Rl_Ready | Rl_Downloaded

record relay_item =
  ri_id :: string
  ri_filename :: string
  ri_clear :: int
  ri_count :: int
  ri_cipher :: int
  ri_received :: "int list"
  ri_hashes :: "(string, string) dict"

record relay =
  rl_id :: string
  rl_invitation :: string
  rl_binding :: string
  rl_files :: "json list"
  rl_acceptance :: json
  rl_token_hash :: string
  rl_owner :: "string option"
  rl_created :: time
  rl_updated :: time
  rl_expires :: time
  rl_status :: relay_status
  rl_descriptor :: json
  rl_completion :: json
  rl_items :: "relay_item list"

record relay_folder =
  fo_meta :: "relay option"
  fo_chunks :: chunks

type_synonym relays = "(string, relay_folder) dict"

datatype relay_error =
  Rl_Bad_Binding | Rl_Bad_Acceptance | Rl_Unsupported | Rl_Binding_Mismatch | Rl_Bad_Capability | Rl_Already_Accepted
| Rl_Too_Many | Rl_Consumed | Rl_Not_Found | Rl_Bad_Lifetime | Rl_Not_Configurable | Rl_Owner_Mismatch
| Rl_Bad_Descriptor | Rl_Descriptor_Mismatch | Rl_Manifest_Mismatch | Rl_Quota | Rl_Descriptor_Changed | Rl_Item_Count
| Rl_Differs | Rl_Bad_Item | Rl_Bad_Size | Rl_Bad_Id | Rl_Bad_Filename | Rl_Bad_Sizing | Rl_Too_Large | Rl_Not_Uploading
| Rl_Chunk_Index | Rl_Chunk_Size | Rl_Full | Rl_Incomplete | Rl_Bad_Completion | Rl_Completion_Mismatch | Rl_Not_Ready
| Rl_Chunk_Missing | Rl_Corrupt | Rl_Expired | Rl_No_Item | Rl_Unavailable | Rl_Meta_Too_Large | Rl_Py py_error

record relay_receipt =
  rr_id :: string
  rr_token :: string
  rr_expires :: time
  rr_status :: relay_status
  rr_idempotent :: bool

definition clear_chunk :: int where "clear_chunk = 4 * 1024 * 1024"
definition gcm_overhead :: int where "gcm_overhead = 28"
definition relay_max_items :: nat where "relay_max_items = 100"
definition relay_max_sessions :: nat where "relay_max_sessions = 64"
definition max_relay_clear :: int where "max_relay_clear = 64 * 1024 * 1024 * 1024"
definition max_relay_store :: int where "max_relay_store = 128 * 1024 * 1024 * 1024"
definition relay_min_ttl :: int where "relay_min_ttl = 5 * 60"
definition relay_max_ttl :: int where "relay_max_ttl = 48 * 60 * 60"
definition relay_default_ttl :: time where "relay_default_ttl = 24 * 60 * 60"
definition max_metadata :: nat where "max_metadata = 256 * 1024"
definition min_free :: nat where "min_free = 64 * 1024 * 1024"

definition hex_of_length :: "string \<Rightarrow> nat \<Rightarrow> bool" where
  "hex_of_length s n \<longleftrightarrow> length s = n \<and> list_all is_lower_hex s"

section \<open>Folders\<close>

definition relay_expired :: "time \<Rightarrow> relay_folder \<Rightarrow> bool" where
  "relay_expired now fo = (case fo_meta fo of None \<Rightarrow> True | Some m \<Rightarrow> rl_expires m \<le> now)"

definition relay_cleanup :: "time \<Rightarrow> relays \<Rightarrow> relays" where
  "relay_cleanup now = dkeep (\<lambda>fo. \<not> relay_expired now fo)"

definition write_metadata :: "(relay \<Rightarrow> nat) \<Rightarrow> string \<Rightarrow> relay \<Rightarrow> relays \<Rightarrow> relays \<times> (relay_error + unit)" where
  "write_metadata msize k m d =
     (let fo = (case dget d k of None \<Rightarrow> \<lparr>fo_meta = None, fo_chunks = []\<rparr> | Some fo \<Rightarrow> fo)
      in if max_metadata < msize m then (dput k fo d, Inl Rl_Meta_Too_Large)
         else (dput k (fo\<lparr>fo_meta := Some m\<rparr>) d, Inr ()))"

definition find_by_invitation :: "time \<Rightarrow> string \<Rightarrow> relays \<Rightarrow> (string \<times> relay) option" where
  "find_by_invitation now invitation d =
     (case find (\<lambda>(k, fo). case fo_meta fo of None \<Rightarrow> False
              | Some m \<Rightarrow> rl_invitation m = invitation \<and> now < rl_expires m) d of
        None \<Rightarrow> None | Some (k, fo) \<Rightarrow> map_option (Pair k) (fo_meta fo))"

text \<open>The first folder with the receiver's hash; an expired one is removed and nothing is found.\<close>

definition find_by_token ::
    "(string \<Rightarrow> string) \<Rightarrow> time \<Rightarrow> string \<Rightarrow> relays \<Rightarrow> relays \<times> (relay_error + string \<times> relay \<times> chunks)" where
  "find_by_token h now token d =
     (if token = [] then (d, Inl Rl_Unavailable)
      else (case find (\<lambda>(k, fo). case fo_meta fo of None \<Rightarrow> False | Some m \<Rightarrow> rl_token_hash m = h token) d of
              None \<Rightarrow> (d, Inl Rl_Unavailable)
            | Some (k, fo) \<Rightarrow>
                (case fo_meta fo of None \<Rightarrow> (d, Inl Rl_Unavailable)
                 | Some m \<Rightarrow> if rl_expires m \<le> now then (dpop k d, Inl Rl_Unavailable)
                             else (d, Inr (k, m, fo_chunks fo)))))"

definition load_relay :: "time \<Rightarrow> string \<Rightarrow> relays \<Rightarrow> relays \<times> (relay_error + relay)" where
  "load_relay now k d =
     (if \<not> hex_of_length k 32 then (d, Inl Rl_Not_Found)
      else (case Option.bind (dget d k) fo_meta of None \<Rightarrow> (d, Inl Rl_Not_Found)
            | Some m \<Rightarrow> if rl_expires m \<le> now then (dpop k d, Inl Rl_Expired) else (d, Inr m)))"

definition active_relays :: "relays \<Rightarrow> nat" where
  "active_relays d = length (filter (\<lambda>fo. fo_meta fo \<noteq> None) (dvals d))"

definition meta_bytes :: "relay_folder \<Rightarrow> int" where
  "meta_bytes fo = (case fo_meta fo of None \<Rightarrow> 0 | Some m \<Rightarrow> sum_list (map ri_cipher (rl_items m)))"

definition reserved_bytes :: "string \<Rightarrow> relays \<Rightarrow> int" where
  "reserved_bytes exclude d = sum_list (map (\<lambda>(k, fo). if k = exclude then 0 else meta_bytes fo) d)"

definition owner_ok :: "relay \<Rightarrow> string \<Rightarrow> bool" where
  "owner_ok m owner \<longleftrightarrow> owner \<noteq> [] \<and> rl_owner m = Some owner"

definition find_relay_item :: "string \<Rightarrow> relay_item list \<Rightarrow> relay_item option" where
  "find_relay_item i items = find (\<lambda>x. ri_id x = i) items"

definition cipher_chunk_size :: "int \<Rightarrow> int \<Rightarrow> int" where
  "cipher_chunk_size clear k = max 0 (min clear_chunk (clear - k * clear_chunk)) + gcm_overhead"

section \<open>Acceptance\<close>

definition relay_receipt_of :: "string \<Rightarrow> bool \<Rightarrow> relay \<Rightarrow> relay_receipt" where
  "relay_receipt_of token again m =
     \<lparr>rr_id = rl_id m, rr_token = token, rr_expires = rl_expires m, rr_status = rl_status m, rr_idempotent = again\<rparr>"

definition check_acceptance :: "string \<Rightarrow> string \<Rightarrow> json \<Rightarrow> relay_error option" where
  "check_acceptance invite_id binding acceptance =
     (if \<not> hex_of_length invite_id 32 \<or> \<not> hex_of_length binding 64 then Some Rl_Bad_Binding
      else (case acceptance of
              JObj a \<Rightarrow>
                if \<not> py_eq (jget a ''protocol'') (JStr ''NSP2P-RELAY-ACCEPT'') \<or> \<not> py_eq (jget a ''version'') (JInt 1)
                then Some Rl_Unsupported
                else if \<not> py_eq (jget a ''invite_id'') (JStr invite_id) \<or> \<not> py_eq (jget a ''invitation_binding'') (JStr binding)
                then Some Rl_Binding_Mismatch
                else None
            | _ \<Rightarrow> Some Rl_Bad_Acceptance))"

definition capability_ok :: "string \<Rightarrow> bool" where
  "capability_ok token \<longleftrightarrow> 32 \<le> length token \<and> length token \<le> 256"

definition accept_relay ::
    "(json \<Rightarrow> string) \<Rightarrow> (string \<Rightarrow> string) \<Rightarrow> (relay \<Rightarrow> nat) \<Rightarrow> string \<Rightarrow> string \<Rightarrow> time \<Rightarrow> jobj \<Rightarrow> json \<Rightarrow> string option \<Rightarrow>
     relays \<Rightarrow> relays \<times> (relay_error + relay_receipt)" where
  "accept_relay repr h msize fresh relay_id now invitation acceptance receiver_token d =
     (let invite_id = str_strip (to_str repr (jget_or invitation ''invite_id'' (JStr [])));
          binding = str_strip (to_str repr (jget_or invitation ''session_binding'' (JStr [])))
      in case check_acceptance invite_id binding acceptance of Some e \<Rightarrow> (d, Inl e)
         | None \<Rightarrow>
             (let d = relay_cleanup now d;
                  supplied = str_strip (case receiver_token of None \<Rightarrow> [] | Some t \<Rightarrow> t);
                  token = (if supplied \<noteq> [] then supplied else fresh)
              in if \<not> capability_ok token then (d, Inl Rl_Bad_Capability)
                 else (case find_by_invitation now invite_id d of
                         Some (k, m) \<Rightarrow>
                           if py_eq (rl_acceptance m) acceptance \<and> rl_token_hash m = h token
                           then (d, Inr (relay_receipt_of token True m)) else (d, Inl Rl_Already_Accepted)
                       | None \<Rightarrow>
                           if relay_max_sessions \<le> active_relays d then (d, Inl Rl_Too_Many)
                           else if dget d relay_id \<noteq> None then (d, Inl (Rl_Py (Runtime_Error ''FileExistsError'')))
                           else (let m = \<lparr>rl_id = relay_id, rl_invitation = invite_id, rl_binding = binding,
                                          rl_files = (case jget invitation ''files'' of JList fs \<Rightarrow> fs | _ \<Rightarrow> []),
                                          rl_acceptance = acceptance, rl_token_hash = h token, rl_owner = None,
                                          rl_created = now, rl_updated = now, rl_expires = now + relay_default_ttl,
                                          rl_status = Rl_Accepted, rl_descriptor = JNull, rl_completion = JNull, rl_items = []\<rparr>
                                 in (case write_metadata msize relay_id m d of
                                       (d, Inl e) \<Rightarrow> (d, Inl e)
                                     | (d, Inr _) \<Rightarrow> (d, Inr (relay_receipt_of token False m)))))))"

definition retry_accept ::
    "(string \<Rightarrow> string) \<Rightarrow> time \<Rightarrow> string \<Rightarrow> json \<Rightarrow> string \<Rightarrow> relays \<Rightarrow> relays \<times> (relay_error + relay_receipt)" where
  "retry_accept h now invitation acceptance receiver_token d =
     (let token = str_strip receiver_token
      in if \<not> capability_ok token then (d, Inl Rl_Bad_Capability)
         else (let d = relay_cleanup now d
               in case find_by_invitation now invitation d of None \<Rightarrow> (d, Inl Rl_Consumed)
                  | Some (k, m) \<Rightarrow>
                      if \<not> py_eq (rl_acceptance m) acceptance \<or> rl_token_hash m \<noteq> h token then (d, Inl Rl_Consumed)
                      else (d, Inr (relay_receipt_of token True m))))"

text \<open>\<open>_public\<close> leaves out the token hash and the owner, and the ledgers except as upload progress.\<close>

record relay_public =
  rp_relay :: relay
  rp_progress :: "(string \<times> int list) list option"

definition relay_view :: "relay \<Rightarrow> relay_public" where
  "relay_view m =
     \<lparr>rp_relay = m\<lparr>rl_token_hash := [], rl_owner := None,
        rl_items := map (\<lambda>i. i\<lparr>ri_received := [], ri_hashes := []\<rparr>) (rl_items m)\<rparr>,
      rp_progress = (if rl_status m = Rl_Uploading then Some (map (\<lambda>i. (ri_id i, ri_received i)) (rl_items m)) else None)\<rparr>"

definition relay_sender_status :: "time \<Rightarrow> string \<Rightarrow> relays \<Rightarrow> relays \<times> (relay_error + relay_public)" where
  "relay_sender_status now invitation d =
     (let d = relay_cleanup now d
      in case find_by_invitation now invitation d of None \<Rightarrow> (d, Inl Rl_Not_Found) | Some (k, m) \<Rightarrow> (d, Inr (relay_view m)))"

section \<open>Configuration\<close>

text \<open>\<open>invited\<close>: the invitation's files by id, a later one replacing an earlier one.\<close>

fun invited_files :: "(json \<Rightarrow> string) \<Rightarrow> json list \<Rightarrow> (string, jobj) dict \<Rightarrow> (string, jobj) dict" where
  "invited_files repr [] acc = acc"
| "invited_files repr (JObj ob # fs) acc = invited_files repr fs (dput (to_str repr (jget ob ''id'')) ob acc)"
| "invited_files repr (_ # fs) acc = invited_files repr fs acc"

definition validate_relay_item ::
    "(json \<Rightarrow> string) \<Rightarrow> (string, jobj) dict \<Rightarrow> string list \<Rightarrow> int \<Rightarrow> json \<Rightarrow> relay_error + relay_item" where
  "validate_relay_item repr invited seen clear_total raw =
     (case raw of
        JObj ob \<Rightarrow>
          (let item_id = str_strip (to_str repr (jget_or ob ''id'' (JStr [])));
               filename = str_strip (to_str repr (jget_or ob ''filename'' (JStr [])))
           in case (to_int (jget ob ''clear_size''), to_int (jget ob ''chunk_count''), to_int (jget ob ''ciphertext_size'')) of
                (Inr clear, Inr cnt, Inr cipher) \<Rightarrow>
                  if \<not> item_id_ok item_id \<or> item_id \<in> set seen then Inl Rl_Bad_Id
                  else if \<not> filename_ok filename then Inl Rl_Bad_Filename
                  else if clear < 0 \<or> cnt \<noteq> chunks_for clear_chunk clear
                          \<or> cipher \<noteq> clear + chunks_for clear_chunk clear * gcm_overhead then Inl Rl_Bad_Sizing
                  else (case dget invited item_id of None \<Rightarrow> Inl Rl_Differs
                        | Some iv \<Rightarrow>
                            if to_str repr (jget iv ''filename'') \<noteq> filename then Inl Rl_Differs
                            else (case to_int (jget_or iv ''size'' (JInt (- 1))) of Inl e \<Rightarrow> Inl (Rl_Py e)
                                  | Inr n \<Rightarrow>
                                      if n \<noteq> clear then Inl Rl_Differs
                                      else if max_relay_clear < clear_total + clear then Inl Rl_Too_Large
                                      else Inr \<lparr>ri_id = item_id, ri_filename = filename, ri_clear = clear, ri_count = cnt,
                                                ri_cipher = cipher, ri_received = [], ri_hashes = []\<rparr>))
              | _ \<Rightarrow> Inl Rl_Bad_Size)
      | _ \<Rightarrow> Inl Rl_Bad_Item)"

fun validate_relay_items ::
    "(json \<Rightarrow> string) \<Rightarrow> (string, jobj) dict \<Rightarrow> string list \<Rightarrow> int \<Rightarrow> json list \<Rightarrow> relay_error + relay_item list" where
  "validate_relay_items repr invited seen clear_total [] =
     (if set seen = set (dkeys invited) then Inr [] else Inl Rl_Differs)"
| "validate_relay_items repr invited seen clear_total (raw # raws) =
     (case validate_relay_item repr invited seen clear_total raw of Inl e \<Rightarrow> Inl e
      | Inr i \<Rightarrow> (case validate_relay_items repr invited (ri_id i # seen) (clear_total + ri_clear i) raws of
                   Inl e \<Rightarrow> Inl e | Inr is \<Rightarrow> Inr (i # is)))"

definition validate_relay :: "(json \<Rightarrow> string) \<Rightarrow> json \<Rightarrow> json list \<Rightarrow> relay_error + relay_item list" where
  "validate_relay repr items files =
     (case items of
        JList raws \<Rightarrow>
          if raws = [] \<or> relay_max_items < length raws then Inl Rl_Item_Count
          else if length raws \<noteq> length (invited_files repr files []) then Inl Rl_Differs
          else validate_relay_items repr (invited_files repr files []) [] 0 raws
      | _ \<Rightarrow> Inl Rl_Item_Count)"

definition item_json :: "relay_item \<Rightarrow> json" where
  "item_json i = JObj [(''id'', JStr (ri_id i)), (''filename'', JStr (ri_filename i)), (''clear_size'', JInt (ri_clear i)),
     (''chunk_count'', JInt (ri_count i)), (''ciphertext_size'', JInt (ri_cipher i))]"

definition check_descriptor :: "string \<Rightarrow> relay \<Rightarrow> json \<Rightarrow> relay_error option" where
  "check_descriptor invitation m descriptor =
     (case descriptor of
        JObj a \<Rightarrow>
          if \<not> py_eq (jget a ''protocol'') (JStr ''NSP2P-RELAY'') \<or> \<not> py_eq (jget a ''version'') (JInt 1)
          then Some Rl_Bad_Descriptor
          else if \<not> py_eq (jget a ''invite_id'') (JStr invitation)
               \<or> \<not> py_eq (jget a ''invitation_binding'') (JStr (rl_binding m))
               \<or> \<not> py_eq (jget a ''relay_id'') (JStr (rl_id m)) then Some Rl_Descriptor_Mismatch
          else None
      | _ \<Rightarrow> Some Rl_Bad_Descriptor)"

definition resume_item :: "relay_item list \<Rightarrow> relay_item \<Rightarrow> relay_item" where
  "resume_item prior i =
     (case find_relay_item (ri_id i) (rev prior) of None \<Rightarrow> i
      | Some old \<Rightarrow> i\<lparr>ri_received := ri_received old, ri_hashes := ri_hashes old\<rparr>)"

definition descriptor_files :: "json \<Rightarrow> json" where
  "descriptor_files d = (case d of JObj a \<Rightarrow> jget a ''files'' | _ \<Rightarrow> JNull)"

definition configure_relay ::
    "(json \<Rightarrow> string) \<Rightarrow> (relay \<Rightarrow> nat) \<Rightarrow> time \<Rightarrow> string \<Rightarrow> string \<Rightarrow> json \<Rightarrow> json \<Rightarrow> int \<Rightarrow> relays \<Rightarrow>
     relays \<times> (relay_error + relay_public)" where
  "configure_relay repr msize now invitation owner descriptor items ttl d =
     (if \<not> (relay_min_ttl \<le> ttl \<and> ttl \<le> relay_max_ttl) then (d, Inl Rl_Bad_Lifetime)
      else (let d = relay_cleanup now d
            in case find_by_invitation now invitation d of None \<Rightarrow> (d, Inl Rl_Not_Found)
               | Some (k, m) \<Rightarrow>
                   if rl_status m \<notin> {Rl_Accepted, Rl_Uploading} then (d, Inl Rl_Not_Configurable)
                   else if rl_owner m \<notin> {None, Some owner} then (d, Inl Rl_Owner_Mismatch)
                   else (case check_descriptor invitation m descriptor of Some e \<Rightarrow> (d, Inl e)
                   | None \<Rightarrow> (case validate_relay repr items (rl_files m) of Inl e \<Rightarrow> (d, Inl e)
                   | Inr normalized \<Rightarrow>
                       if \<not> py_eq (descriptor_files descriptor) (JList (map item_json normalized))
                       then (d, Inl Rl_Manifest_Mismatch)
                       else if max_relay_store < reserved_bytes (rl_id m) d + sum_list (map ri_cipher normalized)
                       then (d, Inl Rl_Quota)
                       else if rl_status m = Rl_Uploading \<and> \<not> py_eq (rl_descriptor m) descriptor
                       then (d, Inl Rl_Descriptor_Changed)
                       else (let is = (if rl_status m = Rl_Uploading then map (resume_item (rl_items m)) normalized else normalized);
                                 m = m\<lparr>rl_owner := Some owner, rl_descriptor := descriptor, rl_items := is,
                                        rl_status := Rl_Uploading, rl_updated := now, rl_expires := now + of_int ttl\<rparr>
                             in (case write_metadata msize k m d of
                                   (d, Inl e) \<Rightarrow> (d, Inl e) | (d, Inr _) \<Rightarrow> (d, Inr (relay_view m))))))))"

section \<open>Upload, commit and download\<close>

fun replace_relay_item :: "relay_item \<Rightarrow> relay_item list \<Rightarrow> relay_item list" where
  "replace_relay_item y [] = []"
| "replace_relay_item y (x # xs) = (if ri_id x = ri_id y then y # xs else x # replace_relay_item y xs)"

definition put_chunk_file :: "string \<Rightarrow> string \<Rightarrow> int \<Rightarrow> string \<Rightarrow> relays \<Rightarrow> relays" where
  "put_chunk_file k item i data d =
     (case dget d k of None \<Rightarrow> d | Some fo \<Rightarrow> dput k (fo\<lparr>fo_chunks := dput (item, i) data (fo_chunks fo)\<rparr>) d)"

definition relay_put_chunk ::
    "(relay \<Rightarrow> nat) \<Rightarrow> (string \<Rightarrow> string) \<Rightarrow> nat \<Rightarrow> time \<Rightarrow> string \<Rightarrow> string \<Rightarrow> int \<Rightarrow> string \<Rightarrow> string \<Rightarrow> relays \<Rightarrow>
     relays \<times> (relay_error + int list)" where
  "relay_put_chunk msize hash free now k item_id i data owner d =
     (case load_relay now k d of
        (d, Inl e) \<Rightarrow> (d, Inl e)
      | (d, Inr m) \<Rightarrow>
          if \<not> owner_ok m owner then (d, Inl Rl_Owner_Mismatch)
          else if rl_status m \<noteq> Rl_Uploading then (d, Inl Rl_Not_Uploading)
          else (case find_relay_item item_id (rl_items m) of None \<Rightarrow> (d, Inl Rl_No_Item)
                | Some item \<Rightarrow>
                    if i < 0 \<or> ri_count item \<le> i then (d, Inl Rl_Chunk_Index)
                    else if int (length data) \<noteq> cipher_chunk_size (ri_clear item) i then (d, Inl Rl_Chunk_Size)
                    else if free < length data + min_free then (d, Inl Rl_Full)
                    else (let d = put_chunk_file k item_id i data d;
                              item = item\<lparr>ri_received := add_received i (ri_received item),
                                          ri_hashes := dput (show_int i) (hash data) (ri_hashes item)\<rparr>;
                              m = m\<lparr>rl_items := replace_relay_item item (rl_items m), rl_updated := now\<rparr>
                          in (case write_metadata msize k m d of
                                (d, Inl e) \<Rightarrow> (d, Inl e) | (d, Inr _) \<Rightarrow> (d, Inr (ri_received item))))))"

definition completion_ids :: "(json \<Rightarrow> string) \<Rightarrow> json list \<Rightarrow> string list" where
  "completion_ids repr fs = concat (map (\<lambda>v. case v of JObj ob \<Rightarrow> [to_str repr (jget_or ob ''id'' (JStr []))] | _ \<Rightarrow> []) fs)"

definition check_completion :: "(json \<Rightarrow> string) \<Rightarrow> string \<Rightarrow> relay \<Rightarrow> json \<Rightarrow> relay_error option" where
  "check_completion repr k m completion =
     (case completion of
        JObj a \<Rightarrow>
          if \<not> py_eq (jget a ''protocol'') (JStr ''NSP2P-RELAY-COMPLETE'') \<or> \<not> py_eq (jget a ''version'') (JInt 1)
          then Some Rl_Bad_Completion
          else if \<not> py_eq (jget a ''relay_id'') (JStr k) \<or> \<not> py_eq (jget a ''invite_id'') (JStr (rl_invitation m))
          then Some Rl_Completion_Mismatch
          else (case jget a ''files'' of
                  JList fs \<Rightarrow>
                    (let ids = completion_ids repr fs; expected = map ri_id (rl_items m)
                     in if length ids \<noteq> length expected \<or> set ids \<noteq> set expected then Some Rl_Completion_Mismatch else None)
                | _ \<Rightarrow> Some Rl_Bad_Completion)
      | _ \<Rightarrow> Some Rl_Bad_Completion)"

definition relay_commit ::
    "(json \<Rightarrow> string) \<Rightarrow> (relay \<Rightarrow> nat) \<Rightarrow> time \<Rightarrow> string \<Rightarrow> string \<Rightarrow> json \<Rightarrow> relays \<Rightarrow> relays \<times> (relay_error + relay_public)" where
  "relay_commit repr msize now k owner completion d =
     (case load_relay now k d of
        (d, Inl e) \<Rightarrow> (d, Inl e)
      | (d, Inr m) \<Rightarrow>
          if \<not> owner_ok m owner then (d, Inl Rl_Owner_Mismatch)
          else if rl_status m = Rl_Ready then (d, Inr (relay_view m))
          else if rl_status m \<noteq> Rl_Uploading then (d, Inl Rl_Not_Uploading)
          else if list_ex (\<lambda>i. ri_received i \<noteq> [0 .. ri_count i - 1]) (rl_items m) then (d, Inl Rl_Incomplete)
          else (case check_completion repr k m completion of Some e \<Rightarrow> (d, Inl e)
                | None \<Rightarrow>
                    (let m = m\<lparr>rl_completion := completion, rl_status := Rl_Ready, rl_updated := now\<rparr>
                     in (case write_metadata msize k m d of (d, Inl e) \<Rightarrow> (d, Inl e) | (d, Inr _) \<Rightarrow> (d, Inr (relay_view m))))))"

definition receiver_status ::
    "(string \<Rightarrow> string) \<Rightarrow> time \<Rightarrow> string \<Rightarrow> relays \<Rightarrow> relays \<times> (relay_error + relay_public)" where
  "receiver_status h now token d =
     (case find_by_token h now token (relay_cleanup now d) of
        (d, Inl e) \<Rightarrow> (d, Inl e) | (d, Inr (k, m, cs)) \<Rightarrow> (d, Inr (relay_view m)))"

definition relay_read_chunk ::
    "(string \<Rightarrow> string) \<Rightarrow> (string \<Rightarrow> string) \<Rightarrow> time \<Rightarrow> string \<Rightarrow> string \<Rightarrow> string \<Rightarrow> int \<Rightarrow> relays \<Rightarrow>
     relays \<times> (relay_error + string)" where
  "relay_read_chunk h hash now token relay_id item_id i d =
     (case find_by_token h now token d of
        (d, Inl e) \<Rightarrow> (d, Inl e)
      | (d, Inr (k, m, cs)) \<Rightarrow>
          if rl_id m \<noteq> relay_id then (d, Inl Rl_Not_Found)
          else if rl_status m \<noteq> Rl_Ready then (d, Inl Rl_Not_Ready)
          else (case find_relay_item item_id (rl_items m) of None \<Rightarrow> (d, Inl Rl_No_Item)
                | Some item \<Rightarrow>
                    if i < 0 \<or> ri_count item \<le> i then (d, Inl Rl_Chunk_Index)
                    else (case dget cs (item_id, i) of None \<Rightarrow> (d, Inl Rl_Chunk_Missing)
                          | Some data \<Rightarrow>
                              if int (length data) \<noteq> cipher_chunk_size (ri_clear item) i then (d, Inl Rl_Corrupt)
                              else (let expected = (case dget (ri_hashes item) (show_int i) of None \<Rightarrow> [] | Some x \<Rightarrow> x)
                                    in if expected \<noteq> [] \<and> hash data \<noteq> expected then (d, Inl Rl_Corrupt) else (d, Inr data)))))"

definition complete_download ::
    "(string \<Rightarrow> string) \<Rightarrow> (relay \<Rightarrow> nat) \<Rightarrow> time \<Rightarrow> string \<Rightarrow> relays \<Rightarrow> relays \<times> (relay_error + unit)" where
  "complete_download h msize now token d =
     (case find_by_token h now token d of
        (d, Inl e) \<Rightarrow> (d, Inl e)
      | (d, Inr (k, m, cs)) \<Rightarrow>
          (case write_metadata msize k (m\<lparr>rl_status := Rl_Downloaded, rl_updated := now\<rparr>) d of
             (d, Inl e) \<Rightarrow> (d, Inl e) | (d, Inr _) \<Rightarrow> (dpop k d, Inr ())))"

definition discard_relay :: "string \<Rightarrow> relays \<Rightarrow> relays" where
  "discard_relay k d = (if hex_of_length k 32 then dpop k d else d)"

definition revoke_relay :: "time \<Rightarrow> string \<Rightarrow> string \<Rightarrow> relays \<Rightarrow> relays \<times> (relay_error + bool)" where
  "revoke_relay now k owner d =
     (case load_relay now k d of
        (d, Inl e) \<Rightarrow> if e = Rl_Not_Found then (d, Inr False) else (d, Inl e)
      | (d, Inr m) \<Rightarrow> if \<not> owner_ok m owner then (d, Inl Rl_Owner_Mismatch) else (dpop k d, Inr True))"

definition replica_prune :: "string list \<Rightarrow> relays \<Rightarrow> relays" where
  "replica_prune active d =
     filter (\<lambda>(k, fo). \<not> (hex_of_length k 32 \<and> k \<notin> set (filter (\<lambda>a. hex_of_length a 32) active))) d"

interpretation relay_ledger: chunk_ledger "\<lambda>n. 0 \<le> n" "chunks_for clear_chunk" cipher_chunk_size
    "\<lambda>n. n + chunks_for clear_chunk n * gcm_overhead"
proof
  fix n :: int
  assume n: "0 \<le> n"
  let ?m = "chunks_for clear_chunk n"
  show m: "1 \<le> ?m" by (simp add: chunks_for_def)
  have bounds: "(?m - 1) * clear_chunk \<le> n" "n \<le> ?m * clear_chunk"
    using chunks_for_bounds [of clear_chunk n, OF _ n] by (simp_all add: clear_chunk_def)
  have "cipher_chunk_size n k = (if k = ?m - 1 then n - (?m - 1) * clear_chunk + gcm_overhead else clear_chunk + gcm_overhead)"
    if "k \<in> set [0 .. ?m - 1]" for k
  proof (cases "k = ?m - 1")
    case True
    have "n - (?m - 1) * clear_chunk \<le> clear_chunk" using bounds(2) by (simp add: algebra_simps)
    with True bounds(1) show ?thesis by (simp add: cipher_chunk_size_def)
  next
    case False
    with that have "k + 1 \<le> ?m - 1" by simp
    then have "(k + 1) * clear_chunk \<le> (?m - 1) * clear_chunk" by (intro mult_right_mono) (simp_all add: clear_chunk_def)
    with bounds(1) have "clear_chunk \<le> n - k * clear_chunk" by (simp add: algebra_simps)
    then have "min clear_chunk (n - k * clear_chunk) = clear_chunk" by simp
    with False show ?thesis by (simp add: cipher_chunk_size_def clear_chunk_def)
  qed
  then have eq: "map (cipher_chunk_size n) [0 .. ?m - 1] =
      map (\<lambda>k. if k = ?m - 1 then n - (?m - 1) * clear_chunk + gcm_overhead else clear_chunk + gcm_overhead) [0 .. ?m - 1]"
    by (intro map_cong) auto
  show "(\<Sum>k \<leftarrow> [0 .. ?m - 1]. cipher_chunk_size n k) = n + ?m * gcm_overhead"
    unfolding eq sum_list_last [OF m] by (simp add: algebra_simps)
qed

section \<open>Runs\<close>

datatype rl_op =
    Rl_Accept string string time jobj json "string option"
  | Rl_Retry time string json string
  | Rl_Sender time string
  | Rl_Configure time string string json json int
  | Rl_Put nat time string string int string string
  | Rl_Commit time string string json
  | Rl_Receiver time string
  | Rl_Read time string string string int
  | Rl_Complete time string
  | Rl_Discard string
  | Rl_Revoke time string string
  | Rl_Prune "string list"
  | Rl_Cleanup time

fun rl_apply ::
    "(json \<Rightarrow> string) \<Rightarrow> (string \<Rightarrow> string) \<Rightarrow> (string \<Rightarrow> string) \<Rightarrow> (relay \<Rightarrow> nat) \<Rightarrow> rl_op \<Rightarrow> relays \<Rightarrow> relays" where
  "rl_apply repr h hash msize (Rl_Accept fresh k now ivn acc tok) d = fst (accept_relay repr h msize fresh k now ivn acc tok d)"
| "rl_apply repr h hash msize (Rl_Retry now ivn acc tok) d = fst (retry_accept h now ivn acc tok d)"
| "rl_apply repr h hash msize (Rl_Sender now ivn) d = fst (relay_sender_status now ivn d)"
| "rl_apply repr h hash msize (Rl_Configure now ivn owner desc items ttl) d = fst (configure_relay repr msize now ivn owner desc items ttl d)"
| "rl_apply repr h hash msize (Rl_Put free now k item i data owner) d = fst (relay_put_chunk msize hash free now k item i data owner d)"
| "rl_apply repr h hash msize (Rl_Commit now k owner cpl) d = fst (relay_commit repr msize now k owner cpl d)"
| "rl_apply repr h hash msize (Rl_Receiver now tok) d = fst (receiver_status h now tok d)"
| "rl_apply repr h hash msize (Rl_Read now tok k item i) d = fst (relay_read_chunk h hash now tok k item i d)"
| "rl_apply repr h hash msize (Rl_Complete now tok) d = fst (complete_download h msize now tok d)"
| "rl_apply repr h hash msize (Rl_Discard k) d = discard_relay k d"
| "rl_apply repr h hash msize (Rl_Revoke now k owner) d = fst (revoke_relay now k owner d)"
| "rl_apply repr h hash msize (Rl_Prune ks) d = replica_prune ks d"
| "rl_apply repr h hash msize (Rl_Cleanup now) d = relay_cleanup now d"

text \<open>The announced size of an invited file ties the items of two configurations together.\<close>

definition invited_size :: "(json \<Rightarrow> string) \<Rightarrow> json list \<Rightarrow> string \<Rightarrow> int option" where
  "invited_size repr files i = (case dget (invited_files repr files []) i of None \<Rightarrow> None
     | Some ob \<Rightarrow> (case to_int (jget_or ob ''size'' (JInt (- 1))) of Inl e \<Rightarrow> None | Inr n \<Rightarrow> Some n))"

definition ri_ok :: "(json \<Rightarrow> string) \<Rightarrow> (string \<Rightarrow> string) \<Rightarrow> json list \<Rightarrow> chunks \<Rightarrow> relay_item \<Rightarrow> bool" where
  "ri_ok repr hash files cs i \<longleftrightarrow> ri_count i = chunks_for clear_chunk (ri_clear i) \<and>
     ri_cipher i = ri_clear i + chunks_for clear_chunk (ri_clear i) * gcm_overhead \<and>
     invited_size repr files (ri_id i) = Some (ri_clear i) \<and>
     relay_ledger.ledger_ok (ri_clear i) (ri_id i) (ri_received i) cs \<and>
     (\<forall>j \<in> set (ri_received i). \<forall>b. dget cs (ri_id i, j) = Some b \<longrightarrow> dget (ri_hashes i) (show_int j) = Some (hash b))"

definition relay_meta_ok :: "(json \<Rightarrow> string) \<Rightarrow> (string \<Rightarrow> string) \<Rightarrow> chunks \<Rightarrow> relay \<Rightarrow> bool" where
  "relay_meta_ok repr hash cs m \<longleftrightarrow> distinct (map ri_id (rl_items m)) \<and>
     list_all (ri_ok repr hash (rl_files m) cs) (rl_items m) \<and>
     (rl_status m = Rl_Ready \<longrightarrow> list_all (\<lambda>i. ri_received i = [0 .. ri_count i - 1]) (rl_items m))"

definition folder_ok :: "(json \<Rightarrow> string) \<Rightarrow> (string \<Rightarrow> string) \<Rightarrow> relay_folder \<Rightarrow> bool" where
  "folder_ok repr hash fo \<longleftrightarrow> (case fo_meta fo of None \<Rightarrow> False | Some m \<Rightarrow> relay_meta_ok repr hash (fo_chunks fo) m)"

definition folder_invitation :: "relay_folder \<Rightarrow> string" where
  "folder_invitation fo = (case fo_meta fo of None \<Rightarrow> [] | Some m \<Rightarrow> rl_invitation m)"

definition relays_ok :: "(json \<Rightarrow> string) \<Rightarrow> (string \<Rightarrow> string) \<Rightarrow> relays \<Rightarrow> bool" where
  "relays_ok repr hash d \<longleftrightarrow> dict_ok d \<and> all_vals (folder_ok repr hash) d \<and> distinct_vals folder_invitation d \<and>
     length d \<le> relay_max_sessions \<and>
     (\<forall>k fo m. dget d k = Some fo \<and> fo_meta fo = Some m \<longrightarrow> rl_id m = k)"

definition small :: "(relay \<Rightarrow> nat) \<Rightarrow> bool" where
  "small msize \<longleftrightarrow> (\<forall>m. msize m \<le> max_metadata)"

lemma relays_ok_filter:
  assumes "relays_ok repr hash d"
  shows "relays_ok repr hash (filter P d)"
proof -
  have "dget (filter P d) k = Some fo \<Longrightarrow> dget d k = Some fo" for k fo
    using assms unfolding relays_ok_def dict_ok_def
    by (metis (no_types, lifting) distinct_map_filter filter_is_subset map_of_SomeD map_of_is_SomeI subsetD)
  moreover have "length (filter P d) \<le> relay_max_sessions"
    using assms length_filter_le [of P d] unfolding relays_ok_def by linarith
  ultimately show ?thesis
    using assms by (auto simp: relays_ok_def dict_ok_def distinct_map_filter distinct_vals_filter all_vals_def)
qed

lemma dpop_filter: "dpop k d = filter (\<lambda>kv. fst kv \<noteq> k) d"
  by (induction d) auto

lemma relays_ok_cleanup: "relays_ok repr hash d \<Longrightarrow> relays_ok repr hash (relay_cleanup now d)"
  unfolding relay_cleanup_def dkeep_def by (rule relays_ok_filter)

lemma relays_ok_pop: "relays_ok repr hash d \<Longrightarrow> relays_ok repr hash (dpop k d)"
  unfolding dpop_filter by (rule relays_ok_filter)

lemma relays_ok_prune: "relays_ok repr hash d \<Longrightarrow> relays_ok repr hash (replica_prune ks d)"
  unfolding replica_prune_def by (rule relays_ok_filter)

text \<open>Replacing the metadata (and chunk files) of a relay that is there.\<close>

lemma relays_ok_put:
  assumes "relays_ok repr hash d" and "dget d k = Some fo" and "fo_meta fo = Some m"
    and "fo_meta fo' = Some m'" and "relay_meta_ok repr hash (fo_chunks fo') m'"
    and "rl_id m' = rl_id m" and "rl_invitation m' = rl_invitation m"
  shows "relays_ok repr hash (dput k fo' d)"
proof -
  have "distinct_vals folder_invitation (dput k fo' d)"
    using assms by (intro distinct_vals_put_same [of _ d k fo]) (auto simp: relays_ok_def folder_invitation_def)
  with assms show ?thesis
    by (auto simp: relays_ok_def folder_ok_def dget_put length_put dest: dget_key split: if_splits intro!: all_vals_put)
qed

lemma write_metadata_small:
  assumes "small msize" and "dget d k = Some fo"
  shows "write_metadata msize k m d = (dput k (fo\<lparr>fo_meta := Some m\<rparr>) d, Inr ())"
proof -
  have "\<not> max_metadata < msize m" using assms(1) by (simp add: small_def not_less)
  with assms(2) show ?thesis by (simp add: write_metadata_def)
qed

lemma relays_ok_get:
  "relays_ok repr hash d \<Longrightarrow> dget d k = Some fo \<Longrightarrow> \<exists>m. fo_meta fo = Some m \<and> rl_id m = k \<and> relay_meta_ok repr hash (fo_chunks fo) m"
  by (auto simp: relays_ok_def folder_ok_def dest!: all_vals_get split: option.splits)

lemma find_in_dict: "dict_ok d \<Longrightarrow> find P d = Some (k, v) \<Longrightarrow> dget d k = Some v \<and> P (k, v)"
  using find_Some_in [of P d "(k, v)"] by (simp add: dget_set)

lemma find_by_invitation_Some:
  "dict_ok d \<Longrightarrow> find_by_invitation now ivn d = Some (k, m) \<Longrightarrow>
    \<exists>fo. dget d k = Some fo \<and> fo_meta fo = Some m \<and> rl_invitation m = ivn \<and> now < rl_expires m"
  by (fastforce simp: find_by_invitation_def dest: find_in_dict split: option.splits)

lemma find_by_invitation_None:
  "dict_ok d \<Longrightarrow> find_by_invitation now ivn d = None \<Longrightarrow> dget d k = Some fo \<Longrightarrow> fo_meta fo = Some m \<Longrightarrow>
    now < rl_expires m \<Longrightarrow> rl_invitation m \<noteq> ivn"
  by (fastforce simp: find_by_invitation_def find_None dget_set dest: find_in_dict split: option.splits)

lemma find_by_token_ok:
  assumes "relays_ok repr hash d" and "find_by_token h now token d = (d', r)"
  shows "relays_ok repr hash d' \<and> (\<forall>k m cs. r = Inr (k, m, cs) \<longrightarrow> d' = d \<and>
    (\<exists>fo. dget d k = Some fo \<and> fo_meta fo = Some m \<and> fo_chunks fo = cs) \<and> rl_token_hash m = h token)"
proof -
  have ok: "dict_ok d" using assms(1) by (simp add: relays_ok_def)
  show ?thesis
  proof (cases "find (\<lambda>(k, fo). case fo_meta fo of None \<Rightarrow> False | Some m \<Rightarrow> rl_token_hash m = h token) d")
    case None
    with assms show ?thesis by (auto simp: find_by_token_def split: if_splits)
  next
    case (Some kfo)
    obtain k fo where kfo: "kfo = (k, fo)" by (cases kfo)
    from find_in_dict [OF ok Some [unfolded kfo]] obtain m where "dget d k = Some fo" "fo_meta fo = Some m" "rl_token_hash m = h token"
      by (auto split: option.splits)
    with assms Some kfo show ?thesis by (auto simp: find_by_token_def relays_ok_pop split: if_splits)
  qed
qed

lemma load_relay_ok:
  assumes "relays_ok repr hash d" and "load_relay now k d = (d', r)"
  shows "relays_ok repr hash d' \<and> (\<forall>m. r = Inr m \<longrightarrow> d' = d \<and> (\<exists>fo. dget d k = Some fo \<and> fo_meta fo = Some m))"
  using assms by (auto simp: load_relay_def relays_ok_pop split: if_splits option.splits bind_splits)

lemma validate_relay_item_Inr:
  assumes "validate_relay_item repr (invited_files repr files []) seen tot raw = Inr i"
  shows "ri_id i \<notin> set seen \<and> ri_received i = [] \<and> ri_hashes i = [] \<and> ri_ok repr hash files cs i"
proof -
  from assms have i: "ri_id i \<notin> set seen" "ri_received i = []" "ri_hashes i = []" "0 \<le> ri_clear i"
    "ri_count i = chunks_for clear_chunk (ri_clear i)"
    "ri_cipher i = ri_clear i + chunks_for clear_chunk (ri_clear i) * gcm_overhead"
    "invited_size repr files (ri_id i) = Some (ri_clear i)"
    by (auto simp: validate_relay_item_def Let_def invited_size_def split: json.splits sum.splits if_splits option.splits)
  then show ?thesis by (simp add: ri_ok_def relay_ledger.ledger_empty)
qed

lemma validate_relay_items_Inr:
  "validate_relay_items repr (invited_files repr files []) seen tot raws = Inr items \<Longrightarrow>
    distinct (map ri_id items) \<and> set (map ri_id items) \<inter> set seen = {} \<and>
    list_all (\<lambda>i. ri_received i = [] \<and> ri_hashes i = [] \<and> ri_ok repr hash files cs i) items"
proof (induction raws arbitrary: seen tot items)
  case Nil
  then show ?case by (auto split: if_splits)
next
  case (Cons raw raws)
  from Cons.prems obtain i ii where i: "validate_relay_item repr (invited_files repr files []) seen tot raw = Inr i"
    "validate_relay_items repr (invited_files repr files []) (ri_id i # seen) (tot + ri_clear i) raws = Inr ii" "items = i # ii"
    by (auto split: sum.splits)
  from Cons.IH [OF i(2)] validate_relay_item_Inr [OF i(1), of hash cs] show ?case by (auto simp: i(3))
qed

lemma validate_relay_Inr:
  "validate_relay repr items files = Inr normalized \<Longrightarrow>
    distinct (map ri_id normalized) \<and>
    list_all (\<lambda>i. ri_received i = [] \<and> ri_hashes i = [] \<and> ri_ok repr hash files cs i) normalized"
  using validate_relay_items_Inr [of repr files "[]" 0 _ normalized hash cs]
  by (auto simp: validate_relay_def split: json.splits if_splits)

text \<open>Resuming an upload takes the ledger of the earlier item of the same id over; the invitation fixes its size.\<close>

lemma resume_item_ok:
  assumes "list_all (ri_ok repr hash files cs) prior" and "ri_ok repr hash files cs i"
  shows "ri_ok repr hash files cs (resume_item prior i) \<and> ri_id (resume_item prior i) = ri_id i"
proof (cases "find_relay_item (ri_id i) (rev prior)")
  case None
  with assms(2) show ?thesis by (simp add: resume_item_def)
next
  case (Some old)
  from find_Some_in [OF Some [unfolded find_relay_item_def]] have old: "old \<in> set prior" "ri_id old = ri_id i" by auto
  with assms(1) have "ri_ok repr hash files cs old" by (auto simp: list_all_iff)
  with assms(2) old(2) Some show ?thesis by (auto simp: ri_ok_def resume_item_def)
qed

lemma relays_ok_configure:
  assumes ok: "relays_ok repr hash d" and small: "small msize"
  shows "relays_ok repr hash (fst (configure_relay repr msize now ivn owner desc items ttl d))"
proof -
  let ?c = "relay_cleanup now d"
  have c: "relays_ok repr hash ?c" by (rule relays_ok_cleanup [OF ok])
  then have dc: "dict_ok ?c" by (simp add: relays_ok_def)
  show ?thesis
  proof (cases "find_by_invitation now ivn ?c")
    case None
    with ok c show ?thesis by (simp add: configure_relay_def Let_def)
  next
    case (Some km)
    obtain k m where km: "km = (k, m)" by (cases km)
    from find_by_invitation_Some [OF dc Some [unfolded km]] obtain fo where
      fo: "dget ?c k = Some fo" "fo_meta fo = Some m" by blast
    from relays_ok_get [OF c fo(1)] fo(2) have m: "rl_id m = k" "relay_meta_ok repr hash (fo_chunks fo) m" by auto
    have "relays_ok repr hash (dput k (fo\<lparr>fo_meta := Some (m\<lparr>rl_owner := Some owner, rl_descriptor := desc,
        rl_items := (if rl_status m = Rl_Uploading then map (resume_item (rl_items m)) normalized else normalized),
        rl_status := Rl_Uploading, rl_updated := now, rl_expires := now + of_int ttl\<rparr>)\<rparr>) ?c)"
      if v: "validate_relay repr items (rl_files m) = Inr normalized" for normalized
    proof (rule relays_ok_put [OF c fo])
      note n = validate_relay_Inr [OF v, of hash "fo_chunks fo"]
      have "list_all (ri_ok repr hash (rl_files m) (fo_chunks fo)) (rl_items m)" using m(2) by (simp add: relay_meta_ok_def)
      note r = resume_item_ok [OF this]
      have "map ri_id (map (resume_item (rl_items m)) normalized) = map ri_id normalized"
        using n r by (auto simp: list_all_iff)
      with n have "distinct (map (ri_id \<circ> resume_item (rl_items m)) normalized)" by (metis map_map)
      with n r show "relay_meta_ok repr hash (fo_chunks (fo\<lparr>fo_meta := Some (m\<lparr>rl_owner := Some owner, rl_descriptor := desc,
        rl_items := (if rl_status m = Rl_Uploading then map (resume_item (rl_items m)) normalized else normalized),
        rl_status := Rl_Uploading, rl_updated := now, rl_expires := now + of_int ttl\<rparr>)\<rparr>))
        (m\<lparr>rl_owner := Some owner, rl_descriptor := desc,
        rl_items := (if rl_status m = Rl_Uploading then map (resume_item (rl_items m)) normalized else normalized),
        rl_status := Rl_Uploading, rl_updated := now, rl_expires := now + of_int ttl\<rparr>)"
        unfolding relay_meta_ok_def by (auto simp: list_all_iff)
    qed simp_all
    with ok c Some km show ?thesis
      by (auto simp: configure_relay_def Let_def write_metadata_small [OF small fo(1)] split: option.split sum.split)
  qed
qed

lemma replace_relay_item_ids:
  "find_relay_item i items = Some x \<Longrightarrow> ri_id y = ri_id x \<Longrightarrow> map ri_id (replace_relay_item y items) = map ri_id items"
  by (induction items) (auto simp: find_relay_item_def split: if_splits)

lemma replace_relay_item_all:
  assumes "distinct (map ri_id items)" and "\<forall>x \<in> set items. ri_id x \<noteq> ri_id y \<longrightarrow> P x" and "P y"
  shows "list_all P (replace_relay_item y items)"
  using assms
proof (induction items)
  case (Cons x xs)
  show ?case
  proof (cases "ri_id x = ri_id y")
    case True
    with Cons.prems(1) have "\<forall>z \<in> set xs. ri_id z \<noteq> ri_id y" by (auto simp: image_iff)
    with Cons.prems True show ?thesis by (auto simp: list_all_iff)
  next
    case False
    with Cons show ?thesis by auto
  qed
qed simp

lemma show_int_inj: "show_int i = show_int j \<Longrightarrow> i = j"
  using read_show_int by (metis option.inject)

lemma ri_ok_put:
  assumes "ri_ok repr hash files cs item" and "0 \<le> i" and "i < ri_count item" and "int (length b) = cipher_chunk_size (ri_clear item) i"
  shows "ri_ok repr hash files (dput (ri_id item, i) b cs)
    (item\<lparr>ri_received := add_received i (ri_received item), ri_hashes := dput (show_int i) (hash b) (ri_hashes item)\<rparr>)"
  using assms relay_ledger.ledger_put [of "ri_clear item" "ri_id item" "ri_received item" cs i b]
  by (auto simp: ri_ok_def sorted_add_received dget_put dest: show_int_inj)

lemma ri_ok_put_other:
  "ri_ok repr hash files cs x \<Longrightarrow> ri_id x \<noteq> item \<Longrightarrow> ri_ok repr hash files (dput (item, i) b cs) x"
  by (auto simp: ri_ok_def dget_put intro: relay_ledger.ledger_put_other)

lemma relays_ok_put_chunk:
  assumes ok: "relays_ok repr hash d" and small: "small msize"
  shows "relays_ok repr hash (fst (relay_put_chunk msize hash free now k item_id i data owner d))"
proof -
  obtain d1 r where l: "load_relay now k d = (d1, r)" by fastforce
  note lo = load_relay_ok [OF ok l]
  show ?thesis
  proof (cases r)
    case (Inl e)
    with l lo show ?thesis by (simp add: relay_put_chunk_def)
  next
    case (Inr m)
    with lo obtain fo where d1: "d1 = d" "dget d k = Some fo" "fo_meta fo = Some m" by blast
    from relays_ok_get [OF ok d1(2)] d1(3) have m: "relay_meta_ok repr hash (fo_chunks fo) m" by auto
    let ?fo = "fo\<lparr>fo_chunks := dput (item_id, i) data (fo_chunks fo)\<rparr>"
    let ?m = "\<lambda>item. m\<lparr>rl_items := replace_relay_item (item\<lparr>ri_received := add_received i (ri_received item),
        ri_hashes := dput (show_int i) (hash data) (ri_hashes item)\<rparr>) (rl_items m), rl_updated := now\<rparr>"
    have "relays_ok repr hash (dput k (?fo\<lparr>fo_meta := Some (?m item)\<rparr>) d)"
      if up: "rl_status m = Rl_Uploading" and f: "find_relay_item item_id (rl_items m) = Some item"
        and i: "0 \<le> i" "i < ri_count item" "int (length data) = cipher_chunk_size (ri_clear item) i" for item
    proof (rule relays_ok_put [OF ok d1(2,3)])
      from find_Some_in [OF f [unfolded find_relay_item_def]] have item: "item \<in> set (rl_items m)" "ri_id item = item_id" by auto
      then have "ri_ok repr hash (rl_files m) (fo_chunks fo) item" using m by (auto simp: relay_meta_ok_def list_all_iff)
      from ri_ok_put [OF this i] item(2)
      have new: "ri_ok repr hash (rl_files m) (dput (item_id, i) data (fo_chunks fo))
        (item\<lparr>ri_received := add_received i (ri_received item), ri_hashes := dput (show_int i) (hash data) (ri_hashes item)\<rparr>)" by simp
      have "map ri_id (rl_items (?m item)) = map ri_id (rl_items m)"
        using replace_relay_item_ids [OF f] by simp
      moreover have "list_all (ri_ok repr hash (rl_files m) (dput (item_id, i) data (fo_chunks fo))) (rl_items (?m item))"
        using m item new by (auto simp: relay_meta_ok_def list_all_iff [of _ "rl_items m"] intro!: replace_relay_item_all ri_ok_put_other)
      ultimately show "relay_meta_ok repr hash (fo_chunks (?fo\<lparr>fo_meta := Some (?m item)\<rparr>)) (?m item)"
        using m up by (simp add: relay_meta_ok_def)
    qed simp_all
    moreover have "dget (put_chunk_file k item_id i data d) k = Some ?fo" by (simp add: put_chunk_file_def d1(2) dget_put)
    moreover have "dput k x (put_chunk_file k item_id i data d) = dput k x d" for x
      by (simp add: put_chunk_file_def d1(2))
    ultimately show ?thesis
      using l Inr d1(1) ok by (auto simp: relay_put_chunk_def Let_def write_metadata_small [OF small] split: option.split)
  qed
qed

lemma relays_ok_commit:
  assumes ok: "relays_ok repr hash d" and small: "small msize"
  shows "relays_ok repr hash (fst (relay_commit repr msize now k owner completion d))"
proof -
  obtain d1 r where l: "load_relay now k d = (d1, r)" by fastforce
  note lo = load_relay_ok [OF ok l]
  show ?thesis
  proof (cases r)
    case (Inl e)
    with l lo show ?thesis by (simp add: relay_commit_def)
  next
    case (Inr m)
    with lo obtain fo where d1: "d1 = d" "dget d k = Some fo" "fo_meta fo = Some m" by blast
    from relays_ok_get [OF ok d1(2)] d1(3) have m: "relay_meta_ok repr hash (fo_chunks fo) m" by auto
    let ?m = "m\<lparr>rl_completion := completion, rl_status := Rl_Ready, rl_updated := now\<rparr>"
    have "relays_ok repr hash (dput k (fo\<lparr>fo_meta := Some ?m\<rparr>) d)"
      if "\<not> list_ex (\<lambda>i. ri_received i \<noteq> [0 .. ri_count i - 1]) (rl_items m)"
      by (rule relays_ok_put [OF ok d1(2,3), where m' = ?m]) (use m that in \<open>auto simp: relay_meta_ok_def list_all_iff list_ex_iff\<close>)
    with l Inr d1 ok show ?thesis
      by (auto simp: relay_commit_def Let_def write_metadata_small [OF small d1(2)] split: option.split)
  qed
qed

lemma relays_ok_complete:
  assumes ok: "relays_ok repr hash d" and small: "small msize"
  shows "relays_ok repr hash (fst (complete_download h msize now token d))"
proof -
  obtain d1 r where f: "find_by_token h now token d = (d1, r)" by fastforce
  note fo = find_by_token_ok [OF ok f]
  show ?thesis
  proof (cases r)
    case (Inl e)
    with f fo show ?thesis by (simp add: complete_download_def)
  next
    case (Inr kmc)
    obtain k m cs where "kmc = (k, m, cs)" by (cases kmc)
    moreover from this fo Inr obtain fo where "d1 = d" "dget d k = Some fo" by blast
    moreover have "dpop k (dput k x d) = dpop k d" for x by (induction d) auto
    ultimately show ?thesis
      using f Inr relays_ok_pop [OF ok] by (simp add: complete_download_def write_metadata_small [OF small])
  qed
qed

lemma relays_ok_accept:
  assumes ok: "relays_ok repr hash d" and small: "small msize"
  shows "relays_ok repr hash (fst (accept_relay repr h msize fresh k now ivn acc tok d))"
proof -
  let ?c = "relay_cleanup now d"
  have c: "relays_ok repr hash ?c" by (rule relays_ok_cleanup [OF ok])
  have new: "relays_ok repr hash (dput k \<lparr>fo_meta = Some m, fo_chunks = []\<rparr> ?c)"
    if free: "dget ?c k = None" "active_relays ?c < relay_max_sessions"
      and none: "find_by_invitation now (rl_invitation m) ?c = None"
      and m: "rl_id m = k" "rl_items m = []" for m
  proof -
    have dc: "dict_ok ?c" using c by (simp add: relays_ok_def)
    have live: "folder_invitation fo \<noteq> rl_invitation m" if "dget ?c k' = Some fo" for k' fo
    proof -
      from relays_ok_get [OF c that] obtain m' where m': "fo_meta fo = Some m'" by blast
      have "\<not> relay_expired now fo" using that ok
        by (auto simp: relay_cleanup_def relays_ok_def dget_keep split: option.splits if_splits)
      with m' have "now < rl_expires m'" by (simp add: relay_expired_def)
      from find_by_invitation_None [OF dc none that m' this] m' show ?thesis by (simp add: folder_invitation_def)
    qed
    then have "all_vals (\<lambda>fo. folder_invitation fo \<noteq> rl_invitation m) ?c" using dc by (auto simp: all_vals_def dget_set)
    then have "distinct_vals folder_invitation (dput k \<lparr>fo_meta = Some m, fo_chunks = []\<rparr> ?c)"
      using c by (intro distinct_vals_put_fresh) (auto simp: relays_ok_def folder_invitation_def)
    moreover have "active_relays ?c = length ?c"
    proof -
      have "\<forall>fo \<in> set (dvals ?c). fo_meta fo \<noteq> None"
        using c unfolding relays_ok_def all_vals_def folder_ok_def by (metis option.simps(4))
      then show ?thesis unfolding active_relays_def by (simp add: filter_True)
    qed
    ultimately show ?thesis
      using c free m by (auto simp: relays_ok_def length_put dget_put folder_ok_def relay_meta_ok_def split: if_splits)
  qed
  have w: "write_metadata msize k m ?c = (dput k \<lparr>fo_meta = Some m, fo_chunks = []\<rparr> ?c, Inr ())" if "dget ?c k = None" for m
  proof -
    have "\<not> max_metadata < msize m" using small by (simp add: small_def not_less)
    with that show ?thesis by (simp add: write_metadata_def)
  qed
  show ?thesis
    using ok c new w by (auto simp: accept_relay_def Let_def not_le split: option.split)
qed

lemma relays_ok_apply:
  assumes ok: "relays_ok repr hash d" and small: "small msize"
  shows "relays_ok repr hash (rl_apply repr h hash msize op d)"
proof -
  note c = relays_ok_cleanup [OF ok]
  have tok: "relays_ok repr hash d1" if "find_by_token h now t d0 = (d1, r)" "relays_ok repr hash d0" for now t d0 d1 r
    using find_by_token_ok [OF that(2,1)] by simp
  show ?thesis
  proof (cases op)
    case (Rl_Accept fresh k now ivn acc t)
    with relays_ok_accept [OF ok small] show ?thesis by simp
  next
    case (Rl_Configure now ivn owner desc items ttl)
    with relays_ok_configure [OF ok small] show ?thesis by simp
  next
    case (Rl_Put free now k item i data owner)
    with relays_ok_put_chunk [OF ok small] show ?thesis by simp
  next
    case (Rl_Commit now k owner cpl)
    with relays_ok_commit [OF ok small] show ?thesis by simp
  next
    case (Rl_Receiver now t)
    with tok [OF _ c] show ?thesis by (auto simp: receiver_status_def split: prod.split sum.split)
  next
    case (Rl_Read now t k item i)
    obtain d1 r where f: "find_by_token h now t d = (d1, r)" by fastforce
    with tok [OF f ok] show ?thesis
      by (auto simp: Rl_Read relay_read_chunk_def Let_def split: sum.split option.split)
  next
    case (Rl_Complete now t)
    with relays_ok_complete [OF ok small] show ?thesis by simp
  next
    case (Rl_Revoke now k owner)
    obtain d1 r where l: "load_relay now k d = (d1, r)" by fastforce
    with load_relay_ok [OF ok l] show ?thesis
      by (auto simp: Rl_Revoke revoke_relay_def relays_ok_pop split: sum.split)
  qed (use ok c in \<open>auto simp: retry_accept_def relay_sender_status_def discard_relay_def relays_ok_pop relays_ok_prune
      Let_def split: option.split\<close>)
qed

lemma relays_ok_run:
  "relays_ok repr hash d \<Longrightarrow> small msize \<Longrightarrow> relays_ok repr hash (fold (rl_apply repr h hash msize) ops d)"
  by (induction ops arbitrary: d) (auto simp: relays_ok_apply)

lemma relays_ok_Nil [simp]: "relays_ok repr hash []"
  by (simp add: relays_ok_def)

section \<open>A concrete run\<close>

definition demo_binding :: string where "demo_binding = replicate 64 (CHR ''b'')"
definition demo_capability :: string where "demo_capability = replicate 40 (CHR ''c'')"
definition demo_cipher :: string where "demo_cipher = replicate 30 (CHR ''z'')"

definition demo_file :: json where
  "demo_file = JObj [(''id'', JStr ''f1''), (''filename'', JStr ''f''), (''size'', JInt 2)]"

definition demo_relay_invitation :: jobj where
  "demo_relay_invitation = [(''invite_id'', JStr demo_sid), (''session_binding'', JStr demo_binding), (''files'', JList [demo_file])]"

definition demo_acceptance :: json where
  "demo_acceptance = JObj [(''protocol'', JStr ''NSP2P-RELAY-ACCEPT''), (''version'', JInt 1),
     (''invite_id'', JStr demo_sid), (''invitation_binding'', JStr demo_binding)]"

definition demo_item :: relay_item where
  "demo_item = \<lparr>ri_id = ''f1'', ri_filename = ''f'', ri_clear = 2, ri_count = 1, ri_cipher = 30, ri_received = [], ri_hashes = []\<rparr>"

definition demo_items :: json where "demo_items = JList [item_json demo_item]"

definition demo_descriptor :: json where
  "demo_descriptor = JObj [(''protocol'', JStr ''NSP2P-RELAY''), (''version'', JInt 1), (''invite_id'', JStr demo_sid),
     (''invitation_binding'', JStr demo_binding), (''relay_id'', JStr demo_sid), (''files'', demo_items)]"

definition demo_completion :: json where
  "demo_completion = JObj [(''protocol'', JStr ''NSP2P-RELAY-COMPLETE''), (''version'', JInt 1), (''relay_id'', JStr demo_sid),
     (''invite_id'', JStr demo_sid), (''files'', JList [JObj [(''id'', JStr ''f1'')]])]"

definition demo_accepted :: relay where
  "demo_accepted = \<lparr>rl_id = demo_sid, rl_invitation = demo_sid, rl_binding = demo_binding, rl_files = [demo_file],
     rl_acceptance = demo_acceptance, rl_token_hash = demo_capability, rl_owner = None, rl_created = 1, rl_updated = 1,
     rl_expires = 1 + relay_default_ttl, rl_status = Rl_Accepted, rl_descriptor = JNull, rl_completion = JNull, rl_items = []\<rparr>"

definition demo_uploading :: relay where
  "demo_uploading = demo_accepted\<lparr>rl_owner := Some ''o'', rl_descriptor := demo_descriptor, rl_items := [demo_item],
     rl_status := Rl_Uploading, rl_updated := 2, rl_expires := 2 + 600\<rparr>"

definition demo_complete_item :: relay_item where
  "demo_complete_item = demo_item\<lparr>ri_received := [0], ri_hashes := [(''0'', demo_cipher)]\<rparr>"

definition demo_uploaded :: relay where
  "demo_uploaded = demo_uploading\<lparr>rl_items := [demo_complete_item], rl_updated := 3\<rparr>"

definition demo_ready :: relay where
  "demo_ready = demo_uploaded\<lparr>rl_completion := demo_completion, rl_status := Rl_Ready, rl_updated := 4\<rparr>"

definition demo_ops :: "rl_op list" where
  "demo_ops = [Rl_Accept demo_capability demo_sid 1 demo_relay_invitation demo_acceptance None,
     Rl_Configure 2 demo_sid ''o'' demo_descriptor demo_items 600,
     Rl_Put (2 * min_free) 3 demo_sid ''f1'' 0 demo_cipher ''o'', Rl_Commit 4 demo_sid ''o'' demo_completion]"

lemma demo_hex: "hex_of_length demo_sid 32" "hex_of_length demo_binding 64" "capability_ok demo_capability"
  "length demo_cipher = 30" "demo_capability \<noteq> []" "demo_cipher \<noteq> []"
  by (simp_all add: hex_of_length_def demo_sid_ok demo_binding_def capability_ok_def demo_capability_def demo_cipher_def)
    (simp add: is_lower_hex_def list_all_iff)

lemma demo_strip: "str_strip demo_sid = demo_sid" "str_strip demo_binding = demo_binding"
  by (rule strip_no_space; simp add: demo_sid_def demo_binding_def list_all_iff is_space_def char_eval)+

lemma demo_chunk: "chunks_for clear_chunk 2 = 1" "cipher_chunk_size 2 0 = 30"
  by (simp_all add: chunks_for_def clear_chunk_def cipher_chunk_size_def gcm_overhead_def)

lemma demo_small: "small (\<lambda>_. 0)"
  by (simp add: small_def)

lemma demo_accept:
  "rl_apply (\<lambda>_. []) id id (\<lambda>_. 0) (Rl_Accept demo_capability demo_sid 1 demo_relay_invitation demo_acceptance None) [] =
     [(demo_sid, \<lparr>fo_meta = Some demo_accepted, fo_chunks = []\<rparr>)]"
  by (simp add: accept_relay_def demo_relay_invitation_def jget_or_def jget_def demo_strip check_acceptance_def demo_hex
      demo_acceptance_def relay_cleanup_def dkeep_def find_by_invitation_def active_relays_def relay_max_sessions_def
      write_metadata_def demo_accepted_def Let_def)

lemma demo_validate: "validate_relay (\<lambda>_. []) demo_items [demo_file] = Inr [demo_item]"
  by (simp add: validate_relay_def demo_items_def demo_file_def relay_max_items_def validate_relay_item_def item_json_def
      demo_item_def jget_or_def jget_def str_strip_def is_space_def item_id_ok_def filename_ok_def name_of_def path_parts_def
      demo_chunk gcm_overhead_def max_relay_clear_def is_alnum_def char_eval)

lemma demo_configure:
  "rl_apply (\<lambda>_. []) id id (\<lambda>_. 0) (Rl_Configure 2 demo_sid ''o'' demo_descriptor demo_items 600)
     [(demo_sid, \<lparr>fo_meta = Some demo_accepted, fo_chunks = []\<rparr>)] =
     [(demo_sid, \<lparr>fo_meta = Some demo_uploading, fo_chunks = []\<rparr>)]"
proof -
  have a: "rl_expires demo_accepted = 86401" "rl_invitation demo_accepted = demo_sid" "rl_status demo_accepted = Rl_Accepted"
    "rl_owner demo_accepted = None" "rl_files demo_accepted = [demo_file]" "rl_id demo_accepted = demo_sid"
    "rl_binding demo_accepted = demo_binding"
    by (simp_all add: demo_accepted_def relay_default_ttl_def)
  have d: "check_descriptor demo_sid demo_accepted demo_descriptor = None"
    "py_eq (descriptor_files demo_descriptor) (JList [item_json demo_item])"
    by (simp_all add: check_descriptor_def demo_descriptor_def jget_def a descriptor_files_def demo_items_def item_json_def)
  show ?thesis
    by (simp add: configure_relay_def relay_min_ttl_def relay_max_ttl_def relay_cleanup_def dkeep_def relay_expired_def a
        find_by_invitation_def d demo_validate reserved_bytes_def Let_def write_metadata_def)
      (simp add: demo_item_def max_relay_store_def demo_uploading_def)
qed

lemma demo_put:
  "rl_apply (\<lambda>_. []) id id (\<lambda>_. 0) (Rl_Put (2 * min_free) 3 demo_sid ''f1'' 0 demo_cipher ''o'')
     [(demo_sid, \<lparr>fo_meta = Some demo_uploading, fo_chunks = []\<rparr>)] =
     [(demo_sid, \<lparr>fo_meta = Some demo_uploaded, fo_chunks = [((''f1'', 0), demo_cipher)]\<rparr>)]"
proof -
  have a: "rl_expires demo_uploading = 602" "rl_status demo_uploading = Rl_Uploading" "rl_owner demo_uploading = Some ''o''"
    "rl_items demo_uploading = [demo_item]"
    by (simp_all add: demo_uploading_def)
  have i: "ri_id demo_item = ''f1''" "ri_count demo_item = 1" "ri_clear demo_item = 2" "ri_received demo_item = []"
    "ri_hashes demo_item = []"
    by (simp_all add: demo_item_def)
  have "show_int 0 = ''0''" by (simp add: show_int_def show_nat.simps digit_char_def)
  then show ?thesis
    by (simp add: relay_put_chunk_def load_relay_def demo_hex a owner_ok_def find_relay_item_def i demo_chunk min_free_def
        put_chunk_file_def Let_def write_metadata_def add_received_def)
      (simp add: demo_uploaded_def demo_complete_item_def demo_item_def)
qed

lemma demo_commit:
  "rl_apply (\<lambda>_. []) id id (\<lambda>_. 0) (Rl_Commit 4 demo_sid ''o'' demo_completion)
     [(demo_sid, \<lparr>fo_meta = Some demo_uploaded, fo_chunks = [((''f1'', 0), demo_cipher)]\<rparr>)] =
     [(demo_sid, \<lparr>fo_meta = Some demo_ready, fo_chunks = [((''f1'', 0), demo_cipher)]\<rparr>)]"
proof -
  have a: "rl_expires demo_uploaded = 602" "rl_status demo_uploaded = Rl_Uploading" "rl_owner demo_uploaded = Some ''o''"
    "rl_items demo_uploaded = [demo_complete_item]" "rl_invitation demo_uploaded = demo_sid"
    by (simp_all add: demo_uploaded_def demo_uploading_def demo_accepted_def)
  have "check_completion (\<lambda>_. []) demo_sid demo_uploaded demo_completion = None"
    by (simp add: check_completion_def demo_completion_def jget_def a jget_or_def completion_ids_def demo_complete_item_def demo_item_def)
  moreover have "ri_received demo_complete_item = [0 .. ri_count demo_complete_item - 1]"
    by (simp add: demo_complete_item_def demo_item_def)
  ultimately show ?thesis
    by (simp add: relay_commit_def load_relay_def demo_hex a owner_ok_def Let_def write_metadata_def) (simp add: demo_ready_def)
qed

lemma demo_relay_run:
  "fold (rl_apply (\<lambda>_. []) id id (\<lambda>_. 0)) demo_ops [] =
     [(demo_sid, \<lparr>fo_meta = Some demo_ready, fo_chunks = [((''f1'', 0), demo_cipher)]\<rparr>)]"
  by (simp only: demo_ops_def fold_simps demo_accept demo_configure demo_put demo_commit comp_apply id_apply)

lemma demo_ready_fields: "rl_expires demo_ready = 602" "rl_status demo_ready = Rl_Ready" "rl_token_hash demo_ready = demo_capability"
  "rl_items demo_ready = [demo_complete_item]" "rl_invitation demo_ready = demo_sid" "rl_acceptance demo_ready = demo_acceptance"
  "rl_id demo_ready = demo_sid"
  by (simp_all add: demo_ready_def demo_uploaded_def demo_uploading_def demo_accepted_def)

section \<open>Properties\<close>



text \<open>In every reachable state the relays belong to different invitations
  and there are at most 64. A successful acceptance of an invitation that already has a relay answers with that
  relay, only for the same acceptance and the same capability, and makes no new one.\<close>

theorem relay_accepted_once:
  assumes "d = fold (rl_apply repr h hash msize) ops []" and "small msize"
    and "accept_relay repr h msize fresh k now ivn acc tok d = (d', Inr rc)"
    and "dget d k0 = Some fo0" and "fo_meta fo0 = Some m0" and "now < rl_expires m0"
    and "rl_invitation m0 = str_strip (to_str repr (jget_or ivn ''invite_id'' (JStr [])))"
  shows "distinct_vals folder_invitation d' \<and> length d' \<le> 64 \<and> d' = relay_cleanup now d \<and>
    rr_id rc = k0 \<and> rr_idempotent rc \<and> py_eq (rl_acceptance m0) acc \<and> rl_token_hash m0 = h (rr_token rc)"
proof -
  have ok: "relays_ok repr hash d" using relays_ok_run [OF relays_ok_Nil assms(2)] by (simp add: assms(1))
  let ?c = "relay_cleanup now d"
  have c: "relays_ok repr hash ?c" by (rule relays_ok_cleanup [OF ok])
  then have dc: "dict_ok ?c" by (simp add: relays_ok_def)
  have g: "dget ?c k0 = Some fo0"
    using ok assms(4-6) by (auto simp: relay_cleanup_def relays_ok_def dget_keep relay_expired_def)
  obtain k1 m1 where f: "find_by_invitation now (rl_invitation m0) ?c = Some (k1, m1)"
    using find_by_invitation_None [OF dc _ g assms(5,6)] by (cases "find_by_invitation now (rl_invitation m0) ?c") auto
  from find_by_invitation_Some [OF dc f] obtain fo1 where fo1: "dget ?c k1 = Some fo1" "fo_meta fo1 = Some m1"
    "rl_invitation m1 = rl_invitation m0" by blast
  have "distinct_vals folder_invitation ?c" using c by (simp add: relays_ok_def)
  from distinct_vals_eq [OF this fo1(1) g] fo1 assms(5) have k1: "k1 = k0" by (simp add: folder_invitation_def)
  with fo1 g assms(5) have "m1 = m0" by simp
  moreover have "rl_id m0 = k0" using relays_ok_get [OF c g] assms(5) by auto
  ultimately show ?thesis
    using assms(3,7) f k1 c
    by (auto simp: accept_relay_def Let_def relay_receipt_of_def relays_ok_def relay_max_sessions_def split: if_splits option.splits)
qed

theorem relay_accepted_once_witness:
  "\<exists>d' rc. accept_relay (\<lambda>_. []) id (\<lambda>_. 0) [] demo_binding 5 demo_relay_invitation demo_acceptance (Some demo_capability)
      (fold (rl_apply (\<lambda>_. []) id id (\<lambda>_. 0)) demo_ops []) = (d', Inr rc) \<and> rr_id rc = demo_sid \<and> rr_idempotent rc"
proof -
  let ?d = "fold (rl_apply (\<lambda>_. []) id id (\<lambda>_. 0)) demo_ops []"
  have i: "str_strip (to_str (\<lambda>_. []) (jget_or demo_relay_invitation ''invite_id'' (JStr []))) = demo_sid"
    by (simp add: demo_relay_invitation_def jget_or_def demo_strip)
  have s: "str_strip demo_capability = demo_capability"
    by (rule strip_no_space) (simp add: demo_capability_def list_all_iff is_space_def char_eval)
  have "py_eq demo_acceptance demo_acceptance" by (simp add: demo_acceptance_def)
  moreover have "check_acceptance demo_sid demo_binding demo_acceptance = None"
    by (simp add: check_acceptance_def demo_hex demo_acceptance_def jget_def)
  moreover have "str_strip (to_str (\<lambda>_. []) (jget_or demo_relay_invitation ''session_binding'' (JStr []))) = demo_binding"
    by (simp add: demo_relay_invitation_def jget_or_def demo_strip)
  ultimately have "accept_relay (\<lambda>_. []) id (\<lambda>_. 0) [] demo_binding 5 demo_relay_invitation demo_acceptance (Some demo_capability)
      [(demo_sid, \<lparr>fo_meta = Some demo_ready, fo_chunks = [((''f1'', 0), demo_cipher)]\<rparr>)] =
      ([(demo_sid, \<lparr>fo_meta = Some demo_ready, fo_chunks = [((''f1'', 0), demo_cipher)]\<rparr>)],
       Inr (relay_receipt_of demo_capability True demo_ready))"
    by (simp add: accept_relay_def Let_def i s demo_hex relay_cleanup_def dkeep_def relay_expired_def demo_ready_fields
        find_by_invitation_def)
  then have a: "accept_relay (\<lambda>_. []) id (\<lambda>_. 0) [] demo_binding 5 demo_relay_invitation demo_acceptance (Some demo_capability) ?d =
      (?d, Inr (relay_receipt_of demo_capability True demo_ready))" by (simp only: demo_relay_run)
  moreover have "dget ?d demo_sid = Some \<lparr>fo_meta = Some demo_ready, fo_chunks = [((''f1'', 0), demo_cipher)]\<rparr>"
    by (simp only: demo_relay_run) simp
  ultimately show ?thesis
    using relay_accepted_once [OF refl demo_small a, of demo_sid _ demo_ready] by (simp add: i demo_ready_fields)
qed

end
