(* ===== verification/Unlock_Codes.thy ===== *)
theory Unlock_Codes
  imports Shared_Paths Py_Json
begin

text \<open>
  Premium folders and their access codes (\<^verbatim>\<open>core/unlock_codes.py\<close>). The two SQLite tables are a list of rows
  and a dictionary, the marker files a dictionary from the folder to the JSON value in the file (\<open>None\<close> when it
  cannot be read or decoded). The system is a labelled transition relation over these operations; the
  invariant says that whoever holds a code redeemed it, or took it over with a recorded migration. The
  encrypted copy of the database, the walk of \<open>list_premium_folders\<close> and the secure deletion are not modelled.
\<close>

section \<open>Keys of folders\<close>

text \<open>One pass of \<open>replace("//", "/")\<close>, and the loop around it.\<close>

fun halve_slashes :: "string \<Rightarrow> string" where
  "halve_slashes (a # b # s) =
     (if a = CHR ''/'' \<and> b = CHR ''/'' then CHR ''/'' # halve_slashes s else a # halve_slashes (b # s))"
| "halve_slashes s = s"

fun has_double :: "string \<Rightarrow> bool" where
  "has_double (a # b # s) \<longleftrightarrow> a = CHR ''/'' \<and> b = CHR ''/'' \<or> has_double (b # s)"
| "has_double s \<longleftrightarrow> False"

lemma length_halve: "length (halve_slashes s) \<le> length s"
  by (induction s rule: halve_slashes.induct) auto

lemma length_halve_less: "has_double s \<Longrightarrow> length (halve_slashes s) < length s"
proof (induction s rule: halve_slashes.induct)
  case (1 a b s)
  then show ?case using length_halve [of s] by (auto simp: less_Suc_eq_le le_SucI)
qed auto

function single_slashes :: "string \<Rightarrow> string" where
  "single_slashes s = (if has_double s then single_slashes (halve_slashes s) else s)"
  by pat_completeness auto
termination by (relation "measure length") (auto simp: length_halve_less)

declare single_slashes.simps [simp del]

lemma single_slashes_id: "\<not> has_double s \<Longrightarrow> single_slashes s = s"
  by (simp add: single_slashes.simps)

lemma single_slashes_clean: "\<not> has_double (single_slashes s)"
  by (induction s rule: single_slashes.induct) (metis single_slashes.simps)

definition normalize_folder :: "string \<Rightarrow> string" where
  "normalize_folder rel_path =
     (let clean = to_slash (str_strip rel_path);
          clean = (if starts_with clean ''/'' then clean else CHR ''/'' # clean);
          clean = single_slashes clean;
          clean = (if 1 < length clean \<and> ends_with clean ''/'' then rstrip_of ''/'' clean else clean)
      in if clean = [] then ''/'' else clean)"

lemma single_slashes_passes:
  "\<exists>k \<le> length s. single_slashes s = (halve_slashes ^^ k) s \<and> \<not> has_double ((halve_slashes ^^ k) s) \<and> (\<forall>j < k. has_double ((halve_slashes ^^ j) s))"
proof (induction s rule: single_slashes.induct)
  case (1 s)
  show ?case
  proof (cases "has_double s")
    case True
    with 1 obtain k where k: "k \<le> length (halve_slashes s)" "single_slashes (halve_slashes s) = (halve_slashes ^^ k) (halve_slashes s)"
      "\<not> has_double ((halve_slashes ^^ k) (halve_slashes s))" "\<forall>j < k. has_double ((halve_slashes ^^ j) (halve_slashes s))" by blast
    have "has_double ((halve_slashes ^^ j) s)" if "j < Suc k" for j
      using that k(4) True by (cases j) (simp_all add: funpow_swap1)
    moreover have "Suc k \<le> length s" using k(1) length_halve_less [OF True] by simp
    ultimately show ?thesis using k(2,3) True by (intro exI [of _ "Suc k"]) (simp add: single_slashes.simps [of s] funpow_swap1)
  next
    case False
    then show ?thesis by (intro exI [of _ 0]) (simp add: single_slashes_id)
  qed
qed

lemma halve_first: "s \<noteq> [] \<Longrightarrow> hd s = CHR ''/'' \<Longrightarrow> halve_slashes s \<noteq> [] \<and> hd (halve_slashes s) = CHR ''/''"
  by (cases s rule: halve_slashes.cases) auto

lemma single_slashes_first: "s \<noteq> [] \<Longrightarrow> hd s = CHR ''/'' \<Longrightarrow> single_slashes s \<noteq> [] \<and> hd (single_slashes s) = CHR ''/''"
proof (induction s rule: single_slashes.induct)
  case (1 s)
  then show ?case using halve_first [of s] by (cases "has_double s") (simp_all add: single_slashes.simps [of s])
qed

lemma has_double_append: "has_double s \<Longrightarrow> has_double (s @ t)"
  by (induction s rule: has_double.induct) auto

lemma has_double_Cons: "has_double s \<Longrightarrow> has_double (a # s)"
  by (cases s) auto

lemma rstrip_slash:
  assumes "s \<noteq> []" and "hd s = CHR ''/''" and "\<not> has_double s" and "1 < length s" and "ends_with s ''/''"
  shows "\<exists>t. s = t @ ''/'' \<and> rstrip_of ''/'' s = t \<and> t \<noteq> [] \<and> last t \<noteq> CHR ''/''"
proof -
  have "last s = CHR ''/''" using assms(1,5) by (cases s rule: rev_cases) (auto simp: ends_with_def starts_with_def)
  then obtain t where t: "s = t @ ''/''" using assms(1) by (metis append_butlast_last_id)
  with assms(4) obtain u c where u: "t = u @ [c]" by (cases t rule: rev_cases) auto
  have dd: "has_double (u @ ''//'')" by (induction u) (simp_all add: has_double_Cons)
  then have "c \<noteq> CHR ''/''" using assms(3) t u by auto
  then show ?thesis using t u by (simp add: rstrip_of_def)
qed

text \<open>C22 (normalization ends). The loop that removes double slashes ends after at most as many passes as the text is long,
  having made a pass exactly while its guard held; the key it leads to is the root, or starts with a slash, has no
  double slash and does not end in one.\<close>

theorem normalize_folder_terminates:
  "(\<exists>k \<le> length s. single_slashes s = (halve_slashes ^^ k) s \<and> \<not> has_double ((halve_slashes ^^ k) s) \<and>
      (\<forall>j < k. has_double ((halve_slashes ^^ j) s))) \<and>
   (normalize_folder p = ''/'' \<or>
      hd (normalize_folder p) = CHR ''/'' \<and> \<not> has_double (normalize_folder p) \<and> last (normalize_folder p) \<noteq> CHR ''/'')"
proof (rule conjI [OF single_slashes_passes])
  define c where "c = single_slashes (if starts_with (to_slash (str_strip p)) ''/'' then to_slash (str_strip p) else CHR ''/'' # to_slash (str_strip p))"
  obtain t where "(if starts_with (to_slash (str_strip p)) ''/'' then to_slash (str_strip p) else CHR ''/'' # to_slash (str_strip p)) = CHR ''/'' # t"
    by (cases "starts_with (to_slash (str_strip p)) ''/''"; cases "to_slash (str_strip p)") (simp_all add: starts_with_def)
  then have c: "c \<noteq> []" "hd c = CHR ''/''" using single_slashes_first [of "CHR ''/'' # t"] by (simp_all add: c_def)
  have d: "\<not> has_double c" by (simp add: c_def single_slashes_clean)
  have n: "normalize_folder p = (let d = (if 1 < length c \<and> ends_with c ''/'' then rstrip_of ''/'' c else c) in if d = [] then ''/'' else d)"
    by (simp add: normalize_folder_def c_def Let_def)
  show "normalize_folder p = ''/'' \<or> hd (normalize_folder p) = CHR ''/'' \<and> \<not> has_double (normalize_folder p) \<and> last (normalize_folder p) \<noteq> CHR ''/''"
  proof (cases "1 < length c \<and> ends_with c ''/''")
    case True
    then obtain t where t: "c = t @ ''/''" "rstrip_of ''/'' c = t" "t \<noteq> []" "last t \<noteq> CHR ''/''" using rstrip_slash [OF c d] by blast
    have "hd t = CHR ''/''" using c(2) t(1,3) by simp
    moreover have "\<not> has_double t" using d t(1) has_double_append by blast
    ultimately show ?thesis using True t n by (simp add: Let_def)
  next
    case False
    then have e: "normalize_folder p = c" using c(1) unfolding n Let_def by (simp only: if_False)
    show ?thesis
    proof (cases "last c = CHR ''/''")
      case True
      then have "ends_with c ''/''" using c(1) by (cases c rule: rev_cases) (auto simp: ends_with_def starts_with_def)
      with False c show ?thesis unfolding e by (cases c) auto
    next
      case False
      with c d show ?thesis unfolding e by blast
    qed
  qed
qed

theorem normalize_folder_terminates_witness:
  "(\<exists>k \<le> length ''//a//b''. single_slashes ''//a//b'' = (halve_slashes ^^ k) ''//a//b'') \<and> single_slashes ''//a//b'' = ''/a/b'' \<and>
   \<not> has_double (normalize_folder ''//a//b'')"
proof -
  have "single_slashes ''//a//b'' = ''/a/b''" by (simp add: single_slashes.simps)
  moreover have "\<not> has_double ''/''" by simp
  moreover note normalize_folder_terminates [of "''//a//b''" "''//a//b''"]
  ultimately show ?thesis by metis
qed

text \<open>\<open>path.rsplit("/", 1)[-1]\<close>.\<close>

definition last_name :: "string \<Rightarrow> string" where
  "last_name s = last (split_on (CHR ''/'') s)"

section \<open>State\<close>

record access_code =
  ac_id :: int
  ac_folder :: string
  ac_hash :: string
  ac_created :: time
  ac_expires :: time
  ac_device :: "string option"
  ac_redeemed :: "time option"
  ac_revoked :: bool

record premium_info =
  pm_label :: json
  pm_note :: json
  pm_created :: json

record unlock_db =
  ud_codes :: "access_code list"
  ud_seq :: int
  ud_resources :: "(string, premium_info) dict"
  ud_markers :: "(path, json option) dict"

datatype redeem_status = Redeem_Ok string | Redeem_Invalid | Redeem_Revoked | Redeem_Expired | Redeem_Used

datatype premium_event = Premium_Revoked string string string | Premium_Redeemed string string string

datatype lock_status = Unlocked | Locked string json json

record code_receipt =
  cr_id :: int
  cr_code :: string
  cr_folder :: string
  cr_created :: time
  cr_expires :: time

definition empty_unlock_db :: unlock_db where
  "empty_unlock_db = \<lparr>ud_codes = [], ud_seq = 0, ud_resources = [], ud_markers = []\<rparr>"

definition default_ttl_days :: real where "default_ttl_days = 30"

section \<open>Premium folders and resources\<close>

definition safe_path :: "fs \<Rightarrow> share_conf \<Rightarrow> string \<Rightarrow> path option" where
  "safe_path f cf rel_path = map_option res_path (resolve_shared_path f cf rel_path ''slot-1'' False False None)"

definition premium_target :: "fs \<Rightarrow> share_conf \<Rightarrow> string \<Rightarrow> path option" where
  "premium_target f cf rel_path =
     (case safe_path f cf rel_path of None \<Rightarrow> None | Some t \<Rightarrow> if is_dir f t then Some t else None)"

text \<open>\<open>disk_ok\<close>: whether the write or removal of the marker file succeeds.\<close>

definition mark_premium_folder ::
    "fs \<Rightarrow> share_conf \<Rightarrow> bool \<Rightarrow> time \<Rightarrow> string \<Rightarrow> string \<Rightarrow> string \<Rightarrow> unlock_db \<Rightarrow> unlock_db \<times> bool" where
  "mark_premium_folder f cf disk_ok now rel_path label note db =
     (case premium_target f cf rel_path of None \<Rightarrow> (db, False)
      | Some t \<Rightarrow>
          if \<not> disk_ok then (db, False)
          else (let name = (if str_strip label = [] then name_of t else str_strip label);
                    payload = JObj [(''label'', JStr name), (''price_note'', JStr (str_strip note)), (''created_at'', JReal now)]
                in (db\<lparr>ud_markers := dput t (Some payload) (ud_markers db)\<rparr>, True)))"

definition unmark_premium_folder :: "fs \<Rightarrow> share_conf \<Rightarrow> bool \<Rightarrow> string \<Rightarrow> unlock_db \<Rightarrow> unlock_db \<times> bool" where
  "unmark_premium_folder f cf disk_ok rel_path db =
     (case safe_path f cf rel_path of None \<Rightarrow> (db, False)
      | Some t \<Rightarrow> if disk_ok then (db\<lparr>ud_markers := dpop t (ud_markers db)\<rparr>, True) else (db, False))"

definition get_premium_resource_info :: "string \<Rightarrow> unlock_db \<Rightarrow> premium_info option" where
  "get_premium_resource_info resource db = dget (ud_resources db) (normalize_folder resource)"

definition mark_premium_resource :: "time \<Rightarrow> string \<Rightarrow> string \<Rightarrow> string \<Rightarrow> unlock_db \<Rightarrow> unlock_db \<times> bool" where
  "mark_premium_resource now resource label note db =
     (let norm = normalize_folder resource
      in if norm = ''/'' then (db, False)
         else (let name = (if str_strip label = [] then last_name norm else str_strip label);
                   row = \<lparr>pm_label = JStr name, pm_note = JStr (str_strip note), pm_created = JReal now\<rparr>
               in (db\<lparr>ud_resources := dput norm row (ud_resources db)\<rparr>, True)))"

definition unmark_premium_resource :: "string \<Rightarrow> unlock_db \<Rightarrow> unlock_db \<times> bool" where
  "unmark_premium_resource resource db =
     (let norm = normalize_folder resource
      in (db\<lparr>ud_resources := dpop norm (ud_resources db)\<rparr>, dget (ud_resources db) norm \<noteq> None))"

text \<open>A marker that holds JSON other than an object makes \<open>data.get\<close> raise.\<close>

definition get_premium_info :: "fs \<Rightarrow> share_conf \<Rightarrow> string \<Rightarrow> unlock_db \<Rightarrow> py_error + premium_info option" where
  "get_premium_info f cf rel_path db =
     (case get_premium_resource_info rel_path db of Some i \<Rightarrow> Inr (Some i)
      | None \<Rightarrow>
          (case premium_target f cf rel_path of None \<Rightarrow> Inr None
           | Some t \<Rightarrow>
               (case dget (ud_markers db) t of
                  None \<Rightarrow> Inr None
                | Some None \<Rightarrow> Inr (Some \<lparr>pm_label = JStr (name_of t), pm_note = JStr [], pm_created = JInt 0\<rparr>)
                | Some (Some (JObj ob)) \<Rightarrow>
                    Inr (Some \<lparr>pm_label = jget_or ob ''label'' (JStr (name_of t)), pm_note = jget_or ob ''price_note'' (JStr []),
                               pm_created = jget_or ob ''created_at'' (JInt 0)\<rparr>)
                | Some (Some _) \<Rightarrow> Inl (Runtime_Error ''AttributeError''))))"

definition is_premium_folder :: "fs \<Rightarrow> share_conf \<Rightarrow> string \<Rightarrow> unlock_db \<Rightarrow> bool" where
  "is_premium_folder f cf rel_path db =
     (get_premium_resource_info rel_path db \<noteq> None \<or>
      (case premium_target f cf rel_path of None \<Rightarrow> False | Some t \<Rightarrow> dget (ud_markers db) t \<noteq> None))"

text \<open>The proper prefixes of a path as folder paths, the longest first; the root is not one of them.\<close>

definition ancestors :: "string \<Rightarrow> string list" where
  "ancestors rel_path =
     (let parts = filter (\<lambda>p. p \<noteq> []) (split_on (CHR ''/'') (normalize_folder rel_path))
      in map (\<lambda>i. CHR ''/'' # join_with ''/'' (take i parts)) (rev [1 ..< Suc (length parts)]))"

definition find_governing_premium_folder :: "fs \<Rightarrow> share_conf \<Rightarrow> string \<Rightarrow> unlock_db \<Rightarrow> string option" where
  "find_governing_premium_folder f cf rel_path db =
     map_option normalize_folder (find (\<lambda>c. is_premium_folder f cf c db) (ancestors rel_path))"

section \<open>Codes\<close>

definition generate_code ::
    "fs \<Rightarrow> share_conf \<Rightarrow> (string \<Rightarrow> string) \<Rightarrow> string \<Rightarrow> time \<Rightarrow> string \<Rightarrow> real \<Rightarrow> unlock_db \<Rightarrow>
     unlock_db \<times> (py_error + code_receipt option)" where
  "generate_code f cf h fresh now folder ttl_days db =
     (let norm = normalize_folder folder
      in if \<not> is_premium_folder f cf norm db then (db, Inr None)
         else if list_ex (\<lambda>c. ac_hash c = h fresh) (ud_codes db) then (db, Inl (Runtime_Error ''IntegrityError''))
         else (let n = ud_seq db + 1; expires = now + max ttl_days 0 * 86400;
                   row = \<lparr>ac_id = n, ac_folder = norm, ac_hash = h fresh, ac_created = now, ac_expires = expires,
                          ac_device = None, ac_redeemed = None, ac_revoked = False\<rparr>
               in (db\<lparr>ud_codes := ud_codes db @ [row], ud_seq := n\<rparr>,
                   Inr (Some \<lparr>cr_id = n, cr_code = fresh, cr_folder = norm, cr_created = now, cr_expires = expires\<rparr>))))"

record code_view =
  cv_id :: int
  cv_folder :: string
  cv_created :: time
  cv_expires :: time
  cv_device :: "string option"
  cv_redeemed :: "time option"
  cv_used :: bool
  cv_revoked :: bool
  cv_expired :: bool

definition held :: "access_code \<Rightarrow> string option" where
  "held c = (case ac_device c of None \<Rightarrow> None | Some d \<Rightarrow> if d = [] then None else Some d)"

definition list_codes :: "time \<Rightarrow> string option \<Rightarrow> unlock_db \<Rightarrow> code_view list" where
  "list_codes now folder db =
     (let rows = (case folder of None \<Rightarrow> ud_codes db
                  | Some p \<Rightarrow> if p = [] then ud_codes db else filter (\<lambda>c. ac_folder c = normalize_folder p) (ud_codes db))
      in map (\<lambda>c. \<lparr>cv_id = ac_id c, cv_folder = ac_folder c, cv_created = ac_created c, cv_expires = ac_expires c,
                   cv_device = held c, cv_redeemed = ac_redeemed c, cv_used = (held c \<noteq> None),
                   cv_revoked = ac_revoked c, cv_expired = (ac_expires c \<le> now)\<rparr>)
           (sort_key (\<lambda>c. - ac_created c) rows))"

fun update_code :: "(access_code \<Rightarrow> bool) \<Rightarrow> (access_code \<Rightarrow> access_code) \<Rightarrow> access_code list \<Rightarrow> access_code list" where
  "update_code P g [] = []"
| "update_code P g (c # cs) = (if P c then g c else c) # update_code P g cs"

definition revoke_code :: "int \<Rightarrow> unlock_db \<Rightarrow> unlock_db \<times> bool \<times> premium_event list" where
  "revoke_code n db =
     (case find (\<lambda>c. ac_id c = n) (ud_codes db) of
        None \<Rightarrow> (db, False, [])
      | Some c \<Rightarrow>
          if ac_revoked c then (db, False, [])
          else (db\<lparr>ud_codes := update_code (\<lambda>c. ac_id c = n \<and> \<not> ac_revoked c) (\<lambda>c. c\<lparr>ac_revoked := True\<rparr>) (ud_codes db)\<rparr>, True,
                case held c of None \<Rightarrow> []
                | Some d \<Rightarrow> [Premium_Revoked d (ac_folder c) (last_name (rstrip_of ''/'' (ac_folder c)))]))"

definition redeem_code ::
    "(string \<Rightarrow> string) \<Rightarrow> time \<Rightarrow> string \<Rightarrow> string \<Rightarrow> unlock_db \<Rightarrow> unlock_db \<times> redeem_status \<times> premium_event list" where
  "redeem_code h now secret device db =
     (let clean_code = str_strip secret; clean_device = str_strip device
      in if clean_code = [] \<or> clean_device = [] then (db, Redeem_Invalid, [])
         else (case find (\<lambda>c. ac_hash c = h clean_code) (ud_codes db) of
                 None \<Rightarrow> (db, Redeem_Invalid, [])
               | Some c \<Rightarrow>
                   if ac_revoked c then (db, Redeem_Revoked, [])
                   else if ac_expires c \<le> now then (db, Redeem_Expired, [])
                   else (case held c of
                           Some d \<Rightarrow> if d = clean_device then (db, Redeem_Ok (ac_folder c), []) else (db, Redeem_Used, [])
                         | None \<Rightarrow>
                             (db\<lparr>ud_codes := update_code (\<lambda>x. ac_id x = ac_id c)
                                   (\<lambda>x. x\<lparr>ac_device := Some clean_device, ac_redeemed := Some now\<rparr>) (ud_codes db)\<rparr>,
                              Redeem_Ok (ac_folder c),
                              [Premium_Redeemed clean_device (ac_folder c) (last_name (rstrip_of ''/'' (ac_folder c)))]))))"

definition is_unlocked_for_device :: "time \<Rightarrow> string \<Rightarrow> string \<Rightarrow> unlock_db \<Rightarrow> bool" where
  "is_unlocked_for_device now folder device db =
     (let clean_device = str_strip device; norm = normalize_folder folder
      in clean_device \<noteq> [] \<and>
         list_ex (\<lambda>c. ac_folder c = norm \<and> ac_device c = Some clean_device \<and> \<not> ac_revoked c \<and> now < ac_expires c) (ud_codes db))"

definition migrate_device_id :: "string \<Rightarrow> string \<Rightarrow> unlock_db \<Rightarrow> unlock_db \<times> nat" where
  "migrate_device_id previous_id device_id db =
     (let previous = str_strip previous_id; current = str_strip device_id
      in if previous = [] \<or> current = [] \<or> previous = current then (db, 0)
         else (db\<lparr>ud_codes := update_code (\<lambda>c. ac_device c = Some previous) (\<lambda>c. c\<lparr>ac_device := Some current\<rparr>) (ud_codes db)\<rparr>,
               length (filter (\<lambda>c. ac_device c = Some previous) (ud_codes db))))"

definition lock_status_for_path :: "fs \<Rightarrow> share_conf \<Rightarrow> time \<Rightarrow> string \<Rightarrow> string \<Rightarrow> unlock_db \<Rightarrow> py_error + lock_status" where
  "lock_status_for_path f cf now rel_path device db =
     (case find_governing_premium_folder f cf rel_path db of
        None \<Rightarrow> Inr Unlocked
      | Some g \<Rightarrow>
          if is_unlocked_for_device now g device db then Inr Unlocked
          else (case get_premium_info f cf g db of
                  Inl e \<Rightarrow> Inl e
                | Inr None \<Rightarrow> Inr (Locked g (JStr []) (JStr []))
                | Inr (Some i) \<Rightarrow> Inr (Locked g (pm_label i) (pm_note i))))"

text \<open>The files are removed and an empty database made; the marker files stay.\<close>

definition reset_unlock_db :: "unlock_db \<Rightarrow> unlock_db \<times> (string \<times> nat) list" where
  "reset_unlock_db db = (empty_unlock_db\<lparr>ud_markers := ud_markers db\<rparr>,
     [(''access_codes'', length (ud_codes db)), (''premium_resources'', length (ud_resources db))])"

section \<open>The database as a transition system\<close>

datatype unlock_act =
    Act_Host
  | Act_Issue code_receipt
  | Act_Revoke int bool
  | Act_Redeem time string string redeem_status
  | Act_Migrate string string
  | Act_Reset

inductive unlock_step :: "fs \<Rightarrow> share_conf \<Rightarrow> (string \<Rightarrow> string) \<Rightarrow> unlock_db \<Rightarrow> unlock_act \<Rightarrow> unlock_db \<Rightarrow> bool"
  for f cf h where
  Mark: "mark_premium_folder f cf disk_ok now p label price db = (db', b) \<Longrightarrow> unlock_step f cf h db Act_Host db'"
| Unmark: "unmark_premium_folder f cf disk_ok p db = (db', b) \<Longrightarrow> unlock_step f cf h db Act_Host db'"
| Mark_Resource: "mark_premium_resource now p label price db = (db', b) \<Longrightarrow> unlock_step f cf h db Act_Host db'"
| Unmark_Resource: "unmark_premium_resource p db = (db', b) \<Longrightarrow> unlock_step f cf h db Act_Host db'"
| Issue: "generate_code f cf h fresh now p ttl db = (db', Inr (Some r)) \<Longrightarrow> unlock_step f cf h db (Act_Issue r) db'"
| Revoke: "revoke_code n db = (db', b, evs) \<Longrightarrow> unlock_step f cf h db (Act_Revoke n b) db'"
| Redeem: "redeem_code h now c d db = (db', r, evs) \<Longrightarrow> unlock_step f cf h db (Act_Redeem now c d r) db'"
| Migrate: "migrate_device_id p d db = (db', n) \<Longrightarrow> unlock_step f cf h db (Act_Migrate p d) db'"
| Reset: "reset_unlock_db db = (db', counts) \<Longrightarrow> unlock_step f cf h db Act_Reset db'"

inductive unlock_run :: "fs \<Rightarrow> share_conf \<Rightarrow> (string \<Rightarrow> string) \<Rightarrow> unlock_db \<Rightarrow> unlock_act list \<Rightarrow> unlock_db \<Rightarrow> bool"
  for f cf h where
  Run_Nil: "unlock_run f cf h db [] db"
| Run_Snoc: "unlock_run f cf h db acts db1 \<Longrightarrow> unlock_step f cf h db1 a db2 \<Longrightarrow> unlock_run f cf h db (acts @ [a]) db2"

inductive_cases unlock_stepE: "unlock_step f cf h db a db'"
inductive_simps unlock_redeem_iff: "unlock_step f cf h db (Act_Redeem now c d r) db'"

text \<open>The device that holds, after an action, the grants that \<open>d\<close> held before it.\<close>

fun carry :: "unlock_act \<Rightarrow> string \<Rightarrow> string" where
  "carry (Act_Migrate p c) d = (if d = str_strip p \<and> str_strip c \<noteq> [] then str_strip c else d)"
| "carry _ d = d"

definition codes_ok :: "unlock_db \<Rightarrow> bool" where
  "codes_ok db \<longleftrightarrow> distinct (map ac_id (ud_codes db)) \<and> distinct (map ac_hash (ud_codes db)) \<and>
     (\<forall>c \<in> set (ud_codes db). ac_id c \<le> ud_seq db)"

text \<open>The code was redeemed in the run, by the device that holds it or one whose grants it took over.\<close>

definition earned :: "unlock_act list \<Rightarrow> access_code \<Rightarrow> bool" where
  "earned acts c \<longleftrightarrow> (\<forall>d. ac_device c = Some d \<longrightarrow> d \<noteq> [] \<and>
     (\<exists>pre now s d0 post. acts = pre @ Act_Redeem now s d0 (Redeem_Ok (ac_folder c)) # post \<and>
        now < ac_expires c \<and> Act_Reset \<notin> set post \<and> fold carry post (str_strip d0) = d))"

lemma update_code_ids: "(\<And>c. ac_id (g c) = ac_id c) \<Longrightarrow> map ac_id (update_code P g cs) = map ac_id cs"
  by (induction cs) auto

lemma update_code_hashes: "(\<And>c. ac_hash (g c) = ac_hash c) \<Longrightarrow> map ac_hash (update_code P g cs) = map ac_hash cs"
  by (induction cs) auto

lemma set_update_code: "set (update_code P g cs) = (\<lambda>c. if P c then g c else c) ` set cs"
  by (induction cs) auto

lemma codes_ok_update:
  assumes "codes_ok db" and g: "\<And>c. ac_id (g c) = ac_id c" "\<And>c. ac_hash (g c) = ac_hash c"
  shows "codes_ok (db\<lparr>ud_codes := update_code P g (ud_codes db)\<rparr>)"
  using assms(1) g by (auto simp: codes_ok_def update_code_ids [OF g(1)] update_code_hashes [OF g(2)] set_update_code)

lemma codes_ok_step: "unlock_step f cf h db a db' \<Longrightarrow> codes_ok db \<Longrightarrow> codes_ok db'"
proof (induction rule: unlock_step.induct)
  case (Issue fresh now p ttl db db' r)
  then have "ac_hash c \<noteq> h fresh" if "c \<in> set (ud_codes db)" for c
    using that by (auto simp: generate_code_def Let_def list_ex_iff split: if_splits)
  with Issue show ?case
    by (fastforce simp: generate_code_def Let_def codes_ok_def split: if_splits)
next
  case (Revoke n db db' b evs)
  then show ?case by (auto simp: revoke_code_def codes_ok_update split: option.splits if_splits)
next
  case (Redeem now c d db db' r evs)
  then show ?case by (auto simp: redeem_code_def Let_def codes_ok_update split: option.splits if_splits)
next
  case (Migrate p d db db' n)
  then show ?case by (auto simp: migrate_device_id_def Let_def codes_ok_update split: if_splits)
qed (auto simp: mark_premium_folder_def unmark_premium_folder_def mark_premium_resource_def unmark_premium_resource_def
      reset_unlock_db_def codes_ok_def empty_unlock_db_def Let_def split: option.splits if_splits)

lemma codes_ok_empty: "codes_ok empty_unlock_db"
  by (simp add: codes_ok_def empty_unlock_db_def)

lemma codes_ok_run: "unlock_run f cf h db acts db' \<Longrightarrow> codes_ok db \<Longrightarrow> codes_ok db'"
  by (induction rule: unlock_run.induct) (auto intro: codes_ok_step)

lemma earnedI:
  "ac_device c = Some d \<Longrightarrow> d \<noteq> [] \<Longrightarrow> acts = pre @ Act_Redeem now s d0 (Redeem_Ok (ac_folder c)) # post \<Longrightarrow>
    now < ac_expires c \<Longrightarrow> Act_Reset \<notin> set post \<Longrightarrow> fold carry post (str_strip d0) = d \<Longrightarrow> earned acts c"
  unfolding earned_def by (metis option.inject)

lemma earned_later:
  assumes "earned acts c" and "a \<noteq> Act_Reset" and "ac_folder c' = ac_folder c" and "ac_expires c' = ac_expires c"
    and "\<And>d. ac_device c = Some d \<Longrightarrow> d \<noteq> [] \<Longrightarrow> ac_device c' = Some (carry a d)"
    and "ac_device c = None \<Longrightarrow> ac_device c' = None" and "\<And>d. d \<noteq> [] \<Longrightarrow> carry a d \<noteq> []"
  shows "earned (acts @ [a]) c'"
proof (cases "ac_device c'")
  case None
  then show ?thesis by (simp add: earned_def)
next
  case (Some d')
  with assms(6) obtain d where d: "ac_device c = Some d" by (cases "ac_device c") auto
  with assms(1) obtain pre now s d0 post where e: "d \<noteq> []" "acts = pre @ Act_Redeem now s d0 (Redeem_Ok (ac_folder c)) # post"
    "now < ac_expires c" "Act_Reset \<notin> set post" "fold carry post (str_strip d0) = d"
    unfolding earned_def by blast
  moreover have "d' = carry a d" using assms(5) d e(1) Some by simp
  moreover from e(2) assms(3) have "acts @ [a] = pre @ Act_Redeem now s d0 (Redeem_Ok (ac_folder c')) # (post @ [a])" by simp
  moreover have "Act_Reset \<notin> set (post @ [a])" using e(4) assms(2) by auto
  moreover have "fold carry (post @ [a]) (str_strip d0) = carry a d" using e(5) by simp
  moreover have "carry a d \<noteq> []" using assms(7) e(1) by blast
  moreover have "now < ac_expires c'" using e(3) assms(4) by simp
  ultimately show ?thesis using Some by (auto intro: earnedI)
qed

lemma earned_same: "earned acts c \<Longrightarrow> a \<noteq> Act_Reset \<Longrightarrow> (\<And>d. carry a d = d) \<Longrightarrow> earned (acts @ [a]) c"
  by (rule earned_later) auto

lemma earned_copy:
  "earned acts c \<Longrightarrow> a \<noteq> Act_Reset \<Longrightarrow> (\<And>d. carry a d = d) \<Longrightarrow> ac_folder c' = ac_folder c \<Longrightarrow>
    ac_expires c' = ac_expires c \<Longrightarrow> ac_device c' = ac_device c \<Longrightarrow> earned (acts @ [a]) c'"
  by (rule earned_later) simp_all

lemma earned_migrate:
  assumes "earned acts c"
  shows "earned (acts @ [Act_Migrate p d])
    (if ac_device c = Some (str_strip p) \<and> str_strip d \<noteq> [] then c\<lparr>ac_device := Some (str_strip d)\<rparr> else c)"
  by (rule earned_later [OF assms]) auto

lemma earned_step:
  assumes "unlock_step f cf h db a db'" and "codes_ok db" and "\<forall>c \<in> set (ud_codes db). earned acts c"
  shows "\<forall>c \<in> set (ud_codes db'). earned (acts @ [a]) c"
  using assms
proof (induction rule: unlock_step.induct)
  case (Issue fresh now p ttl db db' r)
  have "earned (acts @ [Act_Issue r]) c" if "c \<in> set (ud_codes db)" for c
    using Issue.prems(2) that by (auto intro: earned_same)
  with Issue.hyps show ?case
    by (auto simp: generate_code_def Let_def split: if_splits) (simp add: earned_def)
next
  case (Revoke n db db' b evs)
  have "earned (acts @ [Act_Revoke n b]) c'" if "c \<in> set (ud_codes db)" "c' = c \<or> c' = c\<lparr>ac_revoked := True\<rparr>" for c c'
    using Revoke.prems(2) that by (intro earned_copy [of acts c]) auto
  with Revoke.hyps show ?case
    by (auto simp: revoke_code_def set_update_code split: option.splits if_splits)
next
  case (Redeem now s d db db' r evs)
  have same: "earned (acts @ [Act_Redeem now s d r]) c" if "c \<in> set (ud_codes db)" for c
    using Redeem that by (auto intro: earned_same)
  show ?case
  proof (cases "ud_codes db' = ud_codes db")
    case True
    with same show ?thesis by simp
  next
    case False
    with Redeem.hyps obtain c where f: "find (\<lambda>c. ac_hash c = h (str_strip s)) (ud_codes db) = Some c"
      by (auto simp: redeem_code_def Let_def split: option.splits if_splits)
    note c1 = find_Some_in [OF f]
    from Redeem.hyps False f have c: "str_strip d \<noteq> []" "now < ac_expires c" "r = Redeem_Ok (ac_folder c)"
      "ud_codes db' = update_code (\<lambda>x. ac_id x = ac_id c) (\<lambda>x. x\<lparr>ac_device := Some (str_strip d), ac_redeemed := Some now\<rparr>) (ud_codes db)"
      by (auto simp: redeem_code_def Let_def split: option.splits if_splits)
    have "x = c" if "x \<in> set (ud_codes db)" "ac_id x = ac_id c" for x
      using that c1 Redeem.prems(1) by (auto simp: codes_ok_def distinct_map inj_on_def)
    moreover have "earned (acts @ [Act_Redeem now s d r]) (c\<lparr>ac_device := Some (str_strip d), ac_redeemed := Some now\<rparr>)"
      by (rule earnedI [of _ "str_strip d" _ acts now s d "[]"]) (use c(1-3) in auto)
    ultimately show ?thesis using same by (auto simp: c(4) set_update_code)
  qed
next
  case (Migrate p d db db' n)
  note keep = earned_migrate [of acts _ p d]
  show ?case
  proof
    fix c' assume c': "c' \<in> set (ud_codes db')"
    from Migrate.hyps c' consider
        (moved) c where "c \<in> set (ud_codes db)" "str_strip d \<noteq> []"
          "c' = (if ac_device c = Some (str_strip p) then c\<lparr>ac_device := Some (str_strip d)\<rparr> else c)"
      | (same) "c' \<in> set (ud_codes db)" "str_strip p = [] \<or> str_strip d = [] \<or> str_strip p = str_strip d"
      by (auto simp: migrate_device_id_def Let_def set_update_code split: if_splits)
    then show "earned (acts @ [Act_Migrate p d]) c'"
    proof cases
      case (moved c)
      with keep [of c] Migrate.prems(2) show ?thesis by (simp split: if_splits)
    next
      case same
      with Migrate.prems(2) have e: "earned acts c'" by blast
      show ?thesis by (rule earned_later [OF e]) (use same in auto)
    qed
  qed
qed (auto simp: mark_premium_folder_def unmark_premium_folder_def mark_premium_resource_def unmark_premium_resource_def
      reset_unlock_db_def empty_unlock_db_def Let_def earned_same split: option.splits if_splits)

lemma earned_run:
  "unlock_run f cf h db acts db' \<Longrightarrow> db = empty_unlock_db \<Longrightarrow> \<forall>c \<in> set (ud_codes db'). earned acts c"
proof (induction rule: unlock_run.induct)
  case (Run_Nil db)
  then show ?case by (simp add: empty_unlock_db_def)
next
  case (Run_Snoc db acts db1 a db2)
  with codes_ok_run codes_ok_empty earned_step show ?case by metis
qed

section \<open>A code serves one device\<close>

text \<open>The row of the code is held by the device, or the device its grants were carried to.\<close>

definition holds :: "string \<Rightarrow> string \<Rightarrow> string \<Rightarrow> unlock_db \<Rightarrow> bool" where
  "holds hs g d db \<longleftrightarrow> d \<noteq> [] \<and> (\<exists>c \<in> set (ud_codes db). ac_hash c = hs \<and> ac_folder c = g \<and> ac_device c = Some d)"

lemma run_Cons_append:
  "unlock_run f cf h db0 acts db \<Longrightarrow> acts = xs @ a # ys \<Longrightarrow>
    \<exists>db1 db2. unlock_run f cf h db0 xs db1 \<and> unlock_step f cf h db1 a db2 \<and> unlock_run f cf h db2 ys db"
proof (induction arbitrary: ys rule: unlock_run.induct)
  case (Run_Nil db)
  then show ?case by simp
next
  case (Run_Snoc db0 acts db1 b db2)
  show ?case
  proof (cases ys rule: rev_cases)
    case Nil
    with Run_Snoc show ?thesis by (auto intro: unlock_run.Run_Nil)
  next
    case (snoc zs z)
    with Run_Snoc.prems have "acts = xs @ a # zs" "z = b" by auto
    with Run_Snoc.IH Run_Snoc.hyps(2) snoc show ?thesis by (metis unlock_run.Run_Snoc)
  qed
qed

lemma redeem_ok_found:
  assumes "redeem_code h now s d db = (db', Redeem_Ok g, evs)" and "codes_ok db"
  shows "\<exists>c \<in> set (ud_codes db). ac_hash c = h (str_strip s) \<and> ac_folder c = g \<and> \<not> ac_revoked c \<and> now < ac_expires c \<and>
    str_strip d \<noteq> [] \<and> (held c = None \<or> held c = Some (str_strip d)) \<and> holds (h (str_strip s)) g (str_strip d) db'"
proof -
  from assms(1) obtain c where c: "find (\<lambda>c. ac_hash c = h (str_strip s)) (ud_codes db) = Some c" "str_strip d \<noteq> []"
    "\<not> ac_revoked c" "now < ac_expires c" "g = ac_folder c"
    by (auto simp: redeem_code_def Let_def split: option.splits if_splits)
  note f = find_Some_in [OF c(1)]
  show ?thesis
  proof (cases "held c")
    case None
    with assms(1) c have "ud_codes db' = update_code (\<lambda>x. ac_id x = ac_id c)
        (\<lambda>x. x\<lparr>ac_device := Some (str_strip d), ac_redeemed := Some now\<rparr>) (ud_codes db)"
      by (auto simp: redeem_code_def Let_def split: if_splits)
    then have "c\<lparr>ac_device := Some (str_strip d), ac_redeemed := Some now\<rparr> \<in> set (ud_codes db')"
      using f by (force simp: set_update_code)
    then have "holds (h (str_strip s)) g (str_strip d) db'"
      unfolding holds_def using c f by (intro conjI bexI) auto
    with None c f show ?thesis by auto
  next
    case (Some d')
    with assms(1) c have "d' = str_strip d" "db' = db" by (auto simp: redeem_code_def Let_def split: if_splits)
    moreover from Some have "ac_device c = Some d'" by (auto simp: held_def split: option.splits if_splits)
    ultimately show ?thesis using c f Some by (auto simp: holds_def)
  qed
qed

lemma update_code_keeps: "c \<in> set cs \<Longrightarrow> \<not> P c \<Longrightarrow> c \<in> set (update_code P g cs)"
  by (force simp: set_update_code)

lemma update_code_hit: "c \<in> set cs \<Longrightarrow> P c \<Longrightarrow> g c \<in> set (update_code P g cs)"
  by (force simp: set_update_code)

lemma holds_step:
  assumes "unlock_step f cf h db a db'" and "codes_ok db" and "holds hs g d db" and "a \<noteq> Act_Reset"
  shows "holds hs g (carry a d) db'"
proof -
  from assms(3) obtain c where c: "d \<noteq> []" "c \<in> set (ud_codes db)" "ac_hash c = hs" "ac_folder c = g" "ac_device c = Some d"
    by (auto simp: holds_def)
  have kept: "holds hs g d db2" if "c \<in> set (ud_codes db2)" for db2
    using c that by (auto simp: holds_def)
  from assms(1) assms(4) show ?thesis
  proof (cases rule: unlock_step.cases)
    case (Revoke n b evs)
    then have "c \<in> set (ud_codes db') \<or> c\<lparr>ac_revoked := True\<rparr> \<in> set (ud_codes db')"
      using c(2) by (auto simp: revoke_code_def set_update_code split: option.splits if_splits)
    moreover have "holds hs g d db'" if "c\<lparr>ac_revoked := True\<rparr> \<in> set (ud_codes db')"
      unfolding holds_def using c that by (intro conjI bexI [of _ "c\<lparr>ac_revoked := True\<rparr>"]) simp_all
    ultimately show ?thesis using kept Revoke by auto
  next
    case (Redeem now s d' r evs)
    have "c \<in> set (ud_codes db')"
    proof (cases "ud_codes db' = ud_codes db")
      case True
      with c show ?thesis by simp
    next
      case False
      with Redeem obtain x where x: "find (\<lambda>c. ac_hash c = h (str_strip s)) (ud_codes db) = Some x"
        by (auto simp: redeem_code_def Let_def split: option.splits if_splits)
      with False Redeem have x2: "held x = None" "ud_codes db' = update_code (\<lambda>y. ac_id y = ac_id x)
          (\<lambda>y. y\<lparr>ac_device := Some (str_strip d'), ac_redeemed := Some now\<rparr>) (ud_codes db)"
        by (auto simp: redeem_code_def Let_def split: option.splits if_splits)
      then have "x \<noteq> c" using c by (auto simp: held_def)
      then have "ac_id c \<noteq> ac_id x"
        using find_Some_in [OF x] c(2) assms(2) by (auto simp: codes_ok_def distinct_map inj_on_def)
      with c(2) x2(2) show ?thesis by (simp add: update_code_keeps)
    qed
    with kept Redeem show ?thesis by simp
  next
    case (Migrate p d2 n)
    show ?thesis
    proof (cases "d = str_strip p \<and> str_strip d2 \<noteq> [] \<and> str_strip p \<noteq> str_strip d2")
      case True
      with Migrate c have "ud_codes db' = update_code (\<lambda>c. ac_device c = Some (str_strip p))
          (\<lambda>c. c\<lparr>ac_device := Some (str_strip d2)\<rparr>) (ud_codes db)"
        by (auto simp: migrate_device_id_def Let_def split: if_splits)
      with True c update_code_hit [of c "ud_codes db" "\<lambda>c. ac_device c = Some (str_strip p)"]
      have "c\<lparr>ac_device := Some (str_strip d2)\<rparr> \<in> set (ud_codes db')" by simp
      with True c Migrate show ?thesis
        unfolding holds_def by (intro conjI bexI [of _ "c\<lparr>ac_device := Some (str_strip d2)\<rparr>"]) simp_all
    next
      case False
      with Migrate c have "c \<in> set (ud_codes db')"
        by (auto simp: migrate_device_id_def Let_def update_code_keeps split: if_splits)
      with False kept Migrate show ?thesis by auto
    qed
  qed (use c kept in \<open>auto simp: mark_premium_folder_def unmark_premium_folder_def mark_premium_resource_def
      unmark_premium_resource_def generate_code_def Let_def split: option.splits if_splits\<close>)
qed

lemma holds_run:
  "unlock_run f cf h db acts db' \<Longrightarrow> codes_ok db \<Longrightarrow> holds hs g d db \<Longrightarrow> Act_Reset \<notin> set acts \<Longrightarrow>
    holds hs g (fold carry acts d) db'"
proof (induction rule: unlock_run.induct)
  case (Run_Snoc db acts db1 a db2)
  with holds_step [OF Run_Snoc.hyps(2) codes_ok_run [OF Run_Snoc.hyps(1)]] show ?case by auto
qed simp

definition demo_db :: unlock_db where
  "demo_db = fst (mark_premium_resource 1 ''/p'' ''P'' [] empty_unlock_db)"

definition demo_code :: access_code where
  "demo_code = \<lparr>ac_id = 1, ac_folder = ''/p'', ac_hash = ''k'', ac_created = 2, ac_expires = 2 + 86400,
     ac_device = None, ac_redeemed = None, ac_revoked = False\<rparr>"

definition demo_issued :: unlock_db where
  "demo_issued = demo_db\<lparr>ud_codes := [demo_code], ud_seq := 1\<rparr>"

definition demo_redeemed :: unlock_db where
  "demo_redeemed = demo_issued\<lparr>ud_codes := [demo_code\<lparr>ac_device := Some ''d'', ac_redeemed := Some 3\<rparr>]\<rparr>"

definition demo_conf :: share_conf where
  "demo_conf = \<lparr>shared_roots = [], hidden_paths = []\<rparr>"

definition demo_acts :: "unlock_act list" where
  "demo_acts = [Act_Host, Act_Issue \<lparr>cr_id = 1, cr_code = ''k'', cr_folder = ''/p'', cr_created = 2, cr_expires = 2 + 86400\<rparr>,
     Act_Redeem 3 ''k'' ''d'' (Redeem_Ok ''/p'')]"

lemma unlock_strip: "str_strip ''k'' = ''k''" "str_strip ''d'' = ''d''" "str_strip ''P'' = ''P''" "str_strip ''/p'' = ''/p''"
  "str_strip ''/p/x'' = ''/p/x''"
  by (simp_all add: str_strip_def is_space_def char_eval)

lemma demo_folder: "normalize_folder ''/p'' = ''/p''" "normalize_folder ''/p/x'' = ''/p/x''"
  by (simp_all add: normalize_folder_def unlock_strip to_slash_def replace_char_def starts_with_def ends_with_def single_slashes_id)

lemmas demo_strings = unlock_strip demo_folder

lemma demo_db_eq: "demo_db = empty_unlock_db\<lparr>ud_resources := [(''/p'', \<lparr>pm_label = JStr ''P'', pm_note = JStr [], pm_created = JReal 1\<rparr>)]\<rparr>"
  by (simp add: demo_db_def mark_premium_resource_def demo_strings empty_unlock_db_def)

lemma demo_premium: "is_premium_folder f cf ''/p'' (db\<lparr>ud_resources := ud_resources demo_db\<rparr>)"
  by (simp add: is_premium_folder_def get_premium_resource_info_def demo_strings demo_db_eq)

lemma demo_unlock_run: "unlock_run f cf id empty_unlock_db demo_acts demo_redeemed"
proof -
  have m: "unlock_step f cf id empty_unlock_db Act_Host demo_db"
    by (rule unlock_step.Mark_Resource [where now = 1 and p = "''/p''" and label = "''P''" and price = "[]" and b = True])
      (simp add: demo_db_def mark_premium_resource_def demo_strings Let_def)
  have "is_premium_folder f cf ''/p'' demo_db" using demo_premium [of f cf demo_db] by simp
  then have g: "unlock_step f cf id demo_db
      (Act_Issue \<lparr>cr_id = 1, cr_code = ''k'', cr_folder = ''/p'', cr_created = 2, cr_expires = 2 + 86400\<rparr>) demo_issued"
    by (intro unlock_step.Issue [where fresh = "''k''" and now = 2 and p = "''/p''" and ttl = 1])
      (simp add: generate_code_def demo_strings demo_issued_def demo_db_eq empty_unlock_db_def demo_code_def Let_def)
  have r: "unlock_step f cf id demo_issued (Act_Redeem 3 ''k'' ''d'' (Redeem_Ok ''/p'')) demo_redeemed"
    by (rule unlock_step.Redeem [where evs = "[Premium_Redeemed ''d'' ''/p'' ''p'']"])
      (simp add: redeem_code_def demo_strings demo_issued_def demo_redeemed_def demo_code_def held_def last_name_def rstrip_of_def Let_def)
  from unlock_run.Run_Snoc [OF unlock_run.Run_Snoc [OF unlock_run.Run_Snoc [OF unlock_run.Run_Nil m] g] r]
  show ?thesis by (simp add: demo_acts_def)
qed

section \<open>Properties\<close>



text \<open>In every run from an empty database, with no reset between two successful
  redemptions of a code, both name the same folder and the second device is the first one, or the one its
  grants were carried to; a redemption succeeds only for a code that is neither revoked nor expired, and
  opens the folder for the device until the code expires.\<close>

theorem premium_code_single_device:
  assumes "unlock_run f cf h empty_unlock_db (pre @ Act_Redeem t1 s1 d1 (Redeem_Ok g1) # mid @
      Act_Redeem t2 s2 d2 (Redeem_Ok g2) # post) db"
    and "h (str_strip s1) = h (str_strip s2)" and "Act_Reset \<notin> set mid"
  shows "str_strip d2 = fold carry mid (str_strip d1) \<and> g2 = g1 \<and>
    (\<exists>db2 c. unlock_run f cf h empty_unlock_db (pre @ Act_Redeem t1 s1 d1 (Redeem_Ok g1) # mid) db2 \<and> c \<in> set (ud_codes db2) \<and>
       ac_hash c = h (str_strip s2) \<and> \<not> ac_revoked c \<and> t2 < ac_expires c \<and> held c = Some (str_strip d2))"
proof -
  let ?xs = "pre @ Act_Redeem t1 s1 d1 (Redeem_Ok g1) # mid"
  from run_Cons_append [OF assms(1), of ?xs] obtain db3 db4 where r2: "unlock_run f cf h empty_unlock_db ?xs db3"
    "unlock_step f cf h db3 (Act_Redeem t2 s2 d2 (Redeem_Ok g2)) db4" by auto
  from run_Cons_append [OF r2(1) refl] obtain db1 db2 where r1: "unlock_run f cf h empty_unlock_db pre db1"
    "unlock_step f cf h db1 (Act_Redeem t1 s1 d1 (Redeem_Ok g1)) db2" "unlock_run f cf h db2 mid db3" by blast
  note ok = codes_ok_run [OF r1(1) codes_ok_empty] codes_ok_run [OF r2(1) codes_ok_empty]
  from r1(2) r2(2) obtain evs1 evs2 where q: "redeem_code h t1 s1 d1 db1 = (db2, Redeem_Ok g1, evs1)"
    "redeem_code h t2 s2 d2 db3 = (db4, Redeem_Ok g2, evs2)" by (auto simp: unlock_redeem_iff)
  from redeem_ok_found [OF q(1) ok(1)] have "holds (h (str_strip s1)) g1 (str_strip d1) db2" by blast
  from holds_run [OF r1(3) codes_ok_step [OF r1(2) ok(1)] this assms(3)] obtain c where c: "c \<in> set (ud_codes db3)"
    "ac_hash c = h (str_strip s1)" "ac_folder c = g1" "held c = Some (fold carry mid (str_strip d1))"
    by (auto simp: holds_def held_def)
  from redeem_ok_found [OF q(2) ok(2)] obtain c2 where c2: "c2 \<in> set (ud_codes db3)" "ac_hash c2 = h (str_strip s2)"
    "ac_folder c2 = g2" "\<not> ac_revoked c2" "t2 < ac_expires c2" "held c2 = None \<or> held c2 = Some (str_strip d2)" by blast
  have "c2 = c" using c c2 assms(2) ok(2) by (auto simp: codes_ok_def distinct_map inj_on_def)
  with c c2 r2(1) show ?thesis by auto
qed

theorem premium_code_single_device_witness:
  "unlock_run (plain_fs [] []) demo_conf id empty_unlock_db (demo_acts @ [Act_Redeem 4 ''k'' ''d'' (Redeem_Ok ''/p'')]) demo_redeemed
   \<and> str_strip ''d'' = fold carry [] (str_strip ''d'')"
proof -
  have "unlock_step (plain_fs [] []) demo_conf id demo_redeemed (Act_Redeem 4 ''k'' ''d'' (Redeem_Ok ''/p'')) demo_redeemed"
    by (rule unlock_step.Redeem [where evs = "[]"])
      (simp add: redeem_code_def demo_strings demo_redeemed_def demo_code_def held_def)
  from unlock_run.Run_Snoc [OF demo_unlock_run this]
  have r: "unlock_run (plain_fs [] []) demo_conf id empty_unlock_db (demo_acts @ [Act_Redeem 4 ''k'' ''d'' (Redeem_Ok ''/p'')]) demo_redeemed" .
  moreover from r have "str_strip ''d'' = fold carry [] (str_strip ''d'')"
    using premium_code_single_device [of _ _ id "take 2 demo_acts" 3 "''k''" "''d''" "''/p''" "[]" 4 "''k''" "''d''" "''/p''" "[]" demo_redeemed]
    by (simp add: demo_acts_def)
  ultimately show ?thesis ..
qed

end
