(* ===== verification/Web_Sessions.thy ===== *)
theory Web_Sessions
  imports Py_Prelude
begin

text \<open>
  The persistent web sessions (\<^verbatim>\<open>core/web_sessions.py\<close>). The SQLite table is the list of its rows in order of
  insertion; an operation that raises rolls its transaction back. \<open>gen\<close> is the security generation the store
  reads at the call. The encrypted copy of the database, lazy initialization and the formatting of time
  stamps are not modelled.
\<close>

record ws_row =
  wr_id :: string
  wr_hash :: string
  wr_role :: string
  wr_generation :: int
  wr_created :: time
  wr_seen :: time
  wr_expires :: time
  wr_revoked :: "time option"
  wr_browser :: string
  wr_os :: string

record web_session =
  se_id :: string
  se_role :: string
  se_generation :: int
  se_created :: time
  se_seen :: time
  se_expires :: time
  se_idle_expires :: time
  se_browser :: string
  se_os :: string

datatype session_lookup = Lookup_Invalid | Lookup_Revoked | Lookup_Expired | Lookup_Valid web_session

datatype session_error = Session_Capacity | Session_Integrity | Session_Key_Error

record web_session_store =
  ws_maximum :: nat
  ws_rows :: "ws_row list"

definition max_web_sessions :: nat where "max_web_sessions = 100"
definition idle_seconds :: time where "idle_seconds = 30 * 60"
definition absolute_seconds :: time where "absolute_seconds = 12 * 60 * 60"
definition touch_interval :: time where "touch_interval = 60"

definition row_session :: "ws_row \<Rightarrow> web_session" where
  "row_session r =
     \<lparr>se_id = wr_id r, se_role = wr_role r, se_generation = wr_generation r, se_created = wr_created r, se_seen = wr_seen r,
      se_expires = wr_expires r, se_idle_expires = min (wr_expires r) (wr_seen r + idle_seconds),
      se_browser = wr_browser r, se_os = wr_os r\<rparr>"

text \<open>The \<open>WHERE\<close> of the deletion.\<close>

definition outdated :: "time \<Rightarrow> ws_row \<Rightarrow> bool" where
  "outdated now r \<longleftrightarrow> wr_expires r < now \<or> wr_seen r + idle_seconds < now"

definition ws_cleanup :: "time \<Rightarrow> web_session_store \<Rightarrow> web_session_store \<times> nat" where
  "ws_cleanup now st = (st\<lparr>ws_rows := filter (\<lambda>r. \<not> outdated now r) (ws_rows st)\<rparr>, length (filter (outdated now) (ws_rows st)))"

definition unrevoked :: "ws_row list \<Rightarrow> nat" where
  "unrevoked rows = length (filter (\<lambda>r. wr_revoked r = None) rows)"

definition lookup_by_id :: "string \<Rightarrow> web_session_store \<Rightarrow> session_error + web_session" where
  "lookup_by_id i st = (case find (\<lambda>r. wr_id r = i) (ws_rows st) of None \<Rightarrow> Inl Session_Key_Error | Some r \<Rightarrow> Inr (row_session r))"

text \<open>\<open>rid\<close> and \<open>token\<close> are the random values of the call; the columns \<open>id\<close> and \<open>token_hash\<close> are unique.\<close>

definition ws_create ::
    "(string \<Rightarrow> string) \<Rightarrow> string \<Rightarrow> string \<Rightarrow> time \<Rightarrow> int \<Rightarrow> string \<Rightarrow> string \<Rightarrow> web_session_store \<Rightarrow>
     web_session_store \<times> (session_error + web_session \<times> string)" where
  "ws_create h rid token now gen browser os st =
     (let sid = ''nws_'' @ rid;
          rows = filter (\<lambda>r. \<not> outdated now r) (ws_rows st);
          row = \<lparr>wr_id = sid, wr_hash = h token, wr_role = ''web_read_only'', wr_generation = gen, wr_created = now, wr_seen = now,
                 wr_expires = now + absolute_seconds, wr_revoked = None, wr_browser = take 64 browser, wr_os = take 64 os\<rparr>
      in if ws_maximum st \<le> unrevoked rows then (st, Inl Session_Capacity)
         else if list_ex (\<lambda>r. wr_id r = sid \<or> wr_hash r = h token) rows then (st, Inl Session_Integrity)
         else (let st' = st\<lparr>ws_rows := rows @ [row]\<rparr>
               in case lookup_by_id sid st' of Inl e \<Rightarrow> (st', Inl e) | Inr s \<Rightarrow> (st', Inr (s, token))))"

definition ws_update :: "(ws_row \<Rightarrow> bool) \<Rightarrow> (ws_row \<Rightarrow> ws_row) \<Rightarrow> web_session_store \<Rightarrow> web_session_store" where
  "ws_update P g st = st\<lparr>ws_rows := map (\<lambda>r. if P r then g r else r) (ws_rows st)\<rparr>"

definition ws_get ::
    "(string \<Rightarrow> string) \<Rightarrow> time \<Rightarrow> int \<Rightarrow> bool \<Rightarrow> string \<Rightarrow> web_session_store \<Rightarrow> web_session_store \<times> session_lookup" where
  "ws_get h now gen touch token st =
     (if token = [] then (st, Lookup_Invalid)
      else (case find (\<lambda>r. wr_hash r = h token) (ws_rows st) of
              None \<Rightarrow> (st, Lookup_Invalid)
            | Some r \<Rightarrow>
                if wr_revoked r \<noteq> None \<or> wr_generation r \<noteq> gen then (st, Lookup_Revoked)
                else if wr_expires r < now \<or> wr_seen r + idle_seconds < now then (st, Lookup_Expired)
                else if touch \<and> touch_interval \<le> now - wr_seen r
                then (let st' = ws_update (\<lambda>x. wr_id x = wr_id r \<and> wr_seen x = wr_seen r) (\<lambda>x. x\<lparr>wr_seen := now\<rparr>) st
                      in (st', case find (\<lambda>x. wr_id x = wr_id r) (ws_rows st') of
                                 None \<Rightarrow> Lookup_Invalid | Some x \<Rightarrow> Lookup_Valid (row_session x)))
                else (st, Lookup_Valid (row_session r))))"

text \<open>The three readings of the clock in \<open>refresh\<close>: the first lookup, the update, the second lookup.\<close>

definition ws_refresh ::
    "(string \<Rightarrow> string) \<Rightarrow> string \<Rightarrow> time \<Rightarrow> time \<Rightarrow> time \<Rightarrow> int \<Rightarrow> int \<Rightarrow> string \<Rightarrow> web_session_store \<Rightarrow>
     web_session_store \<times> (session_error + session_lookup \<times> string option)" where
  "ws_refresh h fresh t1 t2 t3 g1 g3 token st =
     (case ws_get h t1 g1 False token st of
        (st, Lookup_Valid s) \<Rightarrow>
          (let hit = (\<lambda>r. wr_id r = se_id s \<and> wr_hash r = h token)
           in if list_ex hit (ws_rows st) \<and> list_ex (\<lambda>r. wr_hash r = h fresh \<and> \<not> hit r) (ws_rows st)
              then (st, Inl Session_Integrity)
              else if \<not> list_ex hit (ws_rows st) then (st, Inr (Lookup_Invalid, None))
              else (let st = ws_update hit (\<lambda>r. r\<lparr>wr_hash := h fresh, wr_seen := t2\<rparr>) st;
                        (st, l) = ws_get h t3 g3 False fresh st
                    in (st, Inr (l, Some fresh))))
      | (st, l) \<Rightarrow> (st, Inr (l, None)))"

definition ws_revoke :: "time \<Rightarrow> string \<Rightarrow> web_session_store \<Rightarrow> web_session_store \<times> bool" where
  "ws_revoke now sid st =
     (ws_update (\<lambda>r. wr_id r = sid \<and> wr_revoked r = None) (\<lambda>r. r\<lparr>wr_revoked := Some now\<rparr>) st,
      length (filter (\<lambda>r. wr_id r = sid \<and> wr_revoked r = None) (ws_rows st)) = 1)"

definition ws_revoke_all :: "time \<Rightarrow> web_session_store \<Rightarrow> web_session_store \<times> nat" where
  "ws_revoke_all now st =
     (ws_update (\<lambda>r. wr_revoked r = None) (\<lambda>r. r\<lparr>wr_revoked := Some now\<rparr>) st, unrevoked (ws_rows st))"

definition is_active_id :: "time \<Rightarrow> int \<Rightarrow> string \<Rightarrow> web_session_store \<Rightarrow> bool" where
  "is_active_id now gen sid st =
     (case find (\<lambda>r. wr_id r = sid) (ws_rows st) of None \<Rightarrow> False
      | Some r \<Rightarrow> wr_revoked r = None \<and> wr_generation r = gen \<and> now \<le> wr_expires r \<and> now \<le> wr_seen r + idle_seconds)"

definition ws_list :: "time \<Rightarrow> int \<Rightarrow> web_session_store \<Rightarrow> web_session_store \<times> web_session list" where
  "ws_list now gen st =
     (let (st, n) = ws_cleanup now st;
          rows = sort_key (\<lambda>r. - wr_created r) (filter (\<lambda>r. wr_revoked r = None) (ws_rows st))
      in (st, map row_session (filter (\<lambda>r. wr_generation r = gen) rows)))"

definition ws_reset_all :: "web_session_store \<Rightarrow> web_session_store \<times> (string \<times> nat) list" where
  "ws_reset_all st = (st\<lparr>ws_rows := []\<rparr>, [(''web_sessions'', length (ws_rows st))])"

section \<open>Runs\<close>

datatype ws_op =
    Ws_Cleanup time
  | Ws_Create string string time int string string
  | Ws_Get time int bool string
  | Ws_Refresh string time time time int int string
  | Ws_Revoke time string
  | Ws_Revoke_All time
  | Ws_List time int
  | Ws_Reset

fun ws_apply :: "(string \<Rightarrow> string) \<Rightarrow> ws_op \<Rightarrow> web_session_store \<Rightarrow> web_session_store" where
  "ws_apply h (Ws_Cleanup now) st = fst (ws_cleanup now st)"
| "ws_apply h (Ws_Create rid token now gen browser os) st = fst (ws_create h rid token now gen browser os st)"
| "ws_apply h (Ws_Get now gen touch token) st = fst (ws_get h now gen touch token st)"
| "ws_apply h (Ws_Refresh fresh t1 t2 t3 g1 g3 token) st = fst (ws_refresh h fresh t1 t2 t3 g1 g3 token st)"
| "ws_apply h (Ws_Revoke now sid) st = fst (ws_revoke now sid st)"
| "ws_apply h (Ws_Revoke_All now) st = fst (ws_revoke_all now st)"
| "ws_apply h (Ws_List now gen) st = fst (ws_list now gen st)"
| "ws_apply h Ws_Reset st = fst (ws_reset_all st)"

fun op_times :: "ws_op \<Rightarrow> time list" where
  "op_times (Ws_Cleanup t) = [t]"
| "op_times (Ws_Create _ _ t _ _ _) = [t]"
| "op_times (Ws_Get t _ _ _) = [t]"
| "op_times (Ws_Refresh _ t1 t2 t3 _ _ _) = [t1, t2, t3]"
| "op_times (Ws_Revoke t _) = [t]"
| "op_times (Ws_Revoke_All t) = [t]"
| "op_times (Ws_List t _) = [t]"
| "op_times Ws_Reset = []"

fun op_gens :: "ws_op \<Rightarrow> int list" where
  "op_gens (Ws_Create _ _ _ g _ _) = [g]"
| "op_gens (Ws_Get _ g _ _) = [g]"
| "op_gens (Ws_Refresh _ _ _ _ g1 g3 _) = [g1, g3]"
| "op_gens (Ws_List _ g) = [g]"
| "op_gens _ = []"

fun op_tokens :: "ws_op \<Rightarrow> string list" where
  "op_tokens (Ws_Create _ token _ _ _ _) = [token]"
| "op_tokens (Ws_Refresh fresh _ _ _ _ _ _) = [fresh]"
| "op_tokens _ = []"

text \<open>Neither the clock nor the security generation goes back.\<close>

fun forward :: "time \<Rightarrow> int \<Rightarrow> ws_op list \<Rightarrow> bool" where
  "forward t g [] \<longleftrightarrow> True"
| "forward t g (x # xs) \<longleftrightarrow> sorted (t # op_times x) \<and> sorted (g # op_gens x) \<and>
     forward (last (t # op_times x)) (last (g # op_gens x)) xs"

definition rows_ok :: "web_session_store \<Rightarrow> bool" where
  "rows_ok st \<longleftrightarrow> distinct (map wr_id (ws_rows st)) \<and> distinct (map wr_hash (ws_rows st)) \<and>
     unrevoked (ws_rows st) \<le> ws_maximum st \<and> (\<forall>r \<in> set (ws_rows st). wr_expires r = wr_created r + absolute_seconds)"

definition empty_sessions :: "nat \<Rightarrow> web_session_store" where
  "empty_sessions n = \<lparr>ws_maximum = n, ws_rows = []\<rparr>"

section \<open>The table stays well formed\<close>

lemma unrevoked_filter: "unrevoked (filter P rows) \<le> unrevoked rows"
  by (induction rows) (auto simp: unrevoked_def)

lemma rows_ok_filter: "rows_ok st \<Longrightarrow> rows_ok (st\<lparr>ws_rows := filter P (ws_rows st)\<rparr>)"
  using unrevoked_filter [of P "ws_rows st"] by (auto simp: rows_ok_def distinct_map_filter)

lemma unrevoked_map:
  "(\<And>r. wr_revoked (g r) = None \<Longrightarrow> wr_revoked r = None) \<Longrightarrow> unrevoked (map (\<lambda>r. if P r then g r else r) rows) \<le> unrevoked rows"
  by (induction rows) (auto simp: unrevoked_def le_SucI)

lemma map_cond_same: "(\<And>r. f (g r) = f r) \<Longrightarrow> map f (map (\<lambda>r. if P r then g r else r) rows) = map f rows"
  by (induction rows) auto

lemma rows_ok_update:
  assumes ok: "rows_ok st" and g: "\<And>r. wr_id (g r) = wr_id r" "\<And>r. wr_hash (g r) = wr_hash r"
    "\<And>r. wr_expires (g r) = wr_expires r" "\<And>r. wr_created (g r) = wr_created r"
    "\<And>r. wr_revoked (g r) = None \<Longrightarrow> wr_revoked r = None"
  shows "rows_ok (ws_update P g st)"
  using ok unrevoked_map [of g P "ws_rows st", OF g(5)]
  unfolding rows_ok_def ws_update_def
  by (auto simp: map_cond_same [of wr_id g, OF g(1)] map_cond_same [of wr_hash g, OF g(2)] g simp del: map_map)

lemma rows_ok_create: "rows_ok st \<Longrightarrow> rows_ok (fst (ws_create h rid token now gen browser os st))"
proof -
  assume ok: "rows_ok st"
  let ?rows = "filter (\<lambda>r. \<not> outdated now r) (ws_rows st)"
  from rows_ok_filter [OF ok, of "\<lambda>r. \<not> outdated now r"] have f: "rows_ok (st\<lparr>ws_rows := ?rows\<rparr>)" .
  show ?thesis
    using ok f by (auto simp: ws_create_def Let_def rows_ok_def unrevoked_def list_ex_iff split: sum.split)
qed

lemma rows_ok_get: "rows_ok st \<Longrightarrow> rows_ok (fst (ws_get h now gen touch token st))"
  by (auto simp: ws_get_def Let_def split: option.split intro!: rows_ok_update)

lemma get_untouched: "fst (ws_get h now gen False token st) = st"
  by (simp add: ws_get_def Let_def split: option.split)

lemma get_valid:
  assumes "ws_get h now gen False token st = (st', Lookup_Valid s)"
  shows "\<exists>r \<in> set (ws_rows st). wr_hash r = h token \<and> s = row_session r \<and> st' = st \<and> token \<noteq> [] \<and>
    wr_revoked r = None \<and> wr_generation r = gen \<and> \<not> outdated now r"
  using assms by (auto simp: ws_get_def outdated_def split: if_splits option.splits dest!: find_Some_in)

text \<open>What a successful refresh does: one row gets the new hash, and no other row had it.\<close>

lemma refresh_cases:
  assumes "rows_ok st"
  obtains (unchanged) "fst (ws_refresh h fresh t1 t2 t3 g1 g3 token st) = st"
  | (rotated) r where "r \<in> set (ws_rows st)" "wr_hash r = h token" "wr_revoked r = None" "wr_generation r = g1" "\<not> outdated t1 r"
      "\<forall>x \<in> set (ws_rows st). wr_hash x = h fresh \<longrightarrow> x = r"
      "fst (ws_refresh h fresh t1 t2 t3 g1 g3 token st) = ws_update (\<lambda>x. x = r) (\<lambda>x. x\<lparr>wr_hash := h fresh, wr_seen := t2\<rparr>) st"
proof -
  obtain st1 l where g: "ws_get h t1 g1 False token st = (st1, l)" by fastforce
  then have st1: "st1 = st" using get_untouched [of h t1 g1 token st] by simp
  show thesis
  proof (cases l)
    case (Lookup_Valid s)
    from get_valid [OF g [unfolded Lookup_Valid]] obtain r where r: "r \<in> set (ws_rows st)" "wr_hash r = h token"
      "s = row_session r" "st1 = st" "wr_revoked r = None" "wr_generation r = g1" "\<not> outdated t1 r" by blast
    let ?hit = "\<lambda>x. wr_id x = se_id s \<and> wr_hash x = h token"
    have hit: "?hit x \<longleftrightarrow> x = r" if "x \<in> set (ws_rows st)" for x
      using that assms r(1-3) by (auto simp: rows_ok_def distinct_map inj_on_def row_session_def)
    then have upd: "ws_update ?hit f st = ws_update (\<lambda>x. x = r) f st" for f by (simp add: ws_update_def)
    have ex: "list_ex ?hit (ws_rows st)" using hit r(1) by (auto simp: list_ex_iff)
    show thesis
    proof (cases "list_ex (\<lambda>x. wr_hash x = h fresh \<and> \<not> ?hit x) (ws_rows st)")
      case True
      with g Lookup_Valid r(4) ex show thesis by (intro unchanged) (simp add: ws_refresh_def Let_def)
    next
      case False
      then have "\<forall>x \<in> set (ws_rows st). wr_hash x = h fresh \<longrightarrow> x = r" using hit by (auto simp: list_ex_iff)
      moreover have "fst (ws_refresh h fresh t1 t2 t3 g1 g3 token st) = ws_update ?hit (\<lambda>x. x\<lparr>wr_hash := h fresh, wr_seen := t2\<rparr>) st"
      proof -
        obtain st2 l2 where g2: "ws_get h t3 g3 False fresh (ws_update ?hit (\<lambda>x. x\<lparr>wr_hash := h fresh, wr_seen := t2\<rparr>) st) = (st2, l2)"
          by fastforce
        with get_untouched have "st2 = ws_update ?hit (\<lambda>x. x\<lparr>wr_hash := h fresh, wr_seen := t2\<rparr>) st" by (metis fst_conv)
        with g g2 ex False show ?thesis by (simp add: ws_refresh_def Let_def Lookup_Valid st1)
      qed
      ultimately show thesis by (intro rotated [OF r(1,2,5,6,7)]) (simp_all only: upd)
    qed
  qed (use g st1 in \<open>auto simp: ws_refresh_def intro: unchanged\<close>)
qed

lemma distinct_map_but_one:
  assumes "distinct (map f xs)" and "\<forall>x \<in> set xs. f x = v \<longrightarrow> x = r"
  shows "distinct (map (\<lambda>x. if x = r then v else f x) xs)"
proof -
  have "distinct xs" "inj_on f (set xs)" using assms(1) by (simp_all add: distinct_map)
  then show ?thesis using assms(2) unfolding distinct_map inj_on_def by metis
qed

lemma rows_ok_rotate:
  assumes ok: "rows_ok st" and r: "r \<in> set (ws_rows st)" and free: "\<forall>x \<in> set (ws_rows st). wr_hash x = hs \<longrightarrow> x = r"
  shows "rows_ok (ws_update (\<lambda>x. x = r) (\<lambda>x. x\<lparr>wr_hash := hs, wr_seen := t\<rparr>) st)"
proof -
  let ?g = "\<lambda>x. if x = r then x\<lparr>wr_hash := hs, wr_seen := t\<rparr> else x"
  let ?st = "ws_update (\<lambda>x. x = r) (\<lambda>x. x\<lparr>wr_hash := hs, wr_seen := t\<rparr>) st"
  have rows: "ws_rows ?st = map ?g (ws_rows st)" "ws_maximum ?st = ws_maximum st" by (simp_all add: ws_update_def)
  have "distinct (map wr_hash (ws_rows st))" using ok by (simp add: rows_ok_def)
  note distinct_map_but_one [OF this free]
  moreover have "map wr_hash (map ?g (ws_rows st)) = map (\<lambda>x. if x = r then hs else wr_hash x) (ws_rows st)" by simp
  ultimately have h: "distinct (map wr_hash (ws_rows ?st))" unfolding rows by metis
  have "map wr_id (map ?g (ws_rows st)) = map wr_id (ws_rows st)" by (rule map_cond_same) simp
  then have i: "distinct (map wr_id (ws_rows ?st))" unfolding rows using ok unfolding rows_ok_def by metis
  have "unrevoked (map ?g (ws_rows st)) \<le> unrevoked (ws_rows st)" by (rule unrevoked_map) simp
  then have u: "unrevoked (ws_rows ?st) \<le> ws_maximum ?st" unfolding rows using ok unfolding rows_ok_def by linarith
  have "wr_expires (?g x) = wr_created (?g x) + absolute_seconds" if "x \<in> set (ws_rows st)" for x
    using ok that unfolding rows_ok_def by auto
  then have "\<forall>x \<in> set (ws_rows ?st). wr_expires x = wr_created x + absolute_seconds" unfolding rows set_map by blast
  with h i u show ?thesis unfolding rows_ok_def by blast
qed

lemma rows_ok_refresh: "rows_ok st \<Longrightarrow> rows_ok (fst (ws_refresh h fresh t1 t2 t3 g1 g3 token st))"
  by (rule refresh_cases [of st h fresh t1 t2 t3 g1 g3 token]) (simp_all add: rows_ok_rotate)

lemma rows_ok_apply: "rows_ok st \<Longrightarrow> rows_ok (ws_apply h op st)"
  by (cases op) (auto simp: ws_cleanup_def rows_ok_filter rows_ok_create rows_ok_get rows_ok_refresh ws_revoke_def ws_revoke_all_def
      ws_list_def ws_reset_all_def unrevoked_def intro!: rows_ok_update, simp_all add: rows_ok_def unrevoked_def)

lemma rows_ok_run: "rows_ok st \<Longrightarrow> rows_ok (fold (ws_apply h) ops st)"
  by (induction ops arbitrary: st) (auto simp: rows_ok_apply)

lemma rows_ok_empty: "rows_ok (empty_sessions n)"
  by (simp add: rows_ok_def empty_sessions_def unrevoked_def)

lemma maximum_apply: "rows_ok st \<Longrightarrow> ws_maximum (ws_apply h op st) = ws_maximum st"
proof (cases op)
  case (Ws_Refresh fresh t1 t2 t3 g1 g3 token)
  assume "rows_ok st"
  then show ?thesis
    by (rule refresh_cases [of st h fresh t1 t2 t3 g1 g3 token]) (simp_all add: Ws_Refresh ws_update_def)
qed (auto simp: ws_cleanup_def ws_create_def ws_get_def ws_update_def ws_revoke_def ws_revoke_all_def ws_list_def ws_reset_all_def
    Let_def split: option.split sum.split)

lemma maximum_run: "rows_ok st \<Longrightarrow> ws_maximum (fold (ws_apply h) ops st) = ws_maximum st"
  by (induction ops arbitrary: st) (auto simp: rows_ok_apply maximum_apply)

section \<open>A token that stopped working stays out\<close>

definition gens_le :: "int \<Rightarrow> web_session_store \<Rightarrow> bool" where
  "gens_le g st \<longleftrightarrow> (\<forall>r \<in> set (ws_rows st). wr_generation r \<le> g)"

text \<open>No row of the token's hash can be looked up as valid, now or later.\<close>

definition dead_token :: "string \<Rightarrow> time \<Rightarrow> int \<Rightarrow> web_session_store \<Rightarrow> bool" where
  "dead_token hs t g st \<longleftrightarrow> (\<forall>r \<in> set (ws_rows st). wr_hash r = hs \<longrightarrow>
     wr_revoked r \<noteq> None \<or> wr_generation r < g \<or> outdated t r)"

lemma outdated_later: "outdated t r \<Longrightarrow> t \<le> t' \<Longrightarrow> outdated t' r"
  by (auto simp: outdated_def)

lemma dead_later: "dead_token hs t g st \<Longrightarrow> t \<le> t' \<Longrightarrow> g \<le> g' \<Longrightarrow> dead_token hs t' g' st"
  by (fastforce simp: dead_token_def intro: outdated_later)

lemma gens_later: "gens_le g st \<Longrightarrow> g \<le> g' \<Longrightarrow> gens_le g' st"
  by (fastforce simp: gens_le_def)

lemma dead_not_valid: "dead_token (h token) t g st \<Longrightarrow> ws_get h t g touch token st \<noteq> (st', Lookup_Valid s)"
proof
  assume d: "dead_token (h token) t g st" and v: "ws_get h t g touch token st = (st', Lookup_Valid s)"
  from v obtain r where "find (\<lambda>r. wr_hash r = h token) (ws_rows st) = Some r" "wr_revoked r = None" "wr_generation r = g"
    "\<not> outdated t r"
    by (auto simp: ws_get_def outdated_def split: if_splits option.splits)
  with d find_Some_in show False by (fastforce simp: dead_token_def)
qed

lemma not_valid_dead:
  assumes "rows_ok st" and "gens_le g st" and "token \<noteq> []"
    and "\<forall>s. snd (ws_get h t g touch token st) \<noteq> Lookup_Valid s"
  shows "dead_token (h token) t g st"
proof (unfold dead_token_def, intro ballI impI)
  fix r assume r: "r \<in> set (ws_rows st)" "wr_hash r = h token"
  then have "find (\<lambda>x. wr_hash x = h token) (ws_rows st) = Some r"
    using find_distinct_key [of wr_hash "ws_rows st" r] assms(1) by (simp add: rows_ok_def)
  moreover have "find (\<lambda>x. wr_id x = wr_id r) (ws_rows (ws_update (\<lambda>x. wr_id x = wr_id r \<and> wr_seen x = wr_seen r)
      (\<lambda>x. x\<lparr>wr_seen := t\<rparr>) st)) \<noteq> None"
  proof -
    have "r\<lparr>wr_seen := t\<rparr> \<in> set (ws_rows (ws_update (\<lambda>x. wr_id x = wr_id r \<and> wr_seen x = wr_seen r) (\<lambda>x. x\<lparr>wr_seen := t\<rparr>) st))"
      using r(1) by (force simp: ws_update_def)
    then show ?thesis unfolding find_None by force
  qed
  ultimately show "wr_revoked r \<noteq> None \<or> wr_generation r < g \<or> outdated t r"
    using assms(2-4) r(1) by (auto simp: ws_get_def Let_def outdated_def gens_le_def split: if_splits option.splits)
qed

lemma touched_found:
  assumes "r \<in> set (ws_rows st)"
  shows "\<exists>x. find (\<lambda>x. wr_id x = wr_id r) (ws_rows (ws_update (\<lambda>x. wr_id x = wr_id r \<and> wr_seen x = wr_seen r) (\<lambda>x. x\<lparr>wr_seen := t\<rparr>) st)) = Some x"
proof -
  have "r\<lparr>wr_seen := t\<rparr> \<in> set (ws_rows (ws_update (\<lambda>x. wr_id x = wr_id r \<and> wr_seen x = wr_seen r) (\<lambda>x. x\<lparr>wr_seen := t\<rparr>) st))"
    using assms by (force simp: ws_update_def)
  then have "find (\<lambda>x. wr_id x = wr_id r) (ws_rows (ws_update (\<lambda>x. wr_id x = wr_id r \<and> wr_seen x = wr_seen r) (\<lambda>x. x\<lparr>wr_seen := t\<rparr>) st)) \<noteq> None"
    unfolding find_None by force
  then show ?thesis by blast
qed

lemma get_invalid_same:
  assumes "\<forall>s. snd (ws_get h t g touch token st) \<noteq> Lookup_Valid s"
  shows "fst (ws_get h t g touch token st) = st"
proof (cases "find (\<lambda>r. wr_hash r = h token) (ws_rows st)")
  case (Some r)
  with touched_found [of r st t] find_Some_in [OF Some] assms show ?thesis by (auto simp: ws_get_def Let_def split: if_splits)
qed (simp add: ws_get_def)

lemma dead_filter: "dead_token hs t g st \<Longrightarrow> dead_token hs t g (st\<lparr>ws_rows := filter P (ws_rows st)\<rparr>)"
  by (auto simp: dead_token_def)

lemma dead_none: "dead_token hs t g (st\<lparr>ws_rows := []\<rparr>)"
  by (simp add: dead_token_def)

lemma dead_revoked: "dead_token hs t g st \<Longrightarrow> dead_token hs t g (ws_update P (\<lambda>r. r\<lparr>wr_revoked := Some now\<rparr>) st)"
  by (auto simp: dead_token_def ws_update_def outdated_def)

lemma dead_create: "dead_token hs t g st \<Longrightarrow> h token \<noteq> hs \<Longrightarrow> dead_token hs t g (fst (ws_create h rid token now gen browser os st))"
  by (auto simp: ws_create_def Let_def dead_token_def split: sum.split)

text \<open>A lookup moves \<open>last_seen_at\<close> only in the row it finds valid.\<close>

lemma get_row:
  assumes "rows_ok st"
  obtains (same) "fst (ws_get h now gen touch token st) = st"
  | (touched) r where "r \<in> set (ws_rows st)" "wr_hash r = h token" "wr_revoked r = None" "wr_generation r = gen" "\<not> outdated now r"
      "fst (ws_get h now gen touch token st) = ws_update (\<lambda>x. x = r) (\<lambda>x. x\<lparr>wr_seen := now\<rparr>) st"
proof (cases "find (\<lambda>r. wr_hash r = h token) (ws_rows st)")
  case None
  then show thesis by (intro same) (simp add: ws_get_def)
next
  case (Some r)
  note r = find_Some_in [OF Some]
  have "(wr_id x = wr_id r \<and> wr_seen x = wr_seen r) = (x = r)" if "x \<in> set (ws_rows st)" for x
    using that assms r by (auto simp: rows_ok_def distinct_map inj_on_def)
  then have u: "ws_update (\<lambda>x. wr_id x = wr_id r \<and> wr_seen x = wr_seen r) f st = ws_update (\<lambda>x. x = r) f st" for f
    by (simp add: ws_update_def)
  show thesis
  proof (cases "fst (ws_get h now gen touch token st) = st")
    case False
    with Some have v: "wr_revoked r = None" "wr_generation r = gen" "\<not> outdated now r"
      "fst (ws_get h now gen touch token st) = ws_update (\<lambda>x. wr_id x = wr_id r \<and> wr_seen x = wr_seen r) (\<lambda>x. x\<lparr>wr_seen := now\<rparr>) st"
      by (auto simp: ws_get_def Let_def outdated_def split: if_splits)
    then show thesis using r by (intro touched [OF _ _ v(1-3) v(4) [unfolded u]]) simp_all
  qed (rule same)
qed

lemma dead_touch:
  assumes "dead_token hs t g st" and "wr_revoked r = None" and "wr_generation r = gen" and "\<not> outdated now r"
    and "r \<in> set (ws_rows st)" and "t \<le> now" and "g \<le> gen" and "hs' \<noteq> hs"
  shows "dead_token hs t g (ws_update (\<lambda>x. x = r) (\<lambda>x. x\<lparr>wr_seen := now\<rparr>) st)"
    and "dead_token hs t g (ws_update (\<lambda>x. x = r) (\<lambda>x. x\<lparr>wr_hash := hs', wr_seen := now\<rparr>) st)"
proof -
  have "wr_hash r \<noteq> hs"
    using assms(1-7) outdated_later by (fastforce simp: dead_token_def)
  with assms(1,8) show "dead_token hs t g (ws_update (\<lambda>x. x = r) (\<lambda>x. x\<lparr>wr_seen := now\<rparr>) st)"
    and "dead_token hs t g (ws_update (\<lambda>x. x = r) (\<lambda>x. x\<lparr>wr_hash := hs', wr_seen := now\<rparr>) st)"
    by (auto simp: dead_token_def ws_update_def)
qed

lemma dead_apply:
  assumes ok: "rows_ok st" and dead: "dead_token hs t g st"
    and fwd: "sorted (t # op_times x)" "sorted (g # op_gens x)" and new: "hs \<notin> h ` set (op_tokens x)"
  shows "dead_token hs t g (ws_apply h x st)"
proof (cases x)
  case (Ws_Get now gen touch token)
  from ok show ?thesis
  proof (cases rule: get_row [of st h now gen touch token])
    case (touched r)
    obtain hs' :: string where "hs' \<noteq> hs" by (metis list.distinct(1))
    from dead_touch(1) [OF dead touched(3-5,1) _ _ this] touched(6) fwd Ws_Get show ?thesis by simp
  qed (use dead Ws_Get in simp)
next
  case (Ws_Refresh fresh t1 t2 t3 g1 g3 token)
  from ok show ?thesis
  proof (cases rule: refresh_cases [of st h fresh t1 t2 t3 g1 g3 token])
    case (rotated r)
    have "wr_hash r \<noteq> hs"
      using dead rotated(1,3-5) fwd Ws_Refresh outdated_later by (fastforce simp: dead_token_def)
    with dead rotated(7) new Ws_Refresh show ?thesis by (auto simp: dead_token_def ws_update_def)
  qed (use dead Ws_Refresh in simp)
qed (use dead new in \<open>auto simp: ws_cleanup_def dead_filter dead_create ws_revoke_def ws_revoke_all_def dead_revoked ws_list_def
    ws_reset_all_def dead_none\<close>)

lemma dead_run:
  "rows_ok st \<Longrightarrow> dead_token hs t g st \<Longrightarrow> forward t g ops \<Longrightarrow> hs \<notin> h ` set (concat (map op_tokens ops)) \<Longrightarrow>
    forward t g (ops @ [Ws_Get t' g' touch token]) \<Longrightarrow> dead_token hs t' g' (fold (ws_apply h) ops st)"
proof (induction ops arbitrary: st t g)
  case Nil
  then show ?case by (auto intro: dead_later)
next
  case (Cons x ops)
  have "dead_token hs t g (ws_apply h x st)" by (rule dead_apply) (use Cons.prems in auto)
  moreover have "t \<le> last (t # op_times x)" "g \<le> last (g # op_gens x)"
    using Cons.prems(3) by (auto simp: last_in_set)
  ultimately have "dead_token hs (last (t # op_times x)) (last (g # op_gens x)) (ws_apply h x st)" by (rule dead_later)
  from Cons.IH [OF rows_ok_apply [OF Cons.prems(1)] this] Cons.prems(3-5) show ?case by (auto simp: image_Un)
qed

lemma gens_apply: "rows_ok st \<Longrightarrow> gens_le g st \<Longrightarrow> sorted (g # op_gens x) \<Longrightarrow> gens_le (last (g # op_gens x)) (ws_apply h x st)"
proof -
  assume ok: "rows_ok st" and le: "gens_le g st" and sorted: "sorted (g # op_gens x)"
  from sorted have "g \<le> last (g # op_gens x)" by (auto simp: last_in_set)
  with le have l: "gens_le (last (g # op_gens x)) st" by (rule gens_later)
  show ?thesis
  proof (cases x)
    case (Ws_Get now gen touch token)
    from ok l show ?thesis
      by (rule_tac get_row [of st h now gen touch token]) (auto simp: Ws_Get gens_le_def ws_update_def)
  next
    case (Ws_Refresh fresh t1 t2 t3 g1 g3 token)
    from ok l show ?thesis
      by (rule_tac refresh_cases [of st h fresh t1 t2 t3 g1 g3 token]) (auto simp: Ws_Refresh gens_le_def ws_update_def)
  qed (use l sorted in \<open>auto simp: gens_le_def ws_cleanup_def ws_create_def ws_revoke_def ws_revoke_all_def ws_list_def
      ws_reset_all_def ws_update_def Let_def split: sum.split\<close>)
qed

text \<open>The clock and the generation a run ends at.\<close>

fun end_time :: "time \<Rightarrow> ws_op list \<Rightarrow> time" where
  "end_time t [] = t"
| "end_time t (x # xs) = end_time (last (t # op_times x)) xs"

fun end_gen :: "int \<Rightarrow> ws_op list \<Rightarrow> int" where
  "end_gen g [] = g"
| "end_gen g (x # xs) = end_gen (last (g # op_gens x)) xs"

lemma forward_append: "forward t g (xs @ ys) \<longleftrightarrow> forward t g xs \<and> forward (end_time t xs) (end_gen g xs) ys"
  by (induction xs arbitrary: t g) (auto simp del: last.simps)

lemma gens_run: "rows_ok st \<Longrightarrow> gens_le g st \<Longrightarrow> forward t g ops \<Longrightarrow> gens_le (end_gen g ops) (fold (ws_apply h) ops st)"
proof (induction ops arbitrary: st t g)
  case (Cons x ops)
  have "gens_le (last (g # op_gens x)) (ws_apply h x st)" by (rule gens_apply) (use Cons.prems in auto)
  moreover have "forward (last (t # op_times x)) (last (g # op_gens x)) ops" using Cons.prems(3) by (simp del: last.simps)
  ultimately show ?case using Cons.IH [OF rows_ok_apply [OF Cons.prems(1)]] by (simp del: last.simps)
qed simp

text \<open>A refresh that hands out a token leaves only the new one, for the same session.\<close>

lemma refresh_rotates:
  assumes ok: "rows_ok st" and r: "ws_refresh h fresh t1 t2 t3 g1 g3 token st = (st', Inr (l, Some fresh))" and ne: "h fresh \<noteq> h token"
  shows "snd (ws_get h t4 g4 touch token st') = Lookup_Invalid \<and>
    (\<forall>s s' st2. ws_get h t1 g1 False token st = (st2, Lookup_Valid s) \<and> l = Lookup_Valid s' \<longrightarrow> se_id s' = se_id s)"
proof -
  obtain st1 l1 where g: "ws_get h t1 g1 False token st = (st1, l1)" by fastforce
  with r obtain s1 where l1: "l1 = Lookup_Valid s1" by (auto simp: ws_refresh_def split: session_lookup.splits)
  from get_valid [OF g [unfolded l1]] obtain x where x: "x \<in> set (ws_rows st)" "wr_hash x = h token" "s1 = row_session x"
    "st1 = st" by blast
  let ?hit = "\<lambda>y. wr_id y = se_id s1 \<and> wr_hash y = h token"
  have hit: "?hit y \<longleftrightarrow> y = x" if "y \<in> set (ws_rows st)" for y
    using that ok x(1-3) by (auto simp: rows_ok_def distinct_map inj_on_def row_session_def)
  let ?st = "ws_update ?hit (\<lambda>y. y\<lparr>wr_hash := h fresh, wr_seen := t2\<rparr>) st"
  from r g l1 x(4) have st': "st' = ?st" "l = snd (ws_get h t3 g3 False fresh ?st)"
    "\<not> list_ex (\<lambda>y. wr_hash y = h fresh \<and> \<not> ?hit y) (ws_rows st) \<or> \<not> list_ex ?hit (ws_rows st)"
    using get_untouched [of h t3 g3 fresh ?st] by (auto simp: ws_refresh_def Let_def split: if_splits prod.splits)
  have rows: "wr_hash y = h fresh \<and> wr_id y = wr_id x \<or> y \<in> set (ws_rows st) \<and> y \<noteq> x \<and> wr_hash y \<noteq> h fresh"
    if "y \<in> set (ws_rows ?st)" for y
  proof -
    from that obtain z where z: "z \<in> set (ws_rows st)" "y = (if ?hit z then z\<lparr>wr_hash := h fresh, wr_seen := t2\<rparr> else z)"
      by (auto simp: ws_update_def)
    show ?thesis
    proof (cases "z = x")
      case True
      with z hit [OF z(1)] show ?thesis by simp
    next
      case False
      with z hit [OF z(1)] have "y = z" by simp
      moreover have "\<not> ?hit z" using hit [OF z(1)] False by simp
      with st'(3) hit [OF x(1)] x(1) z(1) have "wr_hash z \<noteq> h fresh" unfolding list_ex_iff by blast
      ultimately show ?thesis using z False by simp
    qed
  qed
  have "find (\<lambda>y. wr_hash y = h token) (ws_rows ?st) = None"
  proof (unfold find_None, rule ballI)
    fix y assume y: "y \<in> set (ws_rows ?st)"
    have "y = x" if "y \<in> set (ws_rows st)" "wr_hash y = h token"
      using that ok x(1,2) unfolding rows_ok_def distinct_map inj_on_def by metis
    with rows [OF y] ne show "wr_hash y \<noteq> h token" by metis
  qed
  then have "snd (ws_get h t4 g4 touch token st') = Lookup_Invalid" by (simp add: st'(1) ws_get_def)
  moreover have "se_id s' = se_id s1" if "l = Lookup_Valid s'" for s'
  proof -
    have "ws_get h t3 g3 False fresh ?st = (?st, Lookup_Valid s')"
      using that st'(2) get_untouched [of h t3 g3 fresh ?st] by (metis prod.collapse)
    from get_valid [OF this] obtain r where r: "r \<in> set (ws_rows ?st)" "wr_hash r = h fresh" "s' = row_session r" by blast
    from rows [OF r(1)] r(2) have "wr_id r = wr_id x" by blast
    with r(3) x(3) show ?thesis by (simp add: row_session_def)
  qed
  moreover have "s = s1" if "ws_get h t1 g1 False token st = (st2, Lookup_Valid s)" for s st2
    using that g unfolding l1 by (metis Pair_inject session_lookup.inject)
  ultimately show ?thesis by blast
qed

definition demo_sessions :: web_session_store where
  "demo_sessions = fold (ws_apply id) [Ws_Create ''i'' ''t'' 0 1 [] [], Ws_Revoke_All 1] (empty_sessions 100)"

lemma demo_sessions_eq: "demo_sessions = \<lparr>ws_maximum = 100, ws_rows = [\<lparr>wr_id = ''nws_i'', wr_hash = ''t'', wr_role = ''web_read_only'',
    wr_generation = 1, wr_created = 0, wr_seen = 0, wr_expires = 43200, wr_revoked = Some 1, wr_browser = [], wr_os = []\<rparr>]\<rparr>"
  by (simp add: demo_sessions_def ws_create_def empty_sessions_def unrevoked_def Let_def absolute_seconds_def ws_revoke_all_def
      ws_update_def lookup_by_id_def)

section \<open>Properties\<close>

text \<open>C15 (a token that stopped working stays out). When a run from an empty store, with a clock and a security
  generation that do not go back, presents a token and it is not valid, then no further operations make it
  valid again, unless they issue a token of the same hash.\<close>

theorem web_token_stays_out:
  assumes "forward t0 g0 (ops @ Ws_Get t g touch token # ops' @ [Ws_Get t' g' touch' token])"
    and "st = fold (ws_apply h) ops (empty_sessions n)"
    and "\<forall>s. snd (ws_get h t g touch token st) \<noteq> Lookup_Valid s"
    and "h token \<notin> h ` set (concat (map op_tokens ops'))"
  shows "ws_get h t' g' touch' token (fold (ws_apply h) ops' (fst (ws_get h t g touch token st))) \<noteq> (st', Lookup_Valid s)"
proof (cases "token = []")
  case False
  have ok: "rows_ok st" by (simp add: assms(2) rows_ok_run rows_ok_empty)
  from assms(1) have fwd: "forward t0 g0 ops" "end_gen g0 ops \<le> g" "forward t g (ops' @ [Ws_Get t' g' touch' token])"
    by (auto simp: forward_append)
  have "gens_le g0 (empty_sessions n)" by (simp add: gens_le_def empty_sessions_def)
  from gens_later [OF gens_run [OF rows_ok_empty this fwd(1)] fwd(2)] have "gens_le g st" by (simp add: assms(2))
  from not_valid_dead [OF ok this False assms(3)] have d: "dead_token (h token) t g st" .
  have same: "fst (ws_get h t g touch token st) = st" by (rule get_invalid_same [OF assms(3)])
  have "forward t g ops'" using fwd(3) by (simp add: forward_append)
  from dead_run [OF ok d this assms(4) fwd(3)] same show ?thesis by (simp add: dead_not_valid)
qed (simp add: ws_get_def)

theorem web_token_stays_out_witness:
  "\<not> (\<exists>s. snd (ws_get id 9 1 True ''t'' (fold (ws_apply id) [Ws_Create ''j'' ''u'' 6 1 [] []]
     (fst (ws_get id 5 1 True ''t'' demo_sessions)))) = Lookup_Valid s)"
proof -
  let ?st = "fst (ws_get id 5 1 True ''t'' demo_sessions)"
  have "\<forall>s. snd (ws_get id 5 1 True ''t'' demo_sessions) \<noteq> Lookup_Valid s" by (simp add: demo_sessions_eq ws_get_def)
  moreover have "forward 0 1 ([Ws_Create ''i'' ''t'' 0 1 [] [], Ws_Revoke_All 1] @ Ws_Get 5 1 True ''t'' #
      [Ws_Create ''j'' ''u'' 6 1 [] []] @ [Ws_Get 9 1 True ''t''])" by simp
  ultimately have "ws_get id 9 1 True ''t'' (fold (ws_apply id) [Ws_Create ''j'' ''u'' 6 1 [] []] ?st) \<noteq> (st', Lookup_Valid s)" for st' s
    by (intro web_token_stays_out [of 0 1, OF _ demo_sessions_def]) simp_all
  then show ?thesis by (metis prod.collapse)
qed

text \<open>In every state a run reaches, at most the maximum of sessions are not revoked, a
  lookup is valid only for the current generation, until twelve hours after the creation of the session and
  thirty minutes after it was last seen, and after a refresh the old token is invalid and the new one stands
  for the same session.\<close>

theorem web_session_window:
  assumes "st = fold (ws_apply h) ops (empty_sessions n)"
  shows "unrevoked (ws_rows st) \<le> n \<and>
    (\<forall>s st'. ws_get h now gen False token st = (st', Lookup_Valid s) \<longrightarrow> se_generation s = gen \<and>
       now \<le> se_created s + 43200 \<and> now \<le> se_seen s + 1800) \<and>
    (\<forall>l st' t4 g4 touch. ws_refresh h fresh t1 t2 t3 g1 g3 token st = (st', Inr (l, Some fresh)) \<and> h fresh \<noteq> h token \<longrightarrow>
       snd (ws_get h t4 g4 touch token st') = Lookup_Invalid \<and>
       (\<forall>s s' st2. ws_get h t1 g1 False token st = (st2, Lookup_Valid s) \<and> l = Lookup_Valid s' \<longrightarrow> se_id s' = se_id s))"
proof -
  have ok: "rows_ok st" by (simp add: assms rows_ok_run rows_ok_empty)
  have "ws_maximum st = n" using maximum_run [OF rows_ok_empty] by (simp add: assms empty_sessions_def)
  with ok have "unrevoked (ws_rows st) \<le> n" by (simp add: rows_ok_def)
  moreover have "se_generation s = gen \<and> now \<le> se_created s + 43200 \<and> now \<le> se_seen s + 1800"
    if "ws_get h now gen False token st = (st', Lookup_Valid s)" for s st'
    using get_valid [OF that] ok by (auto simp: row_session_def outdated_def rows_ok_def absolute_seconds_def idle_seconds_def)
  moreover note refresh_rotates [OF ok]
  ultimately show ?thesis by blast
qed

theorem web_session_window_witness:
  "unrevoked (ws_rows demo_sessions) \<le> 100 \<and> snd (ws_get id 5 1 False ''u'' demo_sessions) = Lookup_Invalid"
  using web_session_window [OF demo_sessions_def, of 5 1 "''t''" "''u''" 5 5 5 1 1] by (simp add: demo_sessions_eq ws_get_def)

end
