(* ===== verification/Cluster_Frames.thy ===== *)
theory Cluster_Frames
  imports Py_Codec Py_Json "HOL-Library.Word"
begin

text \<open>
  The framing of the cluster protocol (\<^verbatim>\<open>core/cluster/protocol.py\<close>): frames of JSON behind a big-endian
  length, read from a connection that hands out the bytes in pieces of its own choosing. A connection is the
  list of the pieces still to arrive; an empty answer of \<open>recv\<close> means that the peer closed it. The encoder
  and decoder of JSON and UTF-8 are the parameters \<open>dumps\<close> and \<open>loads\<close>.
\<close>

section \<open>Reading exactly as many bytes as asked\<close>

type_synonym connection = "string list"

datatype stream_error = Frame_Too_Large | Frame_Length | Frame_Invalid | Connection_Closed

text \<open>\<open>recv(n)\<close> returns at most one piece, and at most \<open>n\<close> bytes of it.\<close>

fun recv :: "nat \<Rightarrow> connection \<Rightarrow> string \<times> connection" where
  "recv n [] = ([], [])"
| "recv n (s # ss) = (take n s, if n < length s then drop n s # ss else ss)"

function read_loop :: "nat \<Rightarrow> string \<Rightarrow> connection \<Rightarrow> (stream_error + string) \<times> connection" where
  "read_loop n acc conn =
     (if n \<le> length acc then (Inr acc, conn)
      else (case recv (n - length acc) conn of
              (chunk, conn) \<Rightarrow> if chunk = [] then (Inl Connection_Closed, conn) else read_loop n (acc @ chunk) conn))"
  by pat_completeness auto
termination by (relation "measure (\<lambda>(n, acc, conn). n - length acc)") (auto simp flip: length_greater_0_conv)

declare read_loop.simps [simp del]

definition read_exact :: "nat \<Rightarrow> connection \<Rightarrow> (stream_error + string) \<times> connection" where
  "read_exact n conn = read_loop n [] conn"

text \<open>The reference: the same on the whole remaining stream at once.\<close>

definition exact_spec :: "nat \<Rightarrow> string \<Rightarrow> stream_error + string \<times> string" where
  "exact_spec n stream = (if n \<le> length stream then Inr (take n stream, drop n stream) else Inl Connection_Closed)"

definition pieces_ok :: "connection \<Rightarrow> bool" where
  "pieces_ok conn \<longleftrightarrow> list_all (\<lambda>s. s \<noteq> []) conn"

lemma recv_stream: "recv n conn = (chunk, conn') \<Longrightarrow> chunk @ concat conn' = concat conn"
  by (cases conn) (auto split: if_splits)

lemma recv_pieces: "recv n conn = (chunk, conn') \<Longrightarrow> pieces_ok conn \<Longrightarrow> pieces_ok conn'"
  by (cases conn) (auto simp: pieces_ok_def split: if_splits)

lemma recv_closed: "recv n conn = ([], conn') \<Longrightarrow> pieces_ok conn \<Longrightarrow> 0 < n \<Longrightarrow> conn = []"
  by (cases conn) (auto simp: pieces_ok_def)

lemma recv_length: "recv n conn = (chunk, conn') \<Longrightarrow> length chunk \<le> n"
  by (cases conn) auto

lemma read_loop_spec:
  assumes "read_loop n acc conn = (r, conn')" and "pieces_ok conn" and "length acc \<le> n"
  shows "pieces_ok conn' \<and> (case exact_spec n (acc @ concat conn) of
      Inr (bytes, rest) \<Rightarrow> r = Inr bytes \<and> concat conn' = rest
    | Inl e \<Rightarrow> r = Inl e)"
  using assms
proof (induction n acc conn arbitrary: r conn' rule: read_loop.induct)
  case (1 n acc conn)
  show ?case
  proof (cases "n \<le> length acc")
    case True
    with 1 show ?thesis by (auto simp: read_loop.simps [of n acc] exact_spec_def)
  next
    case False
    obtain chunk conn1 where c: "recv (n - length acc) conn = (chunk, conn1)" by fastforce
    note c' = recv_stream [OF c] recv_pieces [OF c "1.prems"(2)] recv_length [OF c]
    show ?thesis
    proof (cases "chunk = []")
      case True
      with c False "1.prems"(2) have "conn = []" by (auto dest: recv_closed)
      with 1 True False c c' show ?thesis by (auto simp: read_loop.simps [of n acc] exact_spec_def)
    next
      case chunk: False
      from "1.prems"(1) False c chunk have "read_loop n (acc @ chunk) conn1 = (r, conn')"
        by (simp add: read_loop.simps [of n acc])
      moreover have "(acc @ chunk) @ concat conn1 = acc @ concat conn" by (simp add: c'(1))
      ultimately show ?thesis using "1.IH" [OF False c [symmetric] chunk _ c'(2)] c'(3) False by simp
    qed
  qed
qed

lemma read_exact_spec:
  assumes "read_exact n conn = (r, conn')" and "pieces_ok conn"
  shows "pieces_ok conn' \<and> (case exact_spec n (concat conn) of
      Inr (bytes, rest) \<Rightarrow> r = Inr bytes \<and> concat conn' = rest
    | Inl e \<Rightarrow> r = Inl e)"
  using read_loop_spec [of n "[]" conn r conn'] assms by (simp add: read_exact_def)

section \<open>Frames\<close>

definition max_frame_bytes :: nat where "max_frame_bytes = 16 * 1024"

definition pack_be32 :: "32 word \<Rightarrow> string" where
  "pack_be32 w = map (\<lambda>k. char_of (unat (take_bit 8 (drop_bit k w)))) [24, 16, 8, 0]"

definition unpack_be32 :: "string \<Rightarrow> 32 word" where
  "unpack_be32 s = foldl (\<lambda>w c. push_bit 8 w + word_of_nat (code c)) 0 s"

definition send_frame :: "(json \<Rightarrow> string) \<Rightarrow> json \<Rightarrow> stream_error + string" where
  "send_frame dumps payload =
     (let encoded = dumps payload
      in if max_frame_bytes < length encoded then Inl Frame_Too_Large
         else Inr (pack_be32 (word_of_nat (length encoded)) @ encoded))"

definition receive_frame :: "(string \<Rightarrow> json option) \<Rightarrow> connection \<Rightarrow> (stream_error + jobj) \<times> connection" where
  "receive_frame loads conn =
     (case read_exact 4 conn of
        (Inl e, conn) \<Rightarrow> (Inl e, conn)
      | (Inr header, conn) \<Rightarrow>
          (let n = unat (unpack_be32 header)
           in if n < 2 \<or> max_frame_bytes < n then (Inl Frame_Length, conn)
              else (case read_exact n conn of
                      (Inl e, conn) \<Rightarrow> (Inl e, conn)
                    | (Inr body, conn) \<Rightarrow> (case loads body of Some (JObj ob) \<Rightarrow> (Inr ob, conn) | _ \<Rightarrow> (Inl Frame_Invalid, conn)))))"

lemma length_pack [simp]: "length (pack_be32 w) = 4"
  by (simp add: pack_be32_def)

lemma code_take_bit: "code (char_of (unat (take_bit 8 w :: 32 word))) = unat (take_bit 8 w)"
proof -
  have "unat (take_bit 8 w) = take_bit 8 (unat w)" by (simp add: unsigned_take_bit_eq)
  then have "unat (take_bit 8 w) < 256" by (simp add: take_bit_eq_mod)
  then show ?thesis by (rule code_char_of)
qed

lemma unpack_pack: "unpack_be32 (pack_be32 w) = w"
proof -
  let ?b = "\<lambda>k. take_bit 8 (drop_bit k w)"
  have split: "push_bit 8 (drop_bit (k + 8) w) + ?b k = drop_bit k w" for k
    using bits_ident [of 8 "drop_bit k w"] by (simp add: add.commute)
  have "drop_bit 32 w = 0" by (rule drop_bit_word_beyond) simp
  then have top: "?b 24 = drop_bit 24 w" using split [of 24] by simp
  have "unpack_be32 (pack_be32 w) = push_bit 8 (push_bit 8 (push_bit 8 (?b 24) + ?b 16) + ?b 8) + ?b 0"
    by (simp add: unpack_be32_def pack_be32_def code_take_bit del: drop_bit_0)
  also have "\<dots> = push_bit 8 (push_bit 8 (push_bit 8 (drop_bit 24 w) + ?b 16) + ?b 8) + ?b 0" by (simp only: top)
  also have "\<dots> = w" using split [of 16] split [of 8] split [of 0] by simp
  finally show ?thesis .
qed

lemma read_exact_append:
  assumes "pieces_ok conn" and "concat conn = bytes @ rest"
  shows "\<exists>conn'. read_exact (length bytes) conn = (Inr bytes, conn') \<and> pieces_ok conn' \<and> concat conn' = rest"
proof -
  obtain r conn' where "read_exact (length bytes) conn = (r, conn')" by fastforce
  with read_exact_spec [OF this assms(1)] assms(2) show ?thesis by (simp add: exact_spec_def)
qed

lemma receive_sent:
  assumes "send_frame dumps (JObj ob) = Inr bytes" and "loads (dumps (JObj ob)) = Some (JObj ob)"
    and "2 \<le> length (dumps (JObj ob))" and "pieces_ok conn" and "concat conn = bytes @ rest"
  shows "\<exists>conn'. receive_frame loads conn = (Inr ob, conn') \<and> pieces_ok conn' \<and> concat conn' = rest"
proof -
  let ?e = "dumps (JObj ob)"
  from assms(1) have b: "bytes = pack_be32 (word_of_nat (length ?e)) @ ?e" and l: "length ?e \<le> max_frame_bytes"
    by (auto simp: send_frame_def Let_def split: if_splits)
  have n: "unat (unpack_be32 (pack_be32 (word_of_nat (length ?e)))) = length ?e"
    using l by (simp add: unpack_pack max_frame_bytes_def unat_of_nat)
  from assms(5) b have c: "concat conn = pack_be32 (word_of_nat (length ?e)) @ (?e @ rest)" by simp
  from read_exact_append [OF assms(4) this] obtain c1 where c1: "read_exact 4 conn = (Inr (pack_be32 (word_of_nat (length ?e))), c1)"
    "pieces_ok c1" "concat c1 = ?e @ rest" by auto
  from read_exact_append [OF c1(2,3)] obtain c2 where "read_exact (length ?e) c1 = (Inr ?e, c2)" "pieces_ok c2" "concat c2 = rest"
    by blast
  with c1 n l assms(2,3) show ?thesis by (simp add: receive_frame_def Let_def)
qed

section \<open>Properties\<close>

text \<open>C16 (reading does not depend on how the bytes arrive). However a stream is cut into pieces, reading \<open>n\<close> bytes
  gives the first \<open>n\<close> bytes of the stream and leaves the others, or fails when there are fewer; and a frame
  that was sent is received as the same object, with the bytes after it still to be read.\<close>

theorem frames_survive_segmentation:
  assumes "pieces_ok conn"
  shows "(case exact_spec n (concat conn) of
      Inr (bytes, rest) \<Rightarrow> \<exists>conn'. read_exact n conn = (Inr bytes, conn') \<and> concat conn' = rest
    | Inl e \<Rightarrow> fst (read_exact n conn) = Inl e) \<and>
    (\<forall>ob bytes rest. send_frame dumps (JObj ob) = Inr bytes \<and> loads (dumps (JObj ob)) = Some (JObj ob) \<and>
       2 \<le> length (dumps (JObj ob)) \<and> concat conn = bytes @ rest \<longrightarrow>
       (\<exists>conn'. receive_frame loads conn = (Inr ob, conn') \<and> concat conn' = rest))"
proof -
  obtain r conn' where "read_exact n conn = (r, conn')" by fastforce
  with read_exact_spec [OF this assms] have "case exact_spec n (concat conn) of
      Inr (bytes, rest) \<Rightarrow> \<exists>conn'. read_exact n conn = (Inr bytes, conn') \<and> concat conn' = rest
    | Inl e \<Rightarrow> fst (read_exact n conn) = Inl e" by (auto split: sum.splits prod.splits)
  then show ?thesis using receive_sent assms by blast
qed

theorem frames_survive_segmentation_witness:
  "\<exists>conn'. read_exact 3 [''ab'', ''cd''] = (Inr ''abc'', conn') \<and> concat conn' = ''d''"
proof -
  have "pieces_ok [''ab'', ''cd'']" by (simp add: pieces_ok_def)
  from frames_survive_segmentation [OF this, of 3] show ?thesis by (simp add: exact_spec_def)
qed

end
