(* ===== verification/Cluster_Listing.thy ===== *)
theory Cluster_Listing
  imports Cluster_Tickets Unlock_Codes Cluster_Frames
begin

text \<open>
  Directory pages of a cluster node (\<^verbatim>\<open>core/cluster/listing.py\<close>) and their transport
  (\<open>_send_listing_page\<close>, \<open>request_listing\<close> of \<^verbatim>\<open>core/cluster/protocol.py\<close>). The directory is a record of what the
  operating system answers: the names in a directory, the size and time stamp of an entry, the metadata of a file.
  The Ed25519 signature, the digest of the snapshot and the text of JSON are parameters.
\<close>

record disk =
  dk_fs :: fs
  dk_names :: "path \<Rightarrow> string list option"
  dk_stat :: "path \<Rightarrow> (int \<times> int) option"
  dk_info :: "path \<Rightarrow> path \<Rightarrow> jobj"
  dk_audio :: "path \<Rightarrow> string \<Rightarrow> string \<Rightarrow> jobj option"

datatype listing_error =
    List_Cursor | List_Mismatch | List_Limit | List_Unlistable | List_Bound | List_Changed | List_Position | List_Too_Big
  | List_Py py_error

record listing_page =
  lp_items :: "json list"
  lp_next :: string

text \<open>A root of a listing: its slot, its path and the directory to list; an entry: its slot, the root and its path.\<close>

type_synonym listed_root = "string \<times> path \<times> path"
type_synonym listed = "string \<times> path \<times> path"

definition cursor_ttl :: int where "cursor_ttl = 120"
definition max_list_limit :: int where "max_list_limit = 100"
definition max_directory_entries :: nat where "max_directory_entries = 10000"
definition max_list_bytes :: nat where "max_list_bytes = 256 * 1024"

section \<open>Cursors\<close>

record cursor_key =
  ck_sign :: "string \<Rightarrow> string"
  ck_check :: "string \<Rightarrow> string \<Rightarrow> bool"
  ck_dumps :: "json \<Rightarrow> string"
  ck_loads :: "string \<Rightarrow> json option"
  ck_repr :: "json \<Rightarrow> string"
  ck_node :: string

definition cursor_json :: "cursor_key \<Rightarrow> time \<Rightarrow> string \<Rightarrow> string \<Rightarrow> int \<Rightarrow> string \<Rightarrow> json" where
  "cursor_json ck now p after limit snapshot =
     JObj [(''after'', JStr after), (''exp'', JInt (py_int now + cursor_ttl)), (''limit'', JInt limit),
           (''node'', JStr (ck_node ck)), (''path'', JStr p), (''snapshot'', JStr snapshot), (''v'', JInt 1)]"

definition encode_cursor :: "cursor_key \<Rightarrow> time \<Rightarrow> string \<Rightarrow> string \<Rightarrow> int \<Rightarrow> string \<Rightarrow> string" where
  "encode_cursor ck now p after limit snapshot =
     (let payload = ck_dumps ck (cursor_json ck now p after limit snapshot)
      in ''nsc1.'' @ b64url payload @ ''.'' @ b64url (ck_sign ck payload))"

definition check_cursor :: "cursor_key \<Rightarrow> time \<Rightarrow> string \<Rightarrow> int \<Rightarrow> string \<Rightarrow> jobj \<Rightarrow> listing_error + string" where
  "check_cursor ck now p limit snapshot v =
     (if \<not> py_eq (jget v ''v'') (JInt 1) \<or> \<not> py_eq (jget v ''node'') (JStr (ck_node ck)) \<or> \<not> py_eq (jget v ''path'') (JStr p)
      then Inl List_Mismatch
      else (case to_int (jget_or v ''limit'' (JInt 0)) of Inl e \<Rightarrow> Inl List_Cursor
            | Inr l \<Rightarrow>
                if l \<noteq> limit \<or> \<not> py_eq (jget v ''snapshot'') (JStr snapshot) then Inl List_Mismatch
                else (case to_int (jget_or v ''exp'' (JInt 0)) of Inl e \<Rightarrow> Inl List_Cursor
                      | Inr x \<Rightarrow>
                          if x < py_int now then Inl List_Mismatch
                          else Inr (if truthy (jget v ''after'') then to_str (ck_repr ck) (jget v ''after'') else []))))"

definition decode_cursor :: "cursor_key \<Rightarrow> time \<Rightarrow> string \<Rightarrow> int \<Rightarrow> string \<Rightarrow> string \<Rightarrow> listing_error + string" where
  "decode_cursor ck now p limit snapshot pin =
     (case split_on (CHR ''.'') pin of
        [prefix, payload_text, signature_text] \<Rightarrow>
          if prefix \<noteq> ''nsc1'' then Inl List_Cursor
          else (case (b64url_decode payload_text, b64url_decode signature_text) of
                  (Some payload, Some sig) \<Rightarrow>
                    if \<not> ck_check ck sig payload then Inl List_Cursor
                    else (case ck_loads ck payload of
                            None \<Rightarrow> Inl List_Cursor
                          | Some (JObj v) \<Rightarrow> check_cursor ck now p limit snapshot v
                          | Some _ \<Rightarrow> Inl (List_Py (Runtime_Error ''AttributeError'')))
                | _ \<Rightarrow> Inl List_Cursor)
      | _ \<Rightarrow> Inl List_Cursor)"

lemma decode_encode_cursor:
  assumes "ck_loads ck (ck_dumps ck (cursor_json ck t p after limit snapshot)) = Some (cursor_json ck t p after limit snapshot)"
    and "\<And>m. ck_check ck (ck_sign ck m) m" and "py_int now \<le> py_int t + cursor_ttl"
  shows "decode_cursor ck now p limit snapshot (encode_cursor ck t p after limit snapshot) = Inr after"
proof -
  let ?m = "ck_dumps ck (cursor_json ck t p after limit snapshot)"
  have "split_on (CHR ''.'') (encode_cursor ck t p after limit snapshot) = [''nsc1'', b64url ?m, b64url (ck_sign ck ?m)]"
    using split_on_append [of "CHR ''.''" "''nsc1''"] split_on_append [OF b64url_no_dot] split_on_single [OF b64url_no_dot]
    by (simp add: encode_cursor_def Let_def)
  moreover have "check_cursor ck now p limit snapshot [(''after'', JStr after), (''exp'', JInt (py_int t + cursor_ttl)), (''limit'', JInt limit),
           (''node'', JStr (ck_node ck)), (''path'', JStr p), (''snapshot'', JStr snapshot), (''v'', JInt 1)] = Inr after"
    using assms(3) by (auto simp: check_cursor_def jget_def jget_or_def)
  ultimately show ?thesis using assms(1,2) by (simp add: decode_cursor_def b64url_roundtrip cursor_json_def)
qed

section \<open>A page\<close>

definition utf8 :: "string \<Rightarrow> string" where
  "utf8 s = concat (map (\<lambda>c. let n = code c in if n < 128 then [c] else [char_of (192 + n div 64), char_of (128 + n mod 64)]) s)"

fun snapshot_text :: "disk \<Rightarrow> listed list \<Rightarrow> string option" where
  "snapshot_text dk [] = Some []"
| "snapshot_text dk ((slot, rt, e) # es) =
     (case (dk_stat dk e, snapshot_text dk es) of
        (Some (size', mtime), Some rest) \<Rightarrow>
          Some (slot @ [CHR 0x00] @ utf8 (name_of e) @ (if is_dir (dk_fs dk) e then [CHR 0x00, CHR ''d'', CHR 0x00] else [CHR 0x00, CHR ''f'', CHR 0x00])
                @ show_int size' @ [CHR 0x00] @ show_int mtime @ [CHR 0x00] @ rest)
      | _ \<Rightarrow> None)"

definition directory_snapshot :: "(string \<Rightarrow> string) \<Rightarrow> disk \<Rightarrow> listed list \<Rightarrow> listing_error + string" where
  "directory_snapshot digest dk es = (case snapshot_text dk es of None \<Rightarrow> Inl List_Changed | Some s \<Rightarrow> Inr (digest s))"

text \<open>The two loops that collect the visible entries; a directory that cannot be read ends them.\<close>

fun collect :: "disk \<Rightarrow> share_conf \<Rightarrow> listed_root list \<Rightarrow> listed list option" where
  "collect dk cf [] = Some []"
| "collect dk cf ((slot, rt, d) # roots) =
     (case (dk_names dk d, collect dk cf roots) of
        (Some ns, Some rest) \<Rightarrow>
          Some (map (\<lambda>n. (slot, rt, d @ [n])) (filter (\<lambda>n. visible_shared_entry (dk_fs dk) cf (d @ [n]) (Some rt) slot None) ns) @ rest)
      | _ \<Rightarrow> None)"

definition entry_key :: "disk \<Rightarrow> listed \<Rightarrow> bool \<times> string \<times> string \<times> string" where
  "entry_key dk x = (\<not> is_dir (dk_fs dk) (snd (snd x)), fold_case (name_of (snd (snd x))), name_of (snd (snd x)), fst x)"

definition partition_nul :: "string \<Rightarrow> string \<times> string" where
  "partition_nul s = (takeWhile (\<lambda>c. c \<noteq> CHR 0x00) s, tl (dropWhile (\<lambda>c. c \<noteq> CHR 0x00) s))"

text \<open>The index after the entry the cursor names.\<close>

definition position_after :: "bool \<Rightarrow> string \<Rightarrow> listed list \<Rightarrow> listing_error + nat" where
  "position_after multi after es =
     (if after = [] then Inr 0
      else (let (after_slot, after_name) = partition_nul after;
                hits = filter (\<lambda>i. name_of (snd (snd (es ! i))) = (if after_name \<noteq> [] then after_name else after)
                                \<and> (\<not> multi \<or> fst (es ! i) = after_slot)) [0 ..< length es]
            in case hits of [i] \<Rightarrow> Inr (Suc i) | _ \<Rightarrow> Inl List_Position))"

definition listed_path :: "bool \<Rightarrow> listed \<Rightarrow> listing_error + string" where
  "listed_path multi x =
     (case relative_to (snd (snd x)) (fst (snd x)) of
        None \<Rightarrow> Inl (List_Py Value_Error)
      | Some rel \<Rightarrow>
          (let relative = CHR ''/'' # rel_str rel
           in if multi then (case encode_shared_path (fst x) relative of Inl e \<Rightarrow> Inl (List_Py e) | Inr p \<Rightarrow> Inr p)
              else Inr relative))"

definition listed_item :: "disk \<Rightarrow> share_conf \<Rightarrow> unlock_db \<Rightarrow> time \<Rightarrow> string \<Rightarrow> bool \<Rightarrow> listed \<Rightarrow> listing_error + json" where
  "listed_item dk cf db now device multi x =
     (case listed_path multi x of Inl e \<Rightarrow> Inl e
      | Inr p \<Rightarrow>
          (case lock_status_for_path (dk_fs dk) cf now p device db of Inl e \<Rightarrow> Inl (List_Py e)
           | Inr lock \<Rightarrow>
               (let e = snd (snd x);
                    premium = (find_governing_premium_folder (dk_fs dk) cf p db \<noteq> None);
                    mtime = (case dk_stat dk e of None \<Rightarrow> 0 | Some (s, m) \<Rightarrow> m);
                    info = dput ''locked'' (JBool (lock \<noteq> Unlocked)) (dput ''premium'' (JBool premium)
                             (dput ''modified_ns'' (JInt mtime) (dput ''path'' (JStr p) (dk_info dk e (fst (snd x))))))
                in Inr (JObj (case dk_audio dk e p (fst x) of None \<Rightarrow> info | Some au \<Rightarrow> fold (\<lambda>(k, v). dput k v) au info)))))"

fun all_items :: "('a \<Rightarrow> 'e + 'b) \<Rightarrow> 'a list \<Rightarrow> 'e + 'b list" where
  "all_items g [] = Inr []"
| "all_items g (x # xs) =
     (case g x of Inl e \<Rightarrow> Inl e | Inr y \<Rightarrow> (case all_items g xs of Inl e \<Rightarrow> Inl e | Inr ys \<Rightarrow> Inr (y # ys)))"

definition after_value :: "bool \<Rightarrow> listed \<Rightarrow> string" where
  "after_value multi x = (if multi then fst x @ [CHR 0x00] @ name_of (snd (snd x)) else name_of (snd (snd x)))"

text \<open>The part of the listing from index \<open>start\<close> on.\<close>

definition page_from ::
    "cursor_key \<Rightarrow> disk \<Rightarrow> share_conf \<Rightarrow> unlock_db \<Rightarrow> time \<Rightarrow> string \<Rightarrow> bool \<Rightarrow> string \<Rightarrow> int \<Rightarrow> string \<Rightarrow> listed list \<Rightarrow> nat \<Rightarrow>
     listing_error + listing_page" where
  "page_from ck dk cf db now device multi p limit snapshot es start =
     (let selected = take (nat limit) (drop start es)
      in case all_items (listed_item dk cf db now device multi) selected of Inl e \<Rightarrow> Inl e
         | Inr items \<Rightarrow>
             (let next_cursor = (if start + length selected < length es \<and> selected \<noteq> []
                                 then encode_cursor ck now p (after_value multi (last selected)) limit snapshot else [])
              in if max_list_bytes < length (ck_dumps ck (JObj [(''items'', JList items), (''next_cursor'', JStr next_cursor)]))
                 then Inl List_Too_Big else Inr \<lparr>lp_items = items, lp_next = next_cursor\<rparr>))"

definition list_directory_page ::
    "cursor_key \<Rightarrow> (string \<Rightarrow> string) \<Rightarrow> disk \<Rightarrow> share_conf \<Rightarrow> unlock_db \<Rightarrow> time \<Rightarrow> listed_root list \<Rightarrow> string \<Rightarrow> int \<Rightarrow> string \<Rightarrow>
     string \<Rightarrow> listing_error + listing_page" where
  "list_directory_page ck digest dk cf db now roots p limit pin device =
     (if \<not> (1 \<le> limit \<and> limit \<le> max_list_limit) then Inl List_Limit
      else (case collect dk cf roots of None \<Rightarrow> Inl List_Unlistable
            | Some found \<Rightarrow>
                if max_directory_entries < length found then Inl List_Bound
                else (let multi = (1 < length roots); es = sort_key (entry_key dk) found
                      in case directory_snapshot digest dk es of Inl e \<Rightarrow> Inl e
                         | Inr snapshot \<Rightarrow>
                             (case (if pin = [] then Inr [] else decode_cursor ck now p limit snapshot pin) of Inl e \<Rightarrow> Inl e
                              | Inr after \<Rightarrow>
                                  (case position_after multi after es of Inl e \<Rightarrow> Inl e
                                   | Inr start \<Rightarrow> page_from ck dk cf db now device multi p limit snapshot es start)))))"

section \<open>Following the cursors\<close>

text \<open>A client that asks for the next page until it gets no cursor.\<close>

fun page_chain :: "(time \<Rightarrow> string \<Rightarrow> listing_error + listing_page) \<Rightarrow> string \<Rightarrow> (time \<times> listing_page) list \<Rightarrow> bool" where
  "page_chain ask pin [] \<longleftrightarrow> False"
| "page_chain ask pin ((t, pg) # rest) \<longleftrightarrow> ask t pin = Inr pg \<and> (if lp_next pg = [] then rest = [] else page_chain ask (lp_next pg) rest)"

fun in_time :: "(time \<times> listing_page) list \<Rightarrow> bool" where
  "in_time ((t, pg) # (t', pg') # rest) \<longleftrightarrow> py_int t' \<le> py_int t + cursor_ttl \<and> in_time ((t', pg') # rest)"
| "in_time _ \<longleftrightarrow> True"

text \<open>Names in a directory are distinct and hold no NUL, and the slots of the roots are distinct.\<close>

definition names_ok :: "disk \<Rightarrow> listed_root list \<Rightarrow> bool" where
  "names_ok dk roots \<longleftrightarrow> distinct (map fst roots) \<and>
     list_all (\<lambda>(slot, rt, d). CHR 0x00 \<notin> set slot \<and> (case dk_names dk d of None \<Rightarrow> True
       | Some ns \<Rightarrow> distinct ns \<and> list_all (\<lambda>n. n \<noteq> [] \<and> CHR 0x00 \<notin> set n) ns)) roots"

definition entry_ok :: "listed \<Rightarrow> bool" where
  "entry_ok x \<longleftrightarrow> CHR 0x00 \<notin> set (fst x) \<and> CHR 0x00 \<notin> set (name_of (snd (snd x))) \<and> name_of (snd (snd x)) \<noteq> []"

definition entry_id :: "listed \<Rightarrow> string \<times> string" where
  "entry_id x = (fst x, name_of (snd (snd x)))"

lemma collect_ok:
  "collect dk cf roots = Some found \<Longrightarrow> names_ok dk roots \<Longrightarrow>
    list_all entry_ok found \<and> distinct (map entry_id found) \<and> set (map fst found) \<subseteq> set (map fst roots)"
proof (induction roots arbitrary: found)
  case (Cons a roots)
  obtain slot rt d where a: "a = (slot, rt, d)" by (cases a)
  from Cons.prems a obtain ns rest where n: "dk_names dk d = Some ns" "collect dk cf roots = Some rest"
    "found = map (\<lambda>n. (slot, rt, d @ [n])) (filter (\<lambda>n. visible_shared_entry (dk_fs dk) cf (d @ [n]) (Some rt) slot None) ns) @ rest"
    by (auto split: option.splits)
  from Cons.prems(2) a n have ok: "names_ok dk roots" "distinct ns" "list_all (\<lambda>n. n \<noteq> [] \<and> CHR 0x00 \<notin> set n) ns"
    "CHR 0x00 \<notin> set slot" "slot \<notin> set (map fst roots)"
    by (auto simp: names_ok_def)
  from Cons.IH [OF n(2) ok(1)] ok show ?case
    by (auto simp: n(3) a entry_ok_def entry_id_def name_of_def list_all_iff distinct_map inj_on_def comp_def)
qed simp

lemma partition_after:
  "entry_ok x \<Longrightarrow> partition_nul (after_value True x) = (fst x, name_of (snd (snd x)))"
  "entry_ok x \<Longrightarrow> partition_nul (after_value False x) = (name_of (snd (snd x)), [])"
proof -
  assume ok: "entry_ok x"
  have t: "takeWhile (\<lambda>c. c \<noteq> CHR 0x00) (s @ CHR 0x00 # r) = s" "dropWhile (\<lambda>c. c \<noteq> CHR 0x00) (s @ CHR 0x00 # r) = CHR 0x00 # r"
    if "CHR 0x00 \<notin> set s" for s r using that by (induction s) auto
  have u: "takeWhile (\<lambda>c. c \<noteq> CHR 0x00) s = s" "dropWhile (\<lambda>c. c \<noteq> CHR 0x00) s = []" if "CHR 0x00 \<notin> set s" for s
    using that by (induction s) auto
  from ok show "partition_nul (after_value True x) = (fst x, name_of (snd (snd x)))"
    "partition_nul (after_value False x) = (name_of (snd (snd x)), [])"
    by (simp_all add: partition_nul_def after_value_def entry_ok_def t u)
qed

lemma filter_upt_eq: "filter (\<lambda>j. j = i) [0 ..< n] = (if i < n then [i] else [])"
  by (induction n) auto

lemma position_after_entry:
  assumes ok: "list_all entry_ok es" and d: "distinct (map entry_id es)"
    and single: "\<not> multi \<Longrightarrow> \<forall>x \<in> set es. \<forall>y \<in> set es. fst x = fst y" and i: "i < length es"
  shows "position_after multi (after_value multi (es ! i)) es = Inr (Suc i)"
proof -
  have e: "entry_ok (es ! i)" using ok i by (simp add: list_all_length)
  have ne: "after_value multi (es ! i) \<noteq> []" using e by (simp add: after_value_def entry_ok_def)
  have id: "entry_id (es ! j) = entry_id (es ! i) \<longleftrightarrow> j = i" if "j < length es" for j
    using that i d by (metis length_map nth_eq_iff_index_eq nth_map)
  obtain sl nm where p: "partition_nul (after_value multi (es ! i)) = (sl, nm)" by fastforce
  have hit: "(name_of (snd (snd (es ! j))) = (if nm \<noteq> [] then nm else after_value multi (es ! i)) \<and> (\<not> multi \<or> fst (es ! j) = sl)) \<longleftrightarrow> j = i"
    if "j < length es" for j
  proof (cases multi)
    case True
    with p e have "sl = fst (es ! i)" "nm = name_of (snd (snd (es ! i)))" "nm \<noteq> []"
      by (auto simp: partition_after entry_ok_def)
    with True id [OF that] show ?thesis by (auto simp: entry_id_def)
  next
    case False
    with p e have "nm = []" by (auto simp: partition_after)
    moreover have "fst (es ! j) = fst (es ! i)" using single [OF False] that i by simp
    ultimately show ?thesis using False id [OF that] by (auto simp: entry_id_def after_value_def)
  qed
  have "filter (\<lambda>j. name_of (snd (snd (es ! j))) = (if nm \<noteq> [] then nm else after_value multi (es ! i)) \<and> (\<not> multi \<or> fst (es ! j) = sl)) [0 ..< length es]
      = filter (\<lambda>j. j = i) [0 ..< length es]"
    by (rule filter_cong) (use hit in auto)
  also have "\<dots> = [i]" using i by (simp add: filter_upt_eq)
  finally show ?thesis using ne p by (simp add: position_after_def Let_def)
qed

lemma all_items_Inr: "all_items g xs = Inr ys \<Longrightarrow> list_all2 (\<lambda>x y. g x = Inr y) xs ys"
  by (induction xs arbitrary: ys) (auto split: sum.splits)

lemma page_from_Inr:
  assumes "page_from ck dk cf db now device multi p limit snapshot es start = Inr pg" and "start \<le> length es" and "1 \<le> limit"
  shows "list_all2 (\<lambda>x y. listed_item dk cf db now device multi x = Inr y) (take (nat limit) (drop start es)) (lp_items pg) \<and>
    lp_next pg = (if start + nat limit < length es
                  then encode_cursor ck now p (after_value multi (es ! (start + nat limit - 1))) limit snapshot else [])"
proof -
  let ?sel = "take (nat limit) (drop start es)"
  define next' where "next' = (if start + length ?sel < length es \<and> ?sel \<noteq> []
      then encode_cursor ck now p (after_value multi (last ?sel)) limit snapshot else [])"
  have unf: "page_from ck dk cf db now device multi p limit snapshot es start =
      (case all_items (listed_item dk cf db now device multi) ?sel of Inl e \<Rightarrow> Inl e
       | Inr items \<Rightarrow> if max_list_bytes < length (ck_dumps ck (JObj [(''items'', JList items), (''next_cursor'', JStr next')]))
           then Inl List_Too_Big else Inr \<lparr>lp_items = items, lp_next = next'\<rparr>)"
    unfolding page_from_def Let_def next'_def ..
  from assms(1) obtain items where it: "all_items (listed_item dk cf db now device multi) ?sel = Inr items"
    and pg: "pg = \<lparr>lp_items = items, lp_next = next'\<rparr>"
    unfolding unf by (cases "all_items (listed_item dk cf db now device multi) ?sel") (simp_all split: if_split_asm)
  note items = all_items_Inr [OF it]
  show ?thesis
  proof (cases "start + nat limit < length es")
    case True
    with assms(3) have "length ?sel = nat limit" "?sel \<noteq> []" "last ?sel = es ! (start + nat limit - 1)"
      by (auto simp: last_conv_nth min_def)
    with items True show ?thesis by (simp add: pg next'_def)
  next
    case False
    then have "\<not> start + length ?sel < length es" using assms(2) by auto
    with items False show ?thesis by (simp add: pg next'_def)
  qed
qed

text \<open>The pages from an index on, asked for one after the other.\<close>

fun pages_at ::
    "cursor_key \<Rightarrow> disk \<Rightarrow> share_conf \<Rightarrow> unlock_db \<Rightarrow> string \<Rightarrow> bool \<Rightarrow> string \<Rightarrow> int \<Rightarrow> string \<Rightarrow> listed list \<Rightarrow> nat \<Rightarrow>
     (time \<times> listing_page) list \<Rightarrow> bool" where
  "pages_at ck dk cf db device multi p limit snapshot es k [] \<longleftrightarrow> False"
| "pages_at ck dk cf db device multi p limit snapshot es k ((t, pg) # rest) \<longleftrightarrow>
     page_from ck dk cf db t device multi p limit snapshot es k = Inr pg \<and>
     (if k + nat limit < length es then pages_at ck dk cf db device multi p limit snapshot es (k + nat limit) rest else rest = [])"

lemma encode_cursor_not_Nil: "encode_cursor ck now p after limit snapshot \<noteq> []"
  by (simp add: encode_cursor_def Let_def)

lemma pages_at_items:
  assumes "pages_at ck dk cf db device multi p limit snapshot es k pages" and "k \<le> length es" and "1 \<le> limit"
  shows "list_all2 (\<lambda>x y. \<exists>t. listed_item dk cf db t device multi x = Inr y) (drop k es) (concat (map (\<lambda>a. lp_items (snd a)) pages)) \<and>
    int (length pages) = (if k = length es then 1 else (int (length es) - int k + limit - 1) div limit)"
  using assms
proof (induction pages arbitrary: k)
  case (Cons a rest)
  obtain t pg where a: "a = (t, pg)" by (cases a)
  from Cons.prems a have pf: "page_from ck dk cf db t device multi p limit snapshot es k = Inr pg" by simp
  from page_from_Inr [OF pf Cons.prems(2,3)] have here: "list_all2 (\<lambda>x y. \<exists>t. listed_item dk cf db t device multi x = Inr y)
      (take (nat limit) (drop k es)) (lp_items pg)" by (auto elim: list_all2_mono)
  show ?case
  proof (cases "k + nat limit < length es")
    case True
    with Cons.prems a have "pages_at ck dk cf db device multi p limit snapshot es (k + nat limit) rest" by simp
    from Cons.IH [OF this _ Cons.prems(3)] True have ih: "list_all2 (\<lambda>x y. \<exists>t. listed_item dk cf db t device multi x = Inr y)
        (drop (k + nat limit) es) (concat (map (\<lambda>a. lp_items (snd a)) rest))"
      "int (length rest) = (int (length es) - int k - limit + limit - 1) div limit" using Cons.prems(3) by (auto simp: algebra_simps)
    have "drop k es = take (nat limit) (drop k es) @ drop (k + nat limit) es"
      by (metis add.commute append_take_drop_id drop_drop)
    then have "list_all2 (\<lambda>x y. \<exists>t. listed_item dk cf db t device multi x = Inr y) (drop k es) (lp_items pg @ concat (map (\<lambda>a. lp_items (snd a)) rest))"
      using list_all2_appendI [OF here ih(1)] by metis
    moreover have "(int (length es) - int k + limit - 1) div limit = 1 + (int (length es) - int k - limit + limit - 1) div limit"
      using Cons.prems(3) div_add_self2 [of limit "int (length es) - int k - 1"] by (simp add: algebra_simps)
    ultimately show ?thesis using ih(2) True a by simp
  next
    case False
    with Cons.prems a have "rest = []" by simp
    moreover have "take (nat limit) (drop k es) = drop k es" using False by simp
    moreover have "(int (length es) - int k + limit - 1) div limit = 1" if "k \<noteq> length es"
    proof -
      have "int (length es) - int k \<le> limit" "1 \<le> int (length es) - int k" using False that Cons.prems(2,3) by auto
      then show ?thesis using Cons.prems(3) by (intro div_pos_geq [THEN trans] ) (auto simp: div_pos_pos_trivial)
    qed
    ultimately show ?thesis using here a by simp
  qed
qed simp

text \<open>The cursors that occur are signed and read back.\<close>

definition cursors_read_back :: "cursor_key \<Rightarrow> string \<Rightarrow> int \<Rightarrow> string \<Rightarrow> bool \<Rightarrow> listed list \<Rightarrow> time list \<Rightarrow> bool" where
  "cursors_read_back ck p limit snapshot multi es ts \<longleftrightarrow> (\<forall>m. ck_check ck (ck_sign ck m) m) \<and>
     (\<forall>t \<in> set ts. \<forall>x \<in> set (butlast es). ck_loads ck (ck_dumps ck (cursor_json ck t p (after_value multi x) limit snapshot)) =
        Some (cursor_json ck t p (after_value multi x) limit snapshot))"

lemma list_directory_page_eq:
  assumes "1 \<le> limit" and "limit \<le> max_list_limit" and "collect dk cf roots = Some found"
    and "length found \<le> max_directory_entries" and "directory_snapshot digest dk (sort_key (entry_key dk) found) = Inr snapshot"
  shows "list_directory_page ck digest dk cf db now roots p limit pin device =
    (case (if pin = [] then Inr [] else decode_cursor ck now p limit snapshot pin) of Inl e \<Rightarrow> Inl e
     | Inr after \<Rightarrow> (case position_after (1 < length roots) after (sort_key (entry_key dk) found) of Inl e \<Rightarrow> Inl e
        | Inr start \<Rightarrow> page_from ck dk cf db now device (1 < length roots) p limit snapshot (sort_key (entry_key dk) found) start))"
  using assms by (simp add: list_directory_page_def Let_def del: One_nat_def)

lemma chain_pages_at:
  assumes ask: "\<And>t pin. ask t pin = (case (if pin = [] then Inr [] else decode_cursor ck t p limit snapshot pin) of Inl e \<Rightarrow> Inl e
     | Inr after \<Rightarrow> (case position_after multi after es of Inl e \<Rightarrow> Inl e
        | Inr start \<Rightarrow> page_from ck dk cf db t device multi p limit snapshot es start))"
    and pos: "\<And>i. i < length es \<Longrightarrow> position_after multi (after_value multi (es ! i)) es = Inr (Suc i)"
    and limit: "1 \<le> limit"
  shows "page_chain ask pin pages \<Longrightarrow> in_time pages \<Longrightarrow> cursors_read_back ck p limit snapshot multi es (map fst pages) \<Longrightarrow>
    ask (fst (hd pages)) pin = page_from ck dk cf db (fst (hd pages)) device multi p limit snapshot es k \<Longrightarrow> k \<le> length es \<Longrightarrow>
    pages_at ck dk cf db device multi p limit snapshot es k pages"
proof (induction pages arbitrary: pin k)
  case (Cons a rest)
  obtain t pg where a: "a = (t, pg)" by (cases a)
  from Cons.prems(1,4) a have pf: "page_from ck dk cf db t device multi p limit snapshot es k = Inr pg" by simp
  note pg = page_from_Inr [OF pf Cons.prems(5) limit, THEN conjunct2]
  show ?case
  proof (cases "k + nat limit < length es")
    case True
    let ?i = "k + nat limit - 1"
    have i: "Suc ?i = k + nat limit" "?i < length es - 1" using True limit by auto
    have c: "lp_next pg = encode_cursor ck t p (after_value multi (es ! ?i)) limit snapshot" using pg True by simp
    with Cons.prems(1) a have linked: "page_chain ask (lp_next pg) rest" by (simp add: encode_cursor_not_Nil)
    then obtain t' pg' rest' where rest: "rest = (t', pg') # rest'" by (cases rest) auto
    have "es ! ?i \<in> set (butlast es)" using i(2) by (metis length_butlast nth_butlast nth_mem)
    then have read: "ck_loads ck (ck_dumps ck (cursor_json ck t p (after_value multi (es ! ?i)) limit snapshot)) =
        Some (cursor_json ck t p (after_value multi (es ! ?i)) limit snapshot)" "\<And>m. ck_check ck (ck_sign ck m) m"
      using Cons.prems(3) a by (auto simp: cursors_read_back_def)
    have "py_int t' \<le> py_int t + cursor_ttl" using Cons.prems(2) a rest by simp
    from decode_encode_cursor [OF read this] have d: "decode_cursor ck t' p limit snapshot (lp_next pg) = Inr (after_value multi (es ! ?i))"
      by (simp add: c)
    have "ask t' (lp_next pg) = page_from ck dk cf db t' device multi p limit snapshot es (k + nat limit)"
      using ask [of t' "lp_next pg"] d pos [of ?i] i encode_cursor_not_Nil by (simp add: c)
    moreover have "in_time rest" "cursors_read_back ck p limit snapshot multi es (map fst rest)"
      using Cons.prems(2,3) a rest by (simp_all add: cursors_read_back_def)
    ultimately have "pages_at ck dk cf db device multi p limit snapshot es (k + nat limit) rest"
      using Cons.IH [OF linked] rest True by simp
    with pf True a show ?thesis by simp
  next
    case False
    with pg have "lp_next pg = []" by simp
    with Cons.prems(1) a pf False show ?thesis by simp
  qed
qed simp

section \<open>Properties\<close>

text \<open>C17 (the pages are the directory). A client that follows the cursors of an unchanged directory, each within two
  minutes of the page it came with, gets every visible entry exactly once, in the order of the listing, as
  one list of items, in exactly as many pages as the limit asks for.\<close>

theorem pages_cover_directory:
  assumes "1 \<le> limit" and "limit \<le> max_list_limit" and "names_ok dk roots" and "collect dk cf roots = Some found"
    and "length found \<le> max_directory_entries" and "directory_snapshot digest dk (sort_key (entry_key dk) found) = Inr snapshot"
    and "page_chain (\<lambda>t pin. list_directory_page ck digest dk cf db t roots p limit pin device) [] pages" and "in_time pages"
    and "cursors_read_back ck p limit snapshot (1 < length roots) (sort_key (entry_key dk) found) (map fst pages)"
  shows "list_all2 (\<lambda>x y. \<exists>t. listed_item dk cf db t device (1 < length roots) x = Inr y)
      (sort_key (entry_key dk) found) (concat (map (\<lambda>a. lp_items (snd a)) pages)) \<and>
    distinct (map entry_id (sort_key (entry_key dk) found)) \<and>
    int (length pages) = max 1 ((int (length found) + limit - 1) div limit)"
proof -
  let ?es = "sort_key (entry_key dk) found" and ?multi = "1 < length roots"
  note found = collect_ok [OF assms(4,3)]
  have ok: "list_all entry_ok ?es" using found by (simp add: list_all_iff)
  have d: "distinct (map entry_id ?es)"
    using found by (simp add: distinct_map distinct_sort)
  have single: "\<forall>x \<in> set ?es. \<forall>y \<in> set ?es. fst x = fst y" if "\<not> ?multi"
  proof -
    from that have "length roots \<le> 1" by simp
    then have "\<exists>s. set (map fst roots) \<subseteq> {s}" by (cases roots) auto
    then obtain s where "set (map fst found) \<subseteq> {s}" using found by (meson subset_trans)
    then show ?thesis by auto
  qed
  have le0: "0 \<le> length ?es" by simp
  note pos = position_after_entry [OF ok d single]
  note ask = list_directory_page_eq [OF assms(1,2,4,5,6)]
  have "pages_at ck dk cf db device ?multi p limit snapshot ?es 0 pages"
    by (rule chain_pages_at [OF ask pos assms(1,7,8,9)]) (simp_all add: ask position_after_def)
  note all = pages_at_items [OF this le0 assms(1), unfolded drop_0 length_sort of_nat_0 diff_zero]
  have "(int (length found) + limit - 1) div limit = 0" if "length found = 0"
    using that assms(1) by (simp add: div_pos_pos_trivial)
  moreover have "1 \<le> (int (length found) + limit - 1) div limit" if "length found \<noteq> 0"
    using that assms(1) zdiv_mono1 [of limit "int (length found) + limit - 1" limit] by simp
  ultimately have eq: "(if 0 = length found then 1 else (int (length found) - int 0 + limit - 1) div limit) =
      max 1 ((int (length found) + limit - 1) div limit)" by (simp del: length_0_conv)
  show ?thesis by (intro conjI all [THEN conjunct1] d trans [OF all [THEN conjunct2] eq])
qed

definition demo_disk :: disk where
  "demo_disk = \<lparr>dk_fs = plain_fs [[''r'']] [[''r'', ''a''], [''r'', ''b'']], dk_names = (\<lambda>d. Some [''b'', ''a'']),
     dk_stat = (\<lambda>_. Some (1, 2)), dk_info = (\<lambda>e r. []), dk_audio = (\<lambda>e p s. None)\<rparr>"

definition demo_listed :: "listed_root list" where "demo_listed = [(''slot-1'', [''r''], [''r''])]"

definition demo_cursor :: json where
  "demo_cursor = JObj [(''after'', JStr ''a''), (''exp'', JInt 120), (''limit'', JInt 1), (''node'', JStr ''n''),
     (''path'', JStr ''/''), (''snapshot'', JStr []), (''v'', JInt 1)]"

definition demo_key :: cursor_key where
  "demo_key = \<lparr>ck_sign = id, ck_check = (=), ck_dumps = (\<lambda>_. []), ck_loads = (\<lambda>_. Some demo_cursor), ck_repr = (\<lambda>_. []), ck_node = ''n''\<rparr>"

lemma demo_collect: "collect demo_disk demo_conf demo_listed = Some [(''slot-1'', [''r''], [''r'', ''b'']), (''slot-1'', [''r''], [''r'', ''a''])]"
  by code_simp

lemma demo_sorted: "sort_key (entry_key demo_disk) [(''slot-1'', [''r''], [''r'', ''b'']), (''slot-1'', [''r''], [''r'', ''a''])] =
    [(''slot-1'', [''r''], [''r'', ''a'']), (''slot-1'', [''r''], [''r'', ''b''])]"
  by code_simp

lemma not_premium: "\<not> is_premium_folder f cf p empty_unlock_db"
  by (simp add: is_premium_folder_def get_premium_resource_info_def empty_unlock_db_def split: option.split)

lemma no_lock: "find_governing_premium_folder f cf p empty_unlock_db = None"
  "lock_status_for_path f cf now p device empty_unlock_db = Inr Unlocked"
proof -
  show n: "find_governing_premium_folder f cf p empty_unlock_db = None"
    by (simp add: find_governing_premium_folder_def find_None not_premium)
  show "lock_status_for_path f cf now p device empty_unlock_db = Inr Unlocked"
    by (simp add: lock_status_for_path_def n)
qed

lemma demo_snapshot: "directory_snapshot (\<lambda>_. []) demo_disk es = Inr []"
proof -
  have "snapshot_text demo_disk es \<noteq> None"
    by (induction es) (auto simp: demo_disk_def split: option.split)
  then show ?thesis by (auto simp: directory_snapshot_def)
qed

lemma demo_page:
  "list_directory_page demo_key (\<lambda>_. []) demo_disk demo_conf empty_unlock_db 0 demo_listed ''/'' 1 [] ''d'' =
     Inr \<lparr>lp_items = [JObj [(''path'', JStr ''/a''), (''modified_ns'', JInt 2), (''premium'', JBool False), (''locked'', JBool False)]],
          lp_next = encode_cursor demo_key 0 ''/'' ''a'' 1 []\<rparr>"
  "list_directory_page demo_key (\<lambda>_. []) demo_disk demo_conf empty_unlock_db 0 demo_listed ''/'' 1
     (encode_cursor demo_key 0 ''/'' ''a'' 1 []) ''d'' =
     Inr \<lparr>lp_items = [JObj [(''path'', JStr ''/b''), (''modified_ns'', JInt 2), (''premium'', JBool False), (''locked'', JBool False)]],
          lp_next = []\<rparr>"
proof -
  let ?es = "[(''slot-1'', [''r''], [''r'', ''a'']), (''slot-1'', [''r''], [''r'', ''b''])] :: listed list"
  have c: "cursor_json demo_key 0 ''/'' ''a'' 1 [] = demo_cursor"
    by (simp add: cursor_json_def demo_key_def demo_cursor_def cursor_ttl_def)
  have d: "decode_cursor demo_key 0 ''/'' 1 [] (encode_cursor demo_key 0 ''/'' ''a'' 1 []) = Inr ''a''"
    by (rule decode_encode_cursor) (simp_all add: c, simp_all add: demo_key_def cursor_ttl_def)
  have i: "listed_item demo_disk demo_conf empty_unlock_db 0 ''d'' False (''slot-1'', [''r''], [''r'', n]) =
      Inr (JObj [(''path'', JStr (CHR ''/'' # n)), (''modified_ns'', JInt 2), (''premium'', JBool False), (''locked'', JBool False)])" for n
    by (simp add: listed_item_def listed_path_def relative_to_def is_below_def rel_str_def no_lock Let_def) (simp add: demo_disk_def)
  have p: "position_after False ''a'' ?es = Inr 1" "position_after False [] ?es = Inr 0"
    by (simp_all add: position_after_def partition_nul_def name_of_def upt_rec)
  note eq = list_directory_page_eq [OF _ _ demo_collect _ demo_snapshot, unfolded demo_sorted]
  have r: "\<not> 1 < length demo_listed" by (simp add: demo_listed_def)
  show "list_directory_page demo_key (\<lambda>_. []) demo_disk demo_conf empty_unlock_db 0 demo_listed ''/'' 1 [] ''d'' =
     Inr \<lparr>lp_items = [JObj [(''path'', JStr ''/a''), (''modified_ns'', JInt 2), (''premium'', JBool False), (''locked'', JBool False)]],
          lp_next = encode_cursor demo_key 0 ''/'' ''a'' 1 []\<rparr>"
    using eq [of 1 demo_key empty_unlock_db 0 "''/''" "[]" "''d''"] r p(2)
    by (simp add: max_list_limit_def max_directory_entries_def page_from_def i after_value_def name_of_def del: One_nat_def)
      (simp add: demo_key_def)
  show "list_directory_page demo_key (\<lambda>_. []) demo_disk demo_conf empty_unlock_db 0 demo_listed ''/'' 1
     (encode_cursor demo_key 0 ''/'' ''a'' 1 []) ''d'' =
     Inr \<lparr>lp_items = [JObj [(''path'', JStr ''/b''), (''modified_ns'', JInt 2), (''premium'', JBool False), (''locked'', JBool False)]],
          lp_next = []\<rparr>"
    using eq [of 1 demo_key empty_unlock_db 0 "''/''" "encode_cursor demo_key 0 ''/'' ''a'' 1 []" "''d''"] r p(1) d
    by (simp add: max_list_limit_def max_directory_entries_def page_from_def i Let_def encode_cursor_not_Nil cong: sum.case_cong)
      (simp add: demo_key_def)
qed

definition demo_pages :: "(time \<times> listing_page) list" where
  "demo_pages =
     [(0, \<lparr>lp_items = [JObj [(''path'', JStr ''/a''), (''modified_ns'', JInt 2), (''premium'', JBool False), (''locked'', JBool False)]],
           lp_next = encode_cursor demo_key 0 ''/'' ''a'' 1 []\<rparr>),
      (0, \<lparr>lp_items = [JObj [(''path'', JStr ''/b''), (''modified_ns'', JInt 2), (''premium'', JBool False), (''locked'', JBool False)]],
           lp_next = []\<rparr>)]"

lemma demo_chain:
  "page_chain (\<lambda>t pin. list_directory_page demo_key (\<lambda>_. []) demo_disk demo_conf empty_unlock_db t demo_listed ''/'' 1 pin ''d'') [] demo_pages"
  "in_time demo_pages"
  by (simp_all add: demo_pages_def demo_page encode_cursor_not_Nil cursor_ttl_def)

lemma demo_names: "names_ok demo_disk demo_listed"
  by (simp add: names_ok_def demo_disk_def demo_listed_def)

lemma demo_read_back: "cursors_read_back demo_key ''/'' 1 [] False [(''slot-1'', [''r''], [''r'', ''a'']), (''slot-1'', [''r''], [''r'', ''b''])] (map fst demo_pages)"
proof -
  have "cursor_json demo_key 0 ''/'' ''a'' 1 [] = demo_cursor"
    by (simp add: cursor_json_def demo_key_def demo_cursor_def cursor_ttl_def)
  then show ?thesis
    by (simp add: cursors_read_back_def demo_pages_def after_value_def name_of_def) (simp add: demo_key_def)
qed

theorem pages_cover_directory_witness:
  "int (length demo_pages) = 2 \<and> list_all2 (\<lambda>x y. \<exists>t. listed_item demo_disk demo_conf empty_unlock_db t ''d'' False x = Inr y)
      [(''slot-1'', [''r''], [''r'', ''a'']), (''slot-1'', [''r''], [''r'', ''b''])] (concat (map (\<lambda>a. lp_items (snd a)) demo_pages))"
proof -
  have r: "(1 < length demo_listed) = False" by (simp add: demo_listed_def)
  note h = pages_cover_directory [of 1 demo_disk demo_listed demo_conf _ "\<lambda>_. []" "[]" demo_key empty_unlock_db "''/''" "''d''" demo_pages,
      OF _ _ demo_names demo_collect _ _ demo_chain, unfolded demo_sorted r]
  show ?thesis
    using h demo_read_back demo_snapshot by (simp add: max_list_limit_def max_directory_entries_def)
qed

end
