(* ===== verification/Json_Text.thy ===== *)
theory Json_Text
  imports Py_Codec
begin

text \<open>
  The text of JSON as Python's \<open>json\<close> module writes it for the cluster and the stores
  (\<open>dumps(value, separators=(",", ":"), sort_keys=True)\<close>) and reads it (\<open>loads\<close>). The texts of floats are the
  parameters \<open>rt\<close> and \<open>rl\<close>. A character is one of the first 256 code points, so an escape of
  a larger one makes the text unreadable here.
\<close>

section \<open>Writing\<close>

definition u_escape :: "char \<Rightarrow> string" where
  "u_escape c = [CHR 0x5C, CHR ''u'', CHR ''0'', CHR ''0'', digit_char (code c div 16), digit_char (code c mod 16)]"

definition short_escapes :: "(char \<times> char) list" where
  "short_escapes = [(CHR 0x22, CHR 0x22), (CHR 0x5C, CHR 0x5C), (CHR 0x08, CHR ''b''), (CHR 0x0C, CHR ''f''),
     (CHR 0x0A, CHR ''n''), (CHR 0x0D, CHR ''r''), (CHR 0x09, CHR ''t'')]"

definition write_char :: "char \<Rightarrow> string" where
  "write_char c =
     (case map_of short_escapes c of Some e \<Rightarrow> [CHR 0x5C, e]
      | None \<Rightarrow> if 32 \<le> code c \<and> code c < 127 then [c] else u_escape c)"

definition write_string :: "string \<Rightarrow> string" where
  "write_string s = CHR 0x22 # concat (map write_char s) @ [CHR 0x22]"

fun json_dumps :: "(real \<Rightarrow> string) \<Rightarrow> json \<Rightarrow> string" where
  "json_dumps rt JNull = ''null''"
| "json_dumps rt (JBool b) = (if b then ''true'' else ''false'')"
| "json_dumps rt (JInt n) = show_int n"
| "json_dumps rt (JReal x) = rt x"
| "json_dumps rt (JStr s) = write_string s"
| "json_dumps rt (JList xs) = ''['' @ join_with '','' (map (json_dumps rt) xs) @ '']''"
| "json_dumps rt (JObj ob) =
     ''{'' @ join_with '','' (map (\<lambda>(k, v). write_string k @ '':'' @ json_dumps rt v) (sort_key fst ob)) @ ''}''"

section \<open>Reading\<close>

definition skip_ws :: "string \<Rightarrow> string" where
  "skip_ws = dropWhile (\<lambda>c. c \<in> {CHR '' '', CHR 0x09, CHR 0x0A, CHR 0x0D})"

definition read_escape :: "char \<Rightarrow> char option" where
  "read_escape e = (if e = CHR ''/'' then Some e else map_of (map (\<lambda>(a, b). (b, a)) short_escapes) e)"

definition hex_val :: "char \<Rightarrow> nat" where
  "hex_val c = (let n = code c in if n \<le> 57 then n - 48 else if n \<le> 70 then n - 55 else n - 87)"

fun read_string :: "string \<Rightarrow> (string \<times> string) option" where
  "read_string [] = None"
| "read_string (c # cs) =
     (if c = CHR 0x22 then Some ([], cs)
      else if c = CHR 0x5C then
        (case cs of
           [] \<Rightarrow> None
         | e # cs' \<Rightarrow>
             if e = CHR ''u'' then
               (case cs' of
                  a # b # p # q # rest \<Rightarrow>
                    if a = CHR ''0'' \<and> b = CHR ''0'' \<and> is_hex p \<and> is_hex q
                    then map_option (\<lambda>(s, r). (char_of (16 * hex_val p + hex_val q) # s, r)) (read_string rest)
                    else None
                | _ \<Rightarrow> None)
             else (case read_escape e of None \<Rightarrow> None
                   | Some x \<Rightarrow> map_option (\<lambda>(s, r). (x # s, r)) (read_string cs')))
      else if code c < 32 then None
      else map_option (\<lambda>(s, r). (c # s, r)) (read_string cs))"

definition number_char :: "char \<Rightarrow> bool" where
  "number_char c \<longleftrightarrow> is_digit c \<or> c \<in> {CHR ''-'', CHR ''+'', CHR ''.'', CHR ''e'', CHR ''E''}"

definition read_digit_run :: "string \<Rightarrow> nat option" where
  "read_digit_run s =
     (if s = [] \<or> \<not> list_all is_digit s \<or> (hd s = CHR ''0'' \<and> s \<noteq> ''0'') then None else read_digits 0 s)"

definition read_number :: "(string \<Rightarrow> real option) \<Rightarrow> string \<Rightarrow> json option" where
  "read_number rl s =
     (if list_ex (\<lambda>c. c \<in> {CHR ''.'', CHR ''e'', CHR ''E''}) s then map_option JReal (rl s)
      else (case s of [] \<Rightarrow> None
            | c # cs \<Rightarrow> if c = CHR ''-'' then map_option (\<lambda>n. JInt (- int n)) (read_digit_run cs)
                       else map_option (\<lambda>n. JInt (int n)) (read_digit_run s)))"

text \<open>A recursive descent over the text; the depth is bounded by the first argument, which the length of
  the text always covers.\<close>

fun read_value :: "nat \<Rightarrow> (string \<Rightarrow> real option) \<Rightarrow> string \<Rightarrow> (json \<times> string) option"
and read_items :: "nat \<Rightarrow> (string \<Rightarrow> real option) \<Rightarrow> string \<Rightarrow> (json list \<times> string) option"
and read_members :: "nat \<Rightarrow> (string \<Rightarrow> real option) \<Rightarrow> string \<Rightarrow> (jobj \<times> string) option" where
  "read_value 0 rl s = None"
| "read_value (Suc n) rl s =
     (case skip_ws s of
        [] \<Rightarrow> None
      | c # cs \<Rightarrow>
          if c = CHR 0x22 then map_option (\<lambda>(t, r). (JStr t, r)) (read_string cs)
          else if c = CHR ''['' then
            (case skip_ws cs of
               [] \<Rightarrow> None
             | d # ds \<Rightarrow> if d = CHR '']'' then Some (JList [], ds)
                         else map_option (\<lambda>(xs, r). (JList xs, r)) (read_items n rl cs))
          else if c = CHR ''{'' then
            (case skip_ws cs of
               [] \<Rightarrow> None
             | d # ds \<Rightarrow> if d = CHR ''}'' then Some (JObj [], ds)
                         else map_option (\<lambda>(ob, r). (JObj ob, r)) (read_members n rl cs))
          else if starts_with (c # cs) ''null'' then Some (JNull, drop 4 (c # cs))
          else if starts_with (c # cs) ''true'' then Some (JBool True, drop 4 (c # cs))
          else if starts_with (c # cs) ''false'' then Some (JBool False, drop 5 (c # cs))
          else map_option (\<lambda>v. (v, dropWhile number_char (c # cs))) (read_number rl (takeWhile number_char (c # cs))))"
| "read_items 0 rl s = None"
| "read_items (Suc n) rl s =
     (case read_value n rl s of None \<Rightarrow> None
      | Some (v, r) \<Rightarrow>
          (case skip_ws r of
             [] \<Rightarrow> None
           | d # ds \<Rightarrow>
               if d = CHR '']'' then Some ([v], ds)
               else if d = CHR '','' then map_option (\<lambda>(xs, r). (v # xs, r)) (read_items n rl ds)
               else None))"
| "read_members 0 rl s = None"
| "read_members (Suc n) rl s =
     (case skip_ws s of
        [] \<Rightarrow> None
      | q # qs \<Rightarrow>
          if q \<noteq> CHR 0x22 then None
          else (case read_string qs of None \<Rightarrow> None
                | Some (k, r) \<Rightarrow>
                    (case skip_ws r of
                       [] \<Rightarrow> None
                     | m # ms \<Rightarrow>
                         if m \<noteq> CHR '':'' then None
                         else (case read_value n rl ms of None \<Rightarrow> None
                               | Some (v, r) \<Rightarrow>
                                   (case skip_ws r of
                                      [] \<Rightarrow> None
                                    | d # ds \<Rightarrow>
                                        if d = CHR ''}'' then Some ([(k, v)], ds)
                                        else if d = CHR '','' then map_option (\<lambda>(ob, r). ((k, v) # ob, r)) (read_members n rl ds)
                                        else None)))))"

text \<open>A key that occurs twice keeps its first place and its last value.\<close>

fun last_wins :: "json \<Rightarrow> json" where
  "last_wins (JList xs) = JList (map last_wins xs)"
| "last_wins (JObj ob) = JObj (fold (\<lambda>(k, v). dput k v) (map (\<lambda>(k, v). (k, last_wins v)) ob) [])"
| "last_wins v = v"

definition json_loads :: "(string \<Rightarrow> real option) \<Rightarrow> string \<Rightarrow> json option" where
  "json_loads rl s =
     (case read_value (2 * length s + 1) rl s of None \<Rightarrow> None
      | Some (v, r) \<Rightarrow> if skip_ws r = [] then Some (last_wins v) else None)"

section \<open>Round trip\<close>

text \<open>Values without floats whose objects have distinct keys in the order of \<open>sort_keys\<close>.\<close>

fun plain :: "json \<Rightarrow> bool" where
  "plain (JReal x) \<longleftrightarrow> False"
| "plain (JList xs) \<longleftrightarrow> list_all plain xs"
| "plain (JObj ob) \<longleftrightarrow> sorted (map fst ob) \<and> distinct (map fst ob) \<and> list_all (\<lambda>(k, v). plain v) ob"
| "plain JNull \<longleftrightarrow> True"
| "plain (JBool b) \<longleftrightarrow> True"
| "plain (JInt n) \<longleftrightarrow> True"
| "plain (JStr s) \<longleftrightarrow> True"

lemma hex_digit_char: "n < 16 \<Longrightarrow> is_hex (digit_char n) \<and> hex_val (digit_char n) = n"
proof -
  assume "n < 16"
  then have "n \<in> set [0 ..< 16]" by simp
  then show ?thesis
    by (auto simp: upt_rec digit_char_def is_hex_def hex_val_def code_def numeral_eq_Suc nth_Cons' split: if_splits)
qed

lemma read_string_escape:
  "map_of short_escapes c = Some e \<Longrightarrow> read_escape e = Some c \<and> e \<noteq> CHR ''u''"
  by (auto simp: short_escapes_def read_escape_def split: if_splits)

lemma read_write_char: "read_string (write_char c @ t) = map_option (\<lambda>(s, r). (c # s, r)) (read_string t)"
proof (cases "map_of short_escapes c")
  case (Some e)
  then show ?thesis using read_string_escape [OF Some] by (simp add: write_char_def)
next
  case None
  then have c: "c \<noteq> CHR 0x22" "c \<noteq> CHR 0x5C" by (auto simp: short_escapes_def split: if_splits)
  show ?thesis
  proof (cases "32 \<le> code c \<and> code c < 127")
    case True
    with None c show ?thesis by (simp add: write_char_def)
  next
    case False
    have "code c div 16 < 16" "code c mod 16 < 16" using code_less [of c] by linarith+
    note h = this [THEN hex_digit_char]
    have "16 * (code c div 16) + code c mod 16 = code c" by simp
    with h have "char_of (16 * hex_val (digit_char (code c div 16)) + hex_val (digit_char (code c mod 16))) = c" by simp
    with False None h c show ?thesis by (simp add: write_char_def u_escape_def)
  qed
qed

lemma read_write_string: "read_string (concat (map write_char s) @ CHR 0x22 # rest) = Some (s, rest)"
  by (induction s) (simp_all add: read_write_char)

lemma digit_char_zero: "n < 10 \<Longrightarrow> digit_char n = CHR ''0'' \<longleftrightarrow> n = 0"
  using digit_char_digit [of n] by (auto simp: digit_char_def digit_val_def code_def)

lemma hd_show_nat: "hd (show_nat n) = CHR ''0'' \<longleftrightarrow> n = 0"
proof (induction n rule: show_nat.induct)
  case (1 n)
  then show ?case using digit_char_zero [of n] by (subst show_nat.simps) (auto simp: hd_append)
qed

lemma read_digit_run_show: "read_digit_run (show_nat n) = Some n"
proof (cases "n = 0")
  case True
  then show ?thesis by (simp add: read_digit_run_def show_nat.simps digit_char_def is_digit_def digit_val_def code_def)
next
  case False
  then show ?thesis using show_nat_digits [of n] by (simp add: read_digit_run_def hd_show_nat read_show_digits)
qed

lemma digit_no_exp: "is_digit c \<Longrightarrow> c \<noteq> CHR ''.'' \<and> c \<noteq> CHR ''e'' \<and> c \<noteq> CHR ''E'' \<and> c \<noteq> CHR ''-''"
  by (auto simp: is_digit_def code_def Let_def)

lemma read_number_show: "read_number rl (show_int n) = Some (JInt n)"
proof -
  have d: "\<not> list_ex (\<lambda>c. c \<in> {CHR ''.'', CHR ''e'', CHR ''E''}) (show_nat m)" for m
    using show_nat_digits [of m] by (auto simp: list_ex_iff list_all_iff dest: digit_no_exp)
  obtain c cs where c: "show_nat (nat n) = c # cs" by (cases "show_nat (nat n)") auto
  then have "c \<noteq> CHR ''-''" using show_nat_digits [of "nat n"] by (auto dest: digit_no_exp)
  then show ?thesis
    using d [of "nat n"] d [of "nat (- n)"] c read_digit_run_show [of "nat n"]
    by (auto simp: read_number_def show_int_def read_digit_run_show)
qed

lemma show_int_chars: "list_all number_char (show_int n)"
  using show_nat_digits [of "nat n"] show_nat_digits [of "nat (- n)"]
  by (auto simp: show_int_def number_char_def list_all_iff)

definition stops :: "string \<Rightarrow> bool" where
  "stops rest \<longleftrightarrow> rest = [] \<or> \<not> number_char (hd rest)"

lemma take_number: "list_all number_char s \<Longrightarrow> stops rest \<Longrightarrow> takeWhile number_char (s @ rest) = s \<and> dropWhile number_char (s @ rest) = rest"
  by (induction s) (cases rest, auto simp: stops_def)

lemma stops_mark [simp]: "stops (CHR '']'' # r)" "stops (CHR ''}'' # r)" "stops (CHR '','' # r)" "stops []"
  by (simp_all add: stops_def number_char_def is_digit_def code_def)

lemma number_char_not: "number_char c \<Longrightarrow> c \<noteq> CHR 0x22 \<and> c \<noteq> CHR ''['' \<and> c \<noteq> CHR ''{'' \<and> c \<noteq> CHR ''n'' \<and> c \<noteq> CHR ''t'' \<and> c \<noteq> CHR ''f''
    \<and> c \<notin> {CHR '' '', CHR 0x09, CHR 0x0A, CHR 0x0D}"
  by (auto simp: number_char_def is_digit_def code_def Let_def)

lemma skip_ws_Cons: "c \<notin> {CHR '' '', CHR 0x09, CHR 0x0A, CHR 0x0D} \<Longrightarrow> skip_ws (c # cs) = c # cs"
  by (simp add: skip_ws_def)

lemma read_value_int:
  assumes "stops rest"
  shows "read_value (Suc n) rl (show_int i @ rest) = Some (JInt i, rest)"
proof -
  obtain c cs where c: "show_int i = c # cs" by (cases "show_int i") (auto simp: show_int_def split: if_splits)
  then have nc: "number_char c" using show_int_chars [of i] by simp
  note t = take_number [OF show_int_chars assms, of i]
  have "skip_ws (show_int i @ rest) = show_int i @ rest" using number_char_not [OF nc] by (simp add: c skip_ws_Cons)
  then show ?thesis using number_char_not [OF nc] t read_number_show [of rl i] by (simp add: c starts_with_def)
qed

definition reads_back :: "(real \<Rightarrow> string) \<Rightarrow> (string \<Rightarrow> real option) \<Rightarrow> json \<Rightarrow> bool" where
  "reads_back rt rl v \<longleftrightarrow> (\<forall>n rest. length (json_dumps rt v) \<le> n \<longrightarrow> stops rest \<longrightarrow> read_value n rl (json_dumps rt v @ rest) = Some (v, rest))"

lemma json_dumps_not_Nil: "plain v \<Longrightarrow> json_dumps rt v \<noteq> []"
  by (cases v) (auto simp: write_string_def show_int_def)

lemma starts_visible: "plain v \<Longrightarrow> skip_ws (json_dumps rt v @ r) = json_dumps rt v @ r \<and> hd (json_dumps rt v) \<noteq> CHR '']''"
proof (cases v)
  case (JInt n)
  obtain c cs where c: "show_int n = c # cs" by (cases "show_int n") (auto simp: show_int_def split: if_splits)
  then have "number_char c" using show_int_chars [of n] by simp
  then have "c \<notin> {CHR '' '', CHR 0x09, CHR 0x0A, CHR 0x0D}" "c \<noteq> CHR '']''"
    by (auto dest: number_char_not simp: number_char_def is_digit_def code_def)
  then show ?thesis by (simp add: JInt c skip_ws_Cons)
qed (simp_all add: skip_ws_def write_string_def)

lemma read_items_back:
  assumes "xs \<noteq> []" and "\<forall>x \<in> set xs. plain x \<and> reads_back rt rl x" and "length (join_with '','' (map (json_dumps rt) xs)) < n"
  shows "read_items n rl (join_with '','' (map (json_dumps rt) xs) @ CHR '']'' # rest) = Some (xs, rest)"
  using assms
proof (induction xs arbitrary: n)
  case (Cons x xs)
  from Cons.prems(3) obtain m where n: "n = Suc m" by (cases n) auto
  from Cons.prems(2) have b: "reads_back rt rl x" by simp
  show ?case
  proof (cases xs)
    case Nil
    with b Cons.prems(3) have "read_value m rl (json_dumps rt x @ CHR '']'' # rest) = Some (x, CHR '']'' # rest)"
      by (simp add: reads_back_def n)
    then show ?thesis by (simp add: n Nil skip_ws_Cons)
  next
    case (Cons y ys)
    let ?t = "join_with '','' (map (json_dumps rt) xs)"
    have j: "join_with '','' (map (json_dumps rt) (x # xs)) = json_dumps rt x @ CHR '','' # ?t" by (simp add: Cons)
    have "read_value m rl (json_dumps rt x @ CHR '','' # (?t @ CHR '']'' # rest)) = Some (x, CHR '','' # (?t @ CHR '']'' # rest))"
      using b Cons.prems(3) j by (simp add: reads_back_def n)
    moreover have "read_items m rl (?t @ CHR '']'' # rest) = Some (xs, rest)"
      using Cons.prems j by (intro Cons.IH) (auto simp: Cons n)
    ultimately show ?thesis unfolding j n by (simp add: skip_ws_Cons)
  qed
qed simp

definition write_member :: "(real \<Rightarrow> string) \<Rightarrow> string \<times> json \<Rightarrow> string" where
  "write_member rt kv = write_string (fst kv) @ '':'' @ json_dumps rt (snd kv)"

lemma read_member:
  assumes "reads_back rt rl v" and "length (write_member rt (k, v)) \<le> m" and "stops (d # rest)" and "d \<notin> {CHR '' '', CHR 0x09, CHR 0x0A, CHR 0x0D}"
  shows "read_members (Suc m) rl (write_member rt (k, v) @ d # rest) =
    (if d = CHR ''}'' then Some ([(k, v)], rest)
     else if d = CHR '','' then map_option (\<lambda>(ob, r). ((k, v) # ob, r)) (read_members m rl rest) else None)"
proof -
  have "read_value m rl (json_dumps rt v @ d # rest) = Some (v, d # rest)"
    using assms(1-3) by (simp add: reads_back_def write_member_def)
  moreover have "read_string (concat (map write_char k) @ CHR 0x22 # CHR '':'' # json_dumps rt v @ d # rest) =
      Some (k, CHR '':'' # json_dumps rt v @ d # rest)" by (rule read_write_string)
  ultimately show ?thesis using assms(4) by (simp add: write_member_def write_string_def skip_ws_Cons)
qed

lemma read_members_back:
  assumes "ob \<noteq> []" and "\<forall>kv \<in> set ob. reads_back rt rl (snd kv)" and "length (join_with '','' (map (write_member rt) ob)) < n"
  shows "read_members n rl (join_with '','' (map (write_member rt) ob) @ CHR ''}'' # rest) = Some (ob, rest)"
  using assms
proof (induction ob arbitrary: n)
  case (Cons kv ob)
  obtain k v where kv: "kv = (k, v)" by (cases kv)
  from Cons.prems(3) obtain m where n: "n = Suc m" by (cases n) auto
  from Cons.prems(2) have b: "reads_back rt rl v" by (simp add: kv)
  show ?case
  proof (cases ob)
    case Nil
    with Cons.prems(3) have "length (write_member rt (k, v)) \<le> m" by (simp add: n kv)
    from read_member [OF b this, of "CHR ''}''" rest] show ?thesis by (simp add: n kv Nil)
  next
    case (Cons y ys)
    let ?t = "join_with '','' (map (write_member rt) ob)"
    have j: "join_with '','' (map (write_member rt) (kv # ob)) = write_member rt (k, v) @ CHR '','' # ?t" by (simp add: Cons kv)
    have "read_members m rl (?t @ CHR ''}'' # rest) = Some (ob, rest)"
      using Cons.prems j by (intro Cons.IH) (auto simp: Cons n)
    moreover have "length (write_member rt (k, v)) \<le> m" using Cons.prems(3) j by (simp add: n)
    ultimately show ?thesis unfolding j n using read_member [OF b, of k m "CHR '',''" "?t @ CHR ''}'' # rest"] by (simp add: kv)
  qed
qed simp

lemma sort_members: "sorted (map fst ob) \<Longrightarrow> sort_key fst ob = ob"
  by (rule sort_key_id_if_sorted)

lemma plain_reads_back: "plain v \<Longrightarrow> reads_back rt rl v"
proof (induction v rule: plain.induct)
  case (2 xs)
  then have xs: "\<forall>x \<in> set xs. plain x \<and> reads_back rt rl x" by (auto simp: list_all_iff)
  show ?case
    unfolding reads_back_def
  proof (intro allI impI)
    fix n rest assume n: "length (json_dumps rt (JList xs)) \<le> n"
    then obtain m where m: "n = Suc m" by (cases n) auto
    show "read_value n rl (json_dumps rt (JList xs) @ rest) = Some (JList xs, rest)"
    proof (cases xs)
      case (Cons x ys)
      with xs have px: "plain x" by simp
      let ?t = "join_with '','' (map (json_dumps rt) xs) @ CHR '']'' # rest"
      have h: "\<exists>r. ?t = json_dumps rt x @ r" by (cases ys) (simp_all add: Cons)
      then obtain r where r: "?t = json_dumps rt x @ r" ..
      have "skip_ws ?t = ?t" "hd ?t \<noteq> CHR '']''"
        using starts_visible [OF px] json_dumps_not_Nil [OF px] unfolding r by simp_all
      moreover have "read_items m rl ?t = Some (xs, rest)" using xs n Cons by (intro read_items_back) (auto simp: m)
      ultimately show ?thesis by (cases ?t) (simp_all add: m skip_ws_Cons)
    qed (simp add: m skip_ws_Cons)
  qed
next
  case (3 ob)
  then have ob: "\<forall>kv \<in> set ob. reads_back rt rl (snd kv)" and s: "sort_key fst ob = ob"
    by (auto simp: list_all_iff intro: sort_members)
  have w: "(\<lambda>(k, v). write_string k @ '':'' @ json_dumps rt v) = write_member rt" by (auto simp: write_member_def)
  have d: "json_dumps rt (JObj ob) = CHR ''{'' # join_with '','' (map (write_member rt) ob) @ ''}''"
    unfolding json_dumps.simps s w by simp
  show ?case
    unfolding reads_back_def
  proof (intro allI impI)
    fix n rest assume n: "length (json_dumps rt (JObj ob)) \<le> n"
    then obtain m where m: "n = Suc m" by (cases n) auto
    show "read_value n rl (json_dumps rt (JObj ob) @ rest) = Some (JObj ob, rest)"
    proof (cases ob)
      case (Cons x ys)
      let ?t = "join_with '','' (map (write_member rt) ob) @ CHR ''}'' # rest"
      have h: "\<exists>r. ?t = CHR 0x22 # r" by (cases ys) (simp_all add: Cons write_member_def write_string_def)
      moreover have "read_members m rl ?t = Some (ob, rest)" using ob n [unfolded d] Cons by (intro read_members_back) (auto simp: m)
      ultimately show ?thesis by (auto simp: m d skip_ws_Cons simp del: json_dumps.simps)
    qed (simp add: m skip_ws_Cons)
  qed
next
  case 4
  then show ?case by (auto simp: reads_back_def starts_with_def skip_ws_Cons elim!: less_natE dest: Suc_le_D)
next
  case (5 b)
  then show ?case by (auto simp: reads_back_def starts_with_def skip_ws_Cons dest: Suc_le_D)
next
  case (6 i)
  show ?case
    unfolding reads_back_def json_dumps.simps
  proof (intro allI impI)
    fix n rest assume "length (show_int i) \<le> n" and st: "stops rest"
    moreover have "show_int i \<noteq> []" by (simp add: show_int_def)
    ultimately obtain m where m: "n = Suc m" by (cases n) auto
    show "read_value n rl (show_int i @ rest) = Some (JInt i, rest)" unfolding m by (rule read_value_int [OF st])
  qed
next
  case (7 s)
  then show ?case by (auto simp: reads_back_def write_string_def skip_ws_Cons read_write_string dest!: Suc_le_D)
qed simp

lemma fold_dput_distinct: "distinct (map fst (acc @ ob)) \<Longrightarrow> fold (\<lambda>(k, v). dput k v) ob acc = acc @ ob"
proof (induction ob arbitrary: acc)
  case (Cons a ob)
  then show ?case by (cases a) (auto simp: dput_new)
qed simp

lemma last_wins_plain: "plain v \<Longrightarrow> last_wins v = v"
proof (induction v rule: plain.induct)
  case (2 xs)
  then show ?case by (auto simp: list_all_iff intro: map_idI)
next
  case (3 ob)
  then have "map (\<lambda>(k, v). (k, last_wins v)) ob = ob" by (intro map_idI) (auto simp: list_all_iff)
  with 3 show ?case using fold_dput_distinct [of "[]" ob] by simp
qed simp_all

theorem json_roundtrip: "plain v \<Longrightarrow> json_loads rl (json_dumps rt v) = Some v"
proof -
  assume p: "plain v"
  let ?s = "json_dumps rt v"
  have "read_value (2 * length ?s + 1) rl (?s @ []) = Some (v, [])"
    using plain_reads_back [OF p, of rt rl] unfolding reads_back_def by (metis le_add1 mult_2 stops_mark(4) trans_le_add1)
  then show ?thesis by (simp add: json_loads_def last_wins_plain [OF p] skip_ws_def)
qed

end
