(* ===== verification/Cluster_Protocol.thy ===== *)
theory Cluster_Protocol
  imports Cluster_Listing Json_Text
begin

text \<open>
  The slave's side of the cluster protocol (\<^verbatim>\<open>core/cluster/protocol.py\<close>, \<open>SlaveFileProtocol\<close>) and the
  listener that answers a rejected ticket (\<open>ClusterFileListener._handle\<close> of \<^verbatim>\<open>core/cluster/runtime.py\<close>). A request
  is one frame on a connection; the answer is the text of the bytes sent back, the calls made to the
  replica store of the relays, and the way the handler ended. The checks of premium access are those
  \<^verbatim>\<open>runtime.py\<close> passes in. Derived media, the heartbeat callback and MIME types are parameters. A request
  reads the clock once.
\<close>

datatype slave_error =
    SE_Protocol | SE_Closed | SE_Permission | SE_Not_Found | SE_Ticket ticket_error | SE_Listing listing_error | SE_Py py_error

fun of_stream :: "stream_error \<Rightarrow> slave_error" where
  "of_stream Connection_Closed = SE_Closed"
| "of_stream Frame_Too_Large = SE_Protocol"
| "of_stream Frame_Length = SE_Protocol"
| "of_stream Frame_Invalid = SE_Protocol"

datatype slave_call = Unpaired | Relay_Write string string string | Relay_Delete string | Relay_Prune "string list"

record derived =
  dv_status :: int
  dv_mime :: string
  dv_body :: string

text \<open>The texts of JSON, \<open>str\<close> of a list or dictionary, and the Ed25519 check of the master's key.\<close>

record codec =
  cd_dumps :: "json \<Rightarrow> string"
  cd_loads :: "string \<Rightarrow> json option"
  cd_repr :: "json \<Rightarrow> string"
  cd_check :: "string \<Rightarrow> string \<Rightarrow> bool"

record slave =
  sp_roots :: "shared_root list"
  sp_node :: string
  sp_verifier :: verifier
  sp_disk :: disk
  sp_conf :: share_conf
  sp_db :: unlock_db
  sp_content :: "path \<Rightarrow> string"
  sp_mime :: "string \<Rightarrow> string option"
  sp_cursor :: "cursor_key option"
  sp_digest :: "string \<Rightarrow> string"
  sp_unpair :: bool
  sp_heartbeat :: "(jobj \<Rightarrow> string \<Rightarrow> json) option"
  sp_derived :: "(string \<Rightarrow> string \<Rightarrow> path \<Rightarrow> int list \<Rightarrow> derived) option"
  sp_relay_write :: bool
  sp_relay_delete :: bool
  sp_relay_prune :: bool

type_synonym outcome = "slave \<times> string \<times> slave_call list \<times> (slave_error + unit)"

definition stream_chunk :: nat where "stream_chunk = 256 * 1024"
definition max_derived_bytes :: nat where "max_derived_bytes = 8 * 1024 * 1024"

definition allowed_operations :: "string list" where
  "allowed_operations = [''STAT'', ''GET'', ''HEAD'', ''LIST'', ''PING'', ''UNPAIR'',
     ''P2P_RELAY_WRITE'', ''P2P_RELAY_DELETE'', ''P2P_RELAY_PRUNE''] @ derived_methods"

section \<open>Paths and ranges\<close>

definition root_path_for_slot :: "shared_root list \<Rightarrow> string \<Rightarrow> path option" where
  "root_path_for_slot roots slot = map_option snd (find (\<lambda>r. fst r = slot) roots)"

definition slave_resolve_file :: "fs \<Rightarrow> share_conf \<Rightarrow> shared_root list \<Rightarrow> string \<Rightarrow> slave_error + string \<times> path" where
  "slave_resolve_file f cf roots requested =
     (if \<not> starts_with requested ''/'' then Inl SE_Protocol
      else (case parse_shared_path requested ''slot-1'' of None \<Rightarrow> Inl SE_Protocol
            | Some (slot, relative) \<Rightarrow>
                (case root_path_for_slot roots slot of None \<Rightarrow> Inl SE_Protocol
                 | Some base \<Rightarrow>
                     (case resolve_visible_shared_path f cf base relative True slot None of None \<Rightarrow> Inl SE_Protocol
                      | Some target \<Rightarrow> Inr (slot, target)))))"

definition slave_resolve_directory :: "fs \<Rightarrow> share_conf \<Rightarrow> shared_root list \<Rightarrow> string \<Rightarrow> slave_error + string \<times> path" where
  "slave_resolve_directory f cf roots requested =
     (if \<not> starts_with requested ''/'' then Inl SE_Protocol
      else (case parse_shared_path requested ''slot-1'' of None \<Rightarrow> Inl SE_Protocol
            | Some (slot, relative) \<Rightarrow>
                (case root_path_for_slot roots slot of None \<Rightarrow> Inl SE_Protocol
                 | Some base \<Rightarrow>
                     (case resolve_visible_shared_path f cf base relative False slot None of None \<Rightarrow> Inl SE_Protocol
                      | Some target \<Rightarrow> if \<not> is_dir f target then Inl SE_Not_Found else Inr (slot, target)))))"

definition concrete_range :: "json \<Rightarrow> int \<Rightarrow> slave_error + byte_range option" where
  "concrete_range v sz =
     (case v of JNull \<Rightarrow> Inr None
      | JObj ob \<Rightarrow>
          (case range_of_json (JObj ob) of Inl e \<Rightarrow> Inl (SE_Py e)
           | Inr None \<Rightarrow> Inr None
           | Inr (Some r) \<Rightarrow> if sz \<le> br_end r then Inl SE_Protocol else Inr (Some r))
      | _ \<Rightarrow> Inl SE_Protocol)"

fun hex_nat :: "nat \<Rightarrow> string" where
  "hex_nat n = (if n < 16 then [digit_char n] else hex_nat (n div 16) @ [digit_char (n mod 16)])"

declare hex_nat.simps [simp del]

definition hex_int :: "int \<Rightarrow> string" where
  "hex_int n = (if n < 0 then CHR ''-'' # hex_nat (nat (- n)) else hex_nat (nat n))"

definition etag_of :: "int \<Rightarrow> int \<Rightarrow> string" where
  "etag_of sz mtime = [CHR 0x22] @ hex_int sz @ ''-'' @ hex_int mtime @ [CHR 0x22]"

section \<open>Answers\<close>

definition send :: "codec \<Rightarrow> jobj \<Rightarrow> string \<times> (slave_error + unit)" where
  "send cd ob = (case send_frame (cd_dumps cd) (JObj ob) of Inl e \<Rightarrow> ([], Inl (of_stream e)) | Inr b \<Rightarrow> (b, Inr ()))"

text \<open>One thing sent after another, unless the first failed.\<close>

definition and_then :: "string \<times> ('e + unit) \<Rightarrow> string \<times> ('e + unit) \<Rightarrow> string \<times> ('e + unit)" where
  "and_then a b = (case a of (out, Inl e) \<Rightarrow> (out, Inl e) | (out, Inr u) \<Rightarrow> (out @ fst b, snd b))"

definition answer :: "slave \<Rightarrow> slave_call list \<Rightarrow> string \<times> (slave_error + unit) \<Rightarrow> outcome" where
  "answer sl calls r = (sl, fst r, calls, snd r)"

definition refuse :: "slave \<Rightarrow> slave_error \<Rightarrow> outcome" where
  "refuse sl e = (sl, [], [], Inl e)"

definition str_field :: "codec \<Rightarrow> jobj \<Rightarrow> string \<Rightarrow> string" where
  "str_field cd req k = to_str (cd_repr cd) (jget_or req k (JStr []))"

definition protected_check :: "slave \<Rightarrow> string \<Rightarrow> bool" where
  "protected_check sl p = (find_governing_premium_folder (dk_fs (sp_disk sl)) (sp_conf sl) p (sp_db sl) \<noteq> None)"

definition access_check :: "slave \<Rightarrow> time \<Rightarrow> string \<Rightarrow> string \<Rightarrow> slave_error + bool" where
  "access_check sl now p device =
     (case lock_status_for_path (dk_fs (sp_disk sl)) (sp_conf sl) now p device (sp_db sl) of
        Inl e \<Rightarrow> Inl (SE_Py e) | Inr s \<Rightarrow> Inr (s = Unlocked))"

definition slave_verify :: "codec \<Rightarrow> time \<Rightarrow> string \<Rightarrow> presented \<Rightarrow> slave \<Rightarrow> slave \<times> (slave_error + unit)" where
  "slave_verify cd now token q sl =
     (case verify_and_consume (cd_repr cd) (cd_loads cd) (cd_check cd) now token q (sp_verifier sl) of
        (vf, Inl e) \<Rightarrow> (sl\<lparr>sp_verifier := vf\<rparr>, Inl (SE_Ticket e))
      | (vf, Inr c) \<Rightarrow> (sl\<lparr>sp_verifier := vf\<rparr>, Inr ()))"

text \<open>The check of premium access and the ticket, before anything is sent.\<close>

definition authorize :: "codec \<Rightarrow> time \<Rightarrow> jobj \<Rightarrow> bool \<Rightarrow> presented \<Rightarrow> slave \<Rightarrow> slave \<times> (slave_error + unit)" where
  "authorize cd now req protected q sl =
     (case (if protected then access_check sl now (pr_path q) (pr_device q) else Inr True) of
        Inl e \<Rightarrow> (sl, Inl e)
      | Inr ok \<Rightarrow> if \<not> ok then (sl, Inl SE_Permission) else slave_verify cd now (str_field cd req ''ticket'') q sl)"

section \<open>File contents\<close>

function stream_loop :: "nat \<Rightarrow> string \<Rightarrow> string \<times> (slave_error + unit)" where
  "stream_loop remaining stream =
     (if remaining = 0 then ([], Inr ())
      else (let chunk = take (min stream_chunk remaining) stream
            in if chunk = [] then ([], Inl SE_Closed)
               else and_then (chunk, Inr ()) (stream_loop (remaining - length chunk) (drop (length chunk) stream))))"
  by pat_completeness auto
termination by (relation "measure fst") (auto simp: stream_chunk_def)

declare stream_loop.simps [simp del]

definition range_text :: "byte_range option \<Rightarrow> int \<Rightarrow> json" where
  "range_text rg sz =
     (case rg of None \<Rightarrow> JNull
      | Some r \<Rightarrow> JStr (''bytes '' @ show_int (br_start r) @ ''-'' @ show_int (br_end r) @ ''/'' @ show_int sz))"

definition first_byte :: "byte_range option \<Rightarrow> int" where
  "first_byte rg = (case rg of None \<Rightarrow> 0 | Some r \<Rightarrow> br_start r)"

definition range_length :: "byte_range option \<Rightarrow> int \<Rightarrow> int" where
  "range_length rg sz = (case rg of None \<Rightarrow> sz - 1 | Some r \<Rightarrow> br_end r) - first_byte rg + 1"

definition content_header :: "byte_range option \<Rightarrow> int \<Rightarrow> string \<Rightarrow> string \<Rightarrow> jobj" where
  "content_header rg sz etag mime =
     [(''content_range'', range_text rg sz), (''etag'', JStr etag), (''length'', JInt (range_length rg sz)),
      (''mime'', JStr mime), (''size'', JInt sz), (''status'', JInt (if rg = None then 200 else 206))]"

definition handle_content ::
    "codec \<Rightarrow> time \<Rightarrow> jobj \<Rightarrow> string \<Rightarrow> string \<Rightarrow> path \<Rightarrow> int \<Rightarrow> string \<Rightarrow> string \<Rightarrow> bool \<Rightarrow> slave \<Rightarrow> outcome" where
  "handle_content cd now req op p target sz etag mime protected sl =
     (case concrete_range (jget req ''range'') sz of Inl e \<Rightarrow> refuse sl e
      | Inr rg \<Rightarrow>
          (case authorize cd now req protected
                  \<lparr>pr_audience = sp_node sl, pr_device = str_field cd req ''device_id'', pr_method = op, pr_path = p,
                   pr_range = rg, pr_protected = protected, pr_cursor = [], pr_limit = 0, pr_params = []\<rparr> sl of
             (sl, Inl e) \<Rightarrow> refuse sl e
           | (sl, Inr u) \<Rightarrow>
               answer sl []
                 (and_then (send cd (content_header rg sz etag mime))
                   (if op = ''HEAD'' then ([], Inr ())
                    else stream_loop (nat (range_length rg sz)) (drop (nat (first_byte rg)) (sp_content sl target))))))"

section \<open>Derived media\<close>

text \<open>The arguments of the derived resource: \<open>int(params[k])\<close> of the keys the operation takes.\<close>

definition derived_args :: "string \<Rightarrow> jobj \<Rightarrow> py_error + int list" where
  "derived_args op params =
     (if op = ''THUMBNAIL'' then int_items params [''width'', ''height'']
      else if op = ''WAVEFORM'' then int_items params [''samples''] else Inr [])"

definition handle_derived :: "codec \<Rightarrow> time \<Rightarrow> jobj \<Rightarrow> string \<Rightarrow> string \<Rightarrow> path \<Rightarrow> bool \<Rightarrow> slave \<Rightarrow> outcome" where
  "handle_derived cd now req op p target protected sl =
     (case sp_derived sl of None \<Rightarrow> refuse sl SE_Protocol
      | Some resource \<Rightarrow>
          if jget req ''range'' \<noteq> JNull then refuse sl SE_Protocol
          else (case (if protected then access_check sl now p (str_field cd req ''device_id'') else Inr True) of
                  Inl e \<Rightarrow> refuse sl e
                | Inr ok \<Rightarrow>
                    if \<not> ok then refuse sl SE_Permission
                    else (case to_dict (cd_repr cd) (or_default (jget req ''params'') (JObj [])) of
                            Inl e \<Rightarrow> refuse sl (SE_Py e)
                          | Inr params \<Rightarrow>
                              (case slave_verify cd now (str_field cd req ''ticket'')
                                      \<lparr>pr_audience = sp_node sl, pr_device = str_field cd req ''device_id'', pr_method = op, pr_path = p,
                                       pr_range = None, pr_protected = protected, pr_cursor = [], pr_limit = 0, pr_params = params\<rparr> sl of
                                 (sl, Inl e) \<Rightarrow> refuse sl e
                               | (sl, Inr u) \<Rightarrow>
                                   (case derived_args op params of Inl e \<Rightarrow> refuse sl (SE_Py e)
                                    | Inr args \<Rightarrow>
                                        (let r = resource op p target args
                                         in if max_derived_bytes < length (dv_body r) then refuse sl SE_Protocol
                                            else answer sl []
                                              (and_then (send cd [(''length'', JInt (int (length (dv_body r)))), (''mime'', JStr (dv_mime r)),
                                                                  (''status'', JInt (dv_status r))])
                                                 (dv_body r, Inr ()))))))))"

section \<open>Listings\<close>

definition listing_chunks :: "'a list \<Rightarrow> 'a list list" where
  "listing_chunks items =
     (if items = [] then [[]] else map (\<lambda>i. take 20 (drop (20 * i) items)) [0 ..< (length items + 19) div 20])"

fun listing_frames :: "string \<Rightarrow> json list list \<Rightarrow> jobj list" where
  "listing_frames pin [] = []"
| "listing_frames pin [c] =
     [[(''items'', JList c), (''more'', JBool False), (''next_cursor'', JStr pin), (''status'', JInt 200)]]"
| "listing_frames pin (c # cs) =
     [(''items'', JList c), (''more'', JBool True), (''next_cursor'', JStr []), (''status'', JInt 200)] # listing_frames pin cs"

fun send_all :: "codec \<Rightarrow> jobj list \<Rightarrow> string \<times> (slave_error + unit)" where
  "send_all cd [] = ([], Inr ())"
| "send_all cd (f # fs) = and_then (send cd f) (send_all cd fs)"

definition send_listing_page :: "codec \<Rightarrow> listing_page \<Rightarrow> string \<times> (slave_error + unit)" where
  "send_listing_page cd pg = send_all cd (listing_frames (lp_next pg) (listing_chunks (lp_items pg)))"

definition directory_roots :: "slave \<Rightarrow> string \<Rightarrow> slave_error + listed_root list" where
  "directory_roots sl p =
     (if p = ''/'' then Inr (map (\<lambda>(slot, rt). (slot, rt, rt)) (sp_roots sl))
      else (case slave_resolve_directory (dk_fs (sp_disk sl)) (sp_conf sl) (sp_roots sl) p of Inl e \<Rightarrow> Inl e
            | Inr (slot, directory) \<Rightarrow>
                (case root_path_for_slot (sp_roots sl) slot of None \<Rightarrow> Inl SE_Protocol | Some rt \<Rightarrow> Inr [(slot, rt, directory)])))"

definition handle_list :: "codec \<Rightarrow> time \<Rightarrow> jobj \<Rightarrow> string \<Rightarrow> slave \<Rightarrow> outcome" where
  "handle_list cd now req p sl =
     (case sp_cursor sl of None \<Rightarrow> refuse sl SE_Protocol
      | Some ck \<Rightarrow>
          (case directory_roots sl p of Inl e \<Rightarrow> refuse sl e
           | Inr roots \<Rightarrow>
               (let pin = to_str (cd_repr cd) (or_default (jget req ''cursor'') (JStr []))
                in case to_int (or_default (jget req ''limit'') (JInt 0)) of Inl e \<Rightarrow> refuse sl (SE_Py e)
                   | Inr limit \<Rightarrow>
                       (let device = str_field cd req ''device_id''; protected = protected_check sl p
                        in case authorize cd now req protected
                                  \<lparr>pr_audience = sp_node sl, pr_device = device, pr_method = ''LIST'', pr_path = p,
                                   pr_range = None, pr_protected = protected, pr_cursor = pin, pr_limit = limit, pr_params = []\<rparr> sl of
                             (sl, Inl e) \<Rightarrow> refuse sl e
                           | (sl, Inr u) \<Rightarrow>
                               (case list_directory_page ck (sp_digest sl) (sp_disk sl) (sp_conf sl) (sp_db sl) now roots p limit pin device of
                                  Inl e \<Rightarrow> refuse sl (SE_Listing e)
                                | Inr pg \<Rightarrow> answer sl [] (send_listing_page cd pg))))))"

section \<open>A request\<close>

definition handle_relay_write :: "codec \<Rightarrow> jobj \<Rightarrow> connection \<Rightarrow> slave \<Rightarrow> outcome" where
  "handle_relay_write cd req conn sl =
     (if \<not> sp_relay_write sl then refuse sl SE_Protocol
      else (case to_int (jget_or req ''length'' (JInt (- 1))) of Inl e \<Rightarrow> refuse sl (SE_Py e)
            | Inr n \<Rightarrow>
                if n < 0 \<or> 4 * 1024 * 1024 + 256 * 1024 < n then refuse sl SE_Protocol
                else (case (if n = 0 then Inr [] else fst (read_exact (nat n) conn)) of
                        Inl e \<Rightarrow> refuse sl (of_stream e)
                      | Inr payload \<Rightarrow>
                          answer sl [Relay_Write (str_field cd req ''relay_id'') (str_field cd req ''relative_path'') payload]
                            (send cd [(''status'', JInt 200)]))))"

definition handle_relay_prune :: "codec \<Rightarrow> jobj \<Rightarrow> slave \<Rightarrow> outcome" where
  "handle_relay_prune cd req sl =
     (if \<not> sp_relay_prune sl then refuse sl SE_Protocol
      else (case jget req ''active_relay_ids'' of
              JList active \<Rightarrow>
                if 64 < length active then refuse sl SE_Protocol
                else answer sl [Relay_Prune (map (to_str (cd_repr cd)) active)] (send cd [(''status'', JInt 200)])
            | _ \<Rightarrow> refuse sl SE_Protocol))"

definition handle_ping :: "codec \<Rightarrow> jobj \<Rightarrow> string \<Rightarrow> slave \<Rightarrow> outcome" where
  "handle_ping cd req peer sl =
     (let nonce = str_field cd req ''nonce''
      in if nonce = [] \<or> 64 < length nonce then refuse sl SE_Protocol
         else (let extra = (case sp_heartbeat sl of None \<Rightarrow> [] | Some callback \<Rightarrow> (case callback req peer of JObj ob \<Rightarrow> ob | _ \<Rightarrow> []))
               in answer sl [] (send cd (fold (\<lambda>(k, v). dput k v) extra [(''nonce'', JStr nonce), (''status'', JInt 200)]))))"

text \<open>The operations on a file: its metadata, derived media, its content.\<close>

definition handle_file :: "codec \<Rightarrow> time \<Rightarrow> jobj \<Rightarrow> string \<Rightarrow> string \<Rightarrow> slave \<Rightarrow> outcome" where
  "handle_file cd now req op p sl =
     (case slave_resolve_file (dk_fs (sp_disk sl)) (sp_conf sl) (sp_roots sl) p of Inl e \<Rightarrow> refuse sl e
      | Inr (slot, target) \<Rightarrow>
          (case dk_stat (sp_disk sl) target of None \<Rightarrow> refuse sl SE_Not_Found
           | Some (sz, mtime) \<Rightarrow>
               (let mime = (case sp_mime sl (name_of target) of Some m \<Rightarrow> if m = [] then ''application/octet-stream'' else m
                            | None \<Rightarrow> ''application/octet-stream'');
                    protected = protected_check sl p;
                    etag = etag_of sz mtime
                in if op = ''STAT''
                   then answer sl [] (send cd [(''etag'', JStr etag), (''mime'', JStr mime), (''protected'', JBool protected),
                                               (''size'', JInt sz), (''status'', JInt 200)])
                   else if op \<in> set derived_methods then handle_derived cd now req op p target protected sl
                   else handle_content cd now req op p target sz etag mime protected sl)))"

definition handle_request :: "codec \<Rightarrow> time \<Rightarrow> jobj \<Rightarrow> connection \<Rightarrow> string \<Rightarrow> slave \<Rightarrow> outcome" where
  "handle_request cd now req conn peer sl =
     (let op = str_upper (str_field cd req ''op'')
      in if op \<notin> set allowed_operations \<or> peer \<noteq> vf_issuer (sp_verifier sl) then refuse sl SE_Protocol
         else if op = ''UNPAIR'' then
           (if \<not> sp_unpair sl then refuse sl SE_Protocol
            else answer sl [Unpaired] (send cd [(''cleanup'', JStr ''confirmed''), (''status'', JInt 200)]))
         else if op = ''P2P_RELAY_WRITE'' then handle_relay_write cd req conn sl
         else if op = ''P2P_RELAY_DELETE'' then
           (if \<not> sp_relay_delete sl then refuse sl SE_Protocol
            else answer sl [Relay_Delete (str_field cd req ''relay_id'')] (send cd [(''status'', JInt 200)]))
         else if op = ''P2P_RELAY_PRUNE'' then handle_relay_prune cd req sl
         else if op = ''PING'' then handle_ping cd req peer sl
         else if op = ''LIST'' then handle_list cd now req (str_field cd req ''path'') sl
         else handle_file cd now req op (str_field cd req ''path'') sl)"

definition handle_once :: "codec \<Rightarrow> time \<Rightarrow> connection \<Rightarrow> string \<Rightarrow> slave \<Rightarrow> outcome" where
  "handle_once cd now conn peer sl =
     (case receive_frame (cd_loads cd) conn of
        (Inl e, conn) \<Rightarrow> refuse sl (of_stream e)
      | (Inr req, conn) \<Rightarrow> handle_request cd now req conn peer sl)"

fun ticket_code :: "ticket_error \<Rightarrow> string" where
  "ticket_code Malformed = ''malformed''"
| "ticket_code Invalid_Signature = ''invalid_signature''"
| "ticket_code Expired = ''expired''"
| "ticket_code Not_Yet_Valid = ''not_yet_valid''"
| "ticket_code Wrong_Audience = ''wrong_audience''"
| "ticket_code Wrong_Device = ''wrong_device''"
| "ticket_code Wrong_Request = ''wrong_request''"
| "ticket_code Revoked = ''revoked''"
| "ticket_code Replayed = ''replayed''"
| "ticket_code Unsupported_Version = ''unsupported_version''"
| "ticket_code Cache_Full = ''cache_full''"

definition rejection :: "ticket_error \<Rightarrow> jobj" where
  "rejection e = [(''error'', JStr (ticket_code e)), (''message'', JStr (''cluster ticket rejected: '' @ ticket_code e)), (''status'', JInt 403)]"

text \<open>\<open>ClusterFileListener._handle\<close>: what the peer receives before the connection is closed.\<close>

definition serve_connection :: "codec \<Rightarrow> time \<Rightarrow> connection \<Rightarrow> string \<Rightarrow> slave \<Rightarrow> slave \<times> string \<times> slave_call list" where
  "serve_connection cd now conn peer sl =
     (case handle_once cd now conn peer sl of
        (sl, out, calls, Inl (SE_Ticket e)) \<Rightarrow> (sl, out @ fst (send cd (rejection e)), calls)
      | (sl, out, calls, _) \<Rightarrow> (sl, out, calls))"

end
