(* ===== verification/Cluster_Relay.thy ===== *)
theory Cluster_Relay
  imports Cluster_Protocol
begin

text \<open>
  The master's side of the cluster protocol: the requests of \<^verbatim>\<open>core/cluster/protocol.py\<close> and the relay that
  answers a Player with a file of a slave (\<^verbatim>\<open>core/cluster/relay.py\<close>). A connection to a slave is one exchange:
  the bytes the master sends, and the bytes \<open>serve_connection\<close> sends back. The network \<open>net\<close> cuts either
  stream into pieces of its own choosing.
\<close>

datatype master_error = ME_Protocol | ME_Connection | ME_Remote string string | ME_Py py_error

fun of_frame :: "stream_error \<Rightarrow> master_error" where
  "of_frame Connection_Closed = ME_Connection"
| "of_frame Frame_Too_Large = ME_Protocol"
| "of_frame Frame_Length = ME_Protocol"
| "of_frame Frame_Invalid = ME_Protocol"

definition net_ok :: "(string \<Rightarrow> connection) \<Rightarrow> bool" where
  "net_ok net \<longleftrightarrow> (\<forall>s. pieces_ok (net s) \<and> concat (net s) = s)"

text \<open>\<open>connect_to\<close> to a slave that can be reached, and one request on the connection: the frame and the
  bytes after it. The slave authenticates the master as \<open>peer\<close>.\<close>

definition exchange ::
    "codec \<Rightarrow> (string \<Rightarrow> connection) \<Rightarrow> time \<Rightarrow> string \<Rightarrow> jobj \<Rightarrow> string \<Rightarrow> slave \<Rightarrow> slave \<times> slave_call list \<times> (master_error + connection)" where
  "exchange cd net now peer req payload sl =
     (case send_frame (cd_dumps cd) (JObj req) of Inl e \<Rightarrow> (sl, [], Inl (of_frame e))
      | Inr bytes \<Rightarrow>
          (case serve_connection cd now (net (bytes @ payload)) peer sl of (sl, out, calls) \<Rightarrow> (sl, calls, Inr (net out))))"

definition receive :: "codec \<Rightarrow> connection \<Rightarrow> (master_error + jobj) \<times> connection" where
  "receive cd conn = (case receive_frame (cd_loads cd) conn of (Inl e, conn) \<Rightarrow> (Inl (of_frame e), conn) | (Inr ob, conn) \<Rightarrow> (Inr ob, conn))"

definition item :: "jobj \<Rightarrow> string \<Rightarrow> master_error + json" where
  "item ob k = (case jitem ob k of Inl e \<Rightarrow> Inl (ME_Py e) | Inr v \<Rightarrow> Inr v)"

definition int_of :: "json \<Rightarrow> master_error + int" where
  "int_of v = (case to_int v of Inl e \<Rightarrow> Inl (ME_Py e) | Inr n \<Rightarrow> Inr n)"

section \<open>Metadata\<close>

record file_metadata =
  fm_size :: int
  fm_mime :: string
  fm_etag :: string
  fm_protected :: bool

definition stat_request :: "string \<Rightarrow> jobj" where
  "stat_request p = [(''op'', JStr ''STAT''), (''path'', JStr p)]"

definition metadata_of :: "codec \<Rightarrow> jobj \<Rightarrow> master_error + file_metadata" where
  "metadata_of cd response =
     (if \<not> py_eq (jget response ''status'') (JInt 200) then Inl ME_Protocol
      else (case (jitem response ''size'', jitem response ''mime'', jitem response ''etag'') of
              (Inr s, Inr m, Inr e) \<Rightarrow>
                (case to_int s of Inl er \<Rightarrow> Inl (ME_Py er)
                 | Inr n \<Rightarrow> Inr \<lparr>fm_size = n, fm_mime = to_str (cd_repr cd) m, fm_etag = to_str (cd_repr cd) e,
                             fm_protected = (jget response ''protected'' = JBool True)\<rparr>)
            | _ \<Rightarrow> Inl (ME_Py Key_Error)))"

definition request_metadata ::
    "codec \<Rightarrow> (string \<Rightarrow> connection) \<Rightarrow> time \<Rightarrow> string \<Rightarrow> string \<Rightarrow> slave \<Rightarrow> slave \<times> (master_error + file_metadata)" where
  "request_metadata cd net now peer p sl =
     (case exchange cd net now peer (stat_request p) [] sl of
        (sl, calls, Inl e) \<Rightarrow> (sl, Inl e)
      | (sl, calls, Inr conn) \<Rightarrow>
          (sl, case fst (receive cd conn) of Inl e \<Rightarrow> Inl e | Inr response \<Rightarrow> metadata_of cd response))"

section \<open>Ranges\<close>

definition int_text :: "string \<Rightarrow> py_error + int" where
  "int_text s = (case read_int s of None \<Rightarrow> Inl Value_Error | Some n \<Rightarrow> Inr n)"

text \<open>\<open>split("-", 1)\<close> unpacked into two names.\<close>

definition split_dash :: "string \<Rightarrow> (string \<times> string) option" where
  "split_dash s =
     (case dropWhile (\<lambda>c. c \<noteq> CHR ''-'') s of [] \<Rightarrow> None | d # rest \<Rightarrow> Some (takeWhile (\<lambda>c. c \<noteq> CHR ''-'') s, rest))"

definition resolve_http_range :: "string option \<Rightarrow> int \<Rightarrow> py_error + byte_range option" where
  "resolve_http_range header sz =
     (case header of None \<Rightarrow> Inr None
      | Some h \<Rightarrow>
          if h = [] then Inr None
          else if \<not> starts_with h ''bytes='' \<or> CHR '','' \<in> set h then Inl Value_Error
          else (case split_dash (str_strip (drop 6 h)) of None \<Rightarrow> Inl Value_Error
                | Some (start_text, end_text) \<Rightarrow>
                    if start_text = [] then
                      (case int_text end_text of Inl e \<Rightarrow> Inl e
                       | Inr suffix \<Rightarrow>
                           if suffix \<le> 0 then Inl Value_Error
                           else map_sum id Some (mk_range (max 0 (sz - suffix)) (sz - 1)))
                    else (case int_text start_text of Inl e \<Rightarrow> Inl e
                          | Inr a \<Rightarrow>
                              (case (if end_text \<noteq> [] then int_text end_text else Inr (sz - 1)) of Inl e \<Rightarrow> Inl e
                               | Inr b \<Rightarrow> map_sum id Some (mk_range a (min b (sz - 1)))))))"

section \<open>Relay\<close>

record master =
  mr_cluster :: string
  mr_node :: string
  mr_sign :: "string \<Rightarrow> string"
  mr_generation :: "string \<Rightarrow> int"

record relay_response =
  rr_status :: int
  rr_headers :: "(string \<times> string) list"
  rr_length :: int

definition file_request :: "string \<Rightarrow> string \<Rightarrow> byte_range option \<Rightarrow> string \<Rightarrow> string \<Rightarrow> jobj" where
  "file_request op p rg device ticket =
     [(''device_id'', JStr device), (''op'', JStr op), (''path'', JStr p), (''range'', range_json rg), (''ticket'', JStr ticket)]"

definition response_headers :: "codec \<Rightarrow> jobj \<Rightarrow> int \<Rightarrow> (string \<times> string) list" where
  "response_headers cd response n =
     [(''Content-Type'', to_str (cd_repr cd) (jget response ''mime'')), (''Content-Length'', show_int n),
      (''Accept-Ranges'', ''bytes''), (''ETag'', to_str (cd_repr cd) (jget response ''etag''))] @
     (if truthy (jget response ''content_range'')
      then [(''Content-Range'', to_str (cd_repr cd) (jget response ''content_range''))] else [])"

text \<open>The answer to a file request: its head, or the error it stands for.\<close>

definition relay_head :: "codec \<Rightarrow> jobj \<Rightarrow> master_error + relay_response" where
  "relay_head cd response =
     (case int_of (jget_or response ''status'' (JInt 500)) of Inl e \<Rightarrow> Inl e
      | Inr status \<Rightarrow>
          if status \<noteq> 200 \<and> status \<noteq> 206 then
            (if truthy (jget response ''error'')
             then Inl (ME_Remote (to_str (cd_repr cd) (jget response ''error''))
                    (if truthy (jget response ''message'') then to_str (cd_repr cd) (jget response ''message'') else ''slave rejected relay''))
             else Inl ME_Connection)
          else (case item response ''length'' of Inl e \<Rightarrow> Inl e
                | Inr v \<Rightarrow>
                    (case int_of v of Inl e \<Rightarrow> Inl e
                     | Inr n \<Rightarrow>
                         (case (item response ''mime'', item response ''etag'') of
                            (Inr m, Inr t) \<Rightarrow> Inr \<lparr>rr_status = status, rr_headers = response_headers cd response n, rr_length = n\<rparr>
                          | _ \<Rightarrow> Inl (ME_Py Key_Error)))))"

text \<open>The loop that copies the body to the Player: what it wrote, and whether the slave broke off.\<close>

function relay_loop :: "nat \<Rightarrow> connection \<Rightarrow> string \<times> (master_error + unit)" where
  "relay_loop remaining conn =
     (if remaining = 0 then ([], Inr ())
      else (case recv (min (256 * 1024) remaining) conn of
              (chunk, conn) \<Rightarrow>
                if chunk = [] then ([], Inl ME_Connection)
                else and_then (chunk, Inr ()) (relay_loop (remaining - length chunk) conn)))"
  by pat_completeness auto
termination by (relation "measure fst") (auto simp flip: length_greater_0_conv)

declare relay_loop.simps [simp del]

definition relay_ticket :: "master \<Rightarrow> string \<Rightarrow> string \<Rightarrow> string \<Rightarrow> string \<Rightarrow> byte_range option \<Rightarrow> bool \<Rightarrow> ticket_request" where
  "relay_ticket m slave_id device op p rg protected =
     \<lparr>tr_cluster = mr_cluster m, tr_issuer = mr_node m, tr_audience = slave_id, tr_device = device, tr_method = op, tr_path = p,
      tr_range = rg, tr_protected = protected, tr_generation = mr_generation m slave_id, tr_ttl = default_ttl,
      tr_cursor = [], tr_limit = 0, tr_params = []\<rparr>"

definition relay_file ::
    "codec \<Rightarrow> (string \<Rightarrow> connection) \<Rightarrow> master \<Rightarrow> time \<Rightarrow> string \<Rightarrow> string \<Rightarrow> string \<Rightarrow> string \<Rightarrow> string \<Rightarrow> string option \<Rightarrow> bool \<Rightarrow>
     slave \<Rightarrow> slave \<times> string \<times> (master_error + relay_response)" where
  "relay_file cd net m now ticket_id slave_id device p op header allow sl =
     (case request_metadata cd net now (mr_node m) p sl of
        (sl, Inl e) \<Rightarrow> (sl, [], Inl e)
      | (sl, Inr meta) \<Rightarrow>
          (case resolve_http_range header (fm_size meta) of Inl e \<Rightarrow> (sl, [], Inl (ME_Py e))
           | Inr rg \<Rightarrow>
               (case issue_ticket (cd_dumps cd) (mr_sign m) ticket_id now
                       (relay_ticket m slave_id device op p rg (allow \<and> fm_protected meta)) of
                  Inl e \<Rightarrow> (sl, [], Inl (ME_Py e))
                | Inr ticket \<Rightarrow>
                    (case exchange cd net now (mr_node m) (file_request op p rg device ticket) [] sl of
                       (sl, calls, Inl e) \<Rightarrow> (sl, [], Inl e)
                     | (sl, calls, Inr conn) \<Rightarrow>
                         (case receive cd conn of
                            (Inl e, conn) \<Rightarrow> (sl, [], Inl e)
                          | (Inr response, conn) \<Rightarrow>
                              (case relay_head cd response of Inl e \<Rightarrow> (sl, [], Inl e)
                               | Inr head \<Rightarrow>
                                   if op = ''GET'' then
                                     (if rr_length head < 0 then (sl, [], Inl (ME_Py Value_Error))
                                      else (case relay_loop (nat (rr_length head)) conn of
                                              (out, Inl e) \<Rightarrow> (sl, out, Inl e)
                                            | (out, Inr u) \<Rightarrow> (sl, out, Inr head)))
                                   else (sl, [], Inr head)))))))"

section \<open>The protocol over JSON\<close>

definition json_codec :: "(real \<Rightarrow> string) \<Rightarrow> (string \<Rightarrow> real option) \<Rightarrow> (json \<Rightarrow> string) \<Rightarrow> (string \<Rightarrow> string \<Rightarrow> bool) \<Rightarrow> codec" where
  "json_codec rt rl repr check = \<lparr>cd_dumps = json_dumps rt, cd_loads = json_loads rl, cd_repr = repr, cd_check = check\<rparr>"

lemma json_codec_sel [simp]:
  "cd_dumps (json_codec rt rl repr check) = json_dumps rt" "cd_loads (json_codec rt rl repr check) = json_loads rl"
  "cd_repr (json_codec rt rl repr check) = repr" "cd_check (json_codec rt rl repr check) = check"
  by (simp_all add: json_codec_def)

lemma take_then_drop: "take k s @ drop (length (take k s)) s = s"
  by (cases "k \<le> length s") (simp_all add: min_def)

lemma stream_loop_spec: "stream_loop n s = (take n s, if n \<le> length s then Inr () else Inl SE_Closed)"
proof (induction n s rule: stream_loop.induct)
  case (1 n s)
  show ?case
  proof (cases "n = 0 \<or> s = []")
    case True
    then show ?thesis by (auto simp: stream_loop.simps [of n] stream_chunk_def)
  next
    case False
    define c d where "c = take (min stream_chunk n) s" and "d = drop (length c) s"
    have c: "c \<noteq> []" using False by (simp add: c_def stream_chunk_def)
    have l: "length c \<le> n" by (simp add: c_def)
    have s: "s = c @ d" unfolding d_def c_def by (rule take_then_drop [symmetric])
    have "stream_loop (n - length c) d = (take (n - length c) d, if n - length c \<le> length d then Inr () else Inl SE_Closed)"
      using "1.IH" [OF _ c_def] False c unfolding d_def by simp
    moreover have "stream_loop n s = and_then (c, Inr ()) (stream_loop (n - length c) d)"
      using False c by (subst stream_loop.simps) (simp add: Let_def d_def flip: c_def)
    ultimately show ?thesis using l by (auto simp: and_then_def s)
  qed
qed

lemma relay_loop_spec:
  "pieces_ok conn \<Longrightarrow> relay_loop n conn = (take n (concat conn), if n \<le> length (concat conn) then Inr () else Inl ME_Connection)"
proof (induction n conn rule: relay_loop.induct)
  case (1 n conn)
  obtain chunk conn1 where c: "recv (min (256 * 1024) n) conn = (chunk, conn1)" by fastforce
  show ?case
  proof (cases "n = 0")
    case False
    show ?thesis
    proof (cases "chunk = []")
      case True
      with recv_closed [of "min (256 * 1024) n" conn conn1] c "1.prems" False have "conn = []" by simp
      then show ?thesis using False c True by (subst relay_loop.simps) simp
    next
      case chunk: False
      note ok = recv_pieces [OF c "1.prems"]
      have st: "concat conn = chunk @ concat conn1" using recv_stream [OF c] by simp
      have l: "length chunk \<le> n" using recv_length [OF c] by simp
      from "1.IH" [OF False c [symmetric] chunk ok] show ?thesis
        using False c chunk l st by (subst relay_loop.simps) (auto simp: and_then_def)
    qed
  qed (subst relay_loop.simps, simp)
qed

lemma protocol_plain [simp]:
  "plain (JObj (stat_request p))" "plain (JObj (file_request op p rg device ticket))"
  "plain (JObj (content_header rg sz etag mime))" "plain (JObj (rejection e))"
  by (simp_all add: stat_request_def file_request_def range_json_def content_header_def range_text_def rejection_def split: option.split)

lemma length_dumps_obj: "2 \<le> length (json_dumps rt (JObj ob))"
  by simp

lemma receive_json:
  assumes "send_frame (json_dumps rt) (JObj ob) = Inr bytes" and "plain (JObj ob)" and "pieces_ok conn" and "concat conn = bytes @ rest"
  shows "\<exists>conn'. receive_frame (json_loads rl) conn = (Inr ob, conn') \<and> pieces_ok conn' \<and> concat conn' = rest"
proof (rule receive_sent [where dumps = "json_dumps rt"])
  show "json_loads rl (json_dumps rt (JObj ob)) = Some (JObj ob)" by (rule json_roundtrip [OF assms(2)])
qed (rule assms length_dumps_obj)+

lemma receive_closed:
  assumes "pieces_ok conn" and "concat conn = []"
  shows "fst (receive_frame loads conn) = Inl Connection_Closed"
proof -
  obtain r conn' where "read_exact 4 conn = (r, conn')" by fastforce
  with read_exact_spec [OF this assms(1)] assms(2) show ?thesis by (simp add: receive_frame_def exact_spec_def)
qed

text \<open>What the master receives is what the handler sent for the object it asked with.\<close>

lemma exchange_json:
  fixes rt rl repr check defines "cd \<equiv> json_codec rt rl repr check"
  assumes "net_ok net" and "plain (JObj req)"
  shows "\<exists>conn. concat conn = payload \<and> pieces_ok conn \<and> exchange cd net now peer req payload sl =
    (case send_frame (json_dumps rt) (JObj req) of Inl e \<Rightarrow> (sl, [], Inl (of_frame e))
     | Inr b \<Rightarrow> (case handle_request cd now req conn peer sl of
          (sl', out, calls, Inl (SE_Ticket e)) \<Rightarrow> (sl', calls, Inr (net (out @ fst (send cd (rejection e)))))
        | (sl', out, calls, _) \<Rightarrow> (sl', calls, Inr (net out))))"
proof (cases "send_frame (json_dumps rt) (JObj req)")
  case (Inl e)
  have "concat (net payload) = payload \<and> pieces_ok (net payload)" using assms(2) by (simp add: net_ok_def)
  then show ?thesis using Inl by (auto simp: exchange_def cd_def)
next
  case (Inr b)
  have n: "pieces_ok (net (b @ payload))" "concat (net (b @ payload)) = b @ payload" using assms(2) by (simp_all add: net_ok_def)
  from receive_json [OF Inr assms(3) n, of rl] obtain conn where
    conn: "receive_frame (json_loads rl) (net (b @ payload)) = (Inr req, conn)" "pieces_ok conn" "concat conn = payload" by blast
  then have "exchange cd net now peer req payload sl = (case handle_request cd now req conn peer sl of
          (sl', out, calls, Inl (SE_Ticket e)) \<Rightarrow> (sl', calls, Inr (net (out @ fst (send cd (rejection e)))))
        | (sl', out, calls, _) \<Rightarrow> (sl', calls, Inr (net out)))"
    by (auto simp: exchange_def serve_connection_def handle_once_def Inr cd_def split: prod.split sum.split slave_error.split)
  with conn(2,3) show ?thesis by (auto simp: Inr)
qed

section \<open>Answers of the slave\<close>

lemma str_upper_ops: "str_upper ''STAT'' = ''STAT''" "str_upper ''GET'' = ''GET''" "str_upper ''HEAD'' = ''HEAD''"
  by (simp_all add: str_upper_def upper_of_def char_eval)

lemma handle_stat:
  "handle_request cd now (stat_request p) conn peer sl =
    (if peer \<noteq> vf_issuer (sp_verifier sl) then refuse sl SE_Protocol else handle_file cd now (stat_request p) ''STAT'' p sl)"
  by (simp add: handle_request_def stat_request_def str_field_def jget_or_def str_upper_ops allowed_operations_def Let_def)

lemma handle_file_request:
  assumes "op = ''GET'' \<or> op = ''HEAD''"
  shows "handle_request cd now (file_request op p rg device ticket) conn peer sl =
    (if peer \<noteq> vf_issuer (sp_verifier sl) then refuse sl SE_Protocol
     else handle_file cd now (file_request op p rg device ticket) op p sl)"
  using assms by (elim disjE; simp add: handle_request_def file_request_def str_field_def jget_or_def str_upper_ops allowed_operations_def Let_def)

text \<open>The file a path stands for: its place, size and time stamp.\<close>

definition shared_file :: "slave \<Rightarrow> string \<Rightarrow> (path \<times> int \<times> int) option" where
  "shared_file sl p =
     (case slave_resolve_file (dk_fs (sp_disk sl)) (sp_conf sl) (sp_roots sl) p of Inl e \<Rightarrow> None
      | Inr (slot, target) \<Rightarrow> map_option (Pair target) (dk_stat (sp_disk sl) target))"

definition slave_mime :: "slave \<Rightarrow> path \<Rightarrow> string" where
  "slave_mime sl target = (case sp_mime sl (name_of target) of Some m \<Rightarrow> if m = [] then ''application/octet-stream'' else m
     | None \<Rightarrow> ''application/octet-stream'')"

lemma slave_mime_verifier [simp]: "slave_mime (sl\<lparr>sp_verifier := vf\<rparr>) = slave_mime sl"
  by (simp add: slave_mime_def fun_eq_iff)

definition stat_answer :: "slave \<Rightarrow> string \<Rightarrow> path \<times> int \<times> int \<Rightarrow> jobj" where
  "stat_answer sl p = (\<lambda>(target, sz, mtime).
     [(''etag'', JStr (etag_of sz mtime)), (''mime'', JStr (slave_mime sl target)), (''protected'', JBool (protected_check sl p)),
      (''size'', JInt sz), (''status'', JInt 200)])"

lemma stat_answer_plain [simp]: "plain (JObj (stat_answer sl p x))"
  by (simp add: stat_answer_def split: prod.split)

lemma of_stream_not_ticket [simp]: "of_stream e \<noteq> SE_Ticket t"
  by (cases e) simp_all

lemma send_cases:
  obtains (Failed) e where "send cd f = ([], Inl e)" and "\<forall>t. e \<noteq> SE_Ticket t"
  | (Sent) b where "send cd f = (b, Inr ())" and "send_frame (cd_dumps cd) (JObj f) = Inr b"
  by (cases "send_frame (cd_dumps cd) (JObj f)") (simp_all add: send_def)

lemma receive_nothing:
  assumes "net_ok net"
  shows "fst (receive cd (net [])) = Inl ME_Connection"
proof -
  have "fst (receive_frame (cd_loads cd) (net [])) = Inl Connection_Closed"
    using assms by (intro receive_closed) (simp_all add: net_ok_def)
  then show ?thesis by (cases "receive_frame (cd_loads cd) (net [])") (simp add: receive_def)
qed

lemma receive_answer:
  fixes rt rl repr check defines "cd \<equiv> json_codec rt rl repr check"
  assumes "send_frame (cd_dumps cd) (JObj f) = Inr b" and "plain (JObj f)" and "net_ok net"
  shows "\<exists>conn. receive cd (net (b @ rest)) = (Inr f, conn) \<and> pieces_ok conn \<and> concat conn = rest"
proof -
  have "pieces_ok (net (b @ rest))" "concat (net (b @ rest)) = b @ rest" using assms(4) by (simp_all add: net_ok_def)
  from receive_json [OF _ assms(3) this, of rt rl] assms(2) show ?thesis by (auto simp: receive_def cd_def)
qed

lemma slave_resolve_file_error: "slave_resolve_file f cf roots p = Inl e \<Longrightarrow> e = SE_Protocol"
  by (auto simp: slave_resolve_file_def split: if_splits option.splits)

lemma handle_stat_file:
  "(case shared_file sl p of
      None \<Rightarrow> \<exists>e. handle_file cd now req ''STAT'' p sl = refuse sl e \<and> (\<forall>t. e \<noteq> SE_Ticket t)
    | Some x \<Rightarrow> handle_file cd now req ''STAT'' p sl = answer sl [] (send cd (stat_answer sl p x)))"
  by (auto simp: handle_file_def shared_file_def stat_answer_def slave_mime_def Let_def dest: slave_resolve_file_error
      split: sum.split option.split prod.split)

lemma metadata_of_stat:
  "metadata_of cd (stat_answer sl p (target, sz, mtime)) =
    Inr \<lparr>fm_size = sz, fm_mime = slave_mime sl target, fm_etag = etag_of sz mtime, fm_protected = protected_check sl p\<rparr>"
  by (simp add: metadata_of_def stat_answer_def jget_def jitem_def)

lemma metadata_sound:
  fixes rt rl repr check defines "cd \<equiv> json_codec rt rl repr check"
  assumes net: "net_ok net" and r: "request_metadata cd net now peer p sl = (sl', Inr meta)"
  shows "sl' = sl \<and> peer = vf_issuer (sp_verifier sl) \<and>
    (\<exists>target sz mtime. shared_file sl p = Some (target, sz, mtime) \<and> fm_size meta = sz \<and> fm_protected meta = protected_check sl p)"
proof -
  from exchange_json [OF net protocol_plain(1), of "[]" rt rl repr check now peer p sl] obtain conn where
    x: "exchange cd net now peer (stat_request p) [] sl =
    (case send_frame (json_dumps rt) (JObj (stat_request p)) of Inl e \<Rightarrow> (sl, [], Inl (of_frame e))
     | Inr b \<Rightarrow> (case handle_request cd now (stat_request p) conn peer sl of
          (sl', out, calls, Inl (SE_Ticket e)) \<Rightarrow> (sl', calls, Inr (net (out @ fst (send cd (rejection e)))))
        | (sl', out, calls, _) \<Rightarrow> (sl', calls, Inr (net out))))" unfolding cd_def by blast
  obtain b where b: "send_frame (json_dumps rt) (JObj (stat_request p)) = Inr b"
    using r by (cases "send_frame (json_dumps rt) (JObj (stat_request p))") (auto simp: request_metadata_def x)
  have no_reply: False if "exchange cd net now peer (stat_request p) [] sl = (sl, [], Inr (net []))"
    using r that receive_nothing [OF net, of cd] by (simp add: request_metadata_def)
  have peer: "peer = vf_issuer (sp_verifier sl)"
  proof (rule ccontr)
    assume "peer \<noteq> vf_issuer (sp_verifier sl)"
    then have "exchange cd net now peer (stat_request p) [] sl = (sl, [], Inr (net []))" by (simp add: x b handle_stat refuse_def)
    from no_reply [OF this] show False .
  qed
  have hr: "handle_request cd now (stat_request p) conn peer sl = handle_file cd now (stat_request p) ''STAT'' p sl"
    using peer by (simp add: handle_stat)
  show ?thesis
  proof (cases "shared_file sl p")
    case None
    with handle_stat_file [where sl = sl and p = p and cd = cd and now = now and req = "stat_request p"] obtain e where
      "handle_file cd now (stat_request p) ''STAT'' p sl = refuse sl e" "\<forall>t. e \<noteq> SE_Ticket t" by auto
    then have "exchange cd net now peer (stat_request p) [] sl = (sl, [], Inr (net []))"
      by (simp add: x b hr refuse_def split: slave_error.split)
    from no_reply [OF this] show ?thesis ..
  next
    case (Some y)
    obtain target sz mtime where y: "y = (target, sz, mtime)" by (cases y)
    from Some handle_stat_file [where sl = sl and p = p and cd = cd and now = now and req = "stat_request p"]
    have h: "handle_file cd now (stat_request p) ''STAT'' p sl = answer sl [] (send cd (stat_answer sl p y))" by simp
    show ?thesis
    proof (cases rule: send_cases [of cd "stat_answer sl p y"])
      case (Failed e)
      then have "exchange cd net now peer (stat_request p) [] sl = (sl, [], Inr (net []))"
        by (simp add: x b hr h answer_def split: slave_error.split)
      from no_reply [OF this] show ?thesis ..
    next
      case (Sent c)
      from receive_answer [OF Sent(2) [unfolded cd_def] stat_answer_plain net, of "[]"] have "fst (receive cd (net c)) = Inr (stat_answer sl p y)"
        by (auto simp: cd_def)
      moreover have "exchange cd net now peer (stat_request p) [] sl = (sl, [], Inr (net c))"
        by (simp add: x b hr h answer_def Sent(1))
      ultimately have "sl' = sl" "meta = \<lparr>fm_size = sz, fm_mime = slave_mime sl target, fm_etag = etag_of sz mtime, fm_protected = protected_check sl p\<rparr>"
        using r by (auto simp: request_metadata_def y metadata_of_stat)
      with peer Some y show ?thesis by simp
    qed
  qed
qed

section \<open>The bytes of a file\<close>

definition valid_range :: "byte_range option \<Rightarrow> bool" where
  "valid_range rg \<longleftrightarrow> (case rg of None \<Rightarrow> True | Some r \<Rightarrow> 0 \<le> br_start r \<and> br_start r \<le> br_end r)"

lemma mk_range_Inr: "mk_range a b = Inr r \<longleftrightarrow> 0 \<le> a \<and> a \<le> b \<and> r = \<lparr>br_start = a, br_end = b\<rparr>"
  by (auto simp: mk_range_def)

lemma concrete_range_json:
  assumes "valid_range rg"
  shows "concrete_range (range_json rg) sz = (case rg of None \<Rightarrow> Inr None | Some r \<Rightarrow> if sz \<le> br_end r then Inl SE_Protocol else Inr (Some r))"
  using assms
  by (auto simp: concrete_range_def range_json_def valid_range_def range_of_json_def int_item_def jitem_def mk_range_def
      split: option.split)

definition requested_bytes :: "slave \<Rightarrow> path \<Rightarrow> byte_range option \<Rightarrow> int \<Rightarrow> string" where
  "requested_bytes sl target rg sz = take (nat (range_length rg sz)) (drop (nat (first_byte rg)) (sp_content sl target))"

definition permits :: "slave \<Rightarrow> time \<Rightarrow> string \<Rightarrow> string \<Rightarrow> bool" where
  "permits sl now p device \<longleftrightarrow> (protected_check sl p \<longrightarrow> access_check sl now p device = Inr True)"

lemma slave_verify_slave: "slave_verify cd now token q sl = (sl', r) \<Longrightarrow> \<exists>vf. sl' = sl\<lparr>sp_verifier := vf\<rparr>"
  by (auto simp: slave_verify_def split: prod.splits sum.splits)

lemma authorize_Inr:
  "authorize cd now req protected q sl = (sl', Inr u) \<Longrightarrow>
    (protected \<longrightarrow> access_check sl now (pr_path q) (pr_device q) = Inr True) \<and> (\<exists>vf. sl' = sl\<lparr>sp_verifier := vf\<rparr>)"
  by (auto simp: authorize_def dest: slave_verify_slave split: sum.splits if_splits)

lemma authorize_content: "authorize cd now req protected q sl = (sl', Inr u) \<Longrightarrow> sp_content sl' = sp_content sl"
  by (drule authorize_Inr) auto

definition content_request :: "slave \<Rightarrow> string \<Rightarrow> string \<Rightarrow> byte_range option \<Rightarrow> presented" where
  "content_request sl p device rg = \<lparr>pr_audience = sp_node sl, pr_device = device, pr_method = ''GET'', pr_path = p,
     pr_range = rg, pr_protected = protected_check sl p, pr_cursor = [], pr_limit = 0, pr_params = []\<rparr>"

lemma handle_get_eq:
  assumes "shared_file sl p = Some (target, sz, mtime)" and "valid_range rg"
  shows "handle_file cd now (file_request ''GET'' p rg device ticket) ''GET'' p sl =
    (if (\<exists>r. rg = Some r \<and> sz \<le> br_end r) then refuse sl SE_Protocol
     else (case authorize cd now (file_request ''GET'' p rg device ticket) (protected_check sl p) (content_request sl p device rg) sl of
             (sl', Inl e) \<Rightarrow> refuse sl' e
           | (sl', Inr u) \<Rightarrow>
               answer sl' []
                 (and_then (send cd (content_header rg sz (etag_of sz mtime) (slave_mime sl target)))
                    (stream_loop (nat (range_length rg sz)) (drop (nat (first_byte rg)) (sp_content sl target))))))"
proof -
  let ?req = "file_request ''GET'' p rg device ticket"
  from assms(1) obtain slot where f: "slave_resolve_file (dk_fs (sp_disk sl)) (sp_conf sl) (sp_roots sl) p = Inr (slot, target)"
    "dk_stat (sp_disk sl) target = Some (sz, mtime)" by (auto simp: shared_file_def split: sum.splits)
  have d: "str_field cd ?req ''device_id'' = device" "jget ?req ''range'' = range_json rg"
    by (simp_all add: file_request_def str_field_def jget_or_def jget_def)
  obtain sl1 r where a: "authorize cd now ?req (protected_check sl p) (content_request sl p device rg) sl = (sl1, r)" by fastforce
  have c: "sp_content sl1 = sp_content sl" if "r = Inr ()" using authorize_content [OF a [unfolded that]] .
  show ?thesis
    using concrete_range_json [OF assms(2), of sz] a c d
    by (cases r; cases rg) (simp_all add: handle_file_def f Let_def slave_mime_def handle_content_def derived_methods_def content_request_def)
qed

lemma handle_get_file:
  assumes "handle_file cd now (file_request ''GET'' p rg device ticket) ''GET'' p sl = (sl', out, calls, res)"
    and "shared_file sl p = Some (target, sz, mtime)" and "valid_range rg"
  shows "out = [] \<or>
    (\<exists>b. send_frame (cd_dumps cd) (JObj (content_header rg sz (etag_of sz mtime) (slave_mime sl target))) = Inr b \<and>
       out = b @ requested_bytes sl target rg sz \<and> permits sl now p device \<and> (\<forall>t. res \<noteq> Inl (SE_Ticket t)))"
proof (cases "out = []")
  case out: False
  let ?h = "content_header rg sz (etag_of sz mtime) (slave_mime sl target)"
  let ?a = "authorize cd now (file_request ''GET'' p rg device ticket) (protected_check sl p) (content_request sl p device rg) sl"
  note eq = assms(1) [unfolded handle_get_eq [OF assms(2,3)]]
  from eq out obtain vf where a: "?a = (sl\<lparr>sp_verifier := vf\<rparr>, Inr ())"
    by (cases ?a) (auto simp: refuse_def dest: authorize_Inr split: sum.splits if_splits)
  then have ok: "permits sl now p device" by (auto simp: permits_def content_request_def dest: authorize_Inr)
  have out': "(out, res) = and_then (send cd ?h) (stream_loop (nat (range_length rg sz)) (drop (nat (first_byte rg)) (sp_content sl target)))"
    using eq out by (auto simp: a answer_def refuse_def prod_eq_iff split: if_splits)
  show ?thesis
  proof (cases rule: send_cases [of cd ?h])
    case (Failed e)
    with out out' show ?thesis by (simp add: and_then_def)
  next
    case (Sent b)
    with out' ok show ?thesis by (auto simp: and_then_def stream_loop_spec requested_bytes_def)
  qed
qed simp

lemma resolve_http_range_valid:
  assumes "resolve_http_range header sz = Inr rg"
  shows "valid_range rg" and "\<forall>r. rg = Some r \<longrightarrow> br_end r < sz"
  using assms
  by (auto simp: resolve_http_range_def valid_range_def mk_range_Inr map_sum_def split: option.splits if_splits sum.splits prod.splits)

lemma relay_head_content:
  "relay_head cd (content_header rg sz etag mime) =
    Inr \<lparr>rr_status = (if rg = None then 200 else 206), rr_headers = response_headers cd (content_header rg sz etag mime) (range_length rg sz),
         rr_length = range_length rg sz\<rparr>"
  by (simp add: relay_head_def content_header_def jget_or_def int_of_def item_def jitem_def jget_def)

lemma relay_head_rejection: "\<exists>e. relay_head cd (rejection t) = Inl e"
  by (simp add: relay_head_def rejection_def jget_or_def int_of_def jget_def)

text \<open>The reference: the bytes of a file from the first to the last of a range, both included.\<close>

definition slice :: "byte_range option \<Rightarrow> int \<Rightarrow> string \<Rightarrow> string" where
  "slice rg sz content = (case rg of None \<Rightarrow> take (nat sz) content
     | Some r \<Rightarrow> drop (nat (br_start r)) (take (nat (br_end r) + 1) content))"

definition relayed_file :: "slave \<Rightarrow> string \<Rightarrow> string option \<Rightarrow> time \<Rightarrow> string \<Rightarrow> string \<Rightarrow> relay_response \<Rightarrow> bool" where
  "relayed_file sl p header now device out resp \<longleftrightarrow>
     (\<exists>target sz mtime rg. shared_file sl p = Some (target, sz, mtime) \<and> resolve_http_range header sz = Inr rg \<and>
        permits sl now p device \<and> out = slice rg sz (sp_content sl target) \<and> rr_length resp = int (length out) \<and>
        (case rg of None \<Rightarrow> int (length out) = sz \<and> rr_status resp = 200
         | Some r \<Rightarrow> int (length out) = br_end r - br_start r + 1 \<and> rr_status resp = 206))"

lemma requested_bytes_slice: "valid_range rg \<Longrightarrow> requested_bytes sl target rg sz = slice rg sz (sp_content sl target)"
proof (cases rg)
  case (Some r)
  moreover assume "valid_range rg"
  ultimately have "nat (br_end r) + 1 - nat (br_start r) = nat (br_end r - br_start r + 1)" by (simp add: valid_range_def) linarith
  then show ?thesis using Some by (simp add: requested_bytes_def slice_def range_length_def first_byte_def drop_take)
qed (simp add: requested_bytes_def slice_def range_length_def first_byte_def)

lemma get_reply:
  fixes rt rl repr check defines "cd \<equiv> json_codec rt rl repr check"
  assumes net: "net_ok net" and x: "exchange cd net now peer (file_request ''GET'' p rg device ticket) [] sl = (sl', calls, Inr conn)"
    and f: "shared_file sl p = Some (target, sz, mtime)" and v: "valid_range rg"
    and r: "receive cd conn = (Inr response, conn')" and h: "relay_head cd response = Inr head"
  shows "permits sl now p device \<and> pieces_ok conn' \<and> concat conn' = requested_bytes sl target rg sz \<and>
    rr_length head = range_length rg sz \<and> rr_status head = (if rg = None then 200 else 206)"
proof -
  let ?req = "file_request ''GET'' p rg device ticket"
  from exchange_json [OF net protocol_plain(2), of "[]" rt rl repr check now peer "''GET''" p rg device ticket sl] obtain conn0 where
    xe: "exchange cd net now peer ?req [] sl =
    (case send_frame (json_dumps rt) (JObj ?req) of Inl e \<Rightarrow> (sl, [], Inl (of_frame e))
     | Inr b \<Rightarrow> (case handle_request cd now ?req conn0 peer sl of
          (sl', out, calls, Inl (SE_Ticket e)) \<Rightarrow> (sl', calls, Inr (net (out @ fst (send cd (rejection e)))))
        | (sl', out, calls, _) \<Rightarrow> (sl', calls, Inr (net out))))" unfolding cd_def by blast
  obtain b where b: "send_frame (json_dumps rt) (JObj ?req) = Inr b"
    using x by (cases "send_frame (json_dumps rt) (JObj ?req)") (auto simp: xe)
  have silent: "conn \<noteq> net []" using r receive_nothing [OF net, of cd] by auto
  have peer: "peer = vf_issuer (sp_verifier sl)"
  proof (rule ccontr)
    assume "peer \<noteq> vf_issuer (sp_verifier sl)"
    then have "conn = net []" using x by (simp add: xe b handle_file_request refuse_def)
    with silent show False ..
  qed
  obtain sl2 out calls2 res where hf: "handle_file cd now ?req ''GET'' p sl = (sl2, out, calls2, res)"
    by (cases "handle_file cd now ?req ''GET'' p sl") auto
  have hr: "handle_request cd now ?req conn0 peer sl = (sl2, out, calls2, res)" using peer hf by (simp add: handle_file_request)
  show ?thesis
  proof (cases "\<exists>t. res = Inl (SE_Ticket t)")
    case True
    then obtain t where t: "res = Inl (SE_Ticket t)" ..
    with handle_get_file [OF hf f v] have "out = []" by auto
    with x t have c: "conn = net (fst (send cd (rejection t)))" by (simp add: xe b hr)
    show ?thesis
    proof (cases rule: send_cases [of cd "rejection t"])
      case (Failed e)
      with c silent show ?thesis by simp
    next
      case (Sent b')
      from receive_answer [OF Sent(2) [unfolded cd_def] protocol_plain(4) net, of "[]"] c Sent(1) r have "response = rejection t"
        by (auto simp: cd_def)
      with h relay_head_rejection [of cd t] show ?thesis by auto
    qed
  next
    case False
    with x have c: "conn = net out" by (auto simp: xe b hr split: sum.splits slave_error.splits)
    with silent have "out \<noteq> []" by auto
    with handle_get_file [OF hf f v] obtain b' where
      s: "send_frame (cd_dumps cd) (JObj (content_header rg sz (etag_of sz mtime) (slave_mime sl target))) = Inr b'" and
      o: "out = b' @ requested_bytes sl target rg sz" "permits sl now p device" by blast
    from receive_answer [OF s [unfolded cd_def] protocol_plain(3) net, of "requested_bytes sl target rg sz"] r
    have "response = content_header rg sz (etag_of sz mtime) (slave_mime sl target)" "pieces_ok conn'" "concat conn' = requested_bytes sl target rg sz"
      by (auto simp: cd_def c o)
    with h o(2) show ?thesis by (auto simp: relay_head_content)
  qed
qed

lemma relay_exact:
  assumes "net_ok net"
    and "relay_file (json_codec rt rl repr check) net m now ticket_id slave_id device p ''GET'' header allow sl = (sl', out, Inr resp)"
  shows "relayed_file sl p header now device out resp"
proof -
  let ?cd = "json_codec rt rl repr check"
  from assms(2) obtain sl1 meta where m: "request_metadata ?cd net now (mr_node m) p sl = (sl1, Inr meta)"
    by (auto simp: relay_file_def split: prod.splits sum.splits)
  note ms = metadata_sound [OF assms(1) m]
  then obtain target sz mtime where f: "shared_file sl p = Some (target, sz, mtime)" "fm_size meta = sz" "sl1 = sl" by blast
  from assms(2) m f obtain rg ticket calls conn response conn' head where
    rg: "resolve_http_range header sz = Inr rg" and
    x: "exchange ?cd net now (mr_node m) (file_request ''GET'' p rg device ticket) [] sl = (sl', calls, Inr conn)" and
    rc: "receive ?cd conn = (Inr response, conn')" and hd: "relay_head ?cd response = Inr head" and
    rl: "\<not> rr_length head < 0" "relay_loop (nat (rr_length head)) conn' = (out, Inr ())" "resp = head"
    by (auto simp: relay_file_def split: prod.splits sum.splits if_splits)
  note g = get_reply [OF assms(1) x f(1) resolve_http_range_valid(1) [OF rg] rc hd]
  from rl(2) g have o: "out = take (nat (rr_length head)) (requested_bytes sl target rg sz)"
    "nat (rr_length head) \<le> length (requested_bytes sl target rg sz)" by (auto simp: relay_loop_spec split: if_splits)
  then have "out = requested_bytes sl target rg sz" "int (length out) = range_length rg sz"
    using g rl(1) by (auto simp: requested_bytes_def)
  moreover have "range_length rg sz = (case rg of None \<Rightarrow> sz | Some r \<Rightarrow> br_end r - br_start r + 1)"
    by (simp add: range_length_def first_byte_def split: option.split)
  ultimately show ?thesis
    using g f(1) rg rl(3) requested_bytes_slice [OF resolve_http_range_valid(1) [OF rg]]
    by (cases rg) (simp_all add: relayed_file_def)
qed

section \<open>A request that succeeds\<close>

definition fits :: "(real \<Rightarrow> string) \<Rightarrow> jobj \<Rightarrow> bool" where
  "fits rt ob \<longleftrightarrow> length (json_dumps rt (JObj ob)) \<le> max_frame_bytes"

lemma send_frame_fits: "fits rt ob \<Longrightarrow> \<exists>b. send_frame (json_dumps rt) (JObj ob) = Inr b"
  by (simp add: fits_def send_frame_def Let_def)

lemma send_fits: "fits rt ob \<Longrightarrow> \<exists>b. send (json_codec rt rl repr check) ob = (b, Inr ()) \<and> send_frame (json_dumps rt) (JObj ob) = Inr b"
  by (simp add: fits_def send_frame_def send_def Let_def)

lemma request_metadata_ok:
  fixes rt rl repr check defines "cd \<equiv> json_codec rt rl repr check"
  assumes net: "net_ok net" and f: "shared_file sl p = Some (target, sz, mtime)" and peer: "peer = vf_issuer (sp_verifier sl)"
    and fits: "fits rt (stat_request p)" "fits rt (stat_answer sl p (target, sz, mtime))"
  shows "request_metadata cd net now peer p sl =
    (sl, Inr \<lparr>fm_size = sz, fm_mime = slave_mime sl target, fm_etag = etag_of sz mtime, fm_protected = protected_check sl p\<rparr>)"
proof -
  from exchange_json [OF net protocol_plain(1), of "[]" rt rl repr check now peer p sl] obtain conn where
    x: "exchange cd net now peer (stat_request p) [] sl =
    (case send_frame (json_dumps rt) (JObj (stat_request p)) of Inl e \<Rightarrow> (sl, [], Inl (of_frame e))
     | Inr b \<Rightarrow> (case handle_request cd now (stat_request p) conn peer sl of
          (sl', out, calls, Inl (SE_Ticket e)) \<Rightarrow> (sl', calls, Inr (net (out @ fst (send cd (rejection e)))))
        | (sl', out, calls, _) \<Rightarrow> (sl', calls, Inr (net out))))" unfolding cd_def by blast
  from send_frame_fits [OF fits(1)] obtain b where b: "send_frame (json_dumps rt) (JObj (stat_request p)) = Inr b" ..
  from send_fits [OF fits(2), of rl repr check] obtain c where c: "send cd (stat_answer sl p (target, sz, mtime)) = (c, Inr ())"
    "send_frame (json_dumps rt) (JObj (stat_answer sl p (target, sz, mtime))) = Inr c" unfolding cd_def by blast
  from handle_stat_file [where sl = sl and p = p and cd = cd and now = now and req = "stat_request p"] f
  have h: "handle_file cd now (stat_request p) ''STAT'' p sl = answer sl [] (send cd (stat_answer sl p (target, sz, mtime)))" by simp
  have "handle_request cd now (stat_request p) conn peer sl = (sl, c, [], Inr ())"
    using peer by (simp add: handle_stat h c answer_def)
  then have "exchange cd net now peer (stat_request p) [] sl = (sl, [], Inr (net c))" by (simp add: x b)
  moreover from receive_answer [OF _ stat_answer_plain net, of rt rl repr check sl p "(target, sz, mtime)" c "[]"] c(2)
  have "fst (receive cd (net c)) = Inr (stat_answer sl p (target, sz, mtime))" by (auto simp: cd_def)
  ultimately show ?thesis by (simp add: request_metadata_def metadata_of_stat)
qed

lemma handle_get_ok:
  fixes rt rl repr check defines "cd \<equiv> json_codec rt rl repr check"
  assumes f: "shared_file sl p = Some (target, sz, mtime)" and len: "int (length (sp_content sl target)) = sz"
    and v: "valid_range rg" "\<forall>r. rg = Some r \<longrightarrow> br_end r < sz" and ok: "permits sl now p device"
    and ver: "snd (verify_and_consume repr (json_loads rl) check now token (content_request sl p device rg) (sp_verifier sl)) = Inr c"
    and fits: "fits rt (content_header rg sz (etag_of sz mtime) (slave_mime sl target))"
  shows "\<exists>sl' b. handle_file cd now (file_request ''GET'' p rg device token) ''GET'' p sl = (sl', b @ requested_bytes sl target rg sz, [], Inr ()) \<and>
    send_frame (json_dumps rt) (JObj (content_header rg sz (etag_of sz mtime) (slave_mime sl target))) = Inr b"
proof -
  let ?req = "file_request ''GET'' p rg device token" and ?q = "content_request sl p device rg"
  obtain vf where "verify_and_consume repr (json_loads rl) check now token ?q (sp_verifier sl) = (vf, Inr c)"
    using ver by (cases "verify_and_consume repr (json_loads rl) check now token ?q (sp_verifier sl)") auto
  moreover have "str_field cd ?req ''ticket'' = token" by (simp add: file_request_def str_field_def jget_or_def)
  ultimately have sv: "slave_verify cd now (str_field cd ?req ''ticket'') ?q sl = (sl\<lparr>sp_verifier := vf\<rparr>, Inr ())"
    by (simp add: slave_verify_def cd_def)
  have "pr_path ?q = p" "pr_device ?q = device" by (simp_all add: content_request_def)
  then have "authorize cd now ?req (protected_check sl p) ?q sl = (sl\<lparr>sp_verifier := vf\<rparr>, Inr ())"
    using ok sv by (simp add: authorize_def permits_def)
  moreover from send_fits [OF fits, of rl repr check] obtain b where
    b: "send cd (content_header rg sz (etag_of sz mtime) (slave_mime sl target)) = (b, Inr ())"
    "send_frame (json_dumps rt) (JObj (content_header rg sz (etag_of sz mtime) (slave_mime sl target))) = Inr b" unfolding cd_def by blast
  moreover have "nat (range_length rg sz) \<le> length (drop (nat (first_byte rg)) (sp_content sl target))"
    using len v by (auto simp: range_length_def first_byte_def valid_range_def split: option.splits)
  moreover have "\<not> (\<exists>r. rg = Some r \<and> sz \<le> br_end r)" using v(2) by auto
  ultimately show ?thesis
    using handle_get_eq [OF f v(1), of cd now device token]
    by (auto simp: answer_def and_then_def stream_loop_spec requested_bytes_def)
qed

lemma relay_claims:
  assumes "issue_claims i now (relay_ticket m slave_id device ''GET'' p rg allow) = Inr c"
  shows "cl_params c = []"
  using issue_claims_Inr [OF assms] by (auto simp: relay_ticket_def normalize_resource_params_def str_upper_ops)

lemma relay_completes_lemma:
  fixes rt rl repr check defines "cd \<equiv> json_codec rt rl repr check"
  assumes net: "net_ok net" and f: "shared_file sl p = Some (target, sz, mtime)" and len: "int (length (sp_content sl target)) = sz"
    and rg: "resolve_http_range header sz = Inr rg"
    and ic: "issue_claims ticket_id now (relay_ticket m slave_id device ''GET'' p rg (allow \<and> protected_check sl p)) = Inr c"
    and token: "token = token_text (json_dumps rt) (mr_sign m) c" and sign: "\<forall>t. check (mr_sign m t) t"
    and ids: "vf_cluster (sp_verifier sl) = mr_cluster m" "vf_issuer (sp_verifier sl) = mr_node m" "sp_node sl = slave_id"
    and ok: "permits sl now p device" "protected_check sl p \<longrightarrow> allow"
    and gen: "current_generation slave_id (vf_revocations (sp_verifier sl)) \<le> max 0 (mr_generation m slave_id)"
    and fresh: "\<not> known_ticket ticket_id (rev_purge now (vf_revocations (sp_verifier sl)))"
    and room: "\<not> rev_full (rev_purge now (vf_revocations (sp_verifier sl)))"
    and fits: "fits rt (stat_request p)" "fits rt (stat_answer sl p (target, sz, mtime))" "fits rt (file_request ''GET'' p rg device token)"
      "fits rt (content_header rg sz (etag_of sz mtime) (slave_mime sl target))" "utf8_length token \<le> max_token_bytes"
  shows "\<exists>sl' out resp. relay_file cd net m now ticket_id slave_id device p ''GET'' header allow sl = (sl', out, Inr resp)"
proof -
  let ?q = "relay_ticket m slave_id device ''GET'' p rg (allow \<and> protected_check sl p)" and ?req = "file_request ''GET'' p rg device token"
  let ?h = "content_header rg sz (etag_of sz mtime) (slave_mime sl target)"
  note v = resolve_http_range_valid [OF rg]
  have issue: "issue_ticket (json_dumps rt) (mr_sign m) ticket_id now ?q = Inr token" by (simp add: issue_ticket_def ic token)
  note meta = request_metadata_ok [OF net f ids(2) [symmetric] fits(1,2), of rl repr check now]
  have ver: "snd (verify_and_consume repr (json_loads rl) check now token (content_request sl p device rg) (sp_verifier sl)) = Inr c"
  proof (rule verify_issued [OF ic issue])
    show "check (mr_sign m (json_dumps rt (claims_json c))) (json_dumps rt (claims_json c))" using sign by blast
    show "json_loads rl (json_dumps rt (claims_json c)) = Some (claims_json c)"
      using relay_claims [OF ic] by (intro json_roundtrip) (simp add: claims_json_def range_json_def split: option.split)
    show "range_ok (tr_range ?q)" using v(1) by (cases rg) (simp_all add: relay_ticket_def range_ok_def valid_range_def mk_range_def)
    show "same_request ?q (content_request sl p device rg)"
      using ids(3) ok(2) by (simp add: same_request_def relay_ticket_def content_request_def)
  qed (use ids gen fresh room fits(5) in \<open>simp_all add: relay_ticket_def default_ttl_def\<close>)
  from handle_get_ok [OF f len v ok(1) ver fits(4)] obtain sl' b where
    h: "handle_file cd now ?req ''GET'' p sl = (sl', b @ requested_bytes sl target rg sz, [], Inr ())"
    "send_frame (json_dumps rt) (JObj ?h) = Inr b" unfolding cd_def by blast
  from exchange_json [OF net protocol_plain(2), of "[]" rt rl repr check now "mr_node m" "''GET''" p rg device token sl] obtain conn where
    "exchange cd net now (mr_node m) ?req [] sl =
    (case send_frame (json_dumps rt) (JObj ?req) of Inl e \<Rightarrow> (sl, [], Inl (of_frame e))
     | Inr b \<Rightarrow> (case handle_request cd now ?req conn (mr_node m) sl of
          (sl', out, calls, Inl (SE_Ticket e)) \<Rightarrow> (sl', calls, Inr (net (out @ fst (send cd (rejection e)))))
        | (sl', out, calls, _) \<Rightarrow> (sl', calls, Inr (net out))))" unfolding cd_def by blast
  then have x: "exchange cd net now (mr_node m) ?req [] sl = (sl', [], Inr (net (b @ requested_bytes sl target rg sz)))"
    using send_frame_fits [OF fits(3)] ids(2) h(1) by (auto simp: handle_file_request)
  from receive_answer [OF _ protocol_plain(3) net, of rt rl repr check rg sz "etag_of sz mtime" "slave_mime sl target" b "requested_bytes sl target rg sz"] h(2)
  obtain conn' where r: "receive cd (net (b @ requested_bytes sl target rg sz)) = (Inr ?h, conn')" "pieces_ok conn'"
    "concat conn' = requested_bytes sl target rg sz" by (auto simp: cd_def)
  have n: "0 \<le> range_length rg sz" "nat (range_length rg sz) \<le> length (requested_bytes sl target rg sz)"
    using len v by (auto simp: range_length_def first_byte_def valid_range_def requested_bytes_def split: option.splits)
  then have "relay_loop (nat (range_length rg sz)) conn' = (requested_bytes sl target rg sz, Inr ())"
    using r(2,3) by (simp add: relay_loop_spec) (simp add: requested_bytes_def)
  with n(1) show ?thesis
    by (simp add: relay_file_def meta [folded cd_def] rg issue [folded cd_def] x r(1) relay_head_content) (simp add: cd_def issue x [unfolded cd_def] r(1) [unfolded cd_def] relay_head_content)
qed

section \<open>Properties of the relay\<close>

text \<open>C18 (a Player gets exactly the bytes it asked for). Whenever the relay of a GET returns a response, the path
  resolves at the slave to a visible shared file, a premium path was open to the device, the range header
  resolves within the size of the file, and what was written to the Player are exactly the bytes of that range
  (all bytes without a header), with the announced length and status. This holds for every way the network
  cuts the two streams into pieces.\<close>

theorem relay_serves_exact_range:
  assumes "net_ok net"
    and "relay_file (json_codec rt rl repr check) net m now ticket_id slave_id device p ''GET'' header allow sl = (sl', out, Inr resp)"
  shows "relayed_file sl p header now device out resp"
  using assms by (rule relay_exact)

text \<open>C19 (an authorized request is answered). If the file is there with the size its directory entry states, the master
  can issue a ticket for the request and the slave trusts it, the ticket identifier is new to the slave, its
  registry has room and its generation is not ahead, the device may open the path, and the frames and the ticket
  keep their bounds, then the relay returns a response, with the bytes of the range.\<close>

theorem relay_completes:
  assumes "net_ok net" and "shared_file sl p = Some (target, sz, mtime)" and "int (length (sp_content sl target)) = sz"
    and "resolve_http_range header sz = Inr rg"
    and "issue_claims ticket_id now (relay_ticket m slave_id device ''GET'' p rg (allow \<and> protected_check sl p)) = Inr c"
    and "token = token_text (json_dumps rt) (mr_sign m) c" and "\<forall>t. check (mr_sign m t) t"
    and "vf_cluster (sp_verifier sl) = mr_cluster m" and "vf_issuer (sp_verifier sl) = mr_node m" and "sp_node sl = slave_id"
    and "permits sl now p device" and "protected_check sl p \<longrightarrow> allow"
    and "current_generation slave_id (vf_revocations (sp_verifier sl)) \<le> max 0 (mr_generation m slave_id)"
    and "\<not> known_ticket ticket_id (rev_purge now (vf_revocations (sp_verifier sl)))"
    and "\<not> rev_full (rev_purge now (vf_revocations (sp_verifier sl)))"
    and "fits rt (stat_request p)" and "fits rt (stat_answer sl p (target, sz, mtime))"
    and "fits rt (file_request ''GET'' p rg device token)"
    and "fits rt (content_header rg sz (etag_of sz mtime) (slave_mime sl target))" and "utf8_length token \<le> max_token_bytes"
  shows "\<exists>sl' out resp. relay_file (json_codec rt rl repr check) net m now ticket_id slave_id device p ''GET'' header allow sl = (sl', out, Inr resp) \<and>
    relayed_file sl p header now device out resp"
proof -
  have "\<exists>sl' out resp. relay_file (json_codec rt rl repr check) net m now ticket_id slave_id device p ''GET'' header allow sl = (sl', out, Inr resp)"
    using assms by (rule relay_completes_lemma)
  then show ?thesis using relay_exact [OF assms(1)] by blast
qed

definition demo_master :: master where
  "demo_master = \<lparr>mr_cluster = ''c'', mr_node = ''m'', mr_sign = (\<lambda>_. ''s''), mr_generation = (\<lambda>_. 0)\<rparr>"

definition demo_slave :: slave where
  "demo_slave = \<lparr>sp_roots = [(''slot-1'', [''srv''])], sp_node = ''s'', sp_verifier = demo_verifier,
     sp_disk = \<lparr>dk_fs = demo_fs, dk_names = (\<lambda>_. None), dk_stat = (\<lambda>_. Some (5, 16)), dk_info = (\<lambda>_ _. []), dk_audio = (\<lambda>_ _ _. None)\<rparr>,
     sp_conf = demo_conf, sp_db = empty_unlock_db, sp_content = (\<lambda>_. ''hello''), sp_mime = (\<lambda>_. None), sp_cursor = None, sp_digest = id,
     sp_unpair = False, sp_heartbeat = None, sp_derived = None, sp_relay_write = False, sp_relay_delete = False, sp_relay_prune = False\<rparr>"

definition demo_range :: byte_range where "demo_range = \<lparr>br_start = 1, br_end = 3\<rparr>"

definition demo_net :: "string \<Rightarrow> connection" where "demo_net s = map (\<lambda>c. [c]) s"

definition demo_codec :: codec where "demo_codec = json_codec (\<lambda>_. []) (\<lambda>_. None) (\<lambda>_. []) (\<lambda>s t. s = ''s'')"

definition ranged_claims :: claims where "ranged_claims = demo_claims\<lparr>cl_range := Some demo_range\<rparr>"

definition demo_token :: string where "demo_token = token_text (json_dumps (\<lambda>_. [])) (\<lambda>_. ''s'') ranged_claims"

lemma demo_net_ok: "net_ok demo_net"
proof -
  have "concat (map (\<lambda>c. [c]) s) = s" for s :: string by (induction s) simp_all
  then show ?thesis by (simp add: net_ok_def demo_net_def pieces_ok_def list_all_iff)
qed

lemma demo_file: "shared_file demo_slave ''/pub/a'' = Some ([''srv'', ''pub'', ''a''], 5, 16)"
proof -
  have "slave_resolve_file demo_fs demo_conf [(''slot-1'', [''srv''])] ''/pub/a'' = Inr (''slot-1'', [''srv'', ''pub'', ''a''])" by code_simp
  then show ?thesis by (simp add: shared_file_def demo_slave_def)
qed

lemma demo_open: "protected_check demo_slave p = False"
  by (simp add: protected_check_def demo_slave_def no_lock)

lemma demo_http_range: "resolve_http_range (Some ''bytes=1-3'') 5 = Inr (Some demo_range)"
  by code_simp

lemma ranged_issue: "issue_claims ''i'' 100 (relay_ticket demo_master ''s'' ''d'' ''GET'' ''/pub/a'' (Some demo_range) False) = Inr ranged_claims"
  by (simp add: issue_claims_def relay_ticket_def demo_master_def ranged_claims_def demo_claims_def str_upper_ops Let_def max_ttl_def default_ttl_def
      pagination_ok_def derived_methods_def normalize_resource_params_def str_strip_def is_space_def demo_path) (simp add: char_eval)

lemma demo_fits:
  "fits (\<lambda>_. []) (stat_request ''/pub/a'')" "fits (\<lambda>_. []) (stat_answer demo_slave ''/pub/a'' ([''srv'', ''pub'', ''a''], 5, 16))"
  "fits (\<lambda>_. []) (file_request ''GET'' ''/pub/a'' (Some demo_range) ''d'' demo_token)"
  "fits (\<lambda>_. []) (content_header (Some demo_range) 5 (etag_of 5 16) (slave_mime demo_slave [''srv'', ''pub'', ''a'']))"
  "utf8_length demo_token \<le> max_token_bytes"
proof -
  have m: "slave_mime demo_slave [''srv'', ''pub'', ''a''] = ''application/octet-stream''" by (simp add: slave_mime_def demo_slave_def)
  have le: "fits rt ob" if "length (json_dumps rt (JObj ob)) \<le> 1000" for rt ob using that by (simp add: fits_def max_frame_bytes_def)
  show "fits (\<lambda>_. []) (stat_request ''/pub/a'')" by (rule le) code_simp
  show "fits (\<lambda>_. []) (stat_answer demo_slave ''/pub/a'' ([''srv'', ''pub'', ''a''], 5, 16))"
    unfolding stat_answer_def case_prod_conv m demo_open by (rule le) code_simp
  show "fits (\<lambda>_. []) (file_request ''GET'' ''/pub/a'' (Some demo_range) ''d'' demo_token)" by (rule le) code_simp
  show "fits (\<lambda>_. []) (content_header (Some demo_range) 5 (etag_of 5 16) (slave_mime demo_slave [''srv'', ''pub'', ''a'']))"
    unfolding m by (rule le) code_simp
  have "utf8_length demo_token \<le> 1000" by code_simp
  then show "utf8_length demo_token \<le> max_token_bytes" by (simp add: max_token_bytes_def)
qed

text \<open>The hypotheses of \<open>relay_completes\<close> at this request, in their order.\<close>

lemma demo_issue_claims:
  "issue_claims ''i'' 100 (relay_ticket demo_master ''s'' ''d'' ''GET'' ''/pub/a'' (Some demo_range) (False \<and> protected_check demo_slave ''/pub/a'')) =
    Inr ranged_claims"
  by (simp add: ranged_issue)

lemma demo_parties:
  "int (length (sp_content demo_slave [''srv'', ''pub'', ''a''])) = 5"
  "demo_token = token_text (json_dumps (\<lambda>_. [])) (mr_sign demo_master) ranged_claims" "\<forall>t. mr_sign demo_master t = ''s''"
  "vf_cluster (sp_verifier demo_slave) = mr_cluster demo_master" "vf_issuer (sp_verifier demo_slave) = mr_node demo_master"
  "sp_node demo_slave = ''s''"
  by (simp_all add: demo_slave_def demo_master_def demo_verifier_def demo_token_def)

lemma demo_access:
  "permits demo_slave 100 ''/pub/a'' ''d''" "protected_check demo_slave ''/pub/a'' \<longrightarrow> False"
  "current_generation ''s'' (vf_revocations (sp_verifier demo_slave)) \<le> max 0 (mr_generation demo_master ''s'')"
  "\<not> known_ticket ''i'' (rev_purge 100 (vf_revocations (sp_verifier demo_slave)))"
  "\<not> rev_full (rev_purge 100 (vf_revocations (sp_verifier demo_slave)))"
proof -
  show "permits demo_slave 100 ''/pub/a'' ''d''" "protected_check demo_slave ''/pub/a'' \<longrightarrow> False"
    by (simp_all add: permits_def demo_open)
qed (simp_all add: demo_slave_def demo_master_def demo_verifier_def rev_start_def current_generation_def known_ticket_def rev_purge_def
    rev_full_def dkeep_def max_ticket_records_def)

lemmas demo_request_facts = demo_net_ok demo_file demo_parties(1) demo_http_range demo_issue_claims demo_parties(2-) demo_access demo_fits

lemma relay_demo:
  "\<exists>sl' out resp. relay_file demo_codec demo_net demo_master 100 ''i'' ''s'' ''d'' ''/pub/a'' ''GET'' (Some ''bytes=1-3'') False demo_slave = (sl', out, Inr resp)"
  unfolding demo_codec_def
  by (rule relay_completes_lemma [where m = demo_master and check = "\<lambda>s t. s = ''s''"]) (rule demo_request_facts)+

theorem relay_completes_witness:
  "\<exists>sl' out resp. relay_file demo_codec demo_net demo_master 100 ''i'' ''s'' ''d'' ''/pub/a'' ''GET'' (Some ''bytes=1-3'') False demo_slave = (sl', out, Inr resp) \<and>
    relayed_file demo_slave ''/pub/a'' (Some ''bytes=1-3'') 100 ''d'' out resp"
  unfolding demo_codec_def
  by (rule relay_completes [where m = demo_master and check = "\<lambda>s t. s = ''s''"]) (rule demo_request_facts)+

theorem relay_serves_exact_range_witness:
  "\<exists>sl' resp. relay_file demo_codec demo_net demo_master 100 ''i'' ''s'' ''d'' ''/pub/a'' ''GET'' (Some ''bytes=1-3'') False demo_slave = (sl', ''ell'', Inr resp)"
proof -
  from relay_demo obtain sl' out resp where
    r: "relay_file demo_codec demo_net demo_master 100 ''i'' ''s'' ''d'' ''/pub/a'' ''GET'' (Some ''bytes=1-3'') False demo_slave = (sl', out, Inr resp)" by blast
  from relay_serves_exact_range [OF demo_net_ok r [unfolded demo_codec_def]]
  have "out = slice (Some demo_range) 5 (sp_content demo_slave [''srv'', ''pub'', ''a''])"
    by (auto simp: relayed_file_def demo_file demo_http_range)
  then have "out = ''ell''" by (simp add: demo_range_def slice_def demo_slave_def numeral_eq_Suc)
  with r show ?thesis by blast
qed

end
