(* ===== verification/Cluster_Requests.thy ===== *)
theory Cluster_Requests
  imports Cluster_Relay
begin

text \<open>
  The other requests of the master (\<^verbatim>\<open>core/cluster/protocol.py\<close>, \<^verbatim>\<open>core/cluster/relay.py\<close>): directory
  pages, derived media, the replicas of Player-to-Player relays; and what a slave does with a request it
  refuses. The log lines of \<^verbatim>\<open>relay.py\<close> are left out. The loop of \<open>request_listing\<close> reads frames as long as the
  slave announces more; each consumes at least four bytes, so on the bytes of one exchange it ends.
\<close>

section \<open>Reading consumes the stream\<close>

lemma read_loop_consumes: "read_loop n acc conn = (Inr r, conn') \<Longrightarrow> length acc \<le> length r \<and> n \<le> length r \<and>
    length (concat conn') + (length r - length acc) = length (concat conn)"
proof (induction n acc conn arbitrary: r conn' rule: read_loop.induct)
  case (1 n acc conn)
  show ?case
  proof (cases "n \<le> length acc")
    case True
    with "1.prems" show ?thesis by (simp add: read_loop.simps [of n acc])
  next
    case False
    obtain chunk conn1 where c: "recv (n - length acc) conn = (chunk, conn1)" by fastforce
    with "1.prems" False have ch: "chunk \<noteq> []" "read_loop n (acc @ chunk) conn1 = (Inr r, conn')"
      by (auto simp: read_loop.simps [of n acc] split: if_splits)
    from "1.IH" [OF False c [symmetric] ch] recv_stream [OF c, symmetric] show ?thesis by auto
  qed
qed

lemma receive_frame_consumes: "receive_frame loads conn = (Inr ob, conn') \<Longrightarrow> length (concat conn') < length (concat conn)"
  by (auto simp: receive_frame_def read_exact_def Let_def dest!: read_loop_consumes split: prod.splits sum.splits if_splits option.splits json.splits)

section \<open>Listings\<close>

definition as_items :: "jobj \<Rightarrow> json list option" where
  "as_items response = (case jget response ''items'' of JList xs \<Rightarrow> Some (filter (\<lambda>v. case v of JObj ob \<Rightarrow> True | _ \<Rightarrow> False) xs) | _ \<Rightarrow> None)"

definition or_text :: "codec \<Rightarrow> json \<Rightarrow> string \<Rightarrow> string" where
  "or_text cd v dflt = (if truthy v then to_str (cd_repr cd) v else dflt)"

function listing_loop :: "codec \<Rightarrow> json list \<Rightarrow> connection \<Rightarrow> master_error + listing_page" where
  "listing_loop cd items conn =
     (case receive_frame (cd_loads cd) conn of
        (Inl e, conn') \<Rightarrow> Inl (of_frame e)
      | (Inr response, conn') \<Rightarrow>
          if \<not> py_eq (jget response ''status'') (JInt 200)
          then Inl (ME_Remote (or_text cd (jget response ''error'') ''slave_error'')
                      (or_text cd (jget response ''message'') ''slave listing request failed''))
          else (case as_items response of None \<Rightarrow> Inl ME_Protocol
                | Some new \<Rightarrow>
                    if 100 < length (items @ new) then Inl ME_Protocol
                    else if jget response ''more'' = JBool True then listing_loop cd (items @ new) conn'
                    else Inr \<lparr>lp_items = items @ new, lp_next = or_text cd (jget response ''next_cursor'') []\<rparr>))"
  by pat_completeness auto
termination by (relation "measure (\<lambda>(cd, items, conn). length (concat conn))") (auto dest!: sym [of _ "receive_frame _ _"] receive_frame_consumes)

declare listing_loop.simps [simp del]

definition listing_request :: "string \<Rightarrow> string \<Rightarrow> int \<Rightarrow> string \<Rightarrow> string \<Rightarrow> jobj" where
  "listing_request p pin limit device ticket =
     [(''cursor'', JStr pin), (''device_id'', JStr device), (''limit'', JInt limit), (''op'', JStr ''LIST''), (''path'', JStr p), (''ticket'', JStr ticket)]"

definition request_listing ::
    "codec \<Rightarrow> (string \<Rightarrow> connection) \<Rightarrow> time \<Rightarrow> string \<Rightarrow> string \<Rightarrow> string \<Rightarrow> int \<Rightarrow> string \<Rightarrow> string \<Rightarrow> slave \<Rightarrow> slave \<times> (master_error + listing_page)" where
  "request_listing cd net now peer p pin limit device ticket sl =
     (case exchange cd net now peer (listing_request p pin limit device ticket) [] sl of
        (sl, calls, Inl e) \<Rightarrow> (sl, Inl e)
      | (sl, calls, Inr conn) \<Rightarrow> (sl, listing_loop cd [] conn))"

text \<open>\<open>MasterRelay.list_directory\<close>.\<close>

definition relay_list_directory ::
    "codec \<Rightarrow> (string \<Rightarrow> connection) \<Rightarrow> master \<Rightarrow> time \<Rightarrow> string \<Rightarrow> string \<Rightarrow> string \<Rightarrow> string \<Rightarrow> string \<Rightarrow> int \<Rightarrow> bool \<Rightarrow> slave \<Rightarrow>
     slave \<times> (master_error + listing_page)" where
  "relay_list_directory cd net m now ticket_id slave_id device p pin limit allow sl =
     (case issue_ticket (cd_dumps cd) (mr_sign m) ticket_id now
             ((relay_ticket m slave_id device ''LIST'' p None allow)\<lparr>tr_cursor := pin, tr_limit := limit\<rparr>) of
        Inl e \<Rightarrow> (sl, Inl (ME_Py e))
      | Inr ticket \<Rightarrow> request_listing cd net now (mr_node m) p pin limit device ticket sl)"

section \<open>Derived media\<close>

definition derived_request :: "string \<Rightarrow> string \<Rightarrow> string \<Rightarrow> jobj \<Rightarrow> string \<Rightarrow> jobj" where
  "derived_request op p device params ticket =
     [(''device_id'', JStr device), (''op'', JStr op), (''params'', JObj params), (''path'', JStr p), (''range'', JNull), (''ticket'', JStr ticket)]"

definition request_derived ::
    "codec \<Rightarrow> (string \<Rightarrow> connection) \<Rightarrow> time \<Rightarrow> string \<Rightarrow> string \<Rightarrow> string \<Rightarrow> string \<Rightarrow> jobj \<Rightarrow> string \<Rightarrow> slave \<Rightarrow>
     slave \<times> (master_error + jobj \<times> string)" where
  "request_derived cd net now peer op p device params ticket sl =
     (if op \<notin> set derived_methods then (sl, Inl ME_Protocol)
      else (case exchange cd net now peer (derived_request op p device params ticket) [] sl of
              (sl, calls, Inl e) \<Rightarrow> (sl, Inl e)
            | (sl, calls, Inr conn) \<Rightarrow>
                (sl, case receive cd conn of (Inl e, conn) \<Rightarrow> Inl e
                     | (Inr response, conn) \<Rightarrow>
                         (case int_of (jget_or response ''length'' (JInt 0)) of Inl e \<Rightarrow> Inl e
                          | Inr n \<Rightarrow>
                              if n < 0 \<or> int max_derived_bytes < n then Inl ME_Protocol
                              else if n = 0 then Inr (response, [])
                              else (case fst (read_exact (nat n) conn) of Inl e \<Rightarrow> Inl (of_frame e) | Inr body \<Rightarrow> Inr (response, body))))))"

text \<open>\<open>MasterRelay.derived_resource\<close>: the status, the MIME type and the body.\<close>

definition derived_resource ::
    "codec \<Rightarrow> (string \<Rightarrow> connection) \<Rightarrow> master \<Rightarrow> time \<Rightarrow> string \<Rightarrow> string \<Rightarrow> string \<Rightarrow> string \<Rightarrow> string \<Rightarrow> jobj \<Rightarrow> bool \<Rightarrow> slave \<Rightarrow>
     slave \<times> (master_error + int \<times> string \<times> string)" where
  "derived_resource cd net m now ticket_id slave_id device p op params allow sl =
     (case request_metadata cd net now (mr_node m) p sl of
        (sl, Inl e) \<Rightarrow> (sl, Inl e)
      | (sl, Inr meta) \<Rightarrow>
          (case issue_ticket (cd_dumps cd) (mr_sign m) ticket_id now
                  ((relay_ticket m slave_id device op p None (allow \<and> fm_protected meta))\<lparr>tr_ttl := 60, tr_params := params\<rparr>) of
             Inl e \<Rightarrow> (sl, Inl (ME_Py e))
           | Inr ticket \<Rightarrow>
               (case request_derived cd net now (mr_node m) op p device params ticket sl of
                  (sl, Inl e) \<Rightarrow> (sl, Inl e)
                | (sl, Inr (response, body)) \<Rightarrow>
                    (sl, if truthy (jget response ''error'')
                         then Inl (ME_Remote (to_str (cd_repr cd) (jget response ''error'')) (or_text cd (jget response ''message'') ''derived resource rejected''))
                         else (case int_of (jget_or response ''status'' (JInt 500)) of Inl e \<Rightarrow> Inl e
                               | Inr st \<Rightarrow> Inr (st, to_str (cd_repr cd) (jget_or response ''mime'' (JStr ''application/octet-stream'')), body))))))"

section \<open>Replicas of relays\<close>

definition confirmed :: "codec \<Rightarrow> connection \<Rightarrow> master_error + unit" where
  "confirmed cd conn =
     (case fst (receive cd conn) of Inl e \<Rightarrow> Inl e
      | Inr response \<Rightarrow> if py_eq (jget response ''status'') (JInt 200) then Inr () else Inl ME_Protocol)"

definition request_relay ::
    "codec \<Rightarrow> (string \<Rightarrow> connection) \<Rightarrow> time \<Rightarrow> string \<Rightarrow> jobj \<Rightarrow> string \<Rightarrow> slave \<Rightarrow> slave \<times> slave_call list \<times> (master_error + unit)" where
  "request_relay cd net now peer req payload sl =
     (case exchange cd net now peer req payload sl of
        (sl, calls, Inl e) \<Rightarrow> (sl, calls, Inl e)
      | (sl, calls, Inr conn) \<Rightarrow> (sl, calls, confirmed cd conn))"

definition replica_write_request :: "string \<Rightarrow> string \<Rightarrow> string \<Rightarrow> jobj" where
  "replica_write_request relay_id relative_path payload =
     [(''length'', JInt (int (length payload))), (''op'', JStr ''P2P_RELAY_WRITE''), (''relative_path'', JStr relative_path), (''relay_id'', JStr relay_id)]"

definition request_relay_replica_write where
  "request_relay_replica_write cd net now peer relay_id relative_path payload sl =
     request_relay cd net now peer (replica_write_request relay_id relative_path payload) payload sl"

definition replica_delete_request :: "string \<Rightarrow> jobj" where
  "replica_delete_request relay_id = [(''op'', JStr ''P2P_RELAY_DELETE''), (''relay_id'', JStr relay_id)]"

definition request_relay_replica_delete where
  "request_relay_replica_delete cd net now peer relay_id sl = request_relay cd net now peer (replica_delete_request relay_id) [] sl"

definition replica_prune_request :: "string list \<Rightarrow> jobj" where
  "replica_prune_request ids = [(''active_relay_ids'', JList (map JStr ids)), (''op'', JStr ''P2P_RELAY_PRUNE'')]"

definition request_relay_replica_prune where
  "request_relay_replica_prune cd net now peer ids sl = request_relay cd net now peer (replica_prune_request ids) [] sl"

section \<open>A page arrives as it was sent\<close>

text \<open>Items as \<open>json.loads\<close> gives them back: dictionaries without floats, their keys in the order of \<open>sort_keys\<close>.\<close>

definition page_item :: "json \<Rightarrow> bool" where
  "page_item v \<longleftrightarrow> plain v \<and> (\<exists>ob. v = JObj ob)"

lemma send_all_Cons:
  "send_all cd (f # fs) = (out, Inr u) \<longleftrightarrow>
    (\<exists>b rest. send cd f = (b, Inr ()) \<and> send_all cd fs = (rest, Inr ()) \<and> out = b @ rest)"
  by (cases "send cd f"; cases "snd (send cd f)"; cases "send_all cd fs") (auto simp: and_then_def)

lemma send_Inr: "send cd f = (b, Inr ()) \<longleftrightarrow> send_frame (cd_dumps cd) (JObj f) = Inr b"
  by (auto simp: send_def split: sum.splits)

lemma listing_chunks_concat: "concat (listing_chunks xs) = xs"
proof -
  have "concat (map (\<lambda>i. take k (drop (k * i) xs)) [0 ..< n]) = take (k * n) xs" for k n
  proof (induction n)
    case (Suc n)
    then show ?case using take_add [of "k * n" k xs] by (simp add: add.commute)
  qed simp
  from this [of 20 "(length xs + 19) div 20"] show ?thesis by (auto simp: listing_chunks_def)
qed

lemma listing_chunks_not_Nil: "listing_chunks xs \<noteq> []"
  by (cases xs) (simp_all add: listing_chunks_def)

lemma set_listing_chunks: "c \<in> set (listing_chunks xs) \<Longrightarrow> set c \<subseteq> set xs"
  using listing_chunks_concat [of xs] by (metis UN_upper set_concat)

lemma items_kept: "list_all page_item c \<Longrightarrow> filter (\<lambda>v. case v of JObj ob \<Rightarrow> True | _ \<Rightarrow> False) c = c"
  by (induction c) (auto simp: page_item_def)

lemma listing_frame_plain:
  "list_all page_item c \<Longrightarrow> plain (JObj [(''items'', JList c), (''more'', JBool b), (''next_cursor'', JStr pin), (''status'', JInt 200)])"
  by (auto simp: page_item_def list_all_iff)

lemma listing_loop_frames:
  fixes rt rl repr check defines "cd \<equiv> json_codec rt rl repr check"
  assumes "cs \<noteq> []" and "send_all cd (listing_frames pin cs) = (out, Inr ())" and "\<forall>c \<in> set cs. list_all page_item c"
    and "length (items @ concat cs) \<le> 100" and "pieces_ok conn" and "concat conn = out"
  shows "listing_loop cd items conn = Inr \<lparr>lp_items = items @ concat cs, lp_next = pin\<rparr>"
  using assms(2-)
proof (induction pin cs arbitrary: items out conn rule: listing_frames.induct)
  case (2 pin c)
  let ?f = "[(''items'', JList c), (''more'', JBool False), (''next_cursor'', JStr pin), (''status'', JInt 200)]"
  from "2.prems"(2) have s: "send_frame (json_dumps rt) (JObj ?f) = Inr out"
    by (auto simp: send_all_Cons send_Inr cd_def simp del: send_all.simps(2))
  from receive_json [OF s listing_frame_plain "2.prems"(5), of "[]" rl] "2.prems"(3,6) obtain conn' where
    "receive_frame (json_loads rl) conn = (Inr ?f, conn')" by auto
  with "2.prems"(3,4) show ?case
    by (subst listing_loop.simps) (simp add: cd_def jget_def as_items_def items_kept or_text_def)
next
  case (3 pin c d ds)
  let ?f = "[(''items'', JList c), (''more'', JBool True), (''next_cursor'', JStr []), (''status'', JInt 200)]"
  from "3.prems"(2) obtain b rest where b: "send_frame (json_dumps rt) (JObj ?f) = Inr b"
    "send_all cd (listing_frames pin (d # ds)) = (rest, Inr ())" "out = b @ rest"
    by (auto simp: send_all_Cons send_Inr cd_def simp del: send_all.simps(2))
  from receive_json [OF b(1) listing_frame_plain "3.prems"(5), of rest rl] "3.prems"(3,6) b(3) obtain conn' where
    r: "receive_frame (json_loads rl) conn = (Inr ?f, conn')" "pieces_ok conn'" "concat conn' = rest" by auto
  have "listing_loop cd (items @ c) conn' = Inr \<lparr>lp_items = (items @ c) @ concat (d # ds), lp_next = pin\<rparr>"
    using "3.prems" b(2) r(2,3) by (intro "3.IH") auto
  with "3.prems"(3,4) r(1) show ?case
    by (subst listing_loop.simps) (simp add: cd_def jget_def as_items_def items_kept)
qed simp

lemma listing_arrives:
  assumes "net_ok net" and "list_all page_item (lp_items pg)" and "length (lp_items pg) \<le> 100"
    and "send_listing_page (json_codec rt rl repr check) pg = (out, Inr ())"
  shows "listing_loop (json_codec rt rl repr check) [] (net out) = Inr pg"
proof -
  have "pieces_ok (net out)" "concat (net out) = out" using assms(1) by (simp_all add: net_ok_def)
  moreover have "\<forall>c \<in> set (listing_chunks (lp_items pg)). list_all page_item c"
    using assms(2) set_listing_chunks by (fastforce simp: list_all_iff)
  ultimately show ?thesis
    using assms(3,4) listing_loop_frames [OF listing_chunks_not_Nil, of rt rl repr check "lp_next pg" "lp_items pg" out "[]" "net out"]
    by (simp add: send_listing_page_def listing_chunks_concat)
qed

text \<open>When a frame cannot be sent the connection ends early, and the master reports an error.\<close>

lemma listing_loop_closed:
  assumes "pieces_ok conn" and "concat conn = []"
  shows "\<exists>e. listing_loop cd items conn = Inl e"
  using receive_closed [OF assms, of "cd_loads cd"]
  by (subst listing_loop.simps) (auto split: prod.split sum.split)

lemma send_all_Cons_Inl:
  "send_all cd (f # fs) = (out, Inl e) \<longleftrightarrow> send cd f = (out, Inl e) \<or>
    (\<exists>b rest. send cd f = (b, Inr ()) \<and> send_all cd fs = (rest, Inl e) \<and> out = b @ rest)"
  by (cases "send cd f"; cases "snd (send cd f)"; cases "send_all cd fs") (auto simp: and_then_def)

lemma send_Inl: "send cd f = (b, Inl e) \<Longrightarrow> b = []"
  by (auto simp: send_def split: sum.splits)

lemma listing_loop_broken:
  fixes rt rl repr check defines "cd \<equiv> json_codec rt rl repr check"
  assumes "send_all cd (listing_frames pin cs) = (out, Inl e)" and "\<forall>c \<in> set cs. list_all page_item c"
    and "pieces_ok conn" and "concat conn = out"
  shows "\<exists>e'. listing_loop cd items conn = Inl e'"
  using assms(2-)
proof (induction pin cs arbitrary: items out conn rule: listing_frames.induct)
  case (2 pin c)
  then have "out = []" by (auto simp: send_all_Cons_Inl dest: send_Inl simp del: send_all.simps(2))
  with "2.prems" show ?case by (intro listing_loop_closed) auto
next
  case (3 pin c d ds)
  let ?f = "[(''items'', JList c), (''more'', JBool True), (''next_cursor'', JStr []), (''status'', JInt 200)]"
  show ?case
  proof (cases "out = []")
    case True
    with "3.prems" show ?thesis by (intro listing_loop_closed) auto
  next
    case False
    with "3.prems"(1) obtain b rest where b: "send_frame (json_dumps rt) (JObj ?f) = Inr b"
      "send_all cd (listing_frames pin (d # ds)) = (rest, Inl e)" "out = b @ rest"
      by (auto simp: send_all_Cons_Inl send_Inr cd_def dest: send_Inl simp del: send_all.simps(2))
    from receive_json [OF b(1) listing_frame_plain "3.prems"(3), of rest rl] "3.prems"(2,4) b(3) obtain conn' where
      r: "receive_frame (json_loads rl) conn = (Inr ?f, conn')" "pieces_ok conn'" "concat conn' = rest" by auto
    have "\<exists>e'. listing_loop cd (items @ c) conn' = Inl e'"
      using "3.prems" b(2) r(2,3) by (intro "3.IH") auto
    with "3.prems"(2) r(1) show ?thesis
      by (subst listing_loop.simps) (simp add: cd_def jget_def as_items_def items_kept)
  qed
qed simp

definition slave_page :: "slave \<Rightarrow> time \<Rightarrow> string \<Rightarrow> string \<Rightarrow> int \<Rightarrow> string \<Rightarrow> listing_page option" where
  "slave_page sl now p pin limit device =
     (case (sp_cursor sl, directory_roots sl p) of
        (Some ck, Inr roots) \<Rightarrow>
          (case list_directory_page ck (sp_digest sl) (sp_disk sl) (sp_conf sl) (sp_db sl) now roots p limit pin device of
             Inl e \<Rightarrow> None | Inr pg \<Rightarrow> Some pg)
      | _ \<Rightarrow> None)"

lemma all_items_length: "all_items g xs = Inr ys \<Longrightarrow> length ys = length xs"
  by (drule all_items_Inr) (rule list_all2_lengthD [symmetric])

lemma list_directory_page_length:
  "list_directory_page ck digest dk cf db now roots p limit pin device = Inr pg \<Longrightarrow> length (lp_items pg) \<le> 100"
  by (auto simp: list_directory_page_def page_from_def Let_def max_list_limit_def dest!: all_items_length split: if_splits option.splits sum.splits)

lemma slave_page_length: "slave_page sl now p pin limit device = Some pg \<Longrightarrow> length (lp_items pg) \<le> 100"
  by (auto simp: slave_page_def dest: list_directory_page_length split: option.splits sum.splits)

lemma listing_request_plain [simp]: "plain (JObj (listing_request p pin limit device ticket))"
  by (simp add: listing_request_def)

lemma handle_listing:
  "handle_request cd now (listing_request p pin limit device ticket) conn peer sl =
    (if peer \<noteq> vf_issuer (sp_verifier sl) then refuse sl SE_Protocol else handle_list cd now (listing_request p pin limit device ticket) p sl)"
  by (simp add: handle_request_def listing_request_def str_field_def jget_or_def str_upper_def upper_of_def char_eval allowed_operations_def Let_def)

lemma handle_list_out:
  assumes "handle_list cd now (listing_request p pin limit device ticket) p sl = (sl', out, calls, res)"
  shows "out = [] \<or> (\<exists>pg. slave_page sl now p pin limit device = Some pg \<and> permits sl now p device \<and> (out, res) = send_listing_page cd pg)"
proof (cases "out = []")
  case out: False
  let ?req = "listing_request p pin limit device ticket"
  let ?q = "\<lparr>pr_audience = sp_node sl, pr_device = device, pr_method = ''LIST'', pr_path = p,
      pr_range = None, pr_protected = protected_check sl p, pr_cursor = pin, pr_limit = limit, pr_params = []\<rparr>"
  have d: "to_str (cd_repr cd) (or_default (jget ?req ''cursor'') (JStr [])) = pin"
    "to_int (or_default (jget ?req ''limit'') (JInt 0)) = Inr limit" "str_field cd ?req ''device_id'' = device"
    by (auto simp: listing_request_def jget_def or_default_def str_field_def jget_or_def)
  obtain ck roots where c: "sp_cursor sl = Some ck" "directory_roots sl p = Inr roots"
    using assms out by (auto simp: handle_list_def refuse_def split: option.splits sum.splits)
  obtain sl1 r where a: "authorize cd now ?req (protected_check sl p) ?q sl = (sl1, r)" by fastforce
  have "r = Inr ()" using assms out by (cases r) (auto simp: handle_list_def c d Let_def a refuse_def)
  note a = a [unfolded this]
  then have ok: "permits sl now p device" and sl1: "sl1 = sl\<lparr>sp_verifier := sp_verifier sl1\<rparr>"
    by (auto simp: permits_def dest!: authorize_Inr)
  then have s: "sp_digest sl1 = sp_digest sl" "sp_disk sl1 = sp_disk sl" "sp_conf sl1 = sp_conf sl" "sp_db sl1 = sp_db sl"
    by (metis slave.select_convs slave.surjective slave.update_convs(3))+
  show ?thesis
    using assms out ok
    by (auto simp: handle_list_def c d Let_def a s refuse_def answer_def slave_page_def split: sum.splits)
qed simp

lemma listing_rejected:
  assumes "net_ok net"
  shows "\<exists>e. listing_loop (json_codec rt rl repr check) [] (net (fst (send (json_codec rt rl repr check) (rejection t)))) = Inl e"
proof (cases rule: send_cases [of "json_codec rt rl repr check" "rejection t"])
  case (Failed e)
  then show ?thesis using assms by (intro listing_loop_closed) (simp_all add: net_ok_def)
next
  case (Sent b)
  have "pieces_ok (net b)" "concat (net b) = b @ []" using assms by (simp_all add: net_ok_def)
  from receive_json [OF _ protocol_plain(4) this, where rt = rt and rl = rl] Sent(2) obtain conn' where
    "receive_frame (json_loads rl) (net b) = (Inr (rejection t), conn')" by auto
  with Sent(1) show ?thesis by (subst listing_loop.simps) (simp add: rejection_def jget_def)
qed

lemma send_all_error: "send_all cd fs = (out, Inl e) \<Longrightarrow> e \<noteq> SE_Ticket t"
proof (induction fs arbitrary: out)
  case (Cons f fs)
  show ?case
  proof (cases rule: send_cases [of cd f])
    case (Failed e')
    with Cons.prems show ?thesis by (auto simp: send_all_Cons_Inl simp del: send_all.simps)
  next
    case (Sent b)
    with Cons show ?thesis by (auto simp: send_all_Cons_Inl simp del: send_all.simps)
  qed
qed simp

lemma exchange_listing:
  fixes rt rl repr check defines "cd \<equiv> json_codec rt rl repr check"
  assumes net: "net_ok net" and x: "request_listing cd net now peer p pin limit device ticket sl = (sl', Inr pg)"
    and items: "\<forall>pg. slave_page sl now p pin limit device = Some pg \<longrightarrow> list_all page_item (lp_items pg)"
  shows "slave_page sl now p pin limit device = Some pg \<and> permits sl now p device"
proof -
  let ?req = "listing_request p pin limit device ticket"
  from exchange_json [OF net listing_request_plain, of "[]" rt rl repr check now peer p pin limit device ticket sl] obtain conn0 where
    xe: "exchange cd net now peer ?req [] sl =
    (case send_frame (json_dumps rt) (JObj ?req) of Inl e \<Rightarrow> (sl, [], Inl (of_frame e))
     | Inr b \<Rightarrow> (case handle_request cd now ?req conn0 peer sl of
          (sl', out, calls, Inl (SE_Ticket e)) \<Rightarrow> (sl', calls, Inr (net (out @ fst (send cd (rejection e)))))
        | (sl', out, calls, _) \<Rightarrow> (sl', calls, Inr (net out))))" unfolding cd_def by blast
  obtain b where b: "send_frame (json_dumps rt) (JObj ?req) = Inr b"
    using x by (cases "send_frame (json_dumps rt) (JObj ?req)") (auto simp: request_listing_def xe)
  have silent: "\<exists>e. listing_loop cd [] (net []) = Inl e" using net by (intro listing_loop_closed) (simp_all add: net_ok_def)
  have peer: "peer = vf_issuer (sp_verifier sl)"
    using x silent by (rule_tac ccontr) (auto simp: request_listing_def xe b handle_listing refuse_def)
  obtain sl2 out calls2 res where hf: "handle_list cd now ?req p sl = (sl2, out, calls2, res)"
    by (cases "handle_list cd now ?req p sl") auto
  have hr: "handle_request cd now ?req conn0 peer sl = (sl2, out, calls2, res)" using peer hf by (simp add: handle_listing)
  have loop: "listing_loop cd [] (net (case res of Inl (SE_Ticket t) \<Rightarrow> out @ fst (send cd (rejection t)) | _ \<Rightarrow> out)) = Inr pg"
    using x by (auto simp: request_listing_def xe b hr split: sum.splits slave_error.splits)
  from handle_list_out [OF hf] show ?thesis
  proof (elim disjE exE conjE)
    assume "out = []"
    have rejected: "\<exists>e. listing_loop cd [] (net (fst (send cd (rejection t)))) = Inl e" for t
      unfolding cd_def by (rule listing_rejected [OF net])
    have False
    proof (cases "\<exists>t. res = Inl (SE_Ticket t)")
      case True
      then obtain t where t: "res = Inl (SE_Ticket t)" ..
      from rejected [of t] loop \<open>out = []\<close> t show False by auto
    next
      case False
      with loop \<open>out = []\<close> silent show False by (auto split: sum.splits slave_error.splits)
    qed
    then show ?thesis ..
  next
    fix pg' assume pg': "slave_page sl now p pin limit device = Some pg'" "permits sl now p device" and o: "(out, res) = send_listing_page cd pg'"
    then have it: "list_all page_item (lp_items pg')" "length (lp_items pg') \<le> 100" using items by (auto dest: slave_page_length)
    show ?thesis
    proof (cases res)
      case (Inl e)
      with o have s: "send_all cd (listing_frames (lp_next pg') (listing_chunks (lp_items pg'))) = (out, Inl e)"
        by (simp add: send_listing_page_def)
      then have "\<forall>t. e \<noteq> SE_Ticket t" using send_all_error by blast
      with loop Inl have l: "listing_loop cd [] (net out) = Inr pg" by (auto split: slave_error.splits)
      have "\<forall>c \<in> set (listing_chunks (lp_items pg')). list_all page_item c"
        using it(1) set_listing_chunks by (fastforce simp: list_all_iff)
      with listing_loop_broken [OF s [unfolded cd_def], of "net out" "[]"] net l show ?thesis by (auto simp: net_ok_def cd_def)
    next
      case (Inr u)
      with o have "send_listing_page cd pg' = (out, Inr ())" by simp
      from listing_arrives [OF net it this [unfolded cd_def]] loop Inr have "pg = pg'" by (simp add: cd_def)
      with pg' show ?thesis by simp
    qed
  qed
qed

section \<open>What a refused request gets\<close>

definition refusal :: "slave_error \<Rightarrow> bool" where
  "refusal e \<longleftrightarrow> e = SE_Permission \<or> (\<exists>t. e = SE_Ticket t)"

text \<open>The ticket of the request was accepted, and used up, for this operation, path and device, and the device
  may open the path.\<close>

definition cleared :: "codec \<Rightarrow> time \<Rightarrow> jobj \<Rightarrow> string \<Rightarrow> string \<Rightarrow> slave \<Rightarrow> slave \<Rightarrow> bool" where
  "cleared cd now req op p sl sl' \<longleftrightarrow>
     permits sl now p (str_field cd req ''device_id'') \<and>
     (\<exists>q c. verify_and_consume (cd_repr cd) (cd_loads cd) (cd_check cd) now (str_field cd req ''ticket'') q (sp_verifier sl) = (sp_verifier sl', Inr c) \<and>
        pr_audience q = sp_node sl \<and> pr_method q = op \<and> pr_path q = p \<and> pr_device q = str_field cd req ''device_id'' \<and>
        pr_protected q = protected_check sl p)"

definition careful :: "codec \<Rightarrow> time \<Rightarrow> jobj \<Rightarrow> string \<Rightarrow> string \<Rightarrow> slave \<Rightarrow> outcome \<Rightarrow> bool" where
  "careful cd now req op p sl r \<longleftrightarrow> (case r of (sl', out, calls, res) \<Rightarrow>
     calls = [] \<and> (out \<noteq> [] \<longrightarrow> cleared cd now req op p sl sl') \<and> (\<forall>e. res = Inl e \<and> refusal e \<longrightarrow> out = []))"

definition mild :: "string \<times> (slave_error + unit) \<Rightarrow> bool" where
  "mild r \<longleftrightarrow> (\<forall>e. snd r = Inl e \<longrightarrow> \<not> refusal e)"

lemma careful_refuse [simp]: "careful cd now req op p sl (refuse sl' e)"
  by (simp add: careful_def refuse_def)

lemma careful_answer:
  assumes "cleared cd now req op p sl sl'" and "mild r"
  shows "careful cd now req op p sl (answer sl' [] r)"
  using assms by (cases r) (auto simp: careful_def answer_def mild_def)

lemma slave_verify_cleared:
  assumes "slave_verify cd now (str_field cd req ''ticket'') q sl = (sl', Inr u)" and "permits sl now p (str_field cd req ''device_id'')"
    and "pr_audience q = sp_node sl" "pr_method q = op" "pr_path q = p" "pr_device q = str_field cd req ''device_id''"
      "pr_protected q = protected_check sl p"
  shows "cleared cd now req op p sl sl'"
proof -
  from assms(1) obtain c where
    "verify_and_consume (cd_repr cd) (cd_loads cd) (cd_check cd) now (str_field cd req ''ticket'') q (sp_verifier sl) = (sp_verifier sl', Inr c)"
    by (auto simp: slave_verify_def split: prod.splits sum.splits)
  with assms(2-) show ?thesis unfolding cleared_def by blast
qed

lemma authorize_cleared:
  assumes "authorize cd now req (protected_check sl p) q sl = (sl', Inr u)"
    and "pr_audience q = sp_node sl" "pr_method q = op" "pr_path q = p" "pr_device q = str_field cd req ''device_id''"
      "pr_protected q = protected_check sl p"
  shows "cleared cd now req op p sl sl'"
proof (rule slave_verify_cleared)
  show "slave_verify cd now (str_field cd req ''ticket'') q sl = (sl', Inr u)"
    using assms(1) by (auto simp: authorize_def split: sum.splits if_splits)
  show "permits sl now p (str_field cd req ''device_id'')"
    using authorize_Inr [OF assms(1)] assms(4,5) by (simp add: permits_def)
qed (rule assms)+

lemma mild_done [simp]: "mild (out, Inr u)"
  by (simp add: mild_def)

lemma mild_send [simp]: "mild (send cd f)"
proof -
  have "\<not> refusal (of_stream x)" for x by (cases x) (simp_all add: refusal_def)
  then show ?thesis by (auto simp: mild_def send_def split: sum.splits)
qed

lemma mild_and_then [simp]: "mild a \<Longrightarrow> mild b \<Longrightarrow> mild (and_then a b)"
  by (auto simp: mild_def and_then_def split: prod.splits sum.splits)

lemma mild_stream [simp]: "mild (stream_loop n s)"
  by (simp add: mild_def stream_loop_spec refusal_def)

lemma mild_send_all [simp]: "mild (send_all cd fs)"
  by (induction fs) simp_all

lemma handle_content_careful:
  "careful cd now req op p sl (handle_content cd now req op p target sz etag mime (protected_check sl p) sl)"
proof (cases "concrete_range (jget req ''range'') sz")
  case (Inr rg)
  let ?q = "\<lparr>pr_audience = sp_node sl, pr_device = str_field cd req ''device_id'', pr_method = op, pr_path = p,
                   pr_range = rg, pr_protected = protected_check sl p, pr_cursor = [], pr_limit = 0, pr_params = []\<rparr>"
  obtain sl1 r where a: "authorize cd now req (protected_check sl p) ?q sl = (sl1, r)" by fastforce
  show ?thesis
  proof (cases r)
    case (Inl e)
    then show ?thesis by (simp add: handle_content_def Inr a)
  next
    case (Inr u)
    have "cleared cd now req op p sl sl1" by (rule authorize_cleared [OF a [unfolded Inr]]) simp_all
    then show ?thesis
      unfolding handle_content_def \<open>concrete_range _ _ = _\<close> a Inr sum.case prod.case
      by (intro careful_answer) simp_all
  qed
qed (simp add: handle_content_def)

lemma handle_derived_careful:
  "careful cd now req op p sl (handle_derived cd now req op p target (protected_check sl p) sl)"
proof (cases "sp_derived sl = None \<or> jget req ''range'' \<noteq> JNull")
  case True
  then show ?thesis by (cases "sp_derived sl") (simp_all add: handle_derived_def)
next
  case False
  then obtain resource where rs: "sp_derived sl = Some resource" "jget req ''range'' = JNull" by auto
  show ?thesis
  proof (cases "if protected_check sl p then access_check sl now p (str_field cd req ''device_id'') else Inr True")
    case (Inl e)
    then show ?thesis by (simp add: handle_derived_def rs)
  next
    case ac: (Inr ok)
    show ?thesis
    proof (cases "ok \<and> (\<exists>params. to_dict (cd_repr cd) (or_default (jget req ''params'') (JObj [])) = Inr params)")
      case False
      then show ?thesis by (auto simp: handle_derived_def rs ac split: sum.splits)
    next
      case True
      then obtain params where pm: "to_dict (cd_repr cd) (or_default (jget req ''params'') (JObj [])) = Inr params" and ok by blast
      let ?q = "\<lparr>pr_audience = sp_node sl, pr_device = str_field cd req ''device_id'', pr_method = op, pr_path = p,
          pr_range = None, pr_protected = protected_check sl p, pr_cursor = [], pr_limit = 0, pr_params = params\<rparr>"
      obtain sl1 r where v: "slave_verify cd now (str_field cd req ''ticket'') ?q sl = (sl1, r)" by fastforce
      show ?thesis
      proof (cases r)
        case (Inl e)
        then show ?thesis using \<open>ok\<close> by (simp add: handle_derived_def rs ac pm v)
      next
        case (Inr u)
        have "permits sl now p (str_field cd req ''device_id'')" using ac \<open>ok\<close> by (auto simp: permits_def split: if_splits)
        then have c: "cleared cd now req op p sl sl1" by (intro slave_verify_cleared [OF v [unfolded Inr]]) simp_all
        show ?thesis
        proof (cases "derived_args op params")
          case (Inl e)
          then show ?thesis using \<open>ok\<close> \<open>r = Inr u\<close> by (simp add: handle_derived_def rs ac pm v)
        next
          case (Inr args)
          then show ?thesis using \<open>ok\<close> \<open>r = Inr u\<close> c by (simp add: handle_derived_def rs ac pm v Let_def careful_answer)
        qed
      qed
    qed
  qed
qed

lemma handle_list_careful: "careful cd now req ''LIST'' p sl (handle_list cd now req p sl)"
proof (cases "\<exists>ck roots limit. sp_cursor sl = Some ck \<and> directory_roots sl p = Inr roots \<and> to_int (or_default (jget req ''limit'') (JInt 0)) = Inr limit")
  case False
  then show ?thesis by (auto simp: handle_list_def Let_def split: option.splits sum.splits)
next
  case True
  then obtain ck roots limit where d: "sp_cursor sl = Some ck" "directory_roots sl p = Inr roots"
    "to_int (or_default (jget req ''limit'') (JInt 0)) = Inr limit" by blast
  let ?q = "\<lparr>pr_audience = sp_node sl, pr_device = str_field cd req ''device_id'', pr_method = ''LIST'', pr_path = p,
      pr_range = None, pr_protected = protected_check sl p, pr_cursor = to_str (cd_repr cd) (or_default (jget req ''cursor'') (JStr [])),
      pr_limit = limit, pr_params = []\<rparr>"
  obtain sl1 r where a: "authorize cd now req (protected_check sl p) ?q sl = (sl1, r)" by fastforce
  show ?thesis
  proof (cases r)
    case (Inl e)
    then show ?thesis by (simp add: handle_list_def d Let_def a)
  next
    case (Inr u)
    have "cleared cd now req ''LIST'' p sl sl1" by (rule authorize_cleared [OF a [unfolded Inr]]) simp_all
    then show ?thesis using Inr
      by (auto simp: handle_list_def d Let_def a send_listing_page_def careful_answer split: sum.split)
  qed
qed

definition content_operations :: "string list" where
  "content_operations = [''GET'', ''HEAD'', ''LIST''] @ derived_methods"

lemma handle_request_careful:
  assumes "str_upper (str_field cd req ''op'') \<in> set content_operations"
  shows "careful cd now req (str_upper (str_field cd req ''op'')) (str_field cd req ''path'') sl (handle_request cd now req conn peer sl)"
proof -
  have f: "careful cd now req op p sl (handle_file cd now req op p sl)" if "op \<noteq> ''STAT''" for op p
    using that handle_content_careful handle_derived_careful
    by (auto simp: handle_file_def Let_def split: sum.split option.split prod.split)
  show ?thesis
    using assms f handle_list_careful [of cd now req "str_field cd req ''path''" sl]
    by (auto simp: handle_request_def Let_def content_operations_def derived_methods_def allowed_operations_def)
qed

section \<open>Replicas arrive whole\<close>

lemma handle_replica_write:
  assumes "pieces_ok conn" and "concat conn = payload" and "peer = vf_issuer (sp_verifier sl)" and "sp_relay_write sl"
    and "length payload \<le> 4 * 1024 * 1024 + 256 * 1024"
  shows "handle_request cd now (replica_write_request relay_id relative_path payload) conn peer sl =
    answer sl [Relay_Write relay_id relative_path payload] (send cd [(''status'', JInt 200)])"
proof -
  have "payload \<noteq> [] \<Longrightarrow> fst (read_exact (length payload) conn) = Inr payload"
    using read_exact_append [OF assms(1), of payload "[]"] assms(2) by auto
  then have "(if int (length payload) = 0 then Inr [] else fst (read_exact (nat (int (length payload))) conn)) = Inr payload" by auto
  moreover have "str_upper ''P2P_RELAY_WRITE'' = ''P2P_RELAY_WRITE''" by (simp add: str_upper_def upper_of_def char_eval)
  ultimately show ?thesis
    using assms(3-)
    by (simp add: handle_request_def replica_write_request_def str_field_def jget_or_def allowed_operations_def Let_def handle_relay_write_def del: One_nat_def)
qed

section \<open>Properties\<close>

text \<open>C20 (a refused request gets nothing). A peer that is not the trusted master, or an unknown operation, gets no byte,
  runs no callback and changes nothing. A request for content, a listing or derived media that sends any byte
  back has used up a ticket accepted for exactly this operation, path and device, and premium access to the path
  was open to the device; a request refused for its ticket or for premium access has sent no byte, and none of
  these requests runs a callback.\<close>

theorem refused_request_gets_nothing:
  assumes "handle_request cd now req conn peer sl = (sl', out, calls, res)"
  shows "(peer \<noteq> vf_issuer (sp_verifier sl) \<or> str_upper (str_field cd req ''op'') \<notin> set allowed_operations \<longrightarrow>
      sl' = sl \<and> out = [] \<and> calls = [] \<and> res = Inl SE_Protocol) \<and>
    (str_upper (str_field cd req ''op'') \<in> set content_operations \<longrightarrow>
      calls = [] \<and> (out \<noteq> [] \<longrightarrow> cleared cd now req (str_upper (str_field cd req ''op'')) (str_field cd req ''path'') sl sl') \<and>
      (\<forall>e. res = Inl e \<and> refusal e \<longrightarrow> out = []))"
proof (intro conjI impI)
  assume "peer \<noteq> vf_issuer (sp_verifier sl) \<or> str_upper (str_field cd req ''op'') \<notin> set allowed_operations"
  with assms have "refuse sl SE_Protocol = (sl', out, calls, res)" by (auto simp: handle_request_def Let_def)
  then show "sl' = sl" "out = []" "calls = []" "res = Inl SE_Protocol" by (simp_all add: refuse_def)
next
  assume "str_upper (str_field cd req ''op'') \<in> set content_operations"
  from handle_request_careful [OF this, of now sl conn peer] assms
  show "calls = []" "out \<noteq> [] \<Longrightarrow> cleared cd now req (str_upper (str_field cd req ''op'')) (str_field cd req ''path'') sl sl'"
    "\<forall>e. res = Inl e \<and> refusal e \<longrightarrow> out = []" by (simp_all add: careful_def)
qed

theorem refused_request_gets_nothing_witness:
  "handle_request demo_codec 100 (file_request ''GET'' ''/pub/a'' None ''d'' []) [] ''stranger'' demo_slave = (demo_slave, [], [], Inl SE_Protocol)"
proof -
  obtain sl' out calls res where
    h: "handle_request demo_codec 100 (file_request ''GET'' ''/pub/a'' None ''d'' []) [] ''stranger'' demo_slave = (sl', out, calls, res)"
    by (cases "handle_request demo_codec 100 (file_request ''GET'' ''/pub/a'' None ''d'' []) [] ''stranger'' demo_slave") auto
  have "''stranger'' \<noteq> vf_issuer (sp_verifier demo_slave)" by (simp add: demo_slave_def demo_verifier_def)
  with refused_request_gets_nothing [OF h] h show ?thesis by simp
qed

text \<open>The master that reads the frames of a page, twenty items each,
  rebuilds the page: the same items in the same order and the same cursor, however the network cuts the bytes.\<close>

theorem listing_page_roundtrip:
  assumes "net_ok net" and "list_all page_item (lp_items pg)" and "length (lp_items pg) \<le> 100"
    and "send_listing_page (json_codec rt rl repr check) pg = (out, Inr ())"
  shows "listing_loop (json_codec rt rl repr check) [] (net out) = Inr pg"
  using assms by (rule listing_arrives)

definition demo_sent_page :: listing_page where
  "demo_sent_page = \<lparr>lp_items = replicate 21 (JObj [(''path'', JStr ''/a'')]), lp_next = ''c''\<rparr>"

theorem listing_page_roundtrip_witness:
  "listing_loop demo_codec [] (demo_net (fst (send_listing_page demo_codec demo_sent_page))) = Inr demo_sent_page"
proof -
  have "case send_listing_page demo_codec demo_sent_page of (out, Inr u) \<Rightarrow> True | _ \<Rightarrow> False" by code_simp
  then have "send_listing_page demo_codec demo_sent_page = (fst (send_listing_page demo_codec demo_sent_page), Inr ())"
    by (auto split: prod.splits sum.splits)
  from listing_page_roundtrip [OF demo_net_ok _ _ this [unfolded demo_codec_def]] show ?thesis
    by (simp add: demo_codec_def demo_sent_page_def page_item_def list_all_iff)
qed

text \<open>The folder \<open>vip\<close> of a slave carries the premium marker.\<close>

definition vip_slave :: slave where
  "vip_slave = demo_slave\<lparr>sp_disk := (sp_disk demo_slave)\<lparr>dk_fs := plain_fs [[''srv''], [''srv'', ''vip'']] [[''srv'', ''vip'', ''a'']]\<rparr>,
     sp_conf := \<lparr>shared_roots = [(''slot-1'', [''srv''])], hidden_paths = []\<rparr>, sp_db := empty_unlock_db\<lparr>ud_markers := [([''srv'', ''vip''], None)]\<rparr>\<rparr>"


end
