(* ===== verification/Cluster_Registry.thy ===== *)
theory Cluster_Registry
  imports Py_Json
begin

text \<open>
  The registry of a master's slaves (\<^verbatim>\<open>core/cluster/registry.py\<close>) and the peers a node trusts for mutual TLS
  (\<open>PeerTrustStore\<close> of \<^verbatim>\<open>core/cluster/tls.py\<close>). A state file holds the records it was dumped from, or is absent;
  reading and writing the disk does not fail. A lock makes an operation atomic.
\<close>

section \<open>Slaves\<close>

definition max_slaves :: nat where "max_slaves = 5"

record slave_node =
  sn_id :: string
  sn_name :: string
  sn_host :: string
  sn_port :: int
  sn_serial :: int
  sn_online :: bool
  sn_created :: int

record registry =
  rg_nodes :: "(string, slave_node) dict"
  rg_file :: "slave_node list option"

text \<open>\<open>sorted(self._nodes.values(), key=lambda node: node.name.lower())\<close>.\<close>

definition registry_nodes :: "registry \<Rightarrow> slave_node list" where
  "registry_nodes rg = sort_key (\<lambda>n. str_lower (sn_name n)) (dvals (rg_nodes rg))"

definition registry_save :: "registry \<Rightarrow> registry" where
  "registry_save rg = rg\<lparr>rg_file := Some (map (\<lambda>n. n\<lparr>sn_online := False\<rparr>) (registry_nodes rg))\<rparr>"

definition registry_load :: "slave_node list option \<Rightarrow> py_error + registry" where
  "registry_load file =
     (let nodes = (case file of None \<Rightarrow> [] | Some ns \<Rightarrow> fold (\<lambda>n. dput (sn_id n) (n\<lparr>sn_online := False\<rparr>)) ns [])
      in if max_slaves < length nodes then Inl Value_Error else Inr \<lparr>rg_nodes = nodes, rg_file = file\<rparr>)"

definition registry_add :: "slave_node \<Rightarrow> registry \<Rightarrow> registry \<times> (py_error + unit)" where
  "registry_add n rg =
     (if sn_id n = [] \<or> sn_name n = [] \<or> \<not> (1 \<le> sn_port n \<and> sn_port n \<le> 65535) then (rg, Inl Value_Error)
      else if sn_id n \<notin> set (dkeys (rg_nodes rg)) \<and> max_slaves \<le> length (rg_nodes rg) then (rg, Inl Value_Error)
      else (registry_save (rg\<lparr>rg_nodes := dput (sn_id n) n (rg_nodes rg)\<rparr>), Inr ()))"

definition registry_get :: "string \<Rightarrow> registry \<Rightarrow> slave_node option" where
  "registry_get node rg = dget (rg_nodes rg) node"

definition registry_remove :: "string \<Rightarrow> registry \<Rightarrow> registry \<times> bool" where
  "registry_remove node rg =
     (if node \<in> set (dkeys (rg_nodes rg)) then (registry_save (rg\<lparr>rg_nodes := dpop node (rg_nodes rg)\<rparr>), True) else (rg, False))"

definition set_online :: "string \<Rightarrow> bool \<Rightarrow> registry \<Rightarrow> registry \<times> bool" where
  "set_online node up rg =
     (case dget (rg_nodes rg) node of None \<Rightarrow> (rg, False)
      | Some n \<Rightarrow> (rg\<lparr>rg_nodes := dput node (n\<lparr>sn_online := up\<rparr>) (rg_nodes rg)\<rparr>, True))"

definition update_endpoint :: "string \<Rightarrow> string \<Rightarrow> int \<Rightarrow> int \<Rightarrow> registry \<Rightarrow> registry \<times> (py_error + bool)" where
  "update_endpoint node host port serial rg =
     (let clean_host = str_strip host
      in if clean_host = [] \<or> \<not> (1 \<le> port \<and> port \<le> 65535) then (rg, Inl Value_Error)
         else (case dget (rg_nodes rg) node of None \<Rightarrow> (rg, Inr False)
               | Some n \<Rightarrow>
                   if sn_serial n \<noteq> serial then (rg, Inl Value_Error)
                   else (registry_save (rg\<lparr>rg_nodes := dput node (n\<lparr>sn_host := clean_host, sn_port := port\<rparr>) (rg_nodes rg)\<rparr>), Inr True)))"

section \<open>Trusted peers\<close>

definition max_trusted_peers :: nat where "max_trusted_peers = 6"

text \<open>A certificate: the URIs of its alternative names, unless it cannot be parsed, and its serial number.\<close>

type_synonym certificate = "string list option \<times> int"

record trust_store =
  ts_ca :: string
  ts_peers :: "(string, int) dict"
  ts_file :: "(string \<times> (string \<times> int) list) option"

datatype peer_error = Peer_Identity | Peer_Unknown | Peer_Serial string int int | Peer_Registry

definition trust_save :: "trust_store \<Rightarrow> trust_store" where
  "trust_save ts = ts\<lparr>ts_file := Some (ts_ca ts, sort_key fst (ts_peers ts))\<rparr>"

definition trust_load :: "string \<Rightarrow> (string \<times> (string \<times> int) list) option \<Rightarrow> peer_error + trust_store" where
  "trust_load ca file =
     (case file of None \<Rightarrow> Inr \<lparr>ts_ca = ca, ts_peers = [], ts_file = None\<rparr>
      | Some (ca', peers) \<Rightarrow>
          if ca' \<noteq> ca \<or> max_trusted_peers < length peers then Inl Peer_Registry
          else Inr \<lparr>ts_ca = ca, ts_peers = fold (\<lambda>(k, v). dput k v) peers [], ts_file = file\<rparr>)"

text \<open>\<open>allow_serial\<close>, and \<open>allow\<close> with the serial of a certificate and no test of it.\<close>

definition trust_put :: "string \<Rightarrow> int \<Rightarrow> trust_store \<Rightarrow> trust_store \<times> (py_error + unit)" where
  "trust_put node serial ts =
     (if node \<notin> set (dkeys (ts_peers ts)) \<and> max_trusted_peers \<le> length (ts_peers ts) then (ts, Inl Value_Error)
      else (trust_save (ts\<lparr>ts_peers := dput node serial (ts_peers ts)\<rparr>), Inr ()))"

definition allow_peer :: "string \<Rightarrow> certificate \<Rightarrow> trust_store \<Rightarrow> trust_store \<times> (py_error + unit)" where
  "allow_peer node cert ts =
     (if node = [] \<or> 128 < length node then (ts, Inl Value_Error) else trust_put node (snd cert) ts)"

definition allow_serial :: "string \<Rightarrow> int \<Rightarrow> trust_store \<Rightarrow> trust_store \<times> (py_error + unit)" where
  "allow_serial node serial ts =
     (if node = [] \<or> 128 < length node \<or> serial \<le> 0 then (ts, Inl Value_Error) else trust_put node serial ts)"

definition revoke_peer :: "string \<Rightarrow> trust_store \<Rightarrow> trust_store" where
  "revoke_peer node ts = trust_save (ts\<lparr>ts_peers := dpop node (ts_peers ts)\<rparr>)"

definition trusted_ids :: "trust_store \<Rightarrow> string list" where
  "trusted_ids ts = sort (dkeys (ts_peers ts))"

definition node_uri_prefix :: string where "node_uri_prefix = ''urn:netshare:node:''"

definition authorize_der :: "certificate \<Rightarrow> trust_store \<Rightarrow> peer_error + string \<times> int" where
  "authorize_der cert ts =
     (case fst cert of None \<Rightarrow> Inl Peer_Identity
      | Some uris \<Rightarrow>
          (case map (drop (length node_uri_prefix)) (filter (\<lambda>u. starts_with u node_uri_prefix) uris) of
             [node] \<Rightarrow>
               (case dget (ts_peers ts) node of None \<Rightarrow> Inl Peer_Unknown
                | Some serial \<Rightarrow> if serial \<noteq> snd cert then Inl (Peer_Serial node serial (snd cert)) else Inr (node, serial))
           | _ \<Rightarrow> Inl Peer_Identity))"

section \<open>The registry keeps its type\<close>

definition node_ok :: "slave_node \<Rightarrow> bool" where
  "node_ok n \<longleftrightarrow> sn_id n \<noteq> [] \<and> sn_name n \<noteq> [] \<and> 1 \<le> sn_port n \<and> sn_port n \<le> 65535"

definition nodes_ok :: "(string, slave_node) dict \<Rightarrow> bool" where
  "nodes_ok d \<longleftrightarrow> dict_ok d \<and> length d \<le> max_slaves \<and> (\<forall>k n. dget d k = Some n \<longrightarrow> sn_id n = k \<and> node_ok n)"

definition offline :: "(string, slave_node) dict \<Rightarrow> (string, slave_node) dict" where
  "offline d = dmap (\<lambda>n. n\<lparr>sn_online := False\<rparr>) d"

text \<open>The state in memory is well formed, and so is what a restart reads back: the same nodes, all offline.\<close>

definition registry_ok :: "registry \<Rightarrow> bool" where
  "registry_ok rg \<longleftrightarrow> nodes_ok (rg_nodes rg) \<and>
     (\<exists>rg'. registry_load (rg_file rg) = Inr rg' \<and> (\<forall>k. dget (rg_nodes rg') k = dget (offline (rg_nodes rg)) k))"

datatype registry_op =
    RG_Add slave_node | RG_Remove string | RG_Online string bool | RG_Endpoint string string int int | RG_Restart

fun registry_step :: "registry_op \<Rightarrow> registry \<Rightarrow> registry" where
  "registry_step (RG_Add n) rg = fst (registry_add n rg)"
| "registry_step (RG_Remove k) rg = fst (registry_remove k rg)"
| "registry_step (RG_Online k b) rg = fst (set_online k b rg)"
| "registry_step (RG_Endpoint k h p s) rg = fst (update_endpoint k h p s rg)"
| "registry_step RG_Restart rg = (case registry_load (rg_file rg) of Inl e \<Rightarrow> rg | Inr rg' \<Rightarrow> rg')"

lemma fold_put_append:
  "distinct (dkeys d @ map key ns) \<Longrightarrow> fold (\<lambda>n. dput (key n) (g n)) ns d = d @ map (\<lambda>n. (key n, g n)) ns"
  by (induction ns arbitrary: d) (auto simp: dput_new)

lemma fold_put_dict: "dict_ok d \<Longrightarrow> dict_ok (fold (\<lambda>n. dput (key n) (g n)) ns d)"
  by (induction ns arbitrary: d) simp_all

lemma nodes_ok_member: "nodes_ok d \<Longrightarrow> (k, n) \<in> set d \<Longrightarrow> sn_id n = k \<and> node_ok n"
  by (simp add: nodes_ok_def dget_set)

lemma nodes_ok_keys: "nodes_ok d \<Longrightarrow> map sn_id (dvals d) = dkeys d"
  using nodes_ok_member [of d] by (auto intro!: map_cong simp: comp_def)

lemma same_lookup:
  assumes "dict_ok d" and "dict_ok e" and "set d = set e"
  shows "dget d k = dget e k"
proof (cases "dget e k")
  case None
  then have "k \<notin> set (dkeys e)" by (simp add: map_of_eq_None_iff)
  with assms(3) have "k \<notin> set (dkeys d)" by simp
  then have "dget d k = None" by (simp add: map_of_eq_None_iff)
  with None show ?thesis by simp
next
  case (Some v)
  with assms(2) have "(k, v) \<in> set e" by (simp add: dget_set)
  with assms have "dget d k = Some v" by (simp add: dget_set)
  with Some show ?thesis by simp
qed

lemma saved_reloads:
  assumes "nodes_ok (rg_nodes rg)"
  shows "\<exists>rg'. registry_load (rg_file (registry_save rg)) = Inr rg' \<and> (\<forall>k. dget (rg_nodes rg') k = dget (offline (rg_nodes rg)) k)"
proof -
  let ?ns = "registry_nodes rg" and ?off = "\<lambda>n. n\<lparr>sn_online := False\<rparr>"
  let ?d = "map (\<lambda>n. (sn_id n, ?off n)) (map ?off ?ns)"
  have d: "dict_ok (rg_nodes rg)" "length (rg_nodes rg) \<le> max_slaves" using assms by (simp_all add: nodes_ok_def)
  have "distinct (map sn_id (dvals (rg_nodes rg)))" using d(1) by (simp only: nodes_ok_keys [OF assms] dict_ok_def)
  then have "distinct (map sn_id ?ns)" by (simp only: registry_nodes_def distinct_map set_sort distinct_sort)
  then have dist: "distinct (map sn_id (map ?off ?ns))" by (simp add: comp_def)
  then have l: "fold (\<lambda>n. dput (sn_id n) (?off n)) (map ?off ?ns) [] = ?d"
    using fold_put_append [of "[]" sn_id "map ?off ?ns" ?off] by simp
  have "(k, n) \<in> set ?d \<longleftrightarrow> (k, n) \<in> set (offline (rg_nodes rg))" for k n
  proof -
    have "(k, n) \<in> set ?d \<longleftrightarrow> (\<exists>m. m \<in> set (dvals (rg_nodes rg)) \<and> k = sn_id m \<and> n = ?off m)" by (auto simp: registry_nodes_def)
    also have "\<dots> \<longleftrightarrow> (k, n) \<in> set (offline (rg_nodes rg))"
    proof
      assume "\<exists>m. m \<in> set (dvals (rg_nodes rg)) \<and> k = sn_id m \<and> n = ?off m"
      then obtain j m where m: "(j, m) \<in> set (rg_nodes rg)" "k = sn_id m" "n = ?off m" by auto
      with nodes_ok_member [OF assms m(1)] show "(k, n) \<in> set (offline (rg_nodes rg))" by (auto simp: offline_def dmap_def intro!: rev_image_eqI)
    next
      assume "(k, n) \<in> set (offline (rg_nodes rg))"
      then obtain m where m: "(k, m) \<in> set (rg_nodes rg)" "n = ?off m" by (auto simp: offline_def dmap_def)
      with nodes_ok_member [OF assms m(1)] show "\<exists>m. m \<in> set (dvals (rg_nodes rg)) \<and> k = sn_id m \<and> n = ?off m"
        by (intro exI [of _ m]) (simp add: rev_image_eqI)
    qed
    finally show ?thesis .
  qed
  then have "set ?d = set (offline (rg_nodes rg))" by auto
  moreover have "dict_ok ?d" using dist by (simp add: dict_ok_def comp_def)
  moreover have "dict_ok (offline (rg_nodes rg))" using d(1) by (simp add: offline_def)
  ultimately have "\<forall>k. dget ?d k = dget (offline (rg_nodes rg)) k" by (intro allI same_lookup)
  moreover have "length ?d \<le> max_slaves" using d(2) by (simp add: registry_nodes_def)
  moreover have "registry_load (Some (map ?off ?ns)) = Inr \<lparr>rg_nodes = ?d, rg_file = Some (map ?off ?ns)\<rparr>" if "length ?d \<le> max_slaves"
    using that unfolding registry_load_def Let_def option.case l by (simp only: not_less [symmetric] if_False)
  ultimately show ?thesis unfolding registry_save_def by (intro exI [of _ "\<lparr>rg_nodes = ?d, rg_file = Some (map ?off ?ns)\<rparr>"]) simp
qed

lemma nodes_ok_put: "nodes_ok d \<Longrightarrow> node_ok n \<Longrightarrow> sn_id n = k \<Longrightarrow> k \<in> set (dkeys d) \<or> length d < max_slaves \<Longrightarrow> nodes_ok (dput k n d)"
  by (auto simp: nodes_ok_def dget_put length_put split: if_splits)

lemma nodes_ok_pop: "nodes_ok d \<Longrightarrow> nodes_ok (dpop k d)"
  using length_pop_le [of k d] by (auto simp: nodes_ok_def dget_pop split: if_splits)

lemma registry_saved_ok: "nodes_ok (rg_nodes rg) \<Longrightarrow> registry_ok (registry_save rg)"
  using saved_reloads [of rg] by (simp add: registry_ok_def registry_save_def)

lemma offline_put: "dget (offline (dput k (n\<lparr>sn_online := b\<rparr>) d)) j = dget (offline d) j" if "dget d k = Some n" "dict_ok d"
  using that by (auto simp: offline_def dget_map dget_put)

lemma registry_step_ok: "registry_ok rg \<Longrightarrow> registry_ok (registry_step op rg)"
proof -
  assume ok: "registry_ok rg"
  then have n: "nodes_ok (rg_nodes rg)" by (simp add: registry_ok_def)
  show ?thesis
  proof (cases op)
    case (RG_Add m)
    have put: "nodes_ok (dput (sn_id m) m (rg_nodes rg))"
      if "node_ok m" "\<not> (sn_id m \<notin> set (dkeys (rg_nodes rg)) \<and> max_slaves \<le> length (rg_nodes rg))"
      using that(2) by (intro nodes_ok_put [OF n that(1) refl]) (simp only: de_Morgan_conj not_not not_le)
    have "registry_ok (registry_save (rg\<lparr>rg_nodes := dput (sn_id m) m (rg_nodes rg)\<rparr>))"
      if "node_ok m" "\<not> (sn_id m \<notin> set (dkeys (rg_nodes rg)) \<and> max_slaves \<le> length (rg_nodes rg))"
      using put [OF that] by (intro registry_saved_ok) simp
    then show ?thesis using ok by (simp add: RG_Add registry_add_def node_ok_def del: set_map)
  next
    case (RG_Remove k)
    show ?thesis using ok by (auto simp: RG_Remove registry_remove_def intro!: registry_saved_ok nodes_ok_pop n)
  next
    case (RG_Online k b)
    show ?thesis
    proof (cases "dget (rg_nodes rg) k")
      case None
      with ok show ?thesis by (simp add: RG_Online set_online_def)
    next
      case (Some m)
      with n have m: "sn_id m = k" "node_ok m" by (simp_all add: nodes_ok_def)
      have k: "k \<in> set (dkeys (rg_nodes rg))" using Some by (metis map_of_eq_None_iff option.distinct(1) set_map)
      have "nodes_ok (dput k (m\<lparr>sn_online := b\<rparr>) (rg_nodes rg))" using m k by (intro nodes_ok_put [OF n]) (simp_all add: node_ok_def)
      moreover have "dict_ok (rg_nodes rg)" using n by (simp add: nodes_ok_def)
      ultimately show ?thesis using ok offline_put [OF Some, of b] by (simp add: RG_Online set_online_def Some registry_ok_def)
    qed
  next
    case (RG_Endpoint k h q s)
    have "nodes_ok (dput k (m\<lparr>sn_host := h', sn_port := q\<rparr>) (rg_nodes rg))" if "dget (rg_nodes rg) k = Some m" "1 \<le> q" "q \<le> 65535" for m h'
    proof (rule nodes_ok_put [OF n])
      show "k \<in> set (dkeys (rg_nodes rg)) \<or> length (rg_nodes rg) < max_slaves"
        using that(1) by (metis map_of_eq_None_iff option.distinct(1) set_map)
    qed (use n that in \<open>auto simp: nodes_ok_def node_ok_def\<close>)
    then show ?thesis using ok by (auto simp: RG_Endpoint update_endpoint_def Let_def intro!: registry_saved_ok split: option.split)
  next
    case RG_Restart
    from ok obtain rg' where r: "registry_load (rg_file rg) = Inr rg'" and g: "\<forall>k. dget (rg_nodes rg') k = dget (offline (rg_nodes rg)) k"
      by (auto simp: registry_ok_def)
    have f: "rg_file rg' = rg_file rg" "length (rg_nodes rg') \<le> max_slaves" "dict_ok (rg_nodes rg')"
      using r fold_put_dict [of "[]" sn_id] by (auto simp: registry_load_def Let_def split: if_splits option.splits)
    have "sn_id m = k \<and> node_ok m" if "dget (rg_nodes rg') k = Some m" for k m
    proof -
      from that g obtain m0 where "dget (rg_nodes rg) k = Some m0" "m = m0\<lparr>sn_online := False\<rparr>"
        by (auto simp: offline_def dget_map)
      with n show ?thesis by (auto simp: nodes_ok_def node_ok_def)
    qed
    with f(2,3) have "nodes_ok (rg_nodes rg')" by (simp add: nodes_ok_def)
    moreover have "dget (offline (rg_nodes rg')) k = dget (rg_nodes rg') k" for k
      using g by (auto simp: offline_def dget_map option.map_comp comp_def)
    ultimately show ?thesis using r f(1) by (simp add: RG_Restart registry_ok_def)
  qed
qed

definition new_registry :: registry where
  "new_registry = \<lparr>rg_nodes = [], rg_file = None\<rparr>"

lemma new_registry_ok: "registry_ok new_registry"
  by (simp add: registry_ok_def new_registry_def nodes_ok_def offline_def dmap_def registry_load_def dict_ok_def max_slaves_def)

lemma registry_run_ok: "registry_ok rg \<Longrightarrow> registry_ok (fold registry_step ops rg)"
  by (induction ops arbitrary: rg) (simp_all add: registry_step_ok)

text \<open>C23 (type). Whatever a master does with its registry, restarts included, each stored node has its own
  identifier as key, a name, a port of 16 bits, there are at most five, and the state file can be read again: a
  restart finds the same nodes, all of them offline.\<close>

theorem registry_keeps_type:
  shows "registry_ok (fold registry_step ops new_registry)"
  by (rule registry_run_ok [OF new_registry_ok])

section \<open>Trust\<close>

definition trust_ok :: "trust_store \<Rightarrow> bool" where
  "trust_ok ts \<longleftrightarrow> dict_ok (ts_peers ts) \<and> length (ts_peers ts) \<le> max_trusted_peers"

lemma trust_put_ok: "trust_ok ts \<Longrightarrow> trust_ok (fst (trust_put k s ts))"
  by (auto simp: trust_ok_def trust_put_def trust_save_def length_put not_le split: if_splits)

lemma revoke_peer_ok: "trust_ok ts \<Longrightarrow> trust_ok (revoke_peer k ts)"
  using length_pop_le [of k "ts_peers ts"] by (auto simp: trust_ok_def revoke_peer_def trust_save_def)

lemma revoke_peer_get: "dget (ts_peers (revoke_peer k ts)) j = (if j = k then None else dget (ts_peers ts) j)" if "trust_ok ts"
  using that by (simp add: revoke_peer_def trust_save_def trust_ok_def dget_pop)

lemma revoke_peer_ca [simp]: "ts_ca (revoke_peer k ts) = ts_ca ts"
  by (simp add: revoke_peer_def trust_save_def)

lemma authorized_is_trusted:
  "authorize_der cert ts = Inr (node, serial) \<Longrightarrow> dget (ts_peers ts) node = Some serial \<and> serial = snd cert"
  by (auto simp: authorize_der_def split: option.splits list.splits if_splits)

end
