(* ===== verification/Cluster_Identity.thy ===== *)
theory Cluster_Identity
  imports Cluster_Registry Cluster_Revocation
begin

text \<open>
  The certificate authority and the certificates of a cluster node (\<^verbatim>\<open>core/cluster/identity.py\<close>) with the secret
  store behind them (\<^verbatim>\<open>core/cluster/key_store.py\<close>, the contract of \<open>SecureKeyBackend\<close> that \<open>MemoryKeyBackend\<close>
  implements). The directory \<^verbatim>\<open>cluster/\<close> of the configuration is a record with a field for each of its files;
  reading and writing them does not fail, and a PEM file holds the certificate it was written from. Keys are byte
  strings; what the package \<^verbatim>\<open>cryptography\<close> computes with them is the parameter \<open>crypto\<close>. Random values and the clock are arguments.
\<close>

section \<open>Certificates\<close>

text \<open>The fields that the server sets or reads. A certificate holds its validity in whole seconds.\<close>

record cert_body =
  ct_subject :: string
  ct_issuer :: string
  ct_key :: string
  ct_serial :: int
  ct_from :: int
  ct_until :: int
  ct_ca :: "bool option"
  ct_uris :: "string list option"

record cert = ct_body :: cert_body ct_signature :: string

record crypto =
  cy_public :: "string \<Rightarrow> string"
  cy_sign :: "string \<Rightarrow> cert_body \<Rightarrow> string"
  cy_verify :: "string \<Rightarrow> cert_body \<Rightarrow> string \<Rightarrow> bool"
  cy_seal :: "string \<Rightarrow> string \<Rightarrow> string"
  cy_unseal :: "string \<Rightarrow> string \<Rightarrow> string option"
  cy_der :: "string \<Rightarrow> string"
  cy_read_der :: "string \<Rightarrow> string option"
  cy_fingerprint :: "cert \<Rightarrow> string"

text \<open>What the package documents: a signature verifies under the public key, a key that was encoded or
  encrypted is read back, and an encoding is not empty.\<close>

definition crypto_ok :: "crypto \<Rightarrow> bool" where
  "crypto_ok C \<longleftrightarrow>
     (\<forall>k b. cy_verify C (cy_public C k) b (cy_sign C k b)) \<and>
     (\<forall>k p. cy_unseal C (cy_seal C k p) p = Some k) \<and>
     (\<forall>k. cy_read_der C (cy_der C k) = Some k \<and> cy_der C k \<noteq> [])"

definition ca_valid_days :: int where "ca_valid_days = 5 * 365"
definition node_valid_days :: int where "node_valid_days = 90"
definition renew_before_days :: int where "renew_before_days = 30"

definition build_ca :: "crypto \<Rightarrow> time \<Rightarrow> int \<Rightarrow> string \<Rightarrow> string \<Rightarrow> cert" where
  "build_ca C now serial key cluster =
     (let name = ''NetShare Cluster '' @ cluster;
          body = \<lparr>ct_subject = name, ct_issuer = name, ct_key = cy_public C key, ct_serial = serial,
            ct_from = py_int (now - 60), ct_until = py_int (now + of_int (ca_valid_days * 86400)),
            ct_ca = Some True, ct_uris = None\<rparr>
      in \<lparr>ct_body = body, ct_signature = cy_sign C key body\<rparr>)"

definition build_node :: "crypto \<Rightarrow> time \<Rightarrow> int \<Rightarrow> string \<Rightarrow> string \<Rightarrow> string \<Rightarrow> cert \<Rightarrow> cert" where
  "build_node C now serial public node ca_key ca_cert =
     (let body = \<lparr>ct_subject = ''NetShare Node '' @ node, ct_issuer = ct_subject (ct_body ca_cert), ct_key = public,
            ct_serial = serial, ct_from = py_int (now - 60), ct_until = py_int (now + of_int (node_valid_days * 86400)),
            ct_ca = Some False, ct_uris = Some [node_uri_prefix @ node]\<rparr>
      in \<lparr>ct_body = body, ct_signature = cy_sign C ca_key body\<rparr>)"

section \<open>The state of a node\<close>

datatype id_error = Storage_Unavailable | Id_Value | Id_Signature

record cluster_node =
  cn_backend :: "(string, string) dict"
  cn_identity :: "(string \<times> string \<times> string) option"
  cn_ca_cert :: "cert option"
  cn_ca_key :: "string option"
  cn_node_cert :: "cert option"
  cn_node_key :: "string option"
  cn_trusted :: "(string \<times> (string \<times> int) list) option"
  cn_signing_public :: "string option"
  cn_connection :: "(string \<times> string) option"
  cn_bootstrap :: "string option"
  cn_revocations :: rev_file
  cn_nodes :: "slave_node list option"

definition backend_load :: "string \<Rightarrow> cluster_node \<Rightarrow> string option" where
  "backend_load name n = dget (cn_backend n) name"

definition backend_store :: "string \<Rightarrow> string \<Rightarrow> cluster_node \<Rightarrow> cluster_node" where
  "backend_store name secret n = n\<lparr>cn_backend := dput name secret (cn_backend n)\<rparr>"

definition backend_delete :: "string \<Rightarrow> cluster_node \<Rightarrow> cluster_node" where
  "backend_delete name n = n\<lparr>cn_backend := dpop name (cn_backend n)\<rparr>"

definition ca_password_name :: string where "ca_password_name = ''cluster-ca-pkcs8-password-v1''"
definition node_password_name :: string where "node_password_name = ''cluster-node-pkcs8-password-v1''"
definition signing_key_name :: string where "signing_key_name = ''master-ed25519-v1''"

definition joined_slave_files_exist :: "cluster_node \<Rightarrow> bool" where
  "joined_slave_files_exist n \<longleftrightarrow>
     cn_identity n \<noteq> None \<and> cn_ca_cert n \<noteq> None \<and> cn_node_cert n \<noteq> None \<and> cn_node_key n \<noteq> None \<and>
     cn_trusted n \<noteq> None \<and> cn_signing_public n \<noteq> None \<and> cn_ca_key n = None"

definition common_files :: "cluster_node \<Rightarrow> bool" where
  "common_files n \<longleftrightarrow> cn_identity n \<noteq> None \<and> cn_ca_cert n \<noteq> None \<and> cn_node_cert n \<noteq> None \<and> cn_node_key n \<noteq> None"

definition master_exists :: "cluster_node \<Rightarrow> bool" where
  "master_exists n \<longleftrightarrow> common_files n \<and> cn_ca_key n \<noteq> None"

definition slave_exists :: "cluster_node \<Rightarrow> bool" where
  "slave_exists n \<longleftrightarrow> common_files n \<and> joined_slave_files_exist n"

definition identity_exists :: "string option \<Rightarrow> cluster_node \<Rightarrow> id_error + bool" where
  "identity_exists role n =
     (if role = Some ''master'' then Inr (master_exists n)
      else if role = Some ''slave'' then Inr (slave_exists n)
      else if role \<noteq> None then Inl Id_Value
      else Inr (master_exists n \<or> slave_exists n))"

record cluster_identity =
  ci_cluster :: string
  ci_node :: string
  ci_password :: string
  ci_fingerprint :: string

definition required_secret :: "string \<Rightarrow> cluster_node \<Rightarrow> id_error + string" where
  "required_secret name n =
     (case backend_load name n of None \<Rightarrow> Inl Storage_Unavailable
      | Some s \<Rightarrow> if length s \<noteq> 64 then Inl Storage_Unavailable else Inr s)"

definition load_certificate :: "cert option \<Rightarrow> id_error + cert" where
  "load_certificate file = (case file of None \<Rightarrow> Inl Storage_Unavailable | Some c \<Rightarrow> Inr c)"

definition load_key :: "crypto \<Rightarrow> string \<Rightarrow> string option \<Rightarrow> cluster_node \<Rightarrow> id_error + string" where
  "load_key C secret file n =
     (case required_secret secret n of Inl e \<Rightarrow> Inl e
      | Inr password \<Rightarrow> (case Option.bind file (\<lambda>t. cy_unseal C t password) of None \<Rightarrow> Inl Storage_Unavailable | Some k \<Rightarrow> Inr k))"

definition load_identity :: "crypto \<Rightarrow> cluster_node \<Rightarrow> id_error + cluster_identity" where
  "load_identity C n =
     (case cn_identity n of None \<Rightarrow> Inl Storage_Unavailable
      | Some (cluster, node, _) \<Rightarrow>
          (case load_certificate (cn_ca_cert n) of Inl e \<Rightarrow> Inl e
           | Inr ca \<Rightarrow> (case required_secret node_password_name n of Inl e \<Rightarrow> Inl e
              | Inr password \<Rightarrow> Inr \<lparr>ci_cluster = cluster, ci_node = node, ci_password = password, ci_fingerprint = cy_fingerprint C ca\<rparr>)))"

definition id_char :: "char \<Rightarrow> bool" where
  "id_char c \<longleftrightarrow> c \<in> set ''ABCDEFGHIJKLMNOPQRSTUVWXYZabcdefghijklmnopqrstuvwxyz0123456789_-''"

definition valid_identifier :: "string \<Rightarrow> bool" where
  "valid_identifier s \<longleftrightarrow> 1 \<le> length s \<and> length s \<le> 64 \<and> list_all id_char s"

section \<open>Operations\<close>

text \<open>The random values of an operation: identifiers, keys, serial numbers and passwords.\<close>

record draws =
  dr_cluster :: string
  dr_node :: string
  dr_ca_key :: string
  dr_node_key :: string
  dr_ca_serial :: int
  dr_node_serial :: int
  dr_ca_password :: string
  dr_node_password :: string

definition write_identity :: "crypto \<Rightarrow> draws \<Rightarrow> string \<Rightarrow> string \<Rightarrow> cert \<Rightarrow> cert \<Rightarrow> cluster_node \<Rightarrow> cluster_node" where
  "write_identity C dr cluster node ca_cert node_cert n =
     (backend_store node_password_name (dr_node_password dr) (backend_store ca_password_name (dr_ca_password dr) n))
       \<lparr>cn_ca_key := Some (cy_seal C (dr_ca_key dr) (dr_ca_password dr)),
        cn_node_key := Some (cy_seal C (dr_node_key dr) (dr_node_password dr)),
        cn_ca_cert := Some ca_cert, cn_node_cert := Some node_cert,
        cn_identity := Some (cluster, node, cy_fingerprint C ca_cert)\<rparr>"

definition create_master_identity ::
  "crypto \<Rightarrow> draws \<Rightarrow> time \<Rightarrow> string option \<Rightarrow> string option \<Rightarrow> cluster_node \<Rightarrow> cluster_node \<times> (id_error + cluster_identity)" where
  "create_master_identity C dr now cluster_id node_id n =
     (if master_exists n then (n, load_identity C n)
      else if slave_exists n then (n, Inl Storage_Unavailable)
      else
        (let cluster = (case cluster_id of Some (c # cs) \<Rightarrow> c # cs | _ \<Rightarrow> dr_cluster dr);
             node = (case node_id of Some (c # cs) \<Rightarrow> c # cs | _ \<Rightarrow> dr_node dr)
         in if \<not> valid_identifier cluster \<or> \<not> valid_identifier node then (n, Inl Id_Value)
            else
              (let ca = build_ca C now (dr_ca_serial dr) (dr_ca_key dr) cluster;
                   cert = build_node C now (dr_node_serial dr) (cy_public C (dr_node_key dr)) node (dr_ca_key dr) ca;
                   n = write_identity C dr cluster node ca cert n
               in (n, load_identity C n))))"

definition issue_node_certificate ::
  "crypto \<Rightarrow> int \<Rightarrow> time \<Rightarrow> string \<Rightarrow> string \<Rightarrow> cluster_node \<Rightarrow> id_error + cert" where
  "issue_node_certificate C serial now node public n =
     (if \<not> valid_identifier node then Inl Id_Value
      else (case load_key C ca_password_name (cn_ca_key n) n of Inl e \<Rightarrow> Inl e
            | Inr ca_key \<Rightarrow> (case load_certificate (cn_ca_cert n) of Inl e \<Rightarrow> Inl e
               | Inr ca \<Rightarrow> Inr (build_node C now serial public node ca_key ca))))"

definition create_node_key :: "crypto \<Rightarrow> string \<Rightarrow> string \<Rightarrow> cluster_node \<Rightarrow> cluster_node \<times> string" where
  "create_node_key C password key n =
     ((backend_store node_password_name password n)\<lparr>cn_node_key := Some (cy_seal C key password)\<rparr>, cy_public C key)"

definition load_node_private_key :: "crypto \<Rightarrow> cluster_node \<Rightarrow> id_error + string" where
  "load_node_private_key C n = load_key C node_password_name (cn_node_key n) n"

definition ensure_node_key :: "crypto \<Rightarrow> string \<Rightarrow> string \<Rightarrow> cluster_node \<Rightarrow> cluster_node \<times> (id_error + string)" where
  "ensure_node_key C password key n =
     (if cn_node_key n = None then (let (n, public) = create_node_key C password key n in (n, Inr public))
      else (n, (case load_node_private_key C n of Inl e \<Rightarrow> Inl e | Inr k \<Rightarrow> Inr (cy_public C k))))"

text \<open>The checks of \<open>install_joined_identity\<close> in their order. A signature that does not verify raises
  \<open>InvalidSignature\<close>, which the handler does not catch.\<close>

definition joined_certificates ::
  "crypto \<Rightarrow> time \<Rightarrow> string \<Rightarrow> cert \<Rightarrow> cert \<Rightarrow> cluster_node \<Rightarrow> id_error + unit" where
  "joined_certificates C now node ca cert n =
     (case load_key C node_password_name (cn_node_key n) n of Inl e \<Rightarrow> Inl e
      | Inr key \<Rightarrow>
          if \<not> cy_verify C (ct_key (ct_body ca)) (ct_body ca) (ct_signature ca) \<or>
             \<not> cy_verify C (ct_key (ct_body ca)) (ct_body cert) (ct_signature cert) then Inl Id_Signature
          else if ct_ca (ct_body ca) \<noteq> Some True \<or> ct_subject (ct_body ca) \<noteq> ct_issuer (ct_body ca) \<or>
             ct_issuer (ct_body cert) \<noteq> ct_subject (ct_body ca) \<or> ct_uris (ct_body cert) \<noteq> Some [node_uri_prefix @ node] \<or>
             cy_public C key \<noteq> ct_key (ct_body cert) \<or>
             now < of_int (ct_from (ct_body cert)) \<or> of_int (ct_until (ct_body cert)) < now then Inl Storage_Unavailable
          else Inr ())"

definition install_joined_identity ::
  "crypto \<Rightarrow> time \<Rightarrow> string \<Rightarrow> string \<Rightarrow> cert \<Rightarrow> cert \<Rightarrow> cluster_node \<Rightarrow> cluster_node \<times> (id_error + cluster_identity)" where
  "install_joined_identity C now cluster node ca cert n =
     (if \<not> valid_identifier cluster \<or> \<not> valid_identifier node then (n, Inl Id_Value)
      else (case joined_certificates C now node ca cert n of Inl e \<Rightarrow> (n, Inl e)
            | Inr _ \<Rightarrow>
                (let n = n\<lparr>cn_ca_cert := Some ca, cn_node_cert := Some cert,
                          cn_identity := Some (cluster, node, cy_fingerprint C ca)\<rparr>
                 in (n, load_identity C n))))"

definition needs_renewal :: "time \<Rightarrow> cluster_node \<Rightarrow> id_error + bool" where
  "needs_renewal now n =
     (case load_certificate (cn_node_cert n) of Inl e \<Rightarrow> Inl e
      | Inr cert \<Rightarrow> Inr (of_int (ct_until (ct_body cert)) \<le> now + of_int (renew_before_days * 86400)))"

definition renew_master_certificate ::
  "crypto \<Rightarrow> int \<Rightarrow> time \<Rightarrow> cluster_node \<Rightarrow> cluster_node \<times> (id_error + cluster_identity)" where
  "renew_master_certificate C serial now n =
     (case load_identity C n of Inl e \<Rightarrow> (n, Inl e)
      | Inr identity \<Rightarrow> (case load_node_private_key C n of Inl e \<Rightarrow> (n, Inl e)
         | Inr key \<Rightarrow> (case issue_node_certificate C serial now (ci_node identity) (cy_public C key) n of Inl e \<Rightarrow> (n, Inl e)
            | Inr cert \<Rightarrow> (let n = n\<lparr>cn_node_cert := Some cert\<rparr> in (n, load_identity C n)))))"

definition export_ca_private_key :: "crypto \<Rightarrow> cluster_node \<Rightarrow> id_error + string" where
  "export_ca_private_key C n =
     (case load_key C ca_password_name (cn_ca_key n) n of Inl e \<Rightarrow> Inl e | Inr k \<Rightarrow> Inr (cy_der C k))"

definition install_promoted_ca ::
  "crypto \<Rightarrow> string \<Rightarrow> string \<Rightarrow> cluster_node \<Rightarrow> cluster_node \<times> (id_error + cluster_identity)" where
  "install_promoted_ca C password raw n =
     (if \<not> slave_exists n \<and> \<not> (master_exists n \<or> slave_exists n) then (n, Inl Storage_Unavailable)
      else (case cy_read_der C raw of None \<Rightarrow> (n, Inl Storage_Unavailable)
            | Some key \<Rightarrow> (case load_certificate (cn_ca_cert n) of Inl e \<Rightarrow> (n, Inl e)
               | Inr ca \<Rightarrow>
                   if ct_key (ct_body ca) \<noteq> cy_public C key then (n, Inl Storage_Unavailable)
                   else (let n = (backend_store ca_password_name password n)\<lparr>cn_ca_key := Some (cy_seal C key password)\<rparr>
                         in (n, load_identity C n)))))"

definition demote_master_identity :: "crypto \<Rightarrow> cluster_node \<Rightarrow> cluster_node \<times> (id_error + cluster_identity)" where
  "demote_master_identity C n =
     (if \<not> master_exists n then (n, load_identity C n)
      else (let n = backend_delete ca_password_name (n\<lparr>cn_ca_key := None\<rparr>) in (n, load_identity C n)))"

definition recover_compromised_ca ::
  "crypto \<Rightarrow> draws \<Rightarrow> time \<Rightarrow> cluster_node \<Rightarrow> cluster_node \<times> (id_error + cluster_identity)" where
  "recover_compromised_ca C dr now n =
     (let previous = map_option (\<lambda>(_, node, _). node) (cn_identity n);
          n = backend_delete node_password_name (backend_delete ca_password_name
            (n\<lparr>cn_identity := None, cn_ca_cert := None, cn_ca_key := None, cn_node_cert := None, cn_node_key := None, cn_trusted := None\<rparr>))
      in create_master_identity C dr now None previous n)"

definition delete_joined_identity :: "cluster_node \<Rightarrow> cluster_node \<times> (id_error + unit)" where
  "delete_joined_identity n =
     (let n = backend_delete node_password_name (backend_delete ca_password_name
            (n\<lparr>cn_identity := None, cn_ca_cert := None, cn_ca_key := None, cn_node_cert := None, cn_node_key := None, cn_trusted := None,
               cn_signing_public := None, cn_connection := None, cn_bootstrap := None, cn_revocations := No_File\<rparr>))
      in (n, if backend_load ca_password_name n \<noteq> None \<or> backend_load node_password_name n \<noteq> None
             then Inl Storage_Unavailable else Inr ()))"

text \<open>\<open>ClusterKeyStore\<close>: the signing key of the stream tickets.\<close>

definition get_or_create_private_key :: "string \<Rightarrow> cluster_node \<Rightarrow> cluster_node \<times> (id_error + string)" where
  "get_or_create_private_key fresh n =
     (case backend_load signing_key_name n of
        Some k \<Rightarrow> (n, if length k \<noteq> 32 then Inl Storage_Unavailable else Inr k)
      | None \<Rightarrow> (backend_store signing_key_name fresh n, Inr fresh))"

definition delete_private_key :: "cluster_node \<Rightarrow> cluster_node" where
  "delete_private_key n = backend_delete signing_key_name n"

section \<open>Keys and certificates stay consistent\<close>

definition proper_ca :: "crypto \<Rightarrow> cert \<Rightarrow> bool" where
  "proper_ca C ca \<longleftrightarrow> cy_verify C (ct_key (ct_body ca)) (ct_body ca) (ct_signature ca) \<and>
     ct_ca (ct_body ca) = Some True \<and> ct_subject (ct_body ca) = ct_issuer (ct_body ca)"

definition sealed :: "crypto \<Rightarrow> string \<Rightarrow> cluster_node \<Rightarrow> string \<Rightarrow> string \<Rightarrow> bool" where
  "sealed C name n text key \<longleftrightarrow> (\<exists>p. text = cy_seal C key p \<and> backend_load name n = Some p \<and> length p = 64)"

definition identity_ok :: "crypto \<Rightarrow> cluster_node \<Rightarrow> bool" where
  "identity_ok C n \<longleftrightarrow>
     (\<forall>ca. cn_ca_cert n = Some ca \<longrightarrow> proper_ca C ca) \<and>
     (\<forall>t. cn_ca_key n = Some t \<longrightarrow> (\<exists>k ca. sealed C ca_password_name n t k \<and> cn_ca_cert n = Some ca \<and> ct_key (ct_body ca) = cy_public C k)) \<and>
     (\<forall>t. cn_node_key n = Some t \<longrightarrow> (\<exists>k. sealed C node_password_name n t k)) \<and>
     (cn_identity n \<noteq> None \<longrightarrow> cn_ca_cert n \<noteq> None \<and> cn_node_key n \<noteq> None)"

lemmas node_defs = backend_load_def backend_store_def backend_delete_def

lemma names_differ [simp]: "ca_password_name \<noteq> node_password_name" "node_password_name \<noteq> ca_password_name"
  "ca_password_name \<noteq> signing_key_name" "signing_key_name \<noteq> ca_password_name"
  "node_password_name \<noteq> signing_key_name" "signing_key_name \<noteq> node_password_name"
  by (simp_all add: ca_password_name_def node_password_name_def signing_key_name_def)

lemma load_key_sealed: "crypto_ok C \<Longrightarrow> sealed C name n t k \<Longrightarrow> load_key C name (Some t) n = Inr k"
  by (auto simp: sealed_def load_key_def required_secret_def crypto_ok_def)

lemma loaded_identity:
  assumes "identity_ok C n" and "cn_identity n = Some (cluster, node, fp)"
  shows "\<exists>ca p. cn_ca_cert n = Some ca \<and> load_identity C n =
    Inr \<lparr>ci_cluster = cluster, ci_node = node, ci_password = p, ci_fingerprint = cy_fingerprint C ca\<rparr>"
  using assms by (fastforce simp: identity_ok_def load_identity_def load_certificate_def required_secret_def sealed_def)

lemma proper_built_ca: "crypto_ok C \<Longrightarrow> proper_ca C (build_ca C now serial key cluster)"
  by (simp add: proper_ca_def build_ca_def Let_def crypto_ok_def)

lemma built_ca_key [simp]: "ct_key (ct_body (build_ca C now serial key cluster)) = cy_public C key"
  by (simp add: build_ca_def Let_def)

section \<open>Runs\<close>

datatype id_op =
    Id_Create draws time "string option" "string option"
  | Id_Ensure_Key string string
  | Id_Join time string string cert cert
  | Id_Renew int time
  | Id_Promote string string
  | Id_Demote
  | Id_Recover draws time
  | Id_Delete

fun id_step :: "crypto \<Rightarrow> id_op \<Rightarrow> cluster_node \<Rightarrow> cluster_node" where
  "id_step C (Id_Create dr now cluster node) n = fst (create_master_identity C dr now cluster node n)"
| "id_step C (Id_Ensure_Key password key) n = fst (ensure_node_key C password key n)"
| "id_step C (Id_Join now cluster node ca cert) n = fst (install_joined_identity C now cluster node ca cert n)"
| "id_step C (Id_Renew serial now) n = fst (renew_master_certificate C serial now n)"
| "id_step C (Id_Promote password raw) n = fst (install_promoted_ca C password raw n)"
| "id_step C Id_Demote n = fst (demote_master_identity C n)"
| "id_step C (Id_Recover dr now) n = fst (recover_compromised_ca C dr now n)"
| "id_step C Id_Delete n = fst (delete_joined_identity n)"

text \<open>\<open>token_hex(32)\<close> has 64 characters. A node joins a cluster when it is not the master of another.\<close>

fun id_step_ok :: "id_op \<Rightarrow> cluster_node \<Rightarrow> bool" where
  "id_step_ok (Id_Create dr now cluster node) n = (length (dr_ca_password dr) = 64 \<and> length (dr_node_password dr) = 64)"
| "id_step_ok (Id_Ensure_Key password key) n = (length password = 64)"
| "id_step_ok (Id_Join now cluster node ca cert) n = (cn_ca_key n = None)"
| "id_step_ok (Id_Promote password raw) n = (length password = 64)"
| "id_step_ok (Id_Recover dr now) n = (length (dr_ca_password dr) = 64 \<and> length (dr_node_password dr) = 64)"
| "id_step_ok _ n = True"

fun id_run :: "crypto \<Rightarrow> id_op list \<Rightarrow> cluster_node \<Rightarrow> cluster_node" where
  "id_run C [] n = n"
| "id_run C (s # ss) n = (if id_step_ok s n then id_run C ss (id_step C s n) else n)"

definition new_node :: cluster_node where
  "new_node = \<lparr>cn_backend = [], cn_identity = None, cn_ca_cert = None, cn_ca_key = None, cn_node_cert = None, cn_node_key = None,
     cn_trusted = None, cn_signing_public = None, cn_connection = None, cn_bootstrap = None, cn_revocations = No_File, cn_nodes = None\<rparr>"

lemma identity_ok_create:
  assumes "crypto_ok C" and "identity_ok C n" and "length (dr_ca_password dr) = 64" and "length (dr_node_password dr) = 64"
  shows "identity_ok C (fst (create_master_identity C dr now cluster node n))"
  using assms
  by (auto simp: create_master_identity_def Let_def identity_ok_def write_identity_def sealed_def node_defs dget_put proper_built_ca)

lemma identity_ok_ensure: "identity_ok C n \<Longrightarrow> length password = 64 \<Longrightarrow> identity_ok C (fst (ensure_node_key C password key n))"
  by (auto simp: ensure_node_key_def create_node_key_def identity_ok_def sealed_def node_defs dget_put)

lemma identity_ok_join:
  "identity_ok C n \<Longrightarrow> cn_ca_key n = None \<Longrightarrow> identity_ok C (fst (install_joined_identity C now cluster node ca cert n))"
  by (auto simp: install_joined_identity_def joined_certificates_def load_key_def Let_def identity_ok_def sealed_def node_defs proper_ca_def
      split: sum.splits option.splits if_splits)

lemma identity_ok_renew: "identity_ok C n \<Longrightarrow> identity_ok C (fst (renew_master_certificate C serial now n))"
  by (auto simp: renew_master_certificate_def Let_def identity_ok_def sealed_def node_defs split: sum.splits)

lemma identity_ok_promote:
  "identity_ok C n \<Longrightarrow> length password = 64 \<Longrightarrow> identity_ok C (fst (install_promoted_ca C password raw n))"
  by (auto simp: install_promoted_ca_def load_certificate_def Let_def identity_ok_def sealed_def node_defs dget_put
      split: sum.splits option.splits)

lemma identity_ok_demote: "identity_ok C n \<Longrightarrow> identity_ok C (fst (demote_master_identity C n))"
  by (auto simp: demote_master_identity_def Let_def identity_ok_def sealed_def node_defs dget_pop)

lemma identity_ok_recover:
  assumes "crypto_ok C" and "length (dr_ca_password dr) = 64" and "length (dr_node_password dr) = 64"
  shows "identity_ok C (fst (recover_compromised_ca C dr now n))"
  unfolding recover_compromised_ca_def Let_def
  by (rule identity_ok_create [OF assms(1) _ assms(2,3)]) (simp add: identity_ok_def backend_delete_def)

lemma identity_ok_delete: "identity_ok C (fst (delete_joined_identity n))"
  by (simp add: delete_joined_identity_def Let_def identity_ok_def node_defs)

lemmas identity_ok_steps = identity_ok_create identity_ok_ensure identity_ok_join identity_ok_renew identity_ok_promote
  identity_ok_demote identity_ok_recover identity_ok_delete

lemma id_step_keeps: "crypto_ok C \<Longrightarrow> identity_ok C n \<Longrightarrow> id_step_ok s n \<Longrightarrow> identity_ok C (id_step C s n)"
  by (cases s) (simp_all add: identity_ok_steps)

lemma id_run_keeps: "crypto_ok C \<Longrightarrow> identity_ok C n \<Longrightarrow> identity_ok C (id_run C ss n)"
  by (induction ss arbitrary: n) (simp_all add: id_step_keeps)

lemma new_node_ok [simp]: "identity_ok C new_node"
  by (simp add: identity_ok_def new_node_def)

lemma master_authority:
  assumes "crypto_ok C" and "identity_ok C n" and "master_exists n"
  obtains k ca where "cn_ca_cert n = Some ca" and "proper_ca C ca" and "ct_key (ct_body ca) = cy_public C k"
    and "load_key C ca_password_name (cn_ca_key n) n = Inr k"
proof -
  from assms(3) obtain t where t: "cn_ca_key n = Some t" by (auto simp: master_exists_def)
  with assms(2) obtain k ca where k: "sealed C ca_password_name n t k" "cn_ca_cert n = Some ca" "ct_key (ct_body ca) = cy_public C k" "proper_ca C ca"
    by (fastforce simp: identity_ok_def)
  show thesis using that [OF k(2,4,3)] load_key_sealed [OF assms(1) k(1)] t by simp
qed

text \<open>Whatever a node does from the start - becoming a master, joining a cluster
  while it is not one, renewing, being promoted, demoted, recovered or unpaired - if it holds a complete master
  identity then its CA key opens, can be exported, and signs certificates that verify under the CA certificate it
  hands out.\<close>

theorem master_authority_works:
  assumes "crypto_ok C" and "master_exists (id_run C ss new_node)" and "valid_identifier node"
  shows "\<exists>ca cert k. cn_ca_cert (id_run C ss new_node) = Some ca \<and>
      issue_node_certificate C serial now node public (id_run C ss new_node) = Inr cert \<and>
      cy_verify C (ct_key (ct_body ca)) (ct_body cert) (ct_signature cert) \<and>
      ct_uris (ct_body cert) = Some [node_uri_prefix @ node] \<and>
      export_ca_private_key C (id_run C ss new_node) = Inr (cy_der C k) \<and> cy_public C k = ct_key (ct_body ca)"
proof -
  obtain k ca where k: "cn_ca_cert (id_run C ss new_node) = Some ca" "ct_key (ct_body ca) = cy_public C k"
    "load_key C ca_password_name (cn_ca_key (id_run C ss new_node)) (id_run C ss new_node) = Inr k"
    using master_authority [OF assms(1) id_run_keeps [OF assms(1) new_node_ok] assms(2)] by metis
  moreover have "cy_verify C (cy_public C k) (ct_body (build_node C now serial public node k ca)) (ct_signature (build_node C now serial public node k ca))"
    using assms(1) by (simp add: build_node_def Let_def crypto_ok_def)
  moreover have "ct_uris (ct_body (build_node C now serial public node k ca)) = Some [node_uri_prefix @ node]"
    by (simp add: build_node_def Let_def)
  ultimately show ?thesis
    using assms(3) by (auto simp: issue_node_certificate_def load_certificate_def export_ca_private_key_def)
qed

definition demo_crypto :: crypto where
  "demo_crypto = \<lparr>cy_public = Cons (CHR ''P''), cy_sign = (\<lambda>k b. k), cy_verify = (\<lambda>p b s. p = CHR ''P'' # s),
     cy_seal = (\<lambda>k p. k @ p), cy_unseal = (\<lambda>t p. Some (take (length t - length p) t)),
     cy_der = Cons (CHR ''D''), cy_read_der = (\<lambda>t. Some (tl t)), cy_fingerprint = (\<lambda>c. ct_subject (ct_body c))\<rparr>"

lemma demo_crypto_ok: "crypto_ok demo_crypto"
  by (simp add: crypto_ok_def demo_crypto_def)

definition demo_draws :: draws where
  "demo_draws = \<lparr>dr_cluster = ''c1'', dr_node = ''n1'', dr_ca_key = ''K'', dr_node_key = ''N'', dr_ca_serial = 1, dr_node_serial = 2,
     dr_ca_password = replicate 64 (CHR ''a''), dr_node_password = replicate 64 (CHR ''b'')\<rparr>"

definition demo_master :: "id_op list" where
  "demo_master = [Id_Create demo_draws 1000 None None]"

lemma demo_master_exists: "master_exists (id_run demo_crypto demo_master new_node)"
proof -
  have v: "valid_identifier ''c1''" "valid_identifier ''n1''" by (simp_all add: valid_identifier_def id_char_def)
  show ?thesis
    by (simp add: demo_master_def create_master_identity_def master_exists_def slave_exists_def common_files_def Let_def write_identity_def
        node_defs new_node_def demo_draws_def v)
qed

theorem master_authority_works_witness:
  "\<exists>ca cert k. cn_ca_cert (id_run demo_crypto demo_master new_node) = Some ca \<and>
      issue_node_certificate demo_crypto 7 2000 ''n2'' ''PS'' (id_run demo_crypto demo_master new_node) = Inr cert \<and>
      cy_verify demo_crypto (ct_key (ct_body ca)) (ct_body cert) (ct_signature cert) \<and>
      ct_uris (ct_body cert) = Some [node_uri_prefix @ ''n2''] \<and>
      export_ca_private_key demo_crypto (id_run demo_crypto demo_master new_node) = Inr (cy_der demo_crypto k) \<and>
      cy_public demo_crypto k = ct_key (ct_body ca)"
  by (rule master_authority_works [OF demo_crypto_ok demo_master_exists]) (simp add: valid_identifier_def id_char_def)

section \<open>Joining\<close>

lemma py_int_upper: "x - 1 \<le> of_int (py_int x)"
  using py_int_less [of x] by linarith

text \<open>A node makes its key, the master certifies it, the node
  installs what it got and the master trusts it: within the validity of the certificate every step succeeds, both
  hold the same CA, and the master then authorizes exactly this certificate under the identifier of the node.\<close>

theorem issued_certificate_installs:
  assumes C: "crypto_ok C" and m: "identity_ok C m" "master_exists m" and ids: "valid_identifier cluster" "valid_identifier node"
    and pw: "length pw = 64" and t: "60 \<le> t" "t - 60 \<le> now" "now \<le> t + 90 * 86400 - 1"
  shows "\<exists>ca cert i. cn_ca_cert m = Some ca \<and>
      issue_node_certificate C serial t node (snd (create_node_key C pw key s)) m = Inr cert \<and>
      snd (install_joined_identity C now cluster node ca cert (fst (create_node_key C pw key s))) = Inr i \<and>
      ci_cluster i = cluster \<and> ci_node i = node \<and> ci_fingerprint i = cy_fingerprint C ca \<and>
      (snd (allow_peer node (ct_uris (ct_body cert), ct_serial (ct_body cert)) ts) = Inr () \<longrightarrow>
        authorize_der (ct_uris (ct_body cert), ct_serial (ct_body cert))
          (fst (allow_peer node (ct_uris (ct_body cert), ct_serial (ct_body cert)) ts)) = Inr (node, serial))"
proof -
  obtain k ca where k: "cn_ca_cert m = Some ca" "proper_ca C ca" "ct_key (ct_body ca) = cy_public C k"
    "load_key C ca_password_name (cn_ca_key m) m = Inr k"
    using master_authority [OF C m] by metis
  let ?cert = "build_node C t serial (cy_public C key) node k ca"
  have issue: "issue_node_certificate C serial t node (snd (create_node_key C pw key s)) m = Inr ?cert"
    using ids k by (simp add: issue_node_certificate_def load_certificate_def create_node_key_def)
  have b: "ct_uris (ct_body ?cert) = Some [node_uri_prefix @ node]" "ct_serial (ct_body ?cert) = serial"
    "ct_issuer (ct_body ?cert) = ct_subject (ct_body ca)" "ct_key (ct_body ?cert) = cy_public C key"
    "ct_from (ct_body ?cert) = py_int (t - 60)" "ct_until (ct_body ?cert) = py_int (t + 90 * 86400)"
    by (simp_all add: build_node_def Let_def node_valid_days_def)
  have time: "of_int (py_int (t - 60)) \<le> now" "now \<le> of_int (py_int (t + 90 * 86400))"
    using t py_int_le [of "t - 60"] py_int_upper [of "t + 90 * 86400"] by linarith+
  have "cy_verify C (ct_key (ct_body ca)) (ct_body ?cert) (ct_signature ?cert)"
    using C k(3) by (simp add: build_node_def Let_def crypto_ok_def)
  then have ok: "joined_certificates C now node ca ?cert (fst (create_node_key C pw key s)) = Inr ()"
    using k(2) b time C pw
    by (simp add: joined_certificates_def create_node_key_def load_key_def required_secret_def node_defs dget_put crypto_ok_def proper_ca_def not_less)
  then have "\<exists>i. snd (install_joined_identity C now cluster node ca ?cert (fst (create_node_key C pw key s))) = Inr i \<and>
      ci_cluster i = cluster \<and> ci_node i = node \<and> ci_fingerprint i = cy_fingerprint C ca"
    using ids pw by (simp add: install_joined_identity_def Let_def load_identity_def load_certificate_def required_secret_def create_node_key_def
      node_defs dget_put)
  moreover have "authorize_der (Some [node_uri_prefix @ node], serial) (fst (allow_peer node (Some [node_uri_prefix @ node], serial) ts)) = Inr (node, serial)"
    if "snd (allow_peer node (Some [node_uri_prefix @ node], serial) ts) = Inr ()"
    using that by (auto simp: allow_peer_def trust_put_def trust_save_def authorize_der_def dget_put split: if_splits)
  ultimately show ?thesis using issue k(1) b by auto
qed

theorem issued_certificate_installs_witness:
  "\<exists>ca cert i. cn_ca_cert (id_run demo_crypto demo_master new_node) = Some ca \<and>
      issue_node_certificate demo_crypto 7 1000 ''n2'' (snd (create_node_key demo_crypto (replicate 64 (CHR ''c'')) ''S'' new_node))
        (id_run demo_crypto demo_master new_node) = Inr cert \<and>
      snd (install_joined_identity demo_crypto 1003 ''c1'' ''n2'' ca cert
        (fst (create_node_key demo_crypto (replicate 64 (CHR ''c'')) ''S'' new_node))) = Inr i \<and>
      ci_cluster i = ''c1'' \<and> ci_node i = ''n2'' \<and> ci_fingerprint i = cy_fingerprint demo_crypto ca \<and>
      (snd (allow_peer ''n2'' (ct_uris (ct_body cert), ct_serial (ct_body cert)) \<lparr>ts_ca = [], ts_peers = [], ts_file = None\<rparr>) = Inr () \<longrightarrow>
        authorize_der (ct_uris (ct_body cert), ct_serial (ct_body cert))
          (fst (allow_peer ''n2'' (ct_uris (ct_body cert), ct_serial (ct_body cert)) \<lparr>ts_ca = [], ts_peers = [], ts_file = None\<rparr>)) = Inr (''n2'', 7))"
  by (rule issued_certificate_installs [OF demo_crypto_ok id_run_keeps [OF demo_crypto_ok new_node_ok] demo_master_exists])
    (simp_all add: valid_identifier_def id_char_def)

text \<open>The run of a node keeps out one order of operations that the code lets happen: a machine that was a master is
  configured as a slave and paired. The certificates are installed, the CA key of its own cluster stays, and then the
  node is no slave (its file listener is never started) while the CA key does not belong to the CA certificate.\<close>

theorem join_over_master_is_no_slave:
  assumes "cn_ca_key n \<noteq> None" and "install_joined_identity C now cluster node ca cert n = (n', Inr i)"
  shows "\<not> slave_exists n' \<and> master_exists n' \<and> cn_ca_key n' = cn_ca_key n \<and> cn_ca_cert n' = Some ca"
  using assms
  by (auto simp: install_joined_identity_def joined_certificates_def load_key_def Let_def slave_exists_def joined_slave_files_exist_def
      master_exists_def common_files_def bind_eq_Some_conv split: sum.splits option.splits if_splits)

end
