(* ===== verification/Cluster_Failover.thy ===== *)
theory Cluster_Failover
  imports Cluster_Identity Cluster_Tickets
begin

text \<open>
  What a slave keeps to take over from its master (\<^verbatim>\<open>core/cluster/failover.py\<close>): the metadata of the cluster
  (leader, epoch, roster, ticket generations), the replica of the authority keys in the secret store, and the changes
  of role. Rosters and generations arrive as JSON. The metadata file holds the value it was dumped from; in memory and
  on disk the value is the same after every operation, so the store has one field for both.
\<close>

section \<open>The metadata\<close>

definition failover_ca_name :: string where "failover_ca_name = ''cluster-failover-ca-pkcs8-v1''"
definition failover_signing_name :: string where "failover_signing_name = ''cluster-failover-signing-ed25519-v1''"
definition failover_schema :: int where "failover_schema = 1"
definition max_cluster_members :: nat where "max_cluster_members = max_slaves + 1"

datatype fo_error = Fo_Py py_error | Fo_Id id_error | Fo_Rev rev_error | Fo_Unavailable

record fo_meta =
  fm_version :: string
  fm_leader :: string
  fm_epoch :: int
  fm_roster :: "slave_node list"
  fm_generations :: "(string, int) dict"

definition empty_meta :: fo_meta where
  "empty_meta = \<lparr>fm_version = [], fm_leader = [], fm_epoch = 0, fm_roster = [], fm_generations = []\<rparr>"

record failover =
  fv_node :: cluster_node
  fv_meta :: fo_meta

definition node_from_dict :: "(json \<Rightarrow> string) \<Rightarrow> json \<Rightarrow> py_error + slave_node" where
  "node_from_dict repr v =
     (case v of JObj ob \<Rightarrow>
        (case jitem ob ''node_id'' of Inl e \<Rightarrow> Inl e | Inr node \<Rightarrow>
        (case jitem ob ''name'' of Inl e \<Rightarrow> Inl e | Inr name \<Rightarrow>
        (case jitem ob ''host'' of Inl e \<Rightarrow> Inl e | Inr host \<Rightarrow>
        (case int_item ob ''port'' of Inl e \<Rightarrow> Inl e | Inr port \<Rightarrow>
        (case int_item ob ''certificate_serial'' of Inl e \<Rightarrow> Inl e | Inr serial \<Rightarrow>
        (case (let born = jget_or ob ''created_at'' (JInt 0) in if truthy born then to_int born else Inr 0) of Inl e \<Rightarrow> Inl e | Inr born \<Rightarrow>
           Inr \<lparr>sn_id = to_str repr node, sn_name = to_str repr name, sn_host = to_str repr host, sn_port = port,
                sn_serial = serial, sn_online = False, sn_created = max 0 born\<rparr>))))))
      | _ \<Rightarrow> Inl Type_Error)"

definition node_json :: "slave_node \<Rightarrow> json" where
  "node_json n = JObj [(''node_id'', JStr (sn_id n)), (''name'', JStr (sn_name n)), (''host'', JStr (sn_host n)), (''port'', JInt (sn_port n)),
     (''certificate_serial'', JInt (sn_serial n)), (''online'', JBool (sn_online n)), (''created_at'', JInt (sn_created n))]"

text \<open>The clean roster: the first entry of an identifier counts, entries without one are dropped.\<close>

fun clean_roster :: "(json \<Rightarrow> string) \<Rightarrow> string list \<Rightarrow> json list \<Rightarrow> py_error + slave_node list" where
  "clean_roster repr seen [] = Inr []"
| "clean_roster repr seen (v # vs) =
     (case node_from_dict repr v of Inl e \<Rightarrow> Inl e
      | Inr n \<Rightarrow>
          if sn_id n = [] \<or> sn_id n \<in> set seen then clean_roster repr seen vs
          else (case clean_roster repr (sn_id n # seen) vs of Inl e \<Rightarrow> Inl e | Inr ns \<Rightarrow> Inr (n # ns)))"

definition ticket_generations :: "fo_meta \<Rightarrow> (string, int) dict" where
  "ticket_generations m =
     fold (\<lambda>(raw, g) d. if take 128 raw = [] then d else dput (take 128 raw) (max 0 g) d) (take max_cluster_members (fm_generations m)) []"

definition fo_roster :: "fo_meta \<Rightarrow> slave_node list" where
  "fo_roster m = take max_cluster_members (fm_roster m)"

fun merge_tickets :: "(string, int) dict \<Rightarrow> string list option \<Rightarrow> jobj \<Rightarrow> (string, int) dict \<Rightarrow> py_error + (string, int) dict" where
  "merge_tickets existing allowed [] merged = Inr merged"
| "merge_tickets existing allowed ((raw, g) # items) merged =
     (let node = take 128 raw
      in if node = [] \<or> (case allowed of None \<Rightarrow> False | Some ids \<Rightarrow> node \<notin> set ids)
         then merge_tickets existing allowed items merged
         else (case to_int g of Inl e \<Rightarrow> Inl Value_Error
               | Inr n \<Rightarrow> merge_tickets existing allowed items
                   (dput node (max (case dget existing node of None \<Rightarrow> 0 | Some g \<Rightarrow> g) (max 0 n)) merged)))"

text \<open>\<open>for node_id in allowed\<close>: Python runs over a set in no fixed order; the order of the roster stands for it. It
  decides nothing but the order of the entries, since there are at most as many as members.\<close>

definition keep_tickets :: "(string, int) dict \<Rightarrow> string list \<Rightarrow> (string, int) dict \<Rightarrow> (string, int) dict" where
  "keep_tickets existing ids merged =
     fold (\<lambda>node d. case dget existing node of None \<Rightarrow> d | Some g \<Rightarrow> if node \<in> set (dkeys d) then d else dput node g d) ids merged"

record meta_update =
  mu_version :: "string option"
  mu_leader :: "string option"
  mu_epoch :: "int option"
  mu_roster :: "json list option"
  mu_generations :: "json option"

definition no_update :: meta_update where
  "no_update = \<lparr>mu_version = None, mu_leader = None, mu_epoch = None, mu_roster = None, mu_generations = None\<rparr>"

definition merged_generations :: "fo_meta \<Rightarrow> slave_node list \<Rightarrow> json \<Rightarrow> py_error + (string, int) dict" where
  "merged_generations m roster generations =
     (case generations of
        JObj items \<Rightarrow>
          (let existing = ticket_generations m;
               allowed = (if roster = [] then None else Some (filter (\<lambda>i. i \<noteq> []) (map sn_id roster)))
           in case merge_tickets existing allowed items [] of Inl e \<Rightarrow> Inl e
              | Inr merged \<Rightarrow> Inr (take max_cluster_members (case allowed of None \<Rightarrow> merged | Some ids \<Rightarrow> keep_tickets existing ids merged)))
      | _ \<Rightarrow> Inl Value_Error)"

definition updated_meta :: "(json \<Rightarrow> string) \<Rightarrow> meta_update \<Rightarrow> fo_meta \<Rightarrow> py_error + fo_meta" where
  "updated_meta repr u m =
     (let version = (case mu_version u of None \<Rightarrow> fm_version m | Some v \<Rightarrow> take 128 v);
          leader = (case mu_leader u of None \<Rightarrow> fm_leader m | Some l \<Rightarrow> take 128 l);
          epoch = (case mu_epoch u of None \<Rightarrow> fm_epoch m | Some e \<Rightarrow> max 0 e)
      in case (case mu_roster u of None \<Rightarrow> Inr (fm_roster m) | Some vs \<Rightarrow> clean_roster repr [] (take max_cluster_members vs)) of
           Inl e \<Rightarrow> Inl e
         | Inr roster \<Rightarrow>
             (case (case mu_generations u of None \<Rightarrow> Inr (fm_generations m) | Some g \<Rightarrow> merged_generations m roster g) of
                Inl e \<Rightarrow> Inl e
              | Inr gens \<Rightarrow> Inr \<lparr>fm_version = version, fm_leader = leader, fm_epoch = epoch, fm_roster = roster, fm_generations = gens\<rparr>))"

definition update_metadata :: "(json \<Rightarrow> string) \<Rightarrow> meta_update \<Rightarrow> failover \<Rightarrow> failover \<times> (fo_error + unit)" where
  "update_metadata repr u s =
     (case updated_meta repr u (fv_meta s) of Inl e \<Rightarrow> (s, Inl (Fo_Py e)) | Inr m \<Rightarrow> (s\<lparr>fv_meta := m\<rparr>, Inr ()))"

section \<open>The authority\<close>

definition failover_ready :: "failover \<Rightarrow> bool" where
  "failover_ready s \<longleftrightarrow> fm_version (fv_meta s) \<noteq> [] \<and>
     (case backend_load failover_ca_name (fv_node s) of None \<Rightarrow> False | Some k \<Rightarrow> k \<noteq> []) \<and>
     (case backend_load failover_signing_name (fv_node s) of None \<Rightarrow> False | Some k \<Rightarrow> k \<noteq> [])"

definition store_authority :: "string \<Rightarrow> string \<Rightarrow> failover \<Rightarrow> failover" where
  "store_authority ca signing s = s\<lparr>fv_node := backend_store failover_signing_name signing (backend_store failover_ca_name ca (fv_node s))\<rparr>"

definition install_authority ::
  "crypto \<Rightarrow> (json \<Rightarrow> string) \<Rightarrow> string \<Rightarrow> string \<Rightarrow> meta_update \<Rightarrow> failover \<Rightarrow> failover \<times> (fo_error + unit)" where
  "install_authority C repr ca signing u s =
     (if length signing \<noteq> 32 then (s, Inl (Fo_Py Value_Error))
      else (case cy_read_der C ca of None \<Rightarrow> (s, Inl (Fo_Py Value_Error))
            | Some key \<Rightarrow>
                (case cn_ca_cert (fv_node s) of None \<Rightarrow> (s, Inl (Fo_Id Storage_Unavailable))
                 | Some cert \<Rightarrow>
                     if ct_key (ct_body cert) \<noteq> cy_public C key then (s, Inl (Fo_Py Value_Error))
                     else if cn_signing_public (fv_node s) \<noteq> None \<and> cn_signing_public (fv_node s) \<noteq> Some (cy_public C signing)
                     then (s, Inl (Fo_Py Value_Error))
                     else update_metadata repr u (store_authority ca signing s))))"

definition master_backup ::
  "crypto \<Rightarrow> (string \<Rightarrow> string) \<Rightarrow> (json \<Rightarrow> string) \<Rightarrow> string \<Rightarrow> meta_update \<Rightarrow> failover \<Rightarrow> failover \<times> (fo_error + string)" where
  "master_backup C sha256 repr signing u s =
     (case export_ca_private_key C (fv_node s) of Inl e \<Rightarrow> (s, Inl (Fo_Id e))
      | Inr ca \<Rightarrow> (case cn_ca_cert (fv_node s) of None \<Rightarrow> (s, Inl (Fo_Id Storage_Unavailable))
         | Some cert \<Rightarrow>
             (let version = take 32 (sha256 (cy_fingerprint C cert @ '':'' @ cy_public C signing))
              in case update_metadata repr (u\<lparr>mu_version := Some version\<rparr>) (store_authority ca signing s) of
                   (s, Inl e) \<Rightarrow> (s, Inl e)
                 | (s, Inr _) \<Rightarrow> (s, Inr version))))"

abbreviation b64_text :: "string \<Rightarrow> string" where "b64_text \<equiv> b64encode (CHR ''+'') (CHR ''/'')"
abbreviation b64_read :: "string \<Rightarrow> string option" where "b64_read \<equiv> b64decode (CHR ''+'') (CHR ''/'')"

definition export_bundle :: "failover \<Rightarrow> jobj" where
  "export_bundle s =
     (case (backend_load failover_ca_name (fv_node s), backend_load failover_signing_name (fv_node s)) of
        (Some ca, Some signing) \<Rightarrow>
          if ca = [] \<or> signing = [] \<or> fm_version (fv_meta s) = [] then []
          else [(''v'', JInt failover_schema), (''authority_version'', JStr (fm_version (fv_meta s))),
                (''ca_private_key'', JStr (b64_text ca)), (''signing_private_key'', JStr (b64_text signing))]
      | _ \<Rightarrow> [])"

definition import_bundle ::
  "crypto \<Rightarrow> (json \<Rightarrow> string) \<Rightarrow> json \<Rightarrow> meta_update \<Rightarrow> failover \<Rightarrow> failover \<times> (fo_error + unit)" where
  "import_bundle C repr bundle u s =
     (case bundle of
        JObj ob \<Rightarrow>
          (case to_int (jget_or ob ''v'' (JInt 0)) of Inl e \<Rightarrow> (s, Inl (Fo_Py e))
           | Inr v \<Rightarrow>
               if v \<noteq> failover_schema then (s, Inl (Fo_Py Value_Error))
               else (case (jitem ob ''ca_private_key'', jitem ob ''signing_private_key'') of
                       (Inr ca, Inr signing) \<Rightarrow>
                         (case (b64_read (to_str repr ca), b64_read (to_str repr signing)) of
                            (Some ca, Some signing) \<Rightarrow>
                              install_authority C repr ca signing
                                (u\<lparr>mu_version := Some (let t = jget ob ''authority_version'' in if truthy t then to_str repr t else [])\<rparr>) s
                          | _ \<Rightarrow> (s, Inl (Fo_Py Value_Error)))
                     | _ \<Rightarrow> (s, Inl (Fo_Py Value_Error))))
      | _ \<Rightarrow> (s, Inl (Fo_Py Value_Error)))"

section \<open>Changes of role\<close>

text \<open>The registry of the promoted node: what the file holds is removed node by node, the survivors are added. An
  exception leaves the file as far as it was written.\<close>

fun registry_removes :: "string list \<Rightarrow> registry \<Rightarrow> registry" where
  "registry_removes [] rg = rg"
| "registry_removes (k # ks) rg = registry_removes ks (fst (registry_remove k rg))"

fun registry_adds :: "slave_node list \<Rightarrow> registry \<Rightarrow> registry \<times> (py_error + unit)" where
  "registry_adds [] rg = (rg, Inr ())"
| "registry_adds (n # ns) rg =
     (case registry_add n rg of (rg, Inl e) \<Rightarrow> (rg, Inl e) | (rg, Inr _) \<Rightarrow> registry_adds ns rg)"

definition rebuild_registry :: "slave_node list \<Rightarrow> cluster_node \<Rightarrow> cluster_node \<times> (py_error + unit)" where
  "rebuild_registry survivors n =
     (case registry_load (cn_nodes n) of Inl e \<Rightarrow> (n, Inl e)
      | Inr rg \<Rightarrow> (case registry_adds survivors (registry_removes (map sn_id (registry_nodes rg)) rg) of
           (rg, r) \<Rightarrow> (n\<lparr>cn_nodes := rg_file rg\<rparr>, r)))"

definition inherit_generations :: "(json \<Rightarrow> string) \<Rightarrow> time \<Rightarrow> (string, int) dict \<Rightarrow> cluster_node \<Rightarrow> cluster_node \<times> (rev_error + unit)" where
  "inherit_generations repr now gens n =
     (case rev_load repr now True (cn_revocations n) of Inl e \<Rightarrow> (n, Inl e)
      | Inr rv \<Rightarrow> (case merge_generations repr (JObj (dmap JInt gens)) rv of
           (rv, Inl e) \<Rightarrow> (n\<lparr>cn_revocations := rv_disk rv\<rparr>, Inl e)
         | (rv, Inr _) \<Rightarrow> (n\<lparr>cn_revocations := rv_disk rv\<rparr>, Inr ())))"

definition promote_local ::
  "crypto \<Rightarrow> (json \<Rightarrow> string) \<Rightarrow> string \<Rightarrow> time \<Rightarrow> string \<Rightarrow> int \<Rightarrow> failover \<Rightarrow> failover \<times> (fo_error + slave_node list)" where
  "promote_local C repr password now local epoch s =
     (case (backend_load failover_ca_name (fv_node s), backend_load failover_signing_name (fv_node s)) of
        (Some ca, Some signing) \<Rightarrow>
          if ca = [] \<or> signing = [] then (s, Inl Fo_Unavailable)
          else
            (case install_promoted_ca C password ca (fv_node s) of
               (n, Inl e) \<Rightarrow> (s\<lparr>fv_node := n\<rparr>, Inl (Fo_Id e))
             | (n, Inr _) \<Rightarrow>
                 (let s = s\<lparr>fv_node := backend_store signing_key_name signing n\<rparr>;
                      roster = fo_roster (fv_meta s);
                      survivors = filter (\<lambda>m. sn_id m \<noteq> local) roster
                  in if max_slaves < length survivors then (s, Inl Fo_Unavailable)
                     else
                       (case rebuild_registry survivors (fv_node s) of
                          (n, Inl e) \<Rightarrow> (s\<lparr>fv_node := n\<rparr>, Inl (Fo_Py e))
                        | (n, Inr _) \<Rightarrow>
                            (case inherit_generations repr now (ticket_generations (fv_meta s)) n of
                               (n, Inl e) \<Rightarrow> (s\<lparr>fv_node := n\<rparr>, Inl (Fo_Rev e))
                             | (n, Inr _) \<Rightarrow>
                                 (case update_metadata repr (no_update\<lparr>mu_leader := Some local, mu_epoch := Some epoch,
                                     mu_roster := Some (map node_json roster),
                                     mu_generations := Some (JObj (dmap JInt (ticket_generations (fv_meta s))))\<rparr>) (s\<lparr>fv_node := n\<rparr>) of
                                    (s, Inl e) \<Rightarrow> (s, Inl e)
                                  | (s, Inr _) \<Rightarrow> (s, Inr survivors))))))
      | _ \<Rightarrow> (s, Inl Fo_Unavailable))"

definition prepare_demoted ::
  "crypto \<Rightarrow> (json \<Rightarrow> string) \<Rightarrow> string \<Rightarrow> int \<Rightarrow> failover \<Rightarrow> failover \<times> (fo_error + unit)" where
  "prepare_demoted C repr leader epoch s =
     (let n = fv_node s;
          n = (case backend_load signing_key_name n of
                 Some (k # ks) \<Rightarrow> (backend_store failover_signing_name (k # ks) n)\<lparr>cn_signing_public := Some (cy_public C (k # ks))\<rparr>
               | _ \<Rightarrow> n)
      in case export_ca_private_key C n of Inl e \<Rightarrow> (s\<lparr>fv_node := n\<rparr>, Inl (Fo_Id e))
         | Inr ca \<Rightarrow>
             (case demote_master_identity C (backend_store failover_ca_name ca n) of
                (n, Inl e) \<Rightarrow> (s\<lparr>fv_node := n\<rparr>, Inl (Fo_Id e))
              | (n, Inr _) \<Rightarrow>
                  update_metadata repr (no_update\<lparr>mu_leader := Some leader, mu_epoch := Some epoch\<rparr>)
                    (s\<lparr>fv_node := (delete_private_key n)\<lparr>cn_nodes := None\<rparr>\<rparr>)))"

text \<open>\<open>desired\<close> of \<open>sync_trust_store\<close>, the revocations over the sorted identifiers and the additions in the order of
  the roster.\<close>

definition desired_peers :: "string \<Rightarrow> slave_node list \<Rightarrow> (string, int) dict" where
  "desired_peers local roster = fold (\<lambda>m d. if sn_id m = local then d else dput (sn_id m) (sn_serial m) d) roster []"

fun revoke_others :: "(string, int) dict \<Rightarrow> string list \<Rightarrow> trust_store \<Rightarrow> trust_store" where
  "revoke_others desired [] ts = ts"
| "revoke_others desired (k # ks) ts =
     revoke_others desired ks (if k \<in> set (dkeys desired) then ts else revoke_peer k ts)"

fun allow_serials :: "(string, int) dict \<Rightarrow> trust_store \<Rightarrow> trust_store \<times> (py_error + unit)" where
  "allow_serials [] ts = (ts, Inr ())"
| "allow_serials ((k, serial) # ps) ts =
     (case allow_serial k serial ts of (ts, Inl e) \<Rightarrow> (ts, Inl e) | (ts, Inr _) \<Rightarrow> allow_serials ps ts)"

definition sync_trust_store :: "string \<Rightarrow> fo_meta \<Rightarrow> trust_store \<Rightarrow> trust_store \<times> (py_error + unit)" where
  "sync_trust_store local m ts =
     (if fo_roster m = [] then (ts, Inr ())
      else (let desired = desired_peers local (fo_roster m)
            in allow_serials desired (revoke_others desired (trusted_ids ts) ts)))"

definition failover_clear :: "failover \<Rightarrow> failover" where
  "failover_clear s = s\<lparr>fv_node := backend_delete failover_signing_name (backend_delete failover_ca_name (fv_node s)), fv_meta := empty_meta\<rparr>"

section \<open>Generations are never lowered\<close>

definition generation_of :: "(string, int) dict \<Rightarrow> string \<Rightarrow> int" where
  "generation_of d k = (case dget d k of None \<Rightarrow> 0 | Some g \<Rightarrow> g)"

definition gens_ok :: "(string, int) dict \<Rightarrow> bool" where
  "gens_ok d \<longleftrightarrow> dict_ok d \<and> (\<forall>k g. (k, g) \<in> set d \<longrightarrow> k \<noteq> [] \<and> length k \<le> 128 \<and> 0 \<le> g)"

definition roster_ok :: "slave_node list \<Rightarrow> bool" where
  "roster_ok ns \<longleftrightarrow> distinct (map sn_id ns) \<and> length ns \<le> max_cluster_members \<and>
     (\<forall>n \<in> set ns. sn_id n \<noteq> [] \<and> \<not> sn_online n \<and> 0 \<le> sn_created n)"

definition meta_ok :: "fo_meta \<Rightarrow> bool" where
  "meta_ok m \<longleftrightarrow> roster_ok (fm_roster m) \<and> gens_ok (fm_generations m) \<and> length (fm_generations m) \<le> max_cluster_members \<and> 0 \<le> fm_epoch m"

lemma generation_of_nonneg: "gens_ok d \<Longrightarrow> 0 \<le> generation_of d k"
  by (auto simp: gens_ok_def generation_of_def dget_set split: option.split)

lemma fold_tickets:
  assumes "distinct (dkeys (d @ xs))" and "\<forall>(k, g) \<in> set xs. k \<noteq> [] \<and> length k \<le> 128 \<and> (0::int) \<le> g"
  shows "fold (\<lambda>(raw, g) d. if take 128 raw = [] then d else dput (take 128 raw) (max 0 g) d) xs d = d @ xs"
  using assms by (induction xs arbitrary: d) (auto simp: dput_new)

lemma ticket_generations_ok: "meta_ok m \<Longrightarrow> ticket_generations m = fm_generations m"
  using fold_tickets [of "[]" "fm_generations m"] by (auto simp: ticket_generations_def meta_ok_def gens_ok_def dict_ok_def)

lemma fo_roster_ok [simp]: "meta_ok m \<Longrightarrow> fo_roster m = fm_roster m"
  by (simp add: fo_roster_def meta_ok_def roster_ok_def)

lemma node_from_dict_clean:
  "node_from_dict repr v = Inr n \<Longrightarrow> \<not> sn_online n \<and> 0 \<le> sn_created n"
  by (auto simp: node_from_dict_def Let_def split: json.splits sum.splits if_splits)

lemma clean_roster_ok:
  "clean_roster repr seen vs = Inr ns \<Longrightarrow>
    distinct (map sn_id ns) \<and> length ns \<le> length vs \<and> set (map sn_id ns) \<inter> set seen = {} \<and>
    (\<forall>n \<in> set ns. sn_id n \<noteq> [] \<and> \<not> sn_online n \<and> 0 \<le> sn_created n)"
proof (induction repr seen vs arbitrary: ns rule: clean_roster.induct)
  case (1 repr seen)
  then show ?case by simp
next
  case (2 repr seen v vs)
  from "2.prems" obtain n where n: "node_from_dict repr v = Inr n" by (cases "node_from_dict repr v") auto
  show ?case
  proof (cases "sn_id n = [] \<or> sn_id n \<in> set seen")
    case True
    with "2.prems" n have "clean_roster repr seen vs = Inr ns" by simp
    from "2.IH"(1) [OF n True this] show ?thesis by simp
  next
    case False
    with "2.prems" n obtain ns' where ns: "clean_roster repr (sn_id n # seen) vs = Inr ns'" "ns = n # ns'" by (auto split: sum.splits)
    from "2.IH"(2) [OF n False ns(1)] show ?thesis using False ns(2) node_from_dict_clean [OF n] by auto
  qed
qed

text \<open>What holds of the dictionary that the merge builds.\<close>

definition merging :: "(string, int) dict \<Rightarrow> string list option \<Rightarrow> (string, int) dict \<Rightarrow> bool" where
  "merging existing allowed d \<longleftrightarrow> gens_ok d \<and>
     (\<forall>k g. dget d k = Some g \<longrightarrow> generation_of existing k \<le> g \<and> (case allowed of None \<Rightarrow> True | Some ids \<Rightarrow> k \<in> set ids))"

lemma mergingD:
  assumes "merging existing allowed d"
  shows "gens_ok d" and "dict_ok d" and "dget d k = Some g \<Longrightarrow> generation_of existing k \<le> g"
    and "dget d k = Some g \<Longrightarrow> allowed = Some ids \<Longrightarrow> k \<in> set ids"
  using assms unfolding merging_def gens_ok_def by auto

lemma gens_ok_put: "gens_ok d \<Longrightarrow> k \<noteq> [] \<Longrightarrow> length k \<le> 128 \<Longrightarrow> 0 \<le> g \<Longrightarrow> gens_ok (dput k g d)"
proof -
  assume a: "gens_ok d" "k \<noteq> []" "length k \<le> 128" "0 \<le> g"
  then have "dict_ok (dput k g d)" by (simp add: gens_ok_def)
  moreover from this a have "(j, h) \<in> set (dput k g d) \<Longrightarrow> j \<noteq> [] \<and> length j \<le> 128 \<and> 0 \<le> h" for j h
    by (auto simp: dget_set [symmetric] dget_put gens_ok_def split: if_splits)
  ultimately show ?thesis by (auto simp: gens_ok_def)
qed

lemma merging_put:
  assumes "merging existing allowed d" and "k \<noteq> []" and "length k \<le> 128" and "0 \<le> g" and "generation_of existing k \<le> g"
    and "case allowed of None \<Rightarrow> True | Some ids \<Rightarrow> k \<in> set ids"
  shows "merging existing allowed (dput k g d)"
  using assms by (auto simp: merging_def gens_ok_put dget_put split: if_splits)

lemma merge_tickets_merging:
  "merge_tickets existing allowed items merged = Inr d \<Longrightarrow> merging existing allowed merged \<Longrightarrow> merging existing allowed d"
proof (induction existing allowed items merged rule: merge_tickets.induct)
  case (1 existing allowed merged)
  then show ?case by simp
next
  case (2 existing allowed raw g items merged)
  let ?n = "take 128 raw"
  show ?case
  proof (cases "?n = [] \<or> (case allowed of None \<Rightarrow> False | Some ids \<Rightarrow> ?n \<notin> set ids)")
    case True
    from "2.IH"(1) [OF refl True] "2.prems" True show ?thesis by simp
  next
    case False
    with "2.prems"(1) obtain n where n: "to_int g = Inr n" by (cases "to_int g") (auto simp: Let_def)
    have "merging existing allowed (dput ?n (max (generation_of existing ?n) (max 0 n)) merged)"
      using False "2.prems"(2) by (intro merging_put) (auto split: option.splits)
    with "2.IH"(2) [OF refl False n] "2.prems"(1) False n show ?thesis by (simp add: generation_of_def Let_def)
  qed
qed

lemma keep_tickets_merging:
  assumes "merging existing (Some ids) d" and "gens_ok existing" and "set ks \<subseteq> set ids"
  shows "merging existing (Some ids) (keep_tickets existing ks d) \<and> set (dkeys d) \<subseteq> set (dkeys (keep_tickets existing ks d)) \<and>
    (\<forall>k \<in> set ks. dget existing k \<noteq> None \<longrightarrow> k \<in> set (dkeys (keep_tickets existing ks d)))"
  using assms
proof (induction ks arbitrary: d)
  case Nil
  then show ?case by (simp add: keep_tickets_def)
next
  case (Cons k ks)
  define d' where "d' = (case dget existing k of None \<Rightarrow> d | Some g \<Rightarrow> if k \<in> set (dkeys d) then d else dput k g d)"
  have step: "keep_tickets existing (k # ks) d = keep_tickets existing ks d'" by (simp add: keep_tickets_def d'_def)
  have "merging existing (Some ids) d'"
  proof (cases "dget existing k")
    case None
    with Cons.prems(1) show ?thesis by (simp add: d'_def)
  next
    case (Some g)
    with Cons.prems(2) have "k \<noteq> [] \<and> length k \<le> 128 \<and> 0 \<le> g" by (auto simp: gens_ok_def dget_set)
    with Some Cons.prems(1,3) show ?thesis by (auto simp: d'_def generation_of_def intro!: merging_put)
  qed
  from Cons.IH [OF this Cons.prems(2)] Cons.prems(3) have
    IH: "merging existing (Some ids) (keep_tickets existing ks d')" "set (dkeys d') \<subseteq> set (dkeys (keep_tickets existing ks d'))"
      "\<forall>k \<in> set ks. dget existing k \<noteq> None \<longrightarrow> k \<in> set (dkeys (keep_tickets existing ks d'))" by auto
  have "set (dkeys d) \<subseteq> set (dkeys d')" "dget existing k \<noteq> None \<longrightarrow> k \<in> set (dkeys d')"
    by (auto simp: d'_def dom_update split: option.split)
  with IH show ?case unfolding step by (auto simp del: set_map)
qed

lemma dict_length_le: "dict_ok d \<Longrightarrow> set (dkeys d) \<subseteq> set ks \<Longrightarrow> length d \<le> length ks"
proof -
  assume "dict_ok d" and "set (dkeys d) \<subseteq> set ks"
  then have "length (dkeys d) = card (set (dkeys d))" by (simp only: dict_ok_def distinct_card)
  also have "\<dots> \<le> card (set ks)" using \<open>set (dkeys d) \<subseteq> set ks\<close> by (intro card_mono) simp_all
  also have "\<dots> \<le> length ks" by (rule card_length)
  finally show ?thesis by simp
qed

lemma gens_ok_take: "gens_ok d \<Longrightarrow> gens_ok (take n d)"
  unfolding gens_ok_def dict_ok_def by (metis distinct_take in_set_takeD take_map)

lemma merged_generations_ok:
  assumes m: "meta_ok m" and r: "roster_ok roster" and g: "merged_generations m roster v = Inr d"
  shows "gens_ok d \<and> length d \<le> max_cluster_members \<and> (\<forall>k \<in> set (map sn_id roster). generation_of (fm_generations m) k \<le> generation_of d k)"
proof -
  let ?e = "fm_generations m" and ?ids = "filter (\<lambda>i. i \<noteq> []) (map sn_id roster)"
  let ?allowed = "if roster = [] then None else Some ?ids"
  have e: "ticket_generations m = ?e" "gens_ok ?e" using m ticket_generations_ok by (auto simp: meta_ok_def)
  obtain items where v: "v = JObj items" using g by (cases v) (auto simp: merged_generations_def)
  obtain d0 where d0: "merge_tickets ?e ?allowed items [] = Inr d0"
    using g by (auto simp: merged_generations_def v e Let_def split: sum.splits)
  have "merging ?e ?allowed []" by (simp add: merging_def gens_ok_def dict_ok_def)
  with d0 have m0: "merging ?e ?allowed d0" by (rule merge_tickets_merging)
  show ?thesis
  proof (cases "roster = []")
    case True
    with g d0 m0 show ?thesis
      by (auto simp: merged_generations_def v e Let_def merging_def intro: gens_ok_take)
  next
    case False
    let ?d = "keep_tickets ?e ?ids d0"
    have ids: "set (map sn_id roster) = set ?ids" "length ?ids \<le> max_cluster_members"
      using r by (auto simp: roster_ok_def filter_map comp_def)
    from m0 False have k: "merging ?e (Some ?ids) ?d" "\<forall>k \<in> set ?ids. dget ?e k \<noteq> None \<longrightarrow> k \<in> set (dkeys ?d)"
      using keep_tickets_merging [OF _ e(2), of ?ids d0 ?ids] by auto
    have "set (dkeys ?d) \<subseteq> set ?ids"
    proof
      fix j assume "j \<in> set (dkeys ?d)"
      then obtain h where "dget ?d j = Some h" by (cases "dget ?d j") (simp_all add: dget_None_iff del: set_map)
      then show "j \<in> set ?ids" by (rule mergingD(4) [OF k(1) _ refl])
    qed
    from dict_length_le [OF mergingD(2) [OF k(1)] this] ids(2) have len: "length ?d \<le> max_cluster_members" by (rule order_trans)
    have d: "d = ?d" using g d0 False len by (simp add: merged_generations_def v e Let_def)
    have "generation_of ?e k \<le> generation_of ?d k" if "k \<in> set ?ids" for k
    proof (cases "dget ?d k")
      case None
      with k(2) that have "dget ?e k = None" by (metis dget_None_iff)
      with None show ?thesis by (simp add: generation_of_def)
    next
      case (Some g)
      from mergingD(3) [OF k(1) this] Some show ?thesis by (simp add: generation_of_def [of ?d])
    qed
    with mergingD(1) [OF k(1)] show ?thesis using len unfolding d ids(1) by blast
  qed
qed

lemma updated_meta_ok:
  assumes m: "meta_ok m" and u: "updated_meta repr u m = Inr m'"
  shows "meta_ok m' \<and> (\<forall>k \<in> set (map sn_id (fm_roster m')). generation_of (fm_generations m) k \<le> generation_of (fm_generations m') k)"
proof -
  obtain roster where r: "(case mu_roster u of None \<Rightarrow> Inr (fm_roster m) | Some vs \<Rightarrow> clean_roster repr [] (take max_cluster_members vs)) = Inr roster"
    and g: "(case mu_generations u of None \<Rightarrow> Inr (fm_generations m) | Some g \<Rightarrow> merged_generations m roster g) = Inr (fm_generations m')"
    and m': "fm_roster m' = roster" "0 \<le> fm_epoch m'"
    using u m by (auto simp: updated_meta_def Let_def meta_ok_def split: sum.splits option.splits)
  have "roster_ok roster"
    using r m clean_roster_ok [of repr "[]" "take max_cluster_members (the (mu_roster u))" roster]
    by (auto simp: roster_ok_def meta_ok_def split: option.splits)
  with m merged_generations_ok [OF m this, of "the (mu_generations u)" "fm_generations m'"] g m' show ?thesis
    by (auto simp: meta_ok_def split: option.splits)
qed

definition meta_step :: "(json \<Rightarrow> string) \<Rightarrow> meta_update \<Rightarrow> fo_meta \<Rightarrow> fo_meta" where
  "meta_step repr u m = (case updated_meta repr u m of Inl e \<Rightarrow> m | Inr m' \<Rightarrow> m')"

fun stays_member :: "(json \<Rightarrow> string) \<Rightarrow> string \<Rightarrow> meta_update list \<Rightarrow> fo_meta \<Rightarrow> bool" where
  "stays_member repr node [] m = True"
| "stays_member repr node (u # us) m =
     (node \<in> set (map sn_id (fm_roster (meta_step repr u m))) \<and> stays_member repr node us (meta_step repr u m))"

lemma meta_step_ok: "meta_ok m \<Longrightarrow> meta_ok (meta_step repr u m)"
  using updated_meta_ok [of m repr u] by (auto simp: meta_step_def split: sum.split)

lemma meta_run_ok: "meta_ok m \<Longrightarrow> meta_ok (fold (meta_step repr) us m)"
  by (induction us arbitrary: m) (simp_all add: meta_step_ok)

lemma empty_meta_ok [simp]: "meta_ok empty_meta"
  by (simp add: meta_ok_def empty_meta_def roster_ok_def gens_ok_def dict_ok_def)

lemma meta_step_generation:
  "meta_ok m \<Longrightarrow> node \<in> set (map sn_id (fm_roster (meta_step repr u m))) \<Longrightarrow>
    generation_of (fm_generations m) node \<le> generation_of (fm_generations (meta_step repr u m)) node"
  using updated_meta_ok [of m repr u] by (cases "updated_meta repr u m") (auto simp: meta_step_def)

text \<open>Whatever updates a node receives from the first on - of any roster and any
  generations, well formed or not - the ticket generation it keeps for a member never goes down while the node
  remains a member.\<close>

theorem failover_generation_kept:
  assumes "stays_member repr node us (fold (meta_step repr) vs empty_meta)"
  shows "generation_of (fm_generations (fold (meta_step repr) vs empty_meta)) node \<le>
    generation_of (fm_generations (fold (meta_step repr) (vs @ us) empty_meta)) node"
proof -
  have "generation_of (fm_generations m) node \<le> generation_of (fm_generations (fold (meta_step repr) us m)) node"
    if "meta_ok m" and "stays_member repr node us m" for m
    using that
  proof (induction us arbitrary: m)
    case Nil
    then show ?case by simp
  next
    case (Cons u us)
    have "node \<in> set (map sn_id (fm_roster (meta_step repr u m)))" "stays_member repr node us (meta_step repr u m)"
      using Cons.prems(2) by simp_all
    from meta_step_generation [OF Cons.prems(1) this(1)] Cons.IH [OF meta_step_ok [OF Cons.prems(1)] this(2)]
    show ?case by simp
  qed
  from this [OF meta_run_ok [OF empty_meta_ok] assms] show ?thesis by simp
qed

definition demo_member :: "string \<Rightarrow> int \<Rightarrow> json" where
  "demo_member node serial = JObj [(''node_id'', JStr node), (''name'', JStr node), (''host'', JStr ''10.0.0.2''), (''port'', JInt 9004),
     (''certificate_serial'', JInt serial)]"

definition demo_update :: "int \<Rightarrow> meta_update" where
  "demo_update g = no_update\<lparr>mu_roster := Some [demo_member ''m'' 1, demo_member ''s'' 2], mu_generations := Some (JObj [(''s'', JInt g)])\<rparr>"

lemma demo_step:
  "meta_step repr (demo_update 3) empty_meta = empty_meta\<lparr>
     fm_roster := [\<lparr>sn_id = ''m'', sn_name = ''m'', sn_host = ''10.0.0.2'', sn_port = 9004, sn_serial = 1, sn_online = False, sn_created = 0\<rparr>,
       \<lparr>sn_id = ''s'', sn_name = ''s'', sn_host = ''10.0.0.2'', sn_port = 9004, sn_serial = 2, sn_online = False, sn_created = 0\<rparr>],
     fm_generations := [(''s'', 3)]\<rparr>"
  by (simp add: meta_step_def updated_meta_def demo_update_def no_update_def demo_member_def node_from_dict_def jitem_def int_item_def jget_or_def
      merged_generations_def ticket_generations_def empty_meta_def keep_tickets_def max_cluster_members_def max_slaves_def Let_def)

lemma demo_stays: "stays_member repr ''s'' [no_update] (fold (meta_step repr) [demo_update 3] empty_meta)"
  by (simp add: demo_step) (simp add: meta_step_def updated_meta_def no_update_def empty_meta_def)

theorem failover_generation_kept_witness:
  "generation_of (fm_generations (fold (meta_step (\<lambda>v. [])) [demo_update 3] empty_meta)) ''s'' = 3 \<and>
   3 \<le> generation_of (fm_generations (fold (meta_step (\<lambda>v. [])) ([demo_update 3] @ [no_update]) empty_meta)) ''s''"
  using failover_generation_kept [OF demo_stays [of "\<lambda>v. []"]] by (simp add: demo_step generation_of_def)

section \<open>Trust follows the roster\<close>

definition peers_ok :: "slave_node list \<Rightarrow> bool" where
  "peers_ok ns \<longleftrightarrow> list_all (\<lambda>n. length (sn_id n) \<le> 128 \<and> 0 < sn_serial n) ns"

lemma desired_fold:
  "distinct (map sn_id ns) \<Longrightarrow> set (map sn_id ns) \<inter> set (dkeys d) = {} \<Longrightarrow>
    fold (\<lambda>m d. if sn_id m = local then d else dput (sn_id m) (sn_serial m) d) ns d =
    d @ map (\<lambda>m. (sn_id m, sn_serial m)) (filter (\<lambda>m. sn_id m \<noteq> local) ns)"
proof (induction ns arbitrary: d)
  case Nil
  then show ?case by simp
next
  case (Cons n ns)
  show ?case
  proof (cases "sn_id n = local")
    case True
    with Cons show ?thesis by simp
  next
    case False
    have "sn_id n \<notin> set (dkeys d)" using Cons.prems by auto
    moreover have "set (map sn_id ns) \<inter> set (dkeys (d @ [(sn_id n, sn_serial n)])) = {}" using Cons.prems by auto
    ultimately show ?thesis using Cons False by (simp add: dput_new del: set_map)
  qed
qed

lemma desired_eq:
  "roster_ok ns \<Longrightarrow> desired_peers local ns = map (\<lambda>m. (sn_id m, sn_serial m)) (filter (\<lambda>m. sn_id m \<noteq> local) ns)"
  using desired_fold [of ns "[]" local] by (simp add: desired_peers_def roster_ok_def)

lemma revoke_others_get:
  assumes "trust_ok ts"
  shows "trust_ok (revoke_others desired ks ts) \<and> ts_ca (revoke_others desired ks ts) = ts_ca ts \<and>
    (\<forall>j. dget (ts_peers (revoke_others desired ks ts)) j = (if j \<in> set ks \<and> j \<notin> set (dkeys desired) then None else dget (ts_peers ts) j))"
  using assms
proof (induction desired ks ts rule: revoke_others.induct)
  case (1 desired ts)
  then show ?case by simp
next
  case (2 desired k ks ts)
  then show ?case using revoke_peer_ok [of ts k] revoke_peer_get [of ts k] by (simp del: set_map)
qed

lemma allow_serials_get:
  assumes "trust_ok ts" and "\<forall>(k, s) \<in> set ps. k \<noteq> [] \<and> length k \<le> 128 \<and> 0 < s" and "distinct (dkeys ps)"
    and "set (dkeys (ts_peers ts)) \<union> set (dkeys ps) \<subseteq> set ks" and "length ks \<le> max_trusted_peers"
  shows "\<exists>ts'. allow_serials ps ts = (ts', Inr ()) \<and> trust_ok ts' \<and>
    (\<forall>j. dget (ts_peers ts') j = (case dget ps j of None \<Rightarrow> dget (ts_peers ts) j | Some s \<Rightarrow> Some s))"
  using assms
proof (induction ps ts rule: allow_serials.induct)
  case (1 ts)
  then show ?case by simp
next
  case (2 k s ps ts)
  let ?ts = "trust_save (ts\<lparr>ts_peers := dput k s (ts_peers ts)\<rparr>)"
  have d: "dict_ok (ts_peers ts)" using 2(2) by (simp add: trust_ok_def)
  have "length (ts_peers ts) < max_trusted_peers" if "k \<notin> set (dkeys (ts_peers ts))"
  proof -
    have "dict_ok (dput k s (ts_peers ts))" using d by simp
    moreover have "set (dkeys (dput k s (ts_peers ts))) \<subseteq> set ks" using 2(5) by (auto simp: dom_update)
    ultimately have "length (dput k s (ts_peers ts)) \<le> length ks" by (rule dict_length_le)
    with that 2(6) show ?thesis by (simp add: length_put del: set_map)
  qed
  then have a: "allow_serial k s ts = (?ts, Inr ())"
    using 2(3) by (auto simp: allow_serial_def trust_put_def)
  have ok: "trust_ok ?ts" using trust_put_ok [OF 2(2), of k s] a by (auto simp: allow_serial_def split: if_splits)
  have p: "ts_peers ?ts = dput k s (ts_peers ts)" by (simp add: trust_save_def)
  have "set (dkeys (ts_peers ?ts)) \<union> set (dkeys ps) \<subseteq> set ks" using 2(5) by (auto simp: p dom_update)
  from 2(1) [OF a [symmetric] refl ok _ _ this 2(6)] 2(3,4) obtain ts' where
    ts': "allow_serials ps ?ts = (ts', Inr ())" "trust_ok ts'"
      "\<forall>j. dget (ts_peers ts') j = (case dget ps j of None \<Rightarrow> dget (ts_peers ?ts) j | Some s \<Rightarrow> Some s)" by auto
  have "dget ps k = None" using 2(4) by (simp add: dget_None_iff)
  with ts' a show ?case by (auto simp: p dget_put split: option.split)
qed

lemma sync_trust_get:
  assumes m: "meta_ok m" and p: "peers_ok (fm_roster m)" and r: "fm_roster m \<noteq> []" and t: "trust_ok ts"
  shows "\<exists>ts'. sync_trust_store local m ts = (ts', Inr ()) \<and> trust_ok ts' \<and>
    (\<forall>k s. dget (ts_peers ts') k = Some s \<longleftrightarrow> k \<noteq> local \<and> (\<exists>n \<in> set (fm_roster m). sn_id n = k \<and> sn_serial n = s))"
proof -
  let ?ns = "fm_roster m" and ?d = "desired_peers local (fm_roster m)"
  let ?ts = "revoke_others ?d (trusted_ids ts) ts"
  have ns: "roster_ok ?ns" using m by (simp add: meta_ok_def)
  note d = desired_eq [OF ns, of local]
  have dist: "distinct (dkeys ?d)" using ns by (simp add: d roster_ok_def comp_def distinct_map_filter)
  then have dd: "dget ?d k = Some s \<longleftrightarrow> k \<noteq> local \<and> (\<exists>n \<in> set ?ns. sn_id n = k \<and> sn_serial n = s)" for k s
    using dget_set [of ?d k s] by (auto simp: dict_ok_def d)
  note rv = revoke_others_get [OF t, of ?d "trusted_ids ts"]
  have g: "dget (ts_peers ?ts) k = (if k \<in> set (dkeys ?d) then dget (ts_peers ts) k else None)" for k
    using rv dget_None_iff [of "ts_peers ts" k] by (auto simp: trusted_ids_def simp del: set_map)
  have keys: "set (dkeys (ts_peers ?ts)) \<subseteq> set (dkeys ?d)"
    using g by (metis dget_None_iff subsetI)
  have all: "\<forall>(k, s) \<in> set ?d. k \<noteq> [] \<and> length k \<le> 128 \<and> 0 < s"
    using ns p by (auto simp: d roster_ok_def peers_ok_def list_all_iff)
  have "length (dkeys ?d) \<le> length ?ns" by (simp add: d)
  then have len: "length (dkeys ?d) \<le> max_trusted_peers"
    using ns by (simp add: roster_ok_def max_cluster_members_def max_slaves_def max_trusted_peers_def)
  obtain ts' where ts': "allow_serials ?d ?ts = (ts', Inr ())" "trust_ok ts'"
    "\<forall>j. dget (ts_peers ts') j = (case dget ?d j of None \<Rightarrow> dget (ts_peers ?ts) j | Some s \<Rightarrow> Some s)"
    using allow_serials_get [of ?ts ?d "dkeys ?d"] rv all dist keys len by auto
  have "dget (ts_peers ts') k = dget ?d k" for k
  proof (cases "dget ?d k")
    case None
    then have "k \<notin> set (dkeys ?d)" by (simp only: dget_None_iff not_False_eq_True)
    with g [of k] None ts'(3) show ?thesis by (simp del: set_map)
  next
    case (Some s)
    with ts'(3) show ?thesis by simp
  qed
  then show ?thesis using ts'(1,2) dd m r by (auto simp: sync_trust_store_def Let_def)
qed

definition certified_names :: "certificate \<Rightarrow> string list" where
  "certified_names cert = (case fst cert of None \<Rightarrow> []
     | Some uris \<Rightarrow> map (drop (length node_uri_prefix)) (filter (\<lambda>u. starts_with u node_uri_prefix) uris))"

text \<open>After the roster of a heartbeat is applied, a certificate opens a
  connection exactly when it names one node, that node is a member other than the local one, and the serial number
  is the one the roster has for it: who left is refused, who joined is accepted, whatever was trusted before.\<close>

theorem trust_follows_roster:
  assumes "meta_ok m" and "peers_ok (fm_roster m)" and "fm_roster m \<noteq> []" and "trust_ok ts"
  shows "snd (sync_trust_store local m ts) = Inr () \<and>
    (authorize_der cert (fst (sync_trust_store local m ts)) = Inr (node, serial) \<longleftrightarrow>
      certified_names cert = [node] \<and> serial = snd cert \<and> node \<noteq> local \<and>
      (\<exists>n \<in> set (fm_roster m). sn_id n = node \<and> sn_serial n = serial))"
proof -
  obtain ts' where s: "sync_trust_store local m ts = (ts', Inr ())"
    "\<forall>k s. dget (ts_peers ts') k = Some s \<longleftrightarrow> k \<noteq> local \<and> (\<exists>n \<in> set (fm_roster m). sn_id n = k \<and> sn_serial n = s)"
    using sync_trust_get [OF assms] by blast
  have "authorize_der cert ts' = Inr (node, serial) \<longleftrightarrow>
    certified_names cert = [node] \<and> serial = snd cert \<and> dget (ts_peers ts') node = Some serial"
    by (auto simp: authorize_der_def certified_names_def split: option.split list.split)
  with s show ?thesis by auto
qed

lemma demo_meta_ok: "meta_ok (meta_step repr (demo_update 3) empty_meta)"
  by (rule meta_step_ok) simp

theorem trust_follows_roster_witness:
  "authorize_der (Some [''urn:netshare:node:m''], 1)
     (fst (sync_trust_store ''s'' (meta_step (\<lambda>v. []) (demo_update 3) empty_meta) \<lparr>ts_ca = [], ts_peers = [(''x'', 9)], ts_file = None\<rparr>)) = Inr (''m'', 1) \<and>
   authorize_der (Some [''urn:netshare:node:x''], 9)
     (fst (sync_trust_store ''s'' (meta_step (\<lambda>v. []) (demo_update 3) empty_meta) \<lparr>ts_ca = [], ts_peers = [(''x'', 9)], ts_file = None\<rparr>)) \<noteq> Inr (''x'', 9)"
proof -
  have ok: "peers_ok (fm_roster (meta_step (\<lambda>v. []) (demo_update 3) empty_meta))" "fm_roster (meta_step (\<lambda>v. []) (demo_update 3) empty_meta) \<noteq> []"
    "trust_ok \<lparr>ts_ca = [], ts_peers = [(''x'', 9)], ts_file = None\<rparr>"
    by (simp_all add: demo_step peers_ok_def trust_ok_def dict_ok_def max_trusted_peers_def)
  show ?thesis
    using trust_follows_roster [OF demo_meta_ok ok, of "''s''" "(Some [''urn:netshare:node:m''], 1)" "''m''" 1]
      trust_follows_roster [OF demo_meta_ok ok, of "''s''" "(Some [''urn:netshare:node:x''], 9)" "''x''" 9]
    by (simp add: demo_step certified_names_def node_uri_prefix_def starts_with_def)
qed

section \<open>Promotion\<close>

lemma removes_get:
  assumes "registry_ok rg"
  shows "registry_ok (registry_removes ks rg) \<and>
    (\<forall>j. dget (rg_nodes (registry_removes ks rg)) j = (if j \<in> set ks then None else dget (rg_nodes rg) j))"
  using assms
proof (induction ks rg rule: registry_removes.induct)
  case (1 rg)
  then show ?case by simp
next
  case (2 k ks rg)
  have "registry_ok (fst (registry_remove k rg))" using registry_step_ok [OF 2(2), of "RG_Remove k"] by simp
  moreover have "dget (rg_nodes (fst (registry_remove k rg))) j = (if j = k then None else dget (rg_nodes rg) j)" for j
    using dget_None_iff [of "rg_nodes rg" k] by (auto simp: registry_remove_def registry_save_def dget_pop simp del: set_map)
  ultimately show ?case using 2(1) by auto
qed

lemma removes_all:
  assumes "registry_ok rg"
  shows "rg_nodes (registry_removes (map sn_id (registry_nodes rg)) rg) = []"
proof -
  have n: "nodes_ok (rg_nodes rg)" using assms by (simp add: registry_ok_def)
  have "set (map sn_id (registry_nodes rg)) = set (map sn_id (dvals (rg_nodes rg)))" by (simp add: registry_nodes_def image_comp comp_def)
  also have "\<dots> = set (dkeys (rg_nodes rg))" by (simp only: nodes_ok_keys [OF n])
  finally have "dget (rg_nodes (registry_removes (map sn_id (registry_nodes rg)) rg)) j = None" for j
    using removes_get [OF assms, of "map sn_id (registry_nodes rg)"] by (simp add: dget_None_iff del: set_map)
  then show ?thesis
    by (cases "rg_nodes (registry_removes (map sn_id (registry_nodes rg)) rg)") (auto split: if_splits prod.splits, metis option.distinct(1))
qed

lemma adds_all:
  assumes "registry_ok rg" and "list_all node_ok ns" and "distinct (dkeys (rg_nodes rg) @ map sn_id ns)"
    and "length (rg_nodes rg) + length ns \<le> max_slaves"
  shows "\<exists>rg'. registry_adds ns rg = (rg', Inr ()) \<and> registry_ok rg' \<and> rg_nodes rg' = rg_nodes rg @ map (\<lambda>n. (sn_id n, n)) ns"
  using assms
proof (induction ns rg rule: registry_adds.induct)
  case (1 rg)
  then show ?case by simp
next
  case (2 n ns rg)
  let ?rg = "registry_save (rg\<lparr>rg_nodes := dput (sn_id n) n (rg_nodes rg)\<rparr>)"
  have new: "sn_id n \<notin> set (dkeys (rg_nodes rg))" using 2(4) by auto
  have a: "registry_add n rg = (?rg, Inr ())" using 2(3,5) by (auto simp: registry_add_def node_ok_def)
  have nodes: "rg_nodes ?rg = rg_nodes rg @ [(sn_id n, n)]" by (simp add: registry_save_def dput_new [OF new])
  have ok: "registry_ok ?rg" using registry_step_ok [OF 2(2), of "RG_Add n"] a by simp
  have "list_all node_ok ns" using 2(3) by simp
  moreover have "distinct (dkeys (rg_nodes ?rg) @ map sn_id ns)" using 2(4) by (simp add: nodes)
  moreover have "length (rg_nodes ?rg) + length ns \<le> max_slaves" using 2(5) by (simp add: nodes)
  ultimately obtain rg' where "registry_adds ns ?rg = (rg', Inr ())" "registry_ok rg'"
    "rg_nodes rg' = rg_nodes ?rg @ map (\<lambda>n. (sn_id n, n)) ns"
    using 2(1) [OF a [symmetric] refl ok] by auto
  with a show ?case by (simp add: nodes)
qed

definition rev_file_ok :: "rev_file \<Rightarrow> bool" where
  "rev_file_ok f \<longleftrightarrow> f = No_File \<or> (\<exists>g r c. written f g r c)"

definition stored_generation :: "(json \<Rightarrow> string) \<Rightarrow> time \<Rightarrow> rev_file \<Rightarrow> string \<Rightarrow> int" where
  "stored_generation repr now f k = (case rev_load repr now True f of Inl e \<Rightarrow> - 1 | Inr rv \<Rightarrow> current_generation k rv)"

lemma merge_loop_changed: "merge_loop repr items rv True = (rv', Inr ch) \<Longrightarrow> ch"
proof (induction repr items rv "True" rule: merge_loop.induct)
  case (1 repr rv)
  then show ?case by simp
next
  case (2 repr raw g items rv)
  then show ?case by (auto simp: Let_def split: if_splits sum.splits)
qed

lemma merge_loop_raises:
  assumes "gens_ok d"
  shows "\<exists>rv' ch'. merge_loop repr (dmap JInt d) rv ch = (rv', Inr ch') \<and> gens_le rv rv' \<and>
    (\<forall>(k, g) \<in> set d. g \<le> current_generation k rv') \<and> (\<not> ch' \<longrightarrow> rv' = rv)"
  using assms
proof (induction d arbitrary: rv ch)
  case Nil
  then show ?case by (simp add: dmap_def)
next
  case (Cons a d)
  obtain k g where a: "a = (k, g)" by (cases a)
  have kg: "k \<noteq> []" "length k \<le> 128" "0 \<le> g" and d: "gens_ok d" using Cons.prems by (auto simp: a gens_ok_def dict_ok_def)
  show ?case
  proof (cases "current_generation k rv < g")
    case True
    let ?rv = "rv\<lparr>rv_generations := dput k g (rv_generations rv)\<rparr>"
    obtain rv' ch' where r: "merge_loop repr (dmap JInt d) ?rv True = (rv', Inr ch')" "gens_le ?rv rv'"
      "\<forall>(k, g) \<in> set d. g \<le> current_generation k rv'" "\<not> ch' \<longrightarrow> rv' = ?rv" using Cons.IH [OF d, of ?rv True] by blast
    have "ch'" using r(1) by (rule merge_loop_changed)
    have "gens_le rv ?rv" using True kg by (intro gens_le_put) auto
    with r(2) have "gens_le rv rv'" by (blast intro: gens_le_trans)
    moreover have "g \<le> current_generation k rv'"
      using r(2) by (auto simp: gens_le_def current_generation_def dget_put dest: spec [of _ k])
    ultimately show ?thesis using r True kg \<open>ch'\<close>
      by (intro exI [of _ rv'] exI [of _ ch']) (simp add: a dmap_def Let_def max_def)
  next
    case False
    obtain rv' ch' where r: "merge_loop repr (dmap JInt d) rv ch = (rv', Inr ch')" "gens_le rv rv'"
      "\<forall>(k, g) \<in> set d. g \<le> current_generation k rv'" "\<not> ch' \<longrightarrow> rv' = rv" using Cons.IH [OF d, of rv ch] by blast
    moreover from False r(2) have "g \<le> current_generation k rv'" unfolding gens_le_def by (meson not_less order_trans)
    ultimately show ?thesis using False kg by (simp add: a dmap_def Let_def max_def)
  qed
qed

lemma loaded_rev_inv:
  assumes "rev_file_ok f"
  obtains rv where "rev_load repr now True f = Inr rv" and "rev_inv rv" and "rv_disk rv = f" and "rv_path rv"
    and "\<And>now' k. stored_generation repr now' f k = current_generation k rv"
proof (cases "f = No_File")
  case True
  then show thesis
    using that [of "\<lparr>rv_generations = [], rv_revoked = [], rv_consumed = [], rv_path = True, rv_disk = No_File\<rparr>"]
    by (simp add: rev_load_def rev_inv_def image_ok_def dict_ok_def all_vals_def stored_generation_def current_generation_def)
next
  case False
  then obtain g r c where w: "written f g r c" using assms by (auto simp: rev_file_ok_def)
  obtain rv where l: "rev_load repr now True f = Inr rv" using rev_load_written [OF w] by blast
  note image = rev_load_image [OF w l]
  have "stored_generation repr now' f k = current_generation k rv" for now' k
  proof -
    obtain rv' where l': "rev_load repr now' True f = Inr rv'" using rev_load_written [OF w] by blast
    from rev_load_image(1) [OF w l'] image(1) l' show ?thesis by (simp add: stored_generation_def current_generation_def)
  qed
  moreover have "rev_inv rv" unfolding rev_inv_def image(2) using image(6) w by blast
  ultimately show thesis using that l image by blast
qed

lemma saved_generation:
  assumes "rev_inv rv" and "rv_path rv"
  shows "rev_file_ok (rv_disk (rev_save rv)) \<and> stored_generation repr now (rv_disk (rev_save rv)) k = current_generation k rv"
proof -
  have i: "image_ok (rv_generations rv) (rv_revoked rv) (rv_consumed rv)" using assms(1) by (simp add: rev_inv_def)
  then have w: "written (rv_disk (rev_save rv)) (rv_generations rv) (rv_revoked rv) (rv_consumed rv)"
    using assms(2) by (simp add: written_def rev_save_def)
  obtain rv' where l: "rev_load repr now True (rv_disk (rev_save rv)) = Inr rv'" using rev_load_written [OF w] by blast
  have "current_generation k rv' = current_generation k rv"
    using rev_load_image(1) [OF w l] i by (simp add: current_generation_def dget_sort image_ok_def)
  with w l show ?thesis by (auto simp: rev_file_ok_def stored_generation_def)
qed

lemma inherit_generations_ok:
  assumes "rev_file_ok (cn_revocations n)" and "gens_ok d"
  shows "\<exists>f. inherit_generations repr now d n = (n\<lparr>cn_revocations := f\<rparr>, Inr ()) \<and> rev_file_ok f \<and>
    (\<forall>now' k. generation_of d k \<le> stored_generation repr now' f k \<and>
      stored_generation repr now' (cn_revocations n) k \<le> stored_generation repr now' f k)"
proof -
  obtain rv where rv: "rev_load repr now True (cn_revocations n) = Inr rv" "rev_inv rv" "rv_disk rv = cn_revocations n" "rv_path rv"
    "\<And>now' k. stored_generation repr now' (cn_revocations n) k = current_generation k rv"
    using loaded_rev_inv [OF assms(1)] by metis
  obtain rv' ch where m: "merge_loop repr (dmap JInt d) rv False = (rv', Inr ch)" "gens_le rv rv'"
    "\<forall>(k, g) \<in> set d. g \<le> current_generation k rv'" "\<not> ch \<longrightarrow> rv' = rv"
    using merge_loop_raises [OF assms(2), of repr rv False] by blast
  have inv: "rev_inv rv'" "rv_path rv'" using rev_inv_gens [OF rv(2) m(2)] m(2) rv(4) by (simp_all add: gens_le_def)
  have le: "current_generation k rv \<le> current_generation k rv'" for k using m(2) by (simp add: gens_le_def)
  have i: "image_ok (rv_generations rv') (rv_revoked rv') (rv_consumed rv')" using inv(1) by (simp add: rev_inv_def)
  have g: "generation_of d k \<le> current_generation k rv'" for k
  proof (cases "dget d k")
    case None
    with current_generation_nonneg [OF i, of k] show ?thesis by (simp add: generation_of_def)
  next
    case (Some h)
    with assms(2) have "(k, h) \<in> set d" by (simp add: gens_ok_def dget_set)
    with m(3) Some show ?thesis by (auto simp: generation_of_def)
  qed
  show ?thesis
  proof (cases ch)
    case True
    have "inherit_generations repr now d n = (n\<lparr>cn_revocations := rv_disk (rev_save rv')\<rparr>, Inr ())"
      using rv(1) m(1) True by (simp add: inherit_generations_def merge_generations_def Let_def)
    with saved_generation [OF inv, of repr] g le rv(5) show ?thesis by auto
  next
    case False
    with m(4) have "rv' = rv" by simp
    then have "inherit_generations repr now d n = (n\<lparr>cn_revocations := cn_revocations n\<rparr>, Inr ())"
      using rv(1,3) m(1) False by (simp add: inherit_generations_def merge_generations_def Let_def)
    with g le rv(5) assms(1) \<open>rv' = rv\<close> show ?thesis by (intro exI [of _ "cn_revocations n"]) simp
  qed
qed

lemma clean_own_roster:
  "distinct (map sn_id ns) \<Longrightarrow> set (map sn_id ns) \<inter> set seen = {} \<Longrightarrow>
    \<forall>n \<in> set ns. sn_id n \<noteq> [] \<and> \<not> sn_online n \<and> 0 \<le> sn_created n \<Longrightarrow> clean_roster repr seen (map node_json ns) = Inr ns"
proof (induction ns arbitrary: seen)
  case Nil
  then show ?case by simp
next
  case (Cons n ns)
  have n: "node_from_dict repr (node_json n) = Inr n"
    using Cons.prems(3) by (cases n) (auto simp: node_from_dict_def node_json_def jitem_def int_item_def jget_or_def Let_def max_def)
  have "clean_roster repr (sn_id n # seen) (map node_json ns) = Inr ns"
    using Cons.prems by (intro Cons.IH) auto
  with n Cons.prems(2,3) show ?case by auto
qed

lemma updated_own:
  assumes m: "meta_ok m"
  shows "\<exists>gens. updated_meta repr (no_update\<lparr>mu_leader := Some local, mu_epoch := Some epoch, mu_roster := Some (map node_json (fm_roster m)),
      mu_generations := Some (JObj (dmap JInt (fm_generations m)))\<rparr>) m =
    Inr \<lparr>fm_version = fm_version m, fm_leader = take 128 local, fm_epoch = max 0 epoch, fm_roster = fm_roster m, fm_generations = gens\<rparr>"
proof -
  have "clean_roster repr [] (map node_json (fm_roster m)) = Inr (fm_roster m)"
    using m by (intro clean_own_roster) (auto simp: meta_ok_def roster_ok_def)
  moreover have "take max_cluster_members (map node_json (fm_roster m)) = map node_json (fm_roster m)"
    using m by (simp add: meta_ok_def roster_ok_def)
  moreover have "\<exists>d. merge_tickets existing allowed (dmap JInt g) merged = Inr d" for existing allowed g merged
    by (induction g arbitrary: merged) (auto simp: dmap_def Let_def split: option.split)
  then have "\<exists>gens. merged_generations m (fm_roster m) (JObj (dmap JInt (fm_generations m))) = Inr gens"
    by (simp add: merged_generations_def Let_def split: sum.split) (metis sum.distinct(2))
  ultimately show ?thesis by (auto simp: updated_meta_def no_update_def)
qed

definition replica_ok :: "crypto \<Rightarrow> cluster_node \<Rightarrow> bool" where
  "replica_ok C n \<longleftrightarrow> (\<exists>k signing ca. backend_load failover_ca_name n = Some (cy_der C k) \<and> cy_der C k \<noteq> [] \<and>
     backend_load failover_signing_name n = Some signing \<and> signing \<noteq> [] \<and>
     cn_ca_cert n = Some ca \<and> ct_key (ct_body ca) = cy_public C k)"

lemma install_promoted_ok:
  assumes C: "crypto_ok C" and n: "identity_ok C n" "slave_exists n" and k: "cn_ca_cert n = Some ca" "ct_key (ct_body ca) = cy_public C k"
  shows "\<exists>i. install_promoted_ca C pw (cy_der C k) n =
    ((backend_store ca_password_name pw n)\<lparr>cn_ca_key := Some (cy_seal C k pw)\<rparr>, Inr i)"
proof -
  obtain c nd fp t where id: "cn_identity n = Some (c, nd, fp)" and t: "cn_node_key n = Some t"
    using n(2) by (auto simp: slave_exists_def common_files_def)
  obtain p where "backend_load node_password_name n = Some p" "length p = 64"
    using n(1) t by (auto simp: identity_ok_def sealed_def)
  then show ?thesis using C n(2) k id
    by (auto simp: install_promoted_ca_def load_identity_def load_certificate_def required_secret_def crypto_ok_def Let_def node_defs dget_put)
qed

lemma survivors_length:
  assumes "roster_ok ns" and "local \<in> set (map sn_id ns)"
  shows "length (filter (\<lambda>m. sn_id m \<noteq> local) ns) \<le> max_slaves"
proof -
  from assms(2) obtain n where n: "n \<in> set ns" "sn_id n = local" by auto
  have "length (filter (\<lambda>m. sn_id m \<noteq> local) ns) < length ns" by (rule length_filter_less [OF n(1)]) (simp add: n(2))
  with assms(1) show ?thesis by (simp add: roster_ok_def max_cluster_members_def)
qed

text \<open>C24 (a slave that is elected can take over). A joined slave with the replica of the authority and a roster it belongs
  to becomes a complete master: every step of the promotion succeeds, the new registry has exactly the other members,
  all offline, the revocation file keeps every ticket generation it or the replica knew, and the metadata names the
  new leader and its epoch.\<close>

theorem promotion_inherits:
  assumes C: "crypto_ok C" and n: "identity_ok C (fv_node s)" "slave_exists (fv_node s)" "replica_ok C (fv_node s)"
    and m: "meta_ok (fv_meta s)" "list_all node_ok (fm_roster (fv_meta s))" "local \<in> set (map sn_id (fm_roster (fv_meta s)))"
    and f: "registry_load (cn_nodes (fv_node s)) = Inr rg" "registry_ok rg" "rev_file_ok (cn_revocations (fv_node s))"
    and pw: "length pw = 64"
  shows "\<exists>s' rg'. promote_local C repr pw now local epoch s = (s', Inr (filter (\<lambda>m. sn_id m \<noteq> local) (fm_roster (fv_meta s)))) \<and>
    master_exists (fv_node s') \<and> registry_load (cn_nodes (fv_node s')) = Inr rg' \<and>
    (\<forall>k n. dget (rg_nodes rg') k = Some n \<longleftrightarrow> n \<in> set (fm_roster (fv_meta s)) \<and> sn_id n = k \<and> k \<noteq> local) \<and>
    (\<forall>now' k. generation_of (fm_generations (fv_meta s)) k \<le> stored_generation repr now' (cn_revocations (fv_node s')) k \<and>
      stored_generation repr now' (cn_revocations (fv_node s)) k \<le> stored_generation repr now' (cn_revocations (fv_node s')) k) \<and>
    fm_leader (fv_meta s') = take 128 local \<and> fm_epoch (fv_meta s') = max 0 epoch \<and> fm_roster (fv_meta s') = fm_roster (fv_meta s)"
proof -
  let ?m = "fv_meta s" and ?n = "fv_node s"
  let ?sv = "filter (\<lambda>m. sn_id m \<noteq> local) (fm_roster ?m)"
  obtain k signing ca where k: "backend_load failover_ca_name ?n = Some (cy_der C k)" "cy_der C k \<noteq> []"
    "backend_load failover_signing_name ?n = Some signing" "signing \<noteq> []" "cn_ca_cert ?n = Some ca" "ct_key (ct_body ca) = cy_public C k"
    using n(3) by (auto simp: replica_ok_def)
  obtain i where i: "install_promoted_ca C pw (cy_der C k) ?n = ((backend_store ca_password_name pw ?n)\<lparr>cn_ca_key := Some (cy_seal C k pw)\<rparr>, Inr i)"
    using install_promoted_ok [OF C n(1,2) k(5,6), of pw] by blast
  define n1 where "n1 = backend_store signing_key_name signing ((backend_store ca_password_name pw ?n)\<lparr>cn_ca_key := Some (cy_seal C k pw)\<rparr>)"
  have files: "cn_nodes n1 = cn_nodes ?n" "cn_revocations n1 = cn_revocations ?n" "master_exists n1"
    using n(2) by (auto simp: n1_def backend_store_def master_exists_def slave_exists_def common_files_def)
  have r: "roster_ok (fm_roster ?m)" using m(1) by (simp add: meta_ok_def)
  note short = survivors_length [OF r m(3)]
  let ?rg0 = "registry_removes (map sn_id (registry_nodes rg)) rg"
  have rg0: "registry_ok ?rg0" "rg_nodes ?rg0 = []" using removes_get [OF f(2)] removes_all [OF f(2)] by simp_all
  have "list_all node_ok ?sv" using m(2) by (auto simp: list_all_iff)
  moreover have "distinct (dkeys (rg_nodes ?rg0) @ map sn_id ?sv)" using r rg0(2) by (simp add: roster_ok_def distinct_map_filter)
  moreover have "length (rg_nodes ?rg0) + length ?sv \<le> max_slaves" using short rg0(2) by simp
  ultimately obtain rg1 where rg1: "registry_adds ?sv ?rg0 = (rg1, Inr ())" "registry_ok rg1"
    "rg_nodes rg1 = map (\<lambda>n. (sn_id n, n)) ?sv" using adds_all [OF rg0(1), of ?sv] rg0(2) by auto
  define n2 where "n2 = n1\<lparr>cn_nodes := rg_file rg1\<rparr>"
  have rebuild: "rebuild_registry ?sv n1 = (n2, Inr ())" using f(1) files(1) rg1(1) by (simp add: rebuild_registry_def n2_def)
  obtain rfile where rfile: "inherit_generations repr now (fm_generations ?m) n2 = (n2\<lparr>cn_revocations := rfile\<rparr>, Inr ())"
    "\<forall>now' k. generation_of (fm_generations ?m) k \<le> stored_generation repr now' rfile k \<and>
      stored_generation repr now' (cn_revocations ?n) k \<le> stored_generation repr now' rfile k"
    using inherit_generations_ok [of n2 "fm_generations ?m" repr now] f(3) files(2) m(1) by (auto simp: n2_def meta_ok_def)
  obtain gens where u: "updated_meta repr (no_update\<lparr>mu_leader := Some local, mu_epoch := Some epoch, mu_roster := Some (map node_json (fm_roster ?m)),
      mu_generations := Some (JObj (dmap JInt (fm_generations ?m)))\<rparr>) ?m =
    Inr \<lparr>fm_version = fm_version ?m, fm_leader = take 128 local, fm_epoch = max 0 epoch, fm_roster = fm_roster ?m, fm_generations = gens\<rparr>"
    using updated_own [OF m(1)] by blast
  let ?s' = "s\<lparr>fv_node := n2\<lparr>cn_revocations := rfile\<rparr>, fv_meta := \<lparr>fm_version = fm_version ?m, fm_leader = take 128 local,
    fm_epoch = max 0 epoch, fm_roster = fm_roster ?m, fm_generations = gens\<rparr>\<rparr>"
  have run: "promote_local C repr pw now local epoch s = (?s', Inr ?sv)"
    using k i short m(1) by (simp add: promote_local_def Let_def n1_def [symmetric] rebuild rfile ticket_generations_ok update_metadata_def u)
  obtain rg' where rg': "registry_load (rg_file rg1) = Inr rg'" "\<forall>j. dget (rg_nodes rg') j = dget (offline (rg_nodes rg1)) j"
    using rg1(2) by (auto simp: registry_ok_def)
  have "distinct (map sn_id ?sv)" using r by (simp add: roster_ok_def distinct_map_filter)
  then have "dict_ok (rg_nodes rg1)" by (simp add: rg1(3) dict_ok_def comp_def)
  moreover have "offline (rg_nodes rg1) = rg_nodes rg1"
    using r by (auto simp: rg1(3) offline_def dmap_def roster_ok_def intro!: slave_node.equality)
  ultimately have "dget (rg_nodes rg') j = Some x \<longleftrightarrow> x \<in> set (fm_roster ?m) \<and> sn_id x = j \<and> j \<noteq> local" for j x
    using rg'(2) by (auto simp: dget_set rg1(3))
  moreover have "master_exists (fv_node ?s')" using files(3) by (simp add: n2_def master_exists_def common_files_def)
  ultimately show ?thesis using run rg'(1) rfile(2) by (intro exI [of _ ?s'] exI [of _ rg']) (simp add: n2_def)
qed

definition demo_slave :: failover where
  "demo_slave = \<lparr>fv_node = new_node\<lparr>
       cn_backend := [(node_password_name, replicate 64 (CHR ''b'')), (failover_ca_name, ''DK''), (failover_signing_name, replicate 32 (CHR ''x''))],
       cn_identity := Some (''c1'', ''s'', ''fp''), cn_ca_cert := Some (build_ca demo_crypto 1000 1 ''K'' ''c1''),
       cn_node_cert := Some (build_node demo_crypto 1000 2 ''PN'' ''s'' ''K'' (build_ca demo_crypto 1000 1 ''K'' ''c1'')),
       cn_node_key := Some (cy_seal demo_crypto ''N'' (replicate 64 (CHR ''b''))),
       cn_trusted := Some (''fp'', []), cn_signing_public := Some ''Px''\<rparr>,
     fv_meta = meta_step (\<lambda>v. []) (demo_update 3) empty_meta\<rparr>"

lemma demo_slave_ok:
  "identity_ok demo_crypto (fv_node demo_slave)" "slave_exists (fv_node demo_slave)" "replica_ok demo_crypto (fv_node demo_slave)"
proof -
  have names: "node_password_name \<noteq> failover_ca_name" "node_password_name \<noteq> failover_signing_name" "failover_signing_name \<noteq> failover_ca_name"
    by (simp_all add: node_password_name_def failover_ca_name_def failover_signing_name_def)
  show "identity_ok demo_crypto (fv_node demo_slave)"
    using proper_built_ca [OF demo_crypto_ok] by (auto simp: identity_ok_def demo_slave_def sealed_def backend_load_def new_node_def)
  show "slave_exists (fv_node demo_slave)"
    by (simp add: demo_slave_def slave_exists_def common_files_def joined_slave_files_exist_def new_node_def)
  have "cy_der demo_crypto ''K'' = ''DK''" by (simp add: demo_crypto_def)
  then show "replica_ok demo_crypto (fv_node demo_slave)"
    unfolding replica_ok_def using names
    by (intro exI [of _ "''K''"] exI [of _ "replicate 32 (CHR ''x'')"] exI [of _ "build_ca demo_crypto 1000 1 ''K'' ''c1''"])
      (simp add: demo_slave_def backend_load_def demo_crypto_def)
qed

theorem promotion_inherits_witness:
  "\<exists>s' survivors. promote_local demo_crypto (\<lambda>v. []) (replicate 64 (CHR ''a'')) 2000 ''s'' 4 demo_slave = (s', Inr survivors) \<and>
    map sn_id survivors = [''m''] \<and> master_exists (fv_node s') \<and> fm_leader (fv_meta s') = ''s'' \<and> fm_epoch (fv_meta s') = 4"
proof -
  have m: "meta_ok (fv_meta demo_slave)" "list_all node_ok (fm_roster (fv_meta demo_slave))" "''s'' \<in> set (map sn_id (fm_roster (fv_meta demo_slave)))"
    "map sn_id (filter (\<lambda>m. sn_id m \<noteq> ''s'') (fm_roster (fv_meta demo_slave))) = [''m'']"
    using demo_meta_ok [of "\<lambda>v. []"] by (simp_all add: demo_slave_def demo_step node_ok_def)
  have f: "registry_load (cn_nodes (fv_node demo_slave)) = Inr new_registry" "rev_file_ok (cn_revocations (fv_node demo_slave))"
    by (simp_all add: demo_slave_def new_node_def registry_load_def new_registry_def rev_file_ok_def)
  show ?thesis
    using promotion_inherits [OF demo_crypto_ok demo_slave_ok m(1-3) f(1) new_registry_ok f(2), of "replicate 64 (CHR ''a'')" "\<lambda>v. []" 2000 4] m(4)
    by auto
qed

section \<open>Replication of the authority\<close>

lemma stored_replica:
  "backend_load failover_ca_name (fv_node (store_authority ca signing s)) = Some ca"
  "backend_load failover_signing_name (fv_node (store_authority ca signing s)) = Some signing"
  "cn_ca_cert (fv_node (store_authority ca signing s)) = cn_ca_cert (fv_node s)"
  "fv_meta (store_authority ca signing s) = fv_meta s"
  by (simp_all add: store_authority_def node_defs dget_put failover_ca_name_def failover_signing_name_def)

lemma update_metadata_ok:
  "updated_meta repr u (fv_meta s) = Inr m \<Longrightarrow> update_metadata repr u s = (s\<lparr>fv_meta := m\<rparr>, Inr ())"
  by (simp add: update_metadata_def)

lemma updated_version: "updated_meta repr u m = Inr m' \<Longrightarrow> mu_version u = Some v \<Longrightarrow> fm_version m' = take 128 v"
  by (auto simp: updated_meta_def split: sum.splits)

text \<open>The bundle that a master exports after backing up its authority is accepted by every node
  that holds the CA certificate of the cluster and has no other ticket key: the node then holds the CA key and the
  ticket signing key of the master and is ready to take over.\<close>

theorem authority_replicated:
  assumes C: "crypto_ok C" and M: "identity_ok C (fv_node M)" "master_exists (fv_node M)"
    and b: "master_backup C sha256 repr signing u M = (M', Inr version)" "length signing = 32" "length (sha256 (cy_fingerprint C ca @ '':'' @ cy_public C signing)) = 64"
    and S: "cn_ca_cert (fv_node M) = Some ca" "cn_ca_cert (fv_node S) = Some ca" "cn_signing_public (fv_node S) \<in> {None, Some (cy_public C signing)}"
    and u': "updated_meta repr (u'\<lparr>mu_version := Some version\<rparr>) (fv_meta S) = Inr m'"
  shows "\<exists>S'. import_bundle C repr (JObj (export_bundle M')) u' S = (S', Inr ()) \<and> replica_ok C (fv_node S') \<and> failover_ready S' \<and>
    backend_load failover_signing_name (fv_node S') = Some signing \<and> fv_meta S' = m'"
proof -
  obtain k ca' where ca: "cn_ca_cert (fv_node M) = Some ca'" "proper_ca C ca'" "ct_key (ct_body ca') = cy_public C k"
    "load_key C ca_password_name (cn_ca_key (fv_node M)) (fv_node M) = Inr k"
    using master_authority [OF C M] by metis
  then have k: "proper_ca C ca" "ct_key (ct_body ca) = cy_public C k" "export_ca_private_key C (fv_node M) = Inr (cy_der C k)"
    using S(1) by (simp_all add: export_ca_private_key_def)
  define w where "w = take 32 (sha256 (cy_fingerprint C ca @ '':'' @ cy_public C signing))"
  have v: "length w = 32" using b(3) by (simp add: w_def)
  then have v0: "w \<noteq> []" by auto
  have run: "(case update_metadata repr (u\<lparr>mu_version := Some w\<rparr>) (store_authority (cy_der C k) signing M) of
      (s, Inl e) \<Rightarrow> (s, Inl e) | (s, Inr _) \<Rightarrow> (s, Inr w)) = (M', Inr version)"
    using b(1) by (simp only: master_backup_def k(3) S(1) sum.case option.case Let_def w_def)
  obtain m where m: "updated_meta repr (u\<lparr>mu_version := Some version\<rparr>) (fv_meta M) = Inr m"
    "M' = (store_authority (cy_der C k) signing M)\<lparr>fv_meta := m\<rparr>" and version: "version = w"
    using run by (cases "updated_meta repr (u\<lparr>mu_version := Some w\<rparr>) (fv_meta M)") (auto simp: update_metadata_def stored_replica)
  have mv: "fm_version m = version" using updated_version [OF m(1)] v version by simp
  have der: "cy_der C k \<noteq> []" "cy_read_der C (cy_der C k) = Some k" using C by (simp_all add: crypto_ok_def)
  have sg: "signing \<noteq> []" using b(2) by auto
  have "export_bundle M' = [(''v'', JInt 1), (''authority_version'', JStr version),
      (''ca_private_key'', JStr (b64_text (cy_der C k))), (''signing_private_key'', JStr (b64_text signing))]"
    using der(1) sg v0 version mv by (simp add: export_bundle_def m(2) stored_replica failover_schema_def)
  moreover have "import_bundle C repr (JObj [(''v'', JInt 1), (''authority_version'', JStr version),
      (''ca_private_key'', JStr (b64_text (cy_der C k))), (''signing_private_key'', JStr (b64_text signing))]) u' S =
    install_authority C repr (cy_der C k) signing (u'\<lparr>mu_version := Some version\<rparr>) S"
    using v0 version by (simp add: import_bundle_def jget_or_def jget_def jitem_def b64_roundtrip failover_schema_def)
  moreover have "install_authority C repr (cy_der C k) signing (u'\<lparr>mu_version := Some version\<rparr>) S =
    ((store_authority (cy_der C k) signing S)\<lparr>fv_meta := m'\<rparr>, Inr ())"
    using b(2) der(2) S(2,3) k(2) u' by (auto simp: install_authority_def update_metadata_def stored_replica)
  moreover have "fm_version m' = version" using updated_version [OF u'] v version by simp
  ultimately show ?thesis
    using der(1) sg v0 version S(2) k(2) by (auto simp: replica_ok_def failover_ready_def stored_replica)
qed

lemma updated_version_only:
  "updated_meta repr (no_update\<lparr>mu_version := Some v\<rparr>) empty_meta = Inr (empty_meta\<lparr>fm_version := take 128 v\<rparr>)"
  by (simp add: updated_meta_def no_update_def empty_meta_def)

theorem authority_replicated_witness:
  "\<exists>M' S'. fst (master_backup demo_crypto (\<lambda>t. replicate 64 (CHR ''0'')) (\<lambda>v. []) (replicate 32 (CHR ''x'')) no_update
        \<lparr>fv_node = id_run demo_crypto demo_master new_node, fv_meta = empty_meta\<rparr>) = M' \<and>
     import_bundle demo_crypto (\<lambda>v. []) (JObj (export_bundle M')) no_update
        \<lparr>fv_node = new_node\<lparr>cn_ca_cert := cn_ca_cert (id_run demo_crypto demo_master new_node)\<rparr>, fv_meta = empty_meta\<rparr> = (S', Inr ()) \<and>
     failover_ready S' \<and> backend_load failover_signing_name (fv_node S') = Some (replicate 32 (CHR ''x''))"
proof -
  let ?n = "id_run demo_crypto demo_master new_node" and ?x = "replicate 32 (CHR ''x'')" and ?sha = "\<lambda>t :: string. replicate 64 (CHR ''0'')"
  let ?M = "\<lparr>fv_node = ?n, fv_meta = empty_meta\<rparr>"
  have ok: "identity_ok demo_crypto ?n" by (rule id_run_keeps [OF demo_crypto_ok new_node_ok])
  obtain k ca where ca: "cn_ca_cert ?n = Some ca" "load_key demo_crypto ca_password_name (cn_ca_key ?n) ?n = Inr k"
    using master_authority [OF demo_crypto_ok ok demo_master_exists] by metis
  define w where "w = take 32 (replicate 64 (CHR ''0''))"
  obtain M' where b: "master_backup demo_crypto ?sha (\<lambda>v. []) ?x no_update ?M = (M', Inr w)"
    using ca by (simp add: master_backup_def export_ca_private_key_def Let_def update_metadata_def stored_replica updated_version_only w_def)
  show ?thesis
    using authority_replicated [OF demo_crypto_ok, of ?M ?sha "\<lambda>v. []" ?x no_update M' w ca
        "\<lparr>fv_node = new_node\<lparr>cn_ca_cert := cn_ca_cert ?n\<rparr>, fv_meta = empty_meta\<rparr>" no_update "empty_meta\<lparr>fm_version := take 128 w\<rparr>"]
      ok demo_master_exists b ca(1) by (auto simp: updated_version_only new_node_def)
qed

end
