(* ===== verification/Cluster_Election.thy ===== *)
theory Cluster_Election
  imports Cluster_Failover
begin

text \<open>
  Who leads a cluster: the hints of multicast DNS (\<^verbatim>\<open>core/cluster/discovery.py\<close>), the initial role of an AUTO node,
  the election of a new master among the slaves and the stepping down of a master that another one supersedes
  (\<^verbatim>\<open>core/cluster/failover.py\<close>, \<^verbatim>\<open>core/cluster/runtime.py\<close>). A step of the election loop is a function of what the node
  knows and sees at that moment; the classification of an address as local (\<open>lan\<close>) and the outcome of an authenticated
  probe of a leader (\<open>probe\<close>: the epoch it reports, nothing when the probe fails) are parameters.
\<close>

section \<open>Discovered nodes\<close>

definition max_discovered_nodes :: nat where "max_discovered_nodes = 32"
definition max_txt_value :: nat where "max_txt_value = 64"

record discovered_node =
  dn_instance :: string
  dn_addresses :: "string list"
  dn_port :: int
  dn_role :: string
  dn_window :: string
  dn_content_port :: int
  dn_node :: string
  dn_name :: string
  dn_open :: bool
  dn_created :: int
  dn_epoch :: int

text \<open>The answer of the resolver: addresses, port and the TXT properties, with \<open>None\<close> for a value that is no bytes.\<close>

record service_info =
  si_addresses :: "string list"
  si_port :: int
  si_properties :: "(string \<times> string option) list"

definition txt_ok :: "string \<Rightarrow> bool" where
  "txt_ok s \<longleftrightarrow> length s \<le> max_txt_value \<and> list_all (\<lambda>c. code c < 128) s"

fun txt_properties :: "(string \<times> string option) list \<Rightarrow> (string, string) dict \<Rightarrow> (string, string) dict option" where
  "txt_properties [] d = Some d"
| "txt_properties ((k, None) # ps) d = None"
| "txt_properties ((k, Some v) # ps) d = (if txt_ok k \<and> txt_ok v then txt_properties ps (dput k v d) else None)"

definition prop_or :: "(string, string) dict \<Rightarrow> string \<Rightarrow> string \<Rightarrow> string" where
  "prop_or d k dflt = (case dget d k of None \<Rightarrow> dflt | Some v \<Rightarrow> v)"

definition discovery_roles :: "string list" where
  "discovery_roles = [''master'', ''slave'', ''auto'']"

definition valid_discovery_id :: "string \<Rightarrow> bool" where
  "valid_discovery_id s \<longleftrightarrow>
     s = [] \<or> length s \<le> 64 \<and> (let t = filter (\<lambda>c. c \<noteq> CHR ''-'' \<and> c \<noteq> CHR ''_'') s in t \<noteq> [] \<and> list_all is_alnum t)"

definition discovered_of :: "(string \<Rightarrow> bool) \<Rightarrow> string \<Rightarrow> service_info \<Rightarrow> discovered_node option" where
  "discovered_of lan name info =
     (case txt_properties (si_properties info) [] of None \<Rightarrow> None
      | Some p \<Rightarrow>
          if dget p ''v'' \<noteq> Some ''1'' then None
          else (let role = prop_or p ''role'' []; window = prop_or p ''window'' []; node = prop_or p ''node'' []
                in if role \<notin> set discovery_roles \<or> length window \<noteq> 16 then None
                   else if \<not> valid_discovery_id node then None
                   else
                     (let number = (\<lambda>k. let t = prop_or p k ''0'' in read_int (if t = [] then ''0'' else t))
                      in case (read_int (prop_or p ''content'' ''0''), number ''born'', number ''epoch'') of
                           (Some content, Some born, Some epoch) \<Rightarrow>
                             (let addresses = filter lan (si_addresses info)
                              in if addresses = [] \<or> \<not> (1 \<le> si_port info \<and> si_port info \<le> 65535) \<or> \<not> (1 \<le> content \<and> content \<le> 65535)
                                 then None
                                 else Some \<lparr>dn_instance = name, dn_addresses = addresses, dn_port = si_port info, dn_role = role,
                                   dn_window = window, dn_content_port = content, dn_node = node, dn_name = prop_or p ''name'' [],
                                   dn_open = (prop_or p ''open'' ''1'' = ''1''), dn_created = max 0 born, dn_epoch = max 0 epoch\<rparr>)
                         | _ \<Rightarrow> None)))"

text \<open>\<open>DiscoveryBrowser\<close>: \<open>info\<close> is what the resolver answered, if it did.\<close>

definition browser_update ::
  "(string \<Rightarrow> bool) \<Rightarrow> string \<Rightarrow> service_info option \<Rightarrow> (string, discovered_node) dict \<Rightarrow> (string, discovered_node) dict" where
  "browser_update lan name info nodes =
     (if name \<notin> set (dkeys nodes) \<and> max_discovered_nodes \<le> length nodes then nodes
      else (case Option.bind info (discovered_of lan name) of None \<Rightarrow> nodes | Some n \<Rightarrow> dput name n nodes))"

definition browser_remove :: "string \<Rightarrow> (string, discovered_node) dict \<Rightarrow> (string, discovered_node) dict" where
  "browser_remove name nodes = dpop name nodes"

definition browser_nodes :: "(string, discovered_node) dict \<Rightarrow> discovered_node list" where
  "browser_nodes nodes = sort_key dn_instance (dvals nodes)"

text \<open>\<open>_update_discovered\<close>: one entry per node, an open pairing window is preferred.\<close>

definition nearby_of :: "string \<Rightarrow> discovered_node list \<Rightarrow> (string, discovered_node) dict" where
  "nearby_of self nodes =
     fold (\<lambda>n d. if dn_node n = [] \<or> dn_node n = self then d
                 else (case dget d (dn_node n) of
                         None \<Rightarrow> dput (dn_node n) n d
                       | Some e \<Rightarrow> if dn_open n \<and> \<not> dn_open e then dput (dn_node n) n d else d)) nodes []"

section \<open>Ranks\<close>

definition election_rank :: "int \<Rightarrow> string \<Rightarrow> int \<times> string" where
  "election_rank created node = (if 0 < created then created else 2 ^ 62, node)"

definition quorum_required :: "int \<Rightarrow> int" where
  "quorum_required members = max 1 members div 2 + 1"

text \<open>The claim of a leader: a higher epoch comes first, then the older node.\<close>

datatype leader_claim = Leader_Claim int int string

fun claim_key :: "leader_claim \<Rightarrow> int \<times> int \<times> string" where
  "claim_key (Leader_Claim epoch born node) = (- epoch, born, node)"

lemma claim_key_inj: "claim_key a = claim_key b \<Longrightarrow> a = b"
  by (cases a; cases b) simp

instantiation leader_claim :: linorder
begin

definition less_eq_leader_claim :: "leader_claim \<Rightarrow> leader_claim \<Rightarrow> bool" where
  "less_eq_leader_claim a b \<longleftrightarrow> claim_key a \<le> claim_key b"

definition less_leader_claim :: "leader_claim \<Rightarrow> leader_claim \<Rightarrow> bool" where
  "less_leader_claim a b \<longleftrightarrow> claim_key a < claim_key b"

instance
  by standard (auto simp: less_eq_leader_claim_def less_leader_claim_def dest: claim_key_inj)

end

definition claim_of :: "discovered_node \<Rightarrow> leader_claim" where
  "claim_of n = (case election_rank (dn_created n) (dn_node n) of (born, node) \<Rightarrow> Leader_Claim (dn_epoch n) born node)"

text \<open>Members are compared by a rank that tells them apart. Whoever comes first for one observer and sees the first of
  another observer, who sees it in turn, is that other one.\<close>

locale ranking =
  fixes rank :: "'a \<Rightarrow> 'k::linorder" and ident :: "'a \<Rightarrow> string"
  assumes rank_ident: "rank a = rank b \<Longrightarrow> ident a = ident b"
begin

lemma first_least:
  assumes "b \<in> set xs"
  shows "rank (hd (sort_key rank xs)) \<le> rank b" and "hd (sort_key rank xs) \<in> set xs"
proof -
  obtain y ys where y: "sort_key rank xs = y # ys"
    using assms by (cases "sort_key rank xs") (metis empty_iff list.set(1) set_sort, blast)
  have s: "sorted (map rank (y # ys))" "set (y # ys) = set xs" using sorted_sort_key [of rank xs] set_sort [of rank xs] y by simp_all
  show "rank (hd (sort_key rank xs)) \<le> rank b" using s assms by (auto simp: y)
  show "hd (sort_key rank xs) \<in> set xs" using s(2) y by auto
qed

lemma first_unique:
  assumes "a = hd (sort_key rank xs)" and "b = hd (sort_key rank ys)" and "a' \<in> set ys" and "b' \<in> set xs"
    and "rank a' = rank a" and "rank b' = rank b"
  shows "ident a = ident b"
proof (rule rank_ident, rule antisym)
  show "rank a \<le> rank b" using first_least(1) [of b' xs] assms by auto
  show "rank b \<le> rank a" using first_least(1) [of a' ys] assms by auto
qed

end

lemma election_rank_inj: "election_rank c n = election_rank c' n' \<Longrightarrow> n = n'"
  by (auto simp: election_rank_def)

interpretation member_rank: ranking "\<lambda>m. election_rank (sn_created m) (sn_id m)" sn_id
  by unfold_locales (rule election_rank_inj)

interpretation claim_rank: ranking claim_of dn_node
  by unfold_locales (auto simp: claim_of_def election_rank_def)

interpretation auto_rank: ranking "id :: int \<times> string \<Rightarrow> int \<times> string" snd
  by unfold_locales simp

section \<open>Roles\<close>

definition choose_auto_role :: "string \<Rightarrow> real \<Rightarrow> discovered_node list \<Rightarrow> string" where
  "choose_auto_role node created discovered =
     (let peers = filter (\<lambda>n. dn_node n \<noteq> [] \<and> dn_node n \<noteq> node) discovered
      in if list_ex (\<lambda>n. dn_role n = ''master'') peers then ''slave''
         else (let autos = filter (\<lambda>n. dn_role n = ''auto'') peers
               in if autos \<noteq> []
                  then (let key = (max 0 (py_int created), node)
                        in if key = Min (set (key # map (\<lambda>n. (max 0 (dn_created n), dn_node n)) autos)) then ''master'' else ''slave'')
                  else ''master''))"

section \<open>The election\<close>

definition witnessless_after :: real where "witnessless_after = 40"

datatype election_outcome =
    El_Blocked
  | El_Follow string int
  | El_Wait
  | El_Promote int
  | El_Elect string int
  | El_Died

record election =
  el_meta :: fo_meta
  el_verifier :: "verifier option"

definition set_leader :: "(json \<Rightarrow> string) \<Rightarrow> string \<Rightarrow> int \<Rightarrow> fo_meta \<Rightarrow> fo_meta" where
  "set_leader repr node epoch m = meta_step repr (no_update\<lparr>mu_leader := Some node, mu_epoch := Some epoch\<rparr>) m"

definition set_issuer :: "string \<Rightarrow> verifier option \<Rightarrow> verifier option \<times> bool" where
  "set_issuer node v = (case v of None \<Rightarrow> (None, True)
     | Some vf \<Rightarrow> (case set_issuer_node_id node vf of (vf, Inl e) \<Rightarrow> (Some vf, False) | (vf, Inr _) \<Rightarrow> (Some vf, True)))"

definition leader_epoch :: "fo_meta \<Rightarrow> int" where
  "leader_epoch m = max 0 (fm_epoch m)"

definition leaders_of :: "string \<Rightarrow> fo_meta \<Rightarrow> discovered_node list \<Rightarrow> discovered_node list" where
  "leaders_of self m nearby =
     sort_key claim_of (filter (\<lambda>n. dn_role n = ''master'' \<and> dn_node n \<in> set (map sn_id (fo_roster m)) \<and> dn_node n \<noteq> self \<and>
       leader_epoch m + 1 \<le> dn_epoch n) nearby)"

fun follow_leaders ::
  "(json \<Rightarrow> string) \<Rightarrow> (discovered_node \<Rightarrow> int option) \<Rightarrow> discovered_node list \<Rightarrow> election \<Rightarrow> election \<times> (string \<times> int) option" where
  "follow_leaders repr probe [] s = (s, None)"
| "follow_leaders repr probe (n # ns) s =
     (case probe n of None \<Rightarrow> follow_leaders repr probe ns s
      | Some epoch \<Rightarrow>
          if epoch < dn_epoch n then follow_leaders repr probe ns s
          else (let s = s\<lparr>el_meta := set_leader repr (dn_node n) epoch (el_meta s)\<rparr>
                in case set_issuer (dn_node n) (el_verifier s) of
                     (v, True) \<Rightarrow> (s\<lparr>el_verifier := v\<rparr>, Some (dn_node n, epoch))
                   | (v, False) \<Rightarrow> follow_leaders repr probe ns s))"

definition visible_members :: "string \<Rightarrow> fo_meta \<Rightarrow> discovered_node list \<Rightarrow> string list" where
  "visible_members self m nearby =
     remdups (self # map dn_node (filter (\<lambda>n. dn_role n = ''slave'' \<and> dn_node n \<in> set (map sn_id (fo_roster m))) nearby))"

definition witnessless :: "string \<Rightarrow> fo_meta \<Rightarrow> discovered_node list \<Rightarrow> real \<Rightarrow> bool" where
  "witnessless self m nearby elapsed \<longleftrightarrow>
     length (fo_roster m) = 2 \<and> visible_members self m nearby = [self] \<and>
     \<not> list_ex (\<lambda>n. dn_role n = ''master'' \<and> dn_node n \<in> set (map sn_id (fo_roster m))) nearby \<and> witnessless_after \<le> elapsed"

text \<open>The visible members of the roster; the order of a Python set is not fixed, but the ranks tell all members apart.\<close>

definition election_candidates :: "string \<Rightarrow> fo_meta \<Rightarrow> discovered_node list \<Rightarrow> slave_node list" where
  "election_candidates self m nearby = filter (\<lambda>n. sn_id n \<in> set (visible_members self m nearby)) (fo_roster m)"

definition election_winner :: "string \<Rightarrow> fo_meta \<Rightarrow> discovered_node list \<Rightarrow> slave_node" where
  "election_winner self m nearby = hd (sort_key (\<lambda>n. election_rank (sn_created n) (sn_id n)) (election_candidates self m nearby))"

text \<open>One turn of \<open>_failover_election_loop\<close>, \<open>elapsed\<close> seconds after it started.\<close>

definition election_step ::
  "(json \<Rightarrow> string) \<Rightarrow> (discovered_node \<Rightarrow> int option) \<Rightarrow> string \<Rightarrow> discovered_node list \<Rightarrow> real \<Rightarrow> election \<Rightarrow> election \<times> election_outcome" where
  "election_step repr probe self nearby elapsed s =
     (if self \<notin> set (map sn_id (fo_roster (el_meta s))) then (s, El_Blocked)
      else (case follow_leaders repr probe (leaders_of self (el_meta s) nearby) s of
              (s, Some (node, epoch)) \<Rightarrow> (s, El_Follow node epoch)
            | (s, None) \<Rightarrow>
                if int (length (visible_members self (el_meta s) nearby)) < quorum_required (int (length (fo_roster (el_meta s)))) \<and>
                   \<not> witnessless self (el_meta s) nearby elapsed
                then (s, El_Wait)
                else (let winner = election_winner self (el_meta s) nearby;
                          epoch = leader_epoch (el_meta s) + 1;
                          s = s\<lparr>el_meta := set_leader repr (sn_id winner) epoch (el_meta s)\<rparr>
                      in if sn_id winner = self then (s, El_Promote epoch)
                         else (case set_issuer (sn_id winner) (el_verifier s) of
                                 (v, True) \<Rightarrow> (s\<lparr>el_verifier := v\<rparr>, El_Elect (sn_id winner) epoch)
                               | (v, False) \<Rightarrow> (s\<lparr>el_verifier := v\<rparr>, El_Died)))))"

section \<open>A master that is superseded\<close>

definition superseding :: "int \<Rightarrow> string \<Rightarrow> int \<Rightarrow> registry \<Rightarrow> discovered_node list \<Rightarrow> discovered_node list" where
  "superseding created self epoch rg nodes =
     sort_key claim_of (filter (\<lambda>n. dn_role n = ''master'' \<and> dn_node n \<noteq> self \<and> registry_get (dn_node n) rg \<noteq> None \<and>
       (epoch < dn_epoch n \<or> dn_epoch n = epoch \<and> election_rank (dn_created n) (dn_node n) < election_rank created self)) nodes)"

text \<open>\<open>_consider_superseding_master\<close> with its probe: the leader to step down for, and its epoch.\<close>

definition consider_superseding ::
  "(discovered_node \<Rightarrow> int option) \<Rightarrow> int \<Rightarrow> string \<Rightarrow> int \<Rightarrow> registry \<Rightarrow> discovered_node list \<Rightarrow> (string \<times> int) option" where
  "consider_superseding probe created self epoch rg nodes =
     (case superseding created self epoch rg nodes of [] \<Rightarrow> None
      | c # _ \<Rightarrow> (case probe c of None \<Rightarrow> None | Some e \<Rightarrow> if dn_epoch c \<le> e \<and> 0 < e then Some (dn_node c, e) else None))"

section \<open>Discovery is bounded\<close>

definition hint_ok :: "discovered_node \<Rightarrow> bool" where
  "hint_ok n \<longleftrightarrow> dn_addresses n \<noteq> [] \<and> dn_role n \<in> set discovery_roles \<and> 1 \<le> dn_port n \<and> dn_port n \<le> 65535 \<and>
     1 \<le> dn_content_port n \<and> dn_content_port n \<le> 65535 \<and> length (dn_node n) \<le> 64 \<and> 0 \<le> dn_created n \<and> 0 \<le> dn_epoch n"

lemma valid_discovery_length: "valid_discovery_id s \<Longrightarrow> length s \<le> 64"
  by (auto simp: valid_discovery_id_def)

lemma discovered_hint: "discovered_of lan name info = Some n \<Longrightarrow> hint_ok n \<and> list_all lan (dn_addresses n)"
  by (clarsimp simp: discovered_of_def Let_def split: option.splits if_split_asm)
    (simp_all add: hint_ok_def valid_discovery_length list_all_iff)

lemma browser_update_bounded:
  assumes "length nodes \<le> max_discovered_nodes" and "\<forall>n \<in> set (dvals nodes). hint_ok n" and "dict_ok nodes"
  shows "length (browser_update lan name info nodes) \<le> max_discovered_nodes \<and>
    (\<forall>n \<in> set (dvals (browser_update lan name info nodes)). hint_ok n) \<and> dict_ok (browser_update lan name info nodes)"
proof -
  have "hint_ok m" if "m \<in> set (dvals (dput name n nodes))" "hint_ok n" for n m
  proof -
    from that(1) obtain k where "(k, m) \<in> set (dput name n nodes)" by auto
    then have "dget (dput name n nodes) k = Some m" using assms(3) by (simp add: dget_set)
    then show ?thesis using that(2) assms(2,3) by (auto simp: dget_put dget_set split: if_splits intro: rev_image_eqI)
  qed
  then show ?thesis
    using assms by (auto simp: browser_update_def length_put bind_eq_Some_conv dest!: discovered_hint split: option.split simp del: set_map)
qed

section \<open>Elections\<close>

lemma set_leader_sel [simp]:
  "fm_roster (set_leader repr node e m) = fm_roster m" "fo_roster (set_leader repr node e m) = fo_roster m"
  "leader_epoch (set_leader repr node e m) = max 0 e"
  by (simp_all add: set_leader_def meta_step_def updated_meta_def no_update_def fo_roster_def leader_epoch_def)

lemma follow_roster [simp]: "fo_roster (el_meta (fst (follow_leaders repr probe ns s))) = fo_roster (el_meta s)"
  by (induction repr probe ns s rule: follow_leaders.induct) (auto simp: Let_def split: option.split prod.split bool.split)

lemma candidates_eq: "fo_roster m = fo_roster m' \<Longrightarrow> election_candidates self m nearby = election_candidates self m' nearby"
  by (simp add: election_candidates_def visible_members_def)

lemma winner_eq: "fo_roster m = fo_roster m' \<Longrightarrow> election_winner self m nearby = election_winner self m' nearby"
  unfolding election_winner_def by (simp only: candidates_eq [of m m'])

lemma promoted_winner:
  assumes "election_step repr probe self nearby elapsed s = (s', El_Promote e)"
  shows "sn_id (election_winner self (el_meta s) nearby) = self \<and> self \<in> set (map sn_id (fo_roster (el_meta s)))"
proof -
  obtain s1 r where f: "follow_leaders repr probe (leaders_of self (el_meta s) nearby) s = (s1, r)" by fastforce
  then have "fo_roster (el_meta s1) = fo_roster (el_meta s)" using follow_roster [of repr probe "leaders_of self (el_meta s) nearby" s] by simp
  then have "election_winner self (el_meta s1) nearby = election_winner self (el_meta s) nearby" by (rule winner_eq)
  moreover have "self \<in> set (map sn_id (fo_roster (el_meta s)))" using assms by (auto simp: election_step_def simp del: set_map split: if_splits)
  moreover from this have "sn_id (election_winner self (el_meta s1) nearby) = self"
    using assms f
    by (cases r) (simp_all add: election_step_def Let_def case_prod_beta split: if_splits bool.splits del: set_map)
  ultimately show ?thesis by simp
qed

definition sees_member :: "discovered_node list \<Rightarrow> string \<Rightarrow> bool" where
  "sees_member nearby node \<longleftrightarrow> list_ex (\<lambda>n. dn_role n = ''slave'' \<and> dn_node n = node) nearby"

lemma visible_set:
  "set (visible_members self m nearby) = insert self {k. k \<in> set (map sn_id (fo_roster m)) \<and> sees_member nearby k}"
proof -
  have "set (visible_members self m nearby) = insert self (dn_node ` {n \<in> set nearby. dn_role n = ''slave'' \<and> dn_node n \<in> set (map sn_id (fo_roster m))})"
    by (simp add: visible_members_def insert_absorb)
  then show ?thesis unfolding sees_member_def list_ex_iff by blast
qed

lemma winner_candidate:
  assumes "self \<in> set (map sn_id (fo_roster m))"
  shows "election_winner self m nearby \<in> set (election_candidates self m nearby)"
proof -
  from assms obtain n where "n \<in> set (fo_roster m)" "sn_id n = self" by auto
  then have "n \<in> set (election_candidates self m nearby)" by (simp add: election_candidates_def visible_set)
  then show ?thesis unfolding election_winner_def by (rule member_rank.first_least(2))
qed

text \<open>C26 (members that see each other do not both take over). Two members with the same roster, each with the other's slave
  advertisement in view, never both promote themselves, whatever else they see and at whatever epochs they are.\<close>

theorem mutual_members_promote_one:
  assumes "election_step repr probe a near_a ta s = (s', El_Promote e)" and "election_step repr' probe' b near_b tb t = (t', El_Promote e')"
    and "fo_roster (el_meta s) = fo_roster (el_meta t)" and "sees_member near_a b" and "sees_member near_b a"
  shows "a = b"
proof -
  let ?m = "el_meta s" and ?m' = "el_meta t"
  have A: "sn_id (election_winner a ?m near_a) = a" "a \<in> set (map sn_id (fo_roster ?m))" using promoted_winner [OF assms(1)] by auto
  have B: "sn_id (election_winner b ?m' near_b) = b" "b \<in> set (map sn_id (fo_roster ?m'))" using promoted_winner [OF assms(2)] by auto
  have "election_winner a ?m near_a \<in> set (election_candidates b ?m' near_b)"
    using winner_candidate [OF A(2), of near_a] A assms(3,5) by (auto simp: election_candidates_def visible_set)
  moreover have "election_winner b ?m' near_b \<in> set (election_candidates a ?m near_a)"
    using winner_candidate [OF B(2), of near_b] B assms(3,4) by (auto simp: election_candidates_def visible_set)
  ultimately have "sn_id (election_winner a ?m near_a) = sn_id (election_winner b ?m' near_b)"
    by (intro member_rank.first_unique [of _ "election_candidates a ?m near_a" _ "election_candidates b ?m' near_b"])
      (auto simp: election_winner_def)
  with A(1) B(1) show ?thesis by simp
qed

text \<open>The turn of a node that sees no leader to follow and enough members.\<close>

definition issuer_ok :: "fo_meta \<Rightarrow> bool" where
  "issuer_ok m \<longleftrightarrow> list_all (\<lambda>n. str_strip (sn_id n) \<noteq> [] \<and> length (sn_id n) \<le> 128) (fo_roster m)"

lemma set_issuer_ok:
  assumes "str_strip node \<noteq> []" and "length node \<le> 128"
  shows "snd (set_issuer node v)"
proof -
  have "length (str_strip node) \<le> length node"
    using length_dropWhile_le [of is_space "rev (dropWhile is_space node)"] length_dropWhile_le [of is_space node] by (simp add: str_strip_def)
  with assms show ?thesis by (auto simp: set_issuer_def set_issuer_node_id_def Let_def split: option.split)
qed

lemma election_decides:
  assumes "self \<in> set (map sn_id (fo_roster m))" and "leaders_of self m nearby = []" and "issuer_ok m" and "el_meta s = m"
    and "quorum_required (int (length (fo_roster m))) \<le> int (length (visible_members self m nearby))"
  shows "snd (election_step repr probe self nearby elapsed s) =
    (if sn_id (election_winner self m nearby) = self then El_Promote (leader_epoch m + 1)
     else El_Elect (sn_id (election_winner self m nearby)) (leader_epoch m + 1))"
proof -
  have "election_winner self m nearby \<in> set (fo_roster m)"
    using winner_candidate [OF assms(1), of nearby] by (simp add: election_candidates_def)
  with assms(3) have "snd (set_issuer (sn_id (election_winner self m nearby)) (el_verifier s))"
    by (intro set_issuer_ok) (auto simp: issuer_ok_def list_all_iff)
  then show ?thesis using assms by (simp add: election_step_def Let_def not_less case_prod_beta split: bool.split prod.split)
qed

text \<open>C25 (a cluster that has lost its master gets exactly one). When a majority of the roster is alive, every living member
  sees the others and no leader, and all are at the same epoch, then in one turn of each of them the oldest promotes
  itself to the next epoch and every other one elects it at that epoch.\<close>

theorem majority_elects_oldest:
  assumes m: "meta_ok m" "issuer_ok m" and L: "L \<noteq> {}" "L \<subseteq> set (map sn_id (fm_roster m))" "quorum_required (int (length (fm_roster m))) \<le> int (card L)"
    and view: "\<And>a b. a \<in> L \<Longrightarrow> b \<in> set (map sn_id (fm_roster m)) \<Longrightarrow> b \<noteq> a \<Longrightarrow> sees_member (near a) b \<longleftrightarrow> b \<in> L"
    and alone: "\<And>a. a \<in> L \<Longrightarrow> leaders_of a m (near a) = []" and same: "\<And>a. a \<in> L \<Longrightarrow> el_meta (st a) = m"
  shows "\<exists>w \<in> set (fm_roster m). sn_id w \<in> L \<and>
    (\<forall>n \<in> set (fm_roster m). sn_id n \<in> L \<longrightarrow> election_rank (sn_created w) (sn_id w) \<le> election_rank (sn_created n) (sn_id n)) \<and>
    (\<forall>a \<in> L. snd (election_step repr probe a (near a) (t a) (st a)) =
      (if a = sn_id w then El_Promote (leader_epoch m + 1) else El_Elect (sn_id w) (leader_epoch m + 1)))"
proof -
  have ro: "fo_roster m = fm_roster m" "roster_ok (fm_roster m)" using m(1) by (simp_all add: meta_ok_def fo_roster_def roster_ok_def)
  then have inj: "a = b" if "a \<in> set (fo_roster m)" "b \<in> set (fo_roster m)" "sn_id a = sn_id b" for a b
    using that by (auto simp: roster_ok_def distinct_map dest: inj_onD)
  have vis: "set (visible_members a m (near a)) = L" if "a \<in> L" for a
    using view [OF that] L(2) that by (auto simp: visible_set ro(1) simp del: set_map)
  have cand: "election_candidates a m (near a) = filter (\<lambda>n. sn_id n \<in> L) (fo_roster m)" if "a \<in> L" for a
    by (simp add: election_candidates_def vis [OF that])
  obtain a0 where a0: "a0 \<in> L" using L(1) by blast
  define w where "w = election_winner a0 m (near a0)"
  have win: "election_winner a m (near a) = w" if "a \<in> L" for a
    by (simp add: w_def election_winner_def cand [OF that] cand [OF a0])
  have wL: "sn_id w \<in> L"
    using winner_candidate [of a0 m "near a0"] L(2) a0 by (auto simp: w_def ro(1) election_candidates_def vis [OF a0])
  have "snd (election_step repr probe a (near a) (t a) (st a)) =
      (if a = sn_id w then El_Promote (leader_epoch m + 1) else El_Elect (sn_id w) (leader_epoch m + 1))" if a: "a \<in> L" for a
  proof -
    have "card L = length (visible_members a m (near a))"
      using vis [OF a] distinct_card [of "visible_members a m (near a)"] by (simp add: visible_members_def)
    then have "quorum_required (int (length (fo_roster m))) \<le> int (length (visible_members a m (near a)))" using L(3) by (simp add: ro(1))
    from election_decides [OF _ alone [OF a] m(2) same [OF a] this, of repr probe "t a"] a L(2) win [OF a]
    show ?thesis by (auto simp: ro(1) simp del: set_map)
  qed
  moreover have "w \<in> set (fm_roster m)"
    using winner_candidate [of a0 m "near a0"] L(2) a0 by (auto simp: w_def ro(1) election_candidates_def)
  moreover have "election_rank (sn_created w) (sn_id w) \<le> election_rank (sn_created n) (sn_id n)" if "n \<in> set (fm_roster m)" "sn_id n \<in> L" for n
    using member_rank.first_least(1) [of n "election_candidates a0 m (near a0)"] that cand [OF a0] by (simp add: w_def election_winner_def ro(1))
  ultimately show ?thesis using wL by blast
qed

definition demo_node :: "string \<Rightarrow> int \<Rightarrow> slave_node" where
  "demo_node node born = \<lparr>sn_id = node, sn_name = node, sn_host = ''h'', sn_port = 9004, sn_serial = 1, sn_online = False, sn_created = born\<rparr>"

definition demo_hint :: "string \<Rightarrow> string \<Rightarrow> int \<Rightarrow> int \<Rightarrow> discovered_node" where
  "demo_hint role node born epoch = \<lparr>dn_instance = node, dn_addresses = [''h''], dn_port = 9000, dn_role = role, dn_window = ''w'',
     dn_content_port = 9004, dn_node = node, dn_name = node, dn_open = False, dn_created = born, dn_epoch = epoch\<rparr>"

definition demo_roster :: "string list \<Rightarrow> fo_meta" where
  "demo_roster ids = empty_meta\<lparr>fm_leader := ''m'', fm_epoch := 3, fm_roster := map (\<lambda>i. demo_node i 100) ids\<rparr>"

lemmas demo_election_defs = demo_node_def demo_hint_def demo_roster_def empty_meta_def

theorem majority_elects_oldest_witness:
  "\<exists>w \<in> {''a'', ''b''}. \<forall>a \<in> {''a'', ''b''}.
     snd (election_step (\<lambda>v. []) (\<lambda>n. None) a (if a = ''a'' then [demo_hint ''slave'' ''b'' 100 0] else [demo_hint ''slave'' ''a'' 100 0]) 0
       \<lparr>el_meta = demo_roster [''m'', ''a'', ''b''], el_verifier = None\<rparr>) = (if a = w then El_Promote 4 else El_Elect w 4)"
proof -
  let ?m = "demo_roster [''m'', ''a'', ''b'']" and ?near = "\<lambda>a. if a = ''a'' then [demo_hint ''slave'' ''b'' 100 0] else [demo_hint ''slave'' ''a'' 100 0]"
  have m: "meta_ok ?m" "issuer_ok ?m"
    by (simp_all add: demo_election_defs meta_ok_def roster_ok_def gens_ok_def dict_ok_def max_cluster_members_def max_slaves_def issuer_ok_def fo_roster_def
        str_strip_def is_space_def code_def)
  let ?st = "\<lambda>a :: string. \<lparr>el_meta = ?m, el_verifier = None\<rparr>"
  have e: "leader_epoch ?m = 3" and ids: "map sn_id (fm_roster ?m) = [''m'', ''a'', ''b'']" by (simp_all add: demo_election_defs leader_epoch_def)
  have len: "length (fm_roster ?m) = 3" using arg_cong [OF ids, of length] by simp
  have L: "{''a'', ''b''} \<noteq> {}" "{''a'', ''b''} \<subseteq> set (map sn_id (fm_roster ?m))" "quorum_required (int (length (fm_roster ?m))) \<le> int (card {''a'', ''b''})"
    by (simp_all only: ids len) (simp_all add: quorum_required_def)
  have view: "sees_member (?near a) b \<longleftrightarrow> b \<in> {''a'', ''b''}" if "a \<in> {''a'', ''b''}" "b \<in> set (map sn_id (fm_roster ?m))" "b \<noteq> a" for a b
    using that(1,3) that(2) [unfolded ids] by (auto simp: sees_member_def demo_hint_def)
  have alone: "leaders_of a ?m (?near a) = []" if "a \<in> {''a'', ''b''}" for a
    using that by (auto simp: leaders_of_def demo_hint_def)
  have same: "el_meta (?st a) = ?m" if "a \<in> {''a'', ''b''}" for a by simp
  show ?thesis
  proof (rule bexE [OF majority_elects_oldest [where repr = "\<lambda>v. []" and probe = "\<lambda>n. None" and t = "\<lambda>_. 0", OF m L view alone same]])
    fix w
    assume w: "sn_id w \<in> {''a'', ''b''} \<and>
      (\<forall>n \<in> set (fm_roster ?m). sn_id n \<in> {''a'', ''b''} \<longrightarrow> election_rank (sn_created w) (sn_id w) \<le> election_rank (sn_created n) (sn_id n)) \<and>
      (\<forall>a \<in> {''a'', ''b''}. snd (election_step (\<lambda>v. []) (\<lambda>n. None) a (?near a) 0 (?st a)) =
        (if a = sn_id w then El_Promote (leader_epoch ?m + 1) else El_Elect (sn_id w) (leader_epoch ?m + 1)))"
    have four: "leader_epoch ?m + 1 = 4" by (simp add: e)
    from w have "sn_id w \<in> {''a'', ''b''}" by (rule conjunct1)
    then show ?thesis by (rule bexI [rotated]) (rule w [THEN conjunct2, THEN conjunct2, unfolded four])
  qed
qed

theorem mutual_members_promote_one_witness:
  "snd (election_step (\<lambda>v. []) (\<lambda>n. None) ''b'' [demo_hint ''slave'' ''a'' 100 0] 0
       \<lparr>el_meta = demo_roster [''m'', ''a'', ''b''], el_verifier = None\<rparr>) \<noteq> El_Promote 4"
proof -
  let ?s = "\<lparr>el_meta = demo_roster [''m'', ''a'', ''b''], el_verifier = None\<rparr>"
  have a: "election_step (\<lambda>v. []) (\<lambda>n. None) ''a'' [demo_hint ''slave'' ''b'' 100 0] 0 ?s =
      (fst (election_step (\<lambda>v. []) (\<lambda>n. None) ''a'' [demo_hint ''slave'' ''b'' 100 0] 0 ?s), El_Promote 4)"
    by (simp add: demo_election_defs election_step_def leaders_of_def fo_roster_def max_cluster_members_def max_slaves_def visible_members_def
        quorum_required_def election_winner_def election_candidates_def election_rank_def leader_epoch_def witnessless_def Let_def code_def)
  have sees: "sees_member [demo_hint ''slave'' ''b'' 100 0] ''b''" "sees_member [demo_hint ''slave'' ''a'' 100 0] ''a''"
    by (simp_all add: sees_member_def demo_hint_def)
  have "''a'' \<noteq> (''b'' :: string)" by simp
  with mutual_members_promote_one [OF a _ refl sees, of "\<lambda>v. []" "\<lambda>n. None" 0] show ?thesis by (metis prod.collapse)
qed

section \<open>What the election does not exclude\<close>

text \<open>Two members that do not see each other can both see a majority of the roster, through the
  same members, and both promote themselves to the same epoch: the quorum counts advertisements, nobody grants a vote.\<close>

theorem two_leaders_one_epoch:
  "snd (election_step repr probe ''a'' [demo_hint ''slave'' ''x'' 200 0, demo_hint ''slave'' ''y'' 200 0] 0
      \<lparr>el_meta = (demo_roster [''m''])\<lparr>fm_roster := [demo_node ''m'' 50, demo_node ''a'' 100, demo_node ''b'' 100, demo_node ''x'' 200, demo_node ''y'' 200]\<rparr>,
       el_verifier = None\<rparr>) = El_Promote 4 \<and>
   snd (election_step repr probe ''b'' [demo_hint ''slave'' ''x'' 200 0, demo_hint ''slave'' ''y'' 200 0] 0
      \<lparr>el_meta = (demo_roster [''m''])\<lparr>fm_roster := [demo_node ''m'' 50, demo_node ''a'' 100, demo_node ''b'' 100, demo_node ''x'' 200, demo_node ''y'' 200]\<rparr>,
       el_verifier = None\<rparr>) = El_Promote 4"
  by (intro conjI) (simp_all add: demo_election_defs election_step_def leaders_of_def fo_roster_def max_cluster_members_def max_slaves_def
    visible_members_def quorum_required_def election_winner_def election_candidates_def election_rank_def leader_epoch_def witnessless_def Let_def code_def)

lemma follow_none: "follow_leaders repr probe ns s = (s', None) \<Longrightarrow> fo_roster (el_meta s') = fo_roster (el_meta s)"
  using follow_roster [of repr probe ns s] by simp

lemma elected_epoch:
  assumes "election_step repr probe self near t s = (s', El_Elect w e)"
  shows "leader_epoch (el_meta s') = e"
  using assms
  by (auto simp: election_step_def Let_def case_prod_beta leader_epoch_def [of "el_meta s"] split: if_splits option.splits bool.splits)
    (auto simp: leader_epoch_def)

text \<open>A member that elects another one records the epoch the new leader will
  announce; from then on a leader is looked for at a later epoch only. While every master in view announces the elected
  epoch, the member never follows one, whatever an authenticated probe would say.\<close>

theorem elected_leader_ignored:
  assumes "election_step repr probe self near t s = (s', El_Elect w e)" and "\<forall>n \<in> set near'. dn_role n = ''master'' \<longrightarrow> dn_epoch n \<le> e"
  shows "snd (election_step repr probe' self near' t' s') \<noteq> El_Follow x y"
proof -
  have "set (leaders_of self (el_meta s') near') = {}"
    using assms(2) elected_epoch [OF assms(1)] by (auto simp: leaders_of_def)
  then have "leaders_of self (el_meta s') near' = []" by (simp only: set_empty)
  then show ?thesis by (auto simp: election_step_def Let_def split: prod.split bool.split)
qed

text \<open>In a cluster of six whose master is gone the members then elect again: here \<open>b\<close>, that has elected \<open>a\<close> at epoch 4 and sees
  it lead at epoch 4, promotes itself to epoch 5.\<close>

definition demo_six :: election where
  "demo_six = \<lparr>el_meta = demo_roster [''m'', ''a'', ''b'', ''c'', ''d'', ''e''], el_verifier = None\<rparr>"

definition demo_view :: "string \<Rightarrow> int \<Rightarrow> discovered_node list" where
  "demo_view role epoch = demo_hint role ''a'' 100 epoch # map (\<lambda>i. demo_hint ''slave'' i 100 0) [''c'', ''d'', ''e'']"

lemma demo_six_elects:
  "election_step repr probe ''b'' (demo_view ''slave'' 0) 0 demo_six =
    (\<lparr>el_meta = set_leader repr ''a'' 4 (el_meta demo_six), el_verifier = None\<rparr>, El_Elect ''a'' 4)"
  by (simp add: demo_six_def demo_view_def demo_election_defs election_step_def leaders_of_def fo_roster_def max_cluster_members_def max_slaves_def
    visible_members_def quorum_required_def election_winner_def election_candidates_def election_rank_def leader_epoch_def set_issuer_def witnessless_def
    Let_def code_def)

lemma demo_six_again:
  "snd (election_step repr probe ''b'' (demo_view ''master'' 4) 10 \<lparr>el_meta = set_leader repr ''a'' 4 (el_meta demo_six), el_verifier = None\<rparr>) = El_Promote 5"
  by (simp add: demo_six_def demo_view_def demo_election_defs election_step_def leaders_of_def fo_roster_def max_cluster_members_def max_slaves_def
    visible_members_def quorum_required_def election_winner_def election_candidates_def election_rank_def leader_epoch_def set_leader_def meta_step_def
    updated_meta_def no_update_def witnessless_def Let_def code_def)

theorem elected_leader_ignored_witness:
  "snd (election_step (\<lambda>v. []) (\<lambda>n. Some 4) ''b'' (demo_view ''master'' 4) 10
      \<lparr>el_meta = set_leader (\<lambda>v. []) ''a'' 4 (el_meta demo_six), el_verifier = None\<rparr>) = El_Promote 5 \<and>
   snd (election_step (\<lambda>v. []) (\<lambda>n. Some 4) ''b'' (demo_view ''master'' 4) 10
      \<lparr>el_meta = set_leader (\<lambda>v. []) ''a'' 4 (el_meta demo_six), el_verifier = None\<rparr>) \<noteq> El_Follow ''a'' 4"
proof -
  have "\<forall>n \<in> set (demo_view ''master'' 4). dn_role n = ''master'' \<longrightarrow> dn_epoch n \<le> 4" by (simp add: demo_view_def demo_hint_def)
  from elected_leader_ignored [OF demo_six_elects this] demo_six_again show ?thesis by blast
qed

section \<open>Two masters\<close>

text \<open>C27 (of two masters one steps down). When two masters of a cluster have each other in their registries and see each
  other's true advertisement, exactly one of them steps down for the other, at the epoch the other announces.\<close>

theorem one_master_steps_down:
  assumes ab: "a \<noteq> b" and reg: "registry_get b rg_a \<noteq> None" "registry_get a rg_b \<noteq> None" and epochs: "0 < ea" "0 < eb"
    and adv: "dn_role na = ''master''" "dn_node na = a" "dn_created na = max 0 ca" "dn_epoch na = ea"
      "dn_role nb = ''master''" "dn_node nb = b" "dn_created nb = max 0 cb" "dn_epoch nb = eb"
    and probes: "probe_a nb = Some eb" "probe_b na = Some ea"
  shows "(consider_superseding probe_a ca a ea rg_a [nb] = Some (b, eb) \<and> consider_superseding probe_b cb b eb rg_b [na] = None) \<or>
    (consider_superseding probe_a ca a ea rg_a [nb] = None \<and> consider_superseding probe_b cb b eb rg_b [na] = Some (a, ea))"
proof -
  have rank: "election_rank (max 0 c) n = election_rank c n" for c n by (simp add: election_rank_def max_def)
  have neq: "election_rank ca a \<noteq> election_rank cb b" using ab election_rank_inj by blast
  have sa: "superseding ca a ea rg_a [nb] = (if ea < eb \<or> eb = ea \<and> election_rank cb b < election_rank ca a then [nb] else [])"
    using adv ab reg(1) by (auto simp: superseding_def rank)
  have sb: "superseding cb b eb rg_b [na] = (if eb < ea \<or> ea = eb \<and> election_rank ca a < election_rank cb b then [na] else [])"
    using adv ab reg(2) by (auto simp: superseding_def rank)
  have "(ea < eb \<or> eb = ea \<and> election_rank cb b < election_rank ca a) \<longleftrightarrow> \<not> (eb < ea \<or> ea = eb \<and> election_rank ca a < election_rank cb b)"
    using neq less_linear [of "election_rank ca a" "election_rank cb b"] by (auto dest: less_not_sym)
  then show ?thesis using epochs probes adv by (auto simp: consider_superseding_def sa sb)
qed

definition demo_peer :: "string \<Rightarrow> registry" where
  "demo_peer node = \<lparr>rg_nodes = [(node, demo_node node 100)], rg_file = None\<rparr>"

theorem one_master_steps_down_witness:
  "consider_superseding (\<lambda>n. Some 4) 90 ''a'' 4 (demo_peer ''b'') [demo_hint ''master'' ''b'' 80 4] = Some (''b'', 4) \<or>
   consider_superseding (\<lambda>n. Some 4) 80 ''b'' 4 (demo_peer ''a'') [demo_hint ''master'' ''a'' 90 4] = Some (''a'', 4)"
proof -
  have neq: "(''a'' :: string) \<noteq> ''b''" by simp
  have reg: "registry_get ''b'' (demo_peer ''b'') \<noteq> None" "registry_get ''a'' (demo_peer ''a'') \<noteq> None"
    by (simp_all add: registry_get_def demo_peer_def)
  show ?thesis
    using one_master_steps_down [OF neq reg, of 4 4 "demo_hint ''master'' ''a'' 90 4" 90 "demo_hint ''master'' ''b'' 80 4" 80 "\<lambda>n. Some 4" "\<lambda>n. Some 4"]
    by (auto simp: demo_hint_def)
qed

section \<open>The first role of an AUTO node\<close>

text \<open>What a node sees of fresh AUTO nodes: each other one with its age, no master, any number of slaves.\<close>

definition sees_autos :: "(string \<times> real) list \<Rightarrow> string \<Rightarrow> discovered_node list \<Rightarrow> bool" where
  "sees_autos company node seen \<longleftrightarrow>
     (\<forall>n \<in> set seen. dn_role n \<noteq> ''master'') \<and>
     (\<lambda>n. (max 0 (dn_created n), dn_node n)) ` {n \<in> set seen. dn_role n = ''auto'' \<and> dn_node n \<noteq> [] \<and> dn_node n \<noteq> node} =
       (\<lambda>(k, c). (max 0 (py_int c), k)) ` {kc \<in> set company. fst kc \<noteq> node}"

lemma auto_role_least:
  assumes "(node, created) \<in> set company" and "distinct (map fst company)" and "sees_autos company node seen"
  shows "choose_auto_role node created seen = ''master'' \<longleftrightarrow>
    (max 0 (py_int created), node) = Min ((\<lambda>(k, c). (max 0 (py_int c), k)) ` set company)"
proof -
  let ?f = "\<lambda>(k, c). (max 0 (py_int c), k)" and ?key = "(max 0 (py_int created), node)"
  let ?autos = "filter (\<lambda>n. dn_role n = ''auto'') (filter (\<lambda>n. dn_node n \<noteq> [] \<and> dn_node n \<noteq> node) seen)"
  have "kc = (node, created)" if "kc \<in> set company" "fst kc = node" for kc
    using eq_key_imp_eq_value [OF assms(2), of node "snd kc" created] that assms(1) by (cases kc) auto
  then have "set company = insert (node, created) {kc \<in> set company. fst kc \<noteq> node}" using assms(1) by blast
  from arg_cong [OF this, of "image ?f"] have all: "?f ` set company = insert ?key (?f ` {kc \<in> set company. fst kc \<noteq> node})" by simp
  have autos: "set (map (\<lambda>n. (max 0 (dn_created n), dn_node n)) ?autos) = ?f ` {kc \<in> set company. fst kc \<noteq> node}"
    using assms(3) by (simp add: sees_autos_def conj_commute conj_left_commute)
  have "\<not> list_ex (\<lambda>n. dn_role n = ''master'') (filter (\<lambda>n. dn_node n \<noteq> [] \<and> dn_node n \<noteq> node) seen)"
    using assms(3) by (auto simp: sees_autos_def list_ex_iff)
  then have role: "choose_auto_role node created seen = (if ?autos \<noteq> [] then
      (if ?key = Min (set (?key # map (\<lambda>n. (max 0 (dn_created n), dn_node n)) ?autos)) then ''master'' else ''slave'') else ''master'')"
    by (simp add: choose_auto_role_def Let_def)
  show ?thesis
  proof (cases "?autos = []")
    case True
    then have "set (map (\<lambda>n. (max 0 (dn_created n), dn_node n)) ?autos) = {}" by (simp only: list.map list.set(1))
    then have "?f ` set company = {?key}" unfolding all autos [symmetric] by simp
    then show ?thesis unfolding role using True by simp
  next
    case False
    then show ?thesis unfolding role all autos [symmetric] by (simp only: list.set(2)) simp
  qed
qed

text \<open>When a group of AUTO installations starts together and each sees the others
  and no master, exactly one of them takes the role of the master.\<close>

theorem auto_role_unique:
  assumes "company \<noteq> []" and "distinct (map fst company)" and "\<forall>(k, c) \<in> set company. sees_autos company k (seen k)"
  shows "\<exists>!kc. kc \<in> set company \<and> choose_auto_role (fst kc) (snd kc) (seen (fst kc)) = ''master''"
proof -
  let ?f = "\<lambda>(k, c). (max 0 (py_int c), k)"
  have role: "choose_auto_role (fst kc) (snd kc) (seen (fst kc)) = ''master'' \<longleftrightarrow> ?f kc = Min (?f ` set company)" if "kc \<in> set company" for kc
    using auto_role_least [of "fst kc" "snd kc" company "seen (fst kc)"] assms(2,3) that by (auto simp: case_prod_beta)
  have "Min (?f ` set company) \<in> ?f ` set company" using assms(1) by (intro Min_in) simp_all
  then obtain kc where kc: "kc \<in> set company" "?f kc = Min (?f ` set company)" by auto
  show ?thesis
  proof (rule ex1I [of _ kc])
    show "kc \<in> set company \<and> choose_auto_role (fst kc) (snd kc) (seen (fst kc)) = ''master''" using kc role by simp
    fix x
    assume x: "x \<in> set company \<and> choose_auto_role (fst x) (snd x) (seen (fst x)) = ''master''"
    then have "?f x = Min (?f ` set company)" using role [of x] by blast
    then have "?f x = ?f kc" using kc(2) by simp
    then have "fst x = fst kc" by (simp add: case_prod_beta)
    with x kc assms(2) show "x = kc" by (metis eq_key_imp_eq_value prod.collapse)
  qed
qed

theorem auto_role_unique_witness:
  "\<exists>!kc. kc \<in> set [(''a'', 20 :: real), (''b'', 10)] \<and>
    choose_auto_role (fst kc) (snd kc) (if fst kc = ''a'' then [demo_hint ''auto'' ''b'' 10 0] else [demo_hint ''auto'' ''a'' 20 0]) = ''master''"
  by (rule auto_role_unique) (auto simp: sees_autos_def demo_hint_def image_def)

end
