(* ===== verification/Cluster_Fallback.thy ===== *)
theory Cluster_Fallback
  imports Py_Json
begin

text \<open>
  The standalone fallback of a linked slave (\<^verbatim>\<open>core/cluster/fallback.py\<close>): when no authenticated master has been heard
  for the timeout, Players are served directly. Every operation returns the new state and the notifications it sends.
  The clock reading is an argument, \<open>urlparse\<close> and \<open>ipaddress\<close> are the parameters \<open>url_parts\<close> and \<open>local_address\<close>; the
  metadata file holds the value it was dumped from. The monitor thread calls \<open>direct_http_enabled\<close> every second.
\<close>

section \<open>The URL of the master\<close>

text \<open>What \<open>urlparse\<close> reports; the port raises \<open>ValueError\<close> (\<open>None\<close>), is absent (\<open>Some None\<close>) or a number.\<close>

record parsed_url =
  pu_scheme :: string
  pu_host :: "string option"
  pu_path :: string
  pu_username :: "string option"
  pu_password :: "string option"
  pu_query :: string
  pu_fragment :: string
  pu_port :: "int option option"

definition nonempty :: "string option \<Rightarrow> bool" where
  "nonempty s \<longleftrightarrow> (case s of None \<Rightarrow> False | Some t \<Rightarrow> t \<noteq> [])"

text \<open>\<open>local_address host\<close>: \<open>None\<close> when the host is no IP address, otherwise whether it is private, link-local or loopback.\<close>

definition validate_master_url :: "(string \<Rightarrow> parsed_url) \<Rightarrow> (string \<Rightarrow> bool option) \<Rightarrow> string \<Rightarrow> string" where
  "validate_master_url url_parts local_address value =
     (let u = url_parts (str_strip value)
      in if pu_scheme u \<noteq> ''http'' \<or> \<not> nonempty (pu_host u) \<or> pu_path u \<notin> set [[], ''/''] then []
         else if nonempty (pu_username u) \<or> nonempty (pu_password u) \<or> pu_query u \<noteq> [] \<or> pu_fragment u \<noteq> [] then []
         else (case pu_port u of
                 Some (Some port) \<Rightarrow>
                   if \<not> (1 \<le> port \<and> port \<le> 65535) then []
                   else (let host = str_lower (the (pu_host u));
                             ok = (case local_address host of None \<Rightarrow> ends_with host ''.local'' | Some b \<Rightarrow> b)
                         in if ok then ''http://'' @ host @ '':'' @ show_int port else [])
               | _ \<Rightarrow> []))"

section \<open>The state\<close>

definition fallback_after :: time where "fallback_after = 70"

record fallback =
  fb_last :: time
  fb_enabled :: bool
  fb_linked :: bool
  fb_meta :: "(string \<times> string) option"

type_synonym fallback_event = "bool \<times> (string \<times> string) option"

definition set_enabled :: "bool \<Rightarrow> fallback \<Rightarrow> fallback \<times> fallback_event list" where
  "set_enabled b fb = (if b = fb_enabled fb then (fb, []) else (fb\<lparr>fb_enabled := b\<rparr>, [(b, fb_meta fb)]))"

definition new_fallback :: "time \<Rightarrow> (string \<times> string) option \<Rightarrow> fallback" where
  "new_fallback now meta = \<lparr>fb_last = now, fb_enabled = False, fb_linked = False, fb_meta = meta\<rparr>"

text \<open>\<open>_load\<close>: the name and URL of the file, when both survive their check.\<close>

definition load_fallback :: "(string \<Rightarrow> parsed_url) \<Rightarrow> (string \<Rightarrow> bool option) \<Rightarrow> (string \<times> string) option \<Rightarrow> (string \<times> string) option" where
  "load_fallback url_parts local_address file =
     (case file of None \<Rightarrow> None
      | Some (name, url) \<Rightarrow>
          (let name = take 128 (str_strip name); url = validate_master_url url_parts local_address url
           in if name \<noteq> [] \<and> url \<noteq> [] then Some (name, url) else None))"

definition arm_linked :: "time \<Rightarrow> fallback \<Rightarrow> fallback \<times> fallback_event list" where
  "arm_linked now fb = set_enabled False (fb\<lparr>fb_linked := True, fb_last := now\<rparr>)"

definition record_master ::
  "(string \<Rightarrow> parsed_url) \<Rightarrow> (string \<Rightarrow> bool option) \<Rightarrow> time \<Rightarrow> string \<Rightarrow> string \<Rightarrow> fallback \<Rightarrow> fallback \<times> fallback_event list" where
  "record_master url_parts local_address now name url fb =
     (let clean_name = take 128 (str_strip name); clean_url = validate_master_url url_parts local_address url;
          fb = fb\<lparr>fb_linked := True, fb_last := now\<rparr>;
          fb = (if clean_name \<noteq> [] \<and> clean_url \<noteq> [] then fb\<lparr>fb_meta := Some (clean_name, clean_url)\<rparr> else fb)
      in set_enabled False fb)"

definition fallback_refresh :: "time \<Rightarrow> fallback \<Rightarrow> (fallback \<times> fallback_event list) \<times> bool" where
  "fallback_refresh now fb =
     (let (fb, es) = set_enabled (fb_linked fb \<and> fallback_after \<le> now - fb_last fb) fb in ((fb, es), fb_enabled fb))"

definition clear_relation :: "fallback \<Rightarrow> fallback \<times> fallback_event list" where
  "clear_relation fb = (let (fb, es) = set_enabled False (fb\<lparr>fb_linked := False\<rparr>) in (fb\<lparr>fb_meta := None\<rparr>, es))"

section \<open>Silence\<close>

datatype fallback_op = FB_Arm time | FB_Master time string string | FB_Query time | FB_Clear

fun fallback_step ::
  "(string \<Rightarrow> parsed_url) \<Rightarrow> (string \<Rightarrow> bool option) \<Rightarrow> fallback_op \<Rightarrow> fallback \<Rightarrow> fallback \<times> fallback_event list" where
  "fallback_step up la (FB_Arm now) fb = arm_linked now fb"
| "fallback_step up la (FB_Master now name url) fb = record_master up la now name url fb"
| "fallback_step up la (FB_Query now) fb = fst (fallback_refresh now fb)"
| "fallback_step up la FB_Clear fb = clear_relation fb"

fun fallback_run ::
  "(string \<Rightarrow> parsed_url) \<Rightarrow> (string \<Rightarrow> bool option) \<Rightarrow> fallback_op list \<Rightarrow> fallback \<Rightarrow> fallback \<times> fallback_event list" where
  "fallback_run up la [] fb = (fb, [])"
| "fallback_run up la (op # ops) fb =
     (let (fb, es) = fallback_step up la op fb; (fb, es') = fallback_run up la ops fb in (fb, es @ es'))"

text \<open>The specification looks at the history alone: when was a master last heard, if the node is linked at all.\<close>

fun last_contact :: "fallback_op list \<Rightarrow> time option \<Rightarrow> time option" where
  "last_contact [] t = t"
| "last_contact (FB_Arm now # ops) t = last_contact ops (Some now)"
| "last_contact (FB_Master now name url # ops) t = last_contact ops (Some now)"
| "last_contact (FB_Query now # ops) t = last_contact ops t"
| "last_contact (FB_Clear # ops) t = last_contact ops None"

definition contact :: "fallback \<Rightarrow> time option" where
  "contact fb = (if fb_linked fb then Some (fb_last fb) else None)"

text \<open>Notifications of a flag alternate, and the last one is its value.\<close>

fun alternating :: "bool \<Rightarrow> bool list \<Rightarrow> bool" where
  "alternating b [] = True"
| "alternating b (b' # bs) = (b' = (\<not> b) \<and> alternating b' bs)"

definition last_state :: "bool \<Rightarrow> bool list \<Rightarrow> bool" where
  "last_state b bs = last (b # bs)"

definition told :: "fallback_event list \<Rightarrow> bool list" where
  "told es = map fst es"

lemma told_simps [simp]: "told [] = []" "told ((b, m) # es) = b # told es" "told (es @ es') = told es @ told es'"
  by (simp_all add: told_def)

lemma set_enabled_sel [simp]:
  "fb_linked (fst (set_enabled b fb)) = fb_linked fb" "fb_last (fst (set_enabled b fb)) = fb_last fb"
  "fb_enabled (fst (set_enabled b fb)) = b" "fb_meta (fst (set_enabled b fb)) = fb_meta fb"
  by (simp_all add: set_enabled_def)

lemma set_enabled_events: "alternating (fb_enabled fb) (told (snd (set_enabled b fb))) \<and> last_state (fb_enabled fb) (told (snd (set_enabled b fb))) = b"
  by (simp add: set_enabled_def last_state_def)

lemma fallback_step_contact: "contact (fst (fallback_step up la op fb)) = last_contact [op] (contact fb)"
  by (cases op) (auto simp: contact_def arm_linked_def record_master_def fallback_refresh_def clear_relation_def Let_def case_prod_beta)

lemma fallback_step_events:
  "alternating (fb_enabled fb) (told (snd (fallback_step up la op fb))) \<and>
   last_state (fb_enabled fb) (told (snd (fallback_step up la op fb))) = fb_enabled (fst (fallback_step up la op fb))"
  using set_enabled_events [of fb] set_enabled_events [of "fb\<lparr>fb_linked := x, fb_last := t\<rparr>" for x t]
    set_enabled_events [of "fb\<lparr>fb_linked := x, fb_last := t, fb_meta := m\<rparr>" for x t m] set_enabled_events [of "fb\<lparr>fb_linked := False\<rparr>"]
  by (cases op) (auto simp: arm_linked_def record_master_def fallback_refresh_def clear_relation_def Let_def case_prod_beta)

lemma alternating_append: "alternating b (es @ es') \<longleftrightarrow> alternating b es \<and> alternating (last_state b es) es'"
  by (induction b es rule: alternating.induct) (auto simp: last_state_def)

lemma last_state_append: "last_state b (es @ es') = last_state (last_state b es) es'"
  by (simp add: last_state_def)

lemma last_contact_Cons: "last_contact (op # ops) t = last_contact ops (last_contact [op] t)"
  by (cases op) simp_all

lemma fallback_run_spec:
  "contact (fst (fallback_run up la ops fb)) = last_contact ops (contact fb) \<and>
   alternating (fb_enabled fb) (told (snd (fallback_run up la ops fb))) \<and>
   last_state (fb_enabled fb) (told (snd (fallback_run up la ops fb))) = fb_enabled (fst (fallback_run up la ops fb))"
proof (induction ops arbitrary: fb)
  case Nil
  then show ?case by (simp add: last_state_def)
next
  case (Cons op ops)
  let ?s = "fallback_step up la op fb"
  from Cons.IH [of "fst ?s"] fallback_step_contact [of up la op fb] fallback_step_events [of fb up la op]
  show ?case by (simp add: Let_def case_prod_beta alternating_append last_state_append last_contact_Cons [of op ops])
qed

text \<open>C28 (fallback follows silence). After any history, Players are served directly exactly when the node is linked and
  the last arming, enrolment or heartbeat is at least seventy seconds ago; the observers were told of every change,
  once, and of nothing else.\<close>

theorem fallback_follows_silence:
  "snd (fallback_refresh now (fst (fallback_run up la ops (new_fallback t meta)))) =
     (case last_contact ops None of None \<Rightarrow> False | Some heard \<Rightarrow> fallback_after \<le> now - heard) \<and>
   alternating False (told (snd (fallback_run up la (ops @ [FB_Query now]) (new_fallback t meta)))) \<and>
   last_state False (told (snd (fallback_run up la (ops @ [FB_Query now]) (new_fallback t meta)))) =
     snd (fallback_refresh now (fst (fallback_run up la ops (new_fallback t meta))))"
proof -
  have run: "fst (fallback_run up la (ops @ [FB_Query now]) fb) = fst (fst (fallback_refresh now (fst (fallback_run up la ops fb))))" for fb
    by (induction ops arbitrary: fb) (simp_all add: Let_def case_prod_beta)
  have e: "snd (fallback_refresh now fb) = fb_enabled (fst (fst (fallback_refresh now fb)))"
    "snd (fallback_refresh now fb) = (case contact fb of None \<Rightarrow> False | Some heard \<Rightarrow> fallback_after \<le> now - heard)" for fb
    by (auto simp: fallback_refresh_def contact_def Let_def case_prod_beta)
  have new: "contact (new_fallback t meta) = None" "fb_enabled (new_fallback t meta) = False" by (simp_all add: contact_def new_fallback_def)
  show ?thesis
    using fallback_run_spec [of up la ops "new_fallback t meta"] fallback_run_spec [of up la "ops @ [FB_Query now]" "new_fallback t meta"]
    by (simp add: new e(1) run) (simp add: e(2) flip: e(1))
qed

end
