(* ===== verification/Cluster_Heartbeat.thy ===== *)
theory Cluster_Heartbeat
  imports Cluster_Election Cluster_Fallback
begin

text \<open>
  The master's view of its slaves (\<open>MasterClusterRuntime\<close> of \<^verbatim>\<open>core/cluster/runtime.py\<close>): the nodes it sees, heartbeats
  with their failure count, back-off and recovery of a moved endpoint, and the removal of a slave. What the network does
  is an argument: the answer to a ping, the outcome of a probe, the confirmation of an unpairing. Callbacks and audit records are
  returned as events; log lines are left out.
\<close>

section \<open>State\<close>

definition heartbeat_interval :: time where "heartbeat_interval = 10"
definition failure_threshold :: nat where "failure_threshold = 3"
definition heartbeat_backoff :: "time list" where "heartbeat_backoff = [15, 30, 60]"

datatype node_state = Reachable | Degraded | Unreachable

datatype master_event = Node_Change string string bool | Relay_Resync string | Audit string string

record bootstrap_target =
  bt_node :: string
  bt_name :: string
  bt_host :: string
  bt_port :: int
  bt_content_port :: int
  bt_window :: string

record master =
  ma_self :: slave_node
  ma_url :: string
  ma_signing :: string
  ma_registry :: registry
  ma_trust :: trust_store
  ma_revocations :: revocations
  ma_failover :: failover
  ma_epoch :: int
  ma_synced :: "(string, string) dict"
  ma_failures :: "(string, nat) dict"
  ma_next :: "(string, time) dict"
  ma_states :: "(string, node_state) dict"
  ma_caps :: "(string, jobj) dict"
  ma_discovered :: "(string \<times> string, bootstrap_target) dict"
  ma_births :: "(string \<times> string, int) dict"
  ma_open :: "(string \<times> string) list"
  ma_nearby :: "(string, discovered_node) dict"
  ma_unpair :: string

abbreviation ma_node :: "master \<Rightarrow> string" where "ma_node ma \<equiv> sn_id (ma_self ma)"

definition failures_of :: "master \<Rightarrow> string \<Rightarrow> nat" where
  "failures_of ma node = (case dget (ma_failures ma) node of None \<Rightarrow> 0 | Some n \<Rightarrow> n)"

definition heartbeat_delay :: "master \<Rightarrow> string \<Rightarrow> time" where
  "heartbeat_delay ma node =
     (let failures = failures_of ma node
      in if failures < failure_threshold then heartbeat_interval
         else heartbeat_backoff ! min (failures - failure_threshold) (length heartbeat_backoff - 1))"

definition node_online :: "string \<Rightarrow> master \<Rightarrow> bool" where
  "node_online node ma = (case registry_get node (ma_registry ma) of None \<Rightarrow> False | Some n \<Rightarrow> sn_online n)"

definition state_of :: "string \<Rightarrow> master \<Rightarrow> node_state" where
  "state_of node ma =
     (case dget (ma_states ma) node of Some s \<Rightarrow> s | None \<Rightarrow> if node_online node ma then Reachable else Unreachable)"

definition node_status :: "string \<Rightarrow> master \<Rightarrow> node_state \<times> nat \<times> jobj option" where
  "node_status node ma = (state_of node ma, failures_of ma node, dget (ma_caps ma) node)"

definition set_heartbeat_state :: "string \<Rightarrow> node_state \<Rightarrow> master \<Rightarrow> master \<times> master_event list" where
  "set_heartbeat_state node s ma =
     (let previous = state_of node ma
      in (ma\<lparr>ma_states := dput node s (ma_states ma)\<rparr>,
          if s = previous then []
          else if s = Reachable then [Audit ''reachable'' node] else if s = Unreachable then [Audit ''unreachable'' node] else []))"

definition media_flags :: "string list" where
  "media_flags = [''ffmpeg'', ''audio_analysis'', ''video_thumbnails'', ''hls_transcoding'']"

definition normalize_media_capabilities :: "json \<Rightarrow> jobj" where
  "normalize_media_capabilities v =
     (case v of
        JObj ob \<Rightarrow>
          if list_ex (\<lambda>k. map_of ob k \<noteq> None) media_flags
          then (''known'', JBool True) # map (\<lambda>k. (k, JBool (jget ob k = JBool True))) media_flags
          else [(''known'', JBool False)]
      | _ \<Rightarrow> [(''known'', JBool False)])"

section \<open>Nearby nodes\<close>

text \<open>One node of \<open>_update_discovered\<close>: a slave with several addresses keeps the last one.\<close>

definition discover_node :: "string \<Rightarrow> discovered_node \<Rightarrow> master \<Rightarrow> master" where
  "discover_node self n ma =
     (if dn_node n = [] \<or> dn_node n = self then ma
      else (let nearby = (case dget (ma_nearby ma) (dn_node n) of
                            None \<Rightarrow> dput (dn_node n) n (ma_nearby ma)
                          | Some e \<Rightarrow> if dn_open n \<and> \<not> dn_open e then dput (dn_node n) n (ma_nearby ma) else ma_nearby ma);
                ma = ma\<lparr>ma_nearby := nearby\<rparr>; key = (dn_node n, dn_window n)
            in if dn_role n \<noteq> ''slave'' then ma
               else (let target = (\<lambda>host. \<lparr>bt_node = dn_node n, bt_name = (if dn_name n = [] then dn_node n else dn_name n), bt_host = host,
                           bt_port = dn_port n, bt_content_port = dn_content_port n, bt_window = dn_window n\<rparr>)
                     in ma\<lparr>ma_discovered := fold (\<lambda>host. dput key (target host)) (dn_addresses n) (ma_discovered ma),
                           ma_births := fold (\<lambda>host. dput key (dn_created n)) (dn_addresses n) (ma_births ma),
                           ma_open := (if dn_open n \<and> key \<notin> set (ma_open ma) then ma_open ma @ [key] else ma_open ma)\<rparr>)))"

definition update_discovered :: "discovered_node list \<Rightarrow> master \<Rightarrow> master" where
  "update_discovered nodes ma =
     fold (discover_node (ma_node ma)) nodes (ma\<lparr>ma_discovered := [], ma_births := [], ma_open := [], ma_nearby := []\<rparr>)"

definition resolve_target :: "string \<Rightarrow> string \<Rightarrow> master \<Rightarrow> bootstrap_target option" where
  "resolve_target node window ma = (if (node, window) \<in> set (ma_open ma) then dget (ma_discovered ma) (node, window) else None)"

text \<open>The loop of \<open>pairing_targets\<close> over the sorted keys, its result sorted by name, and the capacity: maximum, used, available.\<close>

fun target_list :: "master \<Rightarrow> string list \<Rightarrow> (string \<times> string) list \<Rightarrow> (string \<times> string \<times> string) list" where
  "target_list ma seen [] = []"
| "target_list ma seen (key # keys) =
     (case dget (ma_discovered ma) key of
        None \<Rightarrow> target_list ma seen keys
      | Some t \<Rightarrow>
          if bt_node t \<in> set seen \<or> registry_get (bt_node t) (ma_registry ma) \<noteq> None then target_list ma seen keys
          else (bt_node t, bt_name t, bt_window t) # target_list ma (bt_node t # seen) keys)"

definition pairing_targets :: "master \<Rightarrow> (string \<times> string \<times> string) list \<times> int \<times> int \<times> int" where
  "pairing_targets ma =
     (sort_key (\<lambda>(node, name, window). str_lower name) (target_list ma [] (sort_key (\<lambda>k. k) (ma_open ma))),
      int max_slaves, int (length (registry_nodes (ma_registry ma))), max 0 (int max_slaves - int (length (registry_nodes (ma_registry ma)))))"

datatype pairing_refusal = Already_Paired | Limit_Reached | Target_Unavailable | Pairing_Active

text \<open>\<open>begin_pairing\<close> up to the ceremony it starts; \<open>active\<close>: a ceremony that is not closed.\<close>

definition begin_pairing :: "string \<Rightarrow> string \<Rightarrow> bool \<Rightarrow> master \<Rightarrow> pairing_refusal + bootstrap_target \<times> int \<times> int" where
  "begin_pairing node window active ma =
     (if registry_get node (ma_registry ma) \<noteq> None then Inl Already_Paired
      else if max_slaves \<le> length (registry_nodes (ma_registry ma)) then Inl Limit_Reached
      else (case resolve_target node window ma of None \<Rightarrow> Inl Target_Unavailable
            | Some t \<Rightarrow>
                if active then Inl Pairing_Active
                else Inr (t, current_generation (bt_node t) (ma_revocations ma),
                          case dget (ma_births ma) (bt_node t, bt_window t) of None \<Rightarrow> 0 | Some c \<Rightarrow> c)))"

section \<open>Roster and generations\<close>

definition failover_roster :: "master \<Rightarrow> slave_node list" where
  "failover_roster ma = ma_self ma # registry_nodes (ma_registry ma)"

definition generations_snapshot :: "slave_node list \<Rightarrow> master \<Rightarrow> (string, int) dict" where
  "generations_snapshot roster ma = generation_snapshot (Some (filter (\<lambda>i. i \<noteq> []) (map sn_id roster))) (ma_revocations ma)"

definition generations_update :: "slave_node list \<Rightarrow> master \<Rightarrow> meta_update" where
  "generations_update roster ma = no_update\<lparr>mu_generations := Some (JObj (dmap JInt (generations_snapshot roster ma)))\<rparr>"

definition roster_update :: "master \<Rightarrow> meta_update" where
  "roster_update ma =
     (generations_update (failover_roster ma) ma)\<lparr>mu_leader := Some (ma_node ma), mu_epoch := Some (ma_epoch ma),
       mu_roster := Some (map node_json (failover_roster ma))\<rparr>"

section \<open>Heartbeats\<close>

text \<open>What the network does with a request: there is no connection (with the mark of a certificate that has another
  serial number), or there is one, and the answer to a request arrives or does not.\<close>

datatype link = No_Link bool | Link "jobj \<Rightarrow> jobj option"

datatype recovery_probe = Probe_Conflict | Probe_Failed | Probe_Ok int

text \<open>\<open>_recover_discovered\<close> over the sorted candidates: a conflict or a node that is gone ends the search. The outcome
  of a probe is the serial number of the peer, when that is the node and it answered the heartbeat.\<close>

fun recover_from ::
  "(bootstrap_target \<Rightarrow> recovery_probe) \<Rightarrow> slave_node \<Rightarrow> bootstrap_target list \<Rightarrow> registry \<Rightarrow> registry \<times> master_event list \<times> bool" where
  "recover_from probe node [] rg = (rg, [], False)"
| "recover_from probe node (t # ts) rg =
     (if (bt_host t, bt_content_port t) = (sn_host node, sn_port node) then recover_from probe node ts rg
      else (case probe t of
              Probe_Conflict \<Rightarrow> (rg, [Audit ''identity_conflict'' (sn_id node)], False)
            | Probe_Failed \<Rightarrow> recover_from probe node ts rg
            | Probe_Ok serial \<Rightarrow>
                (case update_endpoint (sn_id node) (bt_host t) (bt_content_port t) serial rg of
                   (rg, Inl e) \<Rightarrow> recover_from probe node ts rg
                 | (rg, Inr False) \<Rightarrow> (rg, [], False)
                 | (rg, Inr True) \<Rightarrow> (rg, [Audit ''address_changed'' (sn_id node)], True))))"

definition recover_discovered ::
  "(bootstrap_target \<Rightarrow> recovery_probe) \<Rightarrow> slave_node \<Rightarrow> master \<Rightarrow> master \<times> master_event list \<times> bool" where
  "recover_discovered probe node ma =
     (let candidates = sort_key (\<lambda>t. (bt_window t, bt_host t, bt_content_port t)) (filter (\<lambda>t. bt_node t = sn_id node) (dvals (ma_discovered ma)))
      in case recover_from probe node candidates (ma_registry ma) of (rg, es, ok) \<Rightarrow> (ma\<lparr>ma_registry := rg\<rparr>, es, ok))"

definition master_update :: "(json \<Rightarrow> string) \<Rightarrow> meta_update \<Rightarrow> master \<Rightarrow> master \<times> (fo_error + unit)" where
  "master_update repr u ma = (case update_metadata repr u (ma_failover ma) of (s, r) \<Rightarrow> (ma\<lparr>ma_failover := s\<rparr>, r))"

abbreviation ma_version :: "master \<Rightarrow> string" where "ma_version ma \<equiv> fm_version (fv_meta (ma_failover ma))"

definition ping_request :: "string \<Rightarrow> string \<Rightarrow> master \<Rightarrow> jobj" where
  "ping_request nonce node ma =
     [(''op'', JStr ''PING''), (''nonce'', JStr nonce), (''master_name'', JStr (sn_name (ma_self ma))), (''master_url'', JStr (ma_url ma)),
      (''failover'', JObj
        ([(''authority_version'', JStr (ma_version ma)), (''leader_node_id'', JStr (ma_node ma)), (''leader_epoch'', JInt (ma_epoch ma)),
          (''roster'', JList (map node_json (failover_roster ma))),
          (''ticket_generations'', JObj (dmap JInt (generations_snapshot (failover_roster ma) ma)))] @
         (if dget (ma_synced ma) node \<noteq> Some (ma_version ma) then [(''authority'', JObj (export_bundle (ma_failover ma)))] else [])))]"

text \<open>What a valid reply changes: capabilities, a ticket generation the slave has seen and the master has not, the
  version of the authority it holds.\<close>

definition learn_capabilities :: "string \<Rightarrow> jobj \<Rightarrow> master \<Rightarrow> master" where
  "learn_capabilities node reply ma =
     (case map_of reply ''media_capabilities'' of None \<Rightarrow> ma
      | Some v \<Rightarrow> ma\<lparr>ma_caps := dput node (normalize_media_capabilities v) (ma_caps ma)\<rparr>)"

definition learn_generation :: "(json \<Rightarrow> string) \<Rightarrow> string \<Rightarrow> jobj \<Rightarrow> slave_node list \<Rightarrow> master \<Rightarrow> master \<times> (fo_error + unit)" where
  "learn_generation repr node reply roster ma =
     (case map_of reply ''ticket_generation'' of None \<Rightarrow> (ma, Inr ())
      | Some v \<Rightarrow>
          (let remote = (case to_int v of Inl e \<Rightarrow> - 1 | Inr g \<Rightarrow> max 0 g)
           in if current_generation node (ma_revocations ma) < remote
              then (let ma = ma\<lparr>ma_revocations := fst (synchronize_generation node remote (ma_revocations ma))\<rparr>
                    in master_update repr (generations_update roster ma) ma)
              else (ma, Inr ())))"

definition learn_version :: "string \<Rightarrow> jobj \<Rightarrow> master \<Rightarrow> master" where
  "learn_version node reply ma =
     (if jget reply ''failover_version'' = JStr (ma_version ma)
      then ma\<lparr>ma_synced := dput node (ma_version ma) (ma_synced ma)\<rparr> else ma)"

text \<open>The \<open>try\<close> block: the connection, the update of the metadata, the exchange, the learning; \<open>None\<close> when an exception
  of the listed kinds ends it.\<close>

definition heartbeat_exchange ::
  "(json \<Rightarrow> string) \<Rightarrow> string \<Rightarrow> string \<Rightarrow> (jobj \<Rightarrow> jobj option) \<Rightarrow> master \<Rightarrow> master \<times> bool option" where
  "heartbeat_exchange repr nonce node answer ma =
     (let roster = failover_roster ma
      in case master_update repr (roster_update ma) ma of
           (ma, Inl e) \<Rightarrow> (ma, None)
         | (ma, Inr _) \<Rightarrow>
             (case answer (ping_request nonce node ma) of
                None \<Rightarrow> (ma, None)
              | Some reply \<Rightarrow>
                  if eq_int (jget reply ''status'') 200 \<and> jget reply ''nonce'' = JStr nonce
                  then (case learn_generation repr node reply roster (learn_capabilities node reply ma) of
                          (ma, Inl e) \<Rightarrow> (ma, None)
                        | (ma, Inr _) \<Rightarrow> (learn_version node reply ma, Some True))
                  else (ma, Some False)))"

definition attempt :: "(json \<Rightarrow> string) \<Rightarrow> string \<Rightarrow> string \<Rightarrow> link \<Rightarrow> master \<Rightarrow> master \<times> bool option" where
  "attempt repr nonce node link ma =
     (case registry_get node (ma_registry ma) of None \<Rightarrow> (ma, None)
      | Some n \<Rightarrow> (case link of No_Link conflict \<Rightarrow> (ma, None) | Link answer \<Rightarrow> heartbeat_exchange repr nonce node answer ma))"

definition conflict_event :: "string \<Rightarrow> link \<Rightarrow> master_event list" where
  "conflict_event node link = (case link of No_Link True \<Rightarrow> [Audit ''identity_conflict'' node] | _ \<Rightarrow> [])"

definition heartbeat_online ::
  "(json \<Rightarrow> string) \<Rightarrow> (bootstrap_target \<Rightarrow> recovery_probe) \<Rightarrow> string \<Rightarrow> string \<Rightarrow> link \<Rightarrow> master \<Rightarrow> master \<times> master_event list \<times> bool" where
  "heartbeat_online repr probe nonce node link ma =
     (let entry = registry_get node (ma_registry ma); es = (if entry = None then [] else conflict_event node link)
      in case attempt repr nonce node link ma of
           (ma, Some online) \<Rightarrow> (ma, es, online)
         | (ma, None) \<Rightarrow>
             (case entry of None \<Rightarrow> (ma, es, False)
              | Some n \<Rightarrow>
                  if failures_of ma node < failure_threshold then (ma, es, False)
                  else (case recover_discovered probe n ma of (ma, es', ok) \<Rightarrow> (ma, es @ es', ok))))"

definition record_result :: "string \<Rightarrow> bool \<Rightarrow> master \<Rightarrow> master \<times> master_event list" where
  "record_result node online ma =
     (if online
      then set_heartbeat_state node Reachable
             (ma\<lparr>ma_failures := dput node 0 (ma_failures ma), ma_registry := fst (set_online node True (ma_registry ma))\<rparr>)
      else (let failures = failures_of ma node + 1; ma = ma\<lparr>ma_failures := dput node failures (ma_failures ma)\<rparr>
            in if failure_threshold \<le> failures
               then set_heartbeat_state node Unreachable (ma\<lparr>ma_registry := fst (set_online node False (ma_registry ma))\<rparr>)
               else set_heartbeat_state node Degraded ma))"

definition heartbeat ::
  "(json \<Rightarrow> string) \<Rightarrow> (bootstrap_target \<Rightarrow> recovery_probe) \<Rightarrow> string \<Rightarrow> string \<Rightarrow> link \<Rightarrow> master \<Rightarrow> master \<times> master_event list \<times> bool" where
  "heartbeat repr probe nonce node link ma =
     (let previous = node_online node ma; label = (case registry_get node (ma_registry ma) of None \<Rightarrow> node | Some n \<Rightarrow> sn_name n);
          (ma, es, online) = heartbeat_online repr probe nonce node link ma;
          (ma, es') = record_result node online ma;
          current = node_online node ma
      in (ma, es @ es' @ (if current = previous then [] else Node_Change node label current # (if current then [Relay_Resync node] else [])), online))"

text \<open>One pass of \<open>_heartbeat_loop\<close> at \<open>now\<close>; \<open>net\<close> gives the nonce and the link of a node and the clock afterwards.\<close>

definition prune_heartbeats :: "string list \<Rightarrow> master \<Rightarrow> master" where
  "prune_heartbeats known ma =
     (let gone = filter (\<lambda>k. k \<notin> set known) (dkeys (ma_next ma))
      in ma\<lparr>ma_next := fold dpop gone (ma_next ma), ma_failures := fold dpop gone (ma_failures ma), ma_states := fold dpop gone (ma_states ma)\<rparr>)"

fun heartbeat_nodes ::
  "(json \<Rightarrow> string) \<Rightarrow> (bootstrap_target \<Rightarrow> recovery_probe) \<Rightarrow> (string \<Rightarrow> string \<times> link \<times> time) \<Rightarrow> time \<Rightarrow> string list \<Rightarrow> master \<Rightarrow> master \<times> master_event list" where
  "heartbeat_nodes repr probe net now [] ma = (ma, [])"
| "heartbeat_nodes repr probe net now (k # ks) ma =
     (if now < (case dget (ma_next ma) k of None \<Rightarrow> 0 | Some t \<Rightarrow> t) then heartbeat_nodes repr probe net now ks ma
      else (let (nonce, link, clock) = net k; (ma, es, online) = heartbeat repr probe nonce k link ma;
                ma = ma\<lparr>ma_next := dput k (clock + heartbeat_delay ma k) (ma_next ma)\<rparr>;
                (ma, es') = heartbeat_nodes repr probe net now ks ma
            in (ma, es @ es')))"

definition heartbeat_pass ::
  "(json \<Rightarrow> string) \<Rightarrow> (bootstrap_target \<Rightarrow> recovery_probe) \<Rightarrow> (string \<Rightarrow> string \<times> link \<times> time) \<Rightarrow> time \<Rightarrow> master \<Rightarrow> master \<times> master_event list" where
  "heartbeat_pass repr probe net now ma =
     (let nodes = map sn_id (registry_nodes (ma_registry ma)) in heartbeat_nodes repr probe net now nodes (prune_heartbeats nodes ma))"

section \<open>Removal\<close>

text \<open>What \<open>_connect_to\<close> does before the unpairing: the address cannot be reached (the node goes offline), another peer
  answers, or the node does and may confirm the cleanup. \<open>ensure_master_backup\<close> may raise, after everything else is done.\<close>

datatype unpair_link = Unpair_Failed | Unpair_Stranger | Unpair_Reached bool

definition unpair_contact :: "string \<Rightarrow> unpair_link \<Rightarrow> registry \<Rightarrow> registry" where
  "unpair_contact node link rg =
     (case link of Unpair_Failed \<Rightarrow> fst (set_online node False rg) | Unpair_Stranger \<Rightarrow> rg | Unpair_Reached c \<Rightarrow> fst (set_online node True rg))"

definition forget_node :: "string \<Rightarrow> unpair_link \<Rightarrow> master \<Rightarrow> master" where
  "forget_node node link ma =
     ma\<lparr>ma_failures := dpop node (ma_failures ma), ma_next := dpop node (ma_next ma), ma_states := dpop node (ma_states ma),
        ma_caps := dpop node (ma_caps ma), ma_trust := revoke_peer node (ma_trust ma),
        ma_revocations := fst (revoke_node node (ma_revocations ma)),
        ma_unpair := (if link = Unpair_Reached True then ''cleanup_confirmed'' else ''access_revoked_cleanup_unconfirmed'')\<rparr>"

definition remove_node ::
  "crypto \<Rightarrow> (string \<Rightarrow> string) \<Rightarrow> (json \<Rightarrow> string) \<Rightarrow> string \<Rightarrow> unpair_link \<Rightarrow> master \<Rightarrow> master \<times> master_event list \<times> (fo_error + bool)" where
  "remove_node C sha256 repr node link ma =
     (let (rg, removed) = registry_remove node (unpair_contact node link (ma_registry ma)); ma = ma\<lparr>ma_registry := rg\<rparr>
      in if \<not> removed then (ma, [], Inr False)
         else (let ma = forget_node node link ma
               in case master_backup C sha256 repr (ma_signing ma) (roster_update ma) (ma_failover ma) of
                    (s, Inl e) \<Rightarrow> (ma\<lparr>ma_failover := s\<rparr>, [], Inl e)
                  | (s, Inr _) \<Rightarrow> (ma\<lparr>ma_failover := s, ma_synced := []\<rparr>, [Audit ''unlink'' node], Inr True)))"

section \<open>Failures are counted\<close>

text \<open>The specification of a node's availability sees the outcomes only: consecutive failures and the flag Players see.\<close>

fun availability :: "bool \<Rightarrow> nat \<times> bool \<Rightarrow> nat \<times> bool" where
  "availability True (n, up) = (0, True)"
| "availability False (n, up) = (n + 1, up \<and> n + 1 < failure_threshold)"

definition available :: "string \<Rightarrow> master \<Rightarrow> nat \<times> bool" where
  "available node ma = (failures_of ma node, node_online node ma)"

definition expected_state :: "nat \<Rightarrow> node_state" where
  "expected_state n = (if n = 0 then Reachable else if n < failure_threshold then Degraded else Unreachable)"

definition expected_delay :: "nat \<Rightarrow> time" where
  "expected_delay n = (if n < 3 then 10 else if n = 3 then 15 else if n = 4 then 30 else 60)"

fun heartbeats ::
  "(json \<Rightarrow> string) \<Rightarrow> (bootstrap_target \<Rightarrow> recovery_probe) \<Rightarrow> string \<Rightarrow> (string \<times> link) list \<Rightarrow> master \<Rightarrow> master \<times> master_event list \<times> bool list" where
  "heartbeats repr probe node [] ma = (ma, [], [])"
| "heartbeats repr probe node ((nonce, link) # ls) ma =
     (let (ma, es, b) = heartbeat repr probe nonce node link ma; (ma, es', bs) = heartbeats repr probe node ls ma in (ma, es @ es', b # bs))"

fun node_changes :: "master_event list \<Rightarrow> bool list" where
  "node_changes [] = []"
| "node_changes (Node_Change node name up # es) = up # node_changes es"
| "node_changes (e # es) = node_changes es"

lemma node_changes_append [simp]: "node_changes (es @ es') = node_changes es @ node_changes es'"
  by (induction es rule: node_changes.induct) simp_all

text \<open>What the operations before the bookkeeping leave alone.\<close>

definition same_books :: "string \<Rightarrow> master \<Rightarrow> master \<Rightarrow> bool" where
  "same_books node ma ma' \<longleftrightarrow> ma_failures ma' = ma_failures ma \<and> ma_states ma' = ma_states ma \<and>
     map_option sn_online (registry_get node (ma_registry ma')) = map_option sn_online (registry_get node (ma_registry ma))"

lemma same_books_trans: "same_books node a b \<Longrightarrow> same_books node b c \<Longrightarrow> same_books node a c"
  by (simp add: same_books_def)

lemma same_books_refl [simp]: "same_books node ma ma"
  by (simp add: same_books_def)

lemma master_update_books: "master_update repr u ma = (ma', r) \<Longrightarrow> same_books node ma ma'"
  by (auto simp: master_update_def same_books_def split: prod.splits)

lemma learn_generation_books: "learn_generation repr node reply roster ma = (ma', r) \<Longrightarrow> same_books node ma ma'"
  using master_update_books [of repr _ _ ma' r node]
  by (force simp: learn_generation_def same_books_def Let_def split: option.splits if_splits)

lemma learn_books [simp]: "same_books node ma (learn_capabilities node reply ma)" "same_books node ma (learn_version node reply ma)"
  by (auto simp: learn_capabilities_def learn_version_def same_books_def split: option.splits)

lemma heartbeat_exchange_books: "heartbeat_exchange repr nonce node answer ma = (ma', r) \<Longrightarrow> same_books node ma ma'"
proof -
  assume h: "heartbeat_exchange repr nonce node answer ma = (ma', r)"
  obtain ma1 r1 where u: "master_update repr (roster_update ma) ma = (ma1, r1)" by fastforce
  note b1 = master_update_books [OF u, of node]
  obtain reply where reply: "same_books node ma1 ma' \<or>
      (\<exists>ma2 r2. learn_generation repr node reply (failover_roster ma) (learn_capabilities node reply ma1) = (ma2, r2) \<and>
         (ma' = ma2 \<or> ma' = learn_version node reply ma2))"
    using h u b1 by (auto simp: heartbeat_exchange_def Let_def split: sum.splits option.splits if_splits prod.splits)
  then have "same_books node ma1 ma'"
    using learn_generation_books same_books_trans learn_books by metis
  with b1 show ?thesis by (rule same_books_trans)
qed

lemma recover_from_books:
  "recover_from probe node ts rg = (rg', es, ok) \<Longrightarrow>
    map_option sn_online (registry_get k rg') = map_option sn_online (registry_get k rg) \<and> node_changes es = []"
proof (induction ts arbitrary: rg rg' es ok)
  case Nil
  then show ?case by simp
next
  case (Cons t ts)
  have "map_option sn_online (registry_get k (fst (update_endpoint i h p s rg))) = map_option sn_online (registry_get k rg)" for i h p s
    by (auto simp: update_endpoint_def registry_get_def registry_save_def dget_put Let_def split: option.split)
  then show ?case using Cons by (auto split: if_splits recovery_probe.splits prod.splits sum.splits bool.splits) (metis fst_conv)+
qed

lemma recover_discovered_books:
  "recover_discovered probe n ma = (ma', es, ok) \<Longrightarrow> same_books node ma ma' \<and> node_changes es = []"
  using recover_from_books [of probe n _ "ma_registry ma" _ es ok node]
  by (auto simp: recover_discovered_def same_books_def Let_def split: prod.splits)

lemma attempt_books: "attempt repr nonce node link ma = (ma', r) \<Longrightarrow> same_books node ma ma'"
  using heartbeat_exchange_books [of repr nonce node _ ma ma' r] by (auto simp: attempt_def split: option.splits link.splits)

lemma heartbeat_online_books:
  assumes h: "heartbeat_online repr probe nonce node link ma = (ma', es, online)"
  shows "same_books node ma ma' \<and> node_changes es = []"
proof -
  obtain ma1 r where a: "attempt repr nonce node link ma = (ma1, r)" by fastforce
  have c: "node_changes (conflict_event node link) = []" by (auto simp: conflict_event_def split: link.split bool.split)
  have rd: "same_books node ma1 ma' \<and> node_changes es' = []" if "recover_discovered probe n ma1 = (ma', es', online)" for n es'
    using recover_discovered_books [OF that] .
  have "same_books node ma1 ma' \<and> node_changes es = []"
    using h c rd by (auto simp: heartbeat_online_def a Let_def split: option.splits if_splits prod.splits)
  then show ?thesis using attempt_books [OF a] same_books_trans by blast
qed

lemma available_same: "same_books node ma ma' \<Longrightarrow> available node ma' = available node ma"
  by (auto simp: same_books_def available_def failures_of_def node_online_def split: option.splits)

lemma set_online_get: "registry_get node (fst (set_online k up rg)) =
    (if node = k then map_option (\<lambda>n. n\<lparr>sn_online := up\<rparr>) (registry_get node rg) else registry_get node rg)"
  by (auto simp: set_online_def registry_get_def dget_put split: option.split)

lemma set_heartbeat_state_sel [simp]:
  "ma_failures (fst (set_heartbeat_state node s ma)) = ma_failures ma" "ma_registry (fst (set_heartbeat_state node s ma)) = ma_registry ma"
  "dget (ma_states (fst (set_heartbeat_state node s ma))) node = Some s"
  "node_changes (snd (set_heartbeat_state node s ma)) = []"
  by (simp_all add: set_heartbeat_state_def Let_def dget_put)

lemma record_result_books:
  assumes "registry_get node (ma_registry ma) \<noteq> None"
  shows "available node (fst (record_result node online ma)) = availability online (available node ma) \<and>
    registry_get node (ma_registry (fst (record_result node online ma))) \<noteq> None \<and>
    dget (ma_states (fst (record_result node online ma))) node = Some (expected_state (failures_of (fst (record_result node online ma)) node)) \<and>
    node_changes (snd (record_result node online ma)) = []"
  using assms
  by (cases online) (auto simp: record_result_def Let_def available_def failures_of_def node_online_def set_online_get dget_put expected_state_def
      failure_threshold_def split: option.splits)

lemma heartbeat_books:
  assumes h: "heartbeat repr probe nonce node link ma = (ma', es, online)" and r: "registry_get node (ma_registry ma) \<noteq> None"
  shows "available node ma' = availability online (available node ma) \<and> registry_get node (ma_registry ma') \<noteq> None \<and>
    dget (ma_states ma') node = Some (expected_state (failures_of ma' node)) \<and>
    node_changes es = (if node_online node ma' = node_online node ma then [] else [node_online node ma'])"
proof -
  obtain ma1 es1 where o: "heartbeat_online repr probe nonce node link ma = (ma1, es1, online)"
    using h by (auto simp: heartbeat_def Let_def split: prod.splits)
  obtain ma2 es2 where c: "record_result node online ma1 = (ma2, es2)" by fastforce
  have r1: "registry_get node (ma_registry ma1) \<noteq> None"
    using heartbeat_online_books [OF o] r by (auto simp: same_books_def)
  have "ma' = ma2" using h by (simp add: heartbeat_def Let_def o c)
  moreover have "node_changes es = node_changes es1 @ node_changes es2 @ (if node_online node ma2 = node_online node ma then [] else [node_online node ma2])"
    using h by (auto simp: heartbeat_def Let_def o c)
  ultimately show ?thesis
    using record_result_books [OF r1, of online] heartbeat_online_books [OF o] available_same [of node ma ma1] by (simp add: c)
qed

lemma expected_delay: "heartbeat_delay ma node = expected_delay (failures_of ma node)"
proof -
  consider "failures_of ma node < 3" | "failures_of ma node = 3" | "failures_of ma node = 4" | "5 \<le> failures_of ma node" by linarith
  then show ?thesis
  proof cases
    case 4
    then obtain d where "failures_of ma node = 5 + d" using le_Suc_ex by blast
    then show ?thesis
      by (simp add: heartbeat_delay_def expected_delay_def failure_threshold_def heartbeat_backoff_def heartbeat_interval_def Let_def)
  qed (simp_all add: heartbeat_delay_def expected_delay_def failure_threshold_def heartbeat_backoff_def heartbeat_interval_def Let_def)
qed

text \<open>C29 (availability of a slave). Whatever the network does to the heartbeats of a registered slave, after any series of
  them the number of failures, the flag the Players see, the state shown and the delay until the next heartbeat are
  those of the specification applied to the outcomes: one failure degrades, three in a row make the slave offline,
  one success (also at a new address) resets everything, the delay goes from 10 to 60 seconds. The observers are
  told of every change of the flag, once, and of nothing else.\<close>

theorem heartbeats_track_availability:
  assumes "registry_get node (ma_registry ma) \<noteq> None" and "heartbeats repr probe node ls ma = (ma', es, bs)" and "ls \<noteq> []"
  shows "length bs = length ls \<and> available node ma' = fold availability bs (available node ma) \<and>
    state_of node ma' = expected_state (failures_of ma' node) \<and> heartbeat_delay ma' node = expected_delay (failures_of ma' node) \<and>
    alternating (node_online node ma) (node_changes es) \<and> last_state (node_online node ma) (node_changes es) = node_online node ma'"
proof -
  have run: "length bs = length ls \<and> available node ma' = fold availability bs (available node ma) \<and>
      (ls \<noteq> [] \<longrightarrow> dget (ma_states ma') node = Some (expected_state (failures_of ma' node))) \<and>
      alternating (node_online node ma) (node_changes es) \<and> last_state (node_online node ma) (node_changes es) = node_online node ma'"
    if "registry_get node (ma_registry ma) \<noteq> None" and "heartbeats repr probe node ls ma = (ma', es, bs)" for ls ma ma' es bs
    using that
  proof (induction ls arbitrary: ma es bs)
    case Nil
    then show ?case by (simp add: last_state_def)
  next
    case (Cons l ls)
    obtain nonce link where l: "l = (nonce, link)" by fastforce
    obtain ma1 es1 b where h: "heartbeat repr probe nonce node link ma = (ma1, es1, b)" using prod_cases3 by blast
    obtain es2 bs2 where t: "heartbeats repr probe node ls ma1 = (ma', es2, bs2)" and e: "es = es1 @ es2" "bs = b # bs2"
      using Cons.prems(2) by (auto simp: l h split: prod.splits)
    note hb = heartbeat_books [OF h Cons.prems(1)]
    then have "registry_get node (ma_registry ma1) \<noteq> None" by blast
    note ih = Cons.IH [OF this t]
    have "ls = [] \<Longrightarrow> ma' = ma1" using t by auto
    with hb ih show ?case
      by (cases ls) (auto simp: e alternating_append last_state_append last_state_def)
  qed
  with assms show ?thesis by (simp add: run state_of_def expected_delay)
qed

definition demo_slave_node :: slave_node where
  "demo_slave_node = \<lparr>sn_id = ''s'', sn_name = ''S'', sn_host = ''10.0.0.2'', sn_port = 9004, sn_serial = 2, sn_online = True, sn_created = 5\<rparr>"

definition demo_own :: slave_node where
  "demo_own = \<lparr>sn_id = ''m'', sn_name = ''M'', sn_host = ''10.0.0.1'', sn_port = 9004, sn_serial = 1, sn_online = True, sn_created = 3\<rparr>"

definition demo_cluster :: "slave_node list \<Rightarrow> (string, int) dict \<Rightarrow> failover \<Rightarrow> master" where
  "demo_cluster nodes peers s =
     \<lparr>ma_self = demo_own, ma_url = ''http://10.0.0.1:8000'', ma_signing = replicate 32 (CHR ''x''),
      ma_registry = \<lparr>rg_nodes = map (\<lambda>n. (sn_id n, n)) nodes, rg_file = None\<rparr>,
      ma_trust = \<lparr>ts_ca = ''ca'', ts_peers = peers, ts_file = None\<rparr>,
      ma_revocations = rev_start, ma_failover = s, ma_epoch = 1, ma_synced = [], ma_failures = [], ma_next = [],
      ma_states = [], ma_caps = [], ma_discovered = [], ma_births = [], ma_open = [], ma_nearby = [], ma_unpair = []\<rparr>"

theorem heartbeats_track_availability_witness:
  "\<exists>ma' es. heartbeats (\<lambda>v. []) (\<lambda>t. Probe_Failed) ''s'' (replicate 4 (''n'', No_Link False))
      (demo_cluster [demo_slave_node] [(''s'', 2)] \<lparr>fv_node = new_node, fv_meta = empty_meta\<rparr>) = (ma', es, replicate 4 False) \<and>
    available ''s'' ma' = (4, False) \<and> state_of ''s'' ma' = Unreachable \<and> heartbeat_delay ma' ''s'' = 30 \<and> last_state True (node_changes es) = False"
proof -
  let ?ma = "demo_cluster [demo_slave_node] [(''s'', 2)] \<lparr>fv_node = new_node, fv_meta = empty_meta\<rparr>" and ?ls = "replicate 4 (''n'', No_Link False)"
  have r: "registry_get ''s'' (ma_registry ?ma) \<noteq> None" and a: "available ''s'' ?ma = (0, True)"
    by (simp_all add: demo_cluster_def registry_get_def demo_slave_node_def available_def failures_of_def node_online_def)
  obtain ma' es bs where h: "heartbeats (\<lambda>v. []) (\<lambda>t. Probe_Failed) ''s'' ?ls ?ma = (ma', es, bs)" using prod_cases3 by blast
  have b: "heartbeat_online (\<lambda>v. []) (\<lambda>t. Probe_Failed) n k (No_Link False) ma = (ma, [], False)" if "ma_discovered ma = []" for n k ma
    using that by (simp add: heartbeat_online_def attempt_def conflict_event_def recover_discovered_def Let_def split: option.split)
  have d: "ma_discovered (fst (record_result k v ma)) = ma_discovered ma" for k v ma
    by (auto simp: record_result_def set_heartbeat_state_def Let_def)
  have o: "ma_discovered ma = [] \<Longrightarrow> heartbeat (\<lambda>v. []) (\<lambda>t. Probe_Failed) n k (No_Link False) ma = (ma', es, v) \<Longrightarrow> ma_discovered ma' = [] \<and> \<not> v" for n k ma ma' es v
    using d [of k False ma] by (auto simp: heartbeat_def b Let_def split: prod.splits)
  have "heartbeats (\<lambda>v. []) (\<lambda>t. Probe_Failed) k (replicate n (''n'', No_Link False)) ma = (ma', es, bs) \<Longrightarrow> ma_discovered ma = [] \<Longrightarrow> bs = replicate n False"
    for n k ma ma' es bs
    by (induction n arbitrary: ma es bs) (auto simp: Let_def split: prod.splits dest: o)
  from this [OF h] have bs: "bs = replicate 4 False" by (simp add: demo_cluster_def)
  note t = heartbeats_track_availability [OF r h, unfolded bs a]
  have "available ''s'' ma' = (4, False)"
    using t by (simp add: numeral_eq_Suc failure_threshold_def)
  with t have "available ''s'' ma' = (4, False) \<and> state_of ''s'' ma' = Unreachable \<and> heartbeat_delay ma' ''s'' = 30 \<and> last_state True (node_changes es) = False"
    using a by (simp add: available_def expected_state_def expected_delay_def failure_threshold_def)
  with h bs show ?thesis by blast
qed

section \<open>A removed slave\<close>

lemma set_online_ok:
  assumes ok: "nodes_ok (rg_nodes rg)"
  shows "nodes_ok (rg_nodes (fst (set_online k up rg)))"
proof (cases "dget (rg_nodes rg) k")
  case None
  with ok show ?thesis by (simp add: set_online_def)
next
  case (Some n)
  have "k \<in> set (dkeys (rg_nodes rg))" using Some by (metis dget_None_iff option.distinct(1))
  moreover have "sn_id n = k" "node_ok n" using ok Some by (simp_all add: nodes_ok_def)
  ultimately have "nodes_ok (dput k (n\<lparr>sn_online := up\<rparr>) (rg_nodes rg))"
    using nodes_ok_put [OF ok, of "n\<lparr>sn_online := up\<rparr>" k] by (simp add: node_ok_def)
  with Some show ?thesis by (simp add: set_online_def)
qed

lemma removal_registry:
  assumes ok: "nodes_ok (rg_nodes rg)" and r: "registry_remove node (unpair_contact node link rg) = (rg', removed)"
  shows "nodes_ok (rg_nodes rg') \<and> (removed \<longleftrightarrow> registry_get node rg \<noteq> None) \<and>
    registry_get k rg' = (if k = node then None else registry_get k rg)"
proof -
  let ?rg = "unpair_contact node link rg"
  have c: "nodes_ok (rg_nodes ?rg)" "registry_get k ?rg = None \<longleftrightarrow> registry_get k rg = None" "k \<noteq> node \<Longrightarrow> registry_get k ?rg = registry_get k rg" for k
    using ok by (auto simp: unpair_contact_def set_online_ok set_online_get split: unpair_link.split)
  show ?thesis
  proof (cases "registry_get node ?rg")
    case None
    then have "node \<notin> set (dkeys (rg_nodes ?rg))" by (simp only: registry_get_def dget_None_iff not_False_eq_True)
    with r have "rg' = ?rg" "\<not> removed" by (simp_all only: registry_remove_def if_False prod.inject not_False_eq_True)
    moreover have "registry_get node rg = None" using None c(2) by blast
    ultimately show ?thesis using c(1) c(3) [of k] None by (cases "k = node") simp_all
  next
    case (Some n)
    then have "node \<in> set (dkeys (rg_nodes ?rg))" by (metis registry_get_def dget_None_iff option.distinct(1))
    with r have g: "rg' = registry_save (?rg\<lparr>rg_nodes := dpop node (rg_nodes ?rg)\<rparr>)" "removed" by (simp_all only: registry_remove_def if_True prod.inject)
    have "dict_ok (rg_nodes ?rg)" using c(1) by (simp add: nodes_ok_def)
    moreover have "registry_get node rg \<noteq> None" using Some c(2) by (metis option.distinct(1))
    ultimately show ?thesis
      using c(1) c(3) [of k] g by (cases "k = node") (simp_all add: registry_save_def nodes_ok_pop registry_get_def dget_pop)
  qed
qed

lemma roster_ids:
  assumes "nodes_ok (rg_nodes rg)"
  shows "k \<in> set (map sn_id (registry_nodes rg)) \<longleftrightarrow> registry_get k rg \<noteq> None"
proof -
  have "set (map sn_id (registry_nodes rg)) = set (map sn_id (dvals (rg_nodes rg)))" by (simp add: registry_nodes_def image_image)
  then show ?thesis by (simp only: nodes_ok_keys [OF assms] registry_get_def dget_None_iff not_not)
qed

lemma remove_node_sel:
  assumes "remove_node C sha256 repr node link ma = (ma', es, r)"
    and "registry_remove node (unpair_contact node link (ma_registry ma)) = (rg, True)"
  shows "ma_registry ma' = rg \<and> ma_trust ma' = revoke_peer node (ma_trust ma) \<and> ma_self ma' = ma_self ma \<and>
    ma_revocations ma' = fst (revoke_node node (ma_revocations ma))"
  using assms by (auto simp: remove_node_def Let_def forget_node_def split: prod.splits sum.splits)

text \<open>A removed slave is locked out. Whether or not the slave can be reached, confirms, or the backup of the authority
  fails afterwards: when the removal of a registered slave ends the registry holds all the other slaves and not this
  one, no certificate in its name is accepted any more, tickets for it need a higher generation, and it is no member of
  the roster that every heartbeat distributes.\<close>

theorem removed_node_locked_out:
  assumes "nodes_ok (rg_nodes (ma_registry ma))" and "trust_ok (ma_trust ma)" and "registry_get node (ma_registry ma) \<noteq> None"
    and "node \<noteq> ma_node ma" and "remove_node C sha256 repr node link ma = (ma', es, r)"
  shows "registry_get k (ma_registry ma') = (if k = node then None else registry_get k (ma_registry ma)) \<and>
    authorize_der cert (ma_trust ma') \<noteq> Inr (node, serial) \<and>
    current_generation node (ma_revocations ma') = current_generation node (ma_revocations ma) + 1 \<and>
    node \<notin> set (map sn_id (failover_roster ma'))"
proof -
  obtain rg removed where r: "registry_remove node (unpair_contact node link (ma_registry ma)) = (rg, removed)" by fastforce
  note g = removal_registry [OF assms(1) r]
  then have r: "registry_remove node (unpair_contact node link (ma_registry ma)) = (rg, True)" using assms(3) r by simp
  note m = remove_node_sel [OF assms(5) r]
  have "dget (ts_peers (ma_trust ma')) node = None" using m revoke_peer_get [OF assms(2)] by simp
  then have "authorize_der cert (ma_trust ma') \<noteq> Inr (node, serial)" using authorized_is_trusted by fastforce
  moreover have "current_generation node (ma_revocations ma') = current_generation node (ma_revocations ma) + 1"
    using m by (simp add: revoke_node_def Let_def rev_save_def current_generation_def dget_put)
  moreover have "node \<notin> set (map sn_id (failover_roster ma'))"
    using g m assms(4) roster_ids [of rg node] by (simp add: failover_roster_def del: set_map)
  ultimately show ?thesis using g m by simp
qed

theorem removed_node_locked_out_witness:
  "\<exists>ma' es r. remove_node demo_crypto (\<lambda>t. t) (\<lambda>v. []) ''s'' (Unpair_Reached True)
      (demo_cluster [demo_slave_node] [(''s'', 2)] \<lparr>fv_node = new_node, fv_meta = empty_meta\<rparr>) = (ma', es, r) \<and>
    registry_get ''s'' (ma_registry ma') = None \<and> authorize_der (Some [''urn:netshare:node:s''], 2) (ma_trust ma') \<noteq> Inr (''s'', 2) \<and>
    current_generation ''s'' (ma_revocations ma') = 1 \<and> ''s'' \<notin> set (map sn_id (failover_roster ma'))"
proof -
  let ?ma = "demo_cluster [demo_slave_node] [(''s'', 2)] \<lparr>fv_node = new_node, fv_meta = empty_meta\<rparr>"
  have ok: "nodes_ok (rg_nodes (ma_registry ?ma))" "trust_ok (ma_trust ?ma)" "registry_get ''s'' (ma_registry ?ma) \<noteq> None" "''s'' \<noteq> ma_node ?ma"
    "current_generation ''s'' (ma_revocations ?ma) = 0"
    by (simp_all add: demo_cluster_def demo_slave_node_def demo_own_def nodes_ok_def node_ok_def dict_ok_def max_slaves_def trust_ok_def
        max_trusted_peers_def registry_get_def current_generation_def rev_start_def)
  obtain ma' es r where m: "remove_node demo_crypto (\<lambda>t. t) (\<lambda>v. []) ''s'' (Unpair_Reached True) ?ma = (ma', es, r)"
    using prod_cases3 by blast
  show ?thesis
    using removed_node_locked_out [OF ok(1-4) m, of "''s''" "(Some [''urn:netshare:node:s''], 2)" 2] m ok(5) by auto
qed

end
