(* ===== verification/Cluster_Members.thy ===== *)
theory Cluster_Members
  imports Cluster_Heartbeat
begin

text \<open>
  The slave's side of a heartbeat (\<open>SlaveClusterRuntime\<close> of \<^verbatim>\<open>core/cluster/runtime.py\<close>): what an authenticated PING
  changes in its failover store, trust store, ticket verifier and fallback, the start of its file listener, and leaving
  the cluster. Together with the master's side: a removal reaches the other members with the next heartbeat.
\<close>

section \<open>The state of a slave\<close>

datatype rt_error = Rt_Fo fo_error | Rt_Peer peer_error | Rt_Rev rev_error | Rt_No_Key | Rt_No_Master

text \<open>\<open>sv_trust\<close> is the live store the file listener uses; what it saves is the file of the node.\<close>

record slave_rt =
  sv_node :: string
  sv_failover :: failover
  sv_trust :: "trust_store option"
  sv_verifier :: "verifier option"
  sv_fallback :: fallback

definition set_trust :: "trust_store \<Rightarrow> slave_rt \<Rightarrow> slave_rt" where
  "set_trust ts sv = sv\<lparr>sv_trust := Some ts,
     sv_failover := (sv_failover sv)\<lparr>fv_node := (fv_node (sv_failover sv))\<lparr>cn_trusted := ts_file ts\<rparr>\<rparr>\<rparr>"

definition open_trust :: "crypto \<Rightarrow> slave_rt \<Rightarrow> rt_error + trust_store" where
  "open_trust C sv =
     (case load_identity C (fv_node (sv_failover sv)) of Inl e \<Rightarrow> Inl (Rt_Fo (Fo_Id e))
      | Inr identity \<Rightarrow> (case trust_load (ci_fingerprint identity) (cn_trusted (fv_node (sv_failover sv))) of
           Inl e \<Rightarrow> Inl (Rt_Peer e) | Inr ts \<Rightarrow> Inr ts))"

definition sync_trust :: "trust_store \<Rightarrow> slave_rt \<Rightarrow> slave_rt \<times> (rt_error + unit)" where
  "sync_trust ts sv =
     (case sync_trust_store (sv_node sv) (fv_meta (sv_failover sv)) ts of
        (ts, Inl e) \<Rightarrow> (set_trust ts sv, Inl (Rt_Fo (Fo_Py e))) | (ts, Inr _) \<Rightarrow> (set_trust ts sv, Inr ()))"

section \<open>A heartbeat arrives\<close>

definition text_or :: "(json \<Rightarrow> string) \<Rightarrow> json \<Rightarrow> string \<Rightarrow> string" where
  "text_or repr v dflt = (if truthy v then to_str repr v else dflt)"

definition heartbeat_update :: "(json \<Rightarrow> string) \<Rightarrow> jobj \<Rightarrow> string \<Rightarrow> py_error + meta_update" where
  "heartbeat_update repr payload peer =
     (case (let e = jget_or payload ''leader_epoch'' (JInt 0) in if truthy e then to_int e else Inr 0) of Inl e \<Rightarrow> Inl e
      | Inr epoch \<Rightarrow>
          Inr (no_update\<lparr>mu_leader := Some (text_or repr (jget payload ''leader_node_id'') peer), mu_epoch := Some (max 0 epoch),
            mu_roster := Some (case jget payload ''roster'' of JList vs \<Rightarrow> vs | _ \<Rightarrow> []),
            mu_generations := (case jget payload ''ticket_generations'' of JObj g \<Rightarrow> Some (JObj g) | _ \<Rightarrow> None)\<rparr>))"

definition store_failover :: "crypto \<Rightarrow> (json \<Rightarrow> string) \<Rightarrow> jobj \<Rightarrow> meta_update \<Rightarrow> failover \<Rightarrow> failover \<times> (fo_error + unit)" where
  "store_failover C repr payload u s =
     (case jget payload ''authority'' of
        JObj (x # xs) \<Rightarrow> import_bundle C repr (JObj (x # xs)) u s
      | _ \<Rightarrow> update_metadata repr (u\<lparr>mu_version := Some (text_or repr (jget payload ''authority_version'') (fm_version (fv_meta s)))\<rparr>) s)"

text \<open>The failover payload: metadata (and keys), the trust of the live listener, the issuer of tickets.\<close>

definition apply_failover :: "crypto \<Rightarrow> (json \<Rightarrow> string) \<Rightarrow> jobj \<Rightarrow> string \<Rightarrow> slave_rt \<Rightarrow> slave_rt \<times> (rt_error + unit)" where
  "apply_failover C repr payload peer sv =
     (case heartbeat_update repr payload peer of Inl e \<Rightarrow> (sv, Inl (Rt_Fo (Fo_Py e)))
      | Inr u \<Rightarrow>
          (case store_failover C repr payload u (sv_failover sv) of
             (s, Inl e) \<Rightarrow> (sv\<lparr>sv_failover := s\<rparr>, Inl (Rt_Fo e))
           | (s, Inr _) \<Rightarrow>
               (let sv = sv\<lparr>sv_failover := s\<rparr>
                in case (case sv_trust sv of Some ts \<Rightarrow> Inr ts | None \<Rightarrow> open_trust C sv) of
                     Inl e \<Rightarrow> (sv, Inl e)
                   | Inr ts \<Rightarrow>
                       (case sync_trust ts sv of (sv, Inl e) \<Rightarrow> (sv, Inl e)
                        | (sv, Inr _) \<Rightarrow>
                            if (case sv_verifier sv of None \<Rightarrow> False | Some vf \<Rightarrow> vf_issuer vf = peer)
                            then (case set_issuer (the (mu_leader u)) (sv_verifier sv) of
                                    (v, False) \<Rightarrow> (sv, Inl (Rt_Fo (Fo_Py Value_Error)))
                                  | (v, True) \<Rightarrow> (sv\<lparr>sv_verifier := v\<rparr>, Inr ()))
                            else (sv, Inr ())))))"

definition record_heartbeat ::
  "crypto \<Rightarrow> (json \<Rightarrow> string) \<Rightarrow> (string \<Rightarrow> parsed_url) \<Rightarrow> (string \<Rightarrow> bool option) \<Rightarrow> jobj \<Rightarrow> time \<Rightarrow> jobj \<Rightarrow> string \<Rightarrow>
    slave_rt \<Rightarrow> slave_rt \<times> fallback_event list \<times> (rt_error + jobj)" where
  "record_heartbeat C repr up la caps now req peer sv =
     (case (case jget req ''failover'' of JObj payload \<Rightarrow> apply_failover C repr payload peer sv | _ \<Rightarrow> (sv, Inr ())) of
        (sv, Inl e) \<Rightarrow> (sv, [], Inl e)
      | (sv, Inr _) \<Rightarrow>
          (let (fb, es) = record_master up la now (to_str repr (jget_or req ''master_name'' (JStr [])))
                 (to_str repr (jget_or req ''master_url'' (JStr []))) (sv_fallback sv);
               sv = sv\<lparr>sv_fallback := fb\<rparr>;
               generation = (case sv_verifier sv of None \<Rightarrow> 0 | Some vf \<Rightarrow> current_generation (sv_node sv) (vf_revocations vf))
           in (sv, es, Inr [(''failover_version'', JStr (fm_version (fv_meta (sv_failover sv)))), (''ticket_generation'', JInt generation),
                 (''media_capabilities'', JObj caps)])))"

text \<open>PING as the protocol answers it; an exception closes the connection without an answer.\<close>

definition ping_answer ::
  "crypto \<Rightarrow> (json \<Rightarrow> string) \<Rightarrow> (string \<Rightarrow> parsed_url) \<Rightarrow> (string \<Rightarrow> bool option) \<Rightarrow> jobj \<Rightarrow> time \<Rightarrow> string \<Rightarrow> slave_rt \<Rightarrow> jobj \<Rightarrow>
    slave_rt \<times> jobj option" where
  "ping_answer C repr up la caps now peer sv req =
     (let nonce = to_str repr (jget_or req ''nonce'' (JStr []))
      in if nonce = [] \<or> 64 < length nonce then (sv, None)
         else (case record_heartbeat C repr up la caps now req peer sv of
                 (sv, es, Inl e) \<Rightarrow> (sv, None)
               | (sv, es, Inr extra) \<Rightarrow> (sv, Some (fold (\<lambda>(k, v). dput k v) extra [(''nonce'', JStr nonce), (''status'', JInt 200)]))))"

section \<open>Start and end\<close>

definition ticket_issuer :: "slave_rt \<Rightarrow> trust_store \<Rightarrow> string" where
  "ticket_issuer sv ts =
     (let issuer = fm_leader (fv_meta (sv_failover sv))
      in if issuer = [] \<or> issuer = sv_node sv
         then (case filter (\<lambda>k. k \<noteq> sv_node sv) (trusted_ids ts) of [] \<Rightarrow> [] | k # ks \<Rightarrow> k)
         else issuer)"

definition start_file_listener :: "crypto \<Rightarrow> (json \<Rightarrow> string) \<Rightarrow> time \<Rightarrow> slave_rt \<Rightarrow> slave_rt \<times> (rt_error + unit)" where
  "start_file_listener C repr now sv =
     (case load_identity C (fv_node (sv_failover sv)) of Inl e \<Rightarrow> (sv, Inl (Rt_Fo (Fo_Id e)))
      | Inr identity \<Rightarrow>
          (case open_trust C sv of Inl e \<Rightarrow> (sv, Inl e)
           | Inr ts \<Rightarrow>
               (case sync_trust ts sv of
                  (sv', Inl e) \<Rightarrow> (sv'\<lparr>sv_trust := sv_trust sv\<rparr>, Inl e)
                | (sv, Inr _) \<Rightarrow>
                    (let n = fv_node (sv_failover sv)
                     in case cn_signing_public n of None \<Rightarrow> (sv, Inl Rt_No_Key)
                        | Some key \<Rightarrow>
                            (case rev_load repr now True (cn_revocations n) of Inl e \<Rightarrow> (sv, Inl (Rt_Rev e))
                             | Inr rv \<Rightarrow>
                                 (let issuer = ticket_issuer sv (the (sv_trust sv))
                                  in if issuer = [] then (sv, Inl Rt_No_Master)
                                     else (sv\<lparr>sv_verifier := Some \<lparr>vf_cluster = ci_cluster identity, vf_issuer = issuer, vf_revocations = rv\<rparr>\<rparr>,
                                           Inr ())))))))"

definition slave_direct_http :: "time \<Rightarrow> slave_rt \<Rightarrow> slave_rt \<times> fallback_event list \<times> bool" where
  "slave_direct_http now sv =
     (if slave_exists (fv_node (sv_failover sv))
      then (let ((fb, es), enabled) = fallback_refresh now (sv_fallback sv) in (sv\<lparr>sv_fallback := fb\<rparr>, es, enabled))
      else (sv, [], False))"

definition unpair_local :: "slave_rt \<Rightarrow> slave_rt \<times> fallback_event list \<times> (rt_error + unit)" where
  "unpair_local sv =
     (let (fb, es) = clear_relation (sv_fallback sv); s = failover_clear (sv_failover sv)
      in case delete_joined_identity (fv_node s) of
           (n, r) \<Rightarrow> (sv\<lparr>sv_trust := None, sv_fallback := fb, sv_failover := s\<lparr>fv_node := n\<rparr>\<rparr>, es,
                      case r of Inl e \<Rightarrow> Inl (Rt_Fo (Fo_Id e)) | Inr _ \<Rightarrow> Inr ()))"

section \<open>A roster arrives as it was sent\<close>

text \<open>What the receiver makes of a member: offline, with a birth that is not negative.\<close>

definition received :: "slave_node \<Rightarrow> slave_node" where
  "received n = n\<lparr>sn_online := False, sn_created := max 0 (sn_created n)\<rparr>"

lemma received_sel [simp]: "sn_id (received n) = sn_id n" "sn_serial (received n) = sn_serial n"
  by (simp_all add: received_def)

lemma clean_sent_roster:
  "distinct (map sn_id ns) \<Longrightarrow> set (map sn_id ns) \<inter> set seen = {} \<Longrightarrow> [] \<notin> set (map sn_id ns) \<Longrightarrow>
    clean_roster repr seen (map node_json ns) = Inr (map received ns)"
proof (induction ns arbitrary: seen)
  case Nil
  then show ?case by simp
next
  case (Cons n ns)
  have n: "node_from_dict repr (node_json n) = Inr (received n)"
    by (cases n) (auto simp: node_from_dict_def node_json_def jitem_def int_item_def jget_or_def Let_def max_def received_def)
  have "clean_roster repr (sn_id n # seen) (map node_json ns) = Inr (map received ns)"
    using Cons.prems by (intro Cons.IH) auto
  with n Cons.prems(2,3) show ?case by auto
qed

lemma merge_sent: "\<exists>d. merge_tickets existing allowed (dmap JInt g) merged = Inr d"
  by (induction g arbitrary: merged) (auto simp: dmap_def Let_def split: option.split)

definition sent_roster :: "slave_node list \<Rightarrow> bool" where
  "sent_roster ns \<longleftrightarrow> distinct (map sn_id ns) \<and> [] \<notin> set (map sn_id ns) \<and> length ns \<le> max_cluster_members"

lemma updated_sent:
  assumes ns: "sent_roster ns" and u: "mu_roster u = Some (map node_json ns)" "mu_generations u = Some (JObj (dmap JInt g))"
  shows "\<exists>m'. updated_meta repr u m = Inr m' \<and> fm_roster m' = map received ns"
proof -
  have c: "clean_roster repr [] (take max_cluster_members (map node_json ns)) = Inr (map received ns)"
    using ns by (simp add: sent_roster_def clean_sent_roster take_map)
  have "\<exists>gens. merged_generations m (map received ns) (JObj (dmap JInt g)) = Inr gens"
  proof -
    let ?allowed = "if map received ns = [] then None else Some (filter (\<lambda>i. i \<noteq> []) (map sn_id (map received ns)))"
    obtain d where "merge_tickets (ticket_generations m) ?allowed (dmap JInt g) [] = Inr d" using merge_sent by blast
    then show ?thesis by (simp only: merged_generations_def json.case Let_def sum.case) blast
  qed
  then obtain gens where "merged_generations m (map received ns) (JObj (dmap JInt g)) = Inr gens" by blast
  with c u show ?thesis by (simp add: updated_meta_def Let_def)
qed

section \<open>A removal reaches the members\<close>

text \<open>The state of a running master: at most five slaves, none of them itself, and identities that fit a certificate.\<close>

definition master_ok :: "master \<Rightarrow> bool" where
  "master_ok ma \<longleftrightarrow> nodes_ok (rg_nodes (ma_registry ma)) \<and> trust_ok (ma_trust ma) \<and> registry_get (ma_node ma) (ma_registry ma) = None \<and>
     peers_ok (failover_roster ma) \<and> str_strip (ma_node ma) \<noteq> []"

lemma registry_nodes_set:
  assumes ok: "nodes_ok (rg_nodes rg)"
  shows "n \<in> set (registry_nodes rg) \<longleftrightarrow> registry_get (sn_id n) rg = Some n"
proof -
  have "n \<in> set (registry_nodes rg) \<longleftrightarrow> (\<exists>k. (k, n) \<in> set (rg_nodes rg))"
    by (force simp: registry_nodes_def)
  also have "\<dots> \<longleftrightarrow> (\<exists>k. dget (rg_nodes rg) k = Some n)"
    using ok dget_set [of "rg_nodes rg"] by (simp add: nodes_ok_def)
  finally show ?thesis using ok by (auto simp: nodes_ok_def registry_get_def)
qed

lemma distinct_map_sort: "distinct (map f (sort_key g xs)) \<longleftrightarrow> distinct (map f xs)"
  by (simp add: distinct_map)

lemma registry_nodes_length: "length (registry_nodes rg) = length (rg_nodes rg)"
  by (simp add: registry_nodes_def)

lemma master_roster_ok:
  assumes "master_ok ma"
  shows "sent_roster (failover_roster ma)"
proof -
  have ok: "nodes_ok (rg_nodes (ma_registry ma))" using assms by (simp add: master_ok_def)
  have "distinct (dkeys (rg_nodes (ma_registry ma)))" using ok by (simp add: nodes_ok_def dict_ok_def)
  then have "distinct (map sn_id (dvals (rg_nodes (ma_registry ma))))" by (simp only: nodes_ok_keys [OF ok])
  then have d: "distinct (map sn_id (registry_nodes (ma_registry ma)))"
    by (simp only: registry_nodes_def distinct_map_sort)
  moreover have "ma_node ma \<notin> set (map sn_id (registry_nodes (ma_registry ma)))"
    using assms roster_ids [OF ok] by (simp only: master_ok_def not_True_eq_False simp_thms)
  moreover have "[] \<notin> set (map sn_id (registry_nodes (ma_registry ma)))"
    using ok roster_ids [OF ok, of "[]"] by (auto simp: nodes_ok_def node_ok_def registry_get_def)
  moreover have "length (registry_nodes (ma_registry ma)) \<le> 5"
    using ok by (simp add: registry_nodes_length nodes_ok_def max_slaves_def)
  ultimately show ?thesis
    using assms str_strip_Nil by (auto simp: sent_roster_def failover_roster_def master_ok_def max_cluster_members_def max_slaves_def)
qed

definition sent_update :: "master \<Rightarrow> meta_update" where
  "sent_update ma = no_update\<lparr>mu_leader := Some (ma_node ma), mu_epoch := Some (max 0 (ma_epoch ma)),
     mu_roster := Some (map node_json (failover_roster ma)),
     mu_generations := Some (JObj (dmap JInt (generations_snapshot (failover_roster ma) ma)))\<rparr>"

definition sent_payload :: "string \<Rightarrow> master \<Rightarrow> jobj" where
  "sent_payload node ma = (case jget (ping_request [] node ma) ''failover'' of JObj p \<Rightarrow> p | _ \<Rightarrow> [])"

lemma ping_request_parts:
  "jget (ping_request nonce node ma) ''failover'' = JObj (sent_payload node ma)"
  "jget_or (ping_request nonce node ma) ''nonce'' (JStr []) = JStr nonce"
  "jget (sent_payload node ma) ''authority_version'' = JStr (ma_version ma)"
  "jget (sent_payload node ma) ''authority'' =
     (if dget (ma_synced ma) node \<noteq> Some (ma_version ma) then JObj (export_bundle (ma_failover ma)) else JNull)"
  by (simp_all add: ping_request_def sent_payload_def jget_def jget_or_def)

lemma heartbeat_update_sent: "ma_node ma \<noteq> [] \<Longrightarrow> heartbeat_update repr (sent_payload node ma) peer = Inr (sent_update ma)"
  by (simp add: heartbeat_update_def sent_payload_def ping_request_def jget_def jget_or_def text_or_def sent_update_def Let_def)

text \<open>A member that stored the payload accepts exactly the certificates of the roster it was sent.\<close>

lemma synced_trust:
  assumes "meta_ok m" and "fm_roster m = map received ns" and "peers_ok ns" and "ns \<noteq> []" and "trust_ok ts"
  shows "\<exists>ts'. sync_trust_store local m ts = (ts', Inr ()) \<and> trust_ok ts' \<and>
    (\<forall>k s. dget (ts_peers ts') k = Some s \<longleftrightarrow> k \<noteq> local \<and> (\<exists>n \<in> set ns. sn_id n = k \<and> sn_serial n = s))"
  using sync_trust_get [of m ts local] assms by (simp add: peers_ok_def list_all_iff)

lemma authorize_iff:
  "authorize_der cert ts = Inr (node, serial) \<longleftrightarrow> certified_names cert = [node] \<and> serial = snd cert \<and> dget (ts_peers ts) node = Some serial"
  by (auto simp: authorize_der_def certified_names_def split: option.split list.split)

lemma applied_failover:
  assumes ma: "master_ok ma" and ts: "sv_trust sv = Some ts" "trust_ok ts"
    and st: "store_failover C repr (sent_payload node ma) (sent_update ma) (sv_failover sv) = (s, Inr ())" "meta_ok (fv_meta s)"
      "fm_roster (fv_meta s) = map received (failover_roster ma)"
  shows "\<exists>sv' ts'. apply_failover C repr (sent_payload node ma) peer sv = (sv', Inr ()) \<and> sv_trust sv' = Some ts' \<and>
    fv_meta (sv_failover sv') = fv_meta s \<and> failover_ready (sv_failover sv') = failover_ready s \<and>
    (\<forall>k s. dget (ts_peers ts') k = Some s \<longleftrightarrow> k \<noteq> sv_node sv \<and> (\<exists>n \<in> set (failover_roster ma). sn_id n = k \<and> sn_serial n = s))"
proof -
  have l: "str_strip (ma_node ma) \<noteq> []" "ma_node ma \<noteq> []" "length (ma_node ma) \<le> 128" "failover_roster ma \<noteq> []"
    using ma by (auto simp: master_ok_def peers_ok_def failover_roster_def)
  have p: "peers_ok (failover_roster ma)" using ma by (simp add: master_ok_def)
  obtain ts' where ts': "sync_trust_store (sv_node sv) (fv_meta s) ts = (ts', Inr ())"
    "\<forall>k s. dget (ts_peers ts') k = Some s \<longleftrightarrow> k \<noteq> sv_node sv \<and> (\<exists>n \<in> set (failover_roster ma). sn_id n = k \<and> sn_serial n = s)"
    using synced_trust [OF st(2,3) _ l(4) ts(2), of "sv_node sv"] p by blast
  obtain v where v: "set_issuer (ma_node ma) (sv_verifier sv) = (v, True)"
    using set_issuer_ok [OF l(1,3), of "sv_verifier sv"] by (metis prod.collapse)
  let ?sv = "set_trust ts' (sv\<lparr>sv_failover := s\<rparr>)"
  have "sync_trust ts (sv\<lparr>sv_failover := s\<rparr>) = (?sv, Inr ())" by (simp add: sync_trust_def ts'(1))
  moreover have "sv_trust ?sv = Some ts'" "fv_meta (sv_failover ?sv) = fv_meta s" "failover_ready (sv_failover ?sv) = failover_ready s" "sv_verifier ?sv = sv_verifier sv"
    by (simp_all add: set_trust_def failover_ready_def backend_load_def)
  moreover have "the (mu_leader (sent_update ma)) = ma_node ma" by (simp add: sent_update_def)
  ultimately have "apply_failover C repr (sent_payload node ma) peer sv =
      (if (case sv_verifier sv of None \<Rightarrow> False | Some vf \<Rightarrow> vf_issuer vf = peer) then (?sv\<lparr>sv_verifier := v\<rparr>, Inr ()) else (?sv, Inr ()))"
    using l(2) by (simp add: apply_failover_def heartbeat_update_sent st(1) ts(1) v)
  with ts'(2) show ?thesis by (auto simp: set_trust_def failover_ready_def backend_load_def)
qed

lemma forget_node_ok:
  assumes ma: "master_ok ma" and m: "node \<noteq> ma_node ma"
    and r: "registry_remove node (unpair_contact node link (ma_registry ma)) = (rg, removed)"
    and x: "ma_registry x = rg" "ma_self x = ma_self ma" "ma_trust x = revoke_peer node (ma_trust ma)"
  shows "master_ok x \<and> (\<forall>n. n \<in> set (failover_roster x) \<longleftrightarrow> n \<in> set (failover_roster ma) \<and> sn_id n \<noteq> node)"
proof -
  have ok: "nodes_ok (rg_nodes (ma_registry ma))" "registry_get (ma_node ma) (ma_registry ma) = None" using ma by (simp_all add: master_ok_def)
  note g = removal_registry [OF ok(1) r]
  have ros: "n \<in> set (failover_roster x) \<longleftrightarrow> n \<in> set (failover_roster ma) \<and> sn_id n \<noteq> node" for n
    using g [of "sn_id n"] m registry_nodes_set [of "ma_registry ma" n] registry_nodes_set [of rg n] ok(1)
    by (auto simp: failover_roster_def x)
  have "master_ok x"
    using ma g [of "ma_node ma"] ros ok by (auto simp: master_ok_def x revoke_peer_ok peers_ok_def list_all_iff)
  with ros show ?thesis by blast
qed

lemma master_ok_removed:
  assumes ma: "master_ok ma" and m: "node \<noteq> ma_node ma" and rm: "remove_node C sha256 repr node link ma = (ma1, es, Inr True)"
  shows "master_ok ma1 \<and> ma_node ma1 = ma_node ma \<and> ma_synced ma1 = [] \<and>
    (\<forall>n. n \<in> set (failover_roster ma1) \<longleftrightarrow> n \<in> set (failover_roster ma) \<and> sn_id n \<noteq> node) \<and>
    (\<exists>u version. master_backup C sha256 repr (ma_signing ma) u (ma_failover ma) = (ma_failover ma1, Inr version))"
proof -
  obtain rg removed where r: "registry_remove node (unpair_contact node link (ma_registry ma)) = (rg, removed)" by fastforce
  let ?x = "forget_node node link (ma\<lparr>ma_registry := rg\<rparr>)"
  have b: "\<exists>v. master_backup C sha256 repr (ma_signing ?x) (roster_update ?x) (ma_failover ?x) = (ma_failover ma1, Inr v)"
    and f: "ma1 = ?x\<lparr>ma_failover := ma_failover ma1, ma_synced := []\<rparr>"
    using rm by (auto simp: remove_node_def r Let_def split: prod.splits sum.splits if_splits)
  have sel: "ma_registry ma1 = rg" "ma_self ma1 = ma_self ma" "ma_synced ma1 = []" "ma_trust ma1 = revoke_peer node (ma_trust ma)"
    by (subst f, simp add: forget_node_def)+
  have "ma_signing ?x = ma_signing ma" "ma_failover ?x = ma_failover ma" by (simp_all add: forget_node_def)
  with forget_node_ok [OF ma m r sel(1,2,4)] sel b show ?thesis by metis
qed

lemma version_kept: "updated_meta repr u m = Inr m' \<Longrightarrow> mu_version u = None \<Longrightarrow> fm_version m' = fm_version m"
  by (auto simp: updated_meta_def split: sum.splits)

lemma update_parts:
  "mu_roster (roster_update ma) = Some (map node_json (failover_roster ma))"
  "mu_generations (roster_update ma) = Some (JObj (dmap JInt (generations_snapshot (failover_roster ma) ma)))" "mu_version (roster_update ma) = None"
  "mu_roster (sent_update ma) = Some (map node_json (failover_roster ma))"
  "mu_generations (sent_update ma) = Some (JObj (dmap JInt (generations_snapshot (failover_roster ma) ma)))"
  "mu_roster (generations_update roster ma) = None" "mu_version (generations_update roster ma) = None"
  "mu_generations (generations_update roster ma) = Some (JObj (dmap JInt (generations_snapshot roster ma)))"
  by (simp_all add: roster_update_def generations_update_def sent_update_def no_update_def)

lemma master_update_ok:
  assumes "updated_meta repr u (fv_meta (ma_failover ma)) = Inr m" and "mu_version u = None"
  shows "master_update repr u ma = (ma\<lparr>ma_failover := (ma_failover ma)\<lparr>fv_meta := m\<rparr>\<rparr>, Inr ()) \<and> fm_version m = ma_version ma"
  using assms version_kept by (simp add: master_update_def update_metadata_def)

lemma roster_update_ok:
  assumes ma: "master_ok ma"
  shows "\<exists>m. master_update repr (roster_update ma) ma = (ma\<lparr>ma_failover := (ma_failover ma)\<lparr>fv_meta := m\<rparr>\<rparr>, Inr ()) \<and> fm_version m = ma_version ma"
  using updated_sent [OF master_roster_ok [OF ma] update_parts(1,2), of repr "fv_meta (ma_failover ma)"] master_update_ok update_parts(3) by metis

lemma generations_update_ok:
  "\<exists>m. master_update repr (generations_update roster y) ma = (ma\<lparr>ma_failover := (ma_failover ma)\<lparr>fv_meta := m\<rparr>\<rparr>, Inr ()) \<and> fm_version m = ma_version ma"
proof -
  let ?m = "fv_meta (ma_failover ma)"
  let ?allowed = "if fm_roster ?m = [] then None else Some (filter (\<lambda>i. i \<noteq> []) (map sn_id (fm_roster ?m)))"
  obtain d where "merge_tickets (ticket_generations ?m) ?allowed (dmap JInt (generations_snapshot roster y)) [] = Inr d" using merge_sent by blast
  then have "\<exists>gens. merged_generations ?m (fm_roster ?m) (JObj (dmap JInt (generations_snapshot roster y))) = Inr gens"
    by (simp only: merged_generations_def json.case Let_def sum.case) blast
  then have "\<exists>m'. updated_meta repr (generations_update roster y) ?m = Inr m'"
    by (auto simp: updated_meta_def update_parts)
  then show ?thesis using master_update_ok update_parts(7) by metis
qed

lemma learn_generation_ok:
  "\<exists>ma'. learn_generation repr node reply roster ma = (ma', Inr ()) \<and> ma_synced ma' = ma_synced ma \<and> ma_version ma' = ma_version ma"
proof (cases "map_of reply ''ticket_generation''")
  case None
  then show ?thesis by (simp add: learn_generation_def)
next
  case (Some v)
  define remote where "remote = (case to_int v of Inl e \<Rightarrow> - 1 | Inr g \<Rightarrow> max 0 g)"
  define x where "x = ma\<lparr>ma_revocations := fst (synchronize_generation node remote (ma_revocations ma))\<rparr>"
  have "learn_generation repr node reply roster ma =
      (if current_generation node (ma_revocations ma) < remote then master_update repr (generations_update roster x) x else (ma, Inr ()))"
    by (simp add: learn_generation_def Some remote_def x_def Let_def)
  moreover obtain m where "master_update repr (generations_update roster x) x = (x\<lparr>ma_failover := (ma_failover x)\<lparr>fv_meta := m\<rparr>\<rparr>, Inr ())"
    "fm_version m = ma_version x" using generations_update_ok by blast
  ultimately show ?thesis by (simp add: x_def)
qed

lemma bundle_nonempty: "import_bundle C repr (JObj ob) u s = (s', Inr ()) \<Longrightarrow> ob \<noteq> []"
  by (auto simp: import_bundle_def jget_or_def failover_schema_def)

lemma export_bundle_cong:
  "fv_node s = fv_node s' \<Longrightarrow> fm_version (fv_meta s) = fm_version (fv_meta s') \<Longrightarrow> export_bundle s = export_bundle s'"
  by (auto simp: export_bundle_def split: option.split)

lemma import_bundle_version:
  "import_bundle C repr (JObj (export_bundle M)) u S = (S', Inr ()) \<Longrightarrow> fm_version (fv_meta S') = take 128 (fm_version (fv_meta M))"
  using updated_version [of repr _ _ "fv_meta S'"]
  by (auto simp: export_bundle_def import_bundle_def install_authority_def update_metadata_def jget_def jget_or_def jitem_def
      Let_def failover_schema_def split: option.splits if_splits sum.splits prod.splits)

lemma backup_version: "master_backup C sha256 repr signing u M = (M', Inr version) \<Longrightarrow> length (fm_version (fv_meta M')) \<le> 128"
  using updated_version [of repr "u\<lparr>mu_version := Some version\<rparr>" _ "fv_meta M'" version]
  by (auto simp: master_backup_def update_metadata_def Let_def split: option.splits sum.splits prod.splits)

text \<open>What the slave replies to the payload it stored.\<close>

lemma ping_answered:
  assumes a: "apply_failover C repr payload peer sv = (sv1, Inr ())" and q: "jget req ''failover'' = JObj payload"
    and n: "jget_or req ''nonce'' (JStr []) = JStr nonce" "nonce \<noteq> []" "length nonce \<le> 64"
  shows "\<exists>sv' reply. ping_answer C repr up la caps now peer sv req = (sv', Some reply) \<and> sv_trust sv' = sv_trust sv1 \<and> sv_failover sv' = sv_failover sv1 \<and>
    jget reply ''failover_version'' = JStr (fm_version (fv_meta (sv_failover sv1))) \<and> eq_int (jget reply ''status'') 200 \<and> jget reply ''nonce'' = JStr nonce"
proof -
  obtain fb es where fb: "record_master up la now (to_str repr (jget_or req ''master_name'' (JStr []))) (to_str repr (jget_or req ''master_url'' (JStr [])))
      (sv_fallback sv1) = (fb, es)" by fastforce
  let ?g = "case sv_verifier sv1 of None \<Rightarrow> 0 | Some vf \<Rightarrow> current_generation (sv_node sv1) (vf_revocations vf)"
  have r: "record_heartbeat C repr up la caps now req peer sv = (sv1\<lparr>sv_fallback := fb\<rparr>, es,
      Inr [(''failover_version'', JStr (fm_version (fv_meta (sv_failover sv1)))), (''ticket_generation'', JInt ?g), (''media_capabilities'', JObj caps)])"
    by (simp add: record_heartbeat_def q a fb Let_def split: option.split)
  show ?thesis using n by (simp add: ping_answer_def r) (simp add: jget_def)
qed

text \<open>The request that reaches the slave.\<close>

definition sent_ping :: "(json \<Rightarrow> string) \<Rightarrow> string \<Rightarrow> string \<Rightarrow> master \<Rightarrow> jobj" where
  "sent_ping repr nonce node ma = ping_request nonce node (fst (master_update repr (roster_update ma) ma))"

text \<open>C30 (a removal reaches the members). A running master with its authority intact removed a slave, and the backup of the
  authority succeeded. Then the next heartbeat to any member that shares the CA, has no other ticket key and well-formed
  state succeeds on both sides: the member has the keys and is ready to take over, the master notes it as synchronized,
  and the member accepts the certificates of exactly the other members of the old roster - the removed one no more.\<close>

theorem removal_reaches_members:
  assumes C: "crypto_ok C" "identity_ok C (fv_node (ma_failover ma))" "master_exists (fv_node (ma_failover ma))"
    and ca: "cn_ca_cert (fv_node (ma_failover ma)) = Some ca" "length (ma_signing ma) = 32"
      "length (sha256 (cy_fingerprint C ca @ '':'' @ cy_public C (ma_signing ma))) = 64"
    and ma: "master_ok ma" "node \<noteq> ma_node ma" "remove_node C sha256 repr node link ma = (ma1, es, Inr True)"
    and sv: "sv_trust sv = Some ts" "trust_ok ts" "meta_ok (fv_meta (sv_failover sv))" "cn_ca_cert (fv_node (sv_failover sv)) = Some ca"
      "cn_signing_public (fv_node (sv_failover sv)) \<in> {None, Some (cy_public C (ma_signing ma))}"
    and n: "nonce \<noteq> []" "length nonce \<le> 64"
  shows "\<exists>ma2 sv' reply ts'.
    heartbeat_exchange repr nonce (sv_node sv) (\<lambda>req. snd (ping_answer C repr up la caps now (ma_node ma) sv req)) ma1 = (ma2, Some True) \<and>
    ping_answer C repr up la caps now (ma_node ma) sv (sent_ping repr nonce (sv_node sv) ma1) = (sv', Some reply) \<and>
    failover_ready (sv_failover sv') \<and> dget (ma_synced ma2) (sv_node sv) = Some (ma_version ma2) \<and> sv_trust sv' = Some ts' \<and>
    (\<forall>cert k serial. authorize_der cert ts' = Inr (k, serial) \<longleftrightarrow>
       certified_names cert = [k] \<and> serial = snd cert \<and> k \<noteq> sv_node sv \<and> k \<noteq> node \<and>
       (\<exists>m \<in> set (failover_roster ma). sn_id m = k \<and> sn_serial m = serial))"
proof -
  obtain u version where b: "master_backup C sha256 repr (ma_signing ma) u (ma_failover ma) = (ma_failover ma1, Inr version)"
    and m1: "master_ok ma1" "ma_node ma1 = ma_node ma" "ma_synced ma1 = []"
    and ros: "\<forall>m. m \<in> set (failover_roster ma1) \<longleftrightarrow> m \<in> set (failover_roster ma) \<and> sn_id m \<noteq> node"
    using master_ok_removed [OF ma] by blast
  obtain m where mu: "master_update repr (roster_update ma1) ma1 = (ma1\<lparr>ma_failover := (ma_failover ma1)\<lparr>fv_meta := m\<rparr>\<rparr>, Inr ())"
    and mv: "fm_version m = ma_version ma1" using roster_update_ok [OF m1(1)] by blast
  define x where "x = ma1\<lparr>ma_failover := (ma_failover ma1)\<lparr>fv_meta := m\<rparr>\<rparr>"
  have x: "master_ok x" "ma_node x = ma_node ma" "ma_synced x = []" "failover_roster x = failover_roster ma1" "ma_version x = ma_version ma1"
    using m1 mv by (simp_all add: x_def master_ok_def failover_roster_def)
  obtain m' where m': "updated_meta repr ((sent_update x)\<lparr>mu_version := Some version\<rparr>) (fv_meta (sv_failover sv)) = Inr m'"
    and r': "fm_roster m' = map received (failover_roster x)"
    using updated_sent [OF master_roster_ok [OF x(1)], of "(sent_update x)\<lparr>mu_version := Some version\<rparr>"] update_parts(4,5) by fastforce
  obtain s where s: "import_bundle C repr (JObj (export_bundle (ma_failover ma1))) (sent_update x) (sv_failover sv) = (s, Inr ())"
    "failover_ready s" "fv_meta s = m'"
    using authority_replicated [OF C b ca(2,3,1) sv(4,5) m'] by blast
  have ex: "export_bundle (ma_failover x) = export_bundle (ma_failover ma1)"
    by (rule export_bundle_cong) (simp_all add: x_def mv)
  have "jget (sent_payload (sv_node sv) x) ''authority'' = JObj (export_bundle (ma_failover ma1))"
    by (simp add: ping_request_parts x(3) ex)
  then have st: "store_failover C repr (sent_payload (sv_node sv) x) (sent_update x) (sv_failover sv) = (s, Inr ())"
    using bundle_nonempty [OF s(1)] s(1) by (auto simp: store_failover_def neq_Nil_conv)
  have mok: "meta_ok (fv_meta s)" using updated_meta_ok [OF sv(3) m'] s(3) by simp
  have rs: "fm_roster (fv_meta s) = map received (failover_roster x)" by (simp add: s(3) r')
  obtain sv1 ts' where ap: "apply_failover C repr (sent_payload (sv_node sv) x) (ma_node ma) sv = (sv1, Inr ())" "sv_trust sv1 = Some ts'"
    and t: "\<forall>k q. dget (ts_peers ts') k = Some q \<longleftrightarrow> k \<noteq> sv_node sv \<and> (\<exists>m \<in> set (failover_roster x). sn_id m = k \<and> sn_serial m = q)"
    and fv: "failover_ready (sv_failover sv1)" "fv_meta (sv_failover sv1) = fv_meta s"
    using applied_failover [OF x(1) sv(1,2) st mok rs, of "ma_node ma"] s(2) by blast
  obtain sv' reply where an: "ping_answer C repr up la caps now (ma_node ma) sv (ping_request nonce (sv_node sv) x) = (sv', Some reply)"
    "sv_trust sv' = sv_trust sv1" "sv_failover sv' = sv_failover sv1"
    "jget reply ''failover_version'' = JStr (fm_version (fv_meta (sv_failover sv1)))" "eq_int (jget reply ''status'') 200" "jget reply ''nonce'' = JStr nonce"
    using ping_answered [OF ap(1) ping_request_parts(1,2) n] by blast
  have "fm_version (fv_meta s) = take 128 (ma_version ma1)" using import_bundle_version [OF s(1)] .
  moreover have "length (ma_version ma1) \<le> 128" using backup_version [OF b] by simp
  ultimately have ver: "fm_version (fv_meta s) = ma_version x" by (simp add: x(5))
  obtain y where y: "learn_generation repr (sv_node sv) reply (failover_roster ma1) (learn_capabilities (sv_node sv) reply x) = (y, Inr ())"
    "ma_version y = ma_version x"
    using learn_generation_ok [of repr "sv_node sv" reply "failover_roster ma1" "learn_capabilities (sv_node sv) reply x"]
    by (auto simp: learn_capabilities_def split: option.splits)
  have "heartbeat_exchange repr nonce (sv_node sv) (\<lambda>req. snd (ping_answer C repr up la caps now (ma_node ma) sv req)) ma1 =
      (learn_version (sv_node sv) reply y, Some True)"
    using an(1,5,6) mu y by (simp add: heartbeat_exchange_def Let_def flip: x_def)
  moreover have "sent_ping repr nonce (sv_node sv) ma1 = ping_request nonce (sv_node sv) x" by (simp add: sent_ping_def mu x_def)
  moreover have "dget (ma_synced (learn_version (sv_node sv) reply y)) (sv_node sv) = Some (ma_version (learn_version (sv_node sv) reply y))"
    using an(4) fv(2) ver y(2) by (simp add: learn_version_def dget_put)
  moreover have "authorize_der cert ts' = Inr (k, serial) \<longleftrightarrow> certified_names cert = [k] \<and> serial = snd cert \<and> k \<noteq> sv_node sv \<and> k \<noteq> node \<and>
       (\<exists>m \<in> set (failover_roster ma). sn_id m = k \<and> sn_serial m = serial)" for cert k serial
    using t ros x(4) by (auto simp: authorize_iff)
  ultimately show ?thesis using an(1-3) ap(2) fv(1) by metis
qed

definition demo_gone :: slave_node where
  "demo_gone = \<lparr>sn_id = ''x'', sn_name = ''X'', sn_host = ''10.0.0.3'', sn_port = 9004, sn_serial = 9, sn_online = True, sn_created = 6\<rparr>"

definition demo_running :: master where
  "demo_running = demo_cluster [demo_slave_node, demo_gone] [(''s'', 2), (''x'', 9)] \<lparr>fv_node = id_run demo_crypto demo_master new_node, fv_meta = empty_meta\<rparr>"

definition demo_member_rt :: slave_rt where
  "demo_member_rt = \<lparr>sv_node = ''s'',
     sv_failover = \<lparr>fv_node = new_node\<lparr>cn_ca_cert := cn_ca_cert (id_run demo_crypto demo_master new_node)\<rparr>, fv_meta = empty_meta\<rparr>,
     sv_trust = Some \<lparr>ts_ca = ''ca'', ts_peers = [(''m'', 1), (''x'', 9)], ts_file = None\<rparr>, sv_verifier = None, sv_fallback = new_fallback 0 None\<rparr>"

lemma demo_roster_set: "set (failover_roster demo_running) = {demo_own, demo_slave_node, demo_gone}"
  by (simp add: demo_running_def demo_cluster_def failover_roster_def registry_nodes_def) auto

lemma demo_running_ok:
  "master_ok demo_running" "ma_signing demo_running = replicate 32 (CHR ''x'')" "ma_node demo_running = ''m''"
  "ma_failover demo_running = \<lparr>fv_node = id_run demo_crypto demo_master new_node, fv_meta = empty_meta\<rparr>"
proof -
  show s: "ma_signing demo_running = replicate 32 (CHR ''x'')" "ma_node demo_running = ''m''"
    "ma_failover demo_running = \<lparr>fv_node = id_run demo_crypto demo_master new_node, fv_meta = empty_meta\<rparr>"
    by (simp_all add: demo_running_def demo_cluster_def demo_own_def)
  have "peers_ok (failover_roster demo_running)"
    by (simp add: peers_ok_def list_all_iff demo_roster_set demo_own_def demo_slave_node_def demo_gone_def)
  moreover have "str_strip ''m'' \<noteq> []" by code_simp
  moreover have "nodes_ok (rg_nodes (ma_registry demo_running))" "trust_ok (ma_trust demo_running)" "registry_get ''m'' (ma_registry demo_running) = None"
    by (simp_all add: demo_running_def demo_cluster_def demo_slave_node_def demo_gone_def nodes_ok_def node_ok_def dict_ok_def
        max_slaves_def trust_ok_def max_trusted_peers_def registry_get_def)
  ultimately show "master_ok demo_running" by (simp add: master_ok_def s)
qed

lemma demo_removed: "\<exists>ma1 es. remove_node demo_crypto (\<lambda>t. replicate 64 (CHR ''0'')) (\<lambda>v. []) ''x'' Unpair_Failed demo_running = (ma1, es, Inr True)"
proof -
  let ?n = "id_run demo_crypto demo_master new_node" and ?sha = "\<lambda>t :: string. replicate 64 (CHR ''0'')"
  have ok: "identity_ok demo_crypto ?n" by (rule id_run_keeps [OF demo_crypto_ok new_node_ok])
  obtain k ca where ca: "cn_ca_cert ?n = Some ca" "load_key demo_crypto ca_password_name (cn_ca_key ?n) ?n = Inr k"
    using master_authority [OF demo_crypto_ok ok demo_master_exists] by metis
  obtain rg removed where r: "registry_remove ''x'' (unpair_contact ''x'' Unpair_Failed (ma_registry demo_running)) = (rg, removed)" by fastforce
  define x where "x = forget_node ''x'' Unpair_Failed (demo_running\<lparr>ma_registry := rg\<rparr>)"
  note g = removal_registry [OF _ r]
  have removed using g demo_running_ok(1)
    by (simp add: master_ok_def) (simp add: demo_running_def demo_cluster_def demo_slave_node_def demo_gone_def registry_get_def)
  have ids: "ma_node x = ''m''" "ma_registry x = rg" "ma_trust x = revoke_peer ''x'' (ma_trust demo_running)" "ma_self x = demo_own"
    "ma_failover x = ma_failover demo_running"
    by (simp_all add: x_def forget_node_def demo_running_def demo_cluster_def demo_own_def)
  have "master_ok x" using forget_node_ok [OF demo_running_ok(1) _ r, of x] by (simp add: ids demo_running_ok) (simp add: demo_running_def demo_cluster_def)
  then have "sent_roster (failover_roster x)" by (rule master_roster_ok)
  then obtain m where "updated_meta (\<lambda>v. []) ((roster_update x)\<lparr>mu_version := Some (take 32 (replicate 64 (CHR ''0'')))\<rparr>) empty_meta = Inr m"
    using updated_sent [of "failover_roster x" "(roster_update x)\<lparr>mu_version := Some (take 32 (replicate 64 (CHR ''0'')))\<rparr>"] update_parts(1,2) by fastforce
  then have "\<exists>s v. master_backup demo_crypto ?sha (\<lambda>v. []) signing (roster_update x) \<lparr>fv_node = ?n, fv_meta = empty_meta\<rparr> = (s, Inr v)" for signing
    using ca by (simp add: master_backup_def export_ca_private_key_def Let_def update_metadata_def stored_replica)
  from this [of "ma_signing x"] obtain s v where "master_backup demo_crypto ?sha (\<lambda>v. []) (ma_signing x) (roster_update x) (ma_failover x) = (s, Inr v)"
    by (auto simp: ids demo_running_ok)
  then have "remove_node demo_crypto ?sha (\<lambda>v. []) ''x'' Unpair_Failed demo_running = (x\<lparr>ma_failover := s, ma_synced := []\<rparr>, [Audit ''unlink'' ''x''], Inr True)"
    using \<open>removed\<close> by (simp add: remove_node_def r Let_def flip: x_def)
  then show ?thesis by blast
qed

theorem removal_reaches_members_witness:
  "\<exists>ma1 es sv' reply ts'. remove_node demo_crypto (\<lambda>t. replicate 64 (CHR ''0'')) (\<lambda>v. []) ''x'' Unpair_Failed demo_running = (ma1, es, Inr True) \<and>
    ping_answer demo_crypto (\<lambda>v. []) (\<lambda>u. undefined) (\<lambda>h. None) [] 0 ''m'' demo_member_rt (sent_ping (\<lambda>v. []) ''n'' ''s'' ma1) = (sv', Some reply) \<and>
    sv_trust sv' = Some ts' \<and> authorize_der (Some [''urn:netshare:node:m''], 1) ts' = Inr (''m'', 1) \<and>
    authorize_der (Some [''urn:netshare:node:x''], 9) ts' \<noteq> Inr (''x'', 9)"
proof -
  let ?n = "id_run demo_crypto demo_master new_node" and ?sha = "\<lambda>t :: string. replicate 64 (CHR ''0'')"
  have ok: "identity_ok demo_crypto ?n" by (rule id_run_keeps [OF demo_crypto_ok new_node_ok])
  obtain k ca where ca: "cn_ca_cert ?n = Some ca" using master_authority [OF demo_crypto_ok ok demo_master_exists] by metis
  obtain ma1 es where rm: "remove_node demo_crypto ?sha (\<lambda>v. []) ''x'' Unpair_Failed demo_running = (ma1, es, Inr True)"
    using demo_removed by blast
  have sv: "sv_trust demo_member_rt = Some \<lparr>ts_ca = ''ca'', ts_peers = [(''m'', 1), (''x'', 9)], ts_file = None\<rparr>"
    "trust_ok \<lparr>ts_ca = ''ca'', ts_peers = [(''m'', 1), (''x'', 9)], ts_file = None\<rparr>"
    "meta_ok (fv_meta (sv_failover demo_member_rt))" "cn_ca_cert (fv_node (sv_failover demo_member_rt)) = Some ca" "sv_node demo_member_rt = ''s''"
    "cn_signing_public (fv_node (sv_failover demo_member_rt)) \<in> {None, Some (cy_public demo_crypto (ma_signing demo_running))}"
    by (simp_all add: demo_member_rt_def trust_ok_def dict_ok_def max_trusted_peers_def ca) (simp add: new_node_def)
  have m: "identity_ok demo_crypto (fv_node (ma_failover demo_running))" "master_exists (fv_node (ma_failover demo_running))"
    "cn_ca_cert (fv_node (ma_failover demo_running)) = Some ca" "length (ma_signing demo_running) = 32" "''x'' \<noteq> ma_node demo_running"
    "length (replicate 64 (CHR ''0'')) = 64"
    using ok ca demo_master_exists by (simp_all add: demo_running_ok)
  obtain ma2 sv' reply ts' where r: "ping_answer demo_crypto (\<lambda>v. []) (\<lambda>u. undefined) (\<lambda>h. None) [] 0 ''m'' demo_member_rt (sent_ping (\<lambda>v. []) ''n'' ''s'' ma1) = (sv', Some reply)"
    "sv_trust sv' = Some ts'"
    and a: "\<forall>cert k serial. authorize_der cert ts' = Inr (k, serial) \<longleftrightarrow> certified_names cert = [k] \<and> serial = snd cert \<and> k \<noteq> ''s'' \<and> k \<noteq> ''x'' \<and>
       (\<exists>m \<in> set (failover_roster demo_running). sn_id m = k \<and> sn_serial m = serial)"
    using removal_reaches_members [OF demo_crypto_ok m(1-4) m(6) demo_running_ok(1) m(5) rm sv(1-4) sv(6), of "''n''" "\<lambda>u. undefined" "\<lambda>h. None" "[]" 0]
    by (auto simp: sv(5) demo_running_ok(3))
  show ?thesis
    using rm r a by (simp add: demo_roster_set demo_own_def certified_names_def node_uri_prefix_def starts_with_def) 
qed

end
