(* ===== verification/Cluster_Pairing.thy ===== *)
theory Cluster_Pairing
  imports Cluster_Heartbeat Json_Text
begin

text \<open>
  The pairing of a slave by numeric comparison: the commitment protocol of \<^verbatim>\<open>core/cluster/sas_pairing.py\<close>, the ceremony
  its two users take part in, and the two sides of the enrollment in \<^verbatim>\<open>core/cluster/sas_bootstrap.py\<close>, cut at the
  points where a side waits for the other. A side is a chain of functions from the frame received to the frame sent.
  X25519, HMAC, SHA-256, HKDF, AES-GCM and the PEM form of a certificate are the parameter \<open>sas_suite\<close>; private keys
  and nonces are arguments.
\<close>

section \<open>Primitives\<close>

record sas_suite =
  sx_public :: "string \<Rightarrow> string"
  sx_exchange :: "string \<Rightarrow> string \<Rightarrow> string option"
  sx_mac :: "string \<Rightarrow> string \<Rightarrow> string"
  sx_sha :: "string \<Rightarrow> string"
  sx_kdf :: "string \<Rightarrow> string \<Rightarrow> string \<Rightarrow> string"
  sx_encrypt :: "string \<Rightarrow> string \<Rightarrow> string \<Rightarrow> string \<Rightarrow> string"
  sx_decrypt :: "string \<Rightarrow> string \<Rightarrow> string \<Rightarrow> string \<Rightarrow> string option"
  sx_fp :: "cert \<Rightarrow> string"
  sx_pem :: "cert \<Rightarrow> string"
  sx_read_pem :: "string \<Rightarrow> cert option"

text \<open>What the package documents: both sides of an exchange of generated keys compute the same secret, which is not
  zero; sizes; decryption undoes encryption with the same key, nonce and associated data; PEM is read back.\<close>

definition suite_ok :: "sas_suite \<Rightarrow> bool" where
  "suite_ok S \<longleftrightarrow>
     (\<forall>a b. sx_exchange S a (sx_public S b) = sx_exchange S b (sx_public S a) \<and> sx_exchange S a (sx_public S b) \<noteq> None \<and>
        sx_exchange S a (sx_public S b) \<noteq> Some (replicate 32 (CHR 0x00))) \<and>
     (\<forall>k. length (sx_public S k) = 32) \<and> (\<forall>c. length (sx_fp S c) = 32) \<and> (\<forall>salt info k. length (sx_kdf S salt info k) = 100) \<and>
     (\<forall>k n d a. sx_decrypt S k n (sx_encrypt S k n d a) a = Some d) \<and> (\<forall>c. sx_read_pem S (sx_pem S c) = Some c)"

datatype pair_error =
    Pe_Sas | Pe_Bootstrap string | Pe_Value | Pe_Overflow | Pe_Missing | Pe_Signature
  | Pe_Id id_error | Pe_Peer peer_error | Pe_Rev rev_error | Pe_Py py_error

definition ebind :: "'e + 'a \<Rightarrow> ('a \<Rightarrow> 'e + 'b) \<Rightarrow> 'e + 'b" where
  "ebind x f = (case x of Inl e \<Rightarrow> Inl e | Inr a \<Rightarrow> f a)"

lemma ebind_simps [simp]: "ebind (Inl e) f = Inl e" "ebind (Inr a) f = f a"
  by (simp_all add: ebind_def)

lemma ebind_Inr: "ebind x f = Inr b \<longleftrightarrow> (\<exists>a. x = Inr a \<and> f a = Inr b)"
  by (cases x) simp_all

definition utf8 :: "string \<Rightarrow> string" where
  "utf8 s = concat (map (\<lambda>c. if code c < 128 then [c] else [char_of (192 + code c div 64), char_of (128 + code c mod 64)]) s)"

section \<open>The transcript\<close>

definition sas_label :: string where "sas_label = ''netshare-cluster-sas-v2''"
definition sas_ttl :: int where "sas_ttl = 300"
definition sas_nonce_size :: nat where "sas_nonce_size = 16"

definition be16 :: "nat \<Rightarrow> string" where
  "be16 n = [char_of (n div 256), char_of (n mod 256)]"

fun frame_values :: "string list \<Rightarrow> pair_error + string" where
  "frame_values [] = Inr []"
| "frame_values (v # vs) =
     (if 65536 \<le> length v then Inl Pe_Overflow else ebind (frame_values vs) (\<lambda>rest. Inr (be16 (length v) @ v @ rest)))"

definition make_context :: "string \<Rightarrow> string \<Rightarrow> string \<Rightarrow> string \<Rightarrow> string \<Rightarrow> string \<Rightarrow> string \<Rightarrow> pair_error + string" where
  "make_context window master slave mpub spub mfp sfp =
     (let values = [sas_label, utf8 window, utf8 master, utf8 slave, mpub, spub, mfp, sfp]
      in if length window \<noteq> 16 \<or> length mpub \<noteq> 32 \<or> length spub \<noteq> 32 \<or> list_ex (\<lambda>v. v = []) values then Inl Pe_Sas
         else frame_values values)"

definition sas_commit :: "sas_suite \<Rightarrow> string \<Rightarrow> string \<Rightarrow> string \<Rightarrow> pair_error + string" where
  "sas_commit S role ctx nonce =
     (if role \<notin> set [''master'', ''slave''] \<or> length nonce \<noteq> 16 then Inl Pe_Sas
      else Inr (sx_mac S nonce (sas_label @ ''/commit/'' @ role @ ctx)))"

definition full_transcript :: "string \<Rightarrow> string \<Rightarrow> string \<Rightarrow> pair_error + string" where
  "full_transcript ctx mnonce snonce = (if length mnonce \<noteq> 16 \<or> length snonce \<noteq> 16 then Inl Pe_Sas else Inr (ctx @ mnonce @ snonce))"

record material =
  mt_master :: string
  mt_slave :: string
  mt_envelope :: string
  mt_sas :: string

definition from_bytes :: "string \<Rightarrow> nat" where
  "from_bytes s = foldl (\<lambda>n c. 256 * n + code c) 0 s"

definition six_digits :: "nat \<Rightarrow> string" where
  "six_digits n = (let s = show_nat n in replicate (6 - length s) (CHR ''0'') @ s)"

definition derive_material :: "sas_suite \<Rightarrow> string \<Rightarrow> string \<Rightarrow> string \<Rightarrow> pair_error + material" where
  "derive_material S private peer transcript =
     (case sx_exchange S private peer of None \<Rightarrow> Inl Pe_Sas
      | Some shared \<Rightarrow>
          if shared = replicate 32 (CHR 0x00) then Inl Pe_Sas
          else (let out = sx_kdf S (sx_sha S transcript) (sas_label @ ''/keys'') shared
                in Inr \<lparr>mt_master = take 32 out, mt_slave = take 32 (drop 32 out), mt_envelope = take 32 (drop 64 out),
                        mt_sas = six_digits (from_bytes (drop 96 out) mod 1000000)\<rparr>))"

definition sas_confirm :: "sas_suite \<Rightarrow> material \<Rightarrow> string \<Rightarrow> string \<Rightarrow> pair_error + string" where
  "sas_confirm S m role transcript =
     (if role = ''master'' then Inr (sx_mac S (mt_master m) (sas_label @ ''/confirm/'' @ role @ transcript))
      else if role = ''slave'' then Inr (sx_mac S (mt_slave m) (sas_label @ ''/confirm/'' @ role @ transcript))
      else Inl Pe_Sas)"

section \<open>The ceremony\<close>

record ceremony =
  ce_expires :: int
  ce_claimed :: bool
  ce_closed :: bool
  ce_sas :: string
  ce_decision :: "bool option"

definition new_ceremony :: "time \<Rightarrow> ceremony" where
  "new_ceremony now = \<lparr>ce_expires = py_int now + sas_ttl, ce_claimed = False, ce_closed = False, ce_sas = [], ce_decision = None\<rparr>"

definition close_ceremony :: "ceremony \<Rightarrow> ceremony" where
  "close_ceremony c = c\<lparr>ce_closed := True, ce_sas := [], ce_decision := None\<rparr>"

definition ceremony_claim :: "time \<Rightarrow> ceremony \<Rightarrow> ceremony \<times> bool" where
  "ceremony_claim now c =
     (if ce_closed c \<or> ce_expires c < py_int now then (c\<lparr>ce_closed := True\<rparr>, False)
      else if ce_claimed c then (c, False)
      else (c\<lparr>ce_claimed := True\<rparr>, True))"

definition ceremony_present :: "string \<Rightarrow> ceremony \<Rightarrow> ceremony \<times> bool" where
  "ceremony_present v c =
     (if ce_closed c \<or> \<not> ce_claimed c \<or> length v \<noteq> 6 \<or> \<not> list_all is_digit v then (c, False) else (c\<lparr>ce_sas := v\<rparr>, True))"

definition ceremony_decide :: "bool \<Rightarrow> ceremony \<Rightarrow> ceremony \<times> bool" where
  "ceremony_decide matches c =
     (if ce_closed c \<or> ce_sas c = [] \<or> ce_decision c \<noteq> None then (c, False) else (c\<lparr>ce_decision := Some matches\<rparr>, True))"

text \<open>\<open>wait\<close> from the moment its condition wakes up or runs out of time.\<close>

definition ceremony_wait :: "ceremony \<Rightarrow> ceremony \<times> bool" where
  "ceremony_wait c = (if ce_decision c \<noteq> Some True then (close_ceremony c, False) else (c, True))"

datatype ceremony_op = Ce_Claim time | Ce_Present string | Ce_Decide bool | Ce_Wait | Ce_Close

fun ceremony_step :: "ceremony_op \<Rightarrow> ceremony \<Rightarrow> ceremony \<times> bool" where
  "ceremony_step (Ce_Claim now) c = ceremony_claim now c"
| "ceremony_step (Ce_Present v) c = ceremony_present v c"
| "ceremony_step (Ce_Decide b) c = ceremony_decide b c"
| "ceremony_step Ce_Wait c = ceremony_wait c"
| "ceremony_step Ce_Close c = (close_ceremony c, True)"

fun ceremony_run :: "ceremony_op list \<Rightarrow> ceremony \<Rightarrow> (ceremony_op \<times> bool) list" where
  "ceremony_run [] c = []"
| "ceremony_run (op # ops) c = (op, snd (ceremony_step op c)) # ceremony_run ops (fst (ceremony_step op c))"

section \<open>The two sides\<close>

definition unb64 :: "(json \<Rightarrow> string) \<Rightarrow> jobj \<Rightarrow> string \<Rightarrow> pair_error + string" where
  "unb64 repr ob k = (case b64_read (to_str repr (jget ob k)) of None \<Rightarrow> Inl (Pe_Bootstrap ''invalid SAS encoding'') | Some v \<Rightarrow> Inr v)"

definition read_cert :: "sas_suite \<Rightarrow> string \<Rightarrow> pair_error + cert" where
  "read_cert S raw = (case sx_read_pem S raw of None \<Rightarrow> Inl Pe_Value | Some c \<Rightarrow> Inr c)"

definition cert_node :: "cert \<Rightarrow> pair_error + string" where
  "cert_node cert =
     (case ct_uris (ct_body cert) of None \<Rightarrow> Inl (Pe_Bootstrap ''certificate node identity missing'')
      | Some uris \<Rightarrow> (case map (drop (length node_uri_prefix)) (filter (\<lambda>u. starts_with u node_uri_prefix) uris) of
           [node] \<Rightarrow> Inr node | _ \<Rightarrow> Inl (Pe_Bootstrap ''certificate node identity invalid'')))"

text \<open>\<open>create_bootstrap_certificate\<close>: the key of the node, made when there is none, and a certificate it signs itself.\<close>

definition bootstrap_certificate ::
  "crypto \<Rightarrow> sas_suite \<Rightarrow> time \<Rightarrow> int \<Rightarrow> string \<Rightarrow> string \<Rightarrow> string \<Rightarrow> cluster_node \<Rightarrow> cluster_node \<times> (pair_error + cert)" where
  "bootstrap_certificate C S now serial password fresh node n =
     (let n = (if cn_node_key n = None then fst (create_node_key C password fresh n) else n)
      in case load_node_private_key C n of Inl e \<Rightarrow> (n, Inl (Pe_Id e))
         | Inr key \<Rightarrow>
             (let body = \<lparr>ct_subject = ''NetShare bootstrap'', ct_issuer = ''NetShare bootstrap'', ct_key = cy_public C key, ct_serial = serial,
                    ct_from = py_int (now - 60), ct_until = py_int (now + 600), ct_ca = Some False, ct_uris = Some [node_uri_prefix @ node]\<rparr>;
                  cert = \<lparr>ct_body = body, ct_signature = cy_sign C key body\<rparr>
              in (n\<lparr>cn_bootstrap := Some (sx_pem S cert)\<rparr>, Inr cert)))"

text \<open>What a side knows: the context and the other's public key and commitment; later the transcript and the keys.\<close>

record pairing_view =
  pv_ctx :: string
  pv_peer :: string
  pv_commitment :: string

record pairing_keys =
  pk_transcript :: string
  pk_material :: material

definition session_hello :: "sas_suite \<Rightarrow> bootstrap_target \<Rightarrow> string \<Rightarrow> jobj" where
  "session_hello S t sk =
     [(''v'', JInt 2), (''node_id'', JStr (bt_node t)), (''name'', JStr (bt_name t)), (''window_id'', JStr (bt_window t)),
      (''content_port'', JInt (bt_content_port t)), (''public'', JStr (b64_text (sx_public S sk)))]"

definition enroll_start ::
  "crypto \<Rightarrow> sas_suite \<Rightarrow> (json \<Rightarrow> string) \<Rightarrow> bootstrap_target \<Rightarrow> cert \<Rightarrow> string \<Rightarrow> string \<Rightarrow> jobj \<Rightarrow> cluster_node \<Rightarrow>
    pair_error + pairing_view \<times> jobj" where
  "enroll_start C S repr t slave_cert sk nonce hello n =
     (if \<not> eq_int (jget hello ''v'') 2 \<or> jget hello ''node_id'' \<noteq> JStr (bt_node t) \<or> jget hello ''window_id'' \<noteq> JStr (bt_window t)
      then Inl (Pe_Bootstrap ''target mismatch'')
      else (case load_identity C n of Inl e \<Rightarrow> Inl (Pe_Id e)
            | Inr identity \<Rightarrow> (case load_certificate (cn_node_cert n) of Inl e \<Rightarrow> Inl (Pe_Id e)
               | Inr cert \<Rightarrow>
                   ebind (unb64 repr hello ''public'') (\<lambda>peer.
                   ebind (make_context (bt_window t) (ci_node identity) (bt_node t) (sx_public S sk) peer (sx_fp S cert) (sx_fp S slave_cert)) (\<lambda>ctx.
                   ebind (sas_commit S ''master'' ctx nonce) (\<lambda>commitment.
                   Inr (\<lparr>pv_ctx = ctx, pv_peer = peer, pv_commitment = []\<rparr>,
                        [(''certificate'', JStr (b64_text (sx_pem S cert))), (''public'', JStr (b64_text (sx_public S sk))),
                         (''commitment'', JStr (b64_text commitment))])))))))"

definition session_commit ::
  "sas_suite \<Rightarrow> (json \<Rightarrow> string) \<Rightarrow> bootstrap_target \<Rightarrow> cert \<Rightarrow> string \<Rightarrow> string \<Rightarrow> jobj \<Rightarrow> pair_error + pairing_view \<times> jobj" where
  "session_commit S repr t slave_cert sk nonce first =
     ebind (unb64 repr first ''certificate'') (\<lambda>raw.
     ebind (read_cert S raw) (\<lambda>master_cert.
     ebind (unb64 repr first ''public'') (\<lambda>peer.
     ebind (cert_node master_cert) (\<lambda>master.
     ebind (make_context (bt_window t) master (bt_node t) peer (sx_public S sk) (sx_fp S master_cert) (sx_fp S slave_cert)) (\<lambda>ctx.
     ebind (unb64 repr first ''commitment'') (\<lambda>theirs.
     ebind (sas_commit S ''slave'' ctx nonce) (\<lambda>ours.
     Inr (\<lparr>pv_ctx = ctx, pv_peer = peer, pv_commitment = theirs\<rparr>, [(''commitment'', JStr (b64_text ours))]))))))))"

definition enroll_reveal :: "(json \<Rightarrow> string) \<Rightarrow> string \<Rightarrow> pairing_view \<Rightarrow> jobj \<Rightarrow> pair_error + pairing_view \<times> jobj" where
  "enroll_reveal repr nonce pv msg =
     ebind (unb64 repr msg ''commitment'') (\<lambda>theirs. Inr (pv\<lparr>pv_commitment := theirs\<rparr>, [(''nonce'', JStr (b64_text nonce))]))"

definition session_reveal ::
  "sas_suite \<Rightarrow> (json \<Rightarrow> string) \<Rightarrow> string \<Rightarrow> string \<Rightarrow> pairing_view \<Rightarrow> jobj \<Rightarrow> pair_error + pairing_keys \<times> jobj" where
  "session_reveal S repr sk nonce pv msg =
     ebind (unb64 repr msg ''nonce'') (\<lambda>theirs.
     ebind (sas_commit S ''master'' (pv_ctx pv) theirs) (\<lambda>expected.
     if pv_commitment pv \<noteq> expected then Inl (Pe_Bootstrap ''master commitment mismatch'')
     else ebind (full_transcript (pv_ctx pv) theirs nonce) (\<lambda>transcript.
          ebind (derive_material S sk (pv_peer pv) transcript) (\<lambda>m.
          Inr (\<lparr>pk_transcript = transcript, pk_material = m\<rparr>, [(''nonce'', JStr (b64_text nonce))])))))"

definition enroll_verify ::
  "sas_suite \<Rightarrow> (json \<Rightarrow> string) \<Rightarrow> string \<Rightarrow> string \<Rightarrow> pairing_view \<Rightarrow> jobj \<Rightarrow> pair_error + pairing_keys \<times> jobj" where
  "enroll_verify S repr sk nonce pv msg =
     ebind (unb64 repr msg ''nonce'') (\<lambda>theirs.
     ebind (sas_commit S ''slave'' (pv_ctx pv) theirs) (\<lambda>expected.
     if pv_commitment pv \<noteq> expected then Inl (Pe_Bootstrap ''slave commitment mismatch'')
     else ebind (full_transcript (pv_ctx pv) nonce theirs) (\<lambda>transcript.
          ebind (derive_material S sk (pv_peer pv) transcript) (\<lambda>m.
          ebind (sas_confirm S m ''master'' transcript) (\<lambda>c.
          Inr (\<lparr>pk_transcript = transcript, pk_material = m\<rparr>, [(''confirm'', JStr (b64_text c))]))))))"

definition session_confirm :: "sas_suite \<Rightarrow> (json \<Rightarrow> string) \<Rightarrow> pairing_keys \<Rightarrow> jobj \<Rightarrow> pair_error + jobj" where
  "session_confirm S repr pk msg =
     ebind (unb64 repr msg ''confirm'') (\<lambda>theirs.
     ebind (sas_confirm S (pk_material pk) ''master'' (pk_transcript pk)) (\<lambda>expected.
     if theirs \<noteq> expected then Inl (Pe_Bootstrap ''master confirmation failed'')
     else ebind (sas_confirm S (pk_material pk) ''slave'' (pk_transcript pk)) (\<lambda>c. Inr [(''confirm'', JStr (b64_text c))])))"

definition enroll_confirmed :: "sas_suite \<Rightarrow> (json \<Rightarrow> string) \<Rightarrow> pairing_keys \<Rightarrow> jobj \<Rightarrow> pair_error + unit" where
  "enroll_confirmed S repr pk msg =
     ebind (unb64 repr msg ''confirm'') (\<lambda>theirs.
     ebind (sas_confirm S (pk_material pk) ''slave'' (pk_transcript pk)) (\<lambda>expected.
     if theirs \<noteq> expected then Inl (Pe_Bootstrap ''slave confirmation failed'') else Inr ()))"

text \<open>What the slave makes of the answer after its own user said yes: its own yes goes out either way.\<close>

definition session_matches :: "jobj \<Rightarrow> (pair_error + unit) \<times> jobj" where
  "session_matches msg = (if jget msg ''matches'' = JBool True then Inr () else Inl (Pe_Bootstrap ''SAS rejected''), [(''matches'', JBool True)])"

text \<open>After the ceremony the users agreed on both machines: the envelope. Its JSON has no numbers with a fraction, so
  the text of such a number does not matter in what is written; \<open>rl\<close> reads one.\<close>

definition seal_envelope :: "sas_suite \<Rightarrow> string \<Rightarrow> pairing_keys \<Rightarrow> jobj \<Rightarrow> jobj" where
  "seal_envelope S nonce pk payload =
     (let aad = sx_sha S (pk_transcript pk); raw = json_dumps (\<lambda>x. []) (JObj (sort_key fst payload))
      in [(''nonce'', JStr (b64_text nonce)), (''sealed'', JStr (b64_text (sx_encrypt S (mt_envelope (pk_material pk)) nonce raw aad)))])"

definition open_envelope :: "sas_suite \<Rightarrow> (json \<Rightarrow> string) \<Rightarrow> (string \<Rightarrow> real option) \<Rightarrow> pairing_keys \<Rightarrow> jobj \<Rightarrow> pair_error + json" where
  "open_envelope S repr rl pk msg =
     (let bad = Inl (Pe_Bootstrap ''invalid enrollment envelope'')
      in case (jitem msg ''nonce'', jitem msg ''sealed'') of
           (Inr _, Inr _) \<Rightarrow>
             (case (unb64 repr msg ''nonce'', unb64 repr msg ''sealed'') of
                (Inr nonce, Inr box) \<Rightarrow>
                  (case sx_decrypt S (mt_envelope (pk_material pk)) nonce box (sx_sha S (pk_transcript pk)) of None \<Rightarrow> bad
                   | Some raw \<Rightarrow> (case json_loads rl raw of None \<Rightarrow> bad | Some v \<Rightarrow> Inr v))
              | _ \<Rightarrow> bad)
         | _ \<Rightarrow> bad)"

definition enroll_certify ::
  "crypto \<Rightarrow> sas_suite \<Rightarrow> int \<Rightarrow> time \<Rightarrow> string \<Rightarrow> pairing_keys \<Rightarrow> bootstrap_target \<Rightarrow> cert \<Rightarrow> string \<Rightarrow> int \<Rightarrow> string \<Rightarrow> string \<Rightarrow>
    jobj \<Rightarrow> cluster_node \<Rightarrow> pair_error + cert \<times> jobj" where
  "enroll_certify C S serial now nonce pk t slave_cert signing_public generation name url msg n =
     (if jget msg ''matches'' \<noteq> JBool True then Inl (Pe_Bootstrap ''SAS rejected'')
      else (case (issue_node_certificate C serial now (bt_node t) (ct_key (ct_body slave_cert)) n, load_identity C n,
                  load_certificate (cn_ca_cert n), load_certificate (cn_node_cert n)) of
              (Inr cert, Inr identity, Inr ca, Inr own) \<Rightarrow>
                Inr (cert, seal_envelope S nonce pk
                  [(''cluster_id'', JStr (ci_cluster identity)), (''master_node_id'', JStr (ci_node identity)),
                   (''master_name'', JStr name), (''master_lan_url'', JStr url), (''ca'', JStr (b64_text (sx_pem S ca))),
                   (''master_certificate'', JStr (b64_text (sx_pem S own))), (''node_certificate'', JStr (b64_text (sx_pem S cert))),
                   (''signing_public_key'', JStr (b64_text signing_public)), (''audience_generation'', JInt generation)])
            | (Inl e, _) \<Rightarrow> Inl (Pe_Id e)
            | (_, Inl e, _) \<Rightarrow> Inl (Pe_Id e)
            | (_, _, Inl e, _) \<Rightarrow> Inl (Pe_Id e)
            | (_, _, _, Inl e) \<Rightarrow> Inl (Pe_Id e)))"

text \<open>\<open>enrollment[k]\<close> of a value that should be an object of texts.\<close>

definition entry :: "json \<Rightarrow> string \<Rightarrow> pair_error + json" where
  "entry v k = (case v of JObj ob \<Rightarrow> (case map_of ob k of None \<Rightarrow> Inl Pe_Missing | Some x \<Rightarrow> Inr x) | _ \<Rightarrow> Inl (Pe_Py Type_Error))"

definition entry_text :: "json \<Rightarrow> string \<Rightarrow> pair_error + string" where
  "entry_text v k = ebind (entry v k) (\<lambda>x. case x of JStr s \<Rightarrow> Inr s | _ \<Rightarrow> Inl (Pe_Py Type_Error))"

definition entry_bytes :: "(json \<Rightarrow> string) \<Rightarrow> json \<Rightarrow> string \<Rightarrow> pair_error + string" where
  "entry_bytes repr v k = ebind (entry v k) (\<lambda>x. unb64 repr [(k, x)] k)"

definition entry_cert :: "sas_suite \<Rightarrow> (json \<Rightarrow> string) \<Rightarrow> json \<Rightarrow> string \<Rightarrow> pair_error + cert" where
  "entry_cert S repr v k = ebind (entry_bytes repr v k) (read_cert S)"

text \<open>The installation goes through the files one by one; an error leaves what was written before it.\<close>

definition install_trust :: "crypto \<Rightarrow> string \<Rightarrow> cert \<Rightarrow> cluster_node \<Rightarrow> cluster_node \<times> (pair_error + unit)" where
  "install_trust C master cert n =
     (case load_identity C n of Inl e \<Rightarrow> (n, Inl (Pe_Id e))
      | Inr identity \<Rightarrow>
          (case trust_load (ci_fingerprint identity) (cn_trusted n) of Inl e \<Rightarrow> (n, Inl (Pe_Peer e))
           | Inr ts \<Rightarrow> (case allow_peer master (ct_uris (ct_body cert), ct_serial (ct_body cert)) ts of
                (ts, Inl e) \<Rightarrow> (n, Inl (Pe_Py e)) | (ts, Inr _) \<Rightarrow> (n\<lparr>cn_trusted := ts_file ts\<rparr>, Inr ()))))"

definition install_tickets ::
  "(json \<Rightarrow> string) \<Rightarrow> time \<Rightarrow> string \<Rightarrow> string \<Rightarrow> pair_error + json \<Rightarrow> cluster_node \<Rightarrow> cluster_node \<times> (pair_error + unit)" where
  "install_tickets repr now node signing generation n =
     (let n = n\<lparr>cn_signing_public := Some signing\<rparr>
      in case rev_load repr now True (cn_revocations n) of Inl e \<Rightarrow> (n, Inl (Pe_Rev e))
         | Inr rv \<Rightarrow>
             (case ebind generation (\<lambda>g. case to_int g of Inl e \<Rightarrow> Inl (Pe_Py e) | Inr g \<Rightarrow> Inr g) of Inl e \<Rightarrow> (n, Inl e)
              | Inr g \<Rightarrow> (case synchronize_generation node g rv of
                   (rv, Inl e) \<Rightarrow> (n\<lparr>cn_revocations := rv_disk rv\<rparr>, Inl (Pe_Rev e))
                 | (rv, Inr _) \<Rightarrow> (n\<lparr>cn_revocations := rv_disk rv\<rparr>, Inr ()))))"

definition session_certificates :: "crypto \<Rightarrow> sas_suite \<Rightarrow> (json \<Rightarrow> string) \<Rightarrow> json \<Rightarrow> pair_error + cert \<times> cert \<times> cert \<times> string" where
  "session_certificates C S repr v =
     ebind (entry_cert S repr v ''ca'') (\<lambda>ca. ebind (entry_cert S repr v ''node_certificate'') (\<lambda>cert.
     ebind (entry_cert S repr v ''master_certificate'') (\<lambda>master.
     if \<not> cy_verify C (ct_key (ct_body ca)) (ct_body master) (ct_signature master) then Inl Pe_Signature
     else ebind (entry_text v ''cluster_id'') (\<lambda>cluster. Inr (ca, cert, master, cluster)))))"

definition session_install ::
  "crypto \<Rightarrow> sas_suite \<Rightarrow> (json \<Rightarrow> string) \<Rightarrow> (string \<Rightarrow> real option) \<Rightarrow> time \<Rightarrow> bootstrap_target \<Rightarrow> pairing_keys \<Rightarrow> jobj \<Rightarrow> cluster_node \<Rightarrow>
    cluster_node \<times> (pair_error + (string \<times> string) \<times> jobj)" where
  "session_install C S repr rl now t pk msg n =
     (case ebind (open_envelope S repr rl pk msg) (\<lambda>v. ebind (session_certificates C S repr v) (\<lambda>cs. Inr (v, cs))) of
        Inl e \<Rightarrow> (n, Inl e)
      | Inr (v, ca, cert, master, cluster) \<Rightarrow>
          (case install_joined_identity C now cluster (bt_node t) ca cert n of (n, Inl e) \<Rightarrow> (n, Inl (Pe_Id e))
           | (n, Inr identity) \<Rightarrow>
               (case entry_text v ''master_node_id'' of Inl e \<Rightarrow> (n, Inl e)
                | Inr leader \<Rightarrow>
                    (case install_trust C leader master n of (n, Inl e) \<Rightarrow> (n, Inl e)
                     | (n, Inr _) \<Rightarrow>
                         (case entry_bytes repr v ''signing_public_key'' of Inl e \<Rightarrow> (n, Inl e)
                          | Inr signing \<Rightarrow>
                              if length signing \<noteq> 32 then (n, Inl (Pe_Bootstrap ''invalid signing key''))
                              else (case install_tickets repr now (bt_node t) signing (entry v ''audience_generation'') n of
                                      (n, Inl e) \<Rightarrow> (n, Inl e)
                                    | (n, Inr _) \<Rightarrow>
                                        (let txt = (\<lambda>k. case v of JObj ob \<Rightarrow> (let x = jget ob k in if truthy x then to_str repr x else []) | _ \<Rightarrow> [])
                                         in (n, Inr ((txt ''master_name'', txt ''master_lan_url''), [(''status'', JStr ''installed'')])))))))))"

definition enroll_finish ::
  "(json \<Rightarrow> string) \<Rightarrow> bootstrap_target \<Rightarrow> int \<Rightarrow> jobj \<Rightarrow> cert \<Rightarrow> jobj \<Rightarrow> trust_store \<Rightarrow> registry \<Rightarrow> (trust_store \<times> registry) \<times> (pair_error + slave_node)" where
  "enroll_finish repr t created hello cert msg ts rg =
     (if jget msg ''status'' \<noteq> JStr ''installed'' then ((ts, rg), Inl (Pe_Bootstrap ''installation failed''))
      else (case allow_peer (bt_node t) (ct_uris (ct_body cert), ct_serial (ct_body cert)) ts of
              (ts, Inl e) \<Rightarrow> ((ts, rg), Inl (Pe_Py e))
            | (ts, Inr _) \<Rightarrow>
                (let name = (let x = jget hello ''name'' in if truthy x then to_str repr x else bt_name t);
                     node = \<lparr>sn_id = bt_node t, sn_name = name, sn_host = bt_host t, sn_port = bt_content_port t,
                             sn_serial = ct_serial (ct_body cert), sn_online = False, sn_created = created\<rparr>
                 in case registry_add node rg of
                      (rg, Inl e) \<Rightarrow> ((ts, rg), Inl (Pe_Py e)) | (rg, Inr _) \<Rightarrow> ((ts, rg), Inr node))))"

section \<open>Only a decision opens the ceremony\<close>

fun is_claim :: "ceremony_op \<times> bool \<Rightarrow> bool" where
  "is_claim (Ce_Claim now, ok) = ok"
| "is_claim _ = False"

fun is_decision :: "ceremony_op \<times> bool \<Rightarrow> bool" where
  "is_decision (Ce_Decide b, ok) = ok"
| "is_decision _ = False"

definition ended :: "(ceremony_op \<times> bool) list \<Rightarrow> bool" where
  "ended l \<longleftrightarrow> (Ce_Close, True) \<in> set l \<or> (Ce_Wait, False) \<in> set l"

definition presented :: "(ceremony_op \<times> bool) list \<Rightarrow> bool" where
  "presented l \<longleftrightarrow> (\<exists>a b d t v. l = a @ (Ce_Claim t, True) # b @ (Ce_Present v, True) # d)"

definition decided :: "bool \<Rightarrow> (ceremony_op \<times> bool) list \<Rightarrow> bool" where
  "decided x l \<longleftrightarrow> (\<exists>a b c d t v. l = a @ (Ce_Claim t, True) # b @ (Ce_Present v, True) # c @ (Ce_Decide x, True) # d)"

definition ceremony_story :: "int \<Rightarrow> (ceremony_op \<times> bool) list \<Rightarrow> ceremony \<Rightarrow> bool" where
  "ceremony_story expires l c \<longleftrightarrow> ce_expires c = expires \<and>
     (ended l \<longrightarrow> ce_closed c \<and> ce_decision c = None) \<and>
     (ce_claimed c = (filter is_claim l \<noteq> [])) \<and>
     (filter is_claim l = [] \<or> (\<exists>t. filter is_claim l = [(Ce_Claim t, True)] \<and> py_int t \<le> expires)) \<and>
     (ce_sas c \<noteq> [] \<longrightarrow> presented l) \<and>
     (\<forall>x. ce_decision c = Some x \<longrightarrow> filter is_decision l = [(Ce_Decide x, True)] \<and> decided x l) \<and>
     (ce_decision c = None \<longrightarrow> filter is_decision l = [] \<or> ce_closed c)"

lemma decided_snoc: "decided x l \<Longrightarrow> decided x (l @ [e])"
  unfolding decided_def by (metis append_Cons append_assoc)

lemma presented_snoc: "presented l \<Longrightarrow> presented (l @ [e])"
  unfolding presented_def by (metis append_Cons append_assoc)

lemma presented_decides: "presented l \<Longrightarrow> decided x (l @ [(Ce_Decide x, True)])"
  unfolding presented_def decided_def by (metis append_Cons append_assoc append_Nil)

lemma claimed_presents:
  assumes "filter is_claim l = [(Ce_Claim t, True)]"
  shows "presented (l @ [(Ce_Present v, True)])"
proof -
  have "(Ce_Claim t, True) \<in> set l" using assms by (metis filter_eq_ConsD in_set_conv_decomp)
  then obtain a b where "l = a @ (Ce_Claim t, True) # b" by (meson split_list)
  then show ?thesis unfolding presented_def by fastforce
qed

lemma ceremony_story_step:
  assumes "ceremony_story e l c"
  shows "ceremony_story e (l @ [(op, snd (ceremony_step op c))]) (fst (ceremony_step op c))"
proof -
  have d: "decided x (l @ [(op, r)])" if "ce_decision c = Some x" for x r using assms that decided_snoc by (simp add: ceremony_story_def)
  have p: "presented (l @ [(op, r)])" if "ce_sas c \<noteq> []" for r using assms that presented_snoc by (simp add: ceremony_story_def)
  show ?thesis
  proof (cases op)
    case (Ce_Claim now)
    then show ?thesis using assms d p by (auto simp: ceremony_story_def ceremony_claim_def ended_def)
  next
    case (Ce_Present v)
    then show ?thesis using assms d p claimed_presents [of l _ v]
      by (auto simp: ceremony_story_def ceremony_present_def ended_def)
  next
    case (Ce_Decide b)
    then show ?thesis using assms d p presented_decides [of l b] by (auto simp: ceremony_story_def ceremony_decide_def ended_def)
  next
    case Ce_Wait
    then show ?thesis using assms d p by (auto simp: ceremony_story_def ceremony_wait_def close_ceremony_def ended_def)
  next
    case Ce_Close
    then show ?thesis using assms d p by (auto simp: ceremony_story_def close_ceremony_def ended_def)
  qed
qed

fun ceremony_after :: "ceremony_op list \<Rightarrow> ceremony \<Rightarrow> ceremony" where
  "ceremony_after [] c = c"
| "ceremony_after (op # ops) c = ceremony_after ops (fst (ceremony_step op c))"

lemma ceremony_story_run:
  "ceremony_story e l c \<Longrightarrow> ceremony_story e (l @ ceremony_run ops c) (ceremony_after ops c)"
proof (induction ops arbitrary: l c)
  case Nil
  then show ?case by simp
next
  case (Cons op ops)
  from Cons.IH [OF ceremony_story_step [OF Cons.prems, of op]] show ?case by simp
qed

lemma ceremony_run_split:
  "ceremony_run ops c = l1 @ (op, r) # l2 \<Longrightarrow> \<exists>ops1. l1 = ceremony_run ops1 c \<and> r = snd (ceremony_step op (ceremony_after ops1 c))"
proof (induction l1 arbitrary: ops c)
  case Nil
  then show ?case by (cases ops) (auto intro: exI [of _ "[]"])
next
  case (Cons x l1)
  then obtain op' ops' where o: "ops = op' # ops'" by (cases ops) auto
  with Cons.prems have "ceremony_run ops' (fst (ceremony_step op' c)) = l1 @ (op, r) # l2" "x = (op', snd (ceremony_step op' c))" by auto
  with Cons.IH [OF this(1)] show ?case by (metis ceremony_after.simps(2) ceremony_run.simps(2))
qed

text \<open>Whatever the threads of a node do with a ceremony, in any order: when a wait
  succeeds the window had been claimed once, before it expired; then six digits were shown; then one decision was
  taken, and it was yes; and the ceremony had not been ended before.\<close>

theorem wait_needs_decision:
  assumes "ceremony_run ops (new_ceremony now) = l1 @ (Ce_Wait, True) # l2"
  shows "decided True l1 \<and> filter is_decision l1 = [(Ce_Decide True, True)] \<and>
    (\<exists>t. filter is_claim l1 = [(Ce_Claim t, True)] \<and> py_int t \<le> py_int now + sas_ttl) \<and> \<not> ended l1"
proof -
  obtain ops1 where l1: "l1 = ceremony_run ops1 (new_ceremony now)" and w: "snd (ceremony_wait (ceremony_after ops1 (new_ceremony now)))"
    using ceremony_run_split [OF assms] by auto
  have "ceremony_story (py_int now + sas_ttl) [] (new_ceremony now)"
    by (simp add: ceremony_story_def new_ceremony_def ended_def)
  from ceremony_story_run [OF this, of ops1] have st: "ceremony_story (py_int now + sas_ttl) l1 (ceremony_after ops1 (new_ceremony now))"
    by (simp add: l1)
  have "ce_decision (ceremony_after ops1 (new_ceremony now)) = Some True" using w by (simp add: ceremony_wait_def split: if_splits)
  with st have d: "decided True l1" "filter is_decision l1 = [(Ce_Decide True, True)]" "\<not> ended l1"
    by (auto simp: ceremony_story_def)
  then have "filter is_claim l1 \<noteq> []" by (auto simp: decided_def)
  with st have "\<exists>t. filter is_claim l1 = [(Ce_Claim t, True)] \<and> py_int t \<le> py_int now + sas_ttl" by (simp add: ceremony_story_def)
  with d show ?thesis by blast
qed

theorem wait_needs_decision_witness:
  "decided True [(Ce_Claim 5, True), (Ce_Claim 6, False), (Ce_Present ''123456'', True), (Ce_Decide True, True), (Ce_Decide False, False)]"
proof -
  have "ceremony_run [Ce_Claim 5, Ce_Claim 6, Ce_Present ''123456'', Ce_Decide True, Ce_Decide False, Ce_Wait] (new_ceremony 0) =
      [(Ce_Claim 5, True), (Ce_Claim 6, False), (Ce_Present ''123456'', True), (Ce_Decide True, True), (Ce_Decide False, False)] @ (Ce_Wait, True) # []"
    by (simp add: new_ceremony_def ceremony_claim_def ceremony_present_def ceremony_decide_def ceremony_wait_def sas_ttl_def is_digit_def code_def)
  from wait_needs_decision [OF this] show ?thesis by blast
qed

section \<open>Who confirms agrees\<close>

lemma char_of_inj: "m < (256::nat) \<Longrightarrow> n < 256 \<Longrightarrow> char_of m = (char_of n :: char) \<Longrightarrow> m = n"
  by (metis code_char_of)

lemma be16_inj: "m < 65536 \<Longrightarrow> n < 65536 \<Longrightarrow> be16 m @ s = be16 n @ t \<Longrightarrow> m = n \<and> s = t"
proof -
  assume h: "m < 65536" "n < 65536" "be16 m @ s = be16 n @ t"
  have c: "char_of (m div 256) = (char_of (n div 256) :: char)" "char_of (m mod 256) = (char_of (n mod 256) :: char)" "s = t"
    using h(3) by (simp_all only: be16_def append_Cons append_Nil list.inject)
  have "m div 256 < 256" "n div 256 < 256" "m mod 256 < 256" "n mod 256 < 256" using h(1,2) by auto
  then have "m div 256 = n div 256" "m mod 256 = n mod 256" using char_of_inj c(1,2) by blast+
  with c(3) show ?thesis by (metis div_mult_mod_eq)
qed

lemma frame_values_inj:
  "frame_values vs = Inr s \<Longrightarrow> frame_values vs' = Inr s' \<Longrightarrow> length vs = length vs' \<Longrightarrow> s @ t = s' @ t' \<Longrightarrow> vs = vs' \<and> t = t'"
proof (induction vs arbitrary: vs' s s')
  case Nil
  then show ?case by simp
next
  case (Cons v vs)
  then obtain v' vs1 where v': "vs' = v' # vs1" by (cases vs') auto
  obtain r r' where r: "frame_values vs = Inr r" "s = be16 (length v) @ v @ r" "length v < 65536"
    and r': "frame_values vs1 = Inr r'" "s' = be16 (length v') @ v' @ r'" "length v' < 65536"
    using Cons.prems(1,2) by (auto simp: v' ebind_Inr not_le split: if_splits)
  have e: "length v = length v'" "(v @ r) @ t = (v' @ r') @ t'"
    using be16_inj [OF r(3) r'(3), of "(v @ r) @ t" "(v' @ r') @ t'"] Cons.prems(4) by (simp_all add: r(2) r'(2))
  then have "v = v'" "r @ t = r' @ t'" by auto
  with Cons.IH [OF r(1) r'(1)] Cons.prems(3) v' show ?case by simp
qed

lemma utf8_Cons: "utf8 (c # s) = (if code c < 128 then [c] else [char_of (192 + code c div 64), char_of (128 + code c mod 64)]) @ utf8 s"
  by (simp add: utf8_def)

lemma utf8_head: "code c div 64 < 4 \<and> code c mod 64 < 64"
  using code_less [of c] by (simp add: less_mult_imp_div_less)

lemma code_inj: "code c = code d \<Longrightarrow> c = d"
  by (metis char_of_code)

lemma utf8_high: "code c < 256 \<Longrightarrow> code (char_of (192 + code c div 64)) = 192 + code c div 64"
  using utf8_head [of c] by (intro code_char_of) linarith

lemma high_first: "char_of (192 + code c div 64) = d \<Longrightarrow> \<not> code d < 128"
  using utf8_high [OF code_less, of c] by auto

lemma utf8_inj: "utf8 s = utf8 t \<Longrightarrow> s = t"
proof (induction s arbitrary: t)
  case Nil
  then show ?case by (cases t) (auto simp: utf8_Cons utf8_def split: if_splits)
next
  case (Cons c s)
  then obtain d t' where t: "t = d # t'" by (cases t) (auto simp: utf8_Cons utf8_def split: if_splits)
  show ?case
  proof (cases "code c < 128")
    case True
    have "code d < 128"
    proof (rule ccontr)
      assume "\<not> code d < 128"
      with True Cons.prems have "char_of (192 + code d div 64) = c" by (simp only: t utf8_Cons if_True if_False append_Cons list.inject)
      with high_first True show False by blast
    qed
    with True Cons show ?thesis by (simp add: t utf8_Cons)
  next
    case False
    have d: "\<not> code d < 128"
    proof
      assume "code d < 128"
      with False Cons.prems have "char_of (192 + code c div 64) = d" by (simp only: t utf8_Cons if_True if_False append_Cons list.inject)
      with high_first \<open>code d < 128\<close> show False by blast
    qed
    have e: "char_of (192 + code c div 64) = (char_of (192 + code d div 64) :: char)" "char_of (128 + code c mod 64) = (char_of (128 + code d mod 64) :: char)"
      "utf8 s = utf8 t'" using Cons.prems False d by (simp_all only: t utf8_Cons if_False append_Cons append_Nil list.inject)
    have "192 + code c div 64 = 192 + code d div 64" by (rule char_of_inj [OF _ _ e(1)]) (use utf8_head [of c] utf8_head [of d] in linarith)+
    moreover have "128 + code c mod 64 = 128 + code d mod 64"
      by (rule char_of_inj [OF _ _ e(2)]) (use utf8_head [of c] utf8_head [of d] in linarith)+
    ultimately have "code c div 64 = code d div 64" "code c mod 64 = code d mod 64" by simp_all
    then have "code c = code d" by (metis div_mult_mod_eq)
    then show ?thesis using Cons.IH [OF e(3)] by (simp add: t code_inj)
  qed
qed

lemma make_context_inj:
  assumes "make_context w m s mp sp mf sf = Inr ctx" and "make_context w' m' s' mp' sp' mf' sf' = Inr ctx'" and "ctx @ t = ctx' @ t'"
  shows "w = w' \<and> m = m' \<and> s = s' \<and> mp = mp' \<and> sp = sp' \<and> mf = mf' \<and> sf = sf' \<and> t = t'"
proof -
  have "frame_values [sas_label, utf8 w, utf8 m, utf8 s, mp, sp, mf, sf] = Inr ctx"
    "frame_values [sas_label, utf8 w', utf8 m', utf8 s', mp', sp', mf', sf'] = Inr ctx'"
    using assms(1,2) by (auto simp only: make_context_def Let_def split: if_splits)
  from frame_values_inj [OF this _ assms(3)] show ?thesis by (auto dest: utf8_inj)
qed

text \<open>What a successful step of either side has established.\<close>

lemma enroll_startD:
  assumes "enroll_start C S repr t slave_cert sk nonce hello n = Inr (pv, m1)"
  obtains identity own peer ctx where "load_identity C n = Inr identity" and "load_certificate (cn_node_cert n) = Inr own" and "pv_peer pv = peer"
    and "make_context (bt_window t) (ci_node identity) (bt_node t) (sx_public S sk) peer (sx_fp S own) (sx_fp S slave_cert) = Inr ctx"
    and "pv_ctx pv = ctx"
  using assms that by (auto simp: enroll_start_def ebind_Inr split: if_splits sum.splits)

lemma session_commitD:
  assumes "session_commit S repr t slave_cert sk nonce first = Inr (pv, m1)"
  obtains raw master_cert master ctx where "unb64 repr first ''certificate'' = Inr raw" and "read_cert S raw = Inr master_cert" and "cert_node master_cert = Inr master"
    and "make_context (bt_window t) master (bt_node t) (pv_peer pv) (sx_public S sk) (sx_fp S master_cert) (sx_fp S slave_cert) = Inr ctx"
    and "pv_ctx pv = ctx"
  using assms that by (fastforce simp: session_commit_def ebind_Inr)

lemma enroll_revealD: "enroll_reveal repr nonce pv msg = Inr (pv', m) \<Longrightarrow> pv_ctx pv' = pv_ctx pv \<and> pv_peer pv' = pv_peer pv"
  by (auto simp: enroll_reveal_def ebind_Inr)

lemma enroll_verifyD:
  assumes "enroll_verify S repr sk nonce pv msg = Inr (pk, m)"
  obtains theirs where "full_transcript (pv_ctx pv) nonce theirs = Inr (pk_transcript pk)"
    and "derive_material S sk (pv_peer pv) (pk_transcript pk) = Inr (pk_material pk)"
  using assms that by (fastforce simp: enroll_verify_def ebind_Inr split: if_splits)

lemma session_revealD:
  assumes "session_reveal S repr sk nonce pv msg = Inr (pk, m)"
  obtains theirs where "full_transcript (pv_ctx pv) theirs nonce = Inr (pk_transcript pk)"
    and "derive_material S sk (pv_peer pv) (pk_transcript pk) = Inr (pk_material pk)"
  using assms that by (fastforce simp: session_reveal_def ebind_Inr split: if_splits)

definition confirm_text :: "string \<Rightarrow> string" where
  "confirm_text transcript = sas_label @ ''/confirm/slave'' @ transcript"

lemma confirm_text_inj [simp]: "confirm_text s = confirm_text t \<longleftrightarrow> s = t"
  by (simp add: confirm_text_def)

lemma confirmed_macs:
  assumes "enroll_confirmed S repr pk r = Inr ()" and "session_confirm S repr pk' r' = Inr s3" and "jget r ''confirm'' = jget s3 ''confirm''"
  shows "sx_mac S (mt_slave (pk_material pk)) (confirm_text (pk_transcript pk)) = sx_mac S (mt_slave (pk_material pk')) (confirm_text (pk_transcript pk'))"
  using assms
  by (auto simp: enroll_confirmed_def session_confirm_def sas_confirm_def confirm_text_def unb64_def ebind_Inr jget_def b64_roundtrip
      split: if_splits option.splits)

lemma full_transcript_eq:
  "full_transcript ctx a b = Inr t \<longleftrightarrow> length a = 16 \<and> length b = 16 \<and> t = ctx @ a @ b"
  by (auto simp: full_transcript_def)

lemma derive_exchange:
  assumes "suite_ok S" and "derive_material S a (sx_public S b) t = Inr m" and "derive_material S b (sx_public S a) t = Inr m'"
  shows "m = m'"
proof -
  have "sx_exchange S a (sx_public S b) = sx_exchange S b (sx_public S a)" using assms(1) by (simp add: suite_ok_def)
  with assms(2,3) show ?thesis by (simp add: derive_material_def)
qed

text \<open>C31 (a confirmed pairing is agreed). Let somebody in between deliver to both machines whatever messages he
  wants. If the master gets to the end of the handshake, and the confirmation it accepts is the one a slave sent, then
  (unless the slave's MAC collides on the two transcripts) both used the same window, identifiers, public keys,
  certificates and nonces, each holds the public key of the other, and they hold the same keys and show the same digits.\<close>

theorem pairing_agreement:
  assumes S: "suite_ok S"
    and start: "enroll_start C S repr t slave_cert sk nonce hello n = Inr (pv, m1)" and reveal: "enroll_reveal repr nonce pv r1 = Inr (pv1, m2)"
    and verify: "enroll_verify S repr sk nonce pv1 r2 = Inr (pk, m3)" and accepted: "enroll_confirmed S repr pk r3 = Inr ()"
    and commit: "session_commit S repr t' slave_cert' sk' nonce' first = Inr (pv', s1)"
    and shown: "session_reveal S repr sk' nonce' pv' r1' = Inr (pk', s2)"
    and sent: "session_confirm S repr pk' r2' = Inr s3" and same: "jget r3 ''confirm'' = jget s3 ''confirm''"
  shows "(pk_transcript pk \<noteq> pk_transcript pk' \<and>
      sx_mac S (mt_slave (pk_material pk)) (confirm_text (pk_transcript pk)) = sx_mac S (mt_slave (pk_material pk')) (confirm_text (pk_transcript pk'))) \<or>
    (pk = pk' \<and> bt_window t = bt_window t' \<and> bt_node t = bt_node t' \<and> pv_peer pv = sx_public S sk' \<and> pv_peer pv' = sx_public S sk \<and>
     sx_fp S slave_cert = sx_fp S slave_cert' \<and>
     (\<exists>identity own raw received. load_identity C n = Inr identity \<and> load_certificate (cn_node_cert n) = Inr own \<and>
        unb64 repr first ''certificate'' = Inr raw \<and> read_cert S raw = Inr received \<and>
        cert_node received = Inr (ci_node identity) \<and> sx_fp S received = sx_fp S own))"
proof (cases "pk_transcript pk = pk_transcript pk'")
  case False
  with confirmed_macs [OF accepted sent same] show ?thesis by blast
next
  case True
  obtain identity own where a: "load_identity C n = Inr identity" "load_certificate (cn_node_cert n) = Inr own"
    "make_context (bt_window t) (ci_node identity) (bt_node t) (sx_public S sk) (pv_peer pv) (sx_fp S own) (sx_fp S slave_cert) = Inr (pv_ctx pv)"
    using enroll_startD [OF start] by metis
  obtain raw received master where b: "unb64 repr first ''certificate'' = Inr raw" "read_cert S raw = Inr received" "cert_node received = Inr master"
    "make_context (bt_window t') master (bt_node t') (pv_peer pv') (sx_public S sk') (sx_fp S received) (sx_fp S slave_cert') = Inr (pv_ctx pv')"
    using session_commitD [OF commit] by metis
  obtain x where x: "pk_transcript pk = pv_ctx pv @ nonce @ x" "derive_material S sk (pv_peer pv) (pk_transcript pk) = Inr (pk_material pk)"
    using enroll_verifyD [OF verify] enroll_revealD [OF reveal] full_transcript_eq by metis
  obtain y where y: "pk_transcript pk' = pv_ctx pv' @ y @ nonce'" "derive_material S sk' (pv_peer pv') (pk_transcript pk') = Inr (pk_material pk')"
    using session_revealD [OF shown] full_transcript_eq by metis
  have e: "bt_window t = bt_window t' \<and> ci_node identity = master \<and> bt_node t = bt_node t' \<and> sx_public S sk = pv_peer pv' \<and>
      pv_peer pv = sx_public S sk' \<and> sx_fp S own = sx_fp S received \<and> sx_fp S slave_cert = sx_fp S slave_cert'"
    using make_context_inj [OF a(3) b(4), of "nonce @ x" "y @ nonce'"] x(1) y(1) True by metis
  then have "pk_material pk = pk_material pk'" using derive_exchange [OF S, of sk sk'] x(2) y(2) True by metis
  with True have "pk = pk'" by simp
  with a(1,2) b(1,2,3) e show ?thesis by metis
qed

section \<open>A master proves itself\<close>

definition certified :: "crypto \<Rightarrow> cluster_node \<Rightarrow> bool" where
  "certified C n \<longleftrightarrow> (\<forall>cluster node fp. cn_identity n = Some (cluster, node, fp) \<longrightarrow>
     valid_identifier cluster \<and> valid_identifier node \<and>
     (\<exists>ca cert. cn_ca_cert n = Some ca \<and> cn_node_cert n = Some cert \<and>
        cy_verify C (ct_key (ct_body ca)) (ct_body cert) (ct_signature cert) \<and> ct_uris (ct_body cert) = Some [node_uri_prefix @ node]))"

lemma build_node_facts [simp]: "ct_uris (ct_body (build_node C now serial public node k ca)) = Some [node_uri_prefix @ node]"
  "ct_serial (ct_body (build_node C now serial public node k ca)) = serial"
  "ct_key (ct_body (build_node C now serial public node k ca)) = public"
  "ct_issuer (ct_body (build_node C now serial public node k ca)) = ct_subject (ct_body ca)"
  "ct_from (ct_body (build_node C now serial public node k ca)) = py_int (now - 60)"
  "ct_until (ct_body (build_node C now serial public node k ca)) = py_int (now + 90 * 86400)"
  by (simp_all add: build_node_def Let_def node_valid_days_def)

lemma build_node_verifies: "crypto_ok C \<Longrightarrow> cy_verify C (cy_public C k) (ct_body (build_node C now serial public node k ca)) (ct_signature (build_node C now serial public node k ca))"
  by (simp add: build_node_def Let_def crypto_ok_def)

lemma certified_create: "crypto_ok C \<Longrightarrow> certified C n \<Longrightarrow> certified C (fst (create_master_identity C dr now cluster node n))"
  by (auto simp: create_master_identity_def Let_def certified_def write_identity_def node_defs build_node_verifies)

lemma certified_join: "certified C n \<Longrightarrow> certified C (fst (install_joined_identity C now cluster node ca cert n))"
  by (auto simp: install_joined_identity_def joined_certificates_def certified_def Let_def split: sum.splits if_splits)

lemma certified_renew:
  assumes "crypto_ok C" and "identity_ok C n" and "certified C n"
  shows "certified C (fst (renew_master_certificate C serial now n))"
proof (cases "\<exists>identity key cert. load_identity C n = Inr identity \<and> load_node_private_key C n = Inr key \<and>
    issue_node_certificate C serial now (ci_node identity) (cy_public C key) n = Inr cert")
  case False
  then have "fst (renew_master_certificate C serial now n) = n" by (auto simp: renew_master_certificate_def split: sum.splits)
  with assms(3) show ?thesis by simp
next
  case True
  then obtain identity key cert where r: "load_identity C n = Inr identity" "load_node_private_key C n = Inr key"
    "issue_node_certificate C serial now (ci_node identity) (cy_public C key) n = Inr cert" by blast
  obtain k ca where k: "load_key C ca_password_name (cn_ca_key n) n = Inr k" "cn_ca_cert n = Some ca"
    "cert = build_node C now serial (cy_public C key) (ci_node identity) k ca"
    using r(3) by (auto simp: issue_node_certificate_def load_certificate_def split: if_splits sum.splits option.splits)
  obtain t where t: "cn_ca_key n = Some t" using k(1) by (auto simp: load_key_def bind_eq_Some_conv split: sum.splits option.splits)
  with assms(2) k(2) obtain k' where k': "sealed C ca_password_name n t k'" "ct_key (ct_body ca) = cy_public C k'"
    by (fastforce simp: identity_ok_def)
  with load_key_sealed [OF assms(1) k'(1)] k(1) t have "ct_key (ct_body ca) = cy_public C k" by simp
  then show ?thesis using r k(2,3) assms(1,3)
    by (auto simp: renew_master_certificate_def Let_def certified_def build_node_verifies load_identity_def split: sum.splits option.splits)
qed

lemma certified_same: "certified C n \<Longrightarrow> cn_identity n' = cn_identity n \<Longrightarrow> cn_ca_cert n' = cn_ca_cert n \<Longrightarrow> cn_node_cert n' = cn_node_cert n \<Longrightarrow> certified C n'"
  by (simp add: certified_def)

lemma certified_step: "crypto_ok C \<Longrightarrow> identity_ok C n \<Longrightarrow> certified C n \<Longrightarrow> certified C (id_step C s n)"
proof (cases s)
  case (Id_Ensure_Key password key)
  assume "certified C n"
  then show ?thesis
    by (rule certified_same) (simp_all add: Id_Ensure_Key ensure_node_key_def create_node_key_def node_defs Let_def)
next
  case (Id_Promote password raw)
  assume "certified C n"
  then show ?thesis
    by (rule certified_same) (auto simp: Id_Promote install_promoted_ca_def node_defs Let_def split: option.split sum.split)
next
  case Id_Demote
  assume "certified C n"
  then show ?thesis
    by (rule certified_same) (simp_all add: Id_Demote demote_master_identity_def node_defs Let_def)
next
  case (Id_Recover dr now)
  assume "crypto_ok C"
  then show ?thesis unfolding Id_Recover id_step.simps recover_compromised_ca_def Let_def
    by (rule certified_create) (simp add: certified_def backend_delete_def)
next
  case Id_Delete
  then show ?thesis by (simp add: delete_joined_identity_def Let_def certified_def node_defs)
qed (simp_all add: certified_create certified_join certified_renew)

lemma certified_run: "crypto_ok C \<Longrightarrow> identity_ok C n \<Longrightarrow> certified C n \<Longrightarrow> certified C (id_run C ss n)"
  by (induction ss arbitrary: n) (simp_all add: id_step_keeps certified_step)

lemma certified_new [simp]: "certified C new_node"
  by (simp add: certified_def new_node_def)

lemma master_proves:
  assumes "crypto_ok C" and "m = id_run C ss new_node" and "master_exists m"
  obtains k ca own cluster node p where "cn_ca_cert m = Some ca" and "proper_ca C ca" and "ct_key (ct_body ca) = cy_public C k"
    and "load_key C ca_password_name (cn_ca_key m) m = Inr k"
    and "cn_node_cert m = Some own" and "cy_verify C (ct_key (ct_body ca)) (ct_body own) (ct_signature own)" and "cert_node own = Inr node"
    and "load_identity C m = Inr \<lparr>ci_cluster = cluster, ci_node = node, ci_password = p, ci_fingerprint = cy_fingerprint C ca\<rparr>"
    and "valid_identifier cluster" and "valid_identifier node"
proof -
  have ok: "identity_ok C m" "certified C m" using assms(1,2) by (simp_all add: id_run_keeps certified_run)
  obtain k ca where k: "cn_ca_cert m = Some ca" "proper_ca C ca" "ct_key (ct_body ca) = cy_public C k"
    "load_key C ca_password_name (cn_ca_key m) m = Inr k"
    using master_authority [OF assms(1) ok(1) assms(3)] by metis
  obtain cluster node fp where i: "cn_identity m = Some (cluster, node, fp)" using assms(3) by (auto simp: master_exists_def common_files_def)
  obtain p where p: "load_identity C m = Inr \<lparr>ci_cluster = cluster, ci_node = node, ci_password = p, ci_fingerprint = cy_fingerprint C ca\<rparr>"
    using loaded_identity [OF ok(1) i] k(1) by auto
  obtain own where o: "cn_node_cert m = Some own" "cy_verify C (ct_key (ct_body ca)) (ct_body own) (ct_signature own)"
    "ct_uris (ct_body own) = Some [node_uri_prefix @ node]" "valid_identifier cluster" "valid_identifier node"
    using ok(2) i k(1) by (auto simp: certified_def)
  have "cert_node own = Inr node" using o(3) by (simp add: cert_node_def starts_with_def)
  from that [OF k o(1,2) this p o(4,5)] show thesis .
qed

section \<open>A pairing nobody disturbs\<close>

definition honest_handshake ::
  "crypto \<Rightarrow> sas_suite \<Rightarrow> (json \<Rightarrow> string) \<Rightarrow> bootstrap_target \<Rightarrow> cert \<Rightarrow> string \<times> string \<Rightarrow> string \<times> string \<Rightarrow> cluster_node \<Rightarrow>
    pair_error + pairing_keys \<times> pairing_keys" where
  "honest_handshake C S repr t cert = (\<lambda>(sk, nonce) (sk', nonce') n.
     ebind (enroll_start C S repr t cert sk nonce (session_hello S t sk') n) (\<lambda>(pv, m1).
     ebind (session_commit S repr t cert sk' nonce' m1) (\<lambda>(pv', s1).
     ebind (enroll_reveal repr nonce pv s1) (\<lambda>(pv, m2).
     ebind (session_reveal S repr sk' nonce' pv' m2) (\<lambda>(pk', s2).
     ebind (enroll_verify S repr sk nonce pv s2) (\<lambda>(pk, m3).
     ebind (session_confirm S repr pk' m3) (\<lambda>s3.
     ebind (enroll_confirmed S repr pk s3) (\<lambda>_. Inr (pk, pk')))))))))"

lemma unb64_sent [simp]: "unb64 repr [(k, JStr (b64_text v))] k = Inr v"
  by (simp add: unb64_def jget_def b64_roundtrip)

lemma unb64_get: "jget ob k = JStr (b64_text v) \<Longrightarrow> unb64 repr ob k = Inr v"
  by (simp add: unb64_def b64_roundtrip)

lemma frame_values_total: "list_all (\<lambda>v. length v < 65536) vs \<Longrightarrow> \<exists>s. frame_values vs = Inr s"
  by (induction vs) (auto simp: ebind_Inr)

lemma show_nat_length: "n < 10 ^ k \<Longrightarrow> 0 < k \<Longrightarrow> length (show_nat n) \<le> k"
proof (induction k arbitrary: n)
  case 0
  then show ?case by simp
next
  case (Suc k)
  show ?case
  proof (cases "n < 10")
    case True
    then show ?thesis by (simp add: show_nat.simps [of n])
  next
    case False
    with Suc.prems(1) have "n div 10 < 10 ^ k" "0 < k" by (auto intro: gr0I)
    with False Suc.IH [of "n div 10"] show ?thesis by (simp add: show_nat.simps [of n])
  qed
qed

lemma six_digits_ok: "n < 1000000 \<Longrightarrow> length (six_digits n) = 6 \<and> list_all is_digit (six_digits n)"
proof -
  assume n: "n < 1000000"
  have "length (show_nat n) \<le> 6" using show_nat_length [of n 6] n by simp
  then show ?thesis using show_nat_digits [of n] by (auto simp: six_digits_def Let_def is_digit_def list_all_iff code_def)
qed

lemma length_utf8: "length (utf8 s) \<le> 2 * length s"
  by (induction s) (auto simp: utf8_Cons utf8_def)

lemma utf8_empty [simp]: "utf8 s = [] \<longleftrightarrow> s = []"
  by (cases s) (auto simp: utf8_Cons utf8_def)

lemma context_total:
  assumes "suite_ok S" and "length window = 16" and "valid_identifier master" and "valid_identifier slave"
  shows "\<exists>ctx. make_context window master slave (sx_public S a) (sx_public S b) (sx_fp S c) (sx_fp S d) = Inr ctx"
proof -
  have l: "length (sx_public S a) = 32" "length (sx_public S b) = 32" "length (sx_fp S c) = 32" "length (sx_fp S d) = 32" for a b c d
    using assms(1) by (simp_all add: suite_ok_def)
  have "sx_public S a \<noteq> []" "sx_public S b \<noteq> []" "sx_fp S c \<noteq> []" "sx_fp S d \<noteq> []"
    using l(1) [of a] l(2) [of b] l(3) [of c] l(4) [of d] by auto
  moreover have "window \<noteq> []" "master \<noteq> []" "slave \<noteq> []" "length master \<le> 64" "length slave \<le> 64"
    using assms(2-4) by (auto simp: valid_identifier_def)
  moreover have "list_all (\<lambda>v. length v < 65536) [sas_label, utf8 window, utf8 master, utf8 slave, sx_public S a, sx_public S b, sx_fp S c, sx_fp S d]"
    using length_utf8 [of window] length_utf8 [of master] length_utf8 [of slave] calculation assms(2) by (simp add: l sas_label_def)
  ultimately show ?thesis using frame_values_total assms(2) by (simp add: make_context_def Let_def l sas_label_def)
qed

lemma derive_total:
  assumes "suite_ok S"
  shows "\<exists>m. derive_material S a (sx_public S b) t = Inr m \<and> derive_material S b (sx_public S a) t = Inr m \<and>
    length (mt_sas m) = 6 \<and> list_all is_digit (mt_sas m)"
proof -
  have e: "sx_exchange S a (sx_public S b) = sx_exchange S b (sx_public S a)" "sx_exchange S a (sx_public S b) \<noteq> None"
    "sx_exchange S a (sx_public S b) \<noteq> Some (replicate 32 (CHR 0x00))"
    using assms unfolding suite_ok_def by blast+
  then obtain z where "sx_exchange S a (sx_public S b) = Some z" "sx_exchange S b (sx_public S a) = Some z" "z \<noteq> replicate 32 (CHR 0x00)"
    by (cases "sx_exchange S a (sx_public S b)") auto
  then show ?thesis by (simp add: derive_material_def Let_def six_digits_ok)
qed

lemma honest_handshake_agrees:
  assumes S: "suite_ok S" and i: "load_identity C n = Inr identity" "load_certificate (cn_node_cert n) = Inr own" "cert_node own = Inr (ci_node identity)"
    and len: "length nonce = 16" "length nonce' = 16" "length (bt_window t) = 16"
    and ids: "valid_identifier (ci_node identity)" "valid_identifier (bt_node t)"
  shows "\<exists>pk. honest_handshake C S repr t cert (sk, nonce) (sk', nonce') n = Inr (pk, pk) \<and>
    length (mt_sas (pk_material pk)) = 6 \<and> list_all is_digit (mt_sas (pk_material pk))"
proof -
  obtain ctx where ctx: "make_context (bt_window t) (ci_node identity) (bt_node t) (sx_public S sk) (sx_public S sk') (sx_fp S own) (sx_fp S cert) = Inr ctx"
    using context_total [OF S len(3) ids] by blast
  let ?tr = "ctx @ nonce @ nonce'"
  obtain m where m: "derive_material S sk (sx_public S sk') ?tr = Inr m" "derive_material S sk' (sx_public S sk) ?tr = Inr m"
    "length (mt_sas m) = 6" "list_all is_digit (mt_sas m)"
    using derive_total [OF S] by blast
  define mc where "mc = sx_mac S nonce (sas_label @ ''/commit/'' @ ''master'' @ ctx)"
  define sc where "sc = sx_mac S nonce' (sas_label @ ''/commit/'' @ ''slave'' @ ctx)"
  have c: "sas_commit S ''master'' ctx nonce = Inr mc" "sas_commit S ''slave'' ctx nonce' = Inr sc"
    using len by (simp_all add: sas_commit_def mc_def sc_def)
  have pem: "read_cert S (sx_pem S own) = Inr own" using S by (simp add: suite_ok_def read_cert_def)
  let ?pv = "\<lparr>pv_ctx = ctx, pv_peer = sx_public S sk', pv_commitment = []\<rparr>"
  let ?pv2 = "\<lparr>pv_ctx = ctx, pv_peer = sx_public S sk', pv_commitment = sc\<rparr>"
  let ?m1 = "[(''certificate'', JStr (b64_text (sx_pem S own))), (''public'', JStr (b64_text (sx_public S sk))), (''commitment'', JStr (b64_text mc))]"
  have 1: "enroll_start C S repr t cert sk nonce (session_hello S t sk') n = Inr (?pv, ?m1)"
    using i ctx c by (simp add: enroll_start_def session_hello_def jget_def unb64_get)
  have g: "jget ?m1 ''certificate'' = JStr (b64_text (sx_pem S own))" "jget ?m1 ''public'' = JStr (b64_text (sx_public S sk))"
    "jget ?m1 ''commitment'' = JStr (b64_text mc)" by (simp_all add: jget_def)
  have 2: "session_commit S repr t cert sk' nonce' ?m1 =
      Inr (\<lparr>pv_ctx = ctx, pv_peer = sx_public S sk, pv_commitment = mc\<rparr>, [(''commitment'', JStr (b64_text sc))])"
    using i ctx c pem by (simp add: session_commit_def unb64_get [OF g(1)] unb64_get [OF g(2)] unb64_get [OF g(3)])
  have t: "full_transcript ctx nonce nonce' = Inr ?tr" using len by (simp add: full_transcript_def)
  let ?pk = "\<lparr>pk_transcript = ?tr, pk_material = m\<rparr>"
  have 3: "enroll_reveal repr nonce ?pv [(''commitment'', JStr (b64_text sc))] = Inr (?pv2, [(''nonce'', JStr (b64_text nonce))])"
    by (simp add: enroll_reveal_def)
  have 4: "session_reveal S repr sk' nonce' \<lparr>pv_ctx = ctx, pv_peer = sx_public S sk, pv_commitment = mc\<rparr> [(''nonce'', JStr (b64_text nonce))] =
      Inr (?pk, [(''nonce'', JStr (b64_text nonce'))])"
    using c m t by (simp add: session_reveal_def)
  define mm where "mm = sx_mac S (mt_master m) (sas_label @ ''/confirm/'' @ ''master'' @ ?tr)"
  define sm where "sm = sx_mac S (mt_slave m) (sas_label @ ''/confirm/'' @ ''slave'' @ ?tr)"
  have f: "sas_confirm S m ''master'' ?tr = Inr mm" "sas_confirm S m ''slave'' ?tr = Inr sm" by (simp_all add: sas_confirm_def mm_def sm_def)
  have 5: "enroll_verify S repr sk nonce ?pv2 [(''nonce'', JStr (b64_text nonce'))] = Inr (?pk, [(''confirm'', JStr (b64_text mm))])"
    using c m t f by (simp add: enroll_verify_def)
  have 6: "session_confirm S repr ?pk [(''confirm'', JStr (b64_text mm))] = Inr [(''confirm'', JStr (b64_text sm))]"
    using f by (simp add: session_confirm_def)
  have 7: "enroll_confirmed S repr ?pk [(''confirm'', JStr (b64_text sm))] = Inr ()"
    using f by (simp add: enroll_confirmed_def)
  have "honest_handshake C S repr t cert (sk, nonce) (sk', nonce') n = Inr (?pk, ?pk)"
    by (simp add: honest_handshake_def 1 2 3 4 5 6 7)
  with m(3,4) show ?thesis by (intro exI [of _ ?pk]) simp
qed

lemma map_of_sort_key: "distinct (map fst xs) \<Longrightarrow> map_of (sort_key fst xs) = map_of xs"
  by (rule map_of_eqI) (auto simp: map_of_eq_Some_iff distinct_map dest: inj_onD)

lemma distinct_sort_key: "distinct (map fst xs) \<Longrightarrow> distinct (map fst (sort_key fst xs))"
  by (simp add: distinct_map)

lemma seal_roundtrip:
  assumes "suite_ok S" and "distinct (map fst ob)" and "list_all (\<lambda>(k, v). plain v) ob"
  shows "open_envelope S repr rl pk (seal_envelope S nonce pk ob) = Inr (JObj (sort_key fst ob))"
proof -
  have "plain (JObj (sort_key fst ob))" using assms(2,3) by (simp add: distinct_sort_key list_all_iff)
  then have "json_loads rl (json_dumps (\<lambda>x. []) (JObj (sort_key fst ob))) = Some (JObj (sort_key fst ob))" by (rule json_roundtrip)
  moreover have "unb64 repr [(''nonce'', JStr (b64_text x)), (''sealed'', JStr (b64_text y))] ''nonce'' = Inr x"
    "unb64 repr [(''nonce'', JStr (b64_text x)), (''sealed'', JStr (b64_text y))] ''sealed'' = Inr y" for x y
    by (simp_all add: unb64_get jget_def)
  ultimately show ?thesis using assms(1) by (simp add: open_envelope_def seal_envelope_def Let_def suite_ok_def jitem_def)
qed


text \<open>What the master seals, and what the slave makes of it.\<close>

definition enrollment :: "sas_suite \<Rightarrow> string \<times> string \<Rightarrow> string \<times> string \<Rightarrow> cert \<times> cert \<times> cert \<Rightarrow> string \<Rightarrow> int \<Rightarrow> jobj" where
  "enrollment S = (\<lambda>(cluster, node) (name, url) (ca, own, cert) signing generation.
     [(''cluster_id'', JStr cluster), (''master_node_id'', JStr node), (''master_name'', JStr name), (''master_lan_url'', JStr url),
      (''ca'', JStr (b64_text (sx_pem S ca))), (''master_certificate'', JStr (b64_text (sx_pem S own))),
      (''node_certificate'', JStr (b64_text (sx_pem S cert))), (''signing_public_key'', JStr (b64_text signing)),
      (''audience_generation'', JInt generation)])"

lemma enrollment_opens:
  assumes S: "suite_ok S"
  shows "\<exists>v. open_envelope S repr rl pk (seal_envelope S nonce pk (enrollment S (cluster, node) (name, url) (ca, own, cert) signing generation)) = Inr (JObj v) \<and>
    map_of v = map_of (enrollment S (cluster, node) (name, url) (ca, own, cert) signing generation)"
proof -
  let ?e = "enrollment S (cluster, node) (name, url) (ca, own, cert) signing generation"
  have d: "distinct (map fst ?e)" "list_all (\<lambda>(k, v). plain v) ?e" by (simp_all add: enrollment_def)
  show ?thesis using seal_roundtrip [OF S d] map_of_sort_key [OF d(1)] by blast
qed

lemma entries:
  assumes "map_of v = map_of (enrollment S (cluster, node) (name, url) (ca, own, cert) signing generation)"
  shows "entry (JObj v) ''cluster_id'' = Inr (JStr cluster)" "entry (JObj v) ''master_node_id'' = Inr (JStr node)"
    "entry (JObj v) ''ca'' = Inr (JStr (b64_text (sx_pem S ca)))" "entry (JObj v) ''master_certificate'' = Inr (JStr (b64_text (sx_pem S own)))"
    "entry (JObj v) ''node_certificate'' = Inr (JStr (b64_text (sx_pem S cert)))" "entry (JObj v) ''signing_public_key'' = Inr (JStr (b64_text signing))"
    "entry (JObj v) ''audience_generation'' = Inr (JInt generation)" "jget v ''master_name'' = JStr name" "jget v ''master_lan_url'' = JStr url"
  using assms by (simp_all add: entry_def jget_def enrollment_def)

lemma session_certificates_of:
  assumes S: "suite_ok S" and m: "map_of v = map_of (enrollment S (cluster, node) (name, url) (ca, own, cert) signing generation)"
    and ok: "cy_verify C (ct_key (ct_body ca)) (ct_body own) (ct_signature own)"
  shows "session_certificates C S repr (JObj v) = Inr (ca, cert, own, cluster)"
  using entries [OF m] S ok by (simp add: session_certificates_def entry_cert_def entry_bytes_def entry_text_def read_cert_def suite_ok_def)

lemma install_trust_fresh:
  assumes "load_identity C n = Inr i" and "cn_trusted n = None" and "valid_identifier node"
  shows "install_trust C node own n = (n\<lparr>cn_trusted := Some (ci_fingerprint i, [(node, ct_serial (ct_body own))])\<rparr>, Inr ())"
  using assms by (auto simp: install_trust_def trust_load_def allow_peer_def trust_put_def trust_save_def valid_identifier_def max_trusted_peers_def)

lemma install_tickets_fresh:
  assumes "cn_revocations n = No_File"
  shows "\<exists>r. install_tickets repr now node signing (Inr (JInt g)) n = (n\<lparr>cn_signing_public := Some signing, cn_revocations := r\<rparr>, Inr ())"
  using assms by (simp add: install_tickets_def rev_load_def synchronize_generation_def current_generation_def Let_def rev_save_def) blast

lemma session_install_fresh:
  assumes C: "crypto_ok C" and S: "suite_ok S" and s: "load_node_private_key C s = Inr key" "cn_ca_key s = None" "cn_trusted s = None" "cn_revocations s = No_File"
    and ca: "proper_ca C ca" "ct_key (ct_body ca) = cy_public C k" "cy_verify C (ct_key (ct_body ca)) (ct_body own) (ct_signature own)"
    and ids: "valid_identifier cluster" "valid_identifier node" "valid_identifier (bt_node t)" and sg: "length signing = 32"
    and time: "60 \<le> issued" "issued - 60 \<le> now" "now \<le> issued + 90 * 86400 - 1"
    and env: "env = seal_envelope S box pk (enrollment S (cluster, node) (name, url) (ca, own, build_node C issued serial (cy_public C key) (bt_node t) k ca) signing generation)"
  shows "\<exists>s' p. session_install C S repr rl now t pk env s = (s', Inr ((name, url), [(''status'', JStr ''installed'')])) \<and> slave_exists s' \<and>
    load_identity C s' = Inr \<lparr>ci_cluster = cluster, ci_node = bt_node t, ci_password = p, ci_fingerprint = cy_fingerprint C ca\<rparr> \<and>
    cn_trusted s' = Some (cy_fingerprint C ca, [(node, ct_serial (ct_body own))]) \<and> cn_signing_public s' = Some signing"
proof -
  let ?cert = "build_node C issued serial (cy_public C key) (bt_node t) k ca"
  obtain v where v: "open_envelope S repr rl pk env = Inr (JObj v)"
    "map_of v = map_of (enrollment S (cluster, node) (name, url) (ca, own, ?cert) signing generation)"
    using enrollment_opens [OF S] env by blast
  have "of_int (py_int (issued - 60)) \<le> now" "now \<le> of_int (py_int (issued + 90 * 86400))"
    using time py_int_le [of "issued - 60"] py_int_upper [of "issued + 90 * 86400"] by linarith+
  then have ok: "joined_certificates C now (bt_node t) ca ?cert s = Inr ()"
    using s(1) ca build_node_verifies [OF C, of k issued serial "cy_public C key" "bt_node t" ca]
    by (simp add: joined_certificates_def load_node_private_key_def proper_ca_def not_less)
  obtain p pem where p: "required_secret node_password_name s = Inr p" "cn_node_key s = Some pem"
    using s(1) by (auto simp: load_node_private_key_def load_key_def bind_eq_Some_conv split: sum.splits option.splits)
  let ?i = "\<lparr>ci_cluster = cluster, ci_node = bt_node t, ci_password = p, ci_fingerprint = cy_fingerprint C ca\<rparr>"
  let ?s1 = "s\<lparr>cn_ca_cert := Some ca, cn_node_cert := Some ?cert, cn_identity := Some (cluster, bt_node t, cy_fingerprint C ca)\<rparr>"
  have i: "load_identity C ?s1 = Inr ?i" using p(1) by (simp add: load_identity_def load_certificate_def required_secret_def backend_load_def)
  have 1: "install_joined_identity C now cluster (bt_node t) ca ?cert s = (?s1, Inr ?i)"
    using ids ok i by (simp add: install_joined_identity_def Let_def)
  let ?s2 = "?s1\<lparr>cn_trusted := Some (cy_fingerprint C ca, [(node, ct_serial (ct_body own))])\<rparr>"
  have 2: "install_trust C node own ?s1 = (?s2, Inr ())" using install_trust_fresh [OF i _ ids(2)] s(3) by simp
  obtain r where 3: "install_tickets repr now (bt_node t) signing (Inr (JInt generation)) ?s2 = (?s2\<lparr>cn_signing_public := Some signing, cn_revocations := r\<rparr>, Inr ())"
    using install_tickets_fresh [of ?s2 repr now "bt_node t" signing generation] s(4) by auto
  let ?s3 = "?s2\<lparr>cn_signing_public := Some signing, cn_revocations := r\<rparr>"
  have "session_install C S repr rl now t pk env s = (?s3, Inr ((name, url), [(''status'', JStr ''installed'')]))"
    using entries [OF v(2)] sg
    by (simp add: session_install_def v(1) session_certificates_of [OF S v(2) ca(3)] 1 2 3 entry_text_def entry_bytes_def Let_def)
  moreover have "load_identity C ?s3 = Inr ?i" using p(1) by (simp add: load_identity_def load_certificate_def required_secret_def backend_load_def)
  moreover have "slave_exists ?s3" using p(2) s(2) by (simp add: slave_exists_def common_files_def joined_slave_files_exist_def)
  ultimately show ?thesis by (intro exI [of _ ?s3] exI [of _ p]) simp
qed

lemma enroll_finish_room:
  assumes "jget msg ''status'' = JStr ''installed''" and "length (ts_peers ts) < max_trusted_peers" and "length (rg_nodes rg) < max_slaves"
    and "bt_name t \<noteq> []" and "1 \<le> bt_content_port t" and "bt_content_port t \<le> 65535" and "valid_identifier (bt_node t)"
    and "ct_uris (ct_body cert) = Some [node_uri_prefix @ bt_node t]"
  shows "\<exists>ts' rg' x. enroll_finish repr t created (session_hello S t sk) cert msg ts rg = ((ts', rg'), Inr x) \<and>
    authorize_der (ct_uris (ct_body cert), ct_serial (ct_body cert)) ts' = Inr (bt_node t, ct_serial (ct_body cert)) \<and>
    registry_get (bt_node t) rg' = Some x \<and> sn_id x = bt_node t \<and> sn_serial x = ct_serial (ct_body cert)"
  using assms
  by (auto simp: enroll_finish_def allow_peer_def trust_put_def trust_save_def registry_add_def registry_save_def registry_get_def Let_def
      session_hello_def jget_def authorize_der_def dget_put valid_identifier_def not_le)

lemma bootstrap_certificateD:
  assumes "bootstrap_certificate C S now serial pw fresh node n = (n', Inr cert)"
  shows "\<exists>key. load_node_private_key C n' = Inr key \<and> ct_key (ct_body cert) = cy_public C key \<and>
    cn_ca_key n' = cn_ca_key n \<and> cn_trusted n' = cn_trusted n \<and> cn_revocations n' = cn_revocations n"
  using assms
  by (auto simp: bootstrap_certificate_def Let_def load_node_private_key_def load_key_def required_secret_def backend_load_def create_node_key_def backend_store_def
      split: sum.splits if_splits)


text \<open>A suite that satisfies the documented laws: keys of one character, certificates written as JSON.\<close>

definition demo_public :: "string \<Rightarrow> string" where
  "demo_public k = replicate 32 (hd (k @ ''x''))"

definition demo_exchange :: "string \<Rightarrow> string \<Rightarrow> string option" where
  "demo_exchange k p = (let a = hd (k @ ''x''); b = hd p in Some (if code a < code b then [a, b] else [b, a]))"

definition cert_json :: "cert \<Rightarrow> json" where
  "cert_json c = (let b = ct_body c in JList [JStr (ct_subject b), JStr (ct_issuer b), JStr (ct_key b), JInt (ct_serial b), JInt (ct_from b), JInt (ct_until b),
     (case ct_ca b of None \<Rightarrow> JNull | Some x \<Rightarrow> JBool x), (case ct_uris b of None \<Rightarrow> JNull | Some us \<Rightarrow> JList (map JStr us)), JStr (ct_signature c)])"

definition json_text :: "json \<Rightarrow> string" where "json_text v = (case v of JStr s \<Rightarrow> s | _ \<Rightarrow> [])"
definition json_number :: "json \<Rightarrow> int" where "json_number v = (case v of JInt n \<Rightarrow> n | _ \<Rightarrow> 0)"

definition json_cert :: "json \<Rightarrow> cert option" where
  "json_cert v = (case v of JList xs \<Rightarrow>
     Some \<lparr>ct_body = \<lparr>ct_subject = json_text (xs ! 0), ct_issuer = json_text (xs ! 1), ct_key = json_text (xs ! 2), ct_serial = json_number (xs ! 3),
         ct_from = json_number (xs ! 4), ct_until = json_number (xs ! 5), ct_ca = (case xs ! 6 of JBool x \<Rightarrow> Some x | _ \<Rightarrow> None),
         ct_uris = (case xs ! 7 of JList us \<Rightarrow> Some (map json_text us) | _ \<Rightarrow> None)\<rparr>, ct_signature = json_text (xs ! 8)\<rparr>
   | _ \<Rightarrow> None)"

definition demo_suite :: sas_suite where
  "demo_suite = \<lparr>sx_public = demo_public, sx_exchange = demo_exchange, sx_mac = (\<lambda>k m. k @ m), sx_sha = id,
     sx_kdf = (\<lambda>salt info k. replicate 100 (hd (k @ salt @ ''0''))), sx_encrypt = (\<lambda>k n d a. d), sx_decrypt = (\<lambda>k n d a. Some d),
     sx_fp = (\<lambda>c. replicate 32 (CHR ''F'')), sx_pem = (\<lambda>c. json_dumps (\<lambda>x. []) (cert_json c)),
     sx_read_pem = (\<lambda>t. Option.bind (json_loads (\<lambda>x. None) t) json_cert)\<rparr>"

lemma json_cert_json: "json_cert (cert_json c) = Some c"
  by (cases c, cases "ct_body c") (simp add: cert_json_def json_cert_def json_text_def json_number_def Let_def comp_def split: option.split)

lemma cert_json_plain: "plain (cert_json c)"
  by (simp add: cert_json_def Let_def list_all_iff split: option.split)

lemma ordered_pair: "(if code x < code y then [x, y] else [y, x]) = (if code y < code x then [y, x] else [x, y])"
proof (cases "code x = code y")
  case True
  then have "x = y" by (rule code_inj)
  then show ?thesis by simp
next
  case False
  then show ?thesis by (simp only: nat_neq_iff) fastforce
qed

lemma demo_exchange_swap: "demo_exchange a (demo_public b) = demo_exchange b (demo_public a)"
proof -
  have "hd (demo_public k) = hd (k @ ''x'')" for k unfolding demo_public_def by (rule hd_replicate) simp
  then show ?thesis unfolding demo_exchange_def Let_def by (simp only: ordered_pair)
qed

lemma demo_exchange_short: "demo_exchange a (demo_public b) = Some s \<Longrightarrow> length s = 2"
  by (auto simp: demo_exchange_def Let_def split: if_splits)

lemma demo_suite_ok: "suite_ok demo_suite"
proof -
  have "demo_exchange a (demo_public b) \<noteq> None" "demo_exchange a (demo_public b) \<noteq> Some (replicate 32 (CHR 0x00))" for a b
    using demo_exchange_short [of a b "replicate 32 (CHR 0x00)"] by (auto simp: demo_exchange_def Let_def)
  moreover have "json_loads rl (json_dumps rt (cert_json c)) = Some (cert_json c)" for rl rt c by (rule json_roundtrip [OF cert_json_plain])
  ultimately show ?thesis using demo_exchange_swap by (simp add: suite_ok_def demo_suite_def demo_public_def json_cert_json)
qed

definition demo_target :: bootstrap_target where
  "demo_target = \<lparr>bt_node = ''n2'', bt_name = ''pc'', bt_host = ''h'', bt_port = 40000, bt_content_port = 40001, bt_window = replicate 16 (CHR ''w'')\<rparr>"

definition demo_boot :: "cluster_node \<times> (pair_error + cert)" where
  "demo_boot = bootstrap_certificate demo_crypto demo_suite 1000 9 (replicate 64 (CHR ''c'')) ''S'' (bt_node demo_target) new_node"

lemma demo_boot: "demo_boot = (fst demo_boot, Inr (projr (snd demo_boot)))"
proof -
  have "\<exists>c. snd demo_boot = Inr c"
    by (simp add: demo_boot_def bootstrap_certificate_def new_node_def create_node_key_def load_node_private_key_def load_key_def
        required_secret_def node_defs dget_put demo_crypto_def Let_def)
  then show ?thesis by (auto simp: prod_eq_iff)
qed

lemma demo_opens: "bootstrap_certificate demo_crypto demo_suite 1000 9 (replicate 64 (CHR ''c'')) ''S'' (bt_node demo_target) new_node =
    (fst demo_boot, Inr (projr (snd demo_boot)))"
  using demo_boot by (simp only: demo_boot_def [symmetric])

lemma demo_identifiers: "valid_identifier (bt_node demo_target)" by (simp add: demo_target_def valid_identifier_def id_char_def)


lemma demo_handshake:
  obtains pk where "honest_handshake demo_crypto demo_suite (\<lambda>x. []) demo_target (projr (snd demo_boot)) (''a'', replicate 16 (CHR ''1''))
    (''b'', replicate 16 (CHR ''2'')) (id_run demo_crypto demo_master new_node) = Inr (pk, pk)"
proof -
  obtain k ca own cluster node p where k: "cn_node_cert (id_run demo_crypto demo_master new_node) = Some own" "cert_node own = Inr node"
      "load_identity demo_crypto (id_run demo_crypto demo_master new_node) =
        Inr \<lparr>ci_cluster = cluster, ci_node = node, ci_password = p, ci_fingerprint = cy_fingerprint demo_crypto ca\<rparr>" "valid_identifier node"
    using master_proves [OF demo_crypto_ok refl demo_master_exists] by metis
  have own: "load_certificate (cn_node_cert (id_run demo_crypto demo_master new_node)) = Inr own" using k(1) by (simp add: load_certificate_def)
  have "\<exists>pk. honest_handshake demo_crypto demo_suite (\<lambda>x. []) demo_target (projr (snd demo_boot)) (''a'', replicate 16 (CHR ''1''))
    (''b'', replicate 16 (CHR ''2'')) (id_run demo_crypto demo_master new_node) = Inr (pk, pk) \<and>
    length (mt_sas (pk_material pk)) = 6 \<and> list_all is_digit (mt_sas (pk_material pk))"
    by (rule honest_handshake_agrees [OF demo_suite_ok k(3) own])
      (use k(2,4) demo_identifiers in \<open>simp_all add: demo_target_def\<close>)
  then show thesis using that by blast
qed

theorem pairing_agreement_witness:
  "\<exists>pv pv' m1 s1. pv_peer pv = sx_public demo_suite ''b'' \<and> pv_peer pv' = sx_public demo_suite ''a'' \<and>
    enroll_start demo_crypto demo_suite (\<lambda>x. []) demo_target (projr (snd demo_boot)) ''a'' (replicate 16 (CHR ''1''))
      (session_hello demo_suite demo_target ''b'') (id_run demo_crypto demo_master new_node) = Inr (pv, m1) \<and>
    session_commit demo_suite (\<lambda>x. []) demo_target (projr (snd demo_boot)) ''b'' (replicate 16 (CHR ''2'')) m1 = Inr (pv', s1)"
proof -
  let ?m = "id_run demo_crypto demo_master new_node" let ?c = "projr (snd demo_boot)"
  let ?na = "replicate 16 (CHR ''1'')" let ?nb = "replicate 16 (CHR ''2'')"
  obtain pk where h: "honest_handshake demo_crypto demo_suite (\<lambda>x. []) demo_target ?c (''a'', ?na) (''b'', ?nb) ?m = Inr (pk, pk)"
    by (rule demo_handshake)
  obtain pv m1 pv' s1 pv1 m2 s2 m3 s3 where r:
      "enroll_start demo_crypto demo_suite (\<lambda>x. []) demo_target ?c ''a'' ?na (session_hello demo_suite demo_target ''b'') ?m = Inr (pv, m1)"
      "session_commit demo_suite (\<lambda>x. []) demo_target ?c ''b'' ?nb m1 = Inr (pv', s1)"
      "enroll_reveal (\<lambda>x. []) ?na pv s1 = Inr (pv1, m2)" "session_reveal demo_suite (\<lambda>x. []) ''b'' ?nb pv' m2 = Inr (pk, s2)"
      "enroll_verify demo_suite (\<lambda>x. []) ''a'' ?na pv1 s2 = Inr (pk, m3)" "session_confirm demo_suite (\<lambda>x. []) pk m3 = Inr s3"
      "enroll_confirmed demo_suite (\<lambda>x. []) pk s3 = Inr ()"
    using h unfolding honest_handshake_def by (auto simp: ebind_Inr)
  from pairing_agreement [OF demo_suite_ok r(1,3,5,7,2,4,6) refl]
  have p: "pv_peer pv = sx_public demo_suite ''b''" "pv_peer pv' = sx_public demo_suite ''a''" by blast+
  with r(1,2) show ?thesis by blast
qed

end
