(* ===== verification/Security_Monitor.thy ===== *)
theory Security_Monitor
  imports Web_Rate_Limits Py_Json
begin

text \<open>
  The security monitor (\<^verbatim>\<open>core/security_monitor.py\<close>): sliding windows of requests, failed authentications and
  unknown routes of each address, alerts with a cool-down, blocks of an address with their file, and the rotated log.
  The random identifier of an event is left out. Parameters are the length of a line of the log (it depends on the
  vault), \<open>ip_address(ip).is_loopback\<close> with \<open>None\<close> for a text that is no address, and the reading of a number in a
  text. The file system does not fail.
\<close>

section \<open>Configuration\<close>

datatype block_mode = Mode_Monitor | Mode_Temporary | Mode_Permanent

record sec_config =
  sc_enabled :: bool
  sc_notify :: bool
  sc_mode :: block_mode
  sc_auth_failures :: int
  sc_auth_window :: int
  sc_block_seconds :: int
  sc_burst_requests :: int
  sc_burst_window :: int
  sc_route_misses :: int
  sc_route_window :: int

definition default_security_config :: jobj where
  "default_security_config =
     [(''enabled'', JBool True), (''notify'', JBool False), (''block_mode'', JStr ''temporary''), (''auth_failures'', JInt 8),
      (''auth_window_seconds'', JInt 300), (''block_seconds'', JInt 900), (''burst_requests'', JInt 240), (''burst_window_seconds'', JInt 60),
      (''route_misses'', JInt 20), (''route_window_seconds'', JInt 60)]"

definition config_bounds :: "(string \<times> int \<times> int) list" where
  "config_bounds =
     [(''auth_failures'', 2, 100), (''auth_window_seconds'', 10, 86400), (''block_seconds'', 30, 604800), (''burst_requests'', 30, 10000),
      (''burst_window_seconds'', 5, 3600), (''route_misses'', 3, 1000), (''route_window_seconds'', 5, 3600)]"

text \<open>\<open>value.update(raw)\<close>, and the bounded integer under a key; the keys of the table are all there.\<close>

definition config_value :: "jobj \<Rightarrow> string \<Rightarrow> json" where
  "config_value raw k = jget_or raw k (jget default_security_config k)"

definition config_int :: "jobj \<Rightarrow> string \<Rightarrow> int" where
  "config_int raw k =
     (let parsed = (case to_int (config_value raw k) of Inr n \<Rightarrow> n | Inl e \<Rightarrow> (case to_int (jget default_security_config k) of Inr n \<Rightarrow> n | Inl e \<Rightarrow> 0))
      in case map_of config_bounds k of Some (lo, hi) \<Rightarrow> max lo (min hi parsed) | None \<Rightarrow> parsed)"

definition normalize_security_config :: "(json \<Rightarrow> string) \<Rightarrow> json \<Rightarrow> sec_config" where
  "normalize_security_config repr v =
     (let raw = (case v of JObj ob \<Rightarrow> ob | _ \<Rightarrow> []);
          m = (let x = config_value raw ''block_mode'' in str_lower (str_strip (if truthy x then to_str repr x else ''temporary'')))
      in \<lparr>sc_enabled = truthy (config_value raw ''enabled''), sc_notify = truthy (config_value raw ''notify''),
          sc_mode = (if m = ''monitor'' then Mode_Monitor else if m = ''permanent'' then Mode_Permanent else Mode_Temporary),
          sc_auth_failures = config_int raw ''auth_failures'', sc_auth_window = config_int raw ''auth_window_seconds'',
          sc_block_seconds = config_int raw ''block_seconds'', sc_burst_requests = config_int raw ''burst_requests'',
          sc_burst_window = config_int raw ''burst_window_seconds'', sc_route_misses = config_int raw ''route_misses'',
          sc_route_window = config_int raw ''route_window_seconds''\<rparr>)"

section \<open>State\<close>

record block =
  bl_created :: time
  bl_expires :: time
  bl_permanent :: bool
  bl_reason :: string

record sec_event =
  ev_time :: time
  ev_ip :: string
  ev_type :: string
  ev_severity :: string
  ev_method :: string
  ev_path :: string
  ev_action :: string
  ev_detail :: string

type_synonym windows = "(string, time list) dict"

text \<open>The files: \<open>mo_file\<close> is what was last written to \<^verbatim>\<open>security_blocks.json\<close>, \<open>mo_log\<close> the log and \<open>mo_old\<close> its
  backups \<open>.1\<close> to \<open>.n\<close>; \<open>None\<close> is a file that is not there.\<close>

record monitor =
  mo_config :: sec_config
  mo_requests :: windows
  mo_auth :: windows
  mo_misses :: windows
  mo_alerts :: "(string \<times> string, time) dict"
  mo_notified :: "(string, time) dict"
  mo_blocks :: "(string, block) dict"
  mo_events :: "sec_event list"
  mo_notifier :: bool
  mo_max_ips :: int
  mo_max_events :: int
  mo_log_max :: int
  mo_backups :: int
  mo_file :: "(string, block) dict option"
  mo_log :: "sec_event list option"
  mo_old :: "sec_event list option list"

record decision =
  de_allowed :: bool
  de_retry :: int
  de_reason :: string

definition decision_dict :: "decision \<Rightarrow> decision" where
  "decision_dict d = d\<lparr>de_retry := max 0 (de_retry d)\<rparr>"

text \<open>What the notifier is told: address, reason and action.\<close>

type_synonym notice = "string \<times> string \<times> string"

section \<open>Texts\<close>

definition clean_ip :: "string \<Rightarrow> string" where
  "clean_ip v = (let c = take 96 (str_strip (if v = [] then ''<unknown>'' else v)) in if c = [] then ''<unknown>'' else c)"

definition clip :: "nat \<Rightarrow> string \<Rightarrow> string" where
  "clip limit v = take (max 1 limit) (replace_char (CHR 0x0A) (CHR '' '') (replace_char (CHR 0x0D) (CHR '' '') v))"

definition str_upper :: "string \<Rightarrow> string" where
  "str_upper = map upper_ascii_char"

definition is_protected_source :: "(string \<Rightarrow> bool option) \<Rightarrow> string \<Rightarrow> bool" where
  "is_protected_source loopback ip = (case loopback ip of Some b \<Rightarrow> b | None \<Rightarrow> str_lower ip \<in> set [''localhost'', ''<unknown>''])"

section \<open>Windows and alerts\<close>

definition append_window :: "int \<Rightarrow> windows \<Rightarrow> string \<Rightarrow> time \<Rightarrow> int \<Rightarrow> windows \<times> int" where
  "append_window max_ips d key now window =
     (let d1 = (if key \<in> set (dkeys d) then d else drop (nat (int (length d) - max_ips + 1)) d @ [(key, [])]);
          q = trim_window now window (case dget d1 key of None \<Rightarrow> [] | Some q \<Rightarrow> q) @ [now]
      in (dpop key d1 @ [(key, q)], int (length q)))"

definition alert_due :: "string \<Rightarrow> string \<Rightarrow> time \<Rightarrow> int \<Rightarrow> monitor \<Rightarrow> monitor \<times> bool" where
  "alert_due type ip now window m =
     (let previous = (case dget (mo_alerts m) (type, ip) of None \<Rightarrow> 0 | Some t \<Rightarrow> t)
      in if previous \<noteq> 0 \<and> now - previous < max 5 (of_int window / 2) then (m, False)
         else (m\<lparr>mo_alerts := dput (type, ip) now (mo_alerts m)\<rparr>, True))"

section \<open>Log\<close>

text \<open>\<open>_rotate_logs_locked\<close>: the oldest backup goes, the others move up by one.\<close>

definition rotate_logs :: "monitor \<Rightarrow> monitor" where
  "rotate_logs m = m\<lparr>mo_old := take (nat (mo_backups m)) (mo_log m # mo_old m), mo_log := None\<rparr>"

definition log_size :: "(sec_event \<Rightarrow> int) \<Rightarrow> sec_event list \<Rightarrow> int" where
  "log_size ls l = sum_list (map ls l)"

definition append_log :: "(sec_event \<Rightarrow> int) \<Rightarrow> sec_event \<Rightarrow> monitor \<Rightarrow> monitor" where
  "append_log ls e m =
     (let m = (case mo_log m of None \<Rightarrow> m | Some l \<Rightarrow> if mo_log_max m \<le> log_size ls l then rotate_logs m else m)
      in m\<lparr>mo_log := Some ((case mo_log m of None \<Rightarrow> [] | Some l \<Rightarrow> l) @ [e])\<rparr>)"

definition push_event :: "sec_event \<Rightarrow> monitor \<Rightarrow> monitor" where
  "push_event e m = m\<lparr>mo_events := drop (nat (int (length (mo_events m)) + 1 - mo_max_events m)) (mo_events m @ [e])\<rparr>"

definition record_event ::
  "(sec_event \<Rightarrow> int) \<Rightarrow> string \<Rightarrow> string \<Rightarrow> string \<Rightarrow> string \<Rightarrow> string \<Rightarrow> time \<Rightarrow> string \<Rightarrow> string \<Rightarrow> monitor \<Rightarrow> monitor" where
  "record_event ls ip type severity action detail now meth path m =
     (let e = \<lparr>ev_time = now, ev_ip = clip 96 ip, ev_type = clip 64 type, ev_severity = clip 16 severity, ev_method = clip 12 (str_upper meth),
               ev_path = clip 256 path, ev_action = clip 64 action, ev_detail = clip 256 detail\<rparr>
      in append_log ls e (push_event e m))"

section \<open>Blocks\<close>

definition persist_blocks :: "monitor \<Rightarrow> monitor" where
  "persist_blocks m = m\<lparr>mo_file := Some (mo_blocks m)\<rparr>"

definition block_live :: "time \<Rightarrow> block \<Rightarrow> bool" where
  "block_live now b \<longleftrightarrow> bl_permanent b \<or> now < bl_expires b"

definition cleanup_blocks :: "time \<Rightarrow> monitor \<Rightarrow> monitor" where
  "cleanup_blocks now m =
     (if all_vals (block_live now) (mo_blocks m) then m
      else persist_blocks (m\<lparr>mo_blocks := dkeep (block_live now) (mo_blocks m)\<rparr>))"

definition notify :: "time \<Rightarrow> string \<Rightarrow> string \<Rightarrow> string \<Rightarrow> monitor \<Rightarrow> monitor \<times> notice list" where
  "notify now ip reason action m =
     (if \<not> sc_notify (mo_config m) \<or> \<not> mo_notifier m then (m, [])
      else if now - (case dget (mo_notified m) ip of None \<Rightarrow> 0 | Some t \<Rightarrow> t) < 30 then (m, [])
      else (m\<lparr>mo_notified := dput ip now (mo_notified m)\<rparr>,
            [(ip, replace_char (CHR ''_'') (CHR '' '') reason, replace_char (CHR ''_'') (CHR '' '') action)]))"

text \<open>\<open>later\<close> is the second reading of the clock, in \<open>_notify_locked\<close>.\<close>

definition maybe_block ::
  "(sec_event \<Rightarrow> int) \<Rightarrow> (string \<Rightarrow> bool option) \<Rightarrow> time \<Rightarrow> string \<Rightarrow> string \<Rightarrow> time \<Rightarrow> monitor \<Rightarrow> monitor \<times> bool \<times> notice list" where
  "maybe_block ls loopback later ip reason now m =
     (let mode = sc_mode (mo_config m)
      in if mode = Mode_Monitor \<or> is_protected_source loopback ip
         then (let action = (if mode = Mode_Monitor then ''monitor_only'' else ''protected_source'');
                   (m, ns) = notify later ip reason action (record_event ls ip ''block_skipped'' ''warning'' action reason now [] [] m)
               in (m, False, ns))
         else (let permanent = (mode = Mode_Permanent);
                   b = \<lparr>bl_created = now, bl_expires = (if permanent then 0 else now + of_int (sc_block_seconds (mo_config m))),
                        bl_permanent = permanent, bl_reason = reason\<rparr>;
                   action = (if permanent then ''blocked_permanently'' else ''blocked_temporarily'');
                   (m, ns) = notify later ip reason action (record_event ls ip ''ip_blocked'' ''danger'' action reason now [] []
                     (persist_blocks (m\<lparr>mo_blocks := dput ip b (mo_blocks m)\<rparr>)))
               in (m, True, ns)))"

section \<open>Operations\<close>

definition allowed :: decision where "allowed = \<lparr>de_allowed = True, de_retry = 0, de_reason = []\<rparr>"

definition refused :: "time \<Rightarrow> block \<Rightarrow> string \<Rightarrow> decision" where
  "refused now b reason = \<lparr>de_allowed = False, de_retry = (if bl_permanent b then 0 else max 1 (py_int (bl_expires b - now) + 1)), de_reason = reason\<rparr>"

definition inspect_request ::
  "(sec_event \<Rightarrow> int) \<Rightarrow> (string \<Rightarrow> bool option) \<Rightarrow> time \<Rightarrow> time \<Rightarrow> string \<Rightarrow> string \<Rightarrow> string \<Rightarrow> monitor \<Rightarrow> monitor \<times> decision \<times> notice list" where
  "inspect_request ls loopback now later ip meth path m =
     (let ip = clean_ip ip; m = cleanup_blocks now m; c = mo_config m
      in if \<not> sc_enabled c then (m, allowed, [])
         else (case dget (mo_blocks m) ip of
           Some b \<Rightarrow> (m, refused now b (if bl_reason b = [] then ''blocked'' else bl_reason b), [])
         | None \<Rightarrow>
           if str_upper meth = ''OPTIONS'' then (m, allowed, [])
           else (let (ws, count) = append_window (mo_max_ips m) (mo_requests m) ip now (sc_burst_window c); m = m\<lparr>mo_requests := ws\<rparr>
             in if count \<le> sc_burst_requests c then (m, allowed, [])
                else (case alert_due ''request_burst'' ip now (sc_burst_window c) m of
                  (m, False) \<Rightarrow> (m, allowed, [])
                | (m, True) \<Rightarrow>
                    (let m = record_event ls ip ''request_burst'' ''warning'' ''detected''
                           (show_int count @ '' requests/'' @ show_int (sc_burst_window c) @ ''s'') now meth path m;
                         (m, hit, ns) = maybe_block ls loopback later ip ''request_burst'' now m
                     in if hit then (case dget (mo_blocks m) ip of
                                       Some b \<Rightarrow> (m, refused now b ''request_burst'', ns)
                                     | None \<Rightarrow> (m, \<lparr>de_allowed = False, de_retry = max 1 (py_int (0 - now) + 1), de_reason = ''request_burst''\<rparr>, ns))
                        else (m, allowed, ns))))))"

text \<open>\<open>record_auth_failure\<close> returns whether the address is blocked and the count, when the monitor is enabled.\<close>

definition record_auth_failure ::
  "(sec_event \<Rightarrow> int) \<Rightarrow> (string \<Rightarrow> bool option) \<Rightarrow> time \<Rightarrow> time \<Rightarrow> string \<Rightarrow> string \<Rightarrow> string \<Rightarrow> monitor \<Rightarrow>
    monitor \<times> (bool \<times> int option) \<times> notice list" where
  "record_auth_failure ls loopback now later ip kind path m =
     (let ip = clean_ip ip; kind = (let k = clip 64 kind in if k = [] then ''password'' else k); c = mo_config m
      in if \<not> sc_enabled c then (m, (False, None), [])
         else (let (ws, count) = append_window (mo_max_ips m) (mo_auth m) ip now (sc_auth_window c);
                   m = record_event ls ip ''auth_failure'' ''warning'' ''observed''
                     (kind @ '' ('' @ show_int count @ ''/'' @ show_int (sc_auth_failures c) @ '')'') now [] path (m\<lparr>mo_auth := ws\<rparr>)
               in if count < sc_auth_failures c then (m, (False, Some count), [])
                  else (case alert_due ''brute_force'' ip now (sc_auth_window c) m of
                    (m, False) \<Rightarrow> (m, (False, Some count), [])
                  | (m, True) \<Rightarrow>
                      (let m = record_event ls ip ''brute_force'' ''danger'' ''detected''
                             (show_int count @ '' failed authentications/'' @ show_int (sc_auth_window c) @ ''s'') now [] path m;
                           (m, hit, ns) = maybe_block ls loopback later ip ''brute_force'' now m
                       in (m, (hit, Some count), ns)))))"

definition record_auth_success :: "string \<Rightarrow> monitor \<Rightarrow> monitor" where
  "record_auth_success ip m = m\<lparr>mo_auth := dpop (clean_ip ip) (mo_auth m)\<rparr>"

definition record_not_found ::
  "(sec_event \<Rightarrow> int) \<Rightarrow> (string \<Rightarrow> bool option) \<Rightarrow> time \<Rightarrow> time \<Rightarrow> string \<Rightarrow> string \<Rightarrow> string \<Rightarrow> monitor \<Rightarrow>
    monitor \<times> (bool \<times> int option) \<times> notice list" where
  "record_not_found ls loopback now later ip meth path m =
     (let ip = clean_ip ip; c = mo_config m
      in if \<not> sc_enabled c then (m, (False, None), [])
         else (let (ws, count) = append_window (mo_max_ips m) (mo_misses m) ip now (sc_route_window c);
                   m = m\<lparr>mo_misses := ws\<rparr>;
                   m = (if count \<le> sc_route_misses c
                        then record_event ls ip ''route_not_found'' ''info'' ''observed''
                          (''unknown route ('' @ show_int count @ ''/'' @ show_int (sc_route_misses c) @ '')'') now meth path m
                        else m)
               in if count < sc_route_misses c then (m, (False, Some count), [])
                  else (case alert_due ''route_scan'' ip now (sc_route_window c) m of
                    (m, False) \<Rightarrow> (m, (False, Some count), [])
                  | (m, True) \<Rightarrow>
                      (let m = record_event ls ip ''route_scan'' ''danger'' ''detected''
                             (show_int count @ '' unknown routes/'' @ show_int (sc_route_window c) @ ''s'') now meth path m;
                           (m, hit, ns) = maybe_block ls loopback later ip ''route_scan'' now m
                       in (m, (hit, Some count), ns)))))"

definition unblock :: "(sec_event \<Rightarrow> int) \<Rightarrow> time \<Rightarrow> string \<Rightarrow> monitor \<Rightarrow> monitor \<times> bool" where
  "unblock ls now ip m =
     (let ip = clean_ip ip
      in if ip \<notin> set (dkeys (mo_blocks m)) then (m, False)
         else (record_event ls ip ''ip_unblocked'' ''info'' ''unblocked'' ''manual unblock'' now [] []
                 (persist_blocks (m\<lparr>mo_blocks := dpop ip (mo_blocks m)\<rparr>)), True))"

definition clear_history :: "monitor \<Rightarrow> monitor" where
  "clear_history m = m\<lparr>mo_events := [], mo_requests := [], mo_auth := [], mo_misses := [], mo_alerts := [],
     mo_log := None, mo_old := map (\<lambda>x. None) (mo_old m)\<rparr>"

record sec_snapshot =
  ss_config :: sec_config
  ss_events :: "sec_event list"
  ss_blocked :: "(string \<times> block \<times> int option) list"
  ss_count :: nat

definition snapshot :: "time \<Rightarrow> int \<Rightarrow> monitor \<Rightarrow> monitor \<times> sec_snapshot" where
  "snapshot now limit m =
     (let m = cleanup_blocks now m; n = nat (max 1 (min 500 limit))
      in (m, \<lparr>ss_config = mo_config m, ss_events = rev (drop (length (mo_events m) - n) (mo_events m)),
              ss_blocked = map (\<lambda>(ip, b). (ip, b, if bl_permanent b then None else Some (max 0 (py_int (bl_expires b - now))))) (sort_key fst (mo_blocks m)),
              ss_count = length (mo_events m)\<rparr>))"

definition configure :: "(json \<Rightarrow> string) \<Rightarrow> time \<Rightarrow> json \<Rightarrow> monitor \<Rightarrow> monitor \<times> sec_snapshot" where
  "configure repr now v m =
     (let c = normalize_security_config repr v; m = m\<lparr>mo_config := c\<rparr>
      in snapshot now 200 (if sc_enabled c then m else m\<lparr>mo_requests := [], mo_auth := [], mo_misses := []\<rparr>))"

section \<open>Start\<close>

text \<open>One stored record of \<open>_load_blocks\<close>: skipped (\<open>Inr None\<close>), kept, or an error of \<open>created_at\<close> that nothing catches.\<close>

definition load_block :: "(json \<Rightarrow> string) \<Rightarrow> (string \<Rightarrow> real option) \<Rightarrow> time \<Rightarrow> json \<Rightarrow> py_error + block option" where
  "load_block repr rl now v =
     (case v of JObj ob \<Rightarrow>
        (let permanent = truthy (jget ob ''permanent'')
         in case float_or rl (jget ob ''expires_at'') 0 of Inl e \<Rightarrow> Inr None
            | Inr expiry \<Rightarrow>
                if \<not> permanent \<and> expiry \<le> now then Inr None
                else (case float_or rl (jget ob ''created_at'') now of Inl e \<Rightarrow> Inl e
                      | Inr created \<Rightarrow> Inr (Some \<lparr>bl_created = created, bl_expires = expiry, bl_permanent = permanent,
                          bl_reason = clip 64 (let r = jget ob ''reason'' in if truthy r then to_str repr r else ''blocked'')\<rparr>)))
      | _ \<Rightarrow> Inr None)"

fun load_block_items ::
  "(json \<Rightarrow> string) \<Rightarrow> (string \<Rightarrow> real option) \<Rightarrow> time \<Rightarrow> jobj \<Rightarrow> (string, block) dict \<Rightarrow> py_error + (string, block) dict" where
  "load_block_items repr rl now [] d = Inr d"
| "load_block_items repr rl now ((ip, v) # items) d =
     (case load_block repr rl now v of Inl e \<Rightarrow> Inl e
      | Inr None \<Rightarrow> load_block_items repr rl now items d
      | Inr (Some b) \<Rightarrow> load_block_items repr rl now items (dput (clean_ip ip) b d))"

definition load_blocks :: "(json \<Rightarrow> string) \<Rightarrow> (string \<Rightarrow> real option) \<Rightarrow> time \<Rightarrow> json \<Rightarrow> monitor \<Rightarrow> py_error + monitor" where
  "load_blocks repr rl now raw m =
     (case raw of JObj ob \<Rightarrow>
        (case jget ob ''blocks'' of JObj blocks \<Rightarrow>
           (case load_block_items repr rl now blocks (mo_blocks m) of Inl e \<Rightarrow> Inl e
            | Inr d \<Rightarrow> (let m = m\<lparr>mo_blocks := d\<rparr> in Inr (if length d \<noteq> length blocks then persist_blocks m else m)))
         | _ \<Rightarrow> Inr m)
      | _ \<Rightarrow> Inr m)"

text \<open>The JSON of the block file.\<close>

definition block_json :: "block \<Rightarrow> json" where
  "block_json b = JObj [(''created_at'', JReal (bl_created b)), (''expires_at'', JReal (bl_expires b)), (''permanent'', JBool (bl_permanent b)),
     (''reason'', JStr (bl_reason b))]"

definition blocks_json :: "(string, block) dict option \<Rightarrow> json" where
  "blocks_json f = (case f of None \<Rightarrow> JObj [] | Some d \<Rightarrow> JObj [(''version'', JInt 1), (''blocks'', JObj (dmap block_json d))])"

text \<open>The lines of the log are the events that were written; one that cannot be read is not in the list.\<close>

definition start_monitor ::
  "(json \<Rightarrow> string) \<Rightarrow> (string \<Rightarrow> real option) \<Rightarrow> time \<Rightarrow> json \<Rightarrow> bool \<Rightarrow> int \<Rightarrow> int \<Rightarrow> int \<Rightarrow> int \<Rightarrow>
    (string, block) dict option \<times> sec_event list option \<times> sec_event list option list \<Rightarrow> py_error + monitor" where
  "start_monitor repr rl now config notifier max_events max_ips log_max backups = (\<lambda>(file0, log, old).
     (let m = \<lparr>mo_config = normalize_security_config repr config, mo_requests = [], mo_auth = [], mo_misses = [], mo_alerts = [], mo_notified = [],
               mo_blocks = [], mo_events = [], mo_notifier = notifier, mo_max_ips = max 64 max_ips, mo_max_events = max 50 max_events,
               mo_log_max = max (64 * 1024) log_max, mo_backups = max 1 (min 20 backups), mo_file = file0, mo_log = log, mo_old = old\<rparr>
      in case load_blocks repr rl now (blocks_json file0) m of Inl e \<Rightarrow> Inl e
         | Inr m \<Rightarrow> (case log of None \<Rightarrow> Inr m
            | Some l \<Rightarrow> (let l = drop (nat (int (length l) - mo_max_events m)) l in Inr (fold push_event l m)))))"

section \<open>What the helpers leave alone\<close>

lemma append_log_frame [simp]: "mo_config (append_log ls e m) = mo_config m" "mo_blocks (append_log ls e m) = mo_blocks m"
  "mo_file (append_log ls e m) = mo_file m" "mo_alerts (append_log ls e m) = mo_alerts m" "mo_requests (append_log ls e m) = mo_requests m"
  "mo_auth (append_log ls e m) = mo_auth m" "mo_misses (append_log ls e m) = mo_misses m" "mo_max_ips (append_log ls e m) = mo_max_ips m"
  "mo_events (append_log ls e m) = mo_events m" "mo_max_events (append_log ls e m) = mo_max_events m" "mo_log_max (append_log ls e m) = mo_log_max m"
  "mo_backups (append_log ls e m) = mo_backups m"
  by (simp_all add: append_log_def rotate_logs_def Let_def split: option.split)

lemma push_event_frame [simp]: "mo_config (push_event e m) = mo_config m" "mo_blocks (push_event e m) = mo_blocks m"
  "mo_file (push_event e m) = mo_file m" "mo_alerts (push_event e m) = mo_alerts m" "mo_requests (push_event e m) = mo_requests m"
  "mo_auth (push_event e m) = mo_auth m" "mo_misses (push_event e m) = mo_misses m" "mo_max_ips (push_event e m) = mo_max_ips m"
  "mo_log (push_event e m) = mo_log m" "mo_old (push_event e m) = mo_old m" "mo_max_events (push_event e m) = mo_max_events m"
  "mo_log_max (push_event e m) = mo_log_max m" "mo_backups (push_event e m) = mo_backups m"
  by (simp_all add: push_event_def)

lemma record_event_frame [simp]: "mo_config (record_event ls ip ty sv ac de now me pa m) = mo_config m"
  "mo_blocks (record_event ls ip ty sv ac de now me pa m) = mo_blocks m" "mo_file (record_event ls ip ty sv ac de now me pa m) = mo_file m"
  "mo_alerts (record_event ls ip ty sv ac de now me pa m) = mo_alerts m" "mo_requests (record_event ls ip ty sv ac de now me pa m) = mo_requests m"
  "mo_auth (record_event ls ip ty sv ac de now me pa m) = mo_auth m" "mo_misses (record_event ls ip ty sv ac de now me pa m) = mo_misses m"
  "mo_max_ips (record_event ls ip ty sv ac de now me pa m) = mo_max_ips m" "mo_max_events (record_event ls ip ty sv ac de now me pa m) = mo_max_events m"
  "mo_log_max (record_event ls ip ty sv ac de now me pa m) = mo_log_max m" "mo_backups (record_event ls ip ty sv ac de now me pa m) = mo_backups m"
  by (simp_all add: record_event_def Let_def)

lemma notify_state: "fst (notify now ip reason action m) = m\<lparr>mo_notified := mo_notified (fst (notify now ip reason action m))\<rparr>"
  by (simp add: notify_def)

lemma notify_frame [simp]: "mo_config (fst (notify now ip reason action m)) = mo_config m" "mo_blocks (fst (notify now ip reason action m)) = mo_blocks m"
  "mo_file (fst (notify now ip reason action m)) = mo_file m" "mo_alerts (fst (notify now ip reason action m)) = mo_alerts m"
  "mo_requests (fst (notify now ip reason action m)) = mo_requests m" "mo_auth (fst (notify now ip reason action m)) = mo_auth m"
  "mo_misses (fst (notify now ip reason action m)) = mo_misses m" "mo_max_ips (fst (notify now ip reason action m)) = mo_max_ips m"
  "mo_events (fst (notify now ip reason action m)) = mo_events m" "mo_max_events (fst (notify now ip reason action m)) = mo_max_events m"
  "mo_log (fst (notify now ip reason action m)) = mo_log m" "mo_old (fst (notify now ip reason action m)) = mo_old m"
  "mo_log_max (fst (notify now ip reason action m)) = mo_log_max m" "mo_backups (fst (notify now ip reason action m)) = mo_backups m"
  by (simp_all add: notify_def)

definition new_block :: "string \<Rightarrow> time \<Rightarrow> monitor \<Rightarrow> block" where
  "new_block reason now m = (let permanent = (sc_mode (mo_config m) = Mode_Permanent)
     in \<lparr>bl_created = now, bl_expires = (if permanent then 0 else now + of_int (sc_block_seconds (mo_config m))), bl_permanent = permanent, bl_reason = reason\<rparr>)"

lemma maybe_block_hit: "fst (snd (maybe_block ls lb later ip reason now m)) \<longleftrightarrow> sc_mode (mo_config m) \<noteq> Mode_Monitor \<and> \<not> is_protected_source lb ip"
  by (simp add: maybe_block_def Let_def split: prod.split)

lemma maybe_block_frame [simp]: "mo_config (fst (maybe_block ls lb later ip reason now m)) = mo_config m"
  "mo_alerts (fst (maybe_block ls lb later ip reason now m)) = mo_alerts m" "mo_requests (fst (maybe_block ls lb later ip reason now m)) = mo_requests m"
  "mo_auth (fst (maybe_block ls lb later ip reason now m)) = mo_auth m" "mo_misses (fst (maybe_block ls lb later ip reason now m)) = mo_misses m"
  "mo_max_ips (fst (maybe_block ls lb later ip reason now m)) = mo_max_ips m"  "mo_max_events (fst (maybe_block ls lb later ip reason now m)) = mo_max_events m"
  "mo_log_max (fst (maybe_block ls lb later ip reason now m)) = mo_log_max m" "mo_backups (fst (maybe_block ls lb later ip reason now m)) = mo_backups m"
  by (simp_all add: maybe_block_def Let_def persist_blocks_def case_prod_beta)

lemma maybe_block_blocks: "mo_blocks (fst (maybe_block ls lb later ip reason now m)) =
    (if fst (snd (maybe_block ls lb later ip reason now m)) then dput ip (new_block reason now m) (mo_blocks m) else mo_blocks m)"
  "mo_file (fst (maybe_block ls lb later ip reason now m)) =
    (if fst (snd (maybe_block ls lb later ip reason now m)) then Some (dput ip (new_block reason now m) (mo_blocks m)) else mo_file m)"
  by (simp_all add: maybe_block_hit) (simp_all add: maybe_block_def new_block_def Let_def persist_blocks_def case_prod_beta)

lemma alert_due_state: "fst (alert_due ty ip now w m) = m\<lparr>mo_alerts := mo_alerts (fst (alert_due ty ip now w m))\<rparr>"
  by (simp add: alert_due_def Let_def)

section \<open>What an operation does to the table of blocks\<close>

text \<open>A reaction to an event of an address: nothing happens to the table, or the address is blocked.\<close>

definition reacts :: "string \<Rightarrow> time \<Rightarrow> monitor \<Rightarrow> monitor \<Rightarrow> bool \<Rightarrow> bool" where
  "reacts ip now m m' hit \<longleftrightarrow> mo_config m' = mo_config m \<and>
     (if hit then \<exists>reason. mo_blocks m' = dput ip (new_block reason now m) (mo_blocks m) \<and> mo_file m' = Some (mo_blocks m') \<and> sc_mode (mo_config m) \<noteq> Mode_Monitor
      else mo_blocks m' = mo_blocks m \<and> mo_file m' = mo_file m)"

lemma maybe_block_reacts:
  "maybe_block ls lb later ip reason now m = (m', hit, ns) \<Longrightarrow> reacts ip now m m' hit"
  using maybe_block_blocks [of ls lb later ip reason now m] maybe_block_frame(1) [of ls lb later ip reason now m] maybe_block_hit [of ls lb later ip reason now m]
  by (auto simp: reacts_def)

lemma reacts_False [simp]: "reacts ip now m m' False \<longleftrightarrow> mo_config m' = mo_config m \<and> mo_blocks m' = mo_blocks m \<and> mo_file m' = mo_file m"
  by (simp add: reacts_def)

lemma new_block_cong: "mo_config m = mo_config n \<Longrightarrow> new_block reason now m = new_block reason now n"
  by (simp add: new_block_def Let_def)

lemma reacts_cong:
  assumes "reacts ip now m m' hit" and "mo_config m = mo_config n" and "mo_blocks m = mo_blocks n" and "mo_file m = mo_file n"
  shows "reacts ip now n m' hit"
  using assms(1) unfolding reacts_def assms(2-4) new_block_cong [OF assms(2)] .

lemma alert_due_frame:
  assumes "alert_due ty ip now w m = (m', due)"
  shows "mo_config m' = mo_config m" "mo_blocks m' = mo_blocks m" "mo_file m' = mo_file m"
  using assms by (auto simp: alert_due_def Let_def split: if_splits)

lemma alert_block_reacts:
  assumes "alert_due kind ip now w m = (m1, True)" and "maybe_block ls lb later ip reason now (record_event ls ip ty sv ac de now me pa m1) = (m', hit, ns)"
  shows "reacts ip now m m' hit"
  by (rule reacts_cong [OF maybe_block_reacts [OF assms(2)]]) (simp_all add: alert_due_frame [OF assms(1)])

lemma auth_failure_reacts:
  assumes "record_auth_failure ls lb now later ip kind path m = (m', (hit, n), ns)"
  shows "reacts (clean_ip ip) now m m' hit"
proof -
  have "reacts (clean_ip ip) now (record_event ls (clean_ip ip) ty sv ac de now me pa (m\<lparr>mo_auth := ws\<rparr>)) m' hit \<Longrightarrow> reacts (clean_ip ip) now m m' hit"
    for ty sv ac de me pa ws by (erule reacts_cong) simp_all
  then show ?thesis using assms
    by (auto simp: record_auth_failure_def Let_def alert_due_frame split: if_splits prod.splits bool.splits dest: alert_block_reacts)
qed

lemma not_found_reacts:
  assumes "record_not_found ls lb now later ip me path m = (m', (hit, n), ns)"
  shows "reacts (clean_ip ip) now m m' hit"
proof -
  have "reacts (clean_ip ip) now (record_event ls (clean_ip ip) ty sv ac de now me pa (m\<lparr>mo_misses := ws\<rparr>)) m' hit \<Longrightarrow> reacts (clean_ip ip) now m m' hit"
    "reacts (clean_ip ip) now (m\<lparr>mo_misses := ws\<rparr>) m' hit \<Longrightarrow> reacts (clean_ip ip) now m m' hit"
    for ty sv ac de me pa ws by (erule reacts_cong; simp)+
  then show ?thesis using assms
    by (auto simp: record_not_found_def Let_def alert_due_frame split: if_splits prod.splits bool.splits dest: alert_block_reacts)
qed

lemma inspect_reacts:
  assumes i: "inspect_request ls lb now later ip me path m = (m', d, ns)"
  shows "\<exists>hit. reacts (clean_ip ip) now (cleanup_blocks now m) m' hit"
proof -
  let ?ip = "clean_ip ip" let ?m = "cleanup_blocks now m" let ?c = "mo_config ?m"
  obtain ws count where w: "append_window (mo_max_ips ?m) (mo_requests ?m) ?ip now (sc_burst_window ?c) = (ws, count)" by fastforce
  obtain m1 due where a: "alert_due ''request_burst'' ?ip now (sc_burst_window ?c) (?m\<lparr>mo_requests := ws\<rparr>) = (m1, due)" by fastforce
  show ?thesis
  proof (cases "sc_enabled ?c \<and> dget (mo_blocks ?m) ?ip = None \<and> str_upper me \<noteq> ''OPTIONS'' \<and> \<not> count \<le> sc_burst_requests ?c \<and> due")
    case True
    then have "\<exists>ty sv ac de hit n2. maybe_block ls lb later ?ip ''request_burst'' now (record_event ls ?ip ty sv ac de now me path m1) = (m', hit, n2)"
      using i by (simp add: inspect_request_def Let_def w a split: if_splits option.splits prod.splits) blast+
    then obtain ty sv ac de hit n2 where b: "maybe_block ls lb later ?ip ''request_burst'' now (record_event ls ?ip ty sv ac de now me path m1) = (m', hit, n2)"
      by blast
    have "alert_due ''request_burst'' ?ip now (sc_burst_window ?c) (?m\<lparr>mo_requests := ws\<rparr>) = (m1, True)" using a True by simp
    from alert_block_reacts [OF this b] have "reacts ?ip now ?m m' hit" by (rule reacts_cong) simp_all
    then show ?thesis by blast
  next
    case False
    then have "m' = ?m \<or> m' = ?m\<lparr>mo_requests := ws\<rparr> \<or> m' = m1" using i
      by (cases "dget (mo_blocks ?m) ?ip"; cases due) (simp_all add: inspect_request_def Let_def w a split: if_splits)
    then have "reacts ?ip now ?m m' False" using alert_due_frame [OF a] by (elim disjE) simp_all
    then show ?thesis by blast
  qed
qed

section \<open>A restart\<close>

definition loaded :: "time \<Rightarrow> block \<Rightarrow> block" where
  "loaded now b = b\<lparr>bl_created := (if bl_created b = 0 then now else bl_created b), bl_reason := clip 64 (if bl_reason b = [] then ''blocked'' else bl_reason b)\<rparr>"

lemma load_block_own: "load_block repr rl now (block_json b) = Inr (if block_live now b then Some (loaded now b) else None)"
  by (cases b) (auto simp: load_block_def block_json_def jget_def float_or_def to_float_def Let_def block_live_def loaded_def)

lemma load_own_items:
  "\<forall>k \<in> set (dkeys d). clean_ip k = k \<Longrightarrow> dict_ok d \<Longrightarrow> set (dkeys d) \<inter> set (dkeys acc) = {} \<Longrightarrow>
    load_block_items repr rl now (dmap block_json d) acc = Inr (acc @ dmap (loaded now) (dkeep (block_live now) d))"
proof (induction d arbitrary: acc)
  case Nil
  then show ?case by (simp add: dmap_def dkeep_def)
next
  case (Cons kv d)
  obtain k b where kv: "kv = (k, b)" by fastforce
  have k: "clean_ip k = k" "k \<notin> set (dkeys acc)" using Cons.prems by (auto simp: kv)
  have d: "\<forall>k \<in> set (dkeys d). clean_ip k = k" "dict_ok d" "set (dkeys d) \<inter> set (dkeys acc) = {}" "k \<notin> set (dkeys d)"
    using Cons.prems by (auto simp: kv dict_ok_def)
  show ?case
  proof (cases "block_live now b")
    case True
    have "load_block_items repr rl now (dmap block_json d) (acc @ [(k, loaded now b)]) =
        Inr ((acc @ [(k, loaded now b)]) @ dmap (loaded now) (dkeep (block_live now) d))"
      by (rule Cons.IH [OF d(1,2)]) (use d(3,4) in auto)
    then show ?thesis using True k by (simp add: kv dmap_def dkeep_def load_block_own dput_new)
  next
    case False
    then show ?thesis using Cons.IH [OF d(1,2,3)] by (simp add: kv dmap_def dkeep_def load_block_own)
  qed
qed

text \<open>The part of a block that decides, and the table and its file saying the same.\<close>

definition deadline :: "block \<Rightarrow> time \<times> bool" where "deadline b = (bl_expires b, bl_permanent b)"

definition filed :: "monitor \<Rightarrow> bool" where
  "filed m \<longleftrightarrow> dmap deadline (mo_blocks m) = dmap deadline (case mo_file m of None \<Rightarrow> [] | Some f \<Rightarrow> f)"

definition blocks_ok :: "monitor \<Rightarrow> bool" where
  "blocks_ok m \<longleftrightarrow> dict_ok (mo_blocks m) \<and> (\<forall>k \<in> set (dkeys (mo_blocks m)). clean_ip k = k) \<and> filed m"

lemma deadline_live: "deadline b = deadline c \<Longrightarrow> block_live now b = block_live now c"
  by (simp add: deadline_def block_live_def)

lemma deadline_loaded [simp]: "deadline (loaded now b) = deadline b"
  by (simp add: deadline_def loaded_def)

lemma dkeys_dmap [simp]: "dkeys (dmap f d) = dkeys d"
  by (simp add: dmap_def comp_def case_prod_beta)

lemma dmap_dmap: "dmap f (dmap g d) = dmap (\<lambda>x. f (g x)) d"
  by (simp add: dmap_def comp_def case_prod_beta)

lemma dmap_keep: "dmap deadline d = dmap deadline d' \<Longrightarrow> dmap deadline (dkeep (block_live now) d) = dmap deadline (dkeep (block_live now) d')"
proof (induction d arbitrary: d')
  case Nil
  then show ?case by (simp add: dmap_def dkeep_def)
next
  case (Cons kv d)
  then obtain kv' d1 where d': "d' = kv' # d1" "fst kv = fst kv'" "deadline (snd kv) = deadline (snd kv')" "dmap deadline d = dmap deadline d1"
    by (cases d') (auto simp: dmap_def case_prod_beta)
  with Cons.IH [OF d'(4)] deadline_live [OF d'(3)] show ?case by (simp add: dmap_def dkeep_def case_prod_beta)
qed

definition restarted :: "time \<Rightarrow> monitor \<Rightarrow> (string, block) dict" where
  "restarted now m = dmap (loaded now) (dkeep (block_live now) (case mo_file m of None \<Rightarrow> [] | Some f \<Rightarrow> f))"

lemma dict_ok_dmap: "dmap f d = dmap g d' \<Longrightarrow> dict_ok d \<longleftrightarrow> dict_ok d'"
  by (metis dict_ok_map)

lemma fold_push_frame [simp]: "mo_config (fold push_event l m) = mo_config m" "mo_blocks (fold push_event l m) = mo_blocks m" "mo_file (fold push_event l m) = mo_file m"
  by (induction l arbitrary: m) simp_all

lemma start_own:
  assumes "blocks_ok m"
  shows "\<exists>m'. start_monitor repr rl now config nf mi me lm bk (mo_file m, mo_log m, mo_old m) = Inr m' \<and>
    mo_config m' = normalize_security_config repr config \<and> mo_blocks m' = restarted now m \<and> blocks_ok m' \<and>
    dmap deadline (mo_blocks m') = dmap deadline (dkeep (block_live now) (mo_blocks m))"
proof -
  let ?f = "case mo_file m of None \<Rightarrow> [] | Some f \<Rightarrow> f"
  have f: "dmap deadline (mo_blocks m) = dmap deadline ?f" using assms by (simp add: blocks_ok_def filed_def)
  have k: "dkeys (mo_blocks m) = dkeys ?f" using arg_cong [OF f, of dkeys] by (simp only: dkeys_dmap)
  have ok: "dict_ok ?f" "\<forall>k \<in> set (dkeys ?f). clean_ip k = k"
    using assms dict_ok_dmap [OF f] unfolding blocks_ok_def k by blast+
  let ?init = "\<lparr>mo_config = normalize_security_config repr config, mo_requests = [], mo_auth = [], mo_misses = [], mo_alerts = [], mo_notified = [],
     mo_blocks = [], mo_events = [], mo_notifier = nf, mo_max_ips = max 64 me, mo_max_events = max 50 mi,
     mo_log_max = max (64 * 1024) lm, mo_backups = max 1 (min 20 bk), mo_file = mo_file m, mo_log = mo_log m, mo_old = mo_old m\<rparr>"
  have items: "load_block_items repr rl now (dmap block_json ?f) [] = Inr (restarted now m)"
    using load_own_items [OF ok(2,1), of "[]"] by (simp add: restarted_def)
  have len: "length (restarted now m) = length (dkeep (block_live now) ?f)" by (simp add: restarted_def dmap_def)
  have dl: "dmap deadline (restarted now m) = dmap deadline (dkeep (block_live now) ?f)" by (simp add: restarted_def dmap_dmap)
  have "\<exists>m1. load_blocks repr rl now (blocks_json (mo_file m)) ?init = Inr m1 \<and> mo_config m1 = normalize_security_config repr config \<and>
      mo_blocks m1 = restarted now m \<and> filed m1"
  proof (cases "mo_file m")
    case None
    then show ?thesis by (simp add: load_blocks_def blocks_json_def jget_def restarted_def dmap_def dkeep_def filed_def)
  next
    case (Some f)
    have keep: "dkeep (block_live now) f = f" if "length (restarted now m) = length f"
      using that len unfolding Some option.case dkeep_def by (metis length_filter_less less_irrefl filter_True)
    have l: "load_blocks repr rl now (blocks_json (Some f)) ?init =
        Inr (if length (restarted now m) \<noteq> length f then persist_blocks (?init\<lparr>mo_blocks := restarted now m\<rparr>) else ?init\<lparr>mo_blocks := restarted now m\<rparr>)"
      using items unfolding Some option.case by (simp add: load_blocks_def blocks_json_def jget_def Let_def) (simp add: dmap_def)
    show ?thesis
    proof (cases "length (restarted now m) = length f")
      case True
      then show ?thesis using l keep dl Some by (simp add: filed_def)
    next
      case False
      then show ?thesis using l Some by (simp add: filed_def persist_blocks_def)
    qed
  qed
  then obtain m1 where m1: "load_blocks repr rl now (blocks_json (mo_file m)) ?init = Inr m1" "mo_config m1 = normalize_security_config repr config"
    "mo_blocks m1 = restarted now m" "filed m1" by blast
  have keys: "set (dkeys (restarted now m)) \<subseteq> set (dkeys ?f)" by (auto simp: restarted_def dkeep_def)
  have "dict_ok (restarted now m)" using ok(1) by (simp add: restarted_def)
  then have "blocks_ok m1" using ok(2) keys m1(4) unfolding blocks_ok_def m1(3) by blast
  moreover have "dmap deadline (mo_blocks m1) = dmap deadline (dkeep (block_live now) (mo_blocks m))"
    using dl dmap_keep [OF f, of now] m1(3) by simp
  moreover have "blocks_ok (fold push_event l m1) = blocks_ok m1" for l by (simp add: blocks_ok_def filed_def)
  ultimately show ?thesis using m1(1,2,3) by (cases "mo_log m") (auto simp: start_monitor_def Let_def)
qed

section \<open>A run\<close>

text \<open>What the handlers and the desktop do with the monitor; a clock reading is its first argument. \<open>Se_Restart\<close> is
  the next start of the server, with a configuration.\<close>

datatype sec_op =
    Se_Inspect time time string string string
  | Se_Auth_Failure time time string string string
  | Se_Auth_Success time string
  | Se_Not_Found time time string string string
  | Se_Unblock time string
  | Se_Clear time
  | Se_Snapshot time int
  | Se_Configure time json
  | Se_Restart time json

fun sec_time :: "sec_op \<Rightarrow> time" where
  "sec_time (Se_Inspect now later ip me path) = now"
| "sec_time (Se_Auth_Failure now later ip kind path) = now"
| "sec_time (Se_Auth_Success now ip) = now"
| "sec_time (Se_Not_Found now later ip me path) = now"
| "sec_time (Se_Unblock now ip) = now"
| "sec_time (Se_Clear now) = now"
| "sec_time (Se_Snapshot now limit) = now"
| "sec_time (Se_Configure now v) = now"
| "sec_time (Se_Restart now v) = now"

text \<open>The standard library and the environment of the process.\<close>

record sec_env =
  se_size :: "sec_event \<Rightarrow> int"
  se_loopback :: "string \<Rightarrow> bool option"
  se_repr :: "json \<Rightarrow> string"
  se_float :: "string \<Rightarrow> real option"

text \<open>A start that fails leaves no monitor; the run then stays where it was, and so does the file.\<close>

fun sec_step :: "sec_env \<Rightarrow> sec_op \<Rightarrow> monitor \<Rightarrow> monitor \<times> decision option" where
  "sec_step E (Se_Inspect now later ip me path) m = (let (m, d, ns) = inspect_request (se_size E) (se_loopback E) now later ip me path m in (m, Some d))"
| "sec_step E (Se_Auth_Failure now later ip kind path) m = (fst (record_auth_failure (se_size E) (se_loopback E) now later ip kind path m), None)"
| "sec_step E (Se_Auth_Success now ip) m = (record_auth_success ip m, None)"
| "sec_step E (Se_Not_Found now later ip me path) m = (fst (record_not_found (se_size E) (se_loopback E) now later ip me path m), None)"
| "sec_step E (Se_Unblock now ip) m = (fst (unblock (se_size E) now ip m), None)"
| "sec_step E (Se_Clear now) m = (clear_history m, None)"
| "sec_step E (Se_Snapshot now limit) m = (fst (snapshot now limit m), None)"
| "sec_step E (Se_Configure now v) m = (fst (configure (se_repr E) now v m), None)"
| "sec_step E (Se_Restart now v) m =
     ((case start_monitor (se_repr E) (se_float E) now v (mo_notifier m) (mo_max_events m) (mo_max_ips m) (mo_log_max m) (mo_backups m)
              (mo_file m, mo_log m, mo_old m) of Inl e \<Rightarrow> m | Inr m' \<Rightarrow> m'), None)"

fun sec_run :: "sec_env \<Rightarrow> sec_op list \<Rightarrow> monitor \<Rightarrow> (sec_op \<times> decision option) list" where
  "sec_run E [] m = []"
| "sec_run E (op # ops) m = (let (m', d) = sec_step E op m in (op, d) # sec_run E ops m')"

text \<open>The addresses of a run are not longer than what the monitor keeps of them; nobody lifts the block of \<open>ip\<close> and
  the configuration stays \<open>c\<close>.\<close>

fun keeps_block :: "sec_env \<Rightarrow> sec_config \<Rightarrow> string \<Rightarrow> sec_op \<Rightarrow> bool" where
  "keeps_block E c ip (Se_Inspect now later a me path) \<longleftrightarrow> length a \<le> 96"
| "keeps_block E c ip (Se_Auth_Failure now later a kind path) \<longleftrightarrow> length a \<le> 96"
| "keeps_block E c ip (Se_Not_Found now later a me path) \<longleftrightarrow> length a \<le> 96"
| "keeps_block E c ip (Se_Unblock now a) \<longleftrightarrow> clean_ip a \<noteq> ip"
| "keeps_block E c ip (Se_Configure now v) \<longleftrightarrow> normalize_security_config (se_repr E) v = c"
| "keeps_block E c ip (Se_Restart now v) \<longleftrightarrow> normalize_security_config (se_repr E) v = c"
| "keeps_block E c ip op \<longleftrightarrow> True"

definition held :: "time \<Rightarrow> block \<Rightarrow> bool" where
  "held T b \<longleftrightarrow> bl_permanent b \<or> T \<le> bl_expires b"

lemma held_deadline: "deadline b = deadline c \<Longrightarrow> held T b = held T c"
  by (simp add: deadline_def held_def)

lemma held_live: "held T b \<Longrightarrow> now < T \<Longrightarrow> block_live now b"
  by (auto simp: held_def block_live_def)

definition holds :: "time \<Rightarrow> string \<Rightarrow> sec_config \<Rightarrow> monitor \<Rightarrow> bool" where
  "holds T ip c m \<longleftrightarrow> blocks_ok m \<and> mo_config m = c \<and> (\<exists>b. dget (mo_blocks m) ip = Some b \<and> held T b)"

lemma strip_idem [simp]: "str_strip (str_strip s) = str_strip s"
proof -
  have h: "dropWhile P (dropWhile P xs) = dropWhile P xs" for P and xs :: string by (induction xs) auto
  have "dropWhile is_space (rev (dropWhile is_space (rev (dropWhile is_space s)))) = rev (dropWhile is_space (rev (dropWhile is_space s)))"
  proof (cases "rev (dropWhile is_space (rev (dropWhile is_space s)))")
    case (Cons c cs)
    then have "\<exists>t. dropWhile is_space s = c # cs @ t"
      by (metis append_Cons append_eq_append_conv2 rev_append rev_rev_ident takeWhile_dropWhile_id)
    then have "\<not> is_space c" using dropWhile_hd [of is_space s] by (metis list.discI list.sel(1))
    with Cons show ?thesis by simp
  qed (simp only: dropWhile.simps)
  then show ?thesis by (simp add: str_strip_def h)
qed

lemma clean_ip_idem: "length a \<le> 96 \<Longrightarrow> clean_ip (clean_ip a) = clean_ip a"
proof -
  assume a: "length a \<le> 96"
  have u: "clean_ip ''<unknown>'' = ''<unknown>''" by (simp add: clean_ip_def str_strip_def is_space_def code_def)
  let ?c = "str_strip (if a = [] then ''<unknown>'' else a)"
  have "length ?c \<le> 96" using a length_str_strip [of a] length_str_strip [of "''<unknown>''"] by (auto intro: order_trans)
  then have "clean_ip a = (if ?c = [] then ''<unknown>'' else ?c)" by (simp add: clean_ip_def Let_def)
  moreover have "clean_ip ?c = ?c" if "?c \<noteq> []" using that \<open>length ?c \<le> 96\<close> by (simp add: clean_ip_def Let_def)
  ultimately show ?thesis using u by (simp split: if_splits)
qed

lemma blocks_ok_cong: "mo_blocks m' = mo_blocks m \<Longrightarrow> mo_file m' = mo_file m \<Longrightarrow> blocks_ok m \<Longrightarrow> blocks_ok m'"
  by (simp add: blocks_ok_def filed_def)

lemma cleanup_holds:
  assumes "holds T ip c m" and "now < T"
  shows "holds T ip c (cleanup_blocks now m) \<and> dget (mo_blocks (cleanup_blocks now m)) ip = dget (mo_blocks m) ip"
proof (cases "all_vals (block_live now) (mo_blocks m)")
  case True
  then show ?thesis using assms by (simp add: cleanup_blocks_def)
next
  case False
  obtain b where b: "dget (mo_blocks m) ip = Some b" "held T b" using assms by (auto simp: holds_def)
  have "dict_ok (mo_blocks m)" using assms(1) by (simp add: holds_def blocks_ok_def)
  then have "dget (dkeep (block_live now) (mo_blocks m)) ip = Some b" using b held_live [OF b(2) assms(2)] by (simp add: dget_keep)
  then show ?thesis using False assms(1) b
    by (auto simp: cleanup_blocks_def holds_def blocks_ok_def filed_def persist_blocks_def set_dkeep)
qed

lemma reacts_holds:
  assumes "holds T ip c m" and "reacts a now m m' hit" and "clean_ip a = a" and "t \<le> now" and "T \<le> t + of_int (sc_block_seconds c)"
  shows "holds T ip c m'"
proof (cases hit)
  case False
  then show ?thesis using assms(1,2) by (auto simp: holds_def intro: blocks_ok_cong)
next
  case True
  with assms(2) obtain reason where r: "mo_blocks m' = dput a (new_block reason now m) (mo_blocks m)" "mo_file m' = Some (mo_blocks m')" "mo_config m' = mo_config m"
    by (auto simp: reacts_def)
  have "held T (new_block reason now m)" using assms(1,4,5) by (auto simp: held_def new_block_def holds_def Let_def)
  then have "\<exists>b. dget (mo_blocks m') ip = Some b \<and> held T b" using assms(1) by (auto simp: r(1) dget_put holds_def)
  moreover have "blocks_ok m'" using assms(1,3) r by (auto simp: blocks_ok_def holds_def filed_def dest!: in_set_put)
  ultimately show ?thesis using assms(1) r(3) by (simp add: holds_def)
qed

lemma inspect_refuses:
  assumes "holds T (clean_ip a) c m" and "now < T" and "sc_enabled c" and "inspect_request ls lb now later a me path m = (m', d, ns)"
  shows "\<not> de_allowed d \<and> m' = cleanup_blocks now m"
proof -
  have h: "holds T (clean_ip a) c (cleanup_blocks now m)" using cleanup_holds [OF assms(1,2)] by blast
  then obtain b where "dget (mo_blocks (cleanup_blocks now m)) (clean_ip a) = Some b" "mo_config (cleanup_blocks now m) = c" by (auto simp: holds_def)
  then show ?thesis using assms(3,4) by (auto simp: inspect_request_def Let_def refused_def)
qed

lemma restart_holds:
  assumes "holds T ip c m" and "now < T" and "normalize_security_config repr v = c"
  shows "\<exists>m'. start_monitor repr rl now v nf mi me lm bk (mo_file m, mo_log m, mo_old m) = Inr m' \<and> holds T ip c m'"
proof -
  obtain b where b: "dget (mo_blocks m) ip = Some b" "held T b" using assms(1) by (auto simp: holds_def)
  have ok: "blocks_ok m" "dict_ok (mo_blocks m)" using assms(1) by (simp_all add: holds_def blocks_ok_def)
  obtain m' where m': "start_monitor repr rl now v nf mi me lm bk (mo_file m, mo_log m, mo_old m) = Inr m'" "mo_config m' = c" "blocks_ok m'"
    "dmap deadline (mo_blocks m') = dmap deadline (dkeep (block_live now) (mo_blocks m))"
    using start_own [OF ok(1)] assms(3) by metis
  have "dget (dmap deadline (mo_blocks m')) ip = Some (deadline b)"
    unfolding m'(4) using b held_live [OF b(2) assms(2)] ok(2) by (simp add: dget_map dget_keep)
  then obtain b' where "dget (mo_blocks m') ip = Some b'" "deadline b' = deadline b" by (auto simp: dget_map)
  then have "dget (mo_blocks m') ip = Some b'" "held T b'" using held_deadline [of b' b T] b(2) by simp_all
  then show ?thesis using m'(1,2,3) unfolding holds_def by blast
qed

lemma sec_step_holds:
  assumes h: "holds T ip c m" and k: "keeps_block E c ip op" and time: "t \<le> sec_time op" "sec_time op < T" and T: "T \<le> t + of_int (sc_block_seconds c)"
  shows "holds T ip c (fst (sec_step E op m))"
proof (cases op)
  case (Se_Inspect now later a me path)
  obtain m' d ns where i: "inspect_request (se_size E) (se_loopback E) now later a me path m = (m', d, ns)" by (metis prod_cases3)
  obtain hit where "reacts (clean_ip a) now (cleanup_blocks now m) m' hit" using inspect_reacts [OF i] by blast
  moreover have "holds T ip c (cleanup_blocks now m)" using cleanup_holds [OF h, of now] time Se_Inspect by simp
  ultimately show ?thesis using reacts_holds T time k clean_ip_idem by (auto simp: Se_Inspect i)
next
  case (Se_Auth_Failure now later a kind path)
  obtain m' hit n ns where i: "record_auth_failure (se_size E) (se_loopback E) now later a kind path m = (m', (hit, n), ns)" by (metis prod_cases3 surj_pair)
  show ?thesis using reacts_holds [OF h auth_failure_reacts [OF i]] T time k clean_ip_idem by (auto simp: Se_Auth_Failure i)
next
  case (Se_Not_Found now later a me path)
  obtain m' hit n ns where i: "record_not_found (se_size E) (se_loopback E) now later a me path m = (m', (hit, n), ns)" by (metis prod_cases3 surj_pair)
  show ?thesis using reacts_holds [OF h not_found_reacts [OF i]] T time k clean_ip_idem by (auto simp: Se_Not_Found i)
next
  case (Se_Auth_Success now a)
  then show ?thesis using h by (simp add: record_auth_success_def holds_def blocks_ok_def filed_def)
next
  case (Se_Unblock now a)
  then show ?thesis using h k
    by (auto simp: unblock_def Let_def holds_def blocks_ok_def filed_def persist_blocks_def dget_pop dest: in_set_pop)
next
  case (Se_Clear now)
  then show ?thesis using h by (simp add: clear_history_def holds_def blocks_ok_def filed_def)
next
  case (Se_Snapshot now limit)
  then show ?thesis using cleanup_holds [OF h, of now] time by (simp add: snapshot_def Let_def)
next
  case (Se_Configure now v)
  have "holds T ip c n" if "mo_blocks n = mo_blocks m" "mo_file n = mo_file m" "mo_config n = c" for n
    using h that by (simp add: holds_def blocks_ok_def filed_def)
  then show ?thesis using cleanup_holds [of T ip c _ now] time k by (simp add: Se_Configure configure_def snapshot_def Let_def)
next
  case (Se_Restart now v)
  then obtain m' where "start_monitor (se_repr E) (se_float E) now v (mo_notifier m) (mo_max_events m) (mo_max_ips m) (mo_log_max m) (mo_backups m)
      (mo_file m, mo_log m, mo_old m) = Inr m'" "holds T ip c m'"
    using restart_holds [OF h, of now "se_repr E" v] time k by fastforce
  then show ?thesis by (simp add: Se_Restart)
qed

lemma sec_run_refuses:
  assumes "holds T ip c m" and "sc_enabled c" and "\<forall>op \<in> set ops. keeps_block E c ip op \<and> t \<le> sec_time op" and "sorted (map sec_time ops)"
    and "T \<le> t + of_int (sc_block_seconds c)" and "(Se_Inspect now later a me path, Some d) \<in> set (sec_run E ops m)" and "clean_ip a = ip" and "now < T"
  shows "\<not> de_allowed d"
  using assms
proof (induction ops arbitrary: m)
  case Nil
  then show ?case by simp
next
  case (Cons op ops)
  have "sec_time op < T"
  proof (cases "(Se_Inspect now later a me path, Some d) \<in> set (sec_run E ops (fst (sec_step E op m)))")
    case True
    then have "Se_Inspect now later a me path \<in> set ops"
    proof -
      have "\<And>x m. x \<in> set (sec_run E ops m) \<Longrightarrow> fst x \<in> set ops" by (induction ops) (auto simp: case_prod_beta)
      from this [OF True] show ?thesis by simp
    qed
    then have "sec_time op \<le> now" using Cons.prems(4) by force
    with Cons.prems(8) show ?thesis by simp
  next
    case False
    with Cons.prems(6) have "op = Se_Inspect now later a me path" by (auto simp: case_prod_beta)
    then show ?thesis using Cons.prems(8) by simp
  qed
  then have h: "holds T ip c (fst (sec_step E op m))" using sec_step_holds Cons.prems by (metis list.set_intros(1))
  show ?case
  proof (cases "(Se_Inspect now later a me path, Some d) \<in> set (sec_run E ops (fst (sec_step E op m)))")
    case True
    show ?thesis by (rule Cons.IH [OF h Cons.prems(2) _ _ Cons.prems(5) True Cons.prems(7,8)]) (use Cons.prems(3,4) in auto)
  next
    case False
    with Cons.prems(6) have o: "op = Se_Inspect now later a me path" "snd (sec_step E op m) = Some d" by (auto simp: case_prod_beta)
    obtain m' d' ns where i: "inspect_request (se_size E) (se_loopback E) now later a me path m = (m', d', ns)" by (metis prod_cases3)
    have "holds T (clean_ip a) c m" using Cons.prems(1,7) by simp
    from inspect_refuses [OF this Cons.prems(8,2) i] o i show ?thesis by simp
  qed
qed

lemma auth_failure_holds:
  assumes "blocks_ok m" and "length a \<le> 96" and "record_auth_failure ls lb t later a kind path m = (m', (True, n), ns)"
  shows "sc_enabled (mo_config m) \<and> holds (t + of_int (sc_block_seconds (mo_config m))) (clean_ip a) (mo_config m) m'"
proof -
  from auth_failure_reacts [OF assms(3)] obtain reason where r: "mo_blocks m' = dput (clean_ip a) (new_block reason t m) (mo_blocks m)"
    "mo_file m' = Some (mo_blocks m')" "mo_config m' = mo_config m" by (auto simp: reacts_def)
  have "sc_enabled (mo_config m)"
    using assms(3) by (cases "sc_enabled (mo_config m)") (simp_all add: record_auth_failure_def Let_def)
  moreover have "held (t + of_int (sc_block_seconds (mo_config m))) (new_block reason t m)" by (simp add: held_def new_block_def Let_def)
  moreover have "blocks_ok m'" using assms(1) r clean_ip_idem [OF assms(2)] by (auto simp: blocks_ok_def filed_def dest!: in_set_put)
  ultimately show ?thesis using r by (simp add: holds_def dget_put)
qed

fun sec_short :: "sec_op \<Rightarrow> bool" where
  "sec_short (Se_Inspect now later a me path) \<longleftrightarrow> length a \<le> 96"
| "sec_short (Se_Auth_Failure now later a kind path) \<longleftrightarrow> length a \<le> 96"
| "sec_short (Se_Not_Found now later a me path) \<longleftrightarrow> length a \<le> 96"
| "sec_short op \<longleftrightarrow> True"

fun sec_after :: "sec_env \<Rightarrow> sec_op list \<Rightarrow> monitor \<Rightarrow> monitor" where
  "sec_after E [] m = m"
| "sec_after E (op # ops) m = sec_after E ops (fst (sec_step E op m))"

lemma monitor_cleanup_ok: "blocks_ok m \<Longrightarrow> blocks_ok (cleanup_blocks now m)"
  by (auto simp: cleanup_blocks_def blocks_ok_def filed_def persist_blocks_def set_dkeep)

lemma reacts_ok: "blocks_ok m \<Longrightarrow> reacts a now m m' hit \<Longrightarrow> clean_ip a = a \<Longrightarrow> blocks_ok m'"
  by (cases hit) (auto simp: reacts_def blocks_ok_def filed_def dest!: in_set_put)

lemma sec_step_ok:
  assumes h: "blocks_ok m" and k: "sec_short op"
  shows "blocks_ok (fst (sec_step E op m))"
proof (cases op)
  case (Se_Inspect now later a me path)
  obtain m' d ns where i: "inspect_request (se_size E) (se_loopback E) now later a me path m = (m', d, ns)" by (metis prod_cases3)
  show ?thesis using inspect_reacts [OF i] reacts_ok [OF monitor_cleanup_ok [OF h]] k clean_ip_idem by (auto simp: Se_Inspect i)
next
  case (Se_Auth_Failure now later a kind path)
  obtain m' hit n ns where i: "record_auth_failure (se_size E) (se_loopback E) now later a kind path m = (m', (hit, n), ns)" by (metis prod_cases3 surj_pair)
  show ?thesis using reacts_ok [OF h auth_failure_reacts [OF i]] k clean_ip_idem by (auto simp: Se_Auth_Failure i)
next
  case (Se_Not_Found now later a me path)
  obtain m' hit n ns where i: "record_not_found (se_size E) (se_loopback E) now later a me path m = (m', (hit, n), ns)" by (metis prod_cases3 surj_pair)
  show ?thesis using reacts_ok [OF h not_found_reacts [OF i]] k clean_ip_idem by (auto simp: Se_Not_Found i)
next
  case (Se_Auth_Success now a)
  then show ?thesis using h by (simp add: record_auth_success_def blocks_ok_def filed_def)
next
  case (Se_Unblock now a)
  then show ?thesis using h by (auto simp: unblock_def Let_def blocks_ok_def filed_def persist_blocks_def dest: in_set_pop)
next
  case (Se_Clear now)
  then show ?thesis using h by (simp add: clear_history_def blocks_ok_def filed_def)
next
  case (Se_Snapshot now limit)
  then show ?thesis using monitor_cleanup_ok [OF h] by (simp add: snapshot_def Let_def)
next
  case (Se_Configure now v)
  have "blocks_ok n" if "mo_blocks n = mo_blocks m" "mo_file n = mo_file m" for n using blocks_ok_cong [OF that h] .
  then show ?thesis using monitor_cleanup_ok by (simp add: Se_Configure configure_def snapshot_def Let_def)
next
  case (Se_Restart now v)
  obtain m' where "start_monitor (se_repr E) (se_float E) now v (mo_notifier m) (mo_max_events m) (mo_max_ips m) (mo_log_max m) (mo_backups m)
      (mo_file m, mo_log m, mo_old m) = Inr m'" "blocks_ok m'"
    using start_own [OF h] by blast
  then show ?thesis by (simp add: Se_Restart)
qed

lemma sec_after_ok: "blocks_ok m \<Longrightarrow> \<forall>op \<in> set ops. sec_short op \<Longrightarrow> blocks_ok (sec_after E ops m)"
  by (induction ops arbitrary: m) (simp_all add: sec_step_ok)

lemma start_fresh_ok: "start_monitor repr rl now config nf mi mx lm bk (None, lg, old) = Inr m \<Longrightarrow> blocks_ok m"
  by (auto simp: start_monitor_def load_blocks_def blocks_json_def jget_def blocks_ok_def filed_def Let_def split: option.splits)

text \<open>C33 (a block holds). A monitor that started without a file of blocks has served any operations, restarts
  included. Then a failed authentication gets an address blocked at the time \<open>t\<close>. However the server goes on, through
  restarts too, as long as nobody lifts this block and the configuration stays, every request of the address before
  the end of the block is refused.\<close>

theorem brute_force_block_holds:
  assumes "start_monitor (se_repr E) (se_float E) t0 config nf mi mx lm bk (None, lg, old) = Inr m0" and "\<forall>op \<in> set ops0. sec_short op"
    and "length a \<le> 96" and "record_auth_failure (se_size E) (se_loopback E) t later a kind path (sec_after E ops0 m0) = (m, (True, n), ns)"
    and "\<forall>op \<in> set ops. keeps_block E (mo_config m) (clean_ip a) op \<and> t \<le> sec_time op" and "sorted (map sec_time ops)"
    and "(Se_Inspect now later' a' me path', Some d) \<in> set (sec_run E ops m)" and "clean_ip a' = clean_ip a"
    and "now < t + of_int (sc_block_seconds (mo_config m))"
  shows "\<not> de_allowed d"
proof -
  have ok: "blocks_ok (sec_after E ops0 m0)" using sec_after_ok [OF start_fresh_ok [OF assms(1)] assms(2)] .
  have c: "mo_config m = mo_config (sec_after E ops0 m0)" using auth_failure_reacts [OF assms(4)] by (simp add: reacts_def)
  from auth_failure_holds [OF ok assms(3,4)]
  have "sc_enabled (mo_config m)" "holds (t + of_int (sc_block_seconds (mo_config m))) (clean_ip a) (mo_config m) m" by (simp_all add: c)
  then show ?thesis using sec_run_refuses [OF _ _ assms(5,6) order_refl assms(7,8,9)] by blast
qed

section \<open>A short block and a long cool-down\<close>

text \<open>The failed authentications of one address: clock, notifier's clock, kind and path.\<close>

fun guesses ::
  "(sec_event \<Rightarrow> int) \<Rightarrow> (string \<Rightarrow> bool option) \<Rightarrow> string \<Rightarrow> (time \<times> time \<times> string \<times> string) list \<Rightarrow> monitor \<Rightarrow> monitor \<times> bool list" where
  "guesses ls lb a [] m = (m, [])"
| "guesses ls lb a ((now, later, kind, path) # gs) m =
     (let (m, (hit, n), ns) = record_auth_failure ls lb now later a kind path m; (m, hits) = guesses ls lb a gs m in (m, hit # hits))"

lemma alert_due_quiet:
  assumes "dget (mo_alerts m) (ty, ip) = Some t" and "t \<noteq> 0" and "now - t < max 5 (of_int w / 2)"
  shows "alert_due ty ip now w m = (m, False)"
  using assms by (simp add: alert_due_def)

lemma quiet_failure:
  assumes "dget (mo_alerts m) (''brute_force'', clean_ip a) = Some t" and "t \<noteq> 0" and "now - t < max 5 (of_int (sc_auth_window (mo_config m)) / 2)"
  shows "\<exists>m' n. record_auth_failure ls lb now later a kind path m = (m', (False, n), []) \<and> mo_alerts m' = mo_alerts m \<and>
    mo_blocks m' = mo_blocks m \<and> mo_config m' = mo_config m"
proof -
  obtain ws count where w: "append_window (mo_max_ips m) (mo_auth m) (clean_ip a) now (sc_auth_window (mo_config m)) = (ws, count)" by fastforce
  have "alert_due ''brute_force'' (clean_ip a) now (sc_auth_window (mo_config m)) (record_event ls ip ty sv ac de now me pa (m\<lparr>mo_auth := ws\<rparr>)) =
      (record_event ls ip ty sv ac de now me pa (m\<lparr>mo_auth := ws\<rparr>), False)" for ip ty sv ac de me pa
    by (rule alert_due_quiet) (use assms in simp_all)
  then show ?thesis by (simp add: record_auth_failure_def Let_def w)
qed

lemma quiet_guesses:
  assumes "dget (mo_alerts m) (''brute_force'', clean_ip a) = Some t" and "t \<noteq> 0"
    and "\<forall>(now, g) \<in> set gs. now - t < max 5 (of_int (sc_auth_window (mo_config m)) / 2)"
  shows "mo_blocks (fst (guesses ls lb a gs m)) = mo_blocks m \<and> True \<notin> set (snd (guesses ls lb a gs m))"
  using assms
proof (induction gs arbitrary: m)
  case Nil
  then show ?case by simp
next
  case (Cons g gs)
  obtain now later kind path where g: "g = (now, later, kind, path)" by (metis prod_cases4)
  obtain m1 n where 1: "record_auth_failure ls lb now later a kind path m = (m1, (False, n), [])" "mo_alerts m1 = mo_alerts m"
      "mo_blocks m1 = mo_blocks m" "mo_config m1 = mo_config m"
    using quiet_failure [OF Cons.prems(1,2), of now ls lb later kind path] Cons.prems(3) by (auto simp: g)
  have "mo_blocks (fst (guesses ls lb a gs m1)) = mo_blocks m1 \<and> True \<notin> set (snd (guesses ls lb a gs m1))"
    by (rule Cons.IH) (use Cons.prems 1 in \<open>simp_all add: g\<close>)
  then show ?case using 1 by (simp add: g case_prod_beta)
qed

lemma hit_alerts:
  assumes "record_auth_failure ls lb t later a kind path m = (m1, (True, n), ns)"
  shows "dget (mo_alerts m1) (''brute_force'', clean_ip a) = Some t \<and>
    (\<exists>reason. dget (mo_blocks m1) (clean_ip a) = Some (new_block reason t m)) \<and> mo_config m1 = mo_config m"
proof -
  obtain ws count where w: "append_window (mo_max_ips m) (mo_auth m) (clean_ip a) t (sc_auth_window (mo_config m)) = (ws, count)" by fastforce
  have "\<exists>e1 e2 m2. alert_due ''brute_force'' (clean_ip a) t (sc_auth_window (mo_config m)) e1 = (m2, True) \<and>
      mo_alerts e2 = mo_alerts m2 \<and> m1 = fst (maybe_block ls lb later (clean_ip a) ''brute_force'' t e2)"
  proof -
    let ?e1 = "record_event ls (clean_ip a) ''auth_failure'' ''warning'' ''observed''
      ((if clip 64 kind = [] then ''password'' else clip 64 kind) @ '' ('' @ show_int count @ ''/'' @ show_int (sc_auth_failures (mo_config m)) @ '')'') t [] path (m\<lparr>mo_auth := ws\<rparr>)"
    obtain m2 due where d: "alert_due ''brute_force'' (clean_ip a) t (sc_auth_window (mo_config m)) ?e1 = (m2, due)" by fastforce
    have due using assms by (cases due) (simp_all add: record_auth_failure_def Let_def w d [simplified] split: if_splits)
    then have "\<exists>e2. mo_alerts e2 = mo_alerts m2 \<and> m1 = fst (maybe_block ls lb later (clean_ip a) ''brute_force'' t e2)"
      using assms by (simp add: record_auth_failure_def Let_def w d [simplified] split: if_splits prod.splits) (metis fst_conv record_event_frame(4))
    moreover have "alert_due ''brute_force'' (clean_ip a) t (sc_auth_window (mo_config m)) ?e1 = (m2, True)" using d \<open>due\<close> by simp
    ultimately show ?thesis by blast
  qed
  then have "dget (mo_alerts m1) (''brute_force'', clean_ip a) = Some t"
    by (auto simp: alert_due_def Let_def dget_put split: if_splits)
  then show ?thesis using auth_failure_reacts [OF assms] by (auto simp: reacts_def dget_put)
qed

text \<open>C34 (a short block lets the next guesses go unpunished). In the temporary mode an address gets blocked by a failed
  authentication at the time \<open>t\<close>. Any number of further failures of this address, up to half the window of
  authentications later, block nothing, and once the time of the block is over the address is not blocked. The
  configuration allows a block of 30 seconds with a window of 24 hours, which leaves almost twelve hours.\<close>

theorem expired_block_guesses_free:
  assumes "record_auth_failure ls lb t later a kind path m = (m1, (True, n), ns)" and "t \<noteq> 0" and "sc_mode (mo_config m) = Mode_Temporary"
    and "\<forall>(now, g) \<in> set gs. now - t < max 5 (of_int (sc_auth_window (mo_config m)) / 2)" and "t + of_int (sc_block_seconds (mo_config m)) \<le> now"
    and "dict_ok (mo_blocks m)"
  shows "True \<notin> set (snd (guesses ls lb a gs m1)) \<and> dget (mo_blocks (cleanup_blocks now (fst (guesses ls lb a gs m1)))) (clean_ip a) = None"
proof -
  from hit_alerts [OF assms(1)] obtain reason where h: "dget (mo_alerts m1) (''brute_force'', clean_ip a) = Some t"
    "dget (mo_blocks m1) (clean_ip a) = Some (new_block reason t m)" "mo_config m1 = mo_config m" by blast
  have q: "mo_blocks (fst (guesses ls lb a gs m1)) = mo_blocks m1" "True \<notin> set (snd (guesses ls lb a gs m1))"
    using quiet_guesses [OF h(1) assms(2)] assms(4) h(3) by simp_all
  have dead: "\<not> block_live now (new_block reason t m)" using assms(3,5) by (simp add: block_live_def new_block_def Let_def)
  have "\<not> all_vals (block_live now) (mo_blocks m1)" using dead all_vals_get [OF _ h(2), of "block_live now"] by metis
  moreover obtain r where "mo_blocks m1 = dput (clean_ip a) (new_block r t m) (mo_blocks m)"
    using auth_failure_reacts [OF assms(1)] unfolding reacts_def by auto
  then have "dict_ok (mo_blocks m1)" using assms(6) by simp
  ultimately have "dget (dkeep (block_live now) (mo_blocks m1)) (clean_ip a) = None" "mo_blocks (cleanup_blocks now n) = dkeep (block_live now) (mo_blocks m1)"
    if "mo_blocks n = mo_blocks m1" for n using that h(2) dead by (simp_all add: cleanup_blocks_def persist_blocks_def dget_keep)
  then have "dget (mo_blocks (cleanup_blocks now (fst (guesses ls lb a gs m1)))) (clean_ip a) = None" using q(1) by metis
  with q(2) show ?thesis by blast
qed

section \<open>Bounds\<close>

definition log_ok :: "(sec_event \<Rightarrow> int) \<Rightarrow> int \<Rightarrow> sec_event list option \<Rightarrow> bool" where
  "log_ok ls bound f = (case f of None \<Rightarrow> True | Some l \<Rightarrow> log_size ls l < bound)"

definition monitor_bounded :: "(sec_event \<Rightarrow> int) \<Rightarrow> int \<Rightarrow> monitor \<Rightarrow> bool" where
  "monitor_bounded ls longest m \<longleftrightarrow> 64 \<le> mo_max_ips m \<and> 50 \<le> mo_max_events m \<and> 64 * 1024 \<le> mo_log_max m \<and> 1 \<le> mo_backups m \<and> mo_backups m \<le> 20 \<and>
     int (length (mo_requests m)) \<le> mo_max_ips m \<and> int (length (mo_auth m)) \<le> mo_max_ips m \<and> int (length (mo_misses m)) \<le> mo_max_ips m \<and>
     int (length (mo_events m)) \<le> mo_max_events m \<and> log_ok ls (mo_log_max m + longest) (mo_log m) \<and>
     int (length (mo_old m)) \<le> mo_backups m \<and> list_all (log_ok ls (mo_log_max m + longest)) (mo_old m)"

lemma append_window_bound:
  assumes "64 \<le> n" and "int (length d) \<le> n"
  shows "int (length (fst (append_window n d key now w))) \<le> n"
proof -
  have pop: "length (dpop key d1) < length d1" if "key \<in> set (dkeys d1)" for d1 :: windows
    using that
  proof (induction d1)
    case (Cons x d1)
    then show ?case using length_pop_le [of key d1] by (cases "fst x = key") auto
  qed simp
  show ?thesis
  proof (cases "key \<in> set (dkeys d)")
    case True
    then show ?thesis using pop [of d] assms(2) by (simp add: append_window_def Let_def)
  next
    case False
    let ?d = "drop (nat (int (length d) - n + 1)) d"
    have "int (length (?d @ [(key, [])])) \<le> n" using assms by simp
    moreover have "length (dpop key (?d @ [(key, [])])) < length (?d @ [(key, [])])" by (rule pop) simp
    ultimately show ?thesis using False by (simp only: append_window_def Let_def if_False fst_conv length_append list.size)
  qed
qed

lemma push_bound: "0 \<le> n \<Longrightarrow> int (length (drop (nat (int (length l) + 1 - n)) (l @ [e]))) \<le> n"
  unfolding length_drop length_append by simp

lemma record_event_bounded:
  assumes "monitor_bounded ls longest m" and "\<forall>e. 0 \<le> ls e \<and> ls e \<le> longest"
  shows "monitor_bounded ls longest (record_event ls ip ty sv ac de now me pa m)"
proof -
  have "monitor_bounded ls longest (push_event e m)" for e
    using assms(1) push_bound [of "mo_max_events m" "mo_events m" e] by (simp add: monitor_bounded_def push_event_def del: drop_append)
  moreover have "monitor_bounded ls longest (append_log ls e n)" if n: "monitor_bounded ls longest n" for e n
  proof -
    have e: "0 \<le> ls e" "ls e \<le> longest" using assms(2) by auto
    have sz: "log_size ls (l @ [e]) = log_size ls l + ls e" for l by (simp add: log_size_def)
    show ?thesis
    proof (cases "mo_log n")
      case None
      then show ?thesis using n e by (simp add: monitor_bounded_def append_log_def Let_def log_ok_def log_size_def)
    next
      case (Some l)
      have "list_all (log_ok ls (mo_log_max n + longest)) (take k (mo_log n # mo_old n))" for k
        using n by (auto simp: monitor_bounded_def list_all_iff dest!: in_set_takeD)
      then show ?thesis using n e Some by (auto simp: monitor_bounded_def append_log_def Let_def log_ok_def sz rotate_logs_def) (simp_all add: log_size_def)
    qed
  qed
  ultimately show ?thesis by (simp add: record_event_def Let_def)
qed

lemma bounded_cong: "monitor_bounded ls x m \<Longrightarrow> mo_max_ips n = mo_max_ips m \<Longrightarrow> mo_max_events n = mo_max_events m \<Longrightarrow> mo_log_max n = mo_log_max m \<Longrightarrow>
    mo_backups n = mo_backups m \<Longrightarrow> int (length (mo_requests n)) \<le> mo_max_ips m \<Longrightarrow> int (length (mo_auth n)) \<le> mo_max_ips m \<Longrightarrow>
    int (length (mo_misses n)) \<le> mo_max_ips m \<Longrightarrow> mo_events n = mo_events m \<Longrightarrow> mo_log n = mo_log m \<Longrightarrow> mo_old n = mo_old m \<Longrightarrow> monitor_bounded ls x n"
  by (simp add: monitor_bounded_def)

lemma maybe_block_bounded:
  assumes "monitor_bounded ls longest m" and "\<forall>e. 0 \<le> ls e \<and> ls e \<le> longest"
  shows "monitor_bounded ls longest (fst (maybe_block ls lb later ip reason now m))"
proof -
  have n: "monitor_bounded ls longest (fst (notify t i r a n))" if "monitor_bounded ls longest n" for t i r a n
    using that by (rule bounded_cong) (use that in \<open>simp_all add: monitor_bounded_def\<close>)
  have p: "monitor_bounded ls longest (persist_blocks (m\<lparr>mo_blocks := d\<rparr>))" for d
    using assms(1) by (rule bounded_cong) (use assms(1) in \<open>simp_all add: monitor_bounded_def persist_blocks_def\<close>)
  show ?thesis using n record_event_bounded [OF assms] record_event_bounded [OF p assms(2)] by (simp add: maybe_block_def Let_def case_prod_beta)
qed

lemma alert_due_bounded: "monitor_bounded ls x m \<Longrightarrow> alert_due ty ip now w m = (m', due) \<Longrightarrow> monitor_bounded ls x m'"
  by (auto simp: alert_due_def Let_def monitor_bounded_def split: if_splits)

lemma cleanup_bounded: "monitor_bounded ls x m \<Longrightarrow> monitor_bounded ls x (cleanup_blocks now m)"
  by (simp add: cleanup_blocks_def persist_blocks_def monitor_bounded_def)

lemma window_bounded:
  assumes "monitor_bounded ls x m"
  shows "append_window (mo_max_ips m) (mo_requests m) k now w = (ws, c) \<Longrightarrow> monitor_bounded ls x (m\<lparr>mo_requests := ws\<rparr>)"
    "append_window (mo_max_ips m) (mo_auth m) k now w = (ws, c) \<Longrightarrow> monitor_bounded ls x (m\<lparr>mo_auth := ws\<rparr>)"
    "append_window (mo_max_ips m) (mo_misses m) k now w = (ws, c) \<Longrightarrow> monitor_bounded ls x (m\<lparr>mo_misses := ws\<rparr>)"
proof -
  have "int (length ws) \<le> mo_max_ips m" if "append_window (mo_max_ips m) d k now w = (ws, c)" "int (length d) \<le> mo_max_ips m" for d
    using append_window_bound [of "mo_max_ips m" d k now w] that assms by (simp add: monitor_bounded_def)
  then show "append_window (mo_max_ips m) (mo_requests m) k now w = (ws, c) \<Longrightarrow> monitor_bounded ls x (m\<lparr>mo_requests := ws\<rparr>)"
    "append_window (mo_max_ips m) (mo_auth m) k now w = (ws, c) \<Longrightarrow> monitor_bounded ls x (m\<lparr>mo_auth := ws\<rparr>)"
    "append_window (mo_max_ips m) (mo_misses m) k now w = (ws, c) \<Longrightarrow> monitor_bounded ls x (m\<lparr>mo_misses := ws\<rparr>)"
    using assms by (simp_all add: monitor_bounded_def)
qed

lemma block_after_event_bounded:
  assumes "monitor_bounded ls x m" and "\<forall>e. 0 \<le> ls e \<and> ls e \<le> x" and "maybe_block ls lb later ip reason now (record_event ls i ty sv ac de t me pa m) = (m', r)"
  shows "monitor_bounded ls x m'"
  using maybe_block_bounded [OF record_event_bounded [OF assms(1,2)] assms(2)] assms(3) by (metis fst_conv)

lemma auth_failure_bounded:
  assumes "monitor_bounded ls x m" and "\<forall>e. 0 \<le> ls e \<and> ls e \<le> x"
  shows "monitor_bounded ls x (fst (record_auth_failure ls lb now later ip kind path m))"
proof -
  obtain ws count where w: "append_window (mo_max_ips m) (mo_auth m) (clean_ip ip) now (sc_auth_window (mo_config m)) = (ws, count)" by fastforce
  have e: "monitor_bounded ls x (record_event ls i ty sv ac de t me pa (m\<lparr>mo_auth := ws\<rparr>))" for i ty sv ac de t me pa
    by (rule record_event_bounded [OF window_bounded(2) [OF assms(1) w] assms(2)])
  show ?thesis using assms(1) e block_after_event_bounded [OF alert_due_bounded [OF e] assms(2)] alert_due_bounded [OF e]
    by (simp add: record_auth_failure_def Let_def w split: prod.split bool.split)
qed

lemma not_found_bounded:
  assumes "monitor_bounded ls x m" and "\<forall>e. 0 \<le> ls e \<and> ls e \<le> x"
  shows "monitor_bounded ls x (fst (record_not_found ls lb now later ip me path m))"
proof -
  obtain ws count where w: "append_window (mo_max_ips m) (mo_misses m) (clean_ip ip) now (sc_route_window (mo_config m)) = (ws, count)" by fastforce
  let ?m = "m\<lparr>mo_misses := ws\<rparr>"
  have b: "monitor_bounded ls x ?m" using window_bounded(3) [OF assms(1) w] .
  have e: "monitor_bounded ls x (record_event ls i ty sv ac de t me pa ?m)" for i ty sv ac de t me pa by (rule record_event_bounded [OF b assms(2)])
  show ?thesis
    using assms(1) b e block_after_event_bounded [OF alert_due_bounded [OF e] assms(2)] alert_due_bounded [OF e]
      block_after_event_bounded [OF alert_due_bounded [OF b] assms(2)] alert_due_bounded [OF b]
    by (simp add: record_not_found_def Let_def w split: prod.split bool.split)
qed

lemma inspect_bounded:
  assumes "monitor_bounded ls x m" and "\<forall>e. 0 \<le> ls e \<and> ls e \<le> x"
  shows "monitor_bounded ls x (fst (inspect_request ls lb now later ip me path m))"
proof -
  let ?c = "cleanup_blocks now m"
  obtain ws count where w: "append_window (mo_max_ips ?c) (mo_requests ?c) (clean_ip ip) now (sc_burst_window (mo_config ?c)) = (ws, count)" by fastforce
  let ?m = "?c\<lparr>mo_requests := ws\<rparr>"
  have c: "monitor_bounded ls x ?c" by (rule cleanup_bounded [OF assms(1)])
  have b: "monitor_bounded ls x ?m" using window_bounded(1) [OF c w] .
  show ?thesis
    using c b block_after_event_bounded [OF alert_due_bounded [OF b] assms(2)] alert_due_bounded [OF b]
    by (simp add: inspect_request_def Let_def w split: prod.split bool.split option.split)
qed

lemma snapshot_bounded: "monitor_bounded ls x m \<Longrightarrow> monitor_bounded ls x (fst (snapshot now limit m))"
  by (simp add: snapshot_def Let_def cleanup_bounded)

lemma fold_push_bounded: "monitor_bounded ls x m \<Longrightarrow> monitor_bounded ls x (fold push_event l m)"
proof (induction l arbitrary: m)
  case (Cons e l)
  have "monitor_bounded ls x (push_event e m)" using Cons.prems push_bound [of "mo_max_events m" "mo_events m" e]
    by (simp add: monitor_bounded_def push_event_def del: drop_append)
  then show ?case using Cons.IH by simp
qed simp

lemma load_blocks_bounded: "monitor_bounded ls x m \<Longrightarrow> load_blocks repr rl now raw m = Inr m' \<Longrightarrow> monitor_bounded ls x m'"
  by (auto simp: load_blocks_def Let_def persist_blocks_def monitor_bounded_def split: json.splits sum.splits if_splits)

lemma start_bounded:
  assumes "log_ok ls (max 65536 lm + x) lg" and "int (length old) \<le> max 1 (min 20 bk)" and "list_all (log_ok ls (max 65536 lm + x)) old"
    and "start_monitor repr rl now config nf mi mx lm bk (file0, lg, old) = Inr m"
  shows "monitor_bounded ls x m"
proof -
  let ?init = "\<lparr>mo_config = normalize_security_config repr config, mo_requests = [], mo_auth = [], mo_misses = [], mo_alerts = [], mo_notified = [],
     mo_blocks = [], mo_events = [], mo_notifier = nf, mo_max_ips = max 64 mx, mo_max_events = max 50 mi,
     mo_log_max = max (64 * 1024) lm, mo_backups = max 1 (min 20 bk), mo_file = file0, mo_log = lg, mo_old = old\<rparr>"
  obtain m1 where m1: "load_blocks repr rl now (blocks_json file0) ?init = Inr m1" using assms(4) by (auto simp: start_monitor_def Let_def split: sum.splits)
  have "monitor_bounded ls x ?init" using assms(1-3) by (simp add: monitor_bounded_def le_max_iff_disj)
  from load_blocks_bounded [OF this m1] have "monitor_bounded ls x m1" .
  then show ?thesis using assms(4) m1 fold_push_bounded by (auto simp: start_monitor_def Let_def split: option.splits)
qed

lemma sec_step_bounded:
  assumes b: "monitor_bounded (se_size E) x m" and ls: "\<forall>e. 0 \<le> se_size E e \<and> se_size E e \<le> x"
  shows "monitor_bounded (se_size E) x (fst (sec_step E op m))"
proof (cases op)
  case (Se_Auth_Success now ip)
  have "length (dpop k d) \<le> length d" for k and d :: windows by (rule length_pop_le)
  with b show ?thesis by (auto simp: Se_Auth_Success record_auth_success_def monitor_bounded_def intro: order_trans [of _ "int (length (mo_auth m))"])
next
  case (Se_Unblock now ip)
  have "monitor_bounded (se_size E) x (persist_blocks (m\<lparr>mo_blocks := d\<rparr>))" for d using b by (simp add: monitor_bounded_def persist_blocks_def)
  then show ?thesis using b record_event_bounded ls by (simp add: Se_Unblock unblock_def Let_def)
next
  case (Se_Clear now)
  then show ?thesis using b by (simp add: clear_history_def monitor_bounded_def log_ok_def list_all_iff)
next
  case (Se_Configure now v)
  have "monitor_bounded (se_size E) x (m\<lparr>mo_config := c\<rparr>)" "monitor_bounded (se_size E) x (m\<lparr>mo_config := c, mo_requests := [], mo_auth := [], mo_misses := []\<rparr>)" for c
    using b by (simp_all add: monitor_bounded_def)
  then show ?thesis using snapshot_bounded by (simp add: Se_Configure configure_def Let_def)
next
  case (Se_Restart now v)
  have k: "max 65536 (mo_log_max m) = mo_log_max m" "max 1 (min 20 (mo_backups m)) = mo_backups m" using b by (simp_all add: monitor_bounded_def)
  show ?thesis using b start_bounded [of "se_size E" "mo_log_max m" x "mo_log m" "mo_old m" "mo_backups m"]
    by (auto simp: Se_Restart monitor_bounded_def [of _ _ m] k split: sum.split)
qed (use b ls inspect_bounded auth_failure_bounded not_found_bounded snapshot_bounded in \<open>simp_all add: case_prod_beta\<close>)

text \<open>From a start without a log the tables of windows, the list of events and the files
  of the log stay within the configured limits, whatever is served, in any order: no table of addresses is larger than
  its limit, and no file of the log is larger than the limit of its size by more than one line.\<close>

theorem monitor_stays_bounded:
  assumes "start_monitor (se_repr E) (se_float E) t0 config nf mi mx lm bk (file0, None, []) = Inr m0" and "\<forall>e. 0 \<le> se_size E e \<and> se_size E e \<le> longest"
  shows "monitor_bounded (se_size E) longest (sec_after E ops m0)"
proof -
  have "monitor_bounded (se_size E) longest m0" using start_bounded [OF _ _ _ assms(1), of "se_size E" longest] by (simp add: log_ok_def)
  then show ?thesis by (induction ops arbitrary: m0) (simp_all add: sec_step_bounded [OF _ assms(2)])
qed

section \<open>Reaching the threshold\<close>

lemma threshold_blocks:
  assumes "append_window (mo_max_ips m) (mo_auth m) (clean_ip a) now (sc_auth_window (mo_config m)) = (ws, count)"
    and "\<not> is_protected_source lb (clean_ip a)" and "sc_enabled (mo_config m)" and "sc_auth_failures (mo_config m) \<le> count"
    and "dget (mo_alerts m) (''brute_force'', clean_ip a) = None" and "sc_mode (mo_config m) \<noteq> Mode_Monitor"
  shows "\<exists>m' n ns. record_auth_failure ls lb now later a kind path m = (m', (True, n), ns)"
proof -
  have a: "alert_due ''brute_force'' (clean_ip a) now w (record_event ls ip ty sv ac de t me pa (m\<lparr>mo_auth := ws\<rparr>)) =
      ((record_event ls ip ty sv ac de t me pa (m\<lparr>mo_auth := ws\<rparr>))\<lparr>mo_alerts := dput (''brute_force'', clean_ip a) now (mo_alerts m)\<rparr>, True)"
    for ip ty sv ac de t me pa w using assms(5) by (simp add: alert_due_def)
  have hit: "fst (snd (maybe_block ls lb later (clean_ip a) r now n))" if "mo_config n = mo_config m" for r n
    using assms(2,6) that by (simp add: maybe_block_hit)
  have "fst (fst (snd (record_auth_failure ls lb now later a kind path m)))"
    using assms(3,4) hit unfolding record_auth_failure_def Let_def assms(1) prod.case a bool.case by (simp add: case_prod_beta)
  then show ?thesis by (metis prod.collapse)
qed

section \<open>Instances\<close>

definition demo_env :: sec_env where
  "demo_env = \<lparr>se_size = (\<lambda>e. 512), se_loopback = (\<lambda>ip. None), se_repr = (\<lambda>v. []), se_float = (\<lambda>s. None)\<rparr>"

definition demo_config :: json where
  "demo_config = JObj [(''auth_failures'', JInt 2), (''auth_window_seconds'', JInt 86400), (''block_seconds'', JInt 30)]"

lemma demo_config_values: "sc_enabled (normalize_security_config repr demo_config)" "sc_mode (normalize_security_config repr demo_config) = Mode_Temporary"
  "sc_auth_failures (normalize_security_config repr demo_config) = 2" "sc_auth_window (normalize_security_config repr demo_config) = 86400"
  "sc_block_seconds (normalize_security_config repr demo_config) = 30" "\<not> sc_notify (normalize_security_config repr demo_config)"
  by (simp_all add: normalize_security_config_def demo_config_def Let_def config_value_def config_int_def jget_or_def jget_def
      default_security_config_def config_bounds_def str_lower_def str_strip_def lower_char_def is_space_def char_eval)

definition demo_monitor :: monitor where
  "demo_monitor = (case start_monitor (se_repr demo_env) (se_float demo_env) 1000 demo_config True 500 4096 2000000 5 (None, None, []) of Inr m \<Rightarrow> m)"

lemma demo_start: "start_monitor (se_repr demo_env) (se_float demo_env) 1000 demo_config True 500 4096 2000000 5 (None, None, []) = Inr demo_monitor"
  by (simp add: demo_monitor_def start_monitor_def load_blocks_def blocks_json_def jget_def Let_def)

lemma demo_monitor_state: "mo_config demo_monitor = normalize_security_config (se_repr demo_env) demo_config" "mo_auth demo_monitor = []" "mo_alerts demo_monitor = []"
  "mo_max_ips demo_monitor = 4096" "mo_blocks demo_monitor = []"
  by (simp_all add: demo_monitor_def start_monitor_def load_blocks_def blocks_json_def jget_def Let_def)

lemma demo_ip: "clean_ip ''1.2.3.4'' = ''1.2.3.4''"
  by (simp add: clean_ip_def str_strip_def is_space_def char_eval)

definition demo_failed :: monitor where
  "demo_failed = fst (record_auth_failure (se_size demo_env) (se_loopback demo_env) 1001 1001 ''1.2.3.4'' ''password'' [] demo_monitor)"

lemma demo_failed_state: "mo_config demo_failed = normalize_security_config (se_repr demo_env) demo_config" "mo_auth demo_failed = [(''1.2.3.4'', [1001])]"
  "mo_alerts demo_failed = []" "mo_max_ips demo_failed = 4096" "mo_blocks demo_failed = []"
  by (simp_all add: demo_failed_def record_auth_failure_def Let_def demo_ip append_window_def demo_monitor_state trim_window_def demo_config_values)

lemma demo_blocked: "\<exists>m n ns. record_auth_failure (se_size demo_env) (se_loopback demo_env) 1002 1002 ''1.2.3.4'' ''password'' [] demo_failed = (m, (True, n), ns)"
proof (rule threshold_blocks)
  show "append_window (mo_max_ips demo_failed) (mo_auth demo_failed) (clean_ip ''1.2.3.4'') 1002 (sc_auth_window (mo_config demo_failed)) =
      ([(''1.2.3.4'', [1001, 1002])], 2)"
    by (simp add: append_window_def trim_window_def demo_failed_state demo_config_values demo_ip)
  show "\<not> is_protected_source (se_loopback demo_env) (clean_ip ''1.2.3.4'')"
    by (simp add: demo_ip is_protected_source_def demo_env_def str_lower_def lower_char_def char_eval)
qed (simp_all add: demo_failed_state demo_config_values)

theorem brute_force_block_holds_witness:
  "\<exists>m d. (Se_Inspect 1031 1031 ''1.2.3.4'' ''GET'' ''/'', Some d) \<in>
      set (sec_run demo_env [Se_Restart 1003 demo_config, Se_Inspect 1031 1031 ''1.2.3.4'' ''GET'' ''/''] m) \<and> \<not> de_allowed d"
proof -
  obtain m n ns where m: "record_auth_failure (se_size demo_env) (se_loopback demo_env) 1002 1002 ''1.2.3.4'' ''password'' []
      (sec_after demo_env [Se_Auth_Failure 1001 1001 ''1.2.3.4'' ''password'' []] demo_monitor) = (m, (True, n), ns)"
    using demo_blocked by (auto simp: demo_failed_def)
  have c: "mo_config m = normalize_security_config (se_repr demo_env) demo_config"
    using auth_failure_reacts [OF m] demo_failed_state(1) by (simp add: reacts_def demo_failed_def)
  let ?ops = "[Se_Restart 1003 demo_config, Se_Inspect 1031 1031 ''1.2.3.4'' ''GET'' ''/'']"
  obtain d where d: "(Se_Inspect 1031 1031 ''1.2.3.4'' ''GET'' ''/'', Some d) \<in> set (sec_run demo_env ?ops m)"
    by (auto simp: case_prod_beta)
  have "\<not> de_allowed d"
    by (rule brute_force_block_holds [OF demo_start _ _ m _ _ d refl]) (simp_all add: c demo_config_values)
  with d show ?thesis by blast
qed

theorem expired_block_guesses_free_witness:
  "\<exists>m. True \<notin> set (snd (guesses (se_size demo_env) (se_loopback demo_env) ''1.2.3.4'' (replicate 9 (40000, 40000, ''password'', [])) m)) \<and>
     dget (mo_blocks (cleanup_blocks 40001 (fst (guesses (se_size demo_env) (se_loopback demo_env) ''1.2.3.4'' (replicate 9 (40000, 40000, ''password'', [])) m)))) ''1.2.3.4'' = None"
proof -
  obtain m n ns where m: "record_auth_failure (se_size demo_env) (se_loopback demo_env) 1002 1002 ''1.2.3.4'' ''password'' [] demo_failed = (m, (True, n), ns)"
    using demo_blocked by auto
  show ?thesis
    by (intro exI [of _ m] expired_block_guesses_free [OF m, unfolded demo_ip])
      (simp_all add: demo_failed_state demo_config_values dict_ok_def)
qed

theorem monitor_stays_bounded_witness:
  "monitor_bounded (se_size demo_env) 512 (sec_after demo_env [Se_Auth_Failure 1001 1001 ''1.2.3.4'' ''password'' []] demo_monitor)"
  by (rule monitor_stays_bounded [OF demo_start]) (simp add: demo_env_def)

end
