(* ===== verification/Session_Groups.thy ===== *)
theory Session_Groups
  imports Py_Json
begin

text \<open>
  Groups of trusted devices that resume each other's media (\<^verbatim>\<open>core/session_sync.py\<close>): invitation and membership,
  the playback state, the history of resume points and the handoff of a medium to another device. A group of the
  file may have the members of version 1, which are identifiers; they are rewritten in memory when the group is used.
  Whether a device is trusted, the hash of an invitation, the translated default name and the reading of a number in
  a text are parameters; random values are arguments.
\<close>

section \<open>State\<close>

definition invite_ttl :: time where "invite_ttl = 600"
definition state_ttl :: time where "state_ttl = 21600"
definition handoff_ttl :: time where "handoff_ttl = 120"
definition max_devices :: nat where "max_devices = 10"
definition max_resume_history :: nat where "max_resume_history = 100"
definition max_pending_handoffs :: nat where "max_pending_handoffs = 32"

definition supported_media_types :: "string list" where
  "supported_media_types = [''audio'', ''video'', ''document'', ''text'', ''pdf'']"

record group_member =
  gm_id :: string
  gm_label :: string
  gm_joined :: time

datatype stored_member = Old_Member string | Member group_member

datatype position = Milliseconds int | Page int real

record playback =
  pl_track :: string
  pl_position :: int
  pl_updated :: time
  pl_source :: string
  pl_expires :: time
  pl_label :: string

record resume =
  re_media :: string
  re_type :: string
  re_position :: position
  re_updated :: time
  re_expires :: time
  re_source :: string
  re_label :: string

record handoff =
  ho_id :: string
  ho_source :: string
  ho_label :: string
  ho_target :: string
  ho_media :: string
  ho_type :: string
  ho_position :: position
  ho_expires :: time

record device_group =
  dg_name :: string
  dg_members :: "stored_member list"
  dg_created :: time
  dg_invite_hash :: string
  dg_invite_expires :: time
  dg_state :: "playback option"
  dg_history :: "resume list"
  dg_resume :: "resume option"
  dg_handoffs :: "(string, handoff) dict"

text \<open>\<open>_DATA\<close> and the file it was last written to.\<close>

record group_store =
  gs_groups :: "(string, device_group) dict"
  gs_file :: "(string, device_group) dict"

datatype group_error = Gr_Untrusted | Gr_Full | Gr_Invite | Gr_Forbidden | Gr_Invalid | Gr_Busy | Gr_Not_Found | Gr_Use_Leave | Gr_Py py_error

text \<open>What is sent to which devices.\<close>

datatype group_notice =
    Note_Group "string list" string string string string string
  | Note_Resume "string list" resume
  | Note_Handoff string handoff
  | Note_Response string string bool string

definition group_save :: "group_store \<Rightarrow> group_store" where
  "group_save st = st\<lparr>gs_file := gs_groups st\<rparr>"

definition put_group :: "string \<Rightarrow> device_group \<Rightarrow> group_store \<Rightarrow> group_store" where
  "put_group k g st = st\<lparr>gs_groups := dput k g (gs_groups st)\<rparr>"

section \<open>Members\<close>

definition device_label :: "string \<Rightarrow> string \<Rightarrow> string" where
  "device_label device label =
     (let clean = str_strip label; suffix = drop (length device - 4) device
      in if clean \<noteq> [] then take 80 clean else ''Appareil '' @ (if suffix = [] then ''----'' else suffix))"

definition as_member :: "device_group \<Rightarrow> stored_member \<Rightarrow> group_member" where
  "as_member g m =
     (case m of Old_Member d \<Rightarrow> \<lparr>gm_id = d, gm_label = device_label d [], gm_joined = dg_created g\<rparr>
      | Member x \<Rightarrow> x\<lparr>gm_label := device_label (gm_id x) (gm_label x)\<rparr>)"

definition kept_member :: "stored_member \<Rightarrow> bool" where
  "kept_member m = (case m of Old_Member d \<Rightarrow> True | Member x \<Rightarrow> gm_id x \<noteq> [])"

definition members_of :: "device_group \<Rightarrow> group_member list" where
  "members_of g = map (as_member g) (filter kept_member (dg_members g))"

definition with_members :: "group_member list \<Rightarrow> device_group \<Rightarrow> device_group" where
  "with_members ms g = g\<lparr>dg_members := map Member ms\<rparr>"

definition normalize_members :: "device_group \<Rightarrow> device_group" where
  "normalize_members g = with_members (members_of g) g"

definition find_member :: "device_group \<Rightarrow> string \<Rightarrow> group_member option" where
  "find_member g device = find (\<lambda>m. gm_id m = device) (members_of g)"

text \<open>\<open>_authorized\<close>: the group with its members rewritten, when the device is trusted and one of them.\<close>

definition authorized_group :: "(string \<Rightarrow> bool) \<Rightarrow> string \<Rightarrow> string \<Rightarrow> group_store \<Rightarrow> group_store \<times> device_group option" where
  "authorized_group trusted gid device st =
     (if \<not> trusted device then (st, None)
      else (case dget (gs_groups st) gid of None \<Rightarrow> (st, None)
            | Some g \<Rightarrow> (let g = normalize_members g
                         in (put_group gid g st, if find_member g device = None then None else Some g))))"

definition notify_group :: "string \<Rightarrow> string \<Rightarrow> string list \<Rightarrow> string \<Rightarrow> group_member \<Rightarrow> group_notice list" where
  "notify_group gid name recipients action m = [Note_Group recipients gid name action (gm_id m) (gm_label m)]"

section \<open>Groups\<close>

definition create_group ::
  "(string \<Rightarrow> bool) \<Rightarrow> (string \<Rightarrow> string) \<Rightarrow> string \<Rightarrow> time \<Rightarrow> string \<Rightarrow> string \<Rightarrow> string \<Rightarrow> string \<Rightarrow> string \<Rightarrow> group_store \<Rightarrow>
    group_store \<times> (group_error + string \<times> string \<times> string \<times> time)" where
  "create_group trusted h dflt now gid invite device name label st =
     (if \<not> trusted device then (st, Inl Gr_Untrusted)
      else (let name = (let n = str_strip name in if n = [] then dflt else n);
                g = \<lparr>dg_name = name, dg_members = [Member \<lparr>gm_id = device, gm_label = device_label device label, gm_joined = now\<rparr>],
                     dg_created = now, dg_invite_hash = h invite, dg_invite_expires = now + invite_ttl, dg_state = None,
                     dg_history = [], dg_resume = None, dg_handoffs = []\<rparr>
            in (group_save (put_group gid g st), Inr (gid, name, invite, now + invite_ttl))))"

text \<open>The first group whose invitation is running and has the hash.\<close>

definition invited_group :: "time \<Rightarrow> string \<Rightarrow> group_store \<Rightarrow> (string \<times> device_group) option" where
  "invited_group now hash st = find (\<lambda>(k, g). now < dg_invite_expires g \<and> dg_invite_hash g = hash) (gs_groups st)"

fun relabel :: "string \<Rightarrow> string \<Rightarrow> group_member list \<Rightarrow> group_member list" where
  "relabel device label [] = []"
| "relabel device label (m # ms) = (if gm_id m = device then m\<lparr>gm_label := label\<rparr> # ms else m # relabel device label ms)"

definition join_group ::
  "(string \<Rightarrow> bool) \<Rightarrow> (string \<Rightarrow> string) \<Rightarrow> time \<Rightarrow> string \<Rightarrow> string \<Rightarrow> string \<Rightarrow> group_store \<Rightarrow>
    group_store \<times> (group_error + string \<times> string) \<times> group_notice list" where
  "join_group trusted h now device secret label st =
     (if \<not> trusted device then (st, Inl Gr_Untrusted, [])
      else (case invited_group now (h (str_strip secret)) st of None \<Rightarrow> (st, Inl Gr_Invite, [])
            | Some (gid, g) \<Rightarrow>
                (let g = normalize_members g; ms = members_of g; st = put_group gid g st
                 in case find (\<lambda>m. gm_id m = device) ms of
                      None \<Rightarrow>
                        if max_devices \<le> length ms then (st, Inl Gr_Full, [])
                        else (let m = \<lparr>gm_id = device, gm_label = device_label device label, gm_joined = now\<rparr>; ms = ms @ [m]
                              in (group_save (put_group gid (with_members ms g) st), Inr (gid, dg_name g),
                                  notify_group gid (dg_name g) (map gm_id ms) ''member_joined'' m))
                    | Some m \<Rightarrow>
                        if label \<noteq> [] \<and> gm_label m \<noteq> device_label device label
                        then (group_save (put_group gid (with_members (relabel device (device_label device label) ms) g) st), Inr (gid, dg_name g), [])
                        else (st, Inr (gid, dg_name g), []))))"

definition renew_invite ::
  "(string \<Rightarrow> bool) \<Rightarrow> (string \<Rightarrow> string) \<Rightarrow> time \<Rightarrow> string \<Rightarrow> string \<Rightarrow> string \<Rightarrow> group_store \<Rightarrow> group_store \<times> (group_error + string \<times> time)" where
  "renew_invite trusted h now invite gid device st =
     (case authorized_group trusted gid device st of (st, None) \<Rightarrow> (st, Inl Gr_Forbidden)
      | (st, Some g) \<Rightarrow> (group_save (put_group gid (g\<lparr>dg_invite_hash := h invite, dg_invite_expires := now + invite_ttl\<rparr>) st),
                         Inr (invite, now + invite_ttl)))"

definition list_members :: "(string \<Rightarrow> bool) \<Rightarrow> string \<Rightarrow> string \<Rightarrow> group_store \<Rightarrow> group_store \<times> (group_error + string \<times> group_member list)" where
  "list_members trusted gid device st =
     (case authorized_group trusted gid device st of (st, None) \<Rightarrow> (st, Inl Gr_Forbidden)
      | (st, Some g) \<Rightarrow> (st, Inr (dg_name g, filter (\<lambda>m. trusted (gm_id m)) (members_of g))))"

text \<open>The playback state goes when its device does.\<close>

definition forget_source :: "string \<Rightarrow> device_group \<Rightarrow> device_group" where
  "forget_source device g = (case dg_state g of None \<Rightarrow> g | Some p \<Rightarrow> if pl_source p = device then g\<lparr>dg_state := None\<rparr> else g)"

definition leave_group ::
  "(string \<Rightarrow> bool) \<Rightarrow> string \<Rightarrow> string \<Rightarrow> group_store \<Rightarrow> group_store \<times> (group_error + bool) \<times> group_notice list" where
  "leave_group trusted gid device st =
     (case authorized_group trusted gid device st of (st, None) \<Rightarrow> (st, Inl Gr_Forbidden, [])
      | (st, Some g) \<Rightarrow>
          (let ms = members_of g; rest = filter (\<lambda>m. gm_id m \<noteq> device) ms;
               notes = (case find_member g device of None \<Rightarrow> [] | Some m \<Rightarrow> notify_group gid (dg_name g) (map gm_id ms) ''member_left'' m)
           in if rest = [] then (group_save (st\<lparr>gs_groups := dpop gid (gs_groups st)\<rparr>), Inr True, notes)
              else (group_save (put_group gid (forget_source device (with_members rest g)) st), Inr False, notes)))"

definition remove_member ::
  "(string \<Rightarrow> bool) \<Rightarrow> string \<Rightarrow> string \<Rightarrow> string \<Rightarrow> group_store \<Rightarrow> group_store \<times> (group_error + unit) \<times> group_notice list" where
  "remove_member trusted gid device target st =
     (if device = target then (st, Inl Gr_Use_Leave, [])
      else (case authorized_group trusted gid device st of (st, None) \<Rightarrow> (st, Inl Gr_Forbidden, [])
            | (st, Some g) \<Rightarrow>
                (case find_member g target of None \<Rightarrow> (st, Inl Gr_Not_Found, [])
                 | Some m \<Rightarrow> (let ms = members_of g
                     in (group_save (put_group gid (forget_source target (with_members (filter (\<lambda>x. gm_id x \<noteq> target) ms) g)) st), Inr (),
                         notify_group gid (dg_name g) (map gm_id ms) ''member_removed'' m)))))"

section \<open>Playback and resume points\<close>

definition normalize_position :: "(string \<Rightarrow> real option) \<Rightarrow> string \<Rightarrow> json \<Rightarrow> position option" where
  "normalize_position rl type v =
     (case v of JObj ob \<Rightarrow>
        if type = ''audio'' \<or> type = ''video''
        then (case to_int (jget_or ob ''milliseconds'' (JInt 0)) of Inl e \<Rightarrow> None | Inr n \<Rightarrow> Some (Milliseconds (max 0 n)))
        else (case to_int (jget_or ob ''page'' (JInt 0)) of Inl e \<Rightarrow> None
              | Inr n \<Rightarrow> (case to_float rl (jget_or ob ''offset'' (JInt 0)) of Inl e \<Rightarrow> None
                 | Inr x \<Rightarrow> Some (Page (max 0 n) (max 0 (min 1 x)))))
      | _ \<Rightarrow> None)"

definition update_state ::
  "(string \<Rightarrow> bool) \<Rightarrow> time \<Rightarrow> string \<Rightarrow> string \<Rightarrow> string \<Rightarrow> json \<Rightarrow> group_store \<Rightarrow> group_store \<times> (group_error + time)" where
  "update_state trusted now gid device track pos st =
     (case authorized_group trusted gid device st of (st, None) \<Rightarrow> (st, Inl Gr_Forbidden)
      | (st, Some g) \<Rightarrow>
          (case (to_int pos, find_member g device) of
             (Inr n, Some m) \<Rightarrow>
               (group_save (put_group gid (g\<lparr>dg_state := Some \<lparr>pl_track = track, pl_position = max 0 n, pl_updated = now, pl_source = device,
                  pl_expires = now + state_ttl, pl_label = gm_label m\<rparr>\<rparr>) st), Inr now)
           | (Inl e, _) \<Rightarrow> (st, Inl (Gr_Py e))
           | (_, None) \<Rightarrow> (st, Inl (Gr_Py Type_Error))))"

definition get_state :: "(string \<Rightarrow> bool) \<Rightarrow> time \<Rightarrow> string \<Rightarrow> string \<Rightarrow> group_store \<Rightarrow> group_store \<times> (group_error + string \<times> playback option)" where
  "get_state trusted now gid device st =
     (case authorized_group trusted gid device st of (st, None) \<Rightarrow> (st, Inl Gr_Forbidden)
      | (st, Some g) \<Rightarrow> (st, Inr (dg_name g, (case dg_state g of None \<Rightarrow> None | Some p \<Rightarrow> if pl_expires p \<le> now then None else Some p))))"

definition update_resume ::
  "(string \<Rightarrow> bool) \<Rightarrow> (string \<Rightarrow> real option) \<Rightarrow> time \<Rightarrow> string \<Rightarrow> string \<Rightarrow> string \<Rightarrow> string \<Rightarrow> json \<Rightarrow> group_store \<Rightarrow>
    group_store \<times> (group_error + time) \<times> group_notice list" where
  "update_resume trusted rl now gid device media type pos st =
     (let media = str_strip media; type = str_lower (str_strip type)
      in if media = [] \<or> 2048 < length media \<or> type \<notin> set supported_media_types then (st, Inl Gr_Invalid, [])
         else (case normalize_position rl type pos of None \<Rightarrow> (st, Inl Gr_Invalid, [])
          | Some p \<Rightarrow>
              (case authorized_group trusted gid device st of (st, None) \<Rightarrow> (st, Inl Gr_Forbidden, [])
               | (st, Some g) \<Rightarrow>
                   (case find_member g device of None \<Rightarrow> (st, Inl (Gr_Py Type_Error), [])
                    | Some m \<Rightarrow>
                        (let e = \<lparr>re_media = media, re_type = type, re_position = p, re_updated = now, re_expires = now + state_ttl,
                                  re_source = device, re_label = gm_label m\<rparr>;
                             history = take max_resume_history (e # filter (\<lambda>x. re_media x \<noteq> media) (dg_history g));
                             recipients = filter (\<lambda>d. d \<noteq> device) (map gm_id (members_of g))
                         in (group_save (put_group gid (g\<lparr>dg_history := history, dg_resume := Some e\<rparr>) st), Inr now,
                             if recipients = [] then [] else [Note_Resume recipients e]))))))"

text \<open>A page of the history: the entries, the number of all and whether there are more.\<close>

definition get_resume_history ::
  "(string \<Rightarrow> bool) \<Rightarrow> time \<Rightarrow> string \<Rightarrow> string \<Rightarrow> int \<Rightarrow> int \<Rightarrow> group_store \<Rightarrow> group_store \<times> (group_error + resume list \<times> nat \<times> bool)" where
  "get_resume_history trusted now gid device offset limit st =
     (case authorized_group trusted gid device st of (st, None) \<Rightarrow> (st, Inl Gr_Forbidden)
      | (st, Some g) \<Rightarrow>
          (let history = filter (\<lambda>e. now < re_expires e) (dg_history g); a = nat (max 0 offset); n = nat (max 1 (min limit 50))
           in (st, Inr (take n (drop a history), length history, a + n < length history))))"

section \<open>Handoff\<close>

definition cleanup_handoffs :: "time \<Rightarrow> (string, handoff) dict \<Rightarrow> (string, handoff) dict" where
  "cleanup_handoffs now d = dkeep (\<lambda>x. now < ho_expires x) d"

definition request_handoff ::
  "(string \<Rightarrow> bool) \<Rightarrow> (string \<Rightarrow> real option) \<Rightarrow> time \<Rightarrow> string \<Rightarrow> string \<Rightarrow> string \<Rightarrow> string \<Rightarrow> string \<Rightarrow> string \<Rightarrow> json \<Rightarrow> group_store \<Rightarrow>
    group_store \<times> (group_error + string \<times> time) \<times> group_notice list" where
  "request_handoff trusted rl now hid gid source target media type pos st =
     (case normalize_position rl type pos of None \<Rightarrow> (st, Inl Gr_Invalid, [])
      | Some p \<Rightarrow>
          if str_strip media = [] then (st, Inl Gr_Invalid, [])
          else (case authorized_group trusted gid source st of (st, None) \<Rightarrow> (st, Inl Gr_Forbidden, [])
           | (st, Some g) \<Rightarrow>
               if find_member g target = None \<or> target = source then (st, Inl Gr_Forbidden, [])
               else (let g = g\<lparr>dg_handoffs := cleanup_handoffs now (dg_handoffs g)\<rparr>; st = put_group gid g st
                in if max_pending_handoffs \<le> length (dg_handoffs g) then (st, Inl Gr_Busy, [])
                   else (case find_member g source of None \<Rightarrow> (st, Inl (Gr_Py Type_Error), [])
                     | Some m \<Rightarrow>
                         (let r = \<lparr>ho_id = hid, ho_source = source, ho_label = gm_label m, ho_target = target, ho_media = media, ho_type = type,
                                   ho_position = p, ho_expires = now + handoff_ttl\<rparr>
                          in (group_save (put_group gid (g\<lparr>dg_handoffs := dput hid r (dg_handoffs g)\<rparr>) st), Inr (hid, now + handoff_ttl),
                              [Note_Handoff target r]))))))"

definition respond_handoff ::
  "(string \<Rightarrow> bool) \<Rightarrow> time \<Rightarrow> string \<Rightarrow> string \<Rightarrow> string \<Rightarrow> bool \<Rightarrow> group_store \<Rightarrow>
    group_store \<times> (group_error + handoff option) \<times> group_notice list" where
  "respond_handoff trusted now gid target hid accepted st =
     (case authorized_group trusted gid target st of (st, None) \<Rightarrow> (st, Inl Gr_Forbidden, [])
      | (st, Some g) \<Rightarrow>
          (let pending = cleanup_handoffs now (dg_handoffs g); st = put_group gid (g\<lparr>dg_handoffs := pending\<rparr>) st
           in case dget pending hid of None \<Rightarrow> (st, Inl Gr_Not_Found, [])
              | Some r \<Rightarrow>
                  if ho_target r \<noteq> target then (st, Inl Gr_Not_Found, [])
                  else (group_save (put_group gid (g\<lparr>dg_handoffs := dpop hid pending\<rparr>) st), Inr (if accepted then Some r else None),
                        [Note_Response (ho_source r) hid accepted target])))"

section \<open>A run\<close>

datatype group_op =
    Go_Create time string string string string string
  | Go_Join time string string string
  | Go_Renew time string string string
  | Go_List string string
  | Go_Leave string string
  | Go_Remove string string string
  | Go_Update_State time string string string json
  | Go_Get_State time string string
  | Go_Update_Resume time string string string string json
  | Go_History time string string int int
  | Go_Handoff time string string string string string string json
  | Go_Respond time string string string bool

record group_env =
  ge_hash :: "string \<Rightarrow> string"
  ge_default :: string
  ge_float :: "string \<Rightarrow> real option"

text \<open>The answer of an operation as far as a run needs it: whether it succeeded, for which group and device.\<close>

fun group_step :: "group_env \<Rightarrow> (string \<Rightarrow> bool) \<Rightarrow> group_op \<Rightarrow> group_store \<Rightarrow> group_store \<times> bool" where
  "group_step E tr (Go_Create now gid invite device name label) st =
     (let (st, r) = create_group tr (ge_hash E) (ge_default E) now gid invite device name label st in (st, is_ok r))"
| "group_step E tr (Go_Join now device secret label) st = (let (st, r, ns) = join_group tr (ge_hash E) now device secret label st in (st, is_ok r))"
| "group_step E tr (Go_Renew now invite gid device) st = (let (st, r) = renew_invite tr (ge_hash E) now invite gid device st in (st, is_ok r))"
| "group_step E tr (Go_List gid device) st = (let (st, r) = list_members tr gid device st in (st, is_ok r))"
| "group_step E tr (Go_Leave gid device) st = (let (st, r, ns) = leave_group tr gid device st in (st, is_ok r))"
| "group_step E tr (Go_Remove gid device target) st = (let (st, r, ns) = remove_member tr gid device target st in (st, is_ok r))"
| "group_step E tr (Go_Update_State now gid device track pos) st = (let (st, r) = update_state tr now gid device track pos st in (st, is_ok r))"
| "group_step E tr (Go_Get_State now gid device) st = (let (st, r) = get_state tr now gid device st in (st, is_ok r))"
| "group_step E tr (Go_Update_Resume now gid device media type pos) st =
     (let (st, r, ns) = update_resume tr (ge_float E) now gid device media type pos st in (st, is_ok r))"
| "group_step E tr (Go_History now gid device offset limit) st = (let (st, r) = get_resume_history tr now gid device offset limit st in (st, is_ok r))"
| "group_step E tr (Go_Handoff now hid gid source target media type pos) st =
     (let (st, r, ns) = request_handoff tr (ge_float E) now hid gid source target media type pos st in (st, is_ok r))"
| "group_step E tr (Go_Respond now gid target hid accepted) st = (let (st, r, ns) = respond_handoff tr now gid target hid accepted st in (st, is_ok r))"

text \<open>Which devices are trusted may change between the operations of a run.\<close>

fun group_run :: "group_env \<Rightarrow> ((string \<Rightarrow> bool) \<times> group_op) list \<Rightarrow> group_store \<Rightarrow> ((string \<Rightarrow> bool) \<times> group_op \<times> bool) list" where
  "group_run E [] st = []"
| "group_run E ((tr, op) # ops) st = (tr, op, snd (group_step E tr op st)) # group_run E ops (fst (group_step E tr op st))"

fun group_after :: "group_env \<Rightarrow> ((string \<Rightarrow> bool) \<times> group_op) list \<Rightarrow> group_store \<Rightarrow> group_store" where
  "group_after E [] st = st"
| "group_after E ((tr, op) # ops) st = group_after E ops (fst (group_step E tr op st))"

text \<open>The group and the device an operation speaks for.\<close>

fun op_caller :: "group_op \<Rightarrow> (string \<times> string) option" where
  "op_caller (Go_Renew now invite gid device) = Some (gid, device)"
| "op_caller (Go_List gid device) = Some (gid, device)"
| "op_caller (Go_Leave gid device) = Some (gid, device)"
| "op_caller (Go_Remove gid device target) = Some (gid, device)"
| "op_caller (Go_Update_State now gid device track pos) = Some (gid, device)"
| "op_caller (Go_Get_State now gid device) = Some (gid, device)"
| "op_caller (Go_Update_Resume now gid device media type pos) = Some (gid, device)"
| "op_caller (Go_History now gid device offset limit) = Some (gid, device)"
| "op_caller (Go_Handoff now hid gid source target media type pos) = Some (gid, source)"
| "op_caller (Go_Respond now gid target hid accepted) = Some (gid, target)"
| "op_caller _ = None"

section \<open>Members\<close>

definition member_ids :: "device_group \<Rightarrow> string list" where
  "member_ids g = map gm_id (members_of g)"

lemma as_member_id [simp]: "gm_id (as_member g (Member x)) = gm_id x" "gm_id (as_member g (Old_Member d)) = d"
  by (simp_all add: as_member_def)

lemma kept_simps [simp]: "kept_member (Old_Member d)" "kept_member (Member x) \<longleftrightarrow> gm_id x \<noteq> []"
  by (simp_all add: kept_member_def)

lemma member_ids_with: "member_ids (with_members ms g) = filter (\<lambda>d. d \<noteq> []) (map gm_id ms)"
  by (simp add: member_ids_def members_of_def with_members_def filter_map comp_def)

lemma as_member_update [simp]: "as_member (g\<lparr>dg_invite_hash := a\<rparr>) = as_member g" "as_member (g\<lparr>dg_invite_expires := b\<rparr>) = as_member g"
  "as_member (g\<lparr>dg_state := c\<rparr>) = as_member g" "as_member (g\<lparr>dg_history := d\<rparr>) = as_member g" "as_member (g\<lparr>dg_resume := e\<rparr>) = as_member g"
  "as_member (g\<lparr>dg_handoffs := f\<rparr>) = as_member g"
  by (simp_all add: fun_eq_iff as_member_def split: stored_member.split)

lemma members_of_update [simp]: "members_of (g\<lparr>dg_invite_hash := a\<rparr>) = members_of g" "members_of (g\<lparr>dg_invite_expires := b\<rparr>) = members_of g"
  "members_of (g\<lparr>dg_state := c\<rparr>) = members_of g" "members_of (g\<lparr>dg_history := d\<rparr>) = members_of g" "members_of (g\<lparr>dg_resume := e\<rparr>) = members_of g"
  "members_of (g\<lparr>dg_handoffs := f\<rparr>) = members_of g"
  by (simp_all add: members_of_def)

lemma member_ids_update [simp]: "member_ids (g\<lparr>dg_invite_hash := a\<rparr>) = member_ids g" "member_ids (g\<lparr>dg_invite_expires := b\<rparr>) = member_ids g"
  "member_ids (g\<lparr>dg_state := c\<rparr>) = member_ids g" "member_ids (g\<lparr>dg_history := d\<rparr>) = member_ids g" "member_ids (g\<lparr>dg_resume := e\<rparr>) = member_ids g"
  "member_ids (g\<lparr>dg_handoffs := f\<rparr>) = member_ids g" "member_ids (forget_source d1 g) = member_ids g"
  by (simp_all add: member_ids_def forget_source_def split: option.split)

lemma find_member_iff: "find_member g d \<noteq> None \<longleftrightarrow> d \<in> set (member_ids g)"
  by (auto simp: find_member_def member_ids_def find_None_iff)

lemma find_member_Some: "find_member g d = Some m \<Longrightarrow> gm_id m = d \<and> d \<in> set (member_ids g)"
  by (auto simp: find_member_def member_ids_def find_Some_iff)

lemma member_ids_normalize: "member_ids (normalize_members g) = filter (\<lambda>d. d \<noteq> []) (member_ids g)"
  unfolding normalize_members_def member_ids_with unfolding member_ids_def ..

definition ids :: "group_store \<Rightarrow> string \<Rightarrow> string set" where
  "ids st k = (case dget (gs_groups st) k of None \<Rightarrow> {} | Some g \<Rightarrow> set (member_ids g))"

lemma gs_put [simp]: "gs_groups (put_group k g st) = dput k g (gs_groups st)" "gs_groups (group_save st) = gs_groups st"
  by (simp_all add: put_group_def group_save_def)

lemma ids_put [simp]: "ids (put_group k g st) k' = (if k' = k then set (member_ids g) else ids st k')"
  by (simp add: ids_def dget_put)

lemma ids_save [simp]: "ids (group_save st) k = ids st k"
  by (simp add: ids_def)

lemma authorizedD:
  assumes "authorized_group tr gid d st = (st', r)"
  shows "ids st' k \<subseteq> ids st k"
    and "r = Some g \<Longrightarrow> tr d \<and> d \<in> set (member_ids g) \<and> dget (gs_groups st') gid = Some g \<and> set (member_ids g) \<subseteq> ids st gid \<and>
      (\<exists>g0. dget (gs_groups st) gid = Some g0 \<and> g = normalize_members g0)"
    and "r = None \<or> r = dget (gs_groups st') gid"
proof -
  consider "st' = st" "r = None" | g0 where "tr d" "dget (gs_groups st) gid = Some g0" "st' = put_group gid (normalize_members g0) st"
      "r = (if find_member (normalize_members g0) d = None then None else Some (normalize_members g0))"
    using assms by (cases "dget (gs_groups st) gid") (auto simp: authorized_group_def Let_def split: if_splits)
  then have "ids st' k \<subseteq> ids st k \<and> (r = None \<or> r = dget (gs_groups st') gid) \<and>
    (r = Some g \<longrightarrow> tr d \<and> d \<in> set (member_ids g) \<and> dget (gs_groups st') gid = Some g \<and> set (member_ids g) \<subseteq> ids st gid \<and>
      (\<exists>g0. dget (gs_groups st) gid = Some g0 \<and> g = normalize_members g0))"
  proof (cases)
    case 2
    have n: "set (member_ids (normalize_members g0)) \<subseteq> ids st gid" using 2(2) by (auto simp: member_ids_normalize ids_def)
    have "tr d \<and> d \<in> set (member_ids g) \<and> dget (gs_groups st') gid = Some g \<and> set (member_ids g) \<subseteq> ids st gid \<and>
      (\<exists>g0. dget (gs_groups st) gid = Some g0 \<and> g = normalize_members g0)" if r: "r = Some g"
    proof -
      have g: "g = normalize_members g0" "find_member g d \<noteq> None" using r 2(4) by (simp_all split: if_splits)
      then show ?thesis using n 2(1,2,3) find_member_iff [of g d] by (simp add: dget_put)
    qed
    moreover have "ids st' k \<subseteq> ids st k" "r = None \<or> r = dget (gs_groups st') gid" using n 2(3,4) by (simp_all add: dget_put)
    ultimately show ?thesis by blast
  qed simp_all
  then show "ids st' k \<subseteq> ids st k"
    and "r = Some g \<Longrightarrow> tr d \<and> d \<in> set (member_ids g) \<and> dget (gs_groups st') gid = Some g \<and> set (member_ids g) \<subseteq> ids st gid \<and>
      (\<exists>g0. dget (gs_groups st) gid = Some g0 \<and> g = normalize_members g0)"
    and "r = None \<or> r = dget (gs_groups st') gid" by blast+
qed

lemma authorized_refuses: "d \<notin> ids st gid \<Longrightarrow> \<exists>st'. authorized_group tr gid d st = (st', None)"
proof -
  assume d: "d \<notin> ids st gid"
  obtain st' r where a: "authorized_group tr gid d st = (st', r)" by fastforce
  show ?thesis
  proof (cases r)
    case (Some g)
    from authorizedD(2) [OF a this] d show ?thesis by blast
  qed (use a in simp)
qed

section \<open>What an operation does to the members\<close>

lemma ids_pop [simp]: "ids (st\<lparr>gs_groups := dpop gid (gs_groups st)\<rparr>) k = (if k = gid then {} else ids st k)"
  by (simp add: ids_def dget_pop)

lemma ids_with: "set (member_ids (with_members ms g)) = {d \<in> gm_id ` set ms. d \<noteq> []}"
  by (auto simp: member_ids_with)

lemma ids_members: "gm_id ` set (members_of g) = set (member_ids g)"
  by (simp add: member_ids_def)

lemma ids_filtered: "set (member_ids (with_members (filter (\<lambda>m. gm_id m \<noteq> d) (members_of g)) g')) = set (member_ids g) - {d, []}"
  using ids_members [of g, symmetric] by (auto simp: ids_with)

lemma ids_get: "dget (gs_groups st) k = Some g \<Longrightarrow> ids st k = set (member_ids g)"
  by (simp add: ids_def)

lemma leave_ids:
  assumes "leave_group tr gid d st = (st', r, ns)"
  shows "ids st' k \<subseteq> ids st k"
proof -
  obtain st1 g where a: "authorized_group tr gid d st = (st1, g)" by fastforce
  note A = authorizedD(1) [OF a, of k] authorizedD(2) [OF a]
  show ?thesis
  proof (cases g)
    case None
    then show ?thesis using assms A by (simp add: leave_group_def a)
  next
    case (Some g0)
    have "ids st' k \<subseteq> (if k = gid then set (member_ids g0) else ids st1 k)"
      using assms by (auto simp: leave_group_def a Some Let_def ids_filtered split: if_splits)
    then show ?thesis using A(1) A(2) [OF Some] by (auto split: if_splits)
  qed
qed

lemma remove_ids:
  assumes "remove_member tr gid d t st = (st', r, ns)"
  shows "ids st' k \<subseteq> ids st k" and "is_ok r \<Longrightarrow> t \<notin> ids st' gid \<and> tr d \<and> d \<in> ids st gid"
proof -
  obtain st1 g where a: "authorized_group tr gid d st = (st1, g)" by fastforce
  note A = authorizedD(1) [OF a, of k] authorizedD(2) [OF a]
  have "ids st' k \<subseteq> ids st k \<and> (is_ok r \<longrightarrow> t \<notin> ids st' gid \<and> tr d \<and> d \<in> ids st gid)"
  proof (cases g)
    case None
    then show ?thesis using assms A(1) by (auto simp: remove_member_def a split: if_splits)
  next
    case (Some g0)
    have "ids st' k \<subseteq> (if k = gid then set (member_ids g0) else ids st1 k) \<or> st' = st1 \<or> st' = st"
      "is_ok r \<Longrightarrow> t \<notin> ids st' gid"
      using assms by (auto simp: remove_member_def a Some Let_def ids_filtered split: if_splits option.splits)
    then show ?thesis using A(1) A(2) [OF Some] by (auto split: if_splits)
  qed
  then show "ids st' k \<subseteq> ids st k" and "is_ok r \<Longrightarrow> t \<notin> ids st' gid \<and> tr d \<and> d \<in> ids st gid" by blast+
qed

lemma relabel_ids [simp]: "map gm_id (relabel d l ms) = map gm_id ms"
  by (induction ms) simp_all

lemma relabel_set [simp]: "gm_id ` set (relabel d l ms) = gm_id ` set ms"
  by (metis list.set_map relabel_ids)

lemma join_ids:
  assumes "join_group tr h now d secret label st = (st', r, ns)" and "dict_ok (gs_groups st)"
  shows "ids st' k \<subseteq> insert d (ids st k)"
proof (cases "invited_group now (h (str_strip secret)) st")
  case None
  then show ?thesis using assms by (auto simp: join_group_def split: if_splits)
next
  case (Some kg)
  obtain gid g where kg: "kg = (gid, g)" by fastforce
  have "(gid, g) \<in> set (gs_groups st)" using Some unfolding kg invited_group_def by (metis find_Some_in)
  then have g: "ids st gid = set (member_ids g)" using assms(2) by (intro ids_get) (simp add: dget_set)
  let ?g = "normalize_members g"
  have n: "set (member_ids ?g) \<subseteq> ids st gid" by (auto simp: g member_ids_normalize)
  consider "st' = st" | "st' = put_group gid ?g st"
    | m where "st' = group_save (put_group gid (with_members (members_of ?g @ [m]) ?g) (put_group gid ?g st))" "gm_id m = d"
    | l where "st' = group_save (put_group gid (with_members (relabel d l (members_of ?g)) ?g) (put_group gid ?g st))"
  proof (cases "tr d")
    case False
    then show thesis using assms(1) that(1) by (simp add: join_group_def)
  next
    case True
    show thesis
    proof (cases "find (\<lambda>m. gm_id m = d) (members_of ?g)")
      case None
      then show thesis using assms(1) True that(2,3) by (auto simp: join_group_def Some kg Let_def split: if_splits)
    next
      case (Some m)
      then show thesis using assms(1) True that(2,4) \<open>invited_group now (h (str_strip secret)) st = Some kg\<close>
        by (auto simp: join_group_def kg Let_def split: if_splits)
    qed
  qed
  then have "ids st' k \<subseteq> (if k = gid then insert d (set (member_ids ?g)) else ids st k) \<or> st' = st"
  proof cases
    case 3
    then have "set (member_ids (with_members (members_of ?g @ [m]) ?g)) \<subseteq> insert d (set (member_ids ?g))" using ids_members [of ?g] by (auto simp: ids_with)
    then show ?thesis by (simp add: 3)
  next
    case 4
    then have "set (member_ids (with_members (relabel d l (members_of ?g)) ?g)) \<subseteq> insert d (set (member_ids ?g))" using ids_members [of ?g] by (auto simp: ids_with)
    then show ?thesis by (simp add: 4)
  qed auto
  then show ?thesis using n by (auto split: if_splits)
qed

lemma authorized_put:
  assumes "authorized_group tr gid d st = (st1, Some g)" and "member_ids g' = member_ids g"
  shows "ids (put_group gid g' st1) k \<subseteq> ids st k"
  using authorizedD(1) [OF assms(1), of k] authorizedD(2) [OF assms(1) refl] assms(2) by auto

lemma authorized_dict_ok: "dict_ok (gs_groups st) \<Longrightarrow> authorized_group tr gid d st = (st1, r) \<Longrightarrow> dict_ok (gs_groups st1)"
  by (auto simp: authorized_group_def Let_def split: if_splits option.splits)

lemma gs_pop [simp]: "gs_groups (group_save (st\<lparr>gs_groups := x\<rparr>)) = x"
  by (simp add: group_save_def)

lemma step_dict_ok: "dict_ok (gs_groups st) \<Longrightarrow> dict_ok (gs_groups (fst (group_step E tr op st)))"
proof (cases op)
  case (Go_Join now device secret label)
  assume "dict_ok (gs_groups st)"
  then show ?thesis by (auto simp: Go_Join join_group_def Let_def split: option.split)
qed (auto simp: create_group_def renew_invite_def list_members_def leave_group_def remove_member_def update_state_def get_state_def update_resume_def
      get_resume_history_def request_handoff_def respond_handoff_def Let_def authorized_dict_ok
      split: prod.split option.split sum.split if_splits dest: authorized_dict_ok)

fun enters :: "string \<Rightarrow> string \<Rightarrow> group_op \<Rightarrow> bool" where
  "enters gid d (Go_Join now device secret label) \<longleftrightarrow> device = d"
| "enters gid d (Go_Create now k invite device name label) \<longleftrightarrow> k = gid"
| "enters gid d op \<longleftrightarrow> False"

lemma quiet_ids:
  assumes "authorized_group tr gid d st = (st1, r)"
    and "ids st' k \<subseteq> ids st1 k \<union> (case r of None \<Rightarrow> {} | Some g \<Rightarrow> if k = gid then set (member_ids g) else {})"
  shows "ids st' k \<subseteq> ids st k"
  using assms(2) authorizedD(1) [OF assms(1), of k] authorizedD(2) [OF assms(1)] by (cases r) (auto split: if_splits)

lemma step_ids:
  assumes "dict_ok (gs_groups st)" and "\<not> enters gid d op" and "d \<notin> ids st gid"
  shows "d \<notin> ids (fst (group_step E tr op st)) gid"
proof (cases op)
  case (Go_Create now k invite device name label)
  then show ?thesis using assms by (auto simp: create_group_def Let_def)
next
  case (Go_Join now device secret label)
  obtain st' r ns where j: "join_group tr (ge_hash E) now device secret label st = (st', r, ns)" by (metis prod_cases3)
  show ?thesis using join_ids [OF j assms(1), of gid] assms(2,3) by (auto simp: Go_Join j)
next
  case (Go_Renew now invite k device)
  obtain st1 r where a: "authorized_group tr k device st = (st1, r)" by fastforce
  have "ids (fst (renew_invite tr (ge_hash E) now invite k device st)) gid \<subseteq> ids st gid"
    by (rule quiet_ids [OF a]) (cases r; auto split: if_splits simp: renew_invite_def a)
  then show ?thesis using assms(3) by (auto simp: Go_Renew case_prod_beta)
next
  case (Go_List k device)
  obtain st1 r where a: "authorized_group tr k device st = (st1, r)" by fastforce
  have "ids (fst (list_members tr k device st)) gid \<subseteq> ids st gid" by (rule quiet_ids [OF a]) (cases r; auto split: if_splits simp: list_members_def a)
  then show ?thesis using assms(3) by (auto simp: Go_List case_prod_beta)
next
  case (Go_Leave k device)
  obtain st' r ns where j: "leave_group tr k device st = (st', r, ns)" by (metis prod_cases3)
  show ?thesis using leave_ids [OF j, of gid] assms(3) by (auto simp: Go_Leave j)
next
  case (Go_Remove k device target)
  obtain st' r ns where j: "remove_member tr k device target st = (st', r, ns)" by (metis prod_cases3)
  show ?thesis using remove_ids(1) [OF j, of gid] assms(3) by (auto simp: Go_Remove j)
next
  case (Go_Update_State now k device track pos)
  obtain st1 r where a: "authorized_group tr k device st = (st1, r)" by fastforce
  have "ids (fst (update_state tr now k device track pos st)) gid \<subseteq> ids st gid"
    by (rule quiet_ids [OF a]) (cases r; auto split: if_splits simp: update_state_def a split: sum.split option.split)
  then show ?thesis using assms(3) by (auto simp: Go_Update_State case_prod_beta)
next
  case (Go_Get_State now k device)
  obtain st1 r where a: "authorized_group tr k device st = (st1, r)" by fastforce
  have "ids (fst (get_state tr now k device st)) gid \<subseteq> ids st gid" by (rule quiet_ids [OF a]) (cases r; auto split: if_splits simp: get_state_def a)
  then show ?thesis using assms(3) by (auto simp: Go_Get_State case_prod_beta)
next
  case (Go_Update_Resume now k device media type pos)
  obtain st1 r where a: "authorized_group tr k device st = (st1, r)" by fastforce
  have "ids (fst (update_resume tr (ge_float E) now k device media type pos st)) gid \<subseteq> ids st gid \<or> fst (update_resume tr (ge_float E) now k device media type pos st) = st"
  proof (cases "fst (update_resume tr (ge_float E) now k device media type pos st) = st")
    case False
    have "ids (fst (update_resume tr (ge_float E) now k device media type pos st)) gid \<subseteq> ids st gid"
      by (rule quiet_ids [OF a]) (use False in \<open>cases r; auto simp: update_resume_def a Let_def split: option.split\<close>)
    then show ?thesis by blast
  qed simp
  then show ?thesis using assms(3) by (auto simp: Go_Update_Resume case_prod_beta)
next
  case (Go_History now k device offset limit)
  obtain st1 r where a: "authorized_group tr k device st = (st1, r)" by fastforce
  have "ids (fst (get_resume_history tr now k device offset limit st)) gid \<subseteq> ids st gid"
    by (rule quiet_ids [OF a]) (cases r; auto split: if_splits simp: get_resume_history_def a Let_def)
  then show ?thesis using assms(3) by (auto simp: Go_History case_prod_beta)
next
  case (Go_Handoff now hid k source target media type pos)
  obtain st1 r where a: "authorized_group tr k source st = (st1, r)" by fastforce
  have "ids (fst (request_handoff tr (ge_float E) now hid k source target media type pos st)) gid \<subseteq> ids st gid \<or>
      fst (request_handoff tr (ge_float E) now hid k source target media type pos st) = st"
  proof (cases "fst (request_handoff tr (ge_float E) now hid k source target media type pos st) = st")
    case False
    have "ids (fst (request_handoff tr (ge_float E) now hid k source target media type pos st)) gid \<subseteq> ids st gid"
      by (rule quiet_ids [OF a]) (use False in \<open>cases r; auto simp: request_handoff_def a Let_def split: option.split\<close>)
    then show ?thesis by blast
  qed simp
  then show ?thesis using assms(3) by (auto simp: Go_Handoff case_prod_beta)
next
  case (Go_Respond now k target hid accepted)
  obtain st1 r where a: "authorized_group tr k target st = (st1, r)" by fastforce
  have "ids (fst (respond_handoff tr now k target hid accepted st)) gid \<subseteq> ids st gid"
    by (rule quiet_ids [OF a]) (cases r; auto split: if_splits simp: respond_handoff_def a Let_def split: option.split)
  then show ?thesis using assms(3) by (auto simp: Go_Respond case_prod_beta)
qed

lemma caller_refused:
  assumes "op_caller op = Some (gid, d)" and "d \<notin> ids st gid"
  shows "\<not> snd (group_step E tr op st)"
proof -
  obtain st1 where a: "authorized_group tr gid d st = (st1, None)" using authorized_refuses [OF assms(2)] by blast
  show ?thesis using assms(1)
    by (cases op) (auto simp: renew_invite_def list_members_def leave_group_def remove_member_def update_state_def get_state_def update_resume_def
      get_resume_history_def request_handoff_def respond_handoff_def a Let_def split: option.split)
qed

lemma stays_out:
  assumes "dict_ok (gs_groups st)" and "d \<notin> ids st gid" and "\<forall>(tr, op) \<in> set ops. \<not> enters gid d op"
    and "(tr, op, ok) \<in> set (group_run E ops st)" and "op_caller op = Some (gid, d)"
  shows "\<not> ok"
  using assms
proof (induction ops arbitrary: st)
  case Nil
  then show ?case by simp
next
  case (Cons x ops)
  obtain tr1 op1 where x: "x = (tr1, op1)" by fastforce
  have s: "d \<notin> ids (fst (group_step E tr1 op1 st)) gid" using step_ids Cons.prems(1,2,3) by (simp add: x)
  show ?case
  proof (cases "(tr, op, ok) = (tr1, op1, snd (group_step E tr1 op1 st))")
    case True
    then show ?thesis using caller_refused [OF _ Cons.prems(2)] Cons.prems(5) by simp
  next
    case False
    then have "(tr, op, ok) \<in> set (group_run E ops (fst (group_step E tr1 op1 st)))" using Cons.prems(4) by (auto simp: x)
    then show ?thesis using Cons.IH [OF step_dict_ok [OF Cons.prems(1)] s] Cons.prems(3,5) by simp
  qed
qed

definition empty_groups :: group_store where
  "empty_groups = \<lparr>gs_groups = [], gs_file = []\<rparr>"

lemma after_dict_ok: "dict_ok (gs_groups st) \<Longrightarrow> dict_ok (gs_groups (group_after E ops st))"
  by (induction E ops st rule: group_after.induct) (simp_all add: step_dict_ok)

text \<open>C35 (a removed device is out). After any run, once a member has removed a device from a group, nothing the device
  asks of that group succeeds, whatever the others do and whoever is trusted when, until it joins again with an
  invitation.\<close>

theorem removed_member_stays_out:
  assumes "remove_member tr gid d target (group_after E ops0 empty_groups) = (st, Inr u, ns)"
    and "\<forall>(tr, op) \<in> set ops. \<not> enters gid target op" and "(tr', op, ok) \<in> set (group_run E ops st)" and "op_caller op = Some (gid, target)"
  shows "\<not> ok"
proof -
  have ok: "dict_ok (gs_groups (group_after E ops0 empty_groups))" by (rule after_dict_ok) (simp add: empty_groups_def)
  have "dict_ok (gs_groups st)" using step_dict_ok [OF ok, of E tr "Go_Remove gid d target"] assms(1) by simp
  moreover have "target \<notin> ids st gid" using remove_ids(2) [OF assms(1)] by simp
  ultimately show ?thesis using stays_out assms(2-4) by blast
qed

section \<open>A removed device and the invitation\<close>

lemma find_dput:
  assumes "find P d = Some (k, v)" and "P (k, w)" and "dict_ok d"
  shows "find P (dput k w d) = Some (k, w)"
  using assms
proof (induction d)
  case (Cons x d)
  obtain k' v' where x: "x = (k', v')" by fastforce
  show ?case
  proof (cases "k' = k")
    case True
    then show ?thesis using Cons.prems(2) by (simp add: x)
  next
    case False
    then have "\<not> P x" using Cons.prems(1) by (auto simp: x split: if_splits)
    then show ?thesis using False Cons by (auto simp: x dict_ok_def)
  qed
qed simp

lemma normalized_invite [simp]: "dg_invite_expires (with_members ms g) = dg_invite_expires g" "dg_invite_hash (with_members ms g) = dg_invite_hash g"
  "dg_invite_expires (forget_source d g) = dg_invite_expires g" "dg_invite_hash (forget_source d g) = dg_invite_hash g"
  "dg_invite_expires (normalize_members g) = dg_invite_expires g" "dg_invite_hash (normalize_members g) = dg_invite_hash g"
  by (simp_all add: with_members_def forget_source_def normalize_members_def split: option.split)

lemma member_ids_length: "length (members_of g) = length (member_ids g)"
  by (simp add: member_ids_def)

text \<open>A device is removed from a group while the invitation it may have
  come with is still running. The invitation is not renewed: with the same code the device is a member again.\<close>

theorem removed_member_rejoins:
  assumes "dict_ok (gs_groups st)" and "invited_group now (h (str_strip secret)) st = Some (gid, g)" and "length (member_ids g) \<le> max_devices"
    and "remove_member tr gid d target st = (st', Inr u, ns)" and "tr target" and "target \<noteq> []"
  shows "\<exists>st2 name ns'. join_group tr h now target secret label st' = (st2, Inr (gid, name), ns') \<and> target \<in> ids st2 gid"
proof -
  have in_st: "dget (gs_groups st) gid = Some g"
    using assms(1,2) by (auto simp: invited_group_def dget_set dest: find_Some_in)
  let ?n = "normalize_members g"
  let ?rest = "filter (\<lambda>x. gm_id x \<noteq> target) (members_of ?n)"
  let ?g = "forget_source target (with_members ?rest ?n)"
  obtain st1 where a: "authorized_group tr gid d st = (st1, Some ?n)" "st1 = put_group gid ?n st" "find_member ?n target \<noteq> None"
    using assms(4) in_st by (auto simp: remove_member_def authorized_group_def Let_def split: if_splits option.splits)
  have st': "st' = group_save (put_group gid ?g st1)"
    using assms(4) a by (auto simp: remove_member_def Let_def split: if_splits option.splits)
  have inv: "invited_group now (h (str_strip secret)) st' = Some (gid, ?g)"
  proof -
    have p: "now < dg_invite_expires g \<and> dg_invite_hash g = h (str_strip secret)" using assms(2) by (auto simp: invited_group_def dest: find_Some_in)
    have "find (\<lambda>(k, g). now < dg_invite_expires g \<and> dg_invite_hash g = h (str_strip secret)) (dput gid ?g (gs_groups st)) = Some (gid, ?g)"
      by (rule find_dput [OF assms(2) [unfolded invited_group_def] _ assms(1)]) (use p in simp)
    then show ?thesis by (simp add: invited_group_def st' a(2))
  qed
  let ?ms = "members_of (normalize_members ?g)"
  have sub: "map gm_id ?ms = filter (\<lambda>x. x \<noteq> []) (member_ids ?g)" using member_ids_normalize [of ?g] by (simp add: member_ids_def)
  have ids: "member_ids ?g = filter (\<lambda>d. d \<noteq> []) (map gm_id ?rest)" by (simp add: member_ids_with)
  have out: "target \<notin> set (map gm_id ?ms)" unfolding sub ids by auto
  have "length ?rest < length (members_of ?n)" using a(3) unfolding find_member_def by (auto simp: find_None_iff intro: length_filter_less)
  then have "length (member_ids ?g) < length (member_ids ?n)" unfolding ids using length_filter_le [of "\<lambda>d. d \<noteq> []" "map gm_id ?rest"]
    by (simp add: member_ids_length [symmetric])
  moreover have "length (member_ids ?n) \<le> max_devices" using assms(3) by (simp add: member_ids_normalize) (meson length_filter_le order_trans)
  ultimately have "length (map gm_id ?ms) < max_devices" unfolding sub by (meson le_less_trans length_filter_le less_le_trans)
  then have room: "\<not> max_devices \<le> length ?ms" by simp
  have new: "find (\<lambda>m. gm_id m = target) ?ms = None" using out by (auto simp: find_None_iff)
  show ?thesis using assms(5,6) by (simp add: join_group_def inv Let_def new room ids_with)
qed

definition demo_groups_env :: group_env where
  "demo_groups_env = \<lparr>ge_hash = id, ge_default = ''My devices'', ge_float = (\<lambda>s. None)\<rparr>"

definition demo_trust :: "string \<Rightarrow> bool" where "demo_trust d \<longleftrightarrow> d \<noteq> []"

definition demo_group_ops :: "((string \<Rightarrow> bool) \<times> group_op) list" where
  "demo_group_ops = [(demo_trust, Go_Create 0 ''g'' ''s'' ''a'' ''tv'' ''tv''), (demo_trust, Go_Join 1 ''b'' ''s'' ''pc'')]"

definition demo_group :: device_group where
  "demo_group = \<lparr>dg_name = ''tv'', dg_members = [Member \<lparr>gm_id = ''a'', gm_label = ''tv'', gm_joined = 0\<rparr>,
     Member \<lparr>gm_id = ''b'', gm_label = device_label ''b'' ''pc'', gm_joined = 1\<rparr>], dg_created = 0, dg_invite_hash = ''s'', dg_invite_expires = 600,
     dg_state = None, dg_history = [], dg_resume = None, dg_handoffs = []\<rparr>"

lemma group_demo_strip: "str_strip ''s'' = ''s''" "str_strip ''tv'' = ''tv''"
  by (simp_all add: str_strip_def is_space_def char_eval)

lemma demo_label: "device_label ''a'' ''tv'' = ''tv''" by (simp add: device_label_def group_demo_strip Let_def)

lemma demo_group_store: "gs_groups (group_after demo_groups_env demo_group_ops empty_groups) = [(''g'', demo_group)]"
  by (simp add: demo_group_ops_def demo_groups_env_def demo_trust_def create_group_def join_group_def empty_groups_def group_demo_strip Let_def invite_ttl_def
      invited_group_def normalize_members_def members_of_def with_members_def as_member_def max_devices_def demo_group_def demo_label)

lemma group_demo_removed: "\<exists>st' ns. remove_member demo_trust ''g'' ''a'' ''b'' (group_after demo_groups_env demo_group_ops empty_groups) = (st', Inr (), ns)"
  by (simp add: remove_member_def authorized_group_def demo_group_store demo_trust_def Let_def find_member_def normalize_members_def members_of_def
      with_members_def as_member_def demo_group_def)

theorem removed_member_stays_out_witness:
  "\<exists>st'. group_run demo_groups_env [(demo_trust, Go_List ''g'' ''b'')] st' = [(demo_trust, Go_List ''g'' ''b'', False)]"
proof -
  obtain st' ns where r: "remove_member demo_trust ''g'' ''a'' ''b'' (group_after demo_groups_env demo_group_ops empty_groups) = (st', Inr (), ns)"
    using group_demo_removed by blast
  obtain ok where ok: "group_run demo_groups_env [(demo_trust, Go_List ''g'' ''b'')] st' = [(demo_trust, Go_List ''g'' ''b'', ok)]" by simp
  have "\<not> ok" by (rule removed_member_stays_out [OF r, of "[(demo_trust, Go_List ''g'' ''b'')]" demo_trust "Go_List ''g'' ''b''"]) (use ok in simp_all)
  with ok show ?thesis by auto
qed

theorem removed_member_rejoins_witness:
  "\<exists>st' st2 name ns'. join_group demo_trust id 50 ''b'' ''s'' ''pc'' st' = (st2, Inr (''g'', name), ns') \<and> ''b'' \<in> ids st2 ''g''"
proof -
  obtain st' ns where r: "remove_member demo_trust ''g'' ''a'' ''b'' (group_after demo_groups_env demo_group_ops empty_groups) = (st', Inr (), ns)"
    using group_demo_removed by blast
  have "\<exists>st2 name ns'. join_group demo_trust id 50 ''b'' ''s'' ''pc'' st' = (st2, Inr (''g'', name), ns') \<and> ''b'' \<in> ids st2 ''g''"
    by (rule removed_member_rejoins [OF _ _ _ r, of _ _ _ demo_group])
      (simp_all add: demo_group_store dict_ok_def invited_group_def group_demo_strip member_ids_def members_of_def demo_group_def max_devices_def demo_trust_def)
  then show ?thesis by blast
qed

section \<open>Handoffs\<close>

definition pending :: "group_store \<Rightarrow> string \<Rightarrow> (string \<times> handoff) set" where
  "pending st k = (case dget (gs_groups st) k of None \<Rightarrow> {} | Some g \<Rightarrow> set (dg_handoffs g))"

lemma pending_put [simp]: "pending (put_group k g st) k' = (if k' = k then set (dg_handoffs g) else pending st k')"
  by (simp add: pending_def dget_put)

lemma pending_save [simp]: "pending (group_save st) k = pending st k"
  by (simp add: pending_def)

lemma pending_pop [simp]: "pending (st\<lparr>gs_groups := dpop gid (gs_groups st)\<rparr>) k = (if k = gid then {} else pending st k)"
  by (simp add: pending_def dget_pop)

lemma handoffs_frame [simp]: "dg_handoffs (with_members ms g) = dg_handoffs g" "dg_handoffs (forget_source d g) = dg_handoffs g"
  "dg_handoffs (normalize_members g) = dg_handoffs g"
  by (simp_all add: with_members_def forget_source_def normalize_members_def split: option.split)

lemma authorized_pending:
  assumes "authorized_group tr gid d st = (st1, r)"
  shows "pending st1 k = pending st k" and "r = Some g \<Longrightarrow> set (dg_handoffs g) = pending st gid"
  using assms by (auto simp: authorized_group_def Let_def pending_def dget_put split: if_splits option.splits)

lemma quiet_pending:
  assumes "authorized_group tr gid d st = (st1, r)"
    and "pending st' k \<subseteq> pending st1 k \<union> (case r of None \<Rightarrow> {} | Some g \<Rightarrow> if k = gid then set (dg_handoffs g) else {})"
  shows "pending st' k \<subseteq> pending st k"
  using assms(2) authorized_pending(1) [OF assms(1), of k] authorized_pending(2) [OF assms(1)] by (cases r) (auto split: if_splits)

text \<open>An operation that answers a handoff of a group, and one that requests it.\<close>

fun answers :: "string \<Rightarrow> string \<Rightarrow> group_op \<Rightarrow> bool" where
  "answers gid hid (Go_Respond now k target h accepted) \<longleftrightarrow> k = gid \<and> h = hid"
| "answers gid hid op \<longleftrightarrow> False"

fun requests :: "string \<Rightarrow> string \<Rightarrow> handoff \<Rightarrow> group_op \<Rightarrow> bool" where
  "requests gid hid r (Go_Handoff now h k source target media type pos) \<longleftrightarrow>
     h = hid \<and> k = gid \<and> ho_source r = source \<and> ho_target r = target \<and> ho_media r = media \<and> ho_expires r = now + handoff_ttl"
| "requests gid hid r op \<longleftrightarrow> False"

lemma join_pending:
  assumes "join_group tr h now d secret label st = (st', r, ns)" and "dict_ok (gs_groups st)"
  shows "pending st' k = pending st k"
proof (cases "invited_group now (h (str_strip secret)) st")
  case None
  then show ?thesis using assms by (auto simp: join_group_def split: if_splits)
next
  case (Some kg)
  obtain gid g where kg: "kg = (gid, g)" by fastforce
  have "(gid, g) \<in> set (gs_groups st)" using Some unfolding kg invited_group_def by (metis find_Some_in)
  then have "dget (gs_groups st) gid = Some g" using assms(2) by (simp add: dget_set)
  then have g: "pending st gid = set (dg_handoffs g)" by (simp add: pending_def)
  show ?thesis using assms(1) g by (auto simp: join_group_def Some kg Let_def split: if_splits option.splits)
qed

lemma respond_pending:
  assumes "respond_handoff tr now gid t hid acc st = (st', r, ns)"
  shows "pending st' k \<subseteq> pending st k" and "is_ok r \<Longrightarrow> (hid, x) \<notin> pending st' gid"
    and "is_ok r \<Longrightarrow> \<exists>x. (hid, x) \<in> pending st gid \<and> ho_target x = t \<and> now < ho_expires x"
proof -
  obtain st1 o1 where a: "authorized_group tr gid t st = (st1, o1)" by fastforce
  have "pending st' k \<subseteq> pending st k \<and> (is_ok r \<longrightarrow> (hid, x) \<notin> pending st' gid \<and> (\<exists>x. (hid, x) \<in> pending st gid \<and> ho_target x = t \<and> now < ho_expires x))"
  proof (cases o1)
    case None
    then show ?thesis using assms authorized_pending(1) [OF a] by (auto simp: respond_handoff_def a)
  next
    case (Some g)
    have g: "set (dg_handoffs g) = pending st gid" using authorized_pending(2) [OF a Some] .
    have sub: "set (cleanup_handoffs now (dg_handoffs g)) \<subseteq> pending st gid" by (auto simp: cleanup_handoffs_def set_dkeep g [symmetric])
    show ?thesis
    proof (cases "\<exists>x. dget (cleanup_handoffs now (dg_handoffs g)) hid = Some x \<and> ho_target x = t")
      case False
      then have "\<not> is_ok r \<and> st' = put_group gid (g\<lparr>dg_handoffs := cleanup_handoffs now (dg_handoffs g)\<rparr>) st1"
        using assms by (auto simp: respond_handoff_def a Some Let_def split: option.splits if_splits)
      then show ?thesis using sub authorized_pending(1) [OF a, of k] by auto
    next
      case True
      then obtain y where y: "dget (cleanup_handoffs now (dg_handoffs g)) hid = Some y" "ho_target y = t" by blast
      then have e: "st' = group_save (put_group gid (g\<lparr>dg_handoffs := dpop hid (cleanup_handoffs now (dg_handoffs g))\<rparr>)
          (put_group gid (g\<lparr>dg_handoffs := cleanup_handoffs now (dg_handoffs g)\<rparr>) st1))"
        using assms by (simp add: respond_handoff_def a Some Let_def)
      have "(hid, y) \<in> set (cleanup_handoffs now (dg_handoffs g))" using y(1) by (rule map_of_SomeD)
      then have "(hid, y) \<in> pending st gid \<and> now < ho_expires y" using g by (auto simp: cleanup_handoffs_def set_dkeep)
      then show ?thesis using y(2) sub authorized_pending(1) [OF a, of k] by (auto simp: e dest: in_set_pop)
    qed
  qed
  then show "pending st' k \<subseteq> pending st k" and "is_ok r \<Longrightarrow> (hid, x) \<notin> pending st' gid"
    and "is_ok r \<Longrightarrow> \<exists>x. (hid, x) \<in> pending st gid \<and> ho_target x = t \<and> now < ho_expires x" by blast+
qed

lemma handoff_pending:
  assumes "request_handoff tr rl now hid gid source target media type pos st = (st', r, ns)" and "(k, x) \<in> pending st' gid'"
  shows "(k, x) \<in> pending st gid' \<or> is_ok r \<and> gid' = gid \<and> k = hid \<and> requests gid hid x (Go_Handoff now hid gid source target media type pos)"
proof (cases "st' = st")
  case False
  obtain st1 o1 where a: "authorized_group tr gid source st = (st1, o1)" by fastforce
  show ?thesis
  proof (cases o1)
    case None
    then show ?thesis using assms False authorized_pending(1) [OF a] by (auto simp: request_handoff_def a split: option.splits if_splits)
  next
    case (Some g)
    have sub: "set (cleanup_handoffs now (dg_handoffs g)) \<subseteq> pending st gid"
      by (auto simp: cleanup_handoffs_def set_dkeep authorized_pending(2) [OF a Some, symmetric])
    show ?thesis using assms False sub authorized_pending(1) [OF a, of gid']
      by (auto simp: request_handoff_def a Some Let_def split: option.splits if_splits dest!: in_set_put)
  qed
qed (use assms in simp)

lemma step_pending:
  assumes "dict_ok (gs_groups st)" and "(k, x) \<in> pending (fst (group_step E tr op st)) gid"
  shows "(k, x) \<in> pending st gid \<and> \<not> (snd (group_step E tr op st) \<and> answers gid k op) \<or> snd (group_step E tr op st) \<and> requests gid k x op"
proof (cases op)
  case (Go_Create now k' invite device name label)
  then show ?thesis using assms by (auto simp: create_group_def Let_def split: if_splits)
next
  case (Go_Join now device secret label)
  obtain st' r ns where j: "join_group tr (ge_hash E) now device secret label st = (st', r, ns)" by (metis prod_cases3)
  show ?thesis using join_pending [OF j assms(1), of gid] assms(2) by (auto simp: Go_Join j)
next
  case (Go_Renew now invite k' device)
  obtain st1 r where a: "authorized_group tr k' device st = (st1, r)" by fastforce
  have "pending (fst (renew_invite tr (ge_hash E) now invite k' device st)) gid \<subseteq> pending st gid"
    by (rule quiet_pending [OF a]) (cases r; auto simp: renew_invite_def a)
  then show ?thesis using assms(2) by (auto simp: Go_Renew case_prod_beta)
next
  case (Go_List k' device)
  obtain st1 r where a: "authorized_group tr k' device st = (st1, r)" by fastforce
  have "pending (fst (list_members tr k' device st)) gid \<subseteq> pending st gid" by (rule quiet_pending [OF a]) (cases r; auto simp: list_members_def a)
  then show ?thesis using assms(2) by (auto simp: Go_List case_prod_beta)
next
  case (Go_Leave k' device)
  obtain st1 r where a: "authorized_group tr k' device st = (st1, r)" by fastforce
  have "pending (fst (leave_group tr k' device st)) gid \<subseteq> pending st gid"
    by (rule quiet_pending [OF a]) (cases r; auto simp: leave_group_def a Let_def split: if_splits)
  then show ?thesis using assms(2) by (auto simp: Go_Leave case_prod_beta)
next
  case (Go_Remove k' device target)
  have "pending (fst (remove_member tr k' device target st)) gid \<subseteq> pending st gid"
  proof (cases "device = target")
    case False
    obtain st1 r where a: "authorized_group tr k' device st = (st1, r)" by fastforce
    show ?thesis by (rule quiet_pending [OF a]) (use False in \<open>cases r; auto simp: remove_member_def a Let_def split: option.splits\<close>)
  qed (simp add: remove_member_def)
  then show ?thesis using assms(2) by (auto simp: Go_Remove case_prod_beta)
next
  case (Go_Update_State now k' device track pos)
  obtain st1 r where a: "authorized_group tr k' device st = (st1, r)" by fastforce
  have "pending (fst (update_state tr now k' device track pos st)) gid \<subseteq> pending st gid"
    by (rule quiet_pending [OF a]) (cases r; auto simp: update_state_def a split: sum.splits option.splits)
  then show ?thesis using assms(2) by (auto simp: Go_Update_State case_prod_beta)
next
  case (Go_Get_State now k' device)
  obtain st1 r where a: "authorized_group tr k' device st = (st1, r)" by fastforce
  have "pending (fst (get_state tr now k' device st)) gid \<subseteq> pending st gid" by (rule quiet_pending [OF a]) (cases r; auto simp: get_state_def a)
  then show ?thesis using assms(2) by (auto simp: Go_Get_State case_prod_beta)
next
  case (Go_Update_Resume now k' device media type pos)
  have "pending (fst (update_resume tr (ge_float E) now k' device media type pos st)) gid \<subseteq> pending st gid"
  proof (cases "fst (update_resume tr (ge_float E) now k' device media type pos st) = st")
    case False
    obtain st1 r where a: "authorized_group tr k' device st = (st1, r)" by fastforce
    show ?thesis by (rule quiet_pending [OF a]) (use False in \<open>cases r; auto split: if_splits simp: update_resume_def a Let_def split: option.splits\<close>)
  qed simp
  then show ?thesis using assms(2) by (auto simp: Go_Update_Resume case_prod_beta)
next
  case (Go_History now k' device offset limit)
  obtain st1 r where a: "authorized_group tr k' device st = (st1, r)" by fastforce
  have "pending (fst (get_resume_history tr now k' device offset limit st)) gid \<subseteq> pending st gid"
    by (rule quiet_pending [OF a]) (cases r; auto simp: get_resume_history_def a Let_def)
  then show ?thesis using assms(2) by (auto simp: Go_History case_prod_beta)
next
  case (Go_Handoff now hid k' source target media type pos)
  obtain st' r ns where j: "request_handoff tr (ge_float E) now hid k' source target media type pos st = (st', r, ns)" by (metis prod_cases3)
  show ?thesis using handoff_pending [OF j] assms(2) by (auto simp: Go_Handoff j)
next
  case (Go_Respond now k' target hid accepted)
  obtain st' r ns where j: "respond_handoff tr now k' target hid accepted st = (st', r, ns)" by (metis prod_cases3)
  show ?thesis using respond_pending(1) [OF j, of gid] respond_pending(2) [OF j, of x] assms(2) by (auto simp: Go_Respond j)
qed

definition handoff_story :: "((string \<Rightarrow> bool) \<times> group_op \<times> bool) list \<Rightarrow> group_store \<Rightarrow> bool" where
  "handoff_story l st \<longleftrightarrow> dict_ok (gs_groups st) \<and> (\<forall>gid k x. (k, x) \<in> pending st gid \<longrightarrow>
     (\<exists>a tr op b. l = a @ (tr, op, True) # b \<and> requests gid k x op \<and> (\<forall>(tr', op', ok) \<in> set b. ok \<longrightarrow> \<not> answers gid k op')))"

lemma handoff_story_step:
  assumes "handoff_story l st"
  shows "handoff_story (l @ [(tr, op, snd (group_step E tr op st))]) (fst (group_step E tr op st))"
  unfolding handoff_story_def
proof (intro conjI allI impI)
  have d: "dict_ok (gs_groups st)" using assms by (simp add: handoff_story_def)
  then show "dict_ok (gs_groups (fst (group_step E tr op st)))" by (rule step_dict_ok)
  fix gid k x
  let ?ok = "snd (group_step E tr op st)"
  assume p: "(k, x) \<in> pending (fst (group_step E tr op st)) gid"
  show "\<exists>a tr' op' b. l @ [(tr, op, ?ok)] = a @ (tr', op', True) # b \<and> requests gid k x op' \<and> (\<forall>(tr', op', ok) \<in> set b. ok \<longrightarrow> \<not> answers gid k op')"
  proof (cases "?ok \<and> requests gid k x op")
    case True
    then show ?thesis by (intro exI [of _ l] exI [of _ tr] exI [of _ op] exI [of _ "[]"]) simp
  next
    case False
    then have o: "(k, x) \<in> pending st gid" "\<not> (?ok \<and> answers gid k op)" using step_pending [OF d p] by blast+
    then obtain a tr' op' b where b: "l = a @ (tr', op', True) # b" "requests gid k x op'" "\<forall>(tr', op', ok) \<in> set b. ok \<longrightarrow> \<not> answers gid k op'"
      using assms unfolding handoff_story_def by blast
    then show ?thesis using o(2) by (intro exI [of _ a] exI [of _ tr'] exI [of _ op'] exI [of _ "b @ [(tr, op, ?ok)]"]) auto
  qed
qed

lemma handoff_story_run: "handoff_story l st \<Longrightarrow> handoff_story (l @ group_run E ops st) (group_after E ops st)"
proof (induction ops arbitrary: l st)
  case (Cons x ops)
  obtain tr op where x: "x = (tr, op)" by fastforce
  from Cons.IH [OF handoff_story_step [OF Cons.prems, of tr op E]] show ?case by (simp add: x)
qed simp

lemma group_run_split:
  "group_run E ops st = l1 @ (tr, op, ok) # l2 \<Longrightarrow> \<exists>ops1. l1 = group_run E ops1 st \<and> ok = snd (group_step E tr op (group_after E ops1 st))"
proof (induction l1 arbitrary: ops st)
  case Nil
  then show ?case by (cases ops) (auto intro: exI [of _ "[]"])
next
  case (Cons y l1)
  then obtain tr' op' ops' where o: "ops = (tr', op') # ops'" by (cases ops) auto
  with Cons.prems have "group_run E ops' (fst (group_step E tr' op' st)) = l1 @ (tr, op, ok) # l2" "y = (tr', op', snd (group_step E tr' op' st))" by auto
  with Cons.IH [OF this(1)] show ?case by (metis group_after.simps(2) group_run.simps(2))
qed

text \<open>In every run from an empty store a successful answer to a
  handoff comes from the device that an earlier successful request of this handoff named, less than two minutes after
  it, and nobody has answered it in between.\<close>

theorem handoff_answered_once:
  assumes "group_run E ops empty_groups = l1 @ (tr, Go_Respond now gid target hid accepted, True) # l2"
  shows "\<exists>a tr0 now0 source media type pos b. l1 = a @ (tr0, Go_Handoff now0 hid gid source target media type pos, True) # b \<and>
    now < now0 + handoff_ttl \<and> (\<forall>(tr', op, ok) \<in> set b. ok \<longrightarrow> \<not> answers gid hid op)"
proof -
  obtain ops1 where l1: "l1 = group_run E ops1 empty_groups" and ok: "snd (group_step E tr (Go_Respond now gid target hid accepted) (group_after E ops1 empty_groups))"
    using group_run_split [OF assms] by auto
  have "handoff_story [] empty_groups" by (simp add: handoff_story_def empty_groups_def pending_def)
  from handoff_story_run [OF this, of E ops1] have st: "handoff_story l1 (group_after E ops1 empty_groups)" by (simp add: l1)
  obtain st' r ns where j: "respond_handoff tr now gid target hid accepted (group_after E ops1 empty_groups) = (st', r, ns)" by (metis prod_cases3)
  with ok have "is_ok r" by simp
  from respond_pending(3) [OF j this] obtain x where x: "(hid, x) \<in> pending (group_after E ops1 empty_groups) gid" "ho_target x = target" "now < ho_expires x" by blast
  then obtain a tr0 op b where b: "l1 = a @ (tr0, op, True) # b" "requests gid hid x op" "\<forall>(tr', op', ok) \<in> set b. ok \<longrightarrow> \<not> answers gid hid op'"
    using st unfolding handoff_story_def by blast
  from b(2) x obtain now0 source media type pos where "op = Go_Handoff now0 hid gid source target media type pos" "now < now0 + handoff_ttl"
    by (cases op) auto
  with b(1,3) show ?thesis by blast
qed

definition demo_handoff_ops :: "((string \<Rightarrow> bool) \<times> group_op) list" where
  "demo_handoff_ops = [(demo_trust, Go_Create 0 ''g'' ''s'' ''a'' ''tv'' ''tv''), (demo_trust, Go_Join 1 ''b'' ''s'' ''pc''),
     (demo_trust, Go_Handoff 2 ''x'' ''g'' ''a'' ''b'' ''tv'' ''audio'' (JObj []))]"

theorem handoff_answered_once_witness:
  "\<exists>a tr0 now0 source media type pos b. group_run demo_groups_env demo_handoff_ops empty_groups = a @ (tr0, Go_Handoff now0 ''x'' ''g'' source ''b'' media type pos, True) # b \<and>
    50 < now0 + handoff_ttl \<and> (\<forall>(tr', op, ok) \<in> set b. ok \<longrightarrow> \<not> answers ''g'' ''x'' op)"
proof -
  have "group_run demo_groups_env (demo_handoff_ops @ [(demo_trust, Go_Respond 50 ''g'' ''b'' ''x'' True)]) empty_groups =
      group_run demo_groups_env demo_handoff_ops empty_groups @ (demo_trust, Go_Respond 50 ''g'' ''b'' ''x'' True, True) # []"
    by (simp add: demo_handoff_ops_def demo_groups_env_def demo_trust_def create_group_def join_group_def request_handoff_def respond_handoff_def
        empty_groups_def group_demo_strip Let_def invite_ttl_def invited_group_def normalize_members_def members_of_def with_members_def as_member_def
        max_devices_def demo_label authorized_group_def find_member_def normalize_position_def jget_or_def cleanup_handoffs_def dkeep_def
        max_pending_handoffs_def handoff_ttl_def put_group_def group_save_def)
  from handoff_answered_once [OF this] show ?thesis .
qed

end
