(* ===== verification/Spec2Isabelle.thy ===== *)
theory Spec2Isabelle
  imports Web_Rate_Limits Shared_Paths Share_Tickets P2P_Invitations Web_Grants Sync_Room Collab_Queue Cluster_Tickets Device_Trust Public_Uploads
    Transfer_Sessions P2P_Relay Unlock_Codes Web_Sessions Cluster_Requests Cluster_Members Cluster_Pairing Security_Monitor Session_Groups
begin

text \<open>
  NetShare Player: models and properties of the server's core.
\<close>

end
